(* ===== verification/Prelude.thy ===== *)
theory Prelude
  imports Main "HOL-Library.AList" "HOL-Library.Sublist"
begin

text \<open>
  Shared vocabulary of the development: the collections of facts the component proofs use,
  Go maps as association lists with distinct keys, Go strings and byte slices as lists of
  bytes, decimal numerals, and a generic account of bounded logs and of operations that keep
  an invariant. Nothing here is specific to one package of the repository.
\<close>

named_theorems go_map \<open>lookups, updates and deletions on Go maps\<close>
named_theorems go_str \<open>byte strings, trimming and decimal numerals\<close>

section \<open>Go strings and byte slices\<close>

text \<open>
  A Go string and a byte slice are both a list of bytes, and an Isabelle char is a byte.
  The code of a byte is its value.
\<close>

type_synonym bytes = "char list"

abbreviation byte :: "char \<Rightarrow> nat" where
  "byte c \<equiv> of_char c"

abbreviation NL :: char where
  "NL \<equiv> CHR 0x0A"

lemma byte_neq: "c \<noteq> d \<Longrightarrow> byte c \<noteq> byte d"
  by (simp only: of_char_eq_iff not_False_eq_True)

text \<open>\<open>bytes.Contains\<close> and \<open>strings.Contains\<close>.\<close>

fun bytes_contains :: "bytes \<Rightarrow> bytes \<Rightarrow> bool" where
  "bytes_contains [] sub = (sub = [])"
| "bytes_contains (c # s) sub = (prefix sub (c # s) \<or> bytes_contains s sub)"

lemma bytes_contains_iff [go_str]: "bytes_contains s sub \<longleftrightarrow> sublist sub s"
  by (induction s) (auto simp: sublist_Cons_right)

section \<open>Go maps\<close>

text \<open>
  A Go map is an association list. The order of the list is one order in which \<open>range\<close> may
  visit the map; lookups do not depend on it. Writing to a key replaces its binding in place
  or adds one at the end, and deleting a key drops its binding.
\<close>

type_synonym 'v gomap = "(string \<times> 'v) list"

abbreviation kv_get :: "'v gomap \<Rightarrow> string \<Rightarrow> 'v option" where
  "kv_get m k \<equiv> map_of m k"

abbreviation kv_put :: "string \<Rightarrow> 'v \<Rightarrow> 'v gomap \<Rightarrow> 'v gomap" where
  "kv_put k v m \<equiv> AList.update k v m"

abbreviation kv_del :: "string \<Rightarrow> 'v gomap \<Rightarrow> 'v gomap" where
  "kv_del k m \<equiv> AList.delete k m"

abbreviation kv_wf :: "'v gomap \<Rightarrow> bool" where
  "kv_wf m \<equiv> distinct (map fst m)"

text \<open>
  The contract of a finite map: what a lookup returns after a write or a deletion, and that
  both keep the representation well formed. The stores and registries of the program are
  clients of this interface.
\<close>

locale finite_map =
  fixes emp :: "'m"
    and get :: "'m \<Rightarrow> 'k \<Rightarrow> 'v option"
    and put :: "'k \<Rightarrow> 'v \<Rightarrow> 'm \<Rightarrow> 'm"
    and del :: "'k \<Rightarrow> 'm \<Rightarrow> 'm"
    and wf :: "'m \<Rightarrow> bool"
  assumes get_emp: "get emp k = None"
    and get_put: "wf m \<Longrightarrow> get (put k v m) k' = (if k' = k then Some v else get m k')"
    and get_del: "wf m \<Longrightarrow> get (del k m) k' = (if k' = k then None else get m k')"
    and wf_emp: "wf emp"
    and wf_put: "wf m \<Longrightarrow> wf (put k v m)"
    and wf_del: "wf m \<Longrightarrow> wf (del k m)"
begin

text \<open>Writing a list of bindings in order: the last binding of a key wins.\<close>

definition put_all :: "('k \<times> 'v) list \<Rightarrow> 'm \<Rightarrow> 'm" where
  "put_all kvs m = fold (\<lambda>(k, v). put k v) kvs m"

lemma wf_put_all: "wf m \<Longrightarrow> wf (put_all kvs m)"
  unfolding put_all_def by (induction kvs arbitrary: m) (auto intro: wf_put)

lemma get_put_all:
  "wf m \<Longrightarrow> get (put_all kvs m) k =
     (case map_of (rev kvs) k of Some v \<Rightarrow> Some v | None \<Rightarrow> get m k)"
  unfolding put_all_def
proof (induction kvs arbitrary: m)
  case Nil
  then show ?case by simp
next
  case (Cons a kvs)
  then show ?case
    by (cases a) (auto simp: get_put wf_put map_add_def split: option.splits)
qed

lemma put_del_same: "wf m \<Longrightarrow> get (del k (put k v m)) k' = get (del k m) k'"
  by (simp add: get_del get_put wf_put)

end

interpretation kv: finite_map "[]" "map_of" "AList.update" "AList.delete" "\<lambda>m. distinct (map fst m)"
  by unfold_locales
    (auto simp: update_conv' delete_conv' distinct_update distinct_delete)

lemmas kv_rules [go_map] = kv.get_put kv.get_del kv.wf_put kv.wf_del

lemma map_of_kv_put [simp]: "map_of (kv_put k v m) = (map_of m)(k \<mapsto> v)"
  by (rule update_conv')

lemma map_of_kv_del [simp]: "map_of (kv_del k m) = (map_of m)(k := None)"
  by (rule delete_conv')

lemma kv_put_keys [simp]: "fst ` set (kv_put k v m) = insert k (fst ` set m)"
  by (metis dom_map_of_conv_image_fst map_of_kv_put dom_fun_upd option.simps(3))

lemma kv_put_vals: "snd ` set (kv_put k v m) \<subseteq> insert v (snd ` set m)"
  by (induction m) auto

lemma kv_put_mem: "x \<in> set (kv_put k v m) \<Longrightarrow> x = (k, v) \<or> x \<in> set m"
  by (induction m) (auto split: if_splits)

lemma kv_del_mem: "x \<in> set (kv_del k m) \<Longrightarrow> x \<in> set m"
  by (induction m) (auto split: if_splits)

section \<open>Decimal numerals\<close>

text \<open>\<open>strconv.Itoa\<close>, \<open>FormatInt\<close> and \<open>FormatUint\<close> in base ten.\<close>

definition digit_char :: "nat \<Rightarrow> char" where
  "digit_char d = char_of (48 + d)"

fun dec_digits :: "nat \<Rightarrow> string" where
  "dec_digits n = (if n < 10 then [digit_char n] else dec_digits (n div 10) @ [digit_char (n mod 10)])"

declare dec_digits.simps [simp del]

definition itoa :: "int \<Rightarrow> string" where
  "itoa n = (if n < 0 then CHR ''-'' # dec_digits (nat (- n)) else dec_digits (nat n))"

definition is_digit :: "char \<Rightarrow> bool" where
  "is_digit c \<longleftrightarrow> 48 \<le> byte c \<and> byte c \<le> 57"

definition digit_val :: "char \<Rightarrow> nat" where
  "digit_val c = byte c - 48"

text \<open>The value a string of digits denotes, most significant digit first.\<close>

definition dec_val :: "string \<Rightarrow> nat" where
  "dec_val s = foldl (\<lambda>acc c. acc * 10 + digit_val c) 0 s"

lemma byte_digit_char: "d < 10 \<Longrightarrow> byte (digit_char d) = 48 + d"
  by (simp add: digit_char_def)

lemma is_digit_digit_char [go_str]: "d < 10 \<Longrightarrow> is_digit (digit_char d)"
  by (simp add: is_digit_def byte_digit_char)

lemma digit_val_digit_char [go_str]: "d < 10 \<Longrightarrow> digit_val (digit_char d) = d"
  by (simp add: digit_val_def byte_digit_char)

lemma dec_digits_nonempty [simp]: "dec_digits n \<noteq> []"
  by (subst dec_digits.simps) simp

lemma dec_digits_all_digits [go_str]: "\<forall>c \<in> set (dec_digits n). is_digit c"
proof (induction n rule: dec_digits.induct)
  case (1 n)
  then show ?case
    by (cases "n < 10") (auto simp: dec_digits.simps [of n] is_digit_digit_char)
qed

lemma dec_val_snoc: "dec_val (s @ [c]) = dec_val s * 10 + digit_val c"
  by (simp add: dec_val_def)

lemma dec_val_dec_digits [go_str]: "dec_val (dec_digits n) = n"
proof (induction n rule: dec_digits.induct)
  case (1 n)
  show ?case
  proof (cases "n < 10")
    case True
    then show ?thesis by (simp add: dec_digits.simps [of n] dec_val_def digit_val_digit_char)
  next
    case False
    with 1 show ?thesis
      by (simp add: dec_digits.simps [of n] dec_val_snoc digit_val_digit_char)
  qed
qed

lemma dec_digits_inj: "dec_digits m = dec_digits n \<Longrightarrow> m = n"
  by (metis dec_val_dec_digits)

lemma dec_digits_length: "n < 10 ^ k \<Longrightarrow> 0 < k \<Longrightarrow> length (dec_digits n) \<le> k"
proof (induction n arbitrary: k rule: dec_digits.induct)
  case (1 n)
  show ?case
  proof (cases "n < 10")
    case True
    with "1.prems" show ?thesis by (simp add: dec_digits.simps [of n])
  next
    case False
    with "1.prems" obtain k' where k: "k = Suc k'" and "0 < k'"
      by (cases k; cases "k - 1") auto
    moreover have "n div 10 < 10 ^ k'"
      using "1.prems" k by (simp add: less_mult_imp_div_less mult.commute)
    ultimately show ?thesis
      using "1.IH" [of k'] False by (simp add: dec_digits.simps [of n])
  qed
qed

lemma hd_dec_digits: "0 < n \<Longrightarrow> hd (dec_digits n) \<noteq> CHR ''0''"
proof (induction n rule: dec_digits.induct)
  case (1 n)
  show ?case
  proof (cases "n < 10")
    case True
    then have "byte (hd (dec_digits n)) = 48 + n"
      by (simp add: dec_digits.simps [of n] byte_digit_char)
    with "1.prems" show ?thesis by auto
  next
    case False
    with "1.IH" show ?thesis by (simp add: dec_digits.simps [of n])
  qed
qed

section \<open>Operations that keep an invariant\<close>

text \<open>
  A component with state is a step function over the calls it serves. When every call keeps
  the invariant, so does every sequence of calls, which is how the components' invariants
  reach all the states a process can be in.
\<close>

fun run_steps :: "('s \<Rightarrow> 'op \<Rightarrow> 's) \<Rightarrow> 's \<Rightarrow> 'op list \<Rightarrow> 's" where
  "run_steps step s [] = s"
| "run_steps step s (x # xs) = run_steps step (step s x) xs"

lemma run_steps_append: "run_steps step s (xs @ ys) = run_steps step (run_steps step s xs) ys"
  by (induction xs arbitrary: s) auto

locale invariant_machine =
  fixes step :: "'s \<Rightarrow> 'op \<Rightarrow> 's"
    and inv :: "'s \<Rightarrow> bool"
  assumes step_inv: "inv s \<Longrightarrow> inv (step s x)"
begin

lemma run_inv: "inv s \<Longrightarrow> inv (run_steps step s xs)"
  by (induction xs arbitrary: s) (auto intro: step_inv)

text \<open>A quantity that no call decreases does not decrease over a run.\<close>

lemma run_mono:
  assumes "\<And>s x. inv s \<Longrightarrow> (f :: 's \<Rightarrow> 'b :: preorder) s \<le> f (step s x)" and "inv s"
  shows "f s \<le> f (run_steps step s xs)"
  using assms(2)
proof (induction xs arbitrary: s)
  case (Cons x xs)
  then show ?case
    using assms(1) [of s x] step_inv [of s x] by (auto intro: order_trans)
qed simp

end

section \<open>Bounded logs\<close>

text \<open>
  Two components keep a log of bounded size that drops its oldest records. The contract is
  that adding a record drops what no longer fits; the lemma says what any sequence of
  additions leaves.
\<close>

definition last_n :: "nat \<Rightarrow> 'a list \<Rightarrow> 'a list" where
  "last_n n xs = drop (length xs - n) xs"

lemma length_last_n [simp]: "length (last_n n xs) = min n (length xs)"
  by (simp add: last_n_def)

lemma last_n_all: "length xs \<le> n \<Longrightarrow> last_n n xs = xs"
  by (simp add: last_n_def)

lemma last_n_last_n_snoc:
  "0 < n \<Longrightarrow> last_n n (last_n n xs @ ys) = last_n n (xs @ ys)"
  by (cases "length xs \<le> n") (auto simp: last_n_def add.commute)

lemma set_last_n: "set (last_n n xs) \<subseteq> set xs"
  by (simp add: last_n_def set_drop_subset)

locale bounded_log =
  fixes add :: "'r \<Rightarrow> 'a \<Rightarrow> 'r"
    and recs :: "'r \<Rightarrow> 'b list"
    and entry :: "'r \<Rightarrow> 'a \<Rightarrow> 'b"
    and bound :: "'r \<Rightarrow> nat"
    and good :: "'r \<Rightarrow> bool"
  assumes add_recs: "good r \<Longrightarrow> recs (add r x) = last_n (bound r) (recs r @ [entry r x])"
    and add_bound: "bound (add r x) = bound r"
    and add_good: "good r \<Longrightarrow> good (add r x)"
    and good_pos: "good r \<Longrightarrow> 0 < bound r"
begin

fun entries :: "'r \<Rightarrow> 'a list \<Rightarrow> 'b list" where
  "entries r [] = []"
| "entries r (x # xs) = entry r x # entries (add r x) xs"

lemma length_entries [simp]: "length (entries r xs) = length xs"
  by (induction xs arbitrary: r) auto

lemma bound_run [simp]: "bound (run_steps add r xs) = bound r"
  by (induction xs arbitrary: r) (auto simp: add_bound)

text \<open>After any additions the log holds exactly the newest records that fit.\<close>

lemma recs_run:
  "good r \<Longrightarrow> length (recs r) \<le> bound r \<Longrightarrow>
     recs (run_steps add r xs) = last_n (bound r) (recs r @ entries r xs)"
proof (induction xs arbitrary: r)
  case Nil
  then show ?case by (simp add: last_n_all)
next
  case (Cons x xs)
  have "recs (run_steps add (add r x) xs)
      = last_n (bound r) (recs (add r x) @ entries (add r x) xs)"
    using Cons.IH [of "add r x"] Cons.prems add_good [of r x] add_recs [of r x]
    by (simp add: add_bound)
  then show ?case
    using Cons.prems good_pos [of r] by (simp add: add_recs last_n_last_n_snoc)
qed

lemma length_run: "good r \<Longrightarrow> length (recs r) \<le> bound r \<Longrightarrow>
    length (recs (run_steps add r xs)) \<le> bound r"
  by (simp add: recs_run)

end

section \<open>The first error of a loop\<close>

text \<open>A loop that returns on the first error of its body.\<close>

fun first_err :: "('a \<Rightarrow> 'e option) \<Rightarrow> 'a list \<Rightarrow> 'e option" where
  "first_err f [] = None"
| "first_err f (x # xs) = (case f x of Some err \<Rightarrow> Some err | None \<Rightarrow> first_err f xs)"

lemma first_err_cong [fundef_cong]:
  "xs = ys \<Longrightarrow> (\<And>x. x \<in> set ys \<Longrightarrow> f x = g x) \<Longrightarrow> first_err f xs = first_err g ys"
  by (induction xs arbitrary: ys) (auto split: option.split)

lemma first_err_None [simp]: "first_err f xs = None \<longleftrightarrow> (\<forall>x \<in> set xs. f x = None)"
  by (induction xs) (auto split: option.split)

end
