(* ===== verification/Golib.thy ===== *)
theory Golib
  imports Complex_Main Prelude
begin

text \<open>
  The part of the Go language and its standard library that the packages below rest on:
  dynamic values (\<open>any\<close>), 64-bit floats, integer conversions and parsing, UTF-8 decoding,
  character classes and trimming. What depends on data or algorithms that are not part of
  the repository (the Unicode tables beyond Latin-1, the shortest decimal of a float, regular
  expressions, the clock, conversions the language leaves to the implementation) is a field
  of the record \<open>golib\<close>, which every definition that uses it takes as an argument.
\<close>

section \<open>Floats\<close>

text \<open>
  A float64 is not-a-number, an infinity (\<open>True\<close> is negative), negative zero or a rational.
  Comparisons are the IEEE ones.
\<close>

datatype f64 = FNaN | FInf bool | FNegZero | FFin rat

fun f64_val :: "f64 \<Rightarrow> rat" where
  "f64_val (FFin q) = q"
| "f64_val _ = 0"

fun f64_finite :: "f64 \<Rightarrow> bool" where
  "f64_finite FNaN = False"
| "f64_finite (FInf s) = False"
| "f64_finite _ = True"

fun f64_eq :: "f64 \<Rightarrow> f64 \<Rightarrow> bool" where
  "f64_eq (FInf s) (FInf t) = (s = t)"
| "f64_eq x y = (f64_finite x \<and> f64_finite y \<and> f64_val x = f64_val y)"

fun f64_less :: "f64 \<Rightarrow> f64 \<Rightarrow> bool" where
  "f64_less FNaN y = False"
| "f64_less x FNaN = False"
| "f64_less (FInf s) (FInf t) = (s \<and> \<not> t)"
| "f64_less (FInf s) y = s"
| "f64_less x (FInf t) = (\<not> t)"
| "f64_less x y = (f64_val x < f64_val y)"

text \<open>
  Converting an integer to float64 keeps 53 significant bits and rounds to nearest, ties to
  even.
\<close>

fun bit_len :: "nat \<Rightarrow> nat" where
  "bit_len n = (if n = 0 then 0 else Suc (bit_len (n div 2)))"

declare bit_len.simps [simp del]

definition round53 :: "nat \<Rightarrow> nat" where
  "round53 n =
     (if n \<le> 2 ^ 53 then n
      else
        (let k = bit_len n - 53; q = n div 2 ^ k; r = n mod 2 ^ k; half = 2 ^ (k - 1);
             q' = (if r > half \<or> (r = half \<and> odd q) then q + 1 else q)
         in q' * 2 ^ k))"

definition f64_of_int :: "int \<Rightarrow> f64" where
  "f64_of_int n = FFin (of_int (if n < 0 then - int (round53 (nat (- n))) else int (round53 (nat n))))"

section \<open>Dynamic values\<close>

datatype ikind = KInt | KInt32 | KInt64 | KUint | KUint32 | KUint64

text \<open>
  The dynamic values a configuration tree is made of: nil, booleans, strings, the integer
  types, float64, float32 (its value as a float64), \<open>json.Number\<close>, \<open>[]any\<close>,
  \<open>map[string]any\<close>, \<open>[]map[string]any\<close> and \<open>map[any]any\<close>.
\<close>

datatype val =
    VNil
  | VBool bool
  | VStr string
  | VInt ikind int
  | VF64 f64
  | VF32 f64
  | VNum string
  | VList "val list"
  | VMap "(string \<times> val) list"
  | VMaps "(string \<times> val) list list"
  | VAny "(val \<times> val) list"

type_synonym kvs = "(string \<times> val) list"

record golib =
  uni_letter :: "nat \<Rightarrow> bool"
  uni_digit :: "nat \<Rightarrow> bool"
  parse_float :: "string \<Rightarrow> f64 option"
  fmt_other :: "val \<Rightarrow> string"
  conv_i64_ovf :: int
  conv_u64_ovf :: int
  regexp_compile :: "string \<Rightarrow> string option"
  regexp_match :: "string \<Rightarrow> string \<Rightarrow> bool"
  uptime :: int

text \<open>
  \<open>fmt.Sprint\<close>: strings and numbers print as themselves; floats and composite values print
  as the library formats them.
\<close>

fun sprint :: "golib \<Rightarrow> val \<Rightarrow> string" where
  "sprint E VNil = ''<nil>''"
| "sprint E (VBool b) = (if b then ''true'' else ''false'')"
| "sprint E (VStr s) = s"
| "sprint E (VInt k n) = itoa n"
| "sprint E (VNum s) = s"
| "sprint E v = fmt_other E v"

text \<open>A value is larger than the values it is made of.\<close>

lemma size_list_member [termination_simp]:
  "x \<in> set xs \<Longrightarrow> size (x :: val) < Suc (size_list size xs)"
  by (induction xs) auto

lemma size_kvs_member [termination_simp]:
  "kv \<in> set kvs \<Longrightarrow> size (snd kv :: val) < Suc (size_list (size_prod (\<lambda>_. 0) size) kvs)"
  by (induction kvs) (auto split: prod.splits)

lemma size_any_member [termination_simp]:
  "kw \<in> set kws \<Longrightarrow> size (snd kw :: val) < Suc (size_list (size_prod size size) kws)"
  by (induction kws) (auto split: prod.splits)

lemma size_maps_member [termination_simp]:
  "m \<in> set ms \<Longrightarrow> size_list (size_prod (\<lambda>_. 0) size) (m :: kvs)
     < Suc (size_list (size_list (size_prod (\<lambda>_. 0) size)) ms)"
  by (induction ms) auto

lemma val_induct [case_names nil bool str int f64 f32 num list map maps any]:
  assumes "P VNil" and "\<And>b. P (VBool b)" and "\<And>s. P (VStr s)" and "\<And>k n. P (VInt k n)"
    and "\<And>x. P (VF64 x)" and "\<And>x. P (VF32 x)" and "\<And>s. P (VNum s)"
    and "\<And>xs. (\<And>x. x \<in> set xs \<Longrightarrow> P x) \<Longrightarrow> P (VList xs)"
    and "\<And>kvs. (\<And>k v. (k, v) \<in> set kvs \<Longrightarrow> P v) \<Longrightarrow> P (VMap kvs)"
    and "\<And>ms. (\<And>m k v. m \<in> set ms \<Longrightarrow> (k, v) \<in> set m \<Longrightarrow> P v) \<Longrightarrow> P (VMaps ms)"
    and "\<And>kws. (\<And>k v. (k, v) \<in> set kws \<Longrightarrow> P v) \<Longrightarrow> P (VAny kws)"
  shows "P v"
proof (induction v rule: measure_induct_rule [of size])
  case (less v)
  show ?case
  proof (cases v)
    case (VMap kvs)
    then show ?thesis using less size_kvs_member [of _ kvs] by (auto intro!: assms(9))
  next
    case (VMaps ms)
    have "size w < size v" if "m \<in> set ms" "(k, w) \<in> set m" for m k w
      using size_maps_member [OF that(1)] size_kvs_member [OF that(2)] VMaps by simp
    then show ?thesis using less VMaps by (auto intro!: assms(10))
  next
    case (VAny kws)
    then show ?thesis using less size_any_member [of _ kws] by (auto intro!: assms(11))
  next
    case (VList xs)
    then show ?thesis using less size_list_member [of _ xs] by (auto intro!: assms(8))
  qed (use assms in auto)
qed

section \<open>Integer conversions and parsing\<close>

definition max_i64 :: int where "max_i64 = 2 ^ 63 - 1"
definition min_i64 :: int where "min_i64 = - (2 ^ 63)"
definition max_u64 :: int where "max_u64 = 2 ^ 64 - 1"

text \<open>\<open>strconv.ParseUint(s, 10, 64)\<close> and \<open>strconv.ParseInt(s, 10, 64)\<close>.\<close>

definition parse_uint :: "string \<Rightarrow> int option" where
  "parse_uint s =
     (if s = [] \<or> \<not> list_all is_digit s then None
      else if int (dec_val s) > max_u64 then None
      else Some (int (dec_val s)))"

definition parse_int :: "string \<Rightarrow> int option" where
  "parse_int s = (case s of
     [] \<Rightarrow> None
   | c # cs \<Rightarrow>
       (let neg = (c = CHR ''-''); body = (if c = CHR ''-'' \<or> c = CHR ''+'' then cs else s)
        in case parse_uint body of
             None \<Rightarrow> None
           | Some n \<Rightarrow>
               if \<not> neg \<and> n \<ge> 2 ^ 63 then None
               else if neg \<and> n > 2 ^ 63 then None
               else Some (if neg then - n else n)))"

text \<open>
  \<open>int64(x)\<close> and \<open>uint64(x)\<close> for an integral float. At the first value beyond the range,
  which the callers below let through, the language leaves the result to the implementation.
\<close>

definition f64_integral :: "f64 \<Rightarrow> bool" where
  "f64_integral x \<longleftrightarrow> f64_finite x \<and> of_int \<lfloor>f64_val x\<rfloor> = f64_val x"

definition f64_to_i64 :: "golib \<Rightarrow> f64 \<Rightarrow> int" where
  "f64_to_i64 E x = (if f64_val x = 2 ^ 63 then conv_i64_ovf E else \<lfloor>f64_val x\<rfloor>)"

definition f64_to_u64 :: "golib \<Rightarrow> f64 \<Rightarrow> int" where
  "f64_to_u64 E x = (if f64_val x = 2 ^ 64 then conv_u64_ovf E else \<lfloor>f64_val x\<rfloor>)"

section \<open>Runes and character classes\<close>

definition in_range :: "nat \<Rightarrow> nat \<Rightarrow> char \<Rightarrow> bool" where
  "in_range lo hi c \<longleftrightarrow> lo \<le> byte c \<and> byte c \<le> hi"

text \<open>
  The first rune of a UTF-8 string and its width. A byte that starts no valid sequence is the
  replacement rune of width one, as in a \<open>range\<close> over a string.
\<close>

definition decode_rune :: "char \<Rightarrow> string \<Rightarrow> nat \<times> nat" where
  "decode_rune c cs =
    (let b = byte c; bad = (65533, 1) in
     if b < 128 then (b, 1)
     else if b < 194 \<or> b > 244 then bad
     else if b < 224 then
       (case cs of
          c1 # _ \<Rightarrow> if in_range 128 191 c1 then ((b - 192) * 64 + (byte c1 - 128), 2) else bad
        | _ \<Rightarrow> bad)
     else if b < 240 then
       (case cs of
          c1 # c2 # _ \<Rightarrow>
            if in_range (if b = 224 then 160 else 128) (if b = 237 then 159 else 191) c1
               \<and> in_range 128 191 c2
            then ((b - 224) * 4096 + (byte c1 - 128) * 64 + (byte c2 - 128), 3) else bad
        | _ \<Rightarrow> bad)
     else
       (case cs of
          c1 # c2 # c3 # _ \<Rightarrow>
            if in_range (if b = 240 then 144 else 128) (if b = 244 then 143 else 191) c1
               \<and> in_range 128 191 c2 \<and> in_range 128 191 c3
            then ((b - 240) * 262144 + (byte c1 - 128) * 4096 + (byte c2 - 128) * 64
                  + (byte c3 - 128), 4) else bad
        | _ \<Rightarrow> bad))"

fun runes :: "string \<Rightarrow> nat list" where
  "runes [] = []"
| "runes (c # cs) = fst (decode_rune c cs) # runes (drop (snd (decode_rune c cs) - 1) cs)"

text \<open>\<open>unicode.IsLetter\<close> and \<open>unicode.IsDigit\<close>: the Latin-1 rows, then the tables.\<close>

definition is_letter :: "golib \<Rightarrow> nat \<Rightarrow> bool" where
  "is_letter E r =
     (if r < 256 then
        (65 \<le> r \<and> r \<le> 90) \<or> (97 \<le> r \<and> r \<le> 122) \<or> r = 170 \<or> r = 181 \<or> r = 186
        \<or> (192 \<le> r \<and> r \<le> 214) \<or> (216 \<le> r \<and> r \<le> 246) \<or> 248 \<le> r
      else uni_letter E r)"

definition is_digit_rune :: "golib \<Rightarrow> nat \<Rightarrow> bool" where
  "is_digit_rune E r = (if r < 256 then 48 \<le> r \<and> r \<le> 57 else uni_digit E r)"

section \<open>Trimming white space\<close>

text \<open>
  \<open>strings.TrimSpace\<close> removes the white space runes at both ends: the ASCII ones and the UTF-8
  sequences of the others. The two functions drop one leading white space rune, of the
  string and of its reverse.
\<close>

definition ascii_space :: "char \<Rightarrow> bool" where
  "ascii_space c \<longleftrightarrow> byte c = 32 \<or> (9 \<le> byte c \<and> byte c \<le> (13 :: nat))"

definition space3 :: "nat \<Rightarrow> nat \<Rightarrow> nat \<Rightarrow> bool" where
  "space3 a b c \<longleftrightarrow>
     (a = 225 \<and> b = 154 \<and> c = 128)
     \<or> (a = 226 \<and> b = 128 \<and> ((128 \<le> c \<and> c \<le> 138) \<or> c = 168 \<or> c = 169 \<or> c = 175))
     \<or> (a = 226 \<and> b = 129 \<and> c = 159)
     \<or> (a = 227 \<and> b = 128 \<and> c = 128)"

definition space2 :: "nat \<Rightarrow> nat \<Rightarrow> bool" where
  "space2 a b \<longleftrightarrow> a = 194 \<and> (b = 133 \<or> b = 160)"

fun ltrim :: "string \<Rightarrow> string" where
  "ltrim [] = []"
| "ltrim (a # s) =
     (if ascii_space a then ltrim s
      else case s of
        b # s2 \<Rightarrow>
          if space2 (byte a) (byte b) then ltrim s2
          else (case s2 of
              c # s3 \<Rightarrow> if space3 (byte a) (byte b) (byte c) then ltrim s3 else a # s
            | [] \<Rightarrow> a # s)
      | [] \<Rightarrow> a # s)"

fun rtrim_rev :: "string \<Rightarrow> string" where
  "rtrim_rev [] = []"
| "rtrim_rev (a # s) =
     (if ascii_space a then rtrim_rev s
      else case s of
        b # s2 \<Rightarrow>
          if space2 (byte b) (byte a) then rtrim_rev s2
          else (case s2 of
              c # s3 \<Rightarrow> if space3 (byte c) (byte b) (byte a) then rtrim_rev s3 else a # s
            | [] \<Rightarrow> a # s)
      | [] \<Rightarrow> a # s)"

definition TrimSpace :: "string \<Rightarrow> string" where
  "TrimSpace s = rev (rtrim_rev (rev (ltrim s)))"

text \<open>A string that starts and ends in plain ASCII other than white space is its own trimming.\<close>

definition plain_ascii :: "char \<Rightarrow> bool" where
  "plain_ascii c \<longleftrightarrow> 32 < byte c \<and> byte c < (127 :: nat)"

lemma ltrim_plain: "plain_ascii c \<Longrightarrow> ltrim (c # s) = c # s"
  by (auto simp: plain_ascii_def ascii_space_def space2_def space3_def split: list.splits)

lemma rtrim_plain: "plain_ascii c \<Longrightarrow> rtrim_rev (c # s) = c # s"
  by (auto simp: plain_ascii_def ascii_space_def space2_def space3_def split: list.splits)

lemma TrimSpace_plain:
  assumes "s \<noteq> []" "plain_ascii (hd s)" "plain_ascii (last s)"
  shows "TrimSpace s = s"
proof -
  from assms(1,2) have l: "ltrim s = s" by (cases s) (simp_all add: ltrim_plain del: ltrim.simps)
  from assms(1,3) have "rtrim_rev (rev s) = rev s"
    by (cases "rev s") (simp_all add: rtrim_plain hd_rev [symmetric] del: rtrim_rev.simps)
  with l show ?thesis by (simp add: TrimSpace_def)
qed

end
