(* ===== verification/Domainerr.thy ===== *)
theory Domainerr
  imports Prelude
begin

text \<open>
  Package \<open>domainerr\<close> (\<open>code.go\<close>, \<open>error.go\<close>): the closed catalog of error codes with
  their retry defaults, the error value that every layer passes around, its copying setters,
  and the constructors. A pointer to an error is an option, and the \<open>error\<close> interface is
  a datatype whose first constructor is the domain error.
\<close>

section \<open>Codes\<close>

type_synonym code = string

abbreviation "CodeValidationFailed \<equiv> ''validation_failed''"
abbreviation "CodeUnknownField \<equiv> ''unknown_field''"
abbreviation "CodeReservedKey \<equiv> ''reserved_key''"
abbreviation "CodeImmutableField \<equiv> ''immutable_field''"
abbreviation "CodeRevisionMismatch \<equiv> ''revision_mismatch''"
abbreviation "CodeNotFound \<equiv> ''not_found''"
abbreviation "CodeLockDenied \<equiv> ''lock_denied''"
abbreviation "CodeNotWritable \<equiv> ''not_writable''"
abbreviation "CodeWaitTimeout \<equiv> ''wait_timeout''"
abbreviation "CodeStoreWiped \<equiv> ''store_wiped''"
abbreviation "CodeUnauthorized \<equiv> ''unauthorized''"
abbreviation "CodeForbidden \<equiv> ''forbidden''"
abbreviation "CodeOriginNotAllowed \<equiv> ''origin_not_allowed''"
abbreviation "CodeTLSUnsupported \<equiv> ''tls_unsupported''"
abbreviation "CodeCallHomeUnsupported \<equiv> ''callhome_unsupported''"
abbreviation "CodeCandidateDirty \<equiv> ''candidate_dirty''"

definition catalog :: "(code \<times> bool) list" where
  "catalog =
    [(CodeValidationFailed, False), (CodeUnknownField, False), (CodeReservedKey, False),
     (CodeImmutableField, False), (CodeRevisionMismatch, True), (CodeNotFound, False),
     (CodeLockDenied, True), (CodeNotWritable, False), (CodeWaitTimeout, True),
     (CodeStoreWiped, False), (CodeUnauthorized, False), (CodeForbidden, False),
     (CodeOriginNotAllowed, False), (CodeTLSUnsupported, False),
     (CodeCallHomeUnsupported, False), (CodeCandidateDirty, True)]"

definition Codes :: "code list" where
  "Codes = map fst catalog"

fun retryable_in :: "(code \<times> bool) list \<Rightarrow> code \<Rightarrow> bool" where
  "retryable_in [] c = False"
| "retryable_in ((c', r) # es) c = (if c' = c then r else retryable_in es c)"

definition Retryable :: "code \<Rightarrow> bool" where
  "Retryable c = retryable_in catalog c"

section \<open>Error values\<close>

record field_violation =
  fv_path :: string
  fv_code :: string
  fv_message :: string

abbreviation fv :: "string \<Rightarrow> string \<Rightarrow> string \<Rightarrow> field_violation" where
  "fv p c m \<equiv> \<lparr>fv_path = p, fv_code = c, fv_message = m\<rparr>"

record derr =
  e_code :: code
  e_message :: string
  e_retryable :: bool
  e_violations :: "field_violation list"
  e_revision :: string
  e_remediation :: string

text \<open>
  The \<open>error\<close> interface values the modelled code handles: a domain error, the two errors a
  context reports, and any other error with its text.
\<close>

datatype goerr =
    GDomain derr
  | GCanceled
  | GDeadline
  | GOther string

definition error_string :: "derr option \<Rightarrow> string" where
  "error_string e = (case e of
     None \<Rightarrow> ''''
   | Some d \<Rightarrow> if e_message d = '''' then e_code d else e_code d @ '': '' @ e_message d)"

definition err_is :: "derr option \<Rightarrow> goerr \<Rightarrow> bool" where
  "err_is e target = (case target of
     GDomain t \<Rightarrow> (case e of None \<Rightarrow> False | Some d \<Rightarrow> e_code d = e_code t)
   | _ \<Rightarrow> False)"

definition err_as :: "goerr \<Rightarrow> derr option" where
  "err_as e = (case e of GDomain d \<Rightarrow> Some d | _ \<Rightarrow> None)"

definition New :: "code \<Rightarrow> string \<Rightarrow> derr" where
  "New c msg = \<lparr>e_code = c, e_message = msg, e_retryable = Retryable c,
     e_violations = [], e_revision = '''', e_remediation = ''''\<rparr>"

text \<open>A copy of an error is the same value; the setters change one field of the copy.\<close>

definition err_clone :: "derr option \<Rightarrow> derr option" where
  "err_clone e = (case e of None \<Rightarrow> None | Some d \<Rightarrow> Some (d\<lparr>e_violations := e_violations d\<rparr>))"

definition WithRemediation :: "derr option \<Rightarrow> string \<Rightarrow> derr option" where
  "WithRemediation e s = map_option (\<lambda>c. c\<lparr>e_remediation := s\<rparr>) (err_clone e)"

definition WithRevision :: "derr option \<Rightarrow> string \<Rightarrow> derr option" where
  "WithRevision e r = map_option (\<lambda>c. c\<lparr>e_revision := r\<rparr>) (err_clone e)"

definition WithViolations :: "derr option \<Rightarrow> field_violation list \<Rightarrow> derr option" where
  "WithViolations e v = (case e of
     None \<Rightarrow> None
   | Some d \<Rightarrow>
       if v = [] then Some d
       else map_option (\<lambda>c. c\<lparr>e_violations := e_violations c @ v\<rparr>) (err_clone (Some d)))"

definition with_violations :: "derr \<Rightarrow> field_violation list \<Rightarrow> derr" where
  "with_violations d v = (case WithViolations (Some d) v of Some c \<Rightarrow> c | None \<Rightarrow> d)"

section \<open>Constructors\<close>

definition ValidationFailed :: "string \<Rightarrow> field_violation list \<Rightarrow> derr" where
  "ValidationFailed msg vs = with_violations (New CodeValidationFailed msg) vs"

definition UnknownField :: "string \<Rightarrow> field_violation list \<Rightarrow> derr" where
  "UnknownField msg vs = with_violations (New CodeUnknownField msg) vs"

definition ReservedKey :: "string \<Rightarrow> field_violation list \<Rightarrow> derr" where
  "ReservedKey msg vs = with_violations (New CodeReservedKey msg) vs"

definition TLSUnsupported :: "string \<Rightarrow> field_violation list \<Rightarrow> derr" where
  "TLSUnsupported msg vs = with_violations (New CodeTLSUnsupported msg) vs"

definition CallHomeUnsupported :: "string \<Rightarrow> field_violation list \<Rightarrow> derr" where
  "CallHomeUnsupported msg vs = with_violations (New CodeCallHomeUnsupported msg) vs"

definition ImmutableField :: "string \<Rightarrow> field_violation list \<Rightarrow> derr" where
  "ImmutableField msg vs = with_violations (New CodeImmutableField msg) vs"

definition RevisionMismatch :: "string \<Rightarrow> string \<Rightarrow> derr" where
  "RevisionMismatch msg r = (New CodeRevisionMismatch msg)\<lparr>e_revision := r\<rparr>"

definition NotFound :: "string \<Rightarrow> derr" where
  "NotFound msg = New CodeNotFound msg"

definition LockDenied :: "string \<Rightarrow> derr" where
  "LockDenied msg = New CodeLockDenied msg"

definition NotWritable :: "string \<Rightarrow> derr" where
  "NotWritable msg = New CodeNotWritable msg"

definition WaitTimeout :: "string \<Rightarrow> derr" where
  "WaitTimeout msg = New CodeWaitTimeout msg"

definition StoreWiped :: "string \<Rightarrow> derr" where
  "StoreWiped msg = New CodeStoreWiped msg"

definition Unauthorized :: "string \<Rightarrow> derr" where
  "Unauthorized msg = New CodeUnauthorized msg"

definition Forbidden :: "string \<Rightarrow> derr" where
  "Forbidden msg = New CodeForbidden msg"

definition OriginNotAllowed :: "string \<Rightarrow> derr" where
  "OriginNotAllowed msg = New CodeOriginNotAllowed msg"

definition CandidateDirty :: "string \<Rightarrow> derr" where
  "CandidateDirty msg = New CodeCandidateDirty msg"

section \<open>Facts\<close>

lemmas constructor_defs = ValidationFailed_def UnknownField_def ReservedKey_def TLSUnsupported_def
  CallHomeUnsupported_def ImmutableField_def RevisionMismatch_def NotFound_def LockDenied_def
  NotWritable_def WaitTimeout_def StoreWiped_def Unauthorized_def Forbidden_def
  OriginNotAllowed_def CandidateDirty_def

lemma with_violations_fields [simp]:
  "e_code (with_violations d v) = e_code d"
  "e_message (with_violations d v) = e_message d"
  "e_retryable (with_violations d v) = e_retryable d"
  "e_violations (with_violations d v) = e_violations d @ v"
  by (auto simp: with_violations_def WithViolations_def err_clone_def)

lemma New_fields [simp]:
  "e_code (New c m) = c" "e_message (New c m) = m" "e_retryable (New c m) = Retryable c"
  "e_violations (New c m) = []"
  by (auto simp: New_def)

lemma constructor_codes [simp]:
  "e_code (ValidationFailed m vs) = CodeValidationFailed"
  "e_code (NotFound m) = CodeNotFound"
  "e_code (LockDenied m) = CodeLockDenied"
  "e_code (NotWritable m) = CodeNotWritable"
  "e_code (CandidateDirty m) = CodeCandidateDirty"
  "e_code (RevisionMismatch m r) = CodeRevisionMismatch"
  by (simp_all add: constructor_defs)

lemma constructor_violations [simp]:
  "e_violations (ValidationFailed m vs) = vs"
  "e_violations (NotFound m) = []"
  "e_violations (LockDenied m) = []"
  "e_violations (NotWritable m) = []"
  by (simp_all add: constructor_defs)

lemma retryable_in_iff:
  "distinct (map fst es) \<Longrightarrow> retryable_in es c \<longleftrightarrow> (c, True) \<in> set es"
  by (induction es c rule: retryable_in.induct) force+

lemma distinct_Codes: "distinct Codes"
  by (simp add: Codes_def catalog_def)

lemma Retryable_iff:
  "Retryable c \<longleftrightarrow> c \<in> {CodeRevisionMismatch, CodeLockDenied, CodeWaitTimeout, CodeCandidateDirty}"
  using retryable_in_iff [OF distinct_Codes [unfolded Codes_def], of c]
  by (simp add: Retryable_def catalog_def del: retryable_in.simps)

lemma WithViolations_Some: "WithViolations (Some d) v = Some (with_violations d v)"
  by (auto simp: with_violations_def WithViolations_def err_clone_def)

end
