(* ===== verification/Yang_Path.thy ===== *)
theory Yang_Path
  imports Golib Domainerr
begin

text \<open>
  Package \<open>yangtree\<close>, \<open>path.go\<close>: module-qualified instance identifiers, their parser and
  their printer. A reader that takes a string and an index is a function on the rest of the
  string. The theorems: printing and parsing are inverse on paths made of YANG identifiers
  whose key values hold no single quote, what the parser accepts has identifier names, and
  what the printer does to a key value that holds a single quote.
\<close>

section \<open>Paths\<close>

record key =
  k_name :: string
  k_value :: string

record segment =
  s_name :: string
  s_keys :: "key list"

record path =
  p_module :: string
  p_segments :: "segment list"

abbreviation Key :: "string \<Rightarrow> string \<Rightarrow> key" where
  "Key n v \<equiv> \<lparr>k_name = n, k_value = v\<rparr>"

abbreviation Segment :: "string \<Rightarrow> key list \<Rightarrow> segment" where
  "Segment n ks \<equiv> \<lparr>s_name = n, s_keys = ks\<rparr>"

abbreviation Path :: "string \<Rightarrow> segment list \<Rightarrow> path" where
  "Path m ss \<equiv> \<lparr>p_module = m, p_segments = ss\<rparr>"

definition IsRoot :: "path \<Rightarrow> bool" where
  "IsRoot p \<longleftrightarrow> p_module p = '''' \<and> p_segments p = []"

definition path_append :: "path \<Rightarrow> segment \<Rightarrow> path" where
  "path_append p seg = Path (p_module p) (p_segments p @ [seg])"

definition path_last :: "path \<Rightarrow> segment option" where
  "path_last p = (if p_segments p = [] then None else Some (last (p_segments p)))"

section \<open>Identifiers\<close>

text \<open>\<open>isIdent\<close> ranges over the runes of the string.\<close>

definition isIdent :: "golib \<Rightarrow> string \<Rightarrow> bool" where
  "isIdent E s = (case runes s of
     [] \<Rightarrow> False
   | r # rs \<Rightarrow>
       (is_letter E r \<or> r = 95)
       \<and> list_all (\<lambda>r. is_letter E r \<or> is_digit_rune E r \<or> r = 95 \<or> r = 45 \<or> r = 46) rs)"

text \<open>\<open>readIdentAt\<close> converts single bytes to runes, so it classifies them as Latin-1.\<close>

definition ident_start :: "golib \<Rightarrow> char \<Rightarrow> bool" where
  "ident_start E c \<longleftrightarrow> is_letter E (byte c) \<or> c = CHR ''_''"

definition ident_char :: "golib \<Rightarrow> char \<Rightarrow> bool" where
  "ident_char E c \<longleftrightarrow> is_letter E (byte c) \<or> is_digit_rune E (byte c) \<or> c = CHR ''_'' \<or> c = CHR ''-''
     \<or> c = CHR ''.''"

definition readIdentAt :: "golib \<Rightarrow> string \<Rightarrow> string + (string \<times> string)" where
  "readIdentAt E s = (case s of
     [] \<Rightarrow> Inl ''expected identifier''
   | c # cs \<Rightarrow>
       if \<not> ident_start E c then Inl ''expected identifier''
       else Inr (c # takeWhile (ident_char E) cs, dropWhile (ident_char E) cs))"

section \<open>List predicates\<close>

abbreviation SQ :: char where "SQ \<equiv> CHR 0x27"
abbreviation DQ :: char where "DQ \<equiv> CHR 0x22"

abbreviation quoted :: "char \<Rightarrow> string" where
  "quoted c \<equiv> [SQ, c, SQ]"

definition readKeyValueAt :: "string \<Rightarrow> string + (string \<times> string)" where
  "readKeyValueAt s = (case s of
     [] \<Rightarrow> Inl ''missing list key value''
   | c # cs \<Rightarrow>
       if c = SQ \<or> c = DQ then
         (case dropWhile (\<lambda>x. x \<noteq> c) cs of
            [] \<Rightarrow> Inl ''unterminated quoted list key''
          | q # rest \<Rightarrow> Inr (takeWhile (\<lambda>x. x \<noteq> c) cs, rest))
       else if takeWhile (\<lambda>x. x \<noteq> CHR '']'') s = [] then Inl ''empty list key value''
       else Inr (takeWhile (\<lambda>x. x \<noteq> CHR '']'') s, dropWhile (\<lambda>x. x \<noteq> CHR '']'') s))"

definition readKeyAt :: "golib \<Rightarrow> string \<Rightarrow> string + (key \<times> string)" where
  "readKeyAt E s = (case s of
     [] \<Rightarrow> Inl (''expected '' @ quoted CHR ''['')
   | c # cs \<Rightarrow>
       if c \<noteq> CHR ''['' then Inl (''expected '' @ quoted CHR ''['') else
       (case readIdentAt E cs of
          Inl _ \<Rightarrow> Inl ''invalid list key name''
        | Inr (name, r1) \<Rightarrow>
            (case r1 of
               [] \<Rightarrow> Inl (''expected '' @ quoted CHR ''='' @ '' in list predicate'')
             | e # r2 \<Rightarrow>
                 if e \<noteq> CHR ''='' then Inl (''expected '' @ quoted CHR ''='' @ '' in list predicate'') else
                 (case readKeyValueAt r2 of
                    Inl err \<Rightarrow> Inl err
                  | Inr (v, r3) \<Rightarrow>
                      (case r3 of
                         [] \<Rightarrow> Inl ''unterminated list predicate''
                       | b # r4 \<Rightarrow>
                           if b \<noteq> CHR '']'' then Inl ''unterminated list predicate''
                           else Inr (Key name v, r4))))))"

lemma readIdentAt_shrinks: "readIdentAt E s = Inr (n, r) \<Longrightarrow> length r < length s"
  by (auto simp: readIdentAt_def le_imp_less_Suc length_dropWhile_le split: list.splits if_splits)

lemma readKeyValueAt_shrinks: "readKeyValueAt s = Inr (v, r) \<Longrightarrow> length r \<le> length s"
proof -
  have "length rest \<le> length cs" if "dropWhile P cs = q # rest" for P cs q rest
    using length_dropWhile_le [of P cs] that by simp
  then show "readKeyValueAt s = Inr (v, r) \<Longrightarrow> length r \<le> length s"
    by (fastforce simp: readKeyValueAt_def length_dropWhile_le le_SucI split: list.splits if_splits)
qed

lemma readKeyAt_shrinks: "readKeyAt E s = Inr (k, r) \<Longrightarrow> length r < length s"
  by (fastforce simp: readKeyAt_def split: list.splits if_splits sum.splits prod.splits
      dest!: readIdentAt_shrinks readKeyValueAt_shrinks)

text \<open>The inner loop of the parser: list predicates while an opening bracket follows.\<close>

function readKeys :: "golib \<Rightarrow> string \<Rightarrow> key list \<Rightarrow> string + (key list \<times> string)" where
  "readKeys E s ks =
     (if s \<noteq> [] \<and> hd s = CHR ''['' then
        (case readKeyAt E s of
           Inl err \<Rightarrow> Inl err
         | Inr (k, rest) \<Rightarrow> readKeys E rest (ks @ [k]))
      else Inr (ks, s))"
  by pat_completeness auto
termination
  by (relation "measure (\<lambda>(E, s, ks). length s)") (auto dest: readKeyAt_shrinks)

declare readKeys.simps [simp del]

lemma readKeys_shrinks: "readKeys E s ks = Inr (ks', r) \<Longrightarrow> length r \<le> length s"
proof (induction E s ks rule: readKeys.induct)
  case (1 E s ks)
  then show ?case
    by (subst (asm) (2) readKeys.simps)
      (fastforce split: if_splits sum.splits prod.splits dest: readKeyAt_shrinks)
qed

section \<open>The parser\<close>

definition path_error :: "string \<Rightarrow> string \<Rightarrow> string \<Rightarrow> derr" where
  "path_error msg s detail = ValidationFailed msg [fv s ''unknown-element'' detail]"

function parseSegments :: "golib \<Rightarrow> string \<Rightarrow> segment list \<Rightarrow> string \<Rightarrow> derr + segment list" where
  "parseSegments E s segs rest =
     (if rest = [] then Inr segs
      else if hd rest = CHR ''/'' then Inl (path_error ''invalid path'' s ''empty path segment'')
      else (case readIdentAt E rest of
         Inl err \<Rightarrow> Inl (path_error ''invalid path'' s err)
       | Inr (name, r1) \<Rightarrow>
           (case readKeys E r1 [] of
              Inl err \<Rightarrow> Inl (path_error ''invalid path'' s err)
            | Inr (ks, r2) \<Rightarrow>
                (let segs' = segs @ [Segment name ks] in
                 if r2 = [] then Inr segs'
                 else if hd r2 \<noteq> CHR ''/'' then
                   Inl (path_error ''invalid path'' s (''expected '' @ quoted CHR ''/'' @ '' between segments''))
                 else if tl r2 = [] then Inl (path_error ''invalid path'' s ''trailing slash'')
                 else parseSegments E s segs' (tl r2)))))"
  by pat_completeness auto
termination
  by (relation "measure (\<lambda>(E, s, segs, rest). length rest)")
    (auto dest!: readIdentAt_shrinks readKeys_shrinks)

declare parseSegments.simps [simp del]

definition ParsePath :: "golib \<Rightarrow> string \<Rightarrow> derr + path" where
  "ParsePath E str =
    (let s = TrimSpace str in
     if s = [] then Inr (Path '''' [])
     else
       (let m = takeWhile (\<lambda>c. c \<noteq> CHR '':'') s; r = dropWhile (\<lambda>c. c \<noteq> CHR '':'') s in
        if m = [] \<or> r = [] then
          Inl (path_error ''path must be module-qualified'' s ''missing module:'')
        else if \<not> isIdent E m then
          Inl (path_error ''invalid module name'' s ''invalid module name'')
        else if tl r = [] then Inr (Path m [])
        else (case parseSegments E s [] (tl r) of
            Inl err \<Rightarrow> Inl err
          | Inr segs \<Rightarrow> Inr (Path m segs))))"

section \<open>The printer\<close>

definition quoteKeyValue :: "string \<Rightarrow> string" where
  "quoteKeyValue v =
     (if v = '''' \<or> list_ex (\<lambda>c. c \<in> {CHR ''/'', CHR ''['', CHR '']'', SQ, DQ, CHR '' '', CHR 0x09}) v
      then [SQ] @ filter (\<lambda>c. c \<noteq> SQ) v @ [SQ]
      else v)"

definition key_string :: "key \<Rightarrow> string" where
  "key_string k = ''['' @ k_name k @ ''='' @ quoteKeyValue (k_value k) @ '']''"

definition segment_string :: "segment \<Rightarrow> string" where
  "segment_string seg = s_name seg @ concat (map key_string (s_keys seg))"

fun join_slash :: "string list \<Rightarrow> string" where
  "join_slash [] = []"
| "join_slash [x] = x"
| "join_slash (x # xs) = x @ ''/'' @ join_slash xs"

definition path_string :: "path \<Rightarrow> string" where
  "path_string p =
     (if p_module p = '''' \<and> p_segments p = [] then ''''
      else p_module p @ '':'' @ join_slash (map segment_string (p_segments p)))"

definition SchemaString :: "path \<Rightarrow> string" where
  "SchemaString p =
     (if p_module p = '''' \<and> p_segments p = [] then ''''
      else p_module p @ '':'' @ join_slash (map s_name (p_segments p)))"

section \<open>Printing and parsing\<close>

text \<open>Paths written with YANG identifiers: ASCII letters, digits and three punctuation marks.\<close>

definition yang_start :: "char \<Rightarrow> bool" where
  "yang_start c \<longleftrightarrow> in_range 65 90 c \<or> in_range 97 122 c \<or> c = CHR ''_''"

definition yang_char :: "char \<Rightarrow> bool" where
  "yang_char c \<longleftrightarrow> yang_start c \<or> is_digit c \<or> c = CHR ''-'' \<or> c = CHR ''.''"

definition yang_ident :: "string \<Rightarrow> bool" where
  "yang_ident s \<longleftrightarrow> s \<noteq> [] \<and> yang_start (hd s) \<and> list_all yang_char s"

definition yang_path :: "path \<Rightarrow> bool" where
  "yang_path p \<longleftrightarrow> yang_ident (p_module p) \<and>
     list_all (\<lambda>seg. yang_ident (s_name seg) \<and> list_all (\<lambda>k. yang_ident (k_name k)) (s_keys seg))
       (p_segments p)"

text \<open>What printing makes of a key value: the single quotes are gone.\<close>

definition strip_key :: "key \<Rightarrow> key" where
  "strip_key k = k\<lparr>k_value := filter (\<lambda>c. c \<noteq> SQ) (k_value k)\<rparr>"

definition strip_segment :: "segment \<Rightarrow> segment" where
  "strip_segment seg = seg\<lparr>s_keys := map strip_key (s_keys seg)\<rparr>"

definition strip_quotes :: "path \<Rightarrow> path" where
  "strip_quotes p = p\<lparr>p_segments := map strip_segment (p_segments p)\<rparr>"

lemma yang_start_ident: "yang_start c \<Longrightarrow> ident_start E c"
  by (auto simp: yang_start_def ident_start_def is_letter_def in_range_def)

lemma yang_char_ident: "yang_char c \<Longrightarrow> ident_char E c"
  by (auto simp: yang_char_def yang_start_def ident_char_def is_letter_def in_range_def
      is_digit_def is_digit_rune_def)

lemma yang_char_plain: "yang_char c \<Longrightarrow> plain_ascii c"
  by (auto simp: yang_char_def yang_start_def in_range_def is_digit_def plain_ascii_def)

lemma yang_start_char: "yang_start c \<Longrightarrow> yang_char c"
  by (simp add: yang_char_def)

lemma yang_char_not_delim:
  "yang_char c \<Longrightarrow> c \<noteq> CHR '':'' \<and> c \<noteq> CHR ''/'' \<and> c \<noteq> CHR ''['' \<and> c \<noteq> CHR ''=''"
  by (auto simp: yang_char_def yang_start_def in_range_def is_digit_def)

lemma delim_not_ident:
  "\<not> ident_char E (CHR ''['')" "\<not> ident_char E (CHR ''/'')" "\<not> ident_char E (CHR ''='')"
  by (auto simp: ident_char_def is_letter_def is_digit_rune_def)

lemma readIdentAt_yang:
  assumes "yang_ident n" and "rest = [] \<or> \<not> ident_char E (hd rest)"
  shows "readIdentAt E (n @ rest) = Inr (n, rest)"
proof -
  from assms(1) obtain c cs where n: "n = c # cs" "yang_start c" "list_all yang_char cs"
    by (cases n) (auto simp: yang_ident_def)
  have all: "\<forall>x \<in> set cs. ident_char E x" using n(3) by (auto simp: list_all_iff yang_char_ident)
  have "takeWhile (ident_char E) (cs @ rest) = cs" "dropWhile (ident_char E) (cs @ rest) = rest"
    using assms(2) all by (cases rest; simp add: takeWhile_append dropWhile_append)+
  then show ?thesis using n(1) yang_start_ident [OF n(2), of E] by (simp add: readIdentAt_def)
qed

definition needs_quotes :: "string \<Rightarrow> bool" where
  "needs_quotes v \<longleftrightarrow>
     v = [] \<or> list_ex (\<lambda>c. c \<in> {CHR ''/'', CHR ''['', CHR '']'', SQ, DQ, CHR '' '', CHR 0x09}) v"

lemma readKeyValueAt_quote:
  "readKeyValueAt (quoteKeyValue v @ CHR '']'' # rest)
     = Inr (filter (\<lambda>c. c \<noteq> SQ) v, CHR '']'' # rest)"
proof (cases "needs_quotes v")
  case True
  let ?w = "filter (\<lambda>c. c \<noteq> SQ) v"
  have "takeWhile (\<lambda>x. x \<noteq> SQ) (?w @ SQ # CHR '']'' # rest) = ?w"
    "dropWhile (\<lambda>x. x \<noteq> SQ) (?w @ SQ # CHR '']'' # rest) = SQ # CHR '']'' # rest"
    by (simp_all add: takeWhile_append dropWhile_append)
  with True show ?thesis by (simp add: needs_quotes_def quoteKeyValue_def readKeyValueAt_def)
next
  case False
  then have clean: "\<forall>c \<in> set v. c \<noteq> CHR '']'' \<and> c \<noteq> SQ \<and> c \<noteq> DQ" and ne: "v \<noteq> []"
    by (auto simp: needs_quotes_def list_ex_iff)
  have "takeWhile (\<lambda>x. x \<noteq> CHR '']'') (v @ CHR '']'' # rest) = v"
    "dropWhile (\<lambda>x. x \<noteq> CHR '']'') (v @ CHR '']'' # rest) = CHR '']'' # rest"
    using clean by (simp_all add: takeWhile_append dropWhile_append)
  moreover have "filter (\<lambda>c. c \<noteq> SQ) v = v" using clean by (simp add: filter_id_conv)
  moreover have "quoteKeyValue v = v" using False by (simp add: needs_quotes_def quoteKeyValue_def)
  moreover obtain c cs where "v = c # cs" using ne by (cases v) auto
  ultimately show ?thesis using clean by (simp add: readKeyValueAt_def)
qed

lemma readKeyAt_key_string:
  assumes "yang_ident (k_name k)"
  shows "readKeyAt E (key_string k @ rest) = Inr (strip_key k, rest)"
proof -
  have "readIdentAt E (k_name k @ CHR ''='' # quoteKeyValue (k_value k) @ CHR '']'' # rest)
      = Inr (k_name k, CHR ''='' # quoteKeyValue (k_value k) @ CHR '']'' # rest)"
    by (rule readIdentAt_yang) (simp_all add: assms delim_not_ident)
  then show ?thesis
    using readKeyValueAt_quote [of "k_value k" rest]
    by (simp add: readKeyAt_def key_string_def strip_key_def)
qed

lemma readKeys_key_strings:
  assumes "list_all (\<lambda>k. yang_ident (k_name k)) ks" and "rest = [] \<or> hd rest \<noteq> CHR ''[''"
  shows "readKeys E (concat (map key_string ks) @ rest) acc = Inr (acc @ map strip_key ks, rest)"
  using assms(1)
proof (induction ks arbitrary: acc)
  case Nil
  with assms(2) show ?case by (subst readKeys.simps) auto
next
  case (Cons k ks)
  have "concat (map key_string (k # ks)) @ rest
      = key_string k @ (concat (map key_string ks) @ rest)" by simp
  moreover have "hd (key_string k @ x) = CHR ''['' \<and> key_string k @ x \<noteq> []" for x
    by (simp add: key_string_def)
  ultimately show ?case
    using Cons readKeyAt_key_string [of k E "concat (map key_string ks) @ rest"]
    by (subst readKeys.simps) simp
qed

lemma strip_segment_eq: "strip_segment seg = Segment (s_name seg) (map strip_key (s_keys seg))"
  by (cases seg) (simp add: strip_segment_def)

lemma parseSegments_step:
  assumes "yang_ident (s_name seg)" "list_all (\<lambda>k. yang_ident (k_name k)) (s_keys seg)"
    and "rest = [] \<or> (\<exists>r. rest = CHR ''/'' # r \<and> r \<noteq> [])"
  shows "parseSegments E s acc (segment_string seg @ rest)
       = (if rest = [] then Inr (acc @ [strip_segment seg])
          else parseSegments E s (acc @ [strip_segment seg]) (tl rest))"
proof -
  let ?k = "concat (map key_string (s_keys seg))"
  obtain c cs where n: "s_name seg = c # cs" "c \<noteq> CHR ''/''"
    using assms(1) yang_char_not_delim yang_start_char by (cases "s_name seg") (auto simp: yang_ident_def)
  have hd: "?k @ rest = [] \<or> \<not> ident_char E (hd (?k @ rest))"
    using assms(3) delim_not_ident by (cases "s_keys seg") (auto simp: key_string_def)
  have "readIdentAt E (s_name seg @ (?k @ rest)) = Inr (s_name seg, ?k @ rest)"
    by (rule readIdentAt_yang [OF assms(1) hd])
  moreover have "readKeys E (?k @ rest) [] = Inr (map strip_key (s_keys seg), rest)"
    using readKeys_key_strings [OF assms(2), of rest E "[]"] assms(3) by auto
  ultimately show ?thesis
    using n assms(3)
    by (subst parseSegments.simps) (auto simp: segment_string_def strip_segment_eq)
qed

lemma segment_string_nonempty: "yang_ident (s_name seg) \<Longrightarrow> segment_string seg \<noteq> []"
  by (auto simp: segment_string_def yang_ident_def)

lemma parseSegments_join:
  assumes "list_all (\<lambda>seg. yang_ident (s_name seg) \<and> list_all (\<lambda>k. yang_ident (k_name k)) (s_keys seg)) segs"
    and "segs \<noteq> []"
  shows "parseSegments E s acc (join_slash (map segment_string segs)) = Inr (acc @ map strip_segment segs)"
  using assms
proof (induction segs arbitrary: acc rule: induct_list012)
  case (2 seg)
  then show ?case using parseSegments_step [of seg "[]" E s acc] by simp
next
  case (3 seg seg' segs)
  let ?r = "join_slash (map segment_string (seg' # segs))"
  have "?r \<noteq> []" using 3 segment_string_nonempty [of seg'] by (cases segs) auto
  then have "parseSegments E s acc (segment_string seg @ CHR ''/'' # ?r)
      = parseSegments E s (acc @ [strip_segment seg]) ?r"
    using 3 parseSegments_step [of seg "CHR ''/'' # ?r" E s acc] by simp
  with 3 show ?case by simp
qed simp

lemma runes_ascii: "list_all yang_char s \<Longrightarrow> runes s = map byte s"
proof (induction s)
  case (Cons c s)
  then have "byte c < (128 :: nat)"
    by (auto simp: yang_char_def yang_start_def in_range_def is_digit_def)
  with Cons show ?case by (simp add: decode_rune_def)
qed simp

lemma isIdent_yang:
  assumes "yang_ident s"
  shows "isIdent E s"
proof -
  from assms obtain c cs where s: "s = c # cs" "yang_start c" "list_all yang_char cs"
    by (cases s) (auto simp: yang_ident_def)
  have rest: "is_letter E (byte x) \<or> is_digit_rune E (byte x) \<or> byte x = (95 :: nat) \<or> byte x = (45 :: nat)
      \<or> byte x = (46 :: nat)" if "yang_char x" for x
    using yang_char_ident [OF that, of E] by (auto simp: ident_char_def)
  have "is_letter E (byte c) \<or> byte c = (95 :: nat)"
    using yang_start_ident [OF s(2), of E] by (auto simp: ident_start_def)
  moreover have "runes s = byte c # map byte cs"
    using runes_ascii [of s] s by (simp add: yang_start_char)
  ultimately show ?thesis using s(3) rest by (simp add: isIdent_def list_all_iff)
qed

lemma last_join_slash: "xs \<noteq> [] \<Longrightarrow> last xs \<noteq> [] \<Longrightarrow>
    last (join_slash xs) = last (last xs) \<and> join_slash xs \<noteq> []"
  by (induction xs rule: join_slash.induct) auto

lemma last_segment_string:
  assumes "yang_ident (s_name seg)"
  shows "plain_ascii (last (segment_string seg))"
proof (cases "s_keys seg" rule: rev_cases)
  case Nil
  with assms show ?thesis
    by (auto simp: segment_string_def yang_ident_def list_all_iff yang_char_plain)
next
  case (snoc ks k)
  then have "last (segment_string seg) = CHR '']''" by (simp add: segment_string_def key_string_def)
  then show ?thesis by (simp add: plain_ascii_def)
qed

lemma path_string_trim:
  assumes "yang_path p"
  shows "TrimSpace (path_string p) = path_string p \<and> path_string p \<noteq> []"
proof -
  from assms have m: "yang_ident (p_module p)" by (simp add: yang_path_def)
  then have ne: "path_string p \<noteq> []" and first: "plain_ascii (hd (path_string p))"
    by (auto simp: path_string_def yang_ident_def yang_char_plain yang_start_char)
  have "plain_ascii (last (path_string p))"
  proof (cases "p_segments p" rule: rev_cases)
    case Nil
    with m show ?thesis by (simp add: path_string_def yang_ident_def plain_ascii_def)
  next
    case (snoc ss seg)
    then have seg: "yang_ident (s_name seg)" using assms by (simp add: yang_path_def)
    from snoc segment_string_nonempty [OF seg] last_segment_string [OF seg]
      last_join_slash [of "map segment_string (p_segments p)"]
    show ?thesis by (simp add: path_string_def)
  qed
  with ne first show ?thesis by (simp add: TrimSpace_plain)
qed

lemma ParsePath_path_string:
  assumes "yang_path p"
  shows "ParsePath E (path_string p) = Inr (strip_quotes p)"
proof -
  let ?m = "p_module p" and ?b = "join_slash (map segment_string (p_segments p))"
  from assms have m: "yang_ident ?m" by (simp add: yang_path_def)
  then have ps: "path_string p = ?m @ CHR '':'' # ?b" by (auto simp: path_string_def yang_ident_def)
  have "\<forall>c \<in> set ?m. c \<noteq> CHR '':''"
    using m yang_char_not_delim by (auto simp: yang_ident_def list_all_iff)
  then have split: "takeWhile (\<lambda>c. c \<noteq> CHR '':'') (path_string p) = ?m"
    "dropWhile (\<lambda>c. c \<noteq> CHR '':'') (path_string p) = CHR '':'' # ?b"
    unfolding ps by (simp_all add: takeWhile_append dropWhile_append)
  have segs: "strip_quotes p = Path ?m (map strip_segment (p_segments p))"
    by (cases p) (simp add: strip_quotes_def)
  show ?thesis
  proof (cases "p_segments p")
    case Nil
    with m split segs path_string_trim [OF assms] isIdent_yang [OF m] show ?thesis
      by (simp add: ParsePath_def yang_ident_def)
  next
    case (Cons seg ss)
    then have "?b \<noteq> []" using assms segment_string_nonempty [of seg]
      by (cases ss) (auto simp: yang_path_def)
    moreover have "parseSegments E s [] ?b = Inr (map strip_segment (p_segments p))" for s
      using parseSegments_join [of "p_segments p" E s "[]"] assms Cons by (simp add: yang_path_def)
    ultimately show ?thesis
      using m split segs path_string_trim [OF assms] isIdent_yang [OF m]
      by (simp add: ParsePath_def yang_ident_def)
  qed
qed

section \<open>What the parser accepts\<close>

definition ident_ok :: "golib \<Rightarrow> string \<Rightarrow> bool" where
  "ident_ok E n \<longleftrightarrow> n \<noteq> [] \<and> ident_start E (hd n) \<and> list_all (ident_char E) (tl n)"

definition segment_ok :: "golib \<Rightarrow> segment \<Rightarrow> bool" where
  "segment_ok E seg \<longleftrightarrow> ident_ok E (s_name seg) \<and> list_all (\<lambda>k. ident_ok E (k_name k)) (s_keys seg)"

definition path_ok :: "golib \<Rightarrow> path \<Rightarrow> bool" where
  "path_ok E p \<longleftrightarrow> IsRoot p \<or> (isIdent E (p_module p) \<and> list_all (segment_ok E) (p_segments p))"

lemma readIdentAt_ok: "readIdentAt E s = Inr (n, r) \<Longrightarrow> ident_ok E n"
  by (auto simp: readIdentAt_def ident_ok_def list_all_iff split: list.splits if_splits
      dest: set_takeWhileD)

lemma readKeyAt_ok: "readKeyAt E s = Inr (k, r) \<Longrightarrow> ident_ok E (k_name k)"
  by (auto simp: readKeyAt_def split: list.splits if_splits sum.splits dest!: readIdentAt_ok)

lemma readKeys_ok:
  "readKeys E s ks = Inr (ks', r) \<Longrightarrow> list_all (\<lambda>k. ident_ok E (k_name k)) ks
     \<Longrightarrow> list_all (\<lambda>k. ident_ok E (k_name k)) ks'"
proof (induction E s ks rule: readKeys.induct)
  case (1 E s ks)
  show ?case
  proof (cases "s \<noteq> [] \<and> hd s = CHR ''[''")
    case True
    with "1.prems"(1) obtain k rest where k: "readKeyAt E s = Inr (k, rest)"
        and "readKeys E rest (ks @ [k]) = Inr (ks', r)"
      by (subst (asm) readKeys.simps) (auto split: sum.splits)
    with "1.IH" [OF True k refl] "1.prems"(2) readKeyAt_ok [OF k] show ?thesis by simp
  next
    case False
    with "1.prems" show ?thesis by (subst (asm) readKeys.simps) auto
  qed
qed

lemma parseSegments_ok:
  "parseSegments E s segs rest = Inr segs' \<Longrightarrow> list_all (segment_ok E) segs \<Longrightarrow> list_all (segment_ok E) segs'"
proof (induction E s segs rest rule: parseSegments.induct)
  case (1 E s segs rest)
  have seg: "segment_ok E (Segment n ks)" if "readIdentAt E rest = Inr (n, r1)" "readKeys E r1 [] = Inr (ks, r2)"
    for n r1 ks r2
    using readIdentAt_ok [OF that(1)] readKeys_ok [OF that(2)] by (simp add: segment_ok_def)
  from "1.prems"(1) consider "segs' = segs"
    | n r1 ks r2 where "rest \<noteq> []" "hd rest \<noteq> CHR ''/''" "readIdentAt E rest = Inr (n, r1)"
        "readKeys E r1 [] = Inr (ks, r2)" "segs' = segs @ [Segment n ks]"
    | n r1 ks r2 where "rest \<noteq> []" "hd rest \<noteq> CHR ''/''" "readIdentAt E rest = Inr (n, r1)"
        "readKeys E r1 [] = Inr (ks, r2)" "r2 \<noteq> []" "hd r2 = CHR ''/''" "tl r2 \<noteq> []"
        "parseSegments E s (segs @ [Segment n ks]) (tl r2) = Inr segs'"
    by (subst (asm) parseSegments.simps) (auto simp: Let_def split: if_splits sum.splits)
  then show ?case
  proof cases
    case (3 n r1 ks r2)
    from "1.IH" [OF 3(1,2,3) refl 3(4) refl refl 3(5) _ 3(7) 3(8)] 3(6) seg [OF 3(3,4)] "1.prems"(2)
    show ?thesis by simp
  qed (use "1.prems"(2) seg in auto)
qed

lemma ParsePath_ok: "ParsePath E s = Inr p \<Longrightarrow> path_ok E p"
  by (auto simp: ParsePath_def Let_def path_ok_def IsRoot_def dest: parseSegments_ok
      split: if_splits sum.splits)

section \<open>Properties\<close>

text \<open>C39: Printing a path made of YANG identifiers and parsing the result gives the path back with
  the single quotes removed from its key values; so the round trip is exact precisely for
  the paths whose key values hold no single quote.\<close>

theorem path_round_trip:
  assumes "yang_path p"
  shows "ParsePath E (path_string p) = Inr (strip_quotes p)
     \<and> (ParsePath E (path_string p) = Inr p \<longleftrightarrow>
          list_all (\<lambda>seg. list_all (\<lambda>k. SQ \<notin> set (k_value k)) (s_keys seg)) (p_segments p))"
proof -
  have k: "strip_key k = k \<longleftrightarrow> SQ \<notin> set (k_value k)" for k
    by (cases k) (auto simp: strip_key_def filter_id_conv)
  have "strip_segment seg = seg \<longleftrightarrow> list_all (\<lambda>k. SQ \<notin> set (k_value k)) (s_keys seg)" for seg
    by (cases seg) (simp add: strip_segment_def map_idI list_all_iff k map_eq_conv [of strip_key _ id, simplified])
  then have "strip_quotes p = p \<longleftrightarrow>
      list_all (\<lambda>seg. list_all (\<lambda>k. SQ \<notin> set (k_value k)) (s_keys seg)) (p_segments p)"
    by (cases p) (simp add: strip_quotes_def list_all_iff map_eq_conv [of strip_segment _ id, simplified])
  with ParsePath_path_string [OF assms, of E] show ?thesis by simp
qed

abbreviation sample_path :: path where
  "sample_path \<equiv> Path ''ietf-interfaces'' [Segment ''interfaces'' [],
     Segment ''interface'' [Key ''name'' ''ge-0/0/1''], Segment ''mtu'' []]"

lemma sample_path_yang: "yang_path sample_path"
  by (simp add: yang_path_def yang_ident_def yang_char_def yang_start_def in_range_def is_digit_def)

lemma sample_path_strip: "strip_quotes sample_path = sample_path"
  by (simp add: strip_quotes_def strip_segment_def strip_key_def)

theorem path_round_trip_witness:
  "ParsePath undefined (path_string sample_path) = Inr sample_path"
  using path_round_trip [OF sample_path_yang, of undefined] by (simp add: sample_path_strip)

text \<open>Whatever string the parser accepts, it returns the root or a path whose module is an
  identifier and whose segment and key names are identifiers.\<close>

theorem parse_path_well_formed:
  assumes "ParsePath E s = Inr p"
  shows "IsRoot p \<or> isIdent E (p_module p) \<and> (\<forall>seg \<in> set (p_segments p). segment_ok E seg)"
  using ParsePath_ok [OF assms] by (auto simp: path_ok_def list_all_iff)

theorem parse_path_well_formed_witness:
  "isIdent undefined (p_module sample_path) \<and> segment_ok undefined (hd (p_segments sample_path))"
proof -
  have e: "ParsePath undefined (path_string sample_path) = Inr sample_path"
    using ParsePath_path_string [OF sample_path_yang, of undefined] by (simp only: sample_path_strip)
  from parse_path_well_formed [OF e] show ?thesis by (simp add: IsRoot_def)
qed

end
