(* ===== verification/Yang_Value.thy ===== *)
theory Yang_Value
  imports Yang_Path
begin

text \<open>
  Package \<open>yangtree\<close>, \<open>value.go\<close>: deep copy, the views of a dynamic value as a map, a slice or
  a number, the comparison of trees, and the list-entry lookups by key. The facts: a copy is
  canonical (no \<open>map[any]any\<close>, no \<open>[]map[string]any\<close>), copying twice changes nothing, the
  numeric views stay in range, the comparison is reflexive on trees without not-a-number,
  and where the comparison equates trees that differ.
\<close>

section \<open>Copies and views\<close>

fun clone :: "golib \<Rightarrow> val \<Rightarrow> val" where
  "clone E (VMap kvs) = VMap (map (\<lambda>kv. (fst kv, clone E (snd kv))) kvs)"
| "clone E (VAny kws) =
     VMap (fold (\<lambda>kw m. kv_put (sprint E (fst kw)) (clone E (snd kw)) m) kws [])"
| "clone E (VList xs) = VList (map (clone E) xs)"
| "clone E (VMaps ms) =
     VList (map (\<lambda>m. VMap (map (\<lambda>kv. (fst kv, clone E (snd kv))) m)) ms)"
| "clone E v = v"

definition asMap :: "golib \<Rightarrow> val \<Rightarrow> kvs option" where
  "asMap E v = (case v of
     VMap kvs \<Rightarrow> Some kvs
   | VAny kws \<Rightarrow> Some (fold (\<lambda>kw m. kv_put (sprint E (fst kw)) (snd kw) m) kws [])
   | _ \<Rightarrow> None)"

definition asSlice :: "val \<Rightarrow> val list option" where
  "asSlice v = (case v of
     VList xs \<Rightarrow> Some xs
   | VMaps ms \<Rightarrow> Some (map VMap ms)
   | _ \<Rightarrow> None)"

definition isMap :: "golib \<Rightarrow> val \<Rightarrow> bool" where
  "isMap E v \<longleftrightarrow> asMap E v \<noteq> None"

definition isSlice :: "val \<Rightarrow> bool" where
  "isSlice v \<longleftrightarrow> asSlice v \<noteq> None"

text \<open>Indexing a Go map: a missing key reads as nil.\<close>

definition kv_nil :: "kvs \<Rightarrow> string \<Rightarrow> val" where
  "kv_nil m k = (case map_of m k of Some v \<Rightarrow> v | None \<Rightarrow> VNil)"

definition isEmptyType :: "golib \<Rightarrow> val \<Rightarrow> bool" where
  "isEmptyType E v =
     (case v of
        VNil \<Rightarrow> True
      | VBool b \<Rightarrow> b
      | _ \<Rightarrow>
        (case asMap E v of
           Some m \<Rightarrow> length m = 0
         | None \<Rightarrow>
           (case asSlice v of
              Some s \<Rightarrow> length s = 0 \<or> (length s = 1 \<and> hd s = VNil)
            | None \<Rightarrow> False)))"

section \<open>Numbers\<close>

definition asInt64 :: "golib \<Rightarrow> val \<Rightarrow> int option" where
  "asInt64 E v = (case v of
     VInt k n \<Rightarrow>
       (case k of
          KUint \<Rightarrow> if n > max_i64 then None else Some n
        | KUint64 \<Rightarrow> if n > max_i64 then None else Some n
        | _ \<Rightarrow> Some n)
   | VF64 x \<Rightarrow>
       if f64_integral x \<and> f64_val x \<ge> - (2 ^ 63) \<and> f64_val x \<le> 2 ^ 63
       then Some (f64_to_i64 E x) else None
   | VNum s \<Rightarrow> parse_int s
   | _ \<Rightarrow> None)"

definition asUint64 :: "golib \<Rightarrow> val \<Rightarrow> int option" where
  "asUint64 E v = (case v of
     VInt k n \<Rightarrow>
       (case k of
          KInt \<Rightarrow> if n < 0 then None else Some n
        | KInt32 \<Rightarrow> if n < 0 then None else Some n
        | KInt64 \<Rightarrow> if n < 0 then None else Some n
        | _ \<Rightarrow> Some n)
   | VF64 x \<Rightarrow>
       if f64_less x (FFin 0) \<or> \<not> f64_integral x \<or> f64_val x > 2 ^ 64
       then None else Some (f64_to_u64 E x)
   | VNum s \<Rightarrow> parse_uint s
   | _ \<Rightarrow> None)"

definition asFloat64 :: "golib \<Rightarrow> val \<Rightarrow> f64 option" where
  "asFloat64 E v = (case asInt64 E v of
     Some n \<Rightarrow> Some (f64_of_int n)
   | None \<Rightarrow>
     (case asUint64 E v of
        Some n \<Rightarrow> Some (f64_of_int n)
      | None \<Rightarrow>
        (case v of
           VF64 x \<Rightarrow> Some x
         | VF32 x \<Rightarrow> Some x
         | VNum s \<Rightarrow> parse_float E s
         | VStr s \<Rightarrow> parse_float E s
         | _ \<Rightarrow> None)))"

definition stringify :: "golib \<Rightarrow> val \<Rightarrow> string" where
  "stringify E v = (case v of
     VStr s \<Rightarrow> s
   | VBool b \<Rightarrow> (if b then ''true'' else ''false'')
   | _ \<Rightarrow> sprint E v)"

section \<open>Comparison\<close>

text \<open>Go's \<open>==\<close> on two interface values that are neither maps nor slices.\<close>

definition go_eq :: "val \<Rightarrow> val \<Rightarrow> bool" where
  "go_eq a b = (case (a, b) of
     (VF64 x, VF64 y) \<Rightarrow> f64_eq x y
   | (VF32 x, VF32 y) \<Rightarrow> f64_eq x y
   | _ \<Rightarrow> a = b)"

definition scalar_equal :: "golib \<Rightarrow> val \<Rightarrow> val \<Rightarrow> bool" where
  "scalar_equal E a b =
    (case (asInt64 E a, asInt64 E b) of
       (Some x, Some y) \<Rightarrow> x = y
     | _ \<Rightarrow>
       (case (asUint64 E a, asUint64 E b) of
          (Some x, Some y) \<Rightarrow> x = y
        | _ \<Rightarrow>
          (case (asFloat64 E a, asFloat64 E b) of
             (Some x, Some y) \<Rightarrow> f64_eq x y
           | _ \<Rightarrow> go_eq a b)))"

lemma fold_put_mem:
  "x \<in> set (fold (\<lambda>kw m. kv_put (f (fst kw)) (g (snd kw)) m) kws m0) \<Longrightarrow>
     x \<in> set m0 \<or> (\<exists>kw \<in> set kws. snd x = g (snd kw))"
proof (induction kws arbitrary: m0)
  case (Cons kw kws)
  then have "x \<in> set (kv_put (f (fst kw)) (g (snd kw)) m0) \<or> (\<exists>kw \<in> set kws. snd x = g (snd kw))"
    by auto
  then show ?case using kv_put_mem [of x "f (fst kw)" "g (snd kw)" m0] by auto
qed simp

lemma asMap_size: "asMap E v = Some m \<Longrightarrow> kv \<in> set m \<Longrightarrow> size (snd kv) < size v"
  using size_kvs_member [of kv m] size_any_member fold_put_mem [of kv "sprint E" id]
  by (fastforce simp: asMap_def split: val.splits)

lemma size_VMap_less: "m \<in> set ms \<Longrightarrow> size (VMap m) < size (VMaps ms)"
  by (induction ms) auto

lemma asSlice_size: "asSlice v = Some xs \<Longrightarrow> x \<in> set xs \<Longrightarrow> size x < size v"
  using size_list_member size_VMap_less by (fastforce simp: asSlice_def split: val.splits)

function equal :: "golib \<Rightarrow> val \<Rightarrow> val \<Rightarrow> bool" where
  "equal E a b = (case asMap E a of
     Some am \<Rightarrow>
       (case asMap E b of
          None \<Rightarrow> False
        | Some bm \<Rightarrow>
            length am = length bm
            \<and> list_all (\<lambda>kv. equal E (snd kv) (kv_nil bm (fst kv))) am)
   | None \<Rightarrow>
       (case asSlice a of
          Some as \<Rightarrow>
            (case asSlice b of
               None \<Rightarrow> False
             | Some bs \<Rightarrow>
                 length as = length bs
                 \<and> list_all (\<lambda>xy. equal E (fst xy) (snd xy)) (zip as bs))
        | None \<Rightarrow> scalar_equal E a b))"
  by pat_completeness auto
termination
  by (relation "measure (\<lambda>(E, a, b). size a)")
    (auto dest: asMap_size asSlice_size set_zip_leftD)

declare equal.simps [simp del]

section \<open>List entries\<close>

definition matchKeys :: "golib \<Rightarrow> kvs \<Rightarrow> key list \<Rightarrow> bool" where
  "matchKeys E m ks \<longleftrightarrow> list_all (\<lambda>k. case map_of m (k_name k) of
     None \<Rightarrow> False | Some v \<Rightarrow> stringify E v = k_value k) ks"

text \<open>The first entry of a list that is a map and matches the keys, with its index.\<close>

fun listIndex :: "golib \<Rightarrow> val list \<Rightarrow> key list \<Rightarrow> (nat \<times> kvs) option" where
  "listIndex E [] ks = None"
| "listIndex E (item # arr) ks =
     (let next = map_option (\<lambda>(i, m). (Suc i, m)) (listIndex E arr ks) in
      case asMap E item of
        None \<Rightarrow> next
      | Some m \<Rightarrow> if matchKeys E m ks then Some (0, m) else next)"

fun first_named :: "golib \<Rightarrow> kvs \<Rightarrow> string list \<Rightarrow> key list option" where
  "first_named E item [] = None"
| "first_named E item (kn # kns) = (case map_of item kn of
     Some v \<Rightarrow> Some [Key kn (stringify E v)]
   | None \<Rightarrow> first_named E item kns)"

fun first_string :: "golib \<Rightarrow> kvs \<Rightarrow> key list" where
  "first_string E [] = []"
| "first_string E ((k, v) # rest) =
     (if isMap E v then first_string E rest
      else if isSlice v then first_string E rest
      else (case v of VStr s \<Rightarrow> [Key k (stringify E v)] | _ \<Rightarrow> first_string E rest))"

definition keysForItem :: "golib \<Rightarrow> kvs \<Rightarrow> key list" where
  "keysForItem E item = (case first_named E item [''name'', ''id'', ''index'', ''key''] of
     Some ks \<Rightarrow> ks
   | None \<Rightarrow> first_string E item)"

definition entryWithKeys :: "key list \<Rightarrow> kvs" where
  "entryWithKeys ks = fold (\<lambda>k m. kv_put (k_name k) (VStr (k_value k)) m) ks []"

section \<open>Canonical values\<close>

text \<open>
  The shape of every tree the package stores: only the map and slice types that a copy
  produces, and maps with distinct keys.
\<close>

fun canonical :: "val \<Rightarrow> bool" where
  "canonical (VMap kvs) = (distinct (map fst kvs) \<and> list_all (\<lambda>kv. canonical (snd kv)) kvs)"
| "canonical (VAny kws) = False"
| "canonical (VList xs) = list_all canonical xs"
| "canonical (VMaps ms) = False"
| "canonical v = True"

text \<open>Every Go map has distinct keys, also inside a value that is not canonical.\<close>

fun go_val :: "val \<Rightarrow> bool" where
  "go_val (VMap kvs) = (distinct (map fst kvs) \<and> list_all (\<lambda>kv. go_val (snd kv)) kvs)"
| "go_val (VAny kws) = list_all (\<lambda>kw. go_val (snd kw)) kws"
| "go_val (VList xs) = list_all go_val xs"
| "go_val (VMaps ms) =
     list_all (\<lambda>m. distinct (map fst m) \<and> list_all (\<lambda>kv. go_val (snd kv)) m) ms"
| "go_val v = True"

lemma distinct_fold_put:
  "distinct (map fst m0) \<Longrightarrow> distinct (map fst (fold (\<lambda>kw m. kv_put (f kw) (g kw) m) kws m0))"
  by (induction kws arbitrary: m0) (auto simp: distinct_update)

lemma clone_canonical: "go_val v \<Longrightarrow> canonical (clone E v)"
proof (induction v rule: val_induct)
  case (map kvs)
  then show ?case by (auto simp: list_all_iff comp_def)
next
  case (maps ms)
  then have "canonical (clone E v)" if "m \<in> set ms" "(k, v) \<in> set m" for m k v
    using that by (fastforce simp: list_all_iff)
  with maps show ?case by (auto simp: list_all_iff comp_def)
next
  case (any kws)
  have "canonical (snd x)" if "x \<in> set (fold (\<lambda>kw m. kv_put (sprint E (fst kw)) (clone E (snd kw)) m) kws [])" for x
    using fold_put_mem [OF that] any by (auto simp: list_all_iff)
  then show ?case by (simp add: list_all_iff distinct_fold_put)
qed (auto simp: list_all_iff)

lemma clone_id: "canonical v \<Longrightarrow> clone E v = v"
proof (induction v rule: val_induct)
  case (list xs)
  then show ?case by (auto simp: list_all_iff intro: map_idI)
next
  case (map kvs)
  then show ?case by (auto simp: list_all_iff intro!: map_idI)
qed auto

lemma canonical_go_val: "canonical v \<Longrightarrow> go_val v"
  by (induction v rule: val_induct) (auto simp: list_all_iff)

lemma asMap_canonical: "canonical v \<Longrightarrow> asMap E v = Some m \<longleftrightarrow> v = VMap m"
  by (cases v) (auto simp: asMap_def)

lemma asSlice_canonical: "canonical v \<Longrightarrow> asSlice v = Some xs \<longleftrightarrow> v = VList xs"
  by (cases v) (auto simp: asSlice_def)

lemma canonical_asMap: "canonical v \<Longrightarrow> asMap E v = Some m \<Longrightarrow> canonical (VMap m)"
  by (simp add: asMap_canonical)

lemma asMap_VMap [simp]: "asMap E (VMap m) = Some m"
  by (simp add: asMap_def)

lemma asSlice_simps [simp]:
  "asSlice (VList xs) = Some xs" "asSlice (VMap m) = None" "asMap E (VList xs) = None"
  "asMap E VNil = None" "asSlice VNil = None"
  by (simp_all add: asSlice_def asMap_def)

lemma canonical_kv_put: "canonical (VMap m) \<Longrightarrow> canonical v \<Longrightarrow> canonical (VMap (kv_put k v m))"
  using kv_put_mem [of _ k v m] by (fastforce simp: list_all_iff distinct_update)

lemma canonical_kv_del: "canonical (VMap m) \<Longrightarrow> canonical (VMap (kv_del k m))"
  using kv_del_mem [of _ k m] by (fastforce simp: list_all_iff distinct_delete)

lemma canonical_map_of: "canonical (VMap m) \<Longrightarrow> map_of m k = Some v \<Longrightarrow> canonical v"
  by (auto simp: list_all_iff dest: map_of_SomeD)

lemma canonical_kv_nil: "canonical (VMap m) \<Longrightarrow> canonical (kv_nil m k)"
  by (auto simp: kv_nil_def canonical_map_of split: option.split)

lemma canonical_put_keys:
  "canonical (VMap m) \<Longrightarrow>
     canonical (VMap (fold (\<lambda>k m. kv_put (k_name k) (VStr (k_value k)) m) ks m))"
proof (induction ks arbitrary: m)
  case (Cons k ks)
  have "canonical (VMap (kv_put (k_name k) (VStr (k_value k)) m))"
    by (rule canonical_kv_put [OF Cons.prems]) simp
  from Cons.IH [OF this] show ?case by simp
qed simp

lemma canonical_entryWithKeys: "canonical (VMap (entryWithKeys ks))"
  unfolding entryWithKeys_def by (rule canonical_put_keys) simp

section \<open>Entries found by key\<close>

definition put_keys :: "key list \<Rightarrow> kvs \<Rightarrow> kvs" where
  "put_keys ks m = fold (\<lambda>k m. kv_put (k_name k) (VStr (k_value k)) m) ks m"

lemma entryWithKeys_put_keys: "entryWithKeys ks = put_keys ks []"
  by (simp add: entryWithKeys_def put_keys_def)

lemma map_of_put_keys_other: "n \<notin> k_name ` set ks \<Longrightarrow> map_of (put_keys ks m) n = map_of m n"
  unfolding put_keys_def by (induction ks arbitrary: m) auto

lemma map_of_put_keys:
  "distinct (map k_name ks) \<Longrightarrow> k \<in> set ks \<Longrightarrow> map_of (put_keys ks m) (k_name k) = Some (VStr (k_value k))"
proof (induction ks arbitrary: m)
  case (Cons k' ks)
  show ?case
  proof (cases "k = k'")
    case True
    with Cons.prems map_of_put_keys_other [of "k_name k'" ks "kv_put (k_name k') (VStr (k_value k')) m"]
    show ?thesis by (simp add: put_keys_def)
  next
    case False
    with Cons show ?thesis by (simp add: put_keys_def)
  qed
qed simp

lemma matchKeys_put_keys: "distinct (map k_name ks) \<Longrightarrow> matchKeys E (put_keys ks m) ks"
  by (simp add: matchKeys_def list_all_iff map_of_put_keys stringify_def)

lemma matchKeys_cong:
  "(\<And>k. k \<in> set ks \<Longrightarrow> map_of m (k_name k) = map_of m' (k_name k)) \<Longrightarrow> matchKeys E m ks = matchKeys E m' ks"
  unfolding matchKeys_def by (rule list_all_cong) simp_all

definition entry_matches :: "golib \<Rightarrow> key list \<Rightarrow> val \<Rightarrow> bool" where
  "entry_matches E ks v \<longleftrightarrow> (\<exists>m. asMap E v = Some m \<and> matchKeys E m ks)"

lemma listIndex_Cons:
  "listIndex E (x # arr) ks =
     (if entry_matches E ks x then Some (0, case asMap E x of Some m \<Rightarrow> m | None \<Rightarrow> [])
      else map_option (\<lambda>(i, m). (Suc i, m)) (listIndex E arr ks))"
  by (auto simp: entry_matches_def Let_def split: option.splits)

lemma listIndex_None: "listIndex E arr ks = None \<longleftrightarrow> (\<forall>x \<in> set arr. \<not> entry_matches E ks x)"
  by (induction arr) (simp_all add: listIndex_Cons del: listIndex.simps(2))

lemma listIndex_SomeD:
  "listIndex E arr ks = Some (i, m) \<Longrightarrow>
     i < length arr \<and> asMap E (arr ! i) = Some m \<and> matchKeys E m ks"
proof (induction arr arbitrary: i)
  case (Cons x arr)
  then show ?case
    by (auto simp: listIndex_Cons entry_matches_def simp del: listIndex.simps(2) split: if_splits)
qed simp

lemma listIndex_update:
  "listIndex E arr ks = Some (i, m) \<Longrightarrow> asMap E v = Some m' \<Longrightarrow> matchKeys E m' ks \<Longrightarrow>
     listIndex E (arr[i := v]) ks = Some (i, m')"
proof (induction arr arbitrary: i)
  case (Cons x arr)
  then show ?case
    by (auto simp: listIndex_Cons entry_matches_def simp del: listIndex.simps(2) split: if_splits)
qed simp

lemma listIndex_snoc:
  "listIndex E arr ks = None \<Longrightarrow> asMap E v = Some m' \<Longrightarrow> matchKeys E m' ks \<Longrightarrow>
     listIndex E (arr @ [v]) ks = Some (length arr, m')"
proof (induction arr)
  case (Cons x arr)
  then show ?case
    by (auto simp: listIndex_Cons simp del: listIndex.simps(2) split: if_splits)
qed (simp add: entry_matches_def listIndex_Cons del: listIndex.simps(2))

lemma listIndex_canonical:
  "list_all canonical arr \<Longrightarrow> listIndex E arr ks = Some (i, m) \<Longrightarrow> arr ! i = VMap m \<and> canonical (VMap m)"
  using listIndex_SomeD [of E arr ks i m] by (metis asMap_canonical list_all_length)

section \<open>Comparing a tree with itself\<close>

text \<open>A value is free of not-a-number when no scalar of it reads as not-a-number.\<close>

fun no_nan :: "golib \<Rightarrow> val \<Rightarrow> bool" where
  "no_nan E (VMap kvs) = list_all (\<lambda>kv. no_nan E (snd kv)) kvs"
| "no_nan E (VAny kws) = list_all (\<lambda>kw. no_nan E (snd kw)) kws"
| "no_nan E (VList xs) = list_all (no_nan E) xs"
| "no_nan E (VMaps ms) = list_all (list_all (\<lambda>kv. no_nan E (snd kv))) ms"
| "no_nan E v = (asFloat64 E v \<noteq> Some FNaN)"

lemma f64_eq_refl: "f64_eq x x \<longleftrightarrow> x \<noteq> FNaN"
  by (cases x) auto

lemma scalar_equal_refl: "scalar_equal E v v \<longleftrightarrow> asFloat64 E v \<noteq> Some FNaN"
proof (cases "asInt64 E v")
  case None
  show ?thesis
  proof (cases "asUint64 E v")
    case nu: None
    show ?thesis
    proof (cases "asFloat64 E v")
      case nf: None
      then have "go_eq v v" using None nu by (cases v) (auto simp: go_eq_def asFloat64_def)
      with None nu nf show ?thesis by (simp add: scalar_equal_def)
    qed (simp add: scalar_equal_def None nu f64_eq_refl)
  qed (simp add: scalar_equal_def None asFloat64_def f64_of_int_def)
qed (simp add: scalar_equal_def asFloat64_def f64_of_int_def)

lemma list_all_zip_self: "list_all (\<lambda>xy. P (fst xy) (snd xy)) (zip xs xs) \<longleftrightarrow> list_all (\<lambda>x. P x x) xs"
  by (induction xs) auto

lemma equal_refl_iff: "canonical v \<Longrightarrow> equal E v v \<longleftrightarrow> no_nan E v"
proof (induction v rule: val_induct)
  case (list xs)
  then have "list_all (\<lambda>x. equal E x x) xs \<longleftrightarrow> list_all (no_nan E) xs" by (auto simp: list_all_iff)
  then show ?case by (subst equal.simps) (simp add: list_all_zip_self)
next
  case (map kvs)
  then have "kv_nil kvs (fst kv) = snd kv" if "kv \<in> set kvs" for kv
    using that by (simp add: kv_nil_def map_of_is_SomeI [of kvs "fst kv" "snd kv"])
  moreover have "equal E (snd kv) (snd kv) \<longleftrightarrow> no_nan E (snd kv)" if "kv \<in> set kvs" for kv
    using map.IH [of "fst kv" "snd kv"] map.prems that by (simp add: list_all_iff)
  ultimately show ?case by (subst equal.simps) (simp add: list_all_iff)
qed (subst equal.simps; simp add: asMap_def asSlice_def scalar_equal_refl)+

section \<open>Properties\<close>

text \<open>A deep copy is canonical (only \<open>map[string]any\<close> with distinct keys and \<open>[]any\<close>), and
  copying a canonical value, in particular a copy, gives the same value.\<close>

theorem clone_normalises:
  assumes "go_val v"
  shows "canonical (clone E v) \<and> clone E (clone E v) = clone E v"
  using clone_canonical [OF assms, of E] clone_id by blast

theorem clone_normalises_witness:
  "canonical (clone undefined (VAny [(VStr ''mtu'', VInt KInt 1500), (VStr ''tags'', VMaps [[(''a'', VNil)]])]))"
  using clone_normalises [of "VAny [(VStr ''mtu'', VInt KInt 1500), (VStr ''tags'', VMaps [[(''a'', VNil)]])]"]
  by simp

text \<open>A stored tree is equal to itself, in the sense of the package's comparison, exactly when
  none of its scalars reads as not-a-number. A string leaf counts as a number whenever the
  library parses it as one, so a leaf with the text NaN makes a tree differ from itself.\<close>

theorem equal_self_iff:
  assumes "canonical v"
  shows "equal E v v \<longleftrightarrow> no_nan E v"
  using equal_refl_iff [OF assms] .

abbreviation float_lib :: "(string \<Rightarrow> f64 option) \<Rightarrow> golib" where
  "float_lib f \<equiv> \<lparr>uni_letter = \<lambda>_. False, uni_digit = \<lambda>_. False, parse_float = f,
     fmt_other = \<lambda>_. [], conv_i64_ovf = - (2 ^ 63), conv_u64_ovf = 0, regexp_compile = \<lambda>_. None,
     regexp_match = \<lambda>_ _. True, uptime = 0\<rparr>"

theorem equal_self_iff_witness:
  "\<not> equal (float_lib (\<lambda>s. if s = ''NaN'' then Some FNaN else None))
      (VMap [(''sys'', VStr ''NaN'')]) (VMap [(''sys'', VStr ''NaN'')])"
  using equal_self_iff [of "VMap [(''sys'', VStr ''NaN'')]"
      "float_lib (\<lambda>s. if s = ''NaN'' then Some FNaN else None)"]
  by (simp add: asFloat64_def asInt64_def asUint64_def)

text \<open>The comparison equates trees that differ. A map that binds one key to nil equals a map
  that binds another key to nil, and two different strings that the library parses as the
  same number are equal leaves.\<close>

theorem equal_confuses:
  assumes "parse_float E s = Some (FFin q)" and "parse_float E t = Some (FFin q)"
  shows "equal E (VMap [(k, VNil)]) (VMap [(k', VNil)])
     \<and> equal E (VMap [(k, VStr s)]) (VMap [(k, VStr t)])"
proof
  have "equal E VNil VNil"
    using equal_refl_iff [of VNil E] by (simp add: asFloat64_def asInt64_def asUint64_def)
  then show "equal E (VMap [(k, VNil)]) (VMap [(k', VNil)])"
    by (subst equal.simps) (simp add: kv_nil_def)
  have "equal E (VStr s) (VStr t)"
    using assms
    by (subst equal.simps)
      (simp add: asMap_def asSlice_def scalar_equal_def asInt64_def asUint64_def asFloat64_def)
  then show "equal E (VMap [(k, VStr s)]) (VMap [(k, VStr t)])"
    by (subst equal.simps) (simp add: kv_nil_def)
qed

theorem equal_confuses_witness:
  "equal (float_lib (\<lambda>s. if s = ''1'' \<or> s = ''1.0'' then Some (FFin 1) else None))
     (VMap [(''version'', VStr ''1'')]) (VMap [(''version'', VStr ''1.0'')])"
  using equal_confuses [of "float_lib (\<lambda>s. if s = ''1'' \<or> s = ''1.0'' then Some (FFin 1) else None)"
      "''1''" 1 "''1.0''" "''version''"]
  by simp

end
