(* ===== verification/Yang_Schema.thy ===== *)
theory Yang_Schema
  imports Yang_Value
begin

text \<open>
  Package \<open>yangtree\<close>, \<open>schema.go\<close>, with \<open>SchemaLeaf\<close> and \<open>KnownSchemaType\<close> of package \<open>model\<close>:
  the compact path-to-type schema, its compilation from the configuration, the questions the
  tree asks of it (known, read-only), and the type, pattern and range checks. A compiled
  regular expression is its source text; whether it compiles and what it matches are the
  library's. The theorems: what a compiled schema holds, and which numbers the integer types
  accept.
\<close>

section \<open>Schema leaves of the configuration\<close>

record schema_leaf =
  sl_path :: string
  sl_type :: string
  sl_access :: string
  sl_range :: string
  sl_pattern :: string
  sl_valueFrom :: string

abbreviation ValueFromProcessUptime :: string where
  "ValueFromProcessUptime \<equiv> ''processUptime''"

abbreviation SchemaAccessRead :: string where
  "SchemaAccessRead \<equiv> ''read''"

definition CompactSchemaTypes :: "string list" where
  "CompactSchemaTypes =
     [''string'', ''boolean'', ''int32'', ''int64'', ''uint32'', ''uint64'',
      ''decimal64'', ''identityref'', ''enumeration'', ''leaf-list'', ''list'',
      ''container'', ''empty'']"

definition KnownSchemaType :: "string \<Rightarrow> bool" where
  "KnownSchemaType t \<longleftrightarrow> t \<in> set CompactSchemaTypes"

section \<open>Compiled schemas\<close>

record schema_entry =
  se_path :: path
  se_typ :: string
  se_access :: string
  se_min :: "f64 option"
  se_max :: "f64 option"
  se_pattern :: "string option"
  se_valueFrom :: string

type_synonym schema = "schema_entry gomap"

text \<open>\<open>strings.Split(s, "..")\<close>.\<close>

fun split_dots :: "string \<Rightarrow> string list" where
  "split_dots [] = [[]]"
| "split_dots [c] = [[c]]"
| "split_dots (c # d # s) =
     (if c = CHR ''.'' \<and> d = CHR ''.'' then [] # split_dots s
      else (case split_dots (d # s) of [] \<Rightarrow> [[c]] | x # xs \<Rightarrow> (c # x) # xs))"

definition parseRange :: "golib \<Rightarrow> string \<Rightarrow> string + (f64 option \<times> f64 option)" where
  "parseRange E s = (case split_dots s of
     [lo, hi] \<Rightarrow>
       (case (if TrimSpace lo = ''min'' then Inr None
              else case parse_float E (TrimSpace lo) of
                None \<Rightarrow> Inl ''invalid range min'' | Some n \<Rightarrow> Inr (Some n)) of
          Inl err \<Rightarrow> Inl err
        | Inr mn \<Rightarrow>
            (case (if TrimSpace hi = ''max'' then Inr None
                   else case parse_float E (TrimSpace hi) of
                     None \<Rightarrow> Inl ''invalid range max'' | Some n \<Rightarrow> Inr (Some n)) of
               Inl err \<Rightarrow> Inl err
             | Inr mx \<Rightarrow> Inr (mn, mx)))
   | _ \<Rightarrow> Inl ''range must be min..max'')"

definition leaf_error :: "string \<Rightarrow> string \<Rightarrow> string \<Rightarrow> string \<Rightarrow> derr" where
  "leaf_error msg p c detail = ValidationFailed msg [fv p c detail]"

text \<open>The body of the loop of \<open>newSchema\<close> for the leaf at index \<open>i\<close>.\<close>

definition addLeaf :: "golib \<Rightarrow> nat \<Rightarrow> schema_leaf \<Rightarrow> schema \<Rightarrow> derr + schema" where
  "addLeaf E i leaf s =
    (if TrimSpace (sl_path leaf) = '''' then
       Inl (leaf_error ''schema path is required'' (''schema['' @ itoa (int i) @ ''].path'') ''required''
              ''schema path is required'')
     else
       (case ParsePath E (sl_path leaf) of
          Inl err \<Rightarrow> Inl err
        | Inr p \<Rightarrow>
            (let k = SchemaString p; bad = (\<lambda>msg detail. Inl (leaf_error msg (sl_path leaf) ''invalid_value'' detail)) in
             if map_of s k \<noteq> None then
               Inl (leaf_error ''duplicate schema path'' (sl_path leaf) ''duplicate_id'' ''duplicate schema path'')
             else if \<not> KnownSchemaType (sl_type leaf) then
               bad ''unsupported compact schema type'' ''unsupported compact schema type''
             else if sl_valueFrom leaf \<noteq> '''' \<and> sl_valueFrom leaf \<noteq> ValueFromProcessUptime then
               bad ''valueFrom must be processUptime'' ''valueFrom must be processUptime''
             else
               (case (if sl_range leaf \<noteq> '''' then parseRange E (sl_range leaf) else Inr (None, None)) of
                  Inl err \<Rightarrow> bad ''invalid range'' err
                | Inr (mn, mx) \<Rightarrow>
                    (let e = \<lparr>se_path = p, se_typ = sl_type leaf, se_access = sl_access leaf,
                              se_min = mn, se_max = mx, se_pattern = None,
                              se_valueFrom = sl_valueFrom leaf\<rparr> in
                     if sl_pattern leaf \<noteq> '''' then
                       (case regexp_compile E (sl_pattern leaf) of
                          Some err \<Rightarrow> bad ''invalid pattern'' err
                        | None \<Rightarrow> Inr (kv_put k (e\<lparr>se_pattern := Some (sl_pattern leaf)\<rparr>) s))
                     else Inr (kv_put k e s))))))"

fun addLeaves :: "golib \<Rightarrow> nat \<Rightarrow> schema_leaf list \<Rightarrow> schema \<Rightarrow> derr + schema" where
  "addLeaves E i [] s = Inr s"
| "addLeaves E i (leaf # leaves) s =
     (case addLeaf E i leaf s of Inl err \<Rightarrow> Inl err | Inr s' \<Rightarrow> addLeaves E (Suc i) leaves s')"

definition newSchema :: "golib \<Rightarrow> schema_leaf list \<Rightarrow> derr + schema" where
  "newSchema E leaves = addLeaves E 0 leaves []"

section \<open>Questions\<close>

text \<open>The receiver is a pointer: a node may have no schema.\<close>

definition schema_lookup :: "schema option \<Rightarrow> path \<Rightarrow> schema_entry option" where
  "schema_lookup s p = (case s of None \<Rightarrow> None | Some byPath \<Rightarrow> map_of byPath (SchemaString p))"

definition known :: "schema option \<Rightarrow> path \<Rightarrow> bool" where
  "known s p =
    (if IsRoot p then True
     else case s of
       None \<Rightarrow> False
     | Some byPath \<Rightarrow>
         if byPath = [] then False
         else
           (let sp = SchemaString p in
            if map_of byPath sp \<noteq> None then True
            else list_ex (\<lambda>kv. fst kv = sp \<or> prefix (sp @ ''/'') (fst kv)
                            \<or> (p_segments p = [] \<and> prefix sp (fst kv))) byPath))"

definition readOnly :: "schema option \<Rightarrow> path \<Rightarrow> bool" where
  "readOnly s p = (case schema_lookup s p of
     None \<Rightarrow> False
   | Some e \<Rightarrow> if se_valueFrom e \<noteq> '''' then True else se_access e = SchemaAccessRead)"

definition unknownPath :: "path \<Rightarrow> derr" where
  "unknownPath p = ValidationFailed ''unknown path''
     [fv (path_string p) ''unknown-element'' ''path is not in the schema'']"

section \<open>Checks\<close>

definition typeError :: "string \<Rightarrow> derr" where
  "typeError typ = ValidationFailed (''value does not match compact type '' @ typ)
     [fv '''' ''invalid_value'' (''value does not match type '' @ typ)]"

definition type_matches :: "golib \<Rightarrow> string \<Rightarrow> val \<Rightarrow> bool" where
  "type_matches E typ v =
    (if typ = ''string'' \<or> typ = ''identityref'' \<or> typ = ''enumeration'' then
       (case v of VStr _ \<Rightarrow> True | _ \<Rightarrow> False)
     else if typ = ''boolean'' then (case v of VBool _ \<Rightarrow> True | _ \<Rightarrow> False)
     else if typ = ''int32'' then
       (case asInt64 E v of None \<Rightarrow> False | Some n \<Rightarrow> \<not> (n < - (2 ^ 31) \<or> n > 2 ^ 31 - 1))
     else if typ = ''int64'' then asInt64 E v \<noteq> None
     else if typ = ''uint32'' then
       (case asUint64 E v of None \<Rightarrow> False | Some n \<Rightarrow> \<not> (n > 2 ^ 32 - 1))
     else if typ = ''uint64'' then asUint64 E v \<noteq> None
     else if typ = ''decimal64'' then asFloat64 E v \<noteq> None
     else if typ = ''empty'' then isEmptyType E v
     else if typ = ''leaf-list'' then
       (case v of VList arr \<Rightarrow> list_all (\<lambda>item. \<not> (isMap E item \<or> isSlice item)) arr | _ \<Rightarrow> False)
     else if typ = ''list'' then (case v of VList _ \<Rightarrow> True | _ \<Rightarrow> isMap E v)
     else if typ = ''container'' then isMap E v \<or> v = VNil
     else False)"

definition checkType :: "golib \<Rightarrow> string \<Rightarrow> val \<Rightarrow> derr option" where
  "checkType E typ v = (if type_matches E typ v then None else Some (typeError typ))"

definition value_error :: "schema_entry \<Rightarrow> string \<Rightarrow> derr" where
  "value_error e msg = ValidationFailed msg [fv (path_string (se_path e)) ''invalid_value'' msg]"

definition checkPattern :: "golib \<Rightarrow> schema_entry \<Rightarrow> val \<Rightarrow> derr option" where
  "checkPattern E e v = (case se_pattern e of
     None \<Rightarrow> None
   | Some re \<Rightarrow>
       (case v of
          VStr str \<Rightarrow>
            if \<not> regexp_match E re str then Some (value_error e ''value does not match pattern'') else None
        | _ \<Rightarrow> Some (value_error e ''pattern applies to strings'')))"

definition checkRange :: "golib \<Rightarrow> schema_entry \<Rightarrow> val \<Rightarrow> derr option" where
  "checkRange E e v =
    (if se_min e = None \<and> se_max e = None then None
     else case asFloat64 E v of
       None \<Rightarrow> Some (value_error e ''range applies to numeric values'')
     | Some n \<Rightarrow>
         if (case se_min e of None \<Rightarrow> False | Some mn \<Rightarrow> f64_less n mn) then
           Some (value_error e ''value is below range'')
         else if (case se_max e of None \<Rightarrow> False | Some mx \<Rightarrow> f64_less mx n) then
           Some (value_error e ''value is above range'')
         else None)"

definition checkValue :: "golib \<Rightarrow> schema_entry \<Rightarrow> val \<Rightarrow> derr option" where
  "checkValue E e v = (case checkType E (se_typ e) v of
     Some err \<Rightarrow> Some err
   | None \<Rightarrow>
       (case checkPattern E e v of
          Some err \<Rightarrow> Some err
        | None \<Rightarrow> checkRange E e v))"

section \<open>The dynamic getter\<close>

definition wrap_int32 :: "int \<Rightarrow> int" where
  "wrap_int32 n = (n + 2 ^ 31) mod 2 ^ 32 - 2 ^ 31"

definition getterValue :: "golib \<Rightarrow> schema_entry \<Rightarrow> val" where
  "getterValue E e =
    (let sec = uptime E in
     if se_typ e = ''uint32'' \<or> se_typ e = ''uint64'' then VInt KUint64 (if sec < 0 then 0 else sec)
     else if se_typ e = ''int32'' then VInt KInt32 (wrap_int32 sec)
     else VInt KInt64 sec)"

lemma getterValue_canonical: "canonical (getterValue E e)"
  by (simp add: getterValue_def Let_def)

section \<open>Facts\<close>

lemma addLeaf_shape:
  assumes "addLeaf E i leaf s = Inr s'"
  shows "\<exists>p e. ParsePath E (sl_path leaf) = Inr p \<and> map_of s (SchemaString p) = None
     \<and> s' = kv_put (SchemaString p) e s \<and> se_path e = p \<and> se_typ e = sl_type leaf
     \<and> se_access e = sl_access leaf \<and> se_valueFrom e = sl_valueFrom leaf
     \<and> KnownSchemaType (sl_type leaf)"
  using assms
  by (auto simp: addLeaf_def Let_def split: if_splits sum.splits option.splits prod.splits)

lemma addLeaves_keeps:
  "addLeaves E i leaves s = Inr s' \<Longrightarrow> map_of s k = Some e \<Longrightarrow> map_of s' k = Some e"
proof (induction leaves arbitrary: i s)
  case (Cons leaf leaves)
  then obtain s1 where s1: "addLeaf E i leaf s = Inr s1" "addLeaves E (Suc i) leaves s1 = Inr s'"
    by (auto split: sum.splits)
  from addLeaf_shape [OF s1(1)] Cons.prems(2) have "map_of s1 k = Some e" by auto
  with Cons.IH s1(2) show ?case by blast
qed simp

lemma addLeaves_wf:
  "addLeaves E i leaves s = Inr s' \<Longrightarrow> distinct (map fst s) \<Longrightarrow>
     distinct (map fst s') \<and> length s' = length s + length leaves"
proof (induction leaves arbitrary: i s)
  case (Cons leaf leaves)
  then obtain s1 where s1: "addLeaf E i leaf s = Inr s1" "addLeaves E (Suc i) leaves s1 = Inr s'"
    by (auto split: sum.splits)
  from addLeaf_shape [OF s1(1)] obtain k e where "map_of s k = None" "s1 = kv_put k e s" by auto
  moreover from this have "length s1 = Suc (length s)" by (induction s arbitrary: s1) (auto split: if_splits)
  ultimately show ?case using Cons.IH [OF s1(2)] Cons.prems(2) by (simp add: distinct_update)
qed simp

lemma addLeaves_holds:
  "addLeaves E i leaves s = Inr s' \<Longrightarrow> leaf \<in> set leaves \<Longrightarrow>
     \<exists>p e. ParsePath E (sl_path leaf) = Inr p \<and> map_of s' (SchemaString p) = Some e \<and> se_path e = p
       \<and> se_typ e = sl_type leaf \<and> se_access e = sl_access leaf \<and> se_valueFrom e = sl_valueFrom leaf
       \<and> KnownSchemaType (sl_type leaf)"
proof (induction leaves arbitrary: i s)
  case (Cons l leaves)
  then obtain s1 where s1: "addLeaf E i l s = Inr s1" "addLeaves E (Suc i) leaves s1 = Inr s'"
    by (auto split: sum.splits)
  show ?case
  proof (cases "leaf = l")
    case True
    from addLeaf_shape [OF s1(1)] obtain p e where e: "ParsePath E (sl_path l) = Inr p"
        "s1 = kv_put (SchemaString p) e s" "se_path e = p" "se_typ e = sl_type l"
        "se_access e = sl_access l" "se_valueFrom e = sl_valueFrom l" "KnownSchemaType (sl_type l)"
      by auto
    moreover from e(2) have "map_of s' (SchemaString p) = Some e"
      using addLeaves_keeps [OF s1(2), of "SchemaString p" e] by simp
    ultimately show ?thesis using True by auto
  next
    case False
    with Cons.IH [OF s1(2)] Cons.prems(2) show ?thesis by simp
  qed
qed simp

lemma f64_integral_int [simp]: "f64_integral (FFin (of_int n))"
  by (simp add: f64_integral_def)

lemma asInt64_int:
  "asInt64 E (VF64 (FFin (of_int n))) =
     (if - (2 ^ 63) \<le> n \<and> n \<le> 2 ^ 63 then Some (if n = 2 ^ 63 then conv_i64_ovf E else n) else None)"
  by (simp add: asInt64_def f64_to_i64_def)

lemma asUint64_int:
  "asUint64 E (VF64 (FFin (of_int n))) =
     (if 0 \<le> n \<and> n \<le> 2 ^ 64 then Some (if n = 2 ^ 64 then conv_u64_ovf E else n) else None)"
  by (auto simp: asUint64_def f64_to_u64_def)

section \<open>Properties\<close>

text \<open>A schema that compiles has one entry per configured leaf, under distinct keys, and each
  leaf's entry is found under the leaf's own path with its type, access and getter.\<close>

theorem new_schema_complete:
  assumes "newSchema E leaves = Inr s"
  shows "distinct (map fst s) \<and> length s = length leaves \<and>
    (\<forall>leaf \<in> set leaves. \<exists>p e. ParsePath E (sl_path leaf) = Inr p
       \<and> schema_lookup (Some s) p = Some e \<and> se_path e = p \<and> se_typ e = sl_type leaf
       \<and> se_access e = sl_access leaf \<and> se_valueFrom e = sl_valueFrom leaf
       \<and> KnownSchemaType (se_typ e))"
  using assms addLeaves_wf [of E 0 leaves "[]" s] addLeaves_holds [of E 0 leaves "[]" s]
  unfolding newSchema_def schema_lookup_def by fastforce

abbreviation mtu_leaf :: schema_leaf where
  "mtu_leaf \<equiv> \<lparr>sl_path = ''if:mtu'', sl_type = ''uint32'', sl_access = ''write'', sl_range = [],
     sl_pattern = [], sl_valueFrom = []\<rparr>"

lemma parse_if_mtu: "ParsePath E ''if:mtu'' = Inr (Path ''if'' [Segment ''mtu'' []])"
proof -
  have "yang_path (Path ''if'' [Segment ''mtu'' []])"
    by (simp add: yang_path_def yang_ident_def yang_char_def yang_start_def in_range_def)
  from ParsePath_path_string [OF this, of E] show ?thesis
    by (simp add: path_string_def segment_string_def strip_quotes_def strip_segment_def)
qed

lemma trim_if_mtu: "TrimSpace ''if:mtu'' = ''if:mtu''"
  by (rule TrimSpace_plain) (simp_all add: plain_ascii_def)

theorem new_schema_complete_witness:
  "\<exists>s. newSchema (float_lib (\<lambda>_. None)) [mtu_leaf] = Inr s \<and> length s = 1"
proof -
  have "\<exists>s. newSchema (float_lib (\<lambda>_. None)) [mtu_leaf] = Inr s"
    by (simp add: newSchema_def addLeaf_def Let_def parse_if_mtu trim_if_mtu KnownSchemaType_def
        CompactSchemaTypes_def)
  then obtain s where s: "newSchema (float_lib (\<lambda>_. None)) [mtu_leaf] = Inr s" by blast
  from new_schema_complete [OF s] s show ?thesis by auto
qed

text \<open>Which whole numbers the integer types accept (JSON numbers arrive as float64). The
  32-bit types accept exactly their ranges. The 64-bit types accept their ranges and also
  the first number above them: the bound is compared as a float, where it is rounded up.\<close>

theorem integer_types_accept:
  assumes "n \<noteq> 2 ^ 63" and "n \<noteq> 2 ^ 64"
  shows "(checkType E ''int32'' (VF64 (FFin (of_int n))) = None \<longleftrightarrow> - (2 ^ 31) \<le> n \<and> n < 2 ^ 31)
    \<and> (checkType E ''uint32'' (VF64 (FFin (of_int n))) = None \<longleftrightarrow> 0 \<le> n \<and> n < 2 ^ 32)
    \<and> (checkType E ''int64'' (VF64 (FFin (of_int n))) = None \<longleftrightarrow> - (2 ^ 63) \<le> n \<and> n < 2 ^ 63)
    \<and> (checkType E ''uint64'' (VF64 (FFin (of_int n))) = None \<longleftrightarrow> 0 \<le> n \<and> n < 2 ^ 64)
    \<and> checkType E ''int64'' (VF64 (FFin (2 ^ 63))) = None
    \<and> checkType E ''uint64'' (VF64 (FFin (2 ^ 64))) = None"
  using assms asInt64_int [of E "2 ^ 63"] asUint64_int [of E "2 ^ 64"]
  by (auto simp: checkType_def type_matches_def asInt64_int asUint64_int)

theorem integer_types_accept_witness:
  "checkType (float_lib (\<lambda>_. None)) ''int32'' (VF64 (FFin (of_int (2 ^ 31)))) \<noteq> None
   \<and> checkType (float_lib (\<lambda>_. None)) ''uint32'' (VF64 (FFin (of_int (2 ^ 31)))) = None"
  using integer_types_accept [of "2 ^ 31" "float_lib (\<lambda>_. None)"] by simp

end
