(* ===== verification/Model_State.thy ===== *)
theory Model_State
  imports Yang_Schema
begin

text \<open>
  Package \<open>model\<close>: the desired-state document. One record per struct of \<open>spec.go\<close> and \<open>state.go\<close>,
  with the field names of the source. A nil slice or map that the code tells apart from an
  empty one (\<open>allowClientCidrs\<close>, \<open>instance\<close>, \<open>startup\<close>) is an option.
\<close>

section \<open>Listeners\<close>

record netconf_listener =
  nl_enabled :: bool
  nl_address :: string
  nl_hostKeyFile :: string

record tls_spec =
  tls_enabled :: bool

record restconf_listener =
  rl_enabled :: bool
  rl_address :: string
  rl_tls :: tls_spec

record call_home_spec =
  ch_enabled :: bool

record netconf_tls_spec =
  nt_enabled :: bool

record mgmt_listener =
  ml_address :: string
  ml_restPath :: string
  ml_mcpPath :: string

record listeners_spec =
  ls_netconf :: netconf_listener
  ls_restconf :: restconf_listener
  ls_management :: mgmt_listener
  ls_callHome :: call_home_spec
  ls_netconfTLS :: netconf_tls_spec

section \<open>Posture\<close>

record token_spec =
  tk_id :: string
  tk_role :: string
  tk_secretFile :: string
  tk_scopes :: "string list"

record auth_spec =
  as_mode :: string
  as_tokens :: "token_spec list"

record ui_spec =
  ui_enabled :: bool

record notifications_spec =
  ns_enabled :: bool

record netconf_spec =
  nc_versions :: "string list"
  nc_writableRunning :: bool
  nc_notifications :: notifications_spec
  nc_sharedProfileDatastore :: bool

record restconf_spec =
  rc_json :: bool
  rc_xml :: bool

record admission_spec =
  ad_allowClientCidrs :: "string list option"

record mcp_spec =
  mcp_allowLegacyClients :: bool

record management_spec =
  mg_allowedOrigins :: "string list"
  mg_mcp :: mcp_spec

section \<open>Profiles and users\<close>

record module_spec =
  md_name :: string
  md_revision :: string
  md_namespace :: string
  md_moduleFile :: string
  md_sourceFile :: string

record profile_spec =
  pr_name :: string
  pr_modules :: "module_spec list"
  pr_schema :: "schema_leaf list"
  pr_instance :: "kvs option"
  pr_startup :: "kvs option"

record user_spec =
  us_name :: string
  us_passwordFile :: string
  us_authorizedKeysFile :: string
  us_profile :: string
  us_access :: string

section \<open>The document\<close>

record spec =
  sp_listeners :: listeners_spec
  sp_auth :: auth_spec
  sp_ui :: ui_spec
  sp_netconf :: netconf_spec
  sp_restconf :: restconf_spec
  sp_admission :: admission_spec
  sp_management :: management_spec
  sp_profiles :: "profile_spec list"
  sp_users :: "user_spec list"

record metadata =
  mt_name :: string
  mt_labels :: "string gomap"

record state =
  st_apiVersion :: string
  st_kind :: string
  st_metadata :: metadata
  st_spec :: spec

definition KnownRole :: "string \<Rightarrow> bool" where
  "KnownRole role \<longleftrightarrow> role = ''administrator'' \<or> role = ''reader''"

end
