(* ===== verification/Netip.thy ===== *)
theory Netip
  imports Prelude "HOL-Library.Word"
begin

unbundle bit_operations_syntax

text \<open>
  The part of \<open>net/netip\<close> that admission uses: addresses with their machine words, the unmapping
  of an IPv4-mapped address, and membership in a prefix. Parsing text is not modelled here.
\<close>

datatype addr = ANone | A4 "32 word" | A6 "128 word" string

record nprefix =
  np_addr :: addr
  np_bits :: nat

definition BitLen :: "addr \<Rightarrow> nat" where
  "BitLen a = (case a of ANone \<Rightarrow> 0 | A4 _ \<Rightarrow> 32 | A6 _ _ \<Rightarrow> 128)"

definition hasZone :: "addr \<Rightarrow> bool" where
  "hasZone a = (case a of A6 _ z \<Rightarrow> z \<noteq> [] | _ \<Rightarrow> False)"

text \<open>\<open>Addr.Unmap\<close>: the upper 96 bits of a mapped address are zero and then \<open>0xffff\<close>.\<close>

definition Unmap :: "addr \<Rightarrow> addr" where
  "Unmap a = (case a of
     A6 w z \<Rightarrow> if drop_bit 32 w = 0xFFFF then A4 (ucast w) else a
   | _ \<Rightarrow> a)"

definition prefix_valid :: "nprefix \<Rightarrow> bool" where
  "prefix_valid p \<longleftrightarrow> np_addr p \<noteq> ANone \<and> \<not> hasZone (np_addr p) \<and> np_bits p \<le> BitLen (np_addr p)"

text \<open>\<open>Prefix.Contains\<close>: the first \<open>bits\<close> bits agree.\<close>

definition Contains :: "nprefix \<Rightarrow> addr \<Rightarrow> bool" where
  "Contains p ip =
    (if \<not> prefix_valid p \<or> hasZone ip then False
     else case (np_addr p, ip) of
       (A4 w, A4 x) \<Rightarrow> drop_bit (32 - np_bits p) (x XOR w) = 0
     | (A6 w _, A6 x _) \<Rightarrow> (x XOR w) AND push_bit (128 - np_bits p) (mask (np_bits p)) = 0
     | _ \<Rightarrow> False)"

lemma xor_zero_iff: "a XOR b = (0 :: 'a :: len word) \<longleftrightarrow> a = b"
  by (auto simp: bit_eq_iff bit_simps)

lemma same_quotient:
  "drop_bit k (x XOR w) = (0 :: 'a :: len word) \<longleftrightarrow> unat x div 2 ^ k = unat w div 2 ^ k"
proof -
  have "drop_bit k (x XOR w) = 0 \<longleftrightarrow> drop_bit k x = drop_bit k w"
    by (simp only: drop_bit_xor xor_zero_iff)
  also have "\<dots> \<longleftrightarrow> unat (drop_bit k x) = unat (drop_bit k w)" by (rule word_unat_eq_iff)
  also have "\<dots> \<longleftrightarrow> unat x div 2 ^ k = unat w div 2 ^ k" 
    by (simp only: unat_drop_bit_eq) (simp only: drop_bit_eq_div)
  finally show ?thesis .
qed

lemma mask_and_zero:
  assumes "n \<le> 128"
  shows "(y :: 128 word) AND push_bit (128 - n) (mask n) = 0 \<longleftrightarrow> drop_bit (128 - n) y = 0"
proof
  assume a: "y AND push_bit (128 - n) (mask n) = 0"
  show "drop_bit (128 - n) y = 0"
  proof (rule bit_eqI)
    fix i
    have "\<not> bit (y AND push_bit (128 - n) (mask n)) (i + (128 - n))" by (simp add: a)
    then show "bit (drop_bit (128 - n) y) i = bit 0 i"
      using assms bit_imp_le_length [of y "i + (128 - n)"] by (auto simp: bit_simps add.commute)
  qed
next
  assume d: "drop_bit (128 - n) y = 0"
  show "y AND push_bit (128 - n) (mask n) = 0"
  proof (rule bit_eqI)
    fix i
    have "\<not> bit (drop_bit (128 - n) y) (i - (128 - n))" by (simp add: d)
    then show "bit (y AND push_bit (128 - n) (mask n)) i = bit 0 i"
      by (auto simp: bit_simps)
  qed
qed

text \<open>
  Both tests compare the addresses without their last bits: the quotients by the power of
  two of the host part.
\<close>

definition same_net :: "nat \<Rightarrow> nat \<Rightarrow> nat \<Rightarrow> nat \<Rightarrow> bool" where
  "same_net len n x w \<longleftrightarrow> n \<le> len \<and> x div 2 ^ (len - n) = w div 2 ^ (len - n)"

lemma Contains_A4: "Contains p (A4 x) \<longleftrightarrow> (\<exists>w. np_addr p = A4 w \<and> same_net 32 (np_bits p) (unat x) (unat w))"
  by (cases "np_addr p")
    (simp_all add: Contains_def prefix_valid_def hasZone_def BitLen_def same_quotient same_net_def del: drop_bit_xor)

lemma Contains_A6:
  "Contains p (A6 x z) \<longleftrightarrow> z = [] \<and> (\<exists>w. np_addr p = A6 w [] \<and> same_net 128 (np_bits p) (unat x) (unat w))"
  by (cases "np_addr p")
    (auto simp: Contains_def prefix_valid_def hasZone_def BitLen_def mask_and_zero same_quotient same_net_def simp del: drop_bit_xor)

lemma Contains_ANone [simp]: "\<not> Contains p ANone"
  by (simp add: Contains_def split: addr.split)

end
