(* ===== verification/Config_Json.thy ===== *)
theory Config_Json
  imports Model_State Netip "HOL-Library.List_Lexorder" "HOL-Library.Char_ord"
begin

text \<open>
  What a trip through \<open>encoding/json\<close> does to the desired-state document: the copy that
  \<open>cloneState\<close> of packages \<open>config\<close> and \<open>app\<close> makes, the tree that \<open>json.Marshal\<close> followed by a
  decoder with \<open>UseNumber\<close> yields, and the YAML node tree \<open>export.go\<close> builds of it. Strings
  come back with every invalid UTF-8 byte replaced, numbers as float64, and a field marked
  \<open>omitempty\<close> comes back nil when it was empty. The decimal text of a float, the texts of the
  library's errors and the YAML encoder are fields of \<open>cfglib\<close>.
\<close>

section \<open>Library\<close>

text \<open>A node of the YAML library, with the fields the code reads or sets.\<close>

datatype ykind = YDoc | YMapping | YSequence | YScalar | YAlias

datatype ynode = YNode (y_kind: ykind) (y_anchor: string) (y_tag: string) (y_value: string) (y_content: "ynode list")

text \<open>What reading a stream of YAML documents gives: no document, an error, or a first document and
  whether the stream ends after it.\<close>

datatype yread = YEOF | YErr string | YFirst ynode bool

record cfglib =
  cf_quote :: "string \<Rightarrow> string"
  cf_tcp :: "string \<Rightarrow> bool"
  cf_prefix :: "string \<Rightarrow> string + nprefix"
  cf_join :: "string \<Rightarrow> string \<Rightarrow> string"
  cf_dir :: "string \<Rightarrow> string"
  cf_file :: "string \<Rightarrow> string + bytes"
  cf_lower :: "nat \<Rightarrow> nat"
  cf_float :: "f64 \<Rightarrow> string"
  cf_f32 :: "f64 \<Rightarrow> f64"
  cf_marshal_err :: "string"
  cf_unmarshal_err :: "string"
  cf_type_err :: "val \<Rightarrow> string"
  cf_sha256 :: "bytes \<Rightarrow> bytes"
  cf_yaml_read :: "bytes \<Rightarrow> yread"
  cf_yaml_value :: "ynode \<Rightarrow> string + val"
  cf_yaml_write :: "ynode \<Rightarrow> string + bytes"
  cf_json_read :: "bytes \<Rightarrow> string + val \<times> bool"
  cf_json_write :: "val \<Rightarrow> bytes"

section \<open>Strings\<close>

text \<open>The encoder writes a byte that starts no valid sequence as U+FFFD.\<close>

definition fffd :: string where
  "fffd = [CHR 0xEF, CHR 0xBF, CHR 0xBD]"

fun fix_utf8 :: "string \<Rightarrow> string" where
  "fix_utf8 [] = []"
| "fix_utf8 (c # cs) =
     (let (r, w) = decode_rune c cs in
      if r = 65533 \<and> w = 1 then fffd @ fix_utf8 cs
      else c # take (w - 1) cs @ fix_utf8 (drop (w - 1) cs))"

section \<open>Numbers\<close>

text \<open>\<open>isValidNumber\<close> of the encoder: the text a \<open>json.Number\<close> may hold.\<close>

definition num_digits :: "string \<Rightarrow> string option" where
  "num_digits s = (case s of
     [] \<Rightarrow> None
   | c # cs \<Rightarrow> if is_digit c then Some (dropWhile is_digit cs) else None)"

definition num_exp :: "string \<Rightarrow> bool" where
  "num_exp s = (case s of
     [] \<Rightarrow> True
   | c # cs \<Rightarrow>
       (c = CHR ''e'' \<or> c = CHR ''E'') \<and>
       (let body = (case cs of d # ds \<Rightarrow> if d = CHR ''+'' \<or> d = CHR ''-'' then ds else cs | [] \<Rightarrow> [])
        in num_digits body = Some []))"

definition num_frac :: "string \<Rightarrow> bool" where
  "num_frac s = (case s of
     c # cs \<Rightarrow>
       if c = CHR ''.'' \<and> cs \<noteq> [] \<and> is_digit (hd cs) then num_exp (dropWhile is_digit cs) else num_exp s
   | [] \<Rightarrow> True)"

definition valid_number :: "string \<Rightarrow> bool" where
  "valid_number s =
    (let body = (case s of c # cs \<Rightarrow> if c = CHR ''-'' then cs else s | [] \<Rightarrow> []) in
     case body of
       [] \<Rightarrow> False
     | c # cs \<Rightarrow> if c = CHR ''0'' then num_frac cs
                 else is_digit c \<and> num_frac (dropWhile is_digit cs))"

section \<open>Values\<close>

text \<open>
  Which values the encoder accepts, and which of its numbers the decoder can hold in a
  float64.
\<close>

fun marshals :: "val \<Rightarrow> bool" where
  "marshals (VF64 x) = f64_finite x"
| "marshals (VF32 x) = f64_finite x"
| "marshals (VNum s) = (s = [] \<or> valid_number s)"
| "marshals (VList xs) = list_all marshals xs"
| "marshals (VMap m) = list_all (\<lambda>kv. marshals (snd kv)) m"
| "marshals (VMaps ms) = list_all (list_all (\<lambda>kv. marshals (snd kv))) ms"
| "marshals (VAny m) = False"
| "marshals v = True"

fun unmarshals :: "golib \<Rightarrow> val \<Rightarrow> bool" where
  "unmarshals E (VNum s) = (s = [] \<or> parse_float E s \<noteq> None)"
| "unmarshals E (VList xs) = list_all (unmarshals E) xs"
| "unmarshals E (VMap m) = list_all (\<lambda>kv. unmarshals E (snd kv)) m"
| "unmarshals E (VMaps ms) = list_all (list_all (\<lambda>kv. unmarshals E (snd kv))) ms"
| "unmarshals E v = True"

text \<open>
  An object: the encoder writes the keys in order, the decoder sets them one after the other.
  The result is listed in the order of its keys.
\<close>

definition json_object :: "(string \<times> 'v) list \<Rightarrow> (string \<times> 'v) list" where
  "json_object m = sort_key fst (fold (\<lambda>kv. kv_put (fix_utf8 (fst kv)) (snd kv)) (sort_key fst m) [])"

fun json_val :: "golib \<Rightarrow> cfglib \<Rightarrow> val \<Rightarrow> val" where
  "json_val E K (VStr s) = VStr (fix_utf8 s)"
| "json_val E K (VInt k n) = VF64 (f64_of_int n)"
| "json_val E K (VF32 x) = VF64 (cf_f32 K x)"
| "json_val E K (VNum s) = VF64 (if s = [] then FFin 0 else (case parse_float E s of Some x \<Rightarrow> x | None \<Rightarrow> FNaN))"
| "json_val E K (VList xs) = VList (map (json_val E K) xs)"
| "json_val E K (VMap m) = VMap (json_object (map (\<lambda>kv. (fst kv, json_val E K (snd kv))) m))"
| "json_val E K (VMaps ms) = VList (map (\<lambda>m. VMap (json_object (map (\<lambda>kv. (fst kv, json_val E K (snd kv))) m))) ms)"
| "json_val E K v = v"

definition json_kvs :: "golib \<Rightarrow> cfglib \<Rightarrow> kvs \<Rightarrow> kvs" where
  "json_kvs E K m = json_object (map (\<lambda>kv. (fst kv, json_val E K (snd kv))) m)"

section \<open>Copies of the document\<close>

text \<open>One definition per struct; a field without strings or maps comes back as it was.\<close>

definition json_listeners :: "listeners_spec \<Rightarrow> listeners_spec" where
  "json_listeners l = l\<lparr>
     ls_netconf := (ls_netconf l)\<lparr>nl_address := fix_utf8 (nl_address (ls_netconf l)),
       nl_hostKeyFile := fix_utf8 (nl_hostKeyFile (ls_netconf l))\<rparr>,
     ls_restconf := (ls_restconf l)\<lparr>rl_address := fix_utf8 (rl_address (ls_restconf l))\<rparr>,
     ls_management := \<lparr>ml_address = fix_utf8 (ml_address (ls_management l)),
       ml_restPath = fix_utf8 (ml_restPath (ls_management l)), ml_mcpPath = fix_utf8 (ml_mcpPath (ls_management l))\<rparr>\<rparr>"

definition json_token :: "token_spec \<Rightarrow> token_spec" where
  "json_token t = \<lparr>tk_id = fix_utf8 (tk_id t), tk_role = fix_utf8 (tk_role t),
     tk_secretFile = fix_utf8 (tk_secretFile t), tk_scopes = map fix_utf8 (tk_scopes t)\<rparr>"

definition json_module :: "module_spec \<Rightarrow> module_spec" where
  "json_module m = \<lparr>md_name = fix_utf8 (md_name m), md_revision = fix_utf8 (md_revision m),
     md_namespace = fix_utf8 (md_namespace m), md_moduleFile = fix_utf8 (md_moduleFile m),
     md_sourceFile = fix_utf8 (md_sourceFile m)\<rparr>"

definition json_leaf :: "schema_leaf \<Rightarrow> schema_leaf" where
  "json_leaf l = \<lparr>sl_path = fix_utf8 (sl_path l), sl_type = fix_utf8 (sl_type l), sl_access = fix_utf8 (sl_access l),
     sl_range = fix_utf8 (sl_range l), sl_pattern = fix_utf8 (sl_pattern l), sl_valueFrom = fix_utf8 (sl_valueFrom l)\<rparr>"

text \<open>The instance comes back nil only when it was nil; an empty startup is omitted.\<close>

definition json_profile :: "golib \<Rightarrow> cfglib \<Rightarrow> profile_spec \<Rightarrow> profile_spec" where
  "json_profile E K p = \<lparr>pr_name = fix_utf8 (pr_name p), pr_modules = map json_module (pr_modules p),
     pr_schema = map json_leaf (pr_schema p), pr_instance = map_option (json_kvs E K) (pr_instance p),
     pr_startup = (case pr_startup p of
       None \<Rightarrow> None | Some m \<Rightarrow> if m = [] then None else Some (json_kvs E K m))\<rparr>"

definition json_user :: "user_spec \<Rightarrow> user_spec" where
  "json_user u = \<lparr>us_name = fix_utf8 (us_name u), us_passwordFile = fix_utf8 (us_passwordFile u),
     us_authorizedKeysFile = fix_utf8 (us_authorizedKeysFile u), us_profile = fix_utf8 (us_profile u),
     us_access = fix_utf8 (us_access u)\<rparr>"

definition json_spec :: "golib \<Rightarrow> cfglib \<Rightarrow> spec \<Rightarrow> spec" where
  "json_spec E K sp = sp\<lparr>
     sp_listeners := json_listeners (sp_listeners sp),
     sp_auth := \<lparr>as_mode = fix_utf8 (as_mode (sp_auth sp)), as_tokens = map json_token (as_tokens (sp_auth sp))\<rparr>,
     sp_netconf := (sp_netconf sp)\<lparr>nc_versions := map fix_utf8 (nc_versions (sp_netconf sp))\<rparr>,
     sp_admission := \<lparr>ad_allowClientCidrs = map_option (map fix_utf8) (ad_allowClientCidrs (sp_admission sp))\<rparr>,
     sp_management := (sp_management sp)\<lparr>mg_allowedOrigins := map fix_utf8 (mg_allowedOrigins (sp_management sp))\<rparr>,
     sp_profiles := map (json_profile E K) (sp_profiles sp),
     sp_users := map json_user (sp_users sp)\<rparr>"

definition json_state :: "golib \<Rightarrow> cfglib \<Rightarrow> state \<Rightarrow> state" where
  "json_state E K st = \<lparr>st_apiVersion = fix_utf8 (st_apiVersion st), st_kind = fix_utf8 (st_kind st),
     st_metadata = \<lparr>mt_name = fix_utf8 (mt_name (st_metadata st)),
       mt_labels = json_object (map (\<lambda>kv. (fst kv, fix_utf8 (snd kv))) (mt_labels (st_metadata st)))\<rparr>,
     st_spec = json_spec E K (st_spec st)\<rparr>"

text \<open>The trees of the document, where the only values that can fail are.\<close>

definition state_trees :: "state \<Rightarrow> val list" where
  "state_trees st = concat (map (\<lambda>p. map VMap (case pr_instance p of None \<Rightarrow> [] | Some m \<Rightarrow> [m])
     @ map VMap (case pr_startup p of None \<Rightarrow> [] | Some m \<Rightarrow> [m])) (sp_profiles (st_spec st)))"

definition config_cloneState :: "golib \<Rightarrow> cfglib \<Rightarrow> state \<Rightarrow> derr + state" where
  "config_cloneState E K st =
    (if \<not> list_all marshals (state_trees st) then
       Inl (New CodeValidationFailed (''clone marshal: '' @ cf_marshal_err K))
     else if \<not> list_all (unmarshals E) (state_trees st) then
       Inl (New CodeValidationFailed (''clone unmarshal: '' @ cf_unmarshal_err K))
     else Inr (json_state E K st))"

definition app_cloneState :: "golib \<Rightarrow> cfglib \<Rightarrow> state option \<Rightarrow> derr + state" where
  "app_cloneState E K st = (case st of
     None \<Rightarrow> Inl (ValidationFailed ''nil state'' [])
   | Some st \<Rightarrow>
       if \<not> list_all marshals (state_trees st) then
         Inl (ValidationFailed (''clone: '' @ cf_marshal_err K) [])
       else if \<not> list_all (unmarshals E) (state_trees st) then
         Inl (ValidationFailed (''clone: '' @ cf_unmarshal_err K) [])
       else Inr (json_state E K st))"

section \<open>A second trip changes nothing\<close>

lemma decode_rune_width: "1 \<le> snd (decode_rune c cs) \<and> snd (decode_rune c cs) \<le> Suc (length cs)"
  by (auto simp: decode_rune_def Let_def split: list.splits)

text \<open>A valid sequence is recognised by its own bytes, whatever follows it.\<close>

lemma decode_rune_local:
  assumes "decode_rune c cs = (r, w)" and "\<not> (r = 65533 \<and> w = 1)"
  shows "decode_rune c (take (w - 1) cs @ rest) = (r, w)"
  using assms unfolding decode_rune_def Let_def
  by (auto split: if_splits list.splits)

lemma decode_fffd: "decode_rune (CHR 0xEF) ([CHR 0xBF, CHR 0xBD] @ rest) = (65533, 3)"
  by (simp add: decode_rune_def in_range_def)

lemma fix_fffd: "fix_utf8 (fffd @ s) = fffd @ fix_utf8 s"
  unfolding fffd_def using decode_fffd [of s] by simp

lemma fix_utf8_idem [simp]: "fix_utf8 (fix_utf8 s) = fix_utf8 s"
proof (induction s rule: fix_utf8.induct)
  case (2 c cs)
  obtain r w where d: "decode_rune c cs = (r, w)" by fastforce
  show ?case
  proof (cases "r = 65533 \<and> w = 1")
    case True
    with 2 d show ?thesis by (simp add: fix_fffd)
  next
    case False
    let ?t = "take (w - 1) cs" and ?rest = "fix_utf8 (drop (w - 1) cs)"
    have len: "length ?t = w - 1" using decode_rune_width [of c cs] d by auto
    have "decode_rune c (?t @ ?rest) = (r, w)" using decode_rune_local [OF d False] .
    then have "fix_utf8 (c # ?t @ ?rest) = c # ?t @ fix_utf8 ?rest"
      using False len by auto
    moreover have "fix_utf8 (c # cs) = c # ?t @ ?rest" using d False by auto
    moreover have "fix_utf8 ?rest = ?rest" using 2(2) d False by auto
    ultimately show ?thesis by (simp only:)
  qed
qed simp

lemma fix_utf8_fffd_nonempty: "fix_utf8 s = [] \<longleftrightarrow> s = []"
  by (cases s) (auto simp: fffd_def Let_def split: prod.splits)

text \<open>Printable ASCII is its own encoding.\<close>

lemma fix_utf8_ascii: "list_all (\<lambda>c. byte c < (128 :: nat)) s \<Longrightarrow> fix_utf8 s = s"
  by (induction s) (auto simp: decode_rune_def)

declare fix_utf8.simps(2) [simp del]

lemma fold_put_new:
  "distinct (map fst (acc @ m)) \<Longrightarrow> fold (\<lambda>kv. kv_put (fst kv) (snd kv)) m acc = acc @ m"
proof (induction m arbitrary: acc)
  case (Cons kv m)
  have "kv_put (fst kv) (snd kv) acc = acc @ [kv]"
    using Cons.prems by (induction acc) auto
  with Cons show ?case by simp
qed simp

lemma fold_put_keys: "kv \<in> set (fold (\<lambda>kv. kv_put (fix_utf8 (fst kv)) (snd kv)) m acc) \<Longrightarrow>
    (\<exists>kv' \<in> set m. fst kv = fix_utf8 (fst kv') \<and> snd kv = snd kv') \<or> kv \<in> set acc"
proof (induction m arbitrary: acc)
  case (Cons a m)
  from Cons.IH [OF Cons.prems [simplified]] show ?case by (auto dest: kv_put_mem)
qed simp

lemma fold_fixed_distinct: "distinct (map fst acc) \<Longrightarrow>
    distinct (map fst (fold (\<lambda>kv. kv_put (f kv) (g kv)) m acc))"
  by (induction m arbitrary: acc) (auto intro: distinct_update)

lemma json_object_mem:
  "kv \<in> set (json_object m) \<Longrightarrow> \<exists>kv' \<in> set m. fst kv = fix_utf8 (fst kv') \<and> snd kv = snd kv'"
  unfolding json_object_def using fold_put_keys [of kv "sort_key fst m" "[]"] by simp

lemma distinct_sort_key: "distinct (map fst (sort_key fst m)) \<longleftrightarrow> distinct (map fst m)"
  by (simp add: distinct_map inj_on_def)

lemma json_object_distinct [simp]: "distinct (map fst (json_object m))"
  unfolding json_object_def distinct_sort_key by (rule fold_fixed_distinct) simp

lemma json_object_sorted [simp]: "sort_key fst (json_object m) = json_object m"
  unfolding json_object_def by (simp add: sort_key_id_if_sorted)

lemma json_object_idem [simp]: "json_object (json_object m) = json_object m"
proof -
  let ?n = "json_object m"
  have keys: "fix_utf8 (fst kv) = fst kv" if "kv \<in> set ?n" for kv
    using json_object_mem [OF that] by auto
  have "fold (\<lambda>kv. kv_put (fix_utf8 (fst kv)) (snd kv)) ?n [] = fold (\<lambda>kv. kv_put (fst kv) (snd kv)) ?n []"
    by (rule fold_cong) (auto simp: keys)
  also have "\<dots> = ?n" using fold_put_new [of "[]" ?n] by simp
  finally show ?thesis by (simp add: json_object_def [of ?n])
qed

lemma map_snd_id: "(\<And>kv. kv \<in> set m \<Longrightarrow> f (snd kv) = snd kv) \<Longrightarrow> map (\<lambda>kv. (fst kv, f (snd kv))) m = m"
  by (induction m) auto

lemma json_object_vals:
  assumes "\<And>k v. (k, v) \<in> set m \<Longrightarrow> f (f v) = f v"
  shows "map (\<lambda>kv. (fst kv, f (snd kv))) (json_object (map (\<lambda>kv. (fst kv, f (snd kv))) m))
    = json_object (map (\<lambda>kv. (fst kv, f (snd kv))) m)"
  by (rule map_snd_id) (use assms in \<open>auto dest!: json_object_mem\<close>)

lemma json_val_idem [simp]: "json_val E K (json_val E K v) = json_val E K v"
proof (induction v rule: val_induct)
  case (map m)
  then show ?case using json_object_vals [of m "json_val E K"] by simp
next
  case (maps ms)
  have "json_val E K (VMap (json_object (map (\<lambda>kv. (fst kv, json_val E K (snd kv))) m)))
      = VMap (json_object (map (\<lambda>kv. (fst kv, json_val E K (snd kv))) m))" if "m \<in> set ms" for m
    using json_object_vals [of m "json_val E K"] maps [OF that] by simp
  then show ?case by (simp add: comp_def)
qed simp_all

lemma json_kvs_idem [simp]: "json_kvs E K (json_kvs E K m) = json_kvs E K m"
  unfolding json_kvs_def by (subst json_object_vals) simp_all

lemma json_object_empty [simp]: "json_object [] = []"
  by (simp add: json_object_def)

lemma fold_put_empty: "fold (\<lambda>kv. kv_put (f kv) (g kv)) m acc = [] \<longleftrightarrow> m = [] \<and> acc = []"
proof (induction m arbitrary: acc)
  case (Cons a m)
  have "kv_put (f a) (g a) acc \<noteq> []" by (cases acc) auto
  with Cons show ?case by simp
qed simp

lemma sort_key_eq_empty [simp]: "sort_key f m = [] \<longleftrightarrow> m = []"
  using length_sort [of f m] by (metis length_0_conv)

lemma json_object_eq_empty [simp]: "json_object m = [] \<longleftrightarrow> m = []"
  unfolding json_object_def sort_key_eq_empty fold_put_empty by simp

lemma json_kvs_eq_empty [simp]: "json_kvs E K m = [] \<longleftrightarrow> m = []"
  by (simp add: json_kvs_def)

lemmas json_struct_defs = json_listeners_def json_token_def json_module_def json_leaf_def json_user_def

lemma json_struct_idem [simp]:
  "json_listeners (json_listeners l) = json_listeners l" "json_token (json_token t) = json_token t"
  "json_module (json_module m) = json_module m" "json_leaf (json_leaf e) = json_leaf e"
  "json_user (json_user u) = json_user u"
  by (simp_all add: json_struct_defs comp_def)

lemma json_profile_idem [simp]: "json_profile E K (json_profile E K p) = json_profile E K p"
  by (simp add: json_profile_def comp_def option.map_comp split: option.splits)

lemma json_spec_idem [simp]: "json_spec E K (json_spec E K sp) = json_spec E K sp"
  by (rule spec.equality) (simp_all add: json_spec_def comp_def option.map_comp)

lemma json_state_idem [simp]: "json_state E K (json_state E K st) = json_state E K st"
  using json_object_vals [of "mt_labels (st_metadata st)" fix_utf8] by (simp add: json_state_def)

text \<open>
  What came out of a trip can make another. Documented behaviour of the library: a JSON
  number that parses without a range error is finite, and so is a finite float32 read back.
\<close>

definition trip_ok :: "golib \<Rightarrow> cfglib \<Rightarrow> bool" where
  "trip_ok E K \<longleftrightarrow> (\<forall>s x. valid_number s \<longrightarrow> parse_float E s = Some x \<longrightarrow> f64_finite x) \<and> (\<forall>x. f64_finite x \<longrightarrow> f64_finite (cf_f32 K x))"

lemma f64_of_int_finite [simp]: "f64_finite (f64_of_int n)"
  by (simp add: f64_of_int_def)

lemma json_object_all: "list_all P (map snd m) \<Longrightarrow> list_all (\<lambda>kv. P (snd kv)) (json_object m)"
  by (auto simp: list_all_iff dest!: json_object_mem)

lemma json_val_marshals:
  assumes "trip_ok E K" and "marshals v" and "unmarshals E v"
  shows "marshals (json_val E K v) \<and> unmarshals E (json_val E K v)"
  using assms(2,3)
proof (induction v rule: val_induct)
  case (num s)
  with assms(1) show ?case by (auto simp: trip_ok_def split: option.splits)
next
  case (map m)
  have "\<forall>v \<in> set (map snd m). marshals (json_val E K v) \<and> unmarshals E (json_val E K v)"
    using map by (force simp: list_all_iff)
  then show ?case by (auto simp: list_all_iff dest!: json_object_mem)
next
  case (maps ms)
  have "marshals (json_val E K v) \<and> unmarshals E (json_val E K v)" if "m \<in> set ms" "(k, v) \<in> set m" for m k v
    using maps that by (force simp: list_all_iff)
  then show ?case by (force simp: list_all_iff dest!: json_object_mem)
qed (use assms(1) in \<open>auto simp: list_all_iff trip_ok_def\<close>)

end
