(* ===== verification/App_Operations.thy ===== *)
theory App_Operations
  imports Model_State
begin

text \<open>
  Package \<open>app\<close>, \<open>operations.go\<close> with the verbs of \<open>types.go\<close>: the live mutations of the desired
  state and the check that nothing reset-only changed. An operation's optional parts are
  options; its JSON payload for observability has no effect. The theorems: what each verb
  does to the profile and user lists, and that no sequence of verbs can touch a reset-only
  part, so the check after it always passes.
\<close>

section \<open>Operations\<close>

abbreviation OpReplaceProfiles :: string where "OpReplaceProfiles \<equiv> ''replaceProfiles''"
abbreviation OpUpsertProfile :: string where "OpUpsertProfile \<equiv> ''upsertProfile''"
abbreviation OpRemoveProfile :: string where "OpRemoveProfile \<equiv> ''removeProfile''"
abbreviation OpReplaceUsers :: string where "OpReplaceUsers \<equiv> ''replaceUsers''"
abbreviation OpUpsertUser :: string where "OpUpsertUser \<equiv> ''upsertUser''"
abbreviation OpRemoveUser :: string where "OpRemoveUser \<equiv> ''removeUser''"
abbreviation OpReplaceAdmission :: string where "OpReplaceAdmission \<equiv> ''replaceAdmission''"
abbreviation OpReplaceNetconfCaps :: string where "OpReplaceNetconfCaps \<equiv> ''replaceNetconfCaps''"
abbreviation OpReplaceObservability :: string where "OpReplaceObservability \<equiv> ''replaceObservability''"

record apply_oper =
  ao_op :: string
  ao_profiles :: "profile_spec list"
  ao_profile :: "profile_spec option"
  ao_users :: "user_spec list"
  ao_user :: "user_spec option"
  ao_name :: string
  ao_admission :: "admission_spec option"
  ao_netconf :: "netconf_spec option"
  ao_observability :: bytes

definition KnownOp :: "string \<Rightarrow> bool" where
  "KnownOp oper \<longleftrightarrow> oper \<in> {OpReplaceProfiles, OpUpsertProfile, OpRemoveProfile, OpReplaceUsers, OpUpsertUser,
     OpRemoveUser, OpReplaceAdmission, OpReplaceNetconfCaps, OpReplaceObservability}"

section \<open>Lists of profiles and users\<close>

fun upsertProfile :: "profile_spec list \<Rightarrow> profile_spec \<Rightarrow> profile_spec list" where
  "upsertProfile [] p = [p]"
| "upsertProfile (q # qs) p = (if pr_name q = pr_name p then p # qs else q # upsertProfile qs p)"

definition removeProfile :: "profile_spec list \<Rightarrow> string \<Rightarrow> profile_spec list \<times> bool" where
  "removeProfile ps name = (filter (\<lambda>p. pr_name p \<noteq> name) ps, list_ex (\<lambda>p. pr_name p = name) ps)"

fun upsertUser :: "user_spec list \<Rightarrow> user_spec \<Rightarrow> user_spec list" where
  "upsertUser [] u = [u]"
| "upsertUser (q # qs) u = (if us_name q = us_name u then u # qs else q # upsertUser qs u)"

definition removeUser :: "user_spec list \<Rightarrow> string \<Rightarrow> user_spec list \<times> bool" where
  "removeUser us name = (filter (\<lambda>u. us_name u \<noteq> name) us, list_ex (\<lambda>u. us_name u = name) us)"

section \<open>Applying operations\<close>

definition missing :: "string \<Rightarrow> string \<Rightarrow> string \<Rightarrow> derr" where
  "missing msg path detail = ValidationFailed msg [fv path ''required'' detail]"

definition reset_only_rem :: string where
  "reset_only_rem = ''reset-only; rewrite bootstrap and POST /v1/state:reset''"

definition with_remediation :: "derr \<Rightarrow> string \<Rightarrow> derr" where
  "with_remediation e r = (case WithRemediation (Some e) r of Some e' \<Rightarrow> e' | None \<Rightarrow> e)"

definition applyOne :: "spec \<Rightarrow> apply_oper \<Rightarrow> nat \<Rightarrow> derr + spec" where
  "applyOne sp oper i =
    (let path = ''operations['' @ itoa (int i) @ '']''; verb = ao_op oper in
     if \<not> KnownOp verb then
       Inl (with_remediation (ValidationFailed ''unknown operation''
         [fv (path @ ''.op'') ''invalid_value''
            ''unknown op; listener addresses, host keys, tokens, tls/callHome/netconfTls, ui.enabled, and management.address are reset-only''])
         reset_only_rem)
     else if verb = OpReplaceProfiles then Inr (sp\<lparr>sp_profiles := ao_profiles oper\<rparr>)
     else if verb = OpUpsertProfile then
       (case ao_profile oper of
          None \<Rightarrow> Inl (missing ''missing profile'' (path @ ''.profile'') ''upsertProfile requires profile'')
        | Some p \<Rightarrow> Inr (sp\<lparr>sp_profiles := upsertProfile (sp_profiles sp) p\<rparr>))
     else if verb = OpRemoveProfile then
       (if ao_name oper = [] then Inl (missing ''missing name'' (path @ ''.name'') ''removeProfile requires name'')
        else (let (ps, found) = removeProfile (sp_profiles sp) (ao_name oper) in
              if \<not> found then Inl (NotFound (''profile '' @ ao_name oper @ '' not found''))
              else Inr (sp\<lparr>sp_profiles := ps\<rparr>)))
     else if verb = OpReplaceUsers then Inr (sp\<lparr>sp_users := ao_users oper\<rparr>)
     else if verb = OpUpsertUser then
       (case ao_user oper of
          None \<Rightarrow> Inl (missing ''missing user'' (path @ ''.user'') ''upsertUser requires user'')
        | Some u \<Rightarrow> Inr (sp\<lparr>sp_users := upsertUser (sp_users sp) u\<rparr>))
     else if verb = OpRemoveUser then
       (if ao_name oper = [] then Inl (missing ''missing name'' (path @ ''.name'') ''removeUser requires name'')
        else (let (us, found) = removeUser (sp_users sp) (ao_name oper) in
              if \<not> found then Inl (NotFound (''user '' @ ao_name oper @ '' not found''))
              else Inr (sp\<lparr>sp_users := us\<rparr>)))
     else if verb = OpReplaceAdmission then
       (case ao_admission oper of
          None \<Rightarrow> Inl (missing ''missing admission'' (path @ ''.admission'') ''replaceAdmission requires admission'')
        | Some a \<Rightarrow> Inr (sp\<lparr>sp_admission := a\<rparr>))
     else if verb = OpReplaceNetconfCaps then
       (case ao_netconf oper of
          None \<Rightarrow> Inl (missing ''missing netconf'' (path @ ''.netconf'') ''replaceNetconfCaps requires netconf'')
        | Some n \<Rightarrow> Inr (sp\<lparr>sp_netconf := (sp_netconf sp)\<lparr>nc_versions := nc_versions n, nc_notifications := nc_notifications n\<rparr>\<rparr>))
     else Inr sp)"

fun apply_from :: "spec \<Rightarrow> apply_oper list \<Rightarrow> nat \<Rightarrow> derr + spec" where
  "apply_from sp [] i = Inr sp"
| "apply_from sp (oper # opers) i = (case applyOne sp oper i of
     Inl err \<Rightarrow> Inl err | Inr sp' \<Rightarrow> apply_from sp' opers (Suc i))"

definition applyOperations :: "state option \<Rightarrow> apply_oper list \<Rightarrow> derr + state" where
  "applyOperations st opers = (case st of
     None \<Rightarrow> Inl (ValidationFailed ''nil state'' [fv [] ''required'' ''state is nil''])
   | Some st \<Rightarrow>
       (case apply_from (st_spec st) opers 0 of
          Inl err \<Rightarrow> Inl err | Inr sp \<Rightarrow> Inr (st\<lparr>st_spec := sp\<rparr>)))"

section \<open>The reset-only check\<close>

definition listenersEqual :: "listeners_spec \<Rightarrow> listeners_spec \<Rightarrow> bool" where
  "listenersEqual a b \<longleftrightarrow> ls_netconf a = ls_netconf b \<and> ls_restconf a = ls_restconf b
     \<and> ls_management a = ls_management b \<and> ls_callHome a = ls_callHome b \<and> ls_netconfTLS a = ls_netconfTLS b"

definition authEqual :: "auth_spec \<Rightarrow> auth_spec \<Rightarrow> bool" where
  "authEqual a b =
    (if as_mode a \<noteq> as_mode b \<or> length (as_tokens a) \<noteq> length (as_tokens b) then False
     else list_all (\<lambda>(x, y). tk_id x = tk_id y \<and> tk_role x = tk_role y \<and> tk_secretFile x = tk_secretFile y)
            (zip (as_tokens a) (as_tokens b)))"

definition reset_only_error :: "string \<Rightarrow> string \<Rightarrow> string \<Rightarrow> derr" where
  "reset_only_error msg path detail = with_remediation (ValidationFailed msg [fv path ''invalid_value'' detail]) reset_only_rem"

definition rejectResetOnly :: "state option \<Rightarrow> state option \<Rightarrow> derr option" where
  "rejectResetOnly before after = (case (before, after) of
     (Some b, Some a) \<Rightarrow>
       (let x = st_spec b; y = st_spec a in
        if \<not> listenersEqual (sp_listeners x) (sp_listeners y) then
          Some (reset_only_error ''listeners are reset-only'' ''spec.listeners''
                  ''listener addresses, host keys, and tls/callHome/netconfTls cannot change via Apply'')
        else if \<not> authEqual (sp_auth x) (sp_auth y) then
          Some (reset_only_error ''spec.auth is reset-only'' ''spec.auth'' ''auth tokens cannot change via Apply'')
        else if sp_ui x \<noteq> sp_ui y then
          Some (reset_only_error ''spec.ui is reset-only'' ''spec.ui.enabled'' ''ui.enabled cannot change via Apply'')
        else if nc_sharedProfileDatastore (sp_netconf x) \<noteq> nc_sharedProfileDatastore (sp_netconf y) then
          Some (reset_only_error ''sharedProfileDatastore is reset-only'' ''spec.netconf.sharedProfileDatastore''
                  ''sharedProfileDatastore cannot change via Apply'')
        else if sp_restconf x \<noteq> sp_restconf y then
          Some (reset_only_error ''spec.restconf is reset-only'' ''spec.restconf'' ''restconf encoding flags cannot change via Apply'')
        else None)
   | _ \<Rightarrow> None)"

section \<open>Named lists\<close>

text \<open>Profiles and users share a contract: a list of named things, the first of a name counts.\<close>

locale named_list =
  fixes name :: "'a \<Rightarrow> string"
    and ups :: "'a list \<Rightarrow> 'a \<Rightarrow> 'a list"
    and del :: "'a list \<Rightarrow> string \<Rightarrow> 'a list \<times> bool"
  assumes ups_Nil: "ups [] p = [p]"
    and ups_Cons: "ups (q # qs) p = (if name q = name p then p # qs else q # ups qs p)"
    and del_eq: "del ps n = (filter (\<lambda>p. name p \<noteq> n) ps, list_ex (\<lambda>p. name p = n) ps)"
begin

definition get :: "'a list \<Rightarrow> string \<Rightarrow> 'a option" where
  "get ps n = find (\<lambda>p. name p = n) ps"

lemma get_ups: "get (ups ps p) n = (if n = name p then Some p else get ps n)"
  by (induction ps) (auto simp: get_def ups_Nil ups_Cons)

lemma names_ups: "map name (ups ps p) = (if name p \<in> name ` set ps then map name ps else map name ps @ [name p])"
  by (induction ps) (auto simp: ups_Nil ups_Cons)

lemma distinct_ups: "distinct (map name ps) \<Longrightarrow> distinct (map name (ups ps p))"
  by (simp add: names_ups)

lemma get_del: "get (fst (del ps n)) m = (if m = n then None else get ps m)"
  by (induction ps) (auto simp: get_def del_eq)

lemma distinct_del: "distinct (map name ps) \<Longrightarrow> distinct (map name (fst (del ps n)))"
  by (simp add: del_eq distinct_map_filter)

lemma del_found: "snd (del ps n) \<longleftrightarrow> get ps n \<noteq> None"
  by (induction ps) (auto simp: get_def del_eq)

end

interpretation profiles: named_list pr_name upsertProfile removeProfile
  by unfold_locales (simp_all add: removeProfile_def)

interpretation users: named_list us_name upsertUser removeUser
  by unfold_locales (simp_all add: removeUser_def)

section \<open>Facts\<close>

text \<open>The parts of a spec that the live verbs may not touch.\<close>

definition reset_only_parts :: "spec \<Rightarrow> listeners_spec \<times> auth_spec \<times> ui_spec \<times> restconf_spec \<times> management_spec \<times> bool \<times> bool" where
  "reset_only_parts sp = (sp_listeners sp, sp_auth sp, sp_ui sp, sp_restconf sp, sp_management sp,
     nc_sharedProfileDatastore (sp_netconf sp), nc_writableRunning (sp_netconf sp))"

lemma applyOne_keeps: "applyOne sp oper i = Inr sp' \<Longrightarrow> reset_only_parts sp' = reset_only_parts sp"
  unfolding applyOne_def Let_def reset_only_parts_def
  by (auto split: if_splits option.splits prod.splits)

lemma apply_from_keeps: "apply_from sp opers i = Inr sp' \<Longrightarrow> reset_only_parts sp' = reset_only_parts sp"
  by (induction opers arbitrary: sp i) (auto split: sum.splits dest: applyOne_keeps)

lemma authEqual_refl [simp]: "authEqual a a"
  by (simp add: authEqual_def list_all_iff zip_same_conv_map)

lemma listenersEqual_refl [simp]: "listenersEqual a a"
  by (simp add: listenersEqual_def)

definition names_ok :: "spec \<Rightarrow> bool" where
  "names_ok sp \<longleftrightarrow> distinct (map pr_name (sp_profiles sp)) \<and> distinct (map us_name (sp_users sp))"

abbreviation get_profile :: "spec \<Rightarrow> string \<Rightarrow> profile_spec option" where
  "get_profile sp n \<equiv> find (\<lambda>p. pr_name p = n) (sp_profiles sp)"

abbreviation get_user :: "spec \<Rightarrow> string \<Rightarrow> user_spec option" where
  "get_user sp n \<equiv> find (\<lambda>u. us_name u = n) (sp_users sp)"

section \<open>Properties\<close>

text \<open>Live operations cannot change what is reset-only: whatever verbs are applied, the
  listeners, tokens, UI, RESTCONF, management and the reset-only NETCONF flags stay, the
  document's identity stays, and the check that follows never rejects.\<close>

theorem live_ops_keep_reset_only:
  assumes "applyOperations (Some st) opers = Inr st'"
  shows "reset_only_parts (st_spec st') = reset_only_parts (st_spec st) \<and> st_metadata st' = st_metadata st
    \<and> rejectResetOnly (Some st) (Some st') = None"
proof -
  from assms obtain sp where sp: "apply_from (st_spec st) opers 0 = Inr sp" "st' = st\<lparr>st_spec := sp\<rparr>"
    by (auto simp: applyOperations_def split: sum.splits)
  from apply_from_keeps [OF sp(1)] sp(2) show ?thesis
    by (simp add: reset_only_parts_def rejectResetOnly_def Let_def)
qed

abbreviation blank_spec :: spec where
  "blank_spec \<equiv> \<lparr>sp_listeners = \<lparr>ls_netconf = \<lparr>nl_enabled = True, nl_address = [], nl_hostKeyFile = []\<rparr>,
      ls_restconf = \<lparr>rl_enabled = False, rl_address = [], rl_tls = \<lparr>tls_enabled = False\<rparr>\<rparr>,
      ls_management = \<lparr>ml_address = [], ml_restPath = [], ml_mcpPath = []\<rparr>,
      ls_callHome = \<lparr>ch_enabled = False\<rparr>, ls_netconfTLS = \<lparr>nt_enabled = False\<rparr>\<rparr>,
     sp_auth = \<lparr>as_mode = ''bearer'', as_tokens = []\<rparr>, sp_ui = \<lparr>ui_enabled = False\<rparr>,
     sp_netconf = \<lparr>nc_versions = [''1.1''], nc_writableRunning = False, nc_notifications = \<lparr>ns_enabled = True\<rparr>,
       nc_sharedProfileDatastore = False\<rparr>,
     sp_restconf = \<lparr>rc_json = True, rc_xml = True\<rparr>, sp_admission = \<lparr>ad_allowClientCidrs = None\<rparr>,
     sp_management = \<lparr>mg_allowedOrigins = [], mg_mcp = \<lparr>mcp_allowLegacyClients = False\<rparr>\<rparr>,
     sp_profiles = [], sp_users = []\<rparr>"

abbreviation blank_state :: state where
  "blank_state \<equiv> \<lparr>st_apiVersion = [], st_kind = [], st_metadata = \<lparr>mt_name = ''lab'', mt_labels = []\<rparr>, st_spec = blank_spec\<rparr>"

abbreviation admin_user :: user_spec where
  "admin_user \<equiv> \<lparr>us_name = ''admin'', us_passwordFile = ''pw'', us_authorizedKeysFile = [], us_profile = ''lab'', us_access = ''read''\<rparr>"

abbreviation user_op :: "string \<Rightarrow> apply_oper" where
  "user_op verb \<equiv> \<lparr>ao_op = verb, ao_profiles = [], ao_profile = None, ao_users = [], ao_user = Some admin_user,
     ao_name = ''admin'', ao_admission = None, ao_netconf = None, ao_observability = []\<rparr>"

theorem live_ops_keep_reset_only_witness:
  "rejectResetOnly (Some blank_state) (Some (blank_state\<lparr>st_spec := blank_spec\<lparr>sp_users := [admin_user]\<rparr>\<rparr>)) = None"
  using live_ops_keep_reset_only [of blank_state "[user_op OpUpsertUser]" "blank_state\<lparr>st_spec := blank_spec\<lparr>sp_users := [admin_user]\<rparr>\<rparr>"]
  by (simp add: applyOperations_def applyOne_def KnownOp_def Let_def)

text \<open>What the list verbs do. Upserting a user or a profile makes it the one found under its
  name and leaves the others; removing one makes its name unknown and leaves the others, and
  removing an unknown name is refused as not found; names stay distinct throughout.\<close>

theorem list_verbs_exact:
  assumes "applyOne sp oper i = Inr sp'" and "names_ok sp"
  shows "(ao_op oper = OpUpsertUser \<longrightarrow> names_ok sp' \<and> (\<exists>u. ao_user oper = Some u
        \<and> (\<forall>n. get_user sp' n = (if n = us_name u then Some u else get_user sp n))))
    \<and> (ao_op oper = OpRemoveUser \<longrightarrow> names_ok sp' \<and> get_user sp (ao_name oper) \<noteq> None
        \<and> (\<forall>n. get_user sp' n = (if n = ao_name oper then None else get_user sp n)))
    \<and> (ao_op oper = OpUpsertProfile \<longrightarrow> names_ok sp' \<and> (\<exists>p. ao_profile oper = Some p
        \<and> (\<forall>n. get_profile sp' n = (if n = pr_name p then Some p else get_profile sp n))))
    \<and> (ao_op oper = OpRemoveProfile \<longrightarrow> names_ok sp' \<and> get_profile sp (ao_name oper) \<noteq> None
        \<and> (\<forall>n. get_profile sp' n = (if n = ao_name oper then None else get_profile sp n)))"
proof (intro conjI impI)
  assume v: "ao_op oper = OpUpsertUser"
  then show "names_ok sp'" "\<exists>u. ao_user oper = Some u \<and> (\<forall>n. get_user sp' n = (if n = us_name u then Some u else get_user sp n))"
    using assms users.get_ups [unfolded users.get_def] users.distinct_ups
    by (auto simp: applyOne_def KnownOp_def Let_def names_ok_def split: option.splits)
next
  assume v: "ao_op oper = OpUpsertProfile"
  then show "names_ok sp'" "\<exists>p. ao_profile oper = Some p \<and> (\<forall>n. get_profile sp' n = (if n = pr_name p then Some p else get_profile sp n))"
    using assms profiles.get_ups [unfolded profiles.get_def] profiles.distinct_ups
    by (auto simp: applyOne_def KnownOp_def Let_def names_ok_def split: option.splits)
next
  assume v: "ao_op oper = OpRemoveUser"
  then have sp': "sp' = sp\<lparr>sp_users := fst (removeUser (sp_users sp) (ao_name oper))\<rparr>" "snd (removeUser (sp_users sp) (ao_name oper))"
    using assms(1) by (auto simp: applyOne_def KnownOp_def Let_def split: if_splits prod.splits)
  show "names_ok sp'" using assms(2) users.distinct_del by (simp add: sp'(1) names_ok_def)
  show "get_user sp (ao_name oper) \<noteq> None" using sp'(2) users.del_found [unfolded users.get_def] by blast
  show "\<forall>n. get_user sp' n = (if n = ao_name oper then None else get_user sp n)"
    using users.get_del [unfolded users.get_def] by (simp add: sp'(1))
next
  assume v: "ao_op oper = OpRemoveProfile"
  then have sp': "sp' = sp\<lparr>sp_profiles := fst (removeProfile (sp_profiles sp) (ao_name oper))\<rparr>" "snd (removeProfile (sp_profiles sp) (ao_name oper))"
    using assms(1) by (auto simp: applyOne_def KnownOp_def Let_def split: if_splits prod.splits)
  show "names_ok sp'" using assms(2) profiles.distinct_del by (simp add: sp'(1) names_ok_def)
  show "get_profile sp (ao_name oper) \<noteq> None" using sp'(2) profiles.del_found [unfolded profiles.get_def] by blast
  show "\<forall>n. get_profile sp' n = (if n = ao_name oper then None else get_profile sp n)"
    using profiles.get_del [unfolded profiles.get_def] by (simp add: sp'(1))
qed

theorem list_verbs_exact_witness:
  "get_user (blank_spec\<lparr>sp_users := [admin_user]\<rparr>) ''admin'' = Some admin_user"
  using list_verbs_exact [of blank_spec "user_op OpUpsertUser" 0 "blank_spec\<lparr>sp_users := [admin_user]\<rparr>"]
  by (simp add: applyOne_def KnownOp_def Let_def names_ok_def)

end
