(* ===== verification/Config_Check.thy ===== *)
theory Config_Check
  imports Config_Json App_Operations
begin

text \<open>
  Package \<open>config\<close>, \<open>defaults.go\<close>, \<open>normalize.go\<close> and \<open>validate.go\<close>: the defaults a document gets
  and the checks it must pass. Every check of the code appends to one list of violations; here
  it returns the violations it appends, in the same order. Resolving a TCP address, reading
  a secret file, joining paths and quoting are the library's; a CIDR parses when
  \<open>ParsePrefix\<close> of the library accepts it. The theorems: the checks accept exactly the documents
  a declarative specification describes, and normalizing twice is normalizing once.
\<close>

section \<open>Defaults\<close>

abbreviation DefaultNetconfAddress :: string where "DefaultNetconfAddress \<equiv> '':830''"
abbreviation DefaultRestconfAddress :: string where "DefaultRestconfAddress \<equiv> '':8303''"
abbreviation DefaultMgmtAddress :: string where "DefaultMgmtAddress \<equiv> '':8088''"
abbreviation DefaultRESTPath :: string where "DefaultRESTPath \<equiv> ''/v1''"
abbreviation DefaultMCPPath :: string where "DefaultMCPPath \<equiv> ''/mcp''"
abbreviation MgmtAuthBearer :: string where "MgmtAuthBearer \<equiv> ''bearer''"
abbreviation NetconfVersion10 :: string where "NetconfVersion10 \<equiv> ''1.0''"
abbreviation NetconfVersion11 :: string where "NetconfVersion11 \<equiv> ''1.1''"

definition MaxDocumentBytes :: nat where "MaxDocumentBytes = 2 ^ 20"
definition MinTokenBytes :: int where "MinTokenBytes = 32"

definition DefaultLoopbackCIDRs :: "string list" where
  "DefaultLoopbackCIDRs = [''127.0.0.0/8'', ''::1/128'']"

definition blank :: "string \<Rightarrow> bool" where
  "blank s \<longleftrightarrow> TrimSpace s = []"

definition or_default :: "string \<Rightarrow> string \<Rightarrow> string" where
  "or_default s d = (if blank s then d else s)"

text \<open>
  The lists that are not options are nil and empty at once in the model, so giving them an
  empty value changes nothing.
\<close>

definition materializeDefaults :: "spec \<Rightarrow> spec" where
  "materializeDefaults sp =
    (let l = sp_listeners sp in sp\<lparr>
     sp_listeners := l\<lparr>
       ls_netconf := (ls_netconf l)\<lparr>nl_address := or_default (nl_address (ls_netconf l)) DefaultNetconfAddress\<rparr>,
       ls_restconf := (ls_restconf l)\<lparr>rl_address := or_default (rl_address (ls_restconf l)) DefaultRestconfAddress\<rparr>,
       ls_management := \<lparr>ml_address = or_default (ml_address (ls_management l)) DefaultMgmtAddress,
         ml_restPath = or_default (ml_restPath (ls_management l)) DefaultRESTPath,
         ml_mcpPath = or_default (ml_mcpPath (ls_management l)) DefaultMCPPath\<rparr>\<rparr>,
     sp_auth := (sp_auth sp)\<lparr>as_mode := or_default (as_mode (sp_auth sp)) MgmtAuthBearer\<rparr>,
     sp_netconf := (sp_netconf sp)\<lparr>nc_versions :=
       (if nc_versions (sp_netconf sp) = [] then [NetconfVersion10, NetconfVersion11] else nc_versions (sp_netconf sp))\<rparr>,
     sp_admission := \<lparr>ad_allowClientCidrs = (case ad_allowClientCidrs (sp_admission sp) of
       None \<Rightarrow> Some DefaultLoopbackCIDRs | Some cs \<Rightarrow> Some cs)\<rparr>,
     sp_profiles := map (\<lambda>p. p\<lparr>pr_instance := (case pr_instance p of None \<Rightarrow> Some [] | Some m \<Rightarrow> Some m)\<rparr>)
       (sp_profiles sp)\<rparr>)"

definition Normalize :: "golib \<Rightarrow> cfglib \<Rightarrow> state option \<Rightarrow> derr + state" where
  "Normalize E K st = (case st of
     None \<Rightarrow> Inl (ValidationFailed ''nil state'' [fv [] ''required'' ''state is nil''])
   | Some st \<Rightarrow>
       (case config_cloneState E K st of
          Inl err \<Rightarrow> Inl err
        | Inr out \<Rightarrow> Inr (out\<lparr>st_spec := materializeDefaults (st_spec out)\<rparr>)))"

section \<open>Checks\<close>

definition vif :: "bool \<Rightarrow> field_violation \<Rightarrow> field_violation list" where
  "vif b v = (if b then [v] else [])"

lemma vif_empty [simp]: "vif b v = [] \<longleftrightarrow> \<not> b"
  by (simp add: vif_def)

definition validateDocument :: "cfglib \<Rightarrow> state \<Rightarrow> field_violation list" where
  "validateDocument K st =
    vif (st_apiVersion st \<noteq> ''labnetconf.dev/v1alpha1'')
      (if blank (st_apiVersion st) then fv ''apiVersion'' ''required'' ''apiVersion is required''
       else fv ''apiVersion'' ''unsupported_version'' (''apiVersion must be '' @ cf_quote K ''labnetconf.dev/v1alpha1''))
    @ vif (st_kind st \<noteq> ''LabNETCONF'')
      (if blank (st_kind st) then fv ''kind'' ''required'' ''kind is required''
       else fv ''kind'' ''invalid_value'' (''kind must be '' @ cf_quote K ''LabNETCONF''))
    @ vif (blank (mt_name (st_metadata st))) (fv ''metadata.name'' ''required'' ''metadata.name is required'')"

definition validateTCPAddr :: "cfglib \<Rightarrow> string \<Rightarrow> string \<Rightarrow> field_violation list" where
  "validateTCPAddr K path addr =
    (if blank addr then [fv path ''required'' ''address is required'']
     else vif (\<not> cf_tcp K addr) (fv path ''invalid_value'' ''invalid TCP host:port''))"

definition validateListeners :: "cfglib \<Rightarrow> listeners_spec \<Rightarrow> field_violation list" where
  "validateListeners K l =
    validateTCPAddr K ''spec.listeners.netconf.address'' (nl_address (ls_netconf l))
    @ validateTCPAddr K ''spec.listeners.restconf.address'' (rl_address (ls_restconf l))
    @ validateTCPAddr K ''spec.listeners.management.address'' (ml_address (ls_management l))
    @ vif (ml_restPath (ls_management l) \<noteq> [] \<and> \<not> prefix ''/'' (ml_restPath (ls_management l)))
        (fv ''spec.listeners.management.restPath'' ''invalid_value'' ''restPath must start with /'')
    @ vif (ml_mcpPath (ls_management l) \<noteq> [] \<and> \<not> prefix ''/'' (ml_mcpPath (ls_management l)))
        (fv ''spec.listeners.management.mcpPath'' ''invalid_value'' ''mcpPath must start with /'')
    @ vif (nl_enabled (ls_netconf l) \<and> blank (nl_hostKeyFile (ls_netconf l)))
        (fv ''spec.listeners.netconf.hostKeyFile'' ''required''
           ''hostKeyFile is required when NETCONF is enabled (path non-empty; bytes required to serve)'')"

definition checkSecretPath :: "cfglib \<Rightarrow> string \<Rightarrow> string \<Rightarrow> string \<Rightarrow> int \<Rightarrow> field_violation list" where
  "checkSecretPath K field path baseDir minBytes =
    (if blank path then [fv field ''required'' ''secretFile is required (file ref, never inline)'']
     else if minBytes \<le> 0 then []
     else
       (let resolved = (if \<not> prefix ''/'' path \<and> baseDir \<noteq> [] then cf_join K baseDir path else path) in
        case cf_file K resolved of
          Inl _ \<Rightarrow> []
        | Inr b \<Rightarrow> vif (int (length b) < minBytes)
            (fv field ''invalid_value'' (''token secret must be at least '' @ itoa minBytes @ '' bytes''))))"

text \<open>
  The three loops over named rows share their first step: an empty name, a name that an
  earlier row has, or a new name that is recorded with its position.
\<close>

definition check_name :: "nat gomap \<Rightarrow> nat \<Rightarrow> string \<Rightarrow> field_violation \<Rightarrow> (nat \<Rightarrow> field_violation)
    \<Rightarrow> field_violation list \<times> nat gomap" where
  "check_name ids i name on_blank on_dup =
    (if blank name then ([on_blank], ids)
     else case map_of ids name of
       Some prev \<Rightarrow> ([on_dup prev], ids)
     | None \<Rightarrow> ([], kv_put name i ids))"

definition at_index :: "string \<Rightarrow> nat \<Rightarrow> string" where
  "at_index base i = base @ ''['' @ itoa (int i) @ '']''"

definition token_rest :: "cfglib \<Rightarrow> string \<Rightarrow> string \<Rightarrow> token_spec \<Rightarrow> field_violation list" where
  "token_rest K baseDir p tok =
    vif (tk_role tok \<noteq> [] \<and> \<not> KnownRole (tk_role tok))
      (fv (p @ ''.role'') ''invalid_value'' ''role must be administrator or reader'')
    @ checkSecretPath K (p @ ''.secretFile'') (tk_secretFile tok) baseDir MinTokenBytes"

fun auth_tokens :: "cfglib \<Rightarrow> string \<Rightarrow> nat \<Rightarrow> nat gomap \<Rightarrow> token_spec list \<Rightarrow> field_violation list" where
  "auth_tokens K baseDir i ids [] = []"
| "auth_tokens K baseDir i ids (tok # toks) =
    (let p = at_index ''spec.auth.tokens'' i;
         (vs, ids') = check_name ids i (tk_id tok)
           (fv (p @ ''.id'') ''empty_id'' ''token id is required'')
           (\<lambda>prev. fv (p @ ''.id'') ''duplicate_id'' (''duplicate token id '' @ cf_quote K (tk_id tok)
              @ '' (also tokens['' @ itoa (int prev) @ ''])''))
     in vs @ token_rest K baseDir p tok @ auth_tokens K baseDir (Suc i) ids' toks)"

definition validateAuth :: "cfglib \<Rightarrow> auth_spec \<Rightarrow> string \<Rightarrow> field_violation list" where
  "validateAuth K a baseDir =
    vif (as_mode a \<noteq> [] \<and> as_mode a \<noteq> MgmtAuthBearer) (fv ''spec.auth.mode'' ''invalid_value'' ''mode must be bearer'')
    @ auth_tokens K baseDir 0 [] (as_tokens a)"

fun netconf_versions :: "nat \<Rightarrow> string list \<Rightarrow> string list \<Rightarrow> field_violation list" where
  "netconf_versions i seen [] = []"
| "netconf_versions i seen (v # vs) =
    vif (v \<noteq> NetconfVersion10 \<and> v \<noteq> NetconfVersion11)
      (fv (at_index ''spec.netconf.versions'' i) ''invalid_value'' ''versions must be a subset of {\"1.0\",\"1.1\"}'')
    @ vif (v \<in> set seen) (fv (at_index ''spec.netconf.versions'' i) ''duplicate_id'' ''duplicate version'')
    @ netconf_versions (Suc i) (v # seen) vs"

definition validateNetconf :: "netconf_spec \<Rightarrow> field_violation list" where
  "validateNetconf n =
    vif (nc_writableRunning n) (fv ''spec.netconf.writableRunning'' ''invalid_value'' ''writableRunning must be false'')
    @ netconf_versions 0 [] (nc_versions n)"

definition parses :: "cfglib \<Rightarrow> string \<Rightarrow> bool" where
  "parses K c = (case cf_prefix K c of Inl _ \<Rightarrow> False | Inr _ \<Rightarrow> True)"

fun admission_cidrs :: "cfglib \<Rightarrow> nat \<Rightarrow> string list \<Rightarrow> field_violation list" where
  "admission_cidrs K i [] = []"
| "admission_cidrs K i (c # cs) =
    vif (\<not> parses K c)
      (fv (at_index ''spec.admission.allowClientCidrs'' i) ''invalid_value'' (''invalid CIDR '' @ cf_quote K c))
    @ admission_cidrs K (Suc i) cs"

definition validateAdmission :: "cfglib \<Rightarrow> admission_spec \<Rightarrow> field_violation list" where
  "validateAdmission K a = admission_cidrs K 0 (case ad_allowClientCidrs a of None \<Rightarrow> [] | Some cs \<Rightarrow> cs)"

fun module_rows :: "string \<Rightarrow> nat \<Rightarrow> module_spec list \<Rightarrow> field_violation list" where
  "module_rows path j [] = []"
| "module_rows path j (m # ms) =
    vif (blank (md_name m)) (fv (at_index (path @ ''.modules'') j @ ''.name'') ''required'' ''module name is required'')
    @ module_rows path (Suc j) ms"

definition schema_row :: "string \<Rightarrow> schema_leaf \<Rightarrow> field_violation list" where
  "schema_row sp s =
    vif (blank (sl_path s)) (fv (sp @ ''.path'') ''required'' ''schema path is required'')
    @ (if blank (sl_type s) then [fv (sp @ ''.type'') ''required'' ''schema type is required'']
       else vif (\<not> KnownSchemaType (sl_type s)) (fv (sp @ ''.type'') ''invalid_value'' ''unsupported compact schema type''))
    @ vif (sl_access s \<noteq> [] \<and> sl_access s \<noteq> SchemaAccessRead \<and> sl_access s \<noteq> ''write'')
        (fv (sp @ ''.access'') ''invalid_value'' ''access must be read or write'')
    @ vif (sl_valueFrom s \<noteq> [] \<and> sl_valueFrom s \<noteq> ValueFromProcessUptime)
        (fv (sp @ ''.valueFrom'') ''invalid_value'' ''valueFrom must be processUptime'')"

fun schema_rows :: "string \<Rightarrow> nat \<Rightarrow> schema_leaf list \<Rightarrow> field_violation list" where
  "schema_rows path j [] = []"
| "schema_rows path j (s # ss) = schema_row (at_index (path @ ''.schema'') j) s @ schema_rows path (Suc j) ss"

definition profile_rest :: "string \<Rightarrow> profile_spec \<Rightarrow> field_violation list" where
  "profile_rest path p = module_rows path 0 (pr_modules p) @ schema_rows path 0 (pr_schema p)"

fun profile_rows :: "cfglib \<Rightarrow> nat \<Rightarrow> nat gomap \<Rightarrow> profile_spec list \<Rightarrow> field_violation list" where
  "profile_rows K i names [] = []"
| "profile_rows K i names (p # ps) =
    (let path = at_index ''spec.profiles'' i;
         (vs, names') = check_name names i (pr_name p)
           (fv (path @ ''.name'') ''empty_id'' ''profile name is required'')
           (\<lambda>prev. fv (path @ ''.name'') ''duplicate_id'' (''duplicate profile name '' @ cf_quote K (pr_name p)
              @ '' (also profiles['' @ itoa (int prev) @ ''])''))
     in vs @ profile_rest path p @ profile_rows K (Suc i) names' ps)"

definition validateProfiles :: "cfglib \<Rightarrow> profile_spec list \<Rightarrow> field_violation list" where
  "validateProfiles K ps = profile_rows K 0 [] ps"

definition user_rest :: "cfglib \<Rightarrow> string list \<Rightarrow> string \<Rightarrow> user_spec \<Rightarrow> field_violation list" where
  "user_rest K profileNames path u =
    (if blank (us_profile u) then [fv (path @ ''.profile'') ''required'' ''profile is required'']
     else vif (us_profile u \<notin> set profileNames)
       (fv (path @ ''.profile'') ''invalid_value'' (''profile '' @ cf_quote K (us_profile u) @ '' is not defined'')))
    @ vif (us_access u \<noteq> ''read'' \<and> us_access u \<noteq> ''read-write'')
        (if blank (us_access u) then fv (path @ ''.access'') ''required'' ''access is required''
         else fv (path @ ''.access'') ''invalid_value'' ''access must be read or read-write'')
    @ vif (blank (us_passwordFile u) \<and> blank (us_authorizedKeysFile u))
        (fv path ''required'' ''passwordFile and/or authorizedKeysFile is required'')"

fun user_rows :: "cfglib \<Rightarrow> string list \<Rightarrow> nat \<Rightarrow> nat gomap \<Rightarrow> user_spec list \<Rightarrow> field_violation list" where
  "user_rows K profileNames i names [] = []"
| "user_rows K profileNames i names (u # us) =
    (let path = at_index ''spec.users'' i;
         (vs, names') = check_name names i (us_name u)
           (fv (path @ ''.name'') ''empty_id'' ''user name is required'')
           (\<lambda>prev. fv (path @ ''.name'') ''duplicate_id'' (''duplicate user name '' @ cf_quote K (us_name u)
              @ '' (also users['' @ itoa (int prev) @ ''])''))
     in vs @ user_rest K profileNames path u @ user_rows K profileNames (Suc i) names' us)"

definition validateUsers :: "cfglib \<Rightarrow> user_spec list \<Rightarrow> profile_spec list \<Rightarrow> field_violation list" where
  "validateUsers K us ps = user_rows K (filter (\<lambda>n. n \<noteq> []) (map pr_name ps)) 0 [] us"

definition validateDataPlaneRequirements :: "spec \<Rightarrow> field_violation list" where
  "validateDataPlaneRequirements sp =
    (if \<not> nl_enabled (ls_netconf (sp_listeners sp)) \<and> \<not> rl_enabled (ls_restconf (sp_listeners sp)) then []
     else
       vif (sp_profiles sp = [])
         (fv ''spec.profiles'' ''required'' ''at least one profile is required when a data plane is enabled'')
       @ vif (sp_users sp = [])
         (fv ''spec.users'' ''required'' ''at least one user is required when a data plane is enabled''))"

definition rejectUnsupportedFlags :: "spec \<Rightarrow> field_violation list \<Rightarrow> derr option" where
  "rejectUnsupportedFlags sp vs =
    (if tls_enabled (rl_tls (ls_restconf (sp_listeners sp))) then
       Some (TLSUnsupported ''RESTCONF TLS is not supported in 1.0''
         (vs @ [fv ''spec.listeners.restconf.tls.enabled'' ''tls_unsupported'' ''tls.enabled must be false in 1.0'']))
     else if nt_enabled (ls_netconfTLS (sp_listeners sp)) then
       Some (TLSUnsupported ''NETCONF TLS is not supported in 1.0''
         (vs @ [fv ''spec.listeners.netconfTls.enabled'' ''tls_unsupported'' ''netconfTls.enabled must be false in 1.0'']))
     else if ch_enabled (ls_callHome (sp_listeners sp)) then
       Some (CallHomeUnsupported ''call-home is not supported in 1.0''
         (vs @ [fv ''spec.listeners.callHome.enabled'' ''callhome_unsupported'' ''callHome.enabled must be false in 1.0'']))
     else None)"

definition violations :: "cfglib \<Rightarrow> string \<Rightarrow> state \<Rightarrow> field_violation list" where
  "violations K baseDir st =
    (let sp = st_spec st in
     validateDocument K st @ validateListeners K (sp_listeners sp) @ validateAuth K (sp_auth sp) baseDir
     @ validateNetconf (sp_netconf sp) @ validateAdmission K (sp_admission sp) @ validateProfiles K (sp_profiles sp)
     @ validateUsers K (sp_users sp) (sp_profiles sp) @ validateDataPlaneRequirements sp)"

definition validate :: "cfglib \<Rightarrow> state option \<Rightarrow> string \<Rightarrow> derr option" where
  "validate K st baseDir = (case st of
     None \<Rightarrow> Some (ValidationFailed ''nil state'' [fv [] ''required'' ''state is nil''])
   | Some st \<Rightarrow>
       (let vs = violations K baseDir st in
        case rejectUnsupportedFlags (st_spec st) vs of
          Some err \<Rightarrow> Some err
        | None \<Rightarrow> if vs \<noteq> [] then Some (ValidationFailed ''bootstrap document is invalid'' vs) else None))"

definition config_Validate :: "cfglib \<Rightarrow> state option \<Rightarrow> derr option" where
  "config_Validate K st = validate K st []"

section \<open>Loops over named rows\<close>

text \<open>
  The contract of the three loops: each row gets the name check and its own checks. Such a
  loop reports nothing exactly when the names are there and differ, from each other and from
  those already recorded, and every row passes its own checks.
\<close>

locale named_rows =
  fixes name :: "'a \<Rightarrow> string"
    and rest :: "nat \<Rightarrow> 'a \<Rightarrow> field_violation list"
    and on_blank :: "nat \<Rightarrow> 'a \<Rightarrow> field_violation"
    and on_dup :: "nat \<Rightarrow> 'a \<Rightarrow> nat \<Rightarrow> field_violation"
    and loop :: "nat \<Rightarrow> nat gomap \<Rightarrow> 'a list \<Rightarrow> field_violation list"
    and ok :: "'a \<Rightarrow> bool"
  assumes loop_Nil: "loop i ids [] = []"
    and loop_Cons: "loop i ids (x # xs) =
      fst (check_name ids i (name x) (on_blank i x) (on_dup i x)) @ rest i x
      @ loop (Suc i) (snd (check_name ids i (name x) (on_blank i x) (on_dup i x))) xs"
    and rest_ok: "rest i x = [] \<longleftrightarrow> ok x"
begin

lemma loop_empty:
  "loop i ids xs = [] \<longleftrightarrow>
     (\<forall>x \<in> set xs. \<not> blank (name x) \<and> ok x) \<and> distinct (map name xs) \<and> (\<forall>x \<in> set xs. map_of ids (name x) = None)"
proof (induction xs arbitrary: i ids)
  case (Cons x xs)
  show ?case
  proof (cases "\<not> blank (name x) \<and> map_of ids (name x) = None")
    case True
    then have "check_name ids i (name x) (on_blank i x) (on_dup i x) = ([], kv_put (name x) i ids)"
      by (simp add: check_name_def)
    then show ?thesis using True Cons by (auto simp: loop_Cons rest_ok image_iff)
  next
    case False
    then show ?thesis by (auto simp: loop_Cons check_name_def)
  qed
qed (simp add: loop_Nil)

end

section \<open>What a valid document is\<close>

definition address_ok :: "cfglib \<Rightarrow> string \<Rightarrow> bool" where
  "address_ok K a \<longleftrightarrow> \<not> blank a \<and> cf_tcp K a"

definition url_path_ok :: "string \<Rightarrow> bool" where
  "url_path_ok p \<longleftrightarrow> p = [] \<or> prefix ''/'' p"

definition listeners_ok :: "cfglib \<Rightarrow> listeners_spec \<Rightarrow> bool" where
  "listeners_ok K l \<longleftrightarrow>
     address_ok K (nl_address (ls_netconf l)) \<and> address_ok K (rl_address (ls_restconf l))
     \<and> address_ok K (ml_address (ls_management l)) \<and> url_path_ok (ml_restPath (ls_management l))
     \<and> url_path_ok (ml_mcpPath (ls_management l))
     \<and> (nl_enabled (ls_netconf l) \<longrightarrow> \<not> blank (nl_hostKeyFile (ls_netconf l)))
     \<and> \<not> tls_enabled (rl_tls (ls_restconf l)) \<and> \<not> nt_enabled (ls_netconfTLS l) \<and> \<not> ch_enabled (ls_callHome l)"

text \<open>A secret file that can be read has at least 32 bytes.\<close>

definition secret_ok :: "cfglib \<Rightarrow> string \<Rightarrow> string \<Rightarrow> bool" where
  "secret_ok K baseDir path \<longleftrightarrow> \<not> blank path \<and>
     (\<forall>b. cf_file K (if \<not> prefix ''/'' path \<and> baseDir \<noteq> [] then cf_join K baseDir path else path) = Inr b
        \<longrightarrow> 32 \<le> length b)"

definition token_ok :: "cfglib \<Rightarrow> string \<Rightarrow> token_spec \<Rightarrow> bool" where
  "token_ok K baseDir t \<longleftrightarrow> (tk_role t = [] \<or> KnownRole (tk_role t)) \<and> secret_ok K baseDir (tk_secretFile t)"

definition leaf_ok :: "schema_leaf \<Rightarrow> bool" where
  "leaf_ok s \<longleftrightarrow> \<not> blank (sl_path s) \<and> KnownSchemaType (sl_type s)
     \<and> sl_access s \<in> {[], SchemaAccessRead, ''write''} \<and> sl_valueFrom s \<in> {[], ValueFromProcessUptime}"

definition profile_ok :: "profile_spec \<Rightarrow> bool" where
  "profile_ok p \<longleftrightarrow> (\<forall>m \<in> set (pr_modules p). \<not> blank (md_name m)) \<and> (\<forall>s \<in> set (pr_schema p). leaf_ok s)"

definition user_ok :: "profile_spec list \<Rightarrow> user_spec \<Rightarrow> bool" where
  "user_ok ps u \<longleftrightarrow> us_profile u \<in> pr_name ` set ps \<and> \<not> blank (us_profile u) \<and> us_access u \<in> {''read'', ''read-write''}
     \<and> \<not> (blank (us_passwordFile u) \<and> blank (us_authorizedKeysFile u))"

definition names_given :: "('a \<Rightarrow> string) \<Rightarrow> 'a list \<Rightarrow> bool" where
  "names_given name xs \<longleftrightarrow> (\<forall>x \<in> set xs. \<not> blank (name x)) \<and> distinct (map name xs)"

definition valid_state :: "cfglib \<Rightarrow> string \<Rightarrow> state \<Rightarrow> bool" where
  "valid_state K baseDir st \<longleftrightarrow>
    (let sp = st_spec st in
     st_apiVersion st = ''labnetconf.dev/v1alpha1'' \<and> st_kind st = ''LabNETCONF'' \<and> \<not> blank (mt_name (st_metadata st))
     \<and> listeners_ok K (sp_listeners sp)
     \<and> as_mode (sp_auth sp) \<in> {[], MgmtAuthBearer}
     \<and> names_given tk_id (as_tokens (sp_auth sp)) \<and> (\<forall>t \<in> set (as_tokens (sp_auth sp)). token_ok K baseDir t)
     \<and> \<not> nc_writableRunning (sp_netconf sp) \<and> distinct (nc_versions (sp_netconf sp))
     \<and> set (nc_versions (sp_netconf sp)) \<subseteq> {NetconfVersion10, NetconfVersion11}
     \<and> (\<forall>cs. ad_allowClientCidrs (sp_admission sp) = Some cs \<longrightarrow> (\<forall>c \<in> set cs. parses K c))
     \<and> names_given pr_name (sp_profiles sp) \<and> (\<forall>p \<in> set (sp_profiles sp). profile_ok p)
     \<and> names_given us_name (sp_users sp) \<and> (\<forall>u \<in> set (sp_users sp). user_ok (sp_profiles sp) u)
     \<and> (nl_enabled (ls_netconf (sp_listeners sp)) \<or> rl_enabled (ls_restconf (sp_listeners sp))
          \<longrightarrow> sp_profiles sp \<noteq> [] \<and> sp_users sp \<noteq> []))"

section \<open>The checks decide it\<close>

lemma blank_Nil [simp]: "blank []"
  by (simp add: blank_def TrimSpace_def)

lemma validateDocument_empty: "validateDocument K st = [] \<longleftrightarrow>
    st_apiVersion st = ''labnetconf.dev/v1alpha1'' \<and> st_kind st = ''LabNETCONF'' \<and> \<not> blank (mt_name (st_metadata st))"
  by (simp only: validateDocument_def append_is_Nil_conv vif_empty) blast

lemma validateTCPAddr_empty: "validateTCPAddr K p a = [] \<longleftrightarrow> address_ok K a"
  by (simp add: validateTCPAddr_def address_ok_def)

lemma validateListeners_empty: "validateListeners K l = [] \<and> rejectUnsupportedFlags sp vs = None \<longleftrightarrow> listeners_ok K l"
  if "l = sp_listeners sp"
  using that by (simp only: validateListeners_def append_is_Nil_conv vif_empty validateTCPAddr_empty
    listeners_ok_def url_path_ok_def rejectUnsupportedFlags_def) auto

lemma checkSecretPath_empty: "checkSecretPath K f path baseDir MinTokenBytes = [] \<longleftrightarrow> secret_ok K baseDir path"
  by (auto simp: checkSecretPath_def secret_ok_def MinTokenBytes_def Let_def simp del: prefix_code split: sum.splits)

lemma token_rest_empty: "token_rest K baseDir p t = [] \<longleftrightarrow> token_ok K baseDir t"
  by (auto simp: token_rest_def token_ok_def checkSecretPath_empty)

lemma module_rows_empty: "module_rows p j ms = [] \<longleftrightarrow> (\<forall>m \<in> set ms. \<not> blank (md_name m))"
  by (induction ms arbitrary: j) auto

lemma KnownSchemaType_not_blank: "KnownSchemaType t \<Longrightarrow> \<not> blank t"
  unfolding KnownSchemaType_def CompactSchemaTypes_def by (auto simp: blank_def) code_simp+

lemma schema_row_empty: "schema_row p s = [] \<longleftrightarrow> leaf_ok s"
  unfolding schema_row_def leaf_ok_def using KnownSchemaType_not_blank [of "sl_type s"] by auto

lemma schema_rows_empty: "schema_rows p j ss = [] \<longleftrightarrow> (\<forall>s \<in> set ss. leaf_ok s)"
  by (induction ss arbitrary: j) (auto simp: schema_row_empty)

lemma profile_rest_empty: "profile_rest path p = [] \<longleftrightarrow> profile_ok p"
  by (simp add: profile_rest_def profile_ok_def module_rows_empty schema_rows_empty)

lemma user_rest_empty:
  "user_rest K (filter (\<lambda>n. n \<noteq> []) (map pr_name ps)) path u = [] \<longleftrightarrow> user_ok ps u"
  unfolding user_rest_def user_ok_def by auto

lemma netconf_versions_empty: "netconf_versions i seen vs = [] \<longleftrightarrow>
    distinct vs \<and> set vs \<subseteq> {NetconfVersion10, NetconfVersion11} \<and> set vs \<inter> set seen = {}"
  by (induction vs arbitrary: i seen) auto

lemma admission_cidrs_empty: "admission_cidrs K i cs = [] \<longleftrightarrow> (\<forall>c \<in> set cs. parses K c)"
  by (induction cs arbitrary: i) auto

interpretation tokens: named_rows tk_id "\<lambda>i. token_rest K baseDir (at_index ''spec.auth.tokens'' i)"
  "\<lambda>i x. fv (at_index ''spec.auth.tokens'' i @ ''.id'') ''empty_id'' ''token id is required''"
  "\<lambda>i x prev. fv (at_index ''spec.auth.tokens'' i @ ''.id'') ''duplicate_id'' (''duplicate token id '' @ cf_quote K (tk_id x)
              @ '' (also tokens['' @ itoa (int prev) @ ''])'')"
  "auth_tokens K baseDir" "token_ok K baseDir" for K baseDir
  by unfold_locales (simp_all add: token_rest_empty case_prod_beta Let_def)

interpretation profile_names: named_rows pr_name "\<lambda>i. profile_rest (at_index ''spec.profiles'' i)"
  "\<lambda>i x. fv (at_index ''spec.profiles'' i @ ''.name'') ''empty_id'' ''profile name is required''"
  "\<lambda>i x prev. fv (at_index ''spec.profiles'' i @ ''.name'') ''duplicate_id'' (''duplicate profile name '' @ cf_quote K (pr_name x)
              @ '' (also profiles['' @ itoa (int prev) @ ''])'')"
  "profile_rows K" profile_ok for K
  by unfold_locales (simp_all add: profile_rest_empty case_prod_beta Let_def)

interpretation user_names: named_rows us_name
  "\<lambda>i. user_rest K (filter (\<lambda>n. n \<noteq> []) (map pr_name ps)) (at_index ''spec.users'' i)"
  "\<lambda>i x. fv (at_index ''spec.users'' i @ ''.name'') ''empty_id'' ''user name is required''"
  "\<lambda>i x prev. fv (at_index ''spec.users'' i @ ''.name'') ''duplicate_id'' (''duplicate user name '' @ cf_quote K (us_name x)
              @ '' (also users['' @ itoa (int prev) @ ''])'')"
  "user_rows K (filter (\<lambda>n. n \<noteq> []) (map pr_name ps))" "user_ok ps" for K ps
  by unfold_locales (simp_all add: user_rest_empty case_prod_beta Let_def)

lemma rows_empty:
  "auth_tokens K baseDir 0 [] ts = [] \<longleftrightarrow> names_given tk_id ts \<and> (\<forall>t \<in> set ts. token_ok K baseDir t)"
  "validateProfiles K ps = [] \<longleftrightarrow> names_given pr_name ps \<and> (\<forall>p \<in> set ps. profile_ok p)"
  "validateUsers K us ps = [] \<longleftrightarrow> names_given us_name us \<and> (\<forall>u \<in> set us. user_ok ps u)"
  unfolding validateProfiles_def validateUsers_def names_given_def
    tokens.loop_empty profile_names.loop_empty user_names.loop_empty by auto

lemma validateAdmission_empty: "validateAdmission K a = [] \<longleftrightarrow>
    (\<forall>cs. ad_allowClientCidrs a = Some cs \<longrightarrow> (\<forall>c \<in> set cs. parses K c))"
  by (cases "ad_allowClientCidrs a") (auto simp: validateAdmission_def admission_cidrs_empty)

lemma validateDataPlaneRequirements_empty: "validateDataPlaneRequirements sp = [] \<longleftrightarrow>
    (nl_enabled (ls_netconf (sp_listeners sp)) \<or> rl_enabled (ls_restconf (sp_listeners sp))
       \<longrightarrow> sp_profiles sp \<noteq> [] \<and> sp_users sp \<noteq> [])"
  by (auto simp: validateDataPlaneRequirements_def)

lemma violations_empty: "violations K baseDir st = [] \<and> rejectUnsupportedFlags (st_spec st) vs = None
    \<longleftrightarrow> valid_state K baseDir st"
  unfolding violations_def valid_state_def Let_def append_is_Nil_conv validateDocument_empty
    validateAuth_def validateNetconf_def vif_empty rows_empty netconf_versions_empty
    validateListeners_empty [OF refl, of K "st_spec st" vs, symmetric]
    validateDataPlaneRequirements_empty validateAdmission_empty
  by (simp add: conj_ac insert_iff)

section \<open>Properties\<close>

lemma rejected_violations: "rejectUnsupportedFlags sp vs = Some err \<Longrightarrow>
    e_violations err \<noteq> [] \<and> e_code err \<in> {CodeTLSUnsupported, CodeCallHomeUnsupported}"
  unfolding rejectUnsupportedFlags_def by (auto simp: constructor_defs split: if_splits)

text \<open>C10: Validation accepts exactly the valid documents: it returns no error if and only if the document
  meets the declarative specification, and an error always lists at least one violation under one of the three
  codes of the package.\<close>

theorem validate_exact:
  "(validate K (Some st) baseDir = None) = valid_state K baseDir st
   \<and> (case validate K (Some st) baseDir of
        None \<Rightarrow> True
      | Some err \<Rightarrow> e_violations err \<noteq> []
          \<and> e_code err \<in> {CodeValidationFailed, CodeTLSUnsupported, CodeCallHomeUnsupported})"
proof (cases "rejectUnsupportedFlags (st_spec st) (violations K baseDir st)")
  case None
  with violations_empty [of K baseDir st "violations K baseDir st"] show ?thesis
    by (simp add: validate_def Let_def)
next
  case (Some err)
  with violations_empty [of K baseDir st "violations K baseDir st"] rejected_violations [OF Some] show ?thesis
    by (auto simp: validate_def Let_def)
qed

lemma or_default_idem [simp]: "or_default (or_default s d) d = or_default s d"
  by (simp add: or_default_def)

lemma fix_or_default: "fix_utf8 d = d \<Longrightarrow> fix_utf8 (or_default (fix_utf8 s) d) = or_default (fix_utf8 s) d"
  by (simp add: or_default_def)

lemma materializeDefaults_idem [simp]: "materializeDefaults (materializeDefaults sp) = materializeDefaults sp"
  by (rule spec.equality) (simp_all add: materializeDefaults_def Let_def split: option.splits)

lemma fix_defaults [simp]:
  "fix_utf8 DefaultNetconfAddress = DefaultNetconfAddress" "fix_utf8 DefaultRestconfAddress = DefaultRestconfAddress"
  "fix_utf8 DefaultMgmtAddress = DefaultMgmtAddress" "fix_utf8 DefaultRESTPath = DefaultRESTPath"
  "fix_utf8 DefaultMCPPath = DefaultMCPPath" "fix_utf8 MgmtAuthBearer = MgmtAuthBearer"
  "fix_utf8 NetconfVersion10 = NetconfVersion10" "fix_utf8 NetconfVersion11 = NetconfVersion11"
  "map fix_utf8 DefaultLoopbackCIDRs = DefaultLoopbackCIDRs"
  by (simp_all add: fix_utf8_ascii DefaultLoopbackCIDRs_def)

lemma json_kvs_Nil [simp]: "json_kvs E K [] = []"
  by (simp add: json_kvs_def)

lemma json_profile_default:
  "json_profile E K (json_profile E K p\<lparr>pr_instance := (case pr_instance (json_profile E K p) of None \<Rightarrow> Some [] | Some m \<Rightarrow> Some m)\<rparr>)
    = json_profile E K p\<lparr>pr_instance := (case pr_instance (json_profile E K p) of None \<Rightarrow> Some [] | Some m \<Rightarrow> Some m)\<rparr>"
  by (cases "pr_instance p"; cases "pr_startup p") (simp_all add: json_profile_def comp_def)

lemma json_materialize:
  "json_spec E K (materializeDefaults (json_spec E K sp)) = materializeDefaults (json_spec E K sp)"
proof (rule spec.equality)
  show "sp_profiles (json_spec E K (materializeDefaults (json_spec E K sp))) = sp_profiles (materializeDefaults (json_spec E K sp))"
    by (simp add: json_spec_def materializeDefaults_def Let_def json_profile_default comp_def)
qed (simp_all add: json_spec_def materializeDefaults_def Let_def json_listeners_def fix_or_default comp_def
       split: option.splits)

definition normal_form :: "golib \<Rightarrow> cfglib \<Rightarrow> state \<Rightarrow> bool" where
  "normal_form E K st \<longleftrightarrow> json_state E K st = st \<and> materializeDefaults (st_spec st) = st_spec st
     \<and> list_all marshals (state_trees st) \<and> list_all (unmarshals E) (state_trees st)"

lemma Normalize_normal: "normal_form E K st \<Longrightarrow> Normalize E K (Some st) = Inr st"
  by (simp add: Normalize_def config_cloneState_def normal_form_def)

lemma state_trees_iff: "list_all P (state_trees st) \<longleftrightarrow>
    (\<forall>p \<in> set (sp_profiles (st_spec st)). (\<forall>m. pr_instance p = Some m \<longrightarrow> P (VMap m))
       \<and> (\<forall>m. pr_startup p = Some m \<longrightarrow> P (VMap m)))"
proof -
  have "list_all P (concat (map f ps)) \<longleftrightarrow> (\<forall>p \<in> set ps. list_all P (f p))" for f :: "profile_spec \<Rightarrow> val list" and ps
    by (induction ps) auto
  then have "list_all P (state_trees st) \<longleftrightarrow> (\<forall>p \<in> set (sp_profiles (st_spec st)).
      list_all P (map VMap (case pr_instance p of None \<Rightarrow> [] | Some m \<Rightarrow> [m]))
      \<and> list_all P (map VMap (case pr_startup p of None \<Rightarrow> [] | Some m \<Rightarrow> [m])))"
    by (simp add: state_trees_def)
  moreover have "list_all P (map VMap (case x of None \<Rightarrow> [] | Some m \<Rightarrow> [m])) \<longleftrightarrow> (\<forall>m. x = Some m \<longrightarrow> P (VMap m))" for x
    by (cases x) auto
  ultimately show ?thesis by simp
qed

lemma json_kvs_VMap: "VMap (json_kvs E K m) = json_val E K (VMap m)"
  by (simp add: json_kvs_def)

text \<open>Normalizing produces a normal form, over any library whose numbers are finite.\<close>

lemma Normalize_gives_normal:
  assumes "trip_ok E K" and "Normalize E K (Some st) = Inr n"
  shows "normal_form E K n"
proof -
  from assms(2) have ok: "list_all marshals (state_trees st)" "list_all (unmarshals E) (state_trees st)"
    and n: "n = json_state E K st\<lparr>st_spec := materializeDefaults (json_spec E K (st_spec st))\<rparr>"
    by (auto simp: Normalize_def config_cloneState_def json_state_def split: if_splits)
  have trees: "marshals (VMap m) \<and> unmarshals E (VMap m)"
    if "p \<in> set (sp_profiles (st_spec n))" "pr_instance p = Some m \<or> pr_startup p = Some m" for p m
  proof -
    from that(1) obtain q where q: "q \<in> set (sp_profiles (st_spec st))"
      and p: "p = json_profile E K q\<lparr>pr_instance := (case pr_instance (json_profile E K q) of None \<Rightarrow> Some [] | Some m \<Rightarrow> Some m)\<rparr>"
      by (auto simp: n materializeDefaults_def Let_def json_spec_def)
    from that(2) p consider "m = []" | k where "m = json_kvs E K k" "pr_instance q = Some k \<or> pr_startup q = Some k"
      by (auto simp: json_profile_def split: option.splits if_splits)
    then show ?thesis
    proof cases
      case (2 k)
      with ok q have "marshals (VMap k)" "unmarshals E (VMap k)" by (auto simp: state_trees_iff simp del: marshals.simps unmarshals.simps)
      with 2 show ?thesis using json_val_marshals [OF assms(1), of "VMap k"] by (simp only: json_kvs_VMap)
    qed simp
  qed
  have "json_state E K n = n"
    using json_state_idem [of E K st] by (simp add: n json_state_def json_materialize)
  moreover have "materializeDefaults (st_spec n) = st_spec n" by (simp add: n)
  ultimately show ?thesis using trees by (auto simp: normal_form_def state_trees_iff simp del: marshals.simps unmarshals.simps)
qed

text \<open>Normalizing is stable: what it returns it returns again unchanged, and it is the only place where
  admission gets its default. A document that omits the list of client networks gets the two loopback
  networks; one that gives a list, the empty one included, keeps it.\<close>

theorem normalize_stable:
  assumes "trip_ok E K" and "Normalize E K (Some st) = Inr n"
  shows "Normalize E K (Some n) = Inr n \<and>
    ad_allowClientCidrs (sp_admission (st_spec n)) =
      (case ad_allowClientCidrs (sp_admission (st_spec st)) of
         None \<Rightarrow> Some DefaultLoopbackCIDRs | Some cs \<Rightarrow> Some (map fix_utf8 cs))"
proof -
  from assms(2) have "n = json_state E K st\<lparr>st_spec := materializeDefaults (json_spec E K (st_spec st))\<rparr>"
    by (auto simp: Normalize_def config_cloneState_def json_state_def split: if_splits)
  then show ?thesis
    using Normalize_normal [OF Normalize_gives_normal [OF assms]]
    by (auto simp: materializeDefaults_def Let_def json_spec_def split: option.splits)
qed

abbreviation cfg_lib :: cfglib where
  "cfg_lib \<equiv> \<lparr>cf_quote = (\<lambda>s. s), cf_tcp = (\<lambda>_. True), cf_prefix = (\<lambda>_. Inr \<lparr>np_addr = A4 0x7F000000, np_bits = 8\<rparr>),
     cf_join = (@), cf_dir = (\<lambda>s. s), cf_file = (\<lambda>_. Inl []), cf_lower = (\<lambda>r. r), cf_float = (\<lambda>_. ''1''), cf_f32 = (\<lambda>x. x),
     cf_marshal_err = [], cf_unmarshal_err = [], cf_type_err = (\<lambda>_. []),
     cf_sha256 = (\<lambda>b. b), cf_yaml_read = (\<lambda>_. YEOF), cf_yaml_value = (\<lambda>_. Inl []), cf_yaml_write = (\<lambda>_. Inr []),
     cf_json_read = (\<lambda>_. Inl []), cf_json_write = (\<lambda>_. [])\<rparr>"

lemma float_lib_trip: "trip_ok (float_lib (\<lambda>_. None)) cfg_lib"
  by (simp add: trip_ok_def)

theorem normalize_stable_witness:
  "Normalize (float_lib (\<lambda>_. None)) cfg_lib
     (Some (case Normalize (float_lib (\<lambda>_. None)) cfg_lib (Some blank_state) of Inr n \<Rightarrow> n | Inl _ \<Rightarrow> blank_state))
   = Normalize (float_lib (\<lambda>_. None)) cfg_lib (Some blank_state)"
proof -
  have ok: "list_all P (state_trees blank_state)" for P by (simp add: state_trees_def)
  obtain n where n: "Normalize (float_lib (\<lambda>_. None)) cfg_lib (Some blank_state) = Inr n"
    by (simp add: Normalize_def config_cloneState_def ok)
  from normalize_stable [OF float_lib_trip n] n show ?thesis by simp
qed

end
