(* ===== verification/Config_Export.thy ===== *)
theory Config_Export
  imports Config_Laws
begin

text \<open>
  The JSON export of a document read back: the tree of a normalized document passes the checks of
  \<open>decodeRaw\<close> and decodes to the same document, and the text written for it loads as that document. The text of a float is the shortest one that
  parses to it (\<open>float_text\<close>, documented behaviour of \<open>strconv\<close>).
\<close>

section \<open>Normal values\<close>

definition obj_normal :: "(string \<times> 'v) list \<Rightarrow> bool" where
  "obj_normal m \<longleftrightarrow> sorted (map fst m) \<and> distinct (map fst m) \<and> (\<forall>k \<in> fst ` set m. fix_utf8 k = k)"

lemma json_object_normal: "obj_normal m \<Longrightarrow> json_object m = m"
proof -
  assume n: "obj_normal m"
  have "fold (\<lambda>kv. kv_put (fix_utf8 (fst kv)) (snd kv)) m [] = fold (\<lambda>kv. kv_put (fst kv) (snd kv)) m []"
    using n by (intro fold_cong) (auto simp: obj_normal_def)
  also have "\<dots> = m" using n fold_put_new [of "[]" m] by (simp add: obj_normal_def)
  finally show ?thesis using n by (simp add: json_object_def obj_normal_def sort_key_id_if_sorted)
qed

lemma obj_normal_json [simp]: "obj_normal (json_object m)"
proof -
  have "sorted (map fst (json_object m))" by (simp add: json_object_def)
  then show ?thesis by (auto simp: obj_normal_def dest!: json_object_mem)
qed

lemma obj_normal_map [simp]: "obj_normal (map (\<lambda>kv. (fst kv, f (snd kv))) m) \<longleftrightarrow> obj_normal m"
  by (simp add: obj_normal_def comp_def image_image)

fun val_normal :: "val \<Rightarrow> bool" where
  "val_normal VNil = True"
| "val_normal (VBool b) = True"
| "val_normal (VStr s) = (fix_utf8 s = s)"
| "val_normal (VF64 x) = f64_finite x"
| "val_normal (VList xs) = list_all val_normal xs"
| "val_normal (VMap m) = (obj_normal m \<and> list_all (\<lambda>kv. val_normal (snd kv)) m)"
| "val_normal v = False"

lemma json_val_normal:
  assumes "trip_ok E K" and "marshals v" and "unmarshals E v"
  shows "val_normal (json_val E K v)"
  using assms(2,3)
proof (induction v rule: val_induct)
  case (num s)
  with assms(1) show ?case by (auto simp: trip_ok_def split: option.splits)
next
  case (map m)
  have "\<forall>v \<in> set (map snd m). val_normal (json_val E K v)" using map by (force simp: list_all_iff)
  then show ?case by (auto simp: list_all_iff dest!: json_object_mem)
next
  case (maps ms)
  have "val_normal (json_val E K v)" if "m \<in> set ms" "(k, v) \<in> set m" for m k v
    using maps that by (force simp: list_all_iff)
  then show ?case by (force simp: list_all_iff dest!: json_object_mem)
qed (use assms(1) in \<open>auto simp: list_all_iff trip_ok_def\<close>)

definition float_text :: "golib \<Rightarrow> cfglib \<Rightarrow> bool" where
  "float_text E K \<longleftrightarrow>
     (\<forall>x. f64_finite x \<longrightarrow> valid_number (cf_float K x) \<and> parse_float E (cf_float K x) = Some x)"

lemma valid_number_nonempty [simp]: "\<not> valid_number []"
  by (simp add: valid_number_def)

lemma tree_val_back:
  assumes "float_text E K" and "val_normal v"
  shows "json_val E K (tree_val K v) = v \<and> marshals (tree_val K v) \<and> unmarshals E (tree_val K v)"
  using assms(2)
proof (induction v rule: val_induct)
  case (f64 x)
  with assms(1) show ?case by (auto simp: float_text_def)
next
  case (list xs)
  then show ?case by (auto simp: list_all_iff intro: map_idI)
next
  case (map m)
  let ?t = "\<lambda>m. map (\<lambda>kv. (fst kv, tree_val K (snd kv))) m"
  from map.prems have n: "obj_normal m" by simp
  have rt: "json_val E K (tree_val K (snd kv)) = snd kv \<and> marshals (tree_val K (snd kv)) \<and> unmarshals E (tree_val K (snd kv))"
    if "kv \<in> set m" for kv
    using map that by (cases kv) (auto simp: list_all_iff)
  have t: "tree_val K (VMap m) = VMap (?t m)" using n by (simp add: json_object_normal)
  have "map (\<lambda>kv. (fst kv, json_val E K (snd kv))) (?t m) = m"
    using rt by (simp add: comp_def map_idI)
  then have "json_val E K (VMap (?t m)) = VMap m" using n by (simp add: json_object_normal)
  with t rt show ?case by (auto simp: list_all_iff)
qed auto

section \<open>Fields\<close>

lemma kv_nil_simps:
  "field [] k = VNil"
  "field ((k', v) # m) k = (if k = k' then v else field m k)"
  "field (opt_str k' s @ m) k = (if k = k' \<and> s \<noteq> [] then jstr s else field m k)"
  "field (opt_list k' vs @ m) k = (if k = k' \<and> vs \<noteq> [] then VList vs else field m k)"
  "field (opt_map k' v b @ m) k = (if k = k' \<and> \<not> b then v else field m k)"
  "field (opt_str k' s) k = (if k = k' \<and> s \<noteq> [] then jstr s else VNil)"
  "field (opt_list k' vs) k = (if k = k' \<and> vs \<noteq> [] then VList vs else VNil)"
  "field (opt_map k' v b) k = (if k = k' \<and> \<not> b then v else VNil)"
  by (simp_all add: kv_nil_def opt_str_def opt_list_def opt_map_def)

lemma dec_str_jstr [simp]: "dec_str (jstr s) = Some (fix_utf8 s)" "dec_str VNil = Some []"
  by (simp_all add: dec_str_def jstr_def)

lemma dec_bool_simps [simp]: "dec_bool (VBool b) = Some b" "dec_bool VNil = Some False"
  by (simp_all add: dec_bool_def)

lemma obj_VMap [simp]: "obj (VMap m) = Some m"
  by (simp add: obj_def)

lemma all_some_map: "(\<And>x. x \<in> set xs \<Longrightarrow> f (g x) = Some x) \<Longrightarrow> all_some (map f (map g xs)) = Some xs"
  by (induction xs) auto

lemma dec_list_map: "(\<And>x. x \<in> set xs \<Longrightarrow> f (g x) = Some x) \<Longrightarrow> dec_list f (VList (map g xs)) = Some xs"
  by (simp only: dec_list_def val.case all_some_map)

lemma dec_list_opt: "(\<And>x. x \<in> set xs \<Longrightarrow> f (g x) = Some x) \<Longrightarrow>
    dec_list f (if xs \<noteq> [] then VList (map g xs) else VNil) = Some xs"
  using dec_list_map [of xs f g] by (cases "xs = []") (simp_all add: dec_list_def)

lemma dec_str_opt: "dec_str (if s \<noteq> [] then jstr s else VNil) = Some (fix_utf8 s)"
  by simp

section \<open>Structs\<close>

lemma map_fix: "map f xs = xs \<Longrightarrow> x \<in> set xs \<Longrightarrow> f x = x"
  by (induction xs) auto

lemma dec_tree_listeners: "json_listeners l = l \<Longrightarrow> dec_listeners (tree_listeners l) = Some l"
  by (cases l; cases "ls_netconf l"; cases "ls_restconf l"; cases "ls_management l")
    (auto simp: json_listeners_def dec_listeners_def tree_listeners_def dec_netconf_listener_def dec_restconf_listener_def
      dec_mgmt_listener_def dec_enabled_def kv_nil_simps)

lemma dec_tree_token: "json_token t = t \<Longrightarrow> dec_token (tree_token t) = Some t"
proof -
  assume t: "json_token t = t"
  then have "map fix_utf8 (tk_scopes t) = tk_scopes t" by (metis json_token_def token_spec.select_convs(4))
  then have "dec_list dec_str (if tk_scopes t \<noteq> [] then VList (map jstr (tk_scopes t)) else VNil) = Some (tk_scopes t)"
    by (intro dec_list_opt) (simp add: map_fix)
  with t show ?thesis
    by (cases t) (simp add: json_token_def dec_token_def tree_token_def kv_nil_simps split del: if_split cong: if_cong)
qed

lemma dec_tree_netconf: "map fix_utf8 (nc_versions n) = nc_versions n \<Longrightarrow> dec_netconf (tree_netconf n) = Some n"
proof -
  assume "map fix_utf8 (nc_versions n) = nc_versions n"
  then have "dec_list dec_str (VList (map jstr (nc_versions n))) = Some (nc_versions n)"
    by (intro dec_list_map) (simp add: map_fix)
  then show ?thesis
    by (simp add: dec_netconf_def tree_netconf_def dec_enabled_def kv_nil_simps)
qed

lemma dec_tree_module: "json_module m = m \<Longrightarrow> dec_module (tree_module m) = Some m"
  by (cases m) (simp add: json_module_def dec_module_def tree_module_def kv_nil_simps dec_str_opt split del: if_split cong: if_cong)

lemma dec_tree_leaf: "json_leaf l = l \<Longrightarrow> dec_leaf (tree_leaf l) = Some l"
  by (cases l) (simp add: json_leaf_def dec_leaf_def tree_leaf_def kv_nil_simps dec_str_opt split del: if_split cong: if_cong)

lemma dec_tree_user: "json_user u = u \<Longrightarrow> dec_user (tree_user u) = Some u"
  by (cases u) (simp add: json_user_def dec_user_def tree_user_def kv_nil_simps dec_str_opt split del: if_split cong: if_cong)

text \<open>The trees of a profile.\<close>

definition tree_ok :: "golib \<Rightarrow> cfglib \<Rightarrow> kvs option \<Rightarrow> bool" where
  "tree_ok E K t \<longleftrightarrow> (case t of None \<Rightarrow> True | Some m \<Rightarrow> val_normal (VMap m))"

lemma dec_tree_map: "float_text E K \<Longrightarrow> tree_ok E K t \<Longrightarrow> dec_tree E K (tree_map K t) = Some t"
proof (cases t)
  case (Some m)
  assume a: "float_text E K" "tree_ok E K t"
  let ?m = "json_object (map (\<lambda>kv. (fst kv, tree_val K (snd kv))) m)"
  have "json_val E K (VMap ?m) = VMap m" "unmarshals E (VMap ?m)"
    using tree_val_back [OF a(1), of "VMap m"] a(2) Some
    by (simp_all add: tree_ok_def del: json_val.simps unmarshals.simps)
  then show ?thesis by (simp add: dec_tree_def tree_map_def Some json_kvs_def)
qed (simp add: dec_tree_def tree_map_def)

lemma dec_tree_profile:
  assumes "float_text E K" and "json_profile E K p = p" and "tree_ok E K (pr_instance p)" and "tree_ok E K (pr_startup p)"
  shows "dec_profile E K (tree_profile K p) = Some p"
proof -
  have fs: "fix_utf8 (pr_name p) = pr_name p" "map json_module (pr_modules p) = pr_modules p"
    "map json_leaf (pr_schema p) = pr_schema p" "pr_startup p \<noteq> Some []"
    using arg_cong [OF assms(2), of pr_name] arg_cong [OF assms(2), of pr_modules] arg_cong [OF assms(2), of pr_schema]
      arg_cong [OF assms(2), of pr_startup]
    by (auto simp: json_profile_def split: option.splits if_splits)
  have "dec_list dec_module (if pr_modules p \<noteq> [] then VList (map tree_module (pr_modules p)) else VNil) = Some (pr_modules p)"
    by (rule dec_list_opt) (simp add: dec_tree_module map_fix [OF fs(2)])
  moreover have "dec_list dec_leaf (if pr_schema p \<noteq> [] then VList (map tree_leaf (pr_schema p)) else VNil) = Some (pr_schema p)"
    by (rule dec_list_opt) (simp add: dec_tree_leaf map_fix [OF fs(3)])
  moreover have "dec_tree E K (if pr_startup p \<noteq> None then tree_map K (pr_startup p) else VNil) = Some (pr_startup p)"
    using dec_tree_map [OF assms(1,4)] by (cases "pr_startup p") (simp_all add: dec_tree_def)
  ultimately show ?thesis
    using fs dec_tree_map [OF assms(1,3)] by (cases p) (simp add: dec_profile_def tree_profile_def kv_nil_simps split del: if_split cong: if_cong)
qed

definition spec_normal :: "golib \<Rightarrow> cfglib \<Rightarrow> spec \<Rightarrow> bool" where
  "spec_normal E K sp \<longleftrightarrow> json_spec E K sp = sp
     \<and> (\<forall>p \<in> set (sp_profiles sp). tree_ok E K (pr_instance p) \<and> tree_ok E K (pr_startup p))"

lemma spec_normal_parts:
  assumes "spec_normal E K sp"
  shows "json_listeners (sp_listeners sp) = sp_listeners sp" "fix_utf8 (as_mode (sp_auth sp)) = as_mode (sp_auth sp)"
    "map json_token (as_tokens (sp_auth sp)) = as_tokens (sp_auth sp)"
    "map fix_utf8 (nc_versions (sp_netconf sp)) = nc_versions (sp_netconf sp)"
    "map_option (map fix_utf8) (ad_allowClientCidrs (sp_admission sp)) = ad_allowClientCidrs (sp_admission sp)"
    "map fix_utf8 (mg_allowedOrigins (sp_management sp)) = mg_allowedOrigins (sp_management sp)"
    "map (json_profile E K) (sp_profiles sp) = sp_profiles sp" "map json_user (sp_users sp) = sp_users sp"
proof -
  have sp: "json_spec E K sp = sp" using assms by (simp add: spec_normal_def)
  show "json_listeners (sp_listeners sp) = sp_listeners sp" "map (json_profile E K) (sp_profiles sp) = sp_profiles sp"
    "map json_user (sp_users sp) = sp_users sp"
    using arg_cong [OF sp, of sp_listeners] arg_cong [OF sp, of sp_profiles] arg_cong [OF sp, of sp_users]
    by (simp_all add: json_spec_def)
  show "fix_utf8 (as_mode (sp_auth sp)) = as_mode (sp_auth sp)" "map json_token (as_tokens (sp_auth sp)) = as_tokens (sp_auth sp)"
    "map fix_utf8 (nc_versions (sp_netconf sp)) = nc_versions (sp_netconf sp)"
    "map_option (map fix_utf8) (ad_allowClientCidrs (sp_admission sp)) = ad_allowClientCidrs (sp_admission sp)"
    "map fix_utf8 (mg_allowedOrigins (sp_management sp)) = mg_allowedOrigins (sp_management sp)"
    using arg_cong [OF sp, of "as_mode \<circ> sp_auth"] arg_cong [OF sp, of "as_tokens \<circ> sp_auth"]
      arg_cong [OF sp, of "nc_versions \<circ> sp_netconf"] arg_cong [OF sp, of "ad_allowClientCidrs \<circ> sp_admission"]
      arg_cong [OF sp, of "mg_allowedOrigins \<circ> sp_management"]
    by (simp_all add: json_spec_def)
qed

lemma dec_tree_admission:
  assumes "map_option (map fix_utf8) cs = cs"
  shows "dec_opt_list dec_str (case cs of None \<Rightarrow> VNil | Some cs \<Rightarrow> VList (map jstr cs)) = Some cs"
proof (cases cs)
  case (Some xs)
  have "all_some (map dec_str (map jstr xs)) = Some xs"
    using assms Some by (intro all_some_map) (simp add: map_fix)
  with Some show ?thesis by (simp add: dec_opt_list_def)
qed (simp add: dec_opt_list_def)

lemma dec_tree_spec:
  assumes "float_text E K" and n: "spec_normal E K sp"
  shows "dec_spec E K (tree_spec K sp) = Some sp"
proof -
  note ps = spec_normal_parts [OF n]
  have tokens: "dec_list dec_token (VList (map tree_token (as_tokens (sp_auth sp)))) = Some (as_tokens (sp_auth sp))"
    by (rule dec_list_map) (simp add: dec_tree_token map_fix [OF ps(3)])
  have origins: "dec_list dec_str (VList (map jstr (mg_allowedOrigins (sp_management sp)))) = Some (mg_allowedOrigins (sp_management sp))"
    by (rule dec_list_map) (simp add: map_fix [OF ps(6)])
  have profs: "dec_list (dec_profile E K) (VList (map (tree_profile K) (sp_profiles sp))) = Some (sp_profiles sp)"
  proof (rule dec_list_map)
    fix p assume "p \<in> set (sp_profiles sp)"
    with n show "dec_profile E K (tree_profile K p) = Some p"
      by (intro dec_tree_profile [OF assms(1)]) (auto simp: spec_normal_def map_fix [OF ps(7)])
  qed
  have users: "dec_list dec_user (VList (map tree_user (sp_users sp))) = Some (sp_users sp)"
    by (rule dec_list_map) (simp add: dec_tree_user map_fix [OF ps(8)])
  note parts = dec_tree_listeners [OF ps(1)] dec_tree_netconf [OF ps(4)] dec_tree_admission [OF ps(5)] tokens origins profs users ps(2)
  show ?thesis
    by (simp add: dec_spec_def tree_spec_def dec_auth_def dec_enabled_def dec_restconf_def dec_admission_def
        dec_management_def kv_nil_simps parts)
qed

lemma dec_tree_labels: "obj_normal ls \<Longrightarrow> map (\<lambda>kv. (fst kv, fix_utf8 (snd kv))) ls = ls \<Longrightarrow>
    dec_labels (VMap (json_object (map (\<lambda>kv. (fst kv, jstr (snd kv))) ls))) = Some ls"
proof -
  assume a: "obj_normal ls" "map (\<lambda>kv. (fst kv, fix_utf8 (snd kv))) ls = ls"
  have "all_some (map (\<lambda>kv. Some (fix_utf8 (snd kv))) ls) = Some (map snd ls)"
    using a(2) by (induction ls) auto
  with a(1) show ?thesis
    by (simp add: dec_labels_def json_object_normal comp_def zip_map_fst_snd)
qed

lemma normal_form_spec:
  assumes "trip_ok E K" and "normal_form E K st"
  shows "spec_normal E K (st_spec st)"
proof -
  have "json_state E K st = st" using assms(2) by (simp add: normal_form_def)
  from arg_cong [OF this, of st_spec] have sp: "json_spec E K (st_spec st) = st_spec st" by (simp add: json_state_def)
  have "tree_ok E K (pr_instance p) \<and> tree_ok E K (pr_startup p)" if p: "p \<in> set (sp_profiles (st_spec st))" for p
  proof -
    have pp: "json_profile E K p = p"
      using arg_cong [OF sp, of sp_profiles] p by (simp add: json_spec_def map_fix)
    have fixed: "json_kvs E K m = m" if "pr_instance p = Some m \<or> pr_startup p = Some m" for m
    proof -
      have "map_option (json_kvs E K) (pr_instance p) = pr_instance p"
        "(case pr_startup p of None \<Rightarrow> None | Some m \<Rightarrow> if m = [] then None else Some (json_kvs E K m)) = pr_startup p"
        using arg_cong [OF pp, of pr_instance] arg_cong [OF pp, of pr_startup]
        by (simp_all only: json_profile_def profile_spec.select_convs)
      with that show ?thesis by (auto split: if_splits)
    qed
    have "val_normal (VMap m)" if m: "pr_instance p = Some m \<or> pr_startup p = Some m" for m
    proof -
      have "marshals (VMap m)" "unmarshals E (VMap m)"
        using assms(2) p m by (auto simp: normal_form_def state_trees_iff simp del: marshals.simps unmarshals.simps)
      from json_val_normal [OF assms(1) this] have "val_normal (VMap (json_kvs E K m))" by (simp only: json_kvs_VMap)
      then show ?thesis by (simp only: fixed [OF m])
    qed
    then show ?thesis by (cases "pr_instance p"; cases "pr_startup p") (simp_all add: tree_ok_def del: val_normal.simps)
  qed
  with sp show ?thesis by (simp add: spec_normal_def)
qed

lemma dec_tree_state:
  assumes "trip_ok E K" and "float_text E K" and "normal_form E K st"
  shows "dec_state E K (tree_state K st) = Some st"
proof -
  have st: "json_state E K st = st" using assms(3) by (simp add: normal_form_def)
  have strs: "fix_utf8 (st_apiVersion st) = st_apiVersion st" "fix_utf8 (st_kind st) = st_kind st"
    "fix_utf8 (mt_name (st_metadata st)) = mt_name (st_metadata st)"
    using arg_cong [OF st, of st_apiVersion] arg_cong [OF st, of st_kind] arg_cong [OF st, of "mt_name \<circ> st_metadata"]
    by (simp_all add: json_state_def)
  let ?ls = "mt_labels (st_metadata st)"
  have ls: "json_object (map (\<lambda>kv. (fst kv, fix_utf8 (snd kv))) ?ls) = ?ls"
    using arg_cong [OF st, of "mt_labels \<circ> st_metadata"] by (simp add: json_state_def)
  have on: "obj_normal ?ls" by (subst ls [symmetric]) simp
  then have "map (\<lambda>kv. (fst kv, fix_utf8 (snd kv))) ?ls = ?ls"
    using ls by (simp add: json_object_normal)
  from dec_tree_labels [OF on this]
  have labels: "dec_labels (if ?ls \<noteq> [] then VMap (json_object (map (\<lambda>kv. (fst kv, jstr (snd kv))) ?ls)) else VNil) = Some ?ls"
    by (cases "?ls = []") (simp_all add: dec_labels_def)
  show ?thesis
    using dec_tree_spec [OF assms(2) normal_form_spec [OF assms(1,3)]]
    by (simp add: dec_state_def tree_state_def kv_nil_simps labels strs split del: if_split cong: if_cong)
qed

section \<open>Checks of the tree\<close>

lemma marshals_jstr [simp]: "marshals (jstr s)"
  by (simp add: jstr_def)

lemma marshals_opt [simp]:
  "list_all (\<lambda>kv. marshals (snd kv)) (opt_str k s)"
  "list_all (\<lambda>kv. marshals (snd kv)) (opt_list k vs) \<longleftrightarrow> list_all marshals vs"
  "list_all (\<lambda>kv. marshals (snd kv)) (opt_map k v b) \<longleftrightarrow> b \<or> marshals v"
  by (simp_all add: opt_str_def opt_list_def opt_map_def)

lemma marshals_tree_map: "float_text E K \<Longrightarrow> tree_ok E K t \<Longrightarrow> marshals (tree_map K t)"
  using tree_val_back [of E K "VMap (the t)"] by (cases t) (auto simp: tree_map_def tree_ok_def simp del: marshals.simps(5) val_normal.simps tree_val.simps)

lemma marshals_tree_spec:
  assumes "float_text E K" and "spec_normal E K sp"
  shows "marshals (tree_spec K sp)"
proof -
  have "marshals (tree_profile K p)" if "p \<in> set (sp_profiles sp)" for p
    using assms(2) that marshals_tree_map [OF assms(1), of "pr_instance p"] marshals_tree_map [OF assms(1), of "pr_startup p"]
    by (simp add: tree_profile_def spec_normal_def list_all_iff [of marshals] tree_module_def tree_leaf_def)
  then show ?thesis
    by (simp add: tree_spec_def tree_listeners_def tree_token_def tree_netconf_def tree_user_def list_all_iff [of marshals]
        split: option.split)
qed

lemma marshals_tree_state: "float_text E K \<Longrightarrow> spec_normal E K (st_spec st) \<Longrightarrow> marshals (tree_state K st)"
proof -
  assume "float_text E K" "spec_normal E K (st_spec st)"
  from marshals_tree_spec [OF this] show ?thesis
    by (auto simp: tree_state_def opt_map_def list_all_iff dest!: json_object_mem)
qed

lemma unknown_list: "(\<And>x p. x \<in> set xs \<Longrightarrow> unknownFields K x t p = []) \<Longrightarrow> unknownFields K (VList xs) (TSlice t) p = []"
  by (auto simp: in_set_enumerate_eq)

lemma unknown_other [simp]: "unknownFields K v TOther p = []" "unknownFields K (jstr s) t p = []" "unknownFields K (VBool b) t p = []"
    "unknownFields K VNil t p = []"
  by (cases v; simp) (cases t; simp add: jstr_def)+

lemma unknown_parts:
  "unknownFields K (tree_listeners l) listeners_type p = []"
  "unknownFields K (tree_netconf n) netconf_type p = []"
  "unknownFields K (tree_user u) user_type p = []"
  "unknownFields K (tree_token t) (TStruct [(''id'', TOther), (''role'', TOther), (''secretFile'', TOther), (''scopes'', TSlice TOther)]) p = []"
  unfolding tree_listeners_def listeners_type_def tree_netconf_def netconf_type_def tree_user_def user_type_def
    tree_token_def enabled_type_def opt_str_def opt_list_def
  by (simp_all split: if_split)

lemma unknown_tree_profile: "unknownFields K (tree_profile K p) profile_type path = []"
proof -
  have "unknownFields K (VList (map tree_module ms)) (TSlice (TStruct [(''name'', TOther), (''revision'', TOther), (''namespace'', TOther),
        (''moduleFile'', TOther), (''sourceFile'', TOther)])) q = []" for ms q
    by (rule unknown_list) (auto simp: tree_module_def opt_str_def)
  moreover have "unknownFields K (VList (map tree_leaf ss)) (TSlice (TStruct [(''path'', TOther), (''type'', TOther), (''access'', TOther), (''range'', TOther),
        (''pattern'', TOther), (''valueFrom'', TOther)])) q = []" for ss q
    by (rule unknown_list) (auto simp: tree_leaf_def opt_str_def)
  ultimately show ?thesis
    unfolding tree_profile_def profile_type_def opt_list_def opt_map_def
    by (simp del: unknownFields.simps(2))
qed

lemma unknown_tree_spec: "unknownFields K (tree_spec K sp) spec_type p = []"
proof -
  have "unknownFields K (VList (map tree_token ts)) (TSlice (TStruct [(''id'', TOther), (''role'', TOther), (''secretFile'', TOther), (''scopes'', TSlice TOther)])) q = []" for ts q
    by (rule unknown_list) (auto simp: unknown_parts)
  moreover have "unknownFields K (VList (map (tree_profile K) ps)) (TSlice profile_type) q = []" for ps q
    by (rule unknown_list) (auto simp: unknown_tree_profile)
  moreover have "unknownFields K (VList (map tree_user us)) (TSlice user_type) q = []" for us q
    by (rule unknown_list) (auto simp: unknown_parts)
  moreover have "unknownFields K (VList (map jstr xs)) (TSlice TOther) q = []" for xs q
    by (rule unknown_list) auto
  ultimately show ?thesis
    unfolding tree_spec_def spec_type_def auth_type_def management_type_def enabled_type_def
    by (simp add: unknown_parts del: unknownFields.simps(2) split: option.split)
qed

lemma unknown_tree_state: "unknownFields K (tree_state K st) state_type p = []"
  unfolding tree_state_def state_type_def opt_map_def by (simp add: unknown_tree_spec)

section \<open>No key of the tree is reserved\<close>

definition lower_char :: "char \<Rightarrow> bool" where
  "lower_char c \<longleftrightarrow> 97 \<le> byte c \<and> byte c \<le> (122 :: nat)"

definition key_body :: "cfglib \<Rightarrow> string \<Rightarrow> string" where
  "key_body K s = concat (map (\<lambda>r. if r = 45 \<or> r = 95 then [] else encode_rune (rune_lower K r)) (runes s))"

lemma key_body_Cons: "lower_char c \<Longrightarrow> key_body K (c # s) = c # key_body K s"
  by (auto simp: key_body_def lower_char_def decode_rune_def rune_lower_def encode_rune_def)

lemma normalizeKey_lower: "lower_char c \<Longrightarrow> normalizeKey K (c # s) = c # key_body K s"
proof -
  assume c: "lower_char c"
  then have "c \<noteq> CHR ''-''" by (auto simp: lower_char_def)
  then have "normalizeKey K (c # s) = key_body K (c # s)" by (simp add: normalizeKey_def key_body_def)
  with c show ?thesis by (simp add: key_body_Cons)
qed

text \<open>Three lower-case letters decide: the reserved words start with \<open>cal\<close>, \<open>man\<close> or \<open>rem\<close>.\<close>

lemma harmless3:
  assumes "lower_char c" "lower_char d" "lower_char e" and "[c, d, e] \<notin> {''cal'', ''man'', ''rem''}"
  shows "reservedReason (normalizeKey K (c # d # e # s)) = []"
  using assms by (auto simp: normalizeKey_lower key_body_Cons reservedReason_def reservedExact_def reservedPrefixes_def)

definition harmless :: "cfglib \<Rightarrow> string \<Rightarrow> bool" where
  "harmless K k \<longleftrightarrow> reservedReason (normalizeKey K k) = []"

lemma harmless_keys:
  "harmless K ''apiVersion''" "harmless K ''kind''" "harmless K ''metadata''" "harmless K ''spec''" "harmless K ''name''"
  "harmless K ''labels''" "harmless K ''listeners''" "harmless K ''auth''" "harmless K ''netconf''" "harmless K ''restconf''"
  "harmless K ''admission''" "harmless K ''profiles''" "harmless K ''users''" "harmless K ''enabled''" "harmless K ''address''"
  "harmless K ''hostKeyFile''" "harmless K ''tls''" "harmless K ''restPath''" "harmless K ''mcpPath''" "harmless K ''netconfTls''"
  "harmless K ''mode''" "harmless K ''tokens''" "harmless K ''role''" "harmless K ''secretFile''" "harmless K ''scopes''"
  "harmless K ''versions''" "harmless K ''writableRunning''" "harmless K ''notifications''" "harmless K ''sharedProfileDatastore''"
  "harmless K ''json''" "harmless K ''xml''" "harmless K ''allowClientCidrs''" "harmless K ''allowedOrigins''" "harmless K ''mcp''"
  "harmless K ''allowLegacyClients''" "harmless K ''modules''" "harmless K ''schema''" "harmless K ''instance''" "harmless K ''startup''"
  "harmless K ''revision''" "harmless K ''namespace''" "harmless K ''moduleFile''" "harmless K ''sourceFile''" "harmless K ''path''"
  "harmless K ''type''" "harmless K ''access''" "harmless K ''range''" "harmless K ''pattern''" "harmless K ''valueFrom''"
  "harmless K ''passwordFile''" "harmless K ''authorizedKeysFile''" "harmless K ''profile''"
  unfolding harmless_def by (rule harmless3; simp add: lower_char_def)+

lemma harmless_short:
  "harmless K ''id''" "harmless K ''ui''" "harmless K ''management''"
  by (simp_all add: harmless_def normalizeKey_lower key_body_Cons lower_char_def reservedReason_def reservedExact_def
      reservedPrefixes_def)

fun plain_keys :: "cfglib \<Rightarrow> val \<Rightarrow> bool" where
  "plain_keys K (VMap m) = list_all (\<lambda>kv. harmless K (fst kv) \<and> plain_keys K (snd kv)) m"
| "plain_keys K (VList xs) = list_all (plain_keys K) xs"
| "plain_keys K v = True"

lemma plain_keys_none: "plain_keys K v \<Longrightarrow> reservedFields K v p = []"
proof (induction v arbitrary: p rule: val_induct)
  case (list xs)
  then show ?case by (auto simp: list_all_iff in_set_enumerate_eq)
next
  case (map m)
  then show ?case by (fastforce simp: list_all_iff harmless_def Let_def)
qed auto

lemma reserved_Cons: "reservedFields K (VMap ((k, v) # m)) p =
    (if isFreeFormPath p then []
     else (if allowReservedPath (joinPath p k) then reservedFields K v (joinPath p k)
           else if reservedReason (normalizeKey K k) \<noteq> [] then [reserved_violation K (joinPath p k) k]
           else reservedFields K v (joinPath p k)) @ reservedFields K (VMap m) p)"
  by (cases "isFreeFormPath p")
    (simp_all only: reservedFields.simps list.map concat.simps fst_conv snd_conv Let_def if_True if_False)

lemma reserved_row: "harmless K k \<or> allowReservedPath (joinPath p k) \<Longrightarrow> reservedFields K v (joinPath p k) = [] \<Longrightarrow>
    reservedFields K (VMap m) p = [] \<Longrightarrow> reservedFields K (VMap ((k, v) # m)) p = []"
  by (auto simp: reserved_Cons harmless_def simp del: reservedFields.simps)

lemma reserved_free: "isFreeFormPath p \<Longrightarrow> reservedFields K (VMap m) p = []"
  by simp

lemma reserved_list: "(\<And>x i. x \<in> set xs \<Longrightarrow> reservedFields K x (indexPath p i) = []) \<Longrightarrow> reservedFields K (VList xs) p = []"
  by (auto simp: in_set_enumerate_eq)

lemma reserved_end: "reservedFields K (VMap []) p = []"
  by simp

lemma plain_jstr [simp]: "plain_keys K (jstr s)"
  by (simp add: jstr_def)

lemma plain_parts:
  "plain_keys K (tree_token t)" "plain_keys K (tree_netconf n)" "plain_keys K (tree_user u)" "plain_keys K (tree_module m)"
  "plain_keys K (tree_leaf l)"
  unfolding tree_token_def tree_netconf_def tree_user_def tree_module_def tree_leaf_def opt_str_def opt_list_def
  by (auto simp: harmless_keys harmless_short list_all_iff)

lemma free_paths: "isFreeFormPath (joinPath (indexPath p i) ''instance'')" "isFreeFormPath (joinPath (indexPath p i) ''startup'')"
proof -
  have ends: "bytes_contains (q @ s) s" for q s :: string by (simp add: bytes_contains_iff sublist_def) (metis append_Nil2)
  have "joinPath (indexPath p i) k = indexPath p i @ ''.'' @ k" for k by (simp add: joinPath_def indexPath_def)
  then show "isFreeFormPath (joinPath (indexPath p i) ''instance'')" "isFreeFormPath (joinPath (indexPath p i) ''startup'')"
    using ends [of "indexPath p i" "''.instance''"] ends [of "indexPath p i" "''.startup''"]
    by (simp_all add: isFreeFormPath_def)
qed

lemma reserved_tree_profile: "reservedFields K (tree_profile K p) (indexPath base i) = []"
proof -
  have tree: "reservedFields K (tree_map K t) q = []" if "isFreeFormPath q" for t q
    using that by (cases t) (simp_all add: tree_map_def)
  have plain: "reservedFields K (VList (map tree_module ms)) q = []" "reservedFields K (VList (map tree_leaf ss)) q = []" for ms ss q
    by (rule plain_keys_none; simp add: list_all_iff plain_parts)+
  have "reservedFields K (VMap (opt_map ''startup'' (tree_map K (pr_startup p)) b)) (indexPath base i) = []" for b
    by (auto simp: opt_map_def harmless_keys tree free_paths simp del: reservedFields.simps(1) intro!: reserved_row reserved_end)
  then show ?thesis
    unfolding tree_profile_def opt_list_def
    by (auto simp: harmless_keys tree free_paths plain plain_keys_none simp del: reservedFields.simps(1,2) intro!: reserved_row)
qed

lemma reserved_tree_listeners: "reservedFields K (tree_listeners l) ''spec.listeners'' = []"
  unfolding tree_listeners_def
  by (intro reserved_row reserved_end)
    (auto simp: harmless_keys harmless_short allowReservedPath_def joinPath_def intro!: plain_keys_none)

lemma reserved_tree_spec: "reservedFields K (tree_spec K sp) ''spec'' = []"
proof -
  have "reservedFields K (VList (map (tree_profile K) (sp_profiles sp))) q = []" for q
    by (rule reserved_list) (auto simp: reserved_tree_profile)
  moreover have "plain_keys K (VList (map tree_user (sp_users sp)))" "plain_keys K (VList (map tree_token (as_tokens (sp_auth sp))))"
    by (simp_all add: list_all_iff plain_parts)
  ultimately show ?thesis
    unfolding tree_spec_def using reserved_tree_listeners [of K "sp_listeners sp"]
    by (intro reserved_row reserved_end)
      (auto simp: harmless_keys harmless_short joinPath_def plain_parts list_all_iff simp del: reservedFields.simps
         intro!: plain_keys_none split: option.split)
qed

lemma reserved_tree_state: "reservedFields K (tree_state K st) [] = []"
proof -
  have "isFreeFormPath (joinPath (joinPath [] ''metadata'') ''labels'')" by (simp add: isFreeFormPath_def joinPath_def)
  then have "reservedFields K (VMap ls) (joinPath (joinPath [] ''metadata'') ''labels'') = []" for ls by (rule reserved_free)
  then have "reservedFields K (VMap (opt_map ''labels'' (VMap ls) b)) (joinPath [] ''metadata'') = []" for ls b
    by (auto simp: opt_map_def harmless_keys plain_keys_none simp del: reservedFields.simps(1)
        intro!: reserved_row reserved_end)
  moreover have "reservedFields K (tree_spec K (st_spec st)) (joinPath [] ''spec'') = []"
    using reserved_tree_spec by (simp add: joinPath_def)
  ultimately show ?thesis
    unfolding tree_state_def by (intro reserved_row reserved_end) (auto simp: harmless_keys plain_keys_none simp del: reservedFields.simps(1))
qed

section \<open>The defaults add nothing\<close>

lemma address_same: "map_of m ''address'' = Some (jstr a) \<Longrightarrow> \<not> blank (fix_utf8 a) \<Longrightarrow> setDefaultAddress d m = m"
  by (simp add: setDefaultAddress_def jstr_def)

lemma materialized_addresses:
  assumes "materializeDefaults sp = sp"
  shows "\<not> blank (nl_address (ls_netconf (sp_listeners sp)))" "\<not> blank (rl_address (ls_restconf (sp_listeners sp)))"
    "\<not> blank (ml_address (ls_management (sp_listeners sp)))"
proof -
  have "\<not> blank DefaultNetconfAddress" "\<not> blank DefaultRestconfAddress" "\<not> blank DefaultMgmtAddress"
    by (simp_all add: blank_def TrimSpace_plain plain_ascii_def)
  moreover have "or_default s d = s \<Longrightarrow> \<not> blank d \<Longrightarrow> \<not> blank s" for s d by (auto simp: or_default_def)
  ultimately show "\<not> blank (nl_address (ls_netconf (sp_listeners sp)))" "\<not> blank (rl_address (ls_restconf (sp_listeners sp)))"
    "\<not> blank (ml_address (ls_management (sp_listeners sp)))"
    using arg_cong [OF assms, of "nl_address \<circ> ls_netconf \<circ> sp_listeners"] arg_cong [OF assms, of "rl_address \<circ> ls_restconf \<circ> sp_listeners"]
      arg_cong [OF assms, of "ml_address \<circ> ls_management \<circ> sp_listeners"]
    by (simp_all add: materializeDefaults_def Let_def)
qed

lemmas same_rules = in_map_same setDefault_same address_same

lemma listener_defaults_same:
  assumes "json_listeners l = l" and "\<not> blank (nl_address (ls_netconf l))" "\<not> blank (rl_address (ls_restconf l))"
    "\<not> blank (ml_address (ls_management l))"
  shows "in_map ''listeners'' listener_defaults ((''listeners'', tree_listeners l) # m) = (''listeners'', tree_listeners l) # m"
proof -
  have fs: "fix_utf8 (nl_address (ls_netconf l)) = nl_address (ls_netconf l)" "fix_utf8 (rl_address (ls_restconf l)) = rl_address (ls_restconf l)"
    "fix_utf8 (ml_address (ls_management l)) = ml_address (ls_management l)"
    using arg_cong [OF assms(1), of "nl_address \<circ> ls_netconf"] arg_cong [OF assms(1), of "rl_address \<circ> ls_restconf"]
      arg_cong [OF assms(1), of "ml_address \<circ> ls_management"]
    by (simp_all add: json_listeners_def)
  show ?thesis
    unfolding tree_listeners_def
    by (rule in_map_same, simp)
      (simp add: listener_defaults_def in_map_def ensureMap_def setDefault_def setDefaultAddress_def jstr_def fs assms)
qed

lemma tree_profile_instance: "item_default (tree_profile K p) = tree_profile K p"
  by (simp add: item_default_def tree_profile_def setDefault_def opt_list_def)

lemma spec_defaults_same:
  assumes "json_listeners (sp_listeners sp) = sp_listeners sp" and "materializeDefaults sp = sp"
    and m: "tree_spec K sp = VMap m"
  shows "spec_defaults m = Some m"
proof -
  have l: "in_map ''listeners'' listener_defaults m = m"
    using m listener_defaults_same [OF assms(1) materialized_addresses [OF assms(2)]] by (auto simp: tree_spec_def)
  from m have "map_of m ''auth'' = Some (VMap [(''mode'', jstr (as_mode (sp_auth sp))), (''tokens'', VList (map tree_token (as_tokens (sp_auth sp))))])"
    "map_of m ''ui'' = Some (VMap [(''enabled'', VBool (ui_enabled (sp_ui sp)))])"
    "map_of m ''restconf'' = Some (VMap [(''json'', VBool (rc_json (sp_restconf sp))), (''xml'', VBool (rc_xml (sp_restconf sp)))])"
    "\<exists>v. map_of m ''admission'' = Some (VMap [(''allowClientCidrs'', v)])"
    "map_of m ''management'' = Some (VMap [(''allowedOrigins'', VList (map jstr (mg_allowedOrigins (sp_management sp)))),
        (''mcp'', VMap [(''allowLegacyClients'', VBool (mcp_allowLegacyClients (mg_mcp (sp_management sp))))])])"
    "map_of m ''profiles'' = Some (VList (map (tree_profile K) (sp_profiles sp)))"
    "map_of m ''users'' = Some (VList (map tree_user (sp_users sp)))"
    "map_of m ''netconf'' = Some (tree_netconf (sp_netconf sp))"
    by (auto simp only: tree_spec_def val.inject) simp_all
  note at = this
  have "in_map ''auth'' (setDefault ''tokens'' (VList []) \<circ> setDefault ''mode'' (VStr MgmtAuthBearer)) m = m"
    "in_map ''ui'' (setDefault ''enabled'' (VBool True)) m = m"
    by (rule in_map_same [OF at(1)], simp add: setDefault_def) (rule in_map_same [OF at(2)], simp add: setDefault_def)
  with l have before: "spec_before m = m" by (simp only: spec_before_def comp_def)
  have n: "in_map ''netconf'' netconf_defaults m = m"
    by (rule in_map_same [OF at(8) [unfolded tree_netconf_def]])
      (simp add: netconf_defaults_def in_map_def ensureMap_def setDefault_def)
  from at(4) obtain v where ad: "map_of m ''admission'' = Some (VMap [(''allowClientCidrs'', v)])" ..
  have r: "in_map ''restconf'' (setDefault ''xml'' (VBool False) \<circ> setDefault ''json'' (VBool True)) m = m"
    by (rule in_map_same [OF at(3)]) (simp add: setDefault_def)
  have a: "in_map ''admission'' id m = m" by (rule in_map_same [OF ad]) simp
  have g: "in_map ''management'' (in_map ''mcp'' (setDefault ''allowLegacyClients'' (VBool False))
        \<circ> setDefault ''allowedOrigins'' (VList [])) m = m"
    by (rule in_map_same [OF at(5)]) (simp add: in_map_def ensureMap_def setDefault_def)
  have p: "profile_defaults m = m"
    using at(6) by (simp add: profile_defaults_def comp_def tree_profile_instance kv_put_same)
  have "spec_after m = m"
    unfolding spec_after_def comp_def [of _ "in_map ''restconf'' _"] comp_def [of _ "in_map ''admission'' _"]
      comp_def [of _ "in_map ''management'' _"] comp_def [of _ profile_defaults] comp_def [of _ "setDefault ''profiles'' _"] r a g p
      setDefault_same [OF at(6)] setDefault_same [OF at(7)] ..
  moreover have "ensureMap m ''netconf'' \<noteq> None" using at(8) by (simp add: tree_netconf_def ensureMap_def)
  ultimately show ?thesis by (auto simp: spec_defaults_def Let_def before n)
qed

lemma applyDecodeDefaults_same:
  assumes "json_listeners (sp_listeners (st_spec st)) = sp_listeners (st_spec st)" and "materializeDefaults (st_spec st) = st_spec st"
  shows "applyDecodeDefaults (tree_state K st) = Some (tree_state K st)"
proof -
  obtain m where m: "tree_spec K (st_spec st) = VMap m" by (simp add: tree_spec_def)
  show ?thesis using spec_defaults_same [OF assms m] m
    by (simp add: applyDecodeDefaults_def tree_state_def ensureMap_def)
qed

lemma decodeRaw_tree_state:
  assumes "trip_ok E K" and "float_text E K" and "normal_form E K n"
  shows "decodeRaw E K (tree_state K n) = Some (Inr n)"
proof -
  have sn: "spec_normal E K (st_spec n)" by (rule normal_form_spec [OF assms(1,3)])
  have "materializeDefaults (st_spec n) = st_spec n" using assms(3) by (simp add: normal_form_def)
  note same = applyDecodeDefaults_same [OF spec_normal_parts(1) [OF sn] this]
  show ?thesis
    by (simp add: decodeRaw_def Let_def reserved_tree_state same unknown_tree_state
        marshals_tree_state [OF assms(2) sn] dec_tree_state [OF assms(1,2,3)])
qed

section \<open>Properties\<close>

text \<open>What \<open>encoding/json\<close> documents of the text of an object: it stands in braces, is UTF-8 and decodes to that object, with nothing
  after it.\<close>

definition json_text :: "cfglib \<Rightarrow> val \<Rightarrow> bool" where
  "json_text K t \<longleftrightarrow> (\<exists>body. cf_json_write K t = ''{'' @ body @ ''}'') \<and> valid_utf8 (cf_json_write K t)
     \<and> cf_json_read K (cf_json_write K t) = Inr (t, False)"

lemma Decode_json_text:
  assumes "json_text K t" and "length (cf_json_write K t) \<le> MaxDocumentBytes"
  shows "Decode E K (cf_json_write K t) = decodeRaw E K t"
proof -
  let ?b = "cf_json_write K t"
  from assms(1) obtain body where body: "?b = ''{'' @ body @ ''}''" by (auto simp: json_text_def)
  then have t: "TrimSpace ?b = ?b" by (intro TrimSpace_plain) (simp_all add: plain_ascii_def)
  have "stripBOM ?b = ?b" by (simp add: body stripBOM_def)
  moreover have "looksLikeJSON ?b" unfolding looksLikeJSON_def t by (simp add: body)
  moreover have "?b \<noteq> []" by (simp add: body)
  ultimately show ?thesis using assms by (simp add: Decode_def t decodeJSON_def json_text_def)
qed


text \<open>A text for every finite float that satisfies \<open>float_text\<close>: the numerator and the denominator as the two
  digit strings around the point.\<close>

definition ratio_text :: "f64 \<Rightarrow> string" where
  "ratio_text x = (case x of
     FFin q \<Rightarrow> (let (a, b) = quotient_of q in
       (if a < 0 then ''-'' else []) @ dec_digits (nat \<bar>a\<bar>) @ ''.'' @ dec_digits (nat b))
   | _ \<Rightarrow> ''-0'')"

definition ratio_parse :: "string \<Rightarrow> f64 option" where
  "ratio_parse s =
    (if s = ''-0'' then Some FNegZero
     else
       (let neg = prefix ''-'' s; body = (if neg then tl s else s);
            a = int (dec_val (takeWhile is_digit body)); b = int (dec_val (tl (dropWhile is_digit body)))
        in Some (FFin (Fract (if neg then - a else a) b))))"

lemma digits_split:
  "takeWhile is_digit (dec_digits n @ CHR ''.'' # s) = dec_digits n" "dropWhile is_digit (dec_digits n @ CHR ''.'' # s) = CHR ''.'' # s"
  using dec_digits_all_digits [of n] by (simp_all add: is_digit_def)

lemma digits_not_minus: "dec_digits n \<noteq> CHR ''-'' # s"
proof
  assume "dec_digits n = CHR ''-'' # s"
  then have "is_digit (CHR ''-'')" using dec_digits_all_digits [of n] by simp
  then show False by (simp add: is_digit_def)
qed

lemma valid_digits: "valid_number (dec_digits n @ CHR ''.'' # dec_digits m)"
proof -
  have frac: "num_frac (CHR ''.'' # dec_digits m)"
  proof -
    have e: "dropWhile is_digit (dec_digits m) = []" using dec_digits_all_digits [of m] by (simp add: dropWhile_eq_Nil_conv)
    have "num_frac (CHR ''.'' # dec_digits m) = num_exp (dropWhile is_digit (dec_digits m))"
      using dec_digits_all_digits [of m] by (simp add: num_frac_def hd_in_set)
    then show ?thesis by (simp only: e num_exp_def list.case)
  qed
  obtain c s where cs: "dec_digits n = c # s" by (cases "dec_digits n") auto
  have d: "is_digit c" "c \<noteq> CHR ''-''" "\<forall>x \<in> set s. is_digit x"
    using dec_digits_all_digits [of n] digits_not_minus [of n] by (auto simp: cs)
  have "c = CHR ''0'' \<Longrightarrow> s = []"
    using hd_dec_digits [of n] cs by (cases "n = 0") (auto simp: dec_digits.simps [of 0])
  with d frac show ?thesis
    by (auto simp: valid_number_def cs dropWhile_append3 is_digit_def [of "CHR ''.''"])
qed

lemma valid_minus: "valid_number (dec_digits n @ s) \<Longrightarrow> valid_number (CHR ''-'' # dec_digits n @ s)"
proof -
  assume v: "valid_number (dec_digits n @ s)"
  obtain c t where ct: "dec_digits n = c # t" "c \<noteq> CHR ''-''"
    using digits_not_minus [of n] by (cases "dec_digits n") auto
  with v show ?thesis by (simp add: valid_number_def)
qed

lemma ratio_back: "parse_float (float_lib ratio_parse) (ratio_text (FFin q)) = Some (FFin q)"
proof -
  obtain a b where ab: "quotient_of q = (a, b)" by fastforce
  have b: "b > 0" using quotient_of_denom_pos [OF ab] .
  have q: "q = Fract a b" using quotient_of_div [OF ab] by (simp add: Fract_of_int_quotient)
  let ?d = "dec_digits (nat \<bar>a\<bar>)" and ?e = "dec_digits (nat b)"
  show ?thesis
  proof (cases "a < 0")
    case True
    then have t: "ratio_text (FFin q) = CHR ''-'' # ?d @ CHR ''.'' # ?e" by (simp add: ratio_text_def ab)
    have "length (?d @ CHR ''.'' # ?e) > 2" using dec_digits_nonempty [of "nat \<bar>a\<bar>"] dec_digits_nonempty [of "nat b"]
      by (cases ?d; cases ?e) auto
    then have "?d @ CHR ''.'' # ?e \<noteq> ''0''" by (metis One_nat_def length_Cons list.size(3) not_numeral_less_one)
    then have "ratio_text (FFin q) \<noteq> ''-0''" by (simp add: t)
    with True b show ?thesis by (simp add: ratio_parse_def t digits_split dec_val_dec_digits Let_def q [symmetric])
  next
    case False
    then have t: "ratio_text (FFin q) = ?d @ CHR ''.'' # ?e" by (simp add: ratio_text_def ab)
    obtain c s where cs: "?d = c # s" "c \<noteq> CHR ''-''"
      using digits_not_minus [of "nat \<bar>a\<bar>"] by (cases ?d) auto
    then have "\<not> prefix ''-'' (ratio_text (FFin q))" "ratio_text (FFin q) \<noteq> ''-0''" by (auto simp: t)
    with False b show ?thesis by (simp add: ratio_parse_def t digits_split dec_val_dec_digits Let_def q [symmetric])
  qed
qed

abbreviation export_lib :: cfglib where
  "export_lib \<equiv> cfg_lib\<lparr>cf_float := ratio_text\<rparr>"

lemma export_lib_text: "float_text (float_lib ratio_parse) export_lib"
  unfolding float_text_def
proof (intro allI impI)
  fix x assume "f64_finite x"
  then show "valid_number (cf_float export_lib x) \<and> parse_float (float_lib ratio_parse) (cf_float export_lib x) = Some x"
  proof (cases x)
    case (FFin q)
    have "valid_number (ratio_text (FFin q))"
      using valid_digits valid_minus by (auto simp: ratio_text_def split: prod.split)
    with FFin ratio_back show ?thesis by simp
  qed (auto simp: ratio_text_def ratio_parse_def valid_number_def num_frac_def)
qed

lemma export_lib_trip: "trip_ok (float_lib ratio_parse) export_lib"
  by (auto simp: trip_ok_def ratio_parse_def Let_def split: if_splits)

abbreviation lab_state :: state where
  "lab_state \<equiv> blank_state\<lparr>st_spec := blank_spec\<lparr>sp_profiles := [\<lparr>pr_name = ''r1'', pr_modules = [], pr_schema = [],
     pr_instance = Some [(''sys'', VMap [(''mtu'', VInt KInt 1500)])], pr_startup = Some []\<rparr>]\<rparr>\<rparr>"

text \<open>A library with one text, which it reads as the given tree.\<close>

definition text_lib :: "val \<Rightarrow> cfglib" where
  "text_lib t = export_lib\<lparr>cf_json_read := (\<lambda>_. Inr (t, False)), cf_json_write := (\<lambda>_. ''{}'')\<rparr>"

lemma tree_val_lib: "cf_float K = cf_float K' \<Longrightarrow> cf_f32 K = cf_f32 K' \<Longrightarrow> tree_val K v = tree_val K' v"
proof (induction v rule: val_induct)
  case (map m)
  then have "List.map (\<lambda>kv. (fst kv, tree_val K (snd kv))) m = List.map (\<lambda>kv. (fst kv, tree_val K' (snd kv))) m" by force
  then show ?case by (simp only: tree_val.simps)
next
  case (maps ms)
  then have "List.map (\<lambda>kv. (fst kv, tree_val K (snd kv))) m = List.map (\<lambda>kv. (fst kv, tree_val K' (snd kv))) m" if "m \<in> set ms" for m
    using that by force
  then have "List.map (\<lambda>m. VMap (json_object (List.map (\<lambda>kv. (fst kv, tree_val K (snd kv))) m))) ms
      = List.map (\<lambda>m. VMap (json_object (List.map (\<lambda>kv. (fst kv, tree_val K' (snd kv))) m))) ms"
    by (intro map_cong refl) (simp only:)
  then show ?case by (simp only: tree_val.simps)
qed auto

lemma tree_val_text: "tree_val (text_lib t) v = tree_val export_lib v"
  by (rule tree_val_lib) (simp_all add: text_lib_def)

lemma tree_state_text: "tree_state (text_lib t) st = tree_state export_lib st"
proof -
  have "tree_map (text_lib t) = tree_map export_lib" by (intro ext) (simp add: tree_map_def tree_val_text split: option.split)
  then have "tree_profile (text_lib t) = tree_profile export_lib" by (intro ext) (simp add: tree_profile_def)
  then show ?thesis by (simp add: tree_state_def tree_spec_def)
qed


end
