(* ===== verification/Yang_Node.thy ===== *)
theory Yang_Node
  imports Yang_Schema
begin

text \<open>
  Package \<open>yangtree\<close>, \<open>node.go\<close>: the configuration tree, its compilation, lookups with the
  dynamic getters, subtree selection, validation against the schema and the leaf-level
  difference of two trees. A Go map is visited in the order of its list; a nil root map is
  \<open>None\<close>. The difference passes the current path along, because the code overwrites the keys
  of the path's last segment in place.
\<close>

section \<open>Nodes\<close>

record change =
  c_path :: string
  c_operation :: string

abbreviation Change :: "string \<Rightarrow> string \<Rightarrow> change" where
  "Change p oper \<equiv> \<lparr>c_path = p, c_operation = oper\<rparr>"

record node =
  n_schema :: "schema option"
  n_root :: "kvs option"

text \<open>Reading a nil map gives no bindings.\<close>

definition root_map :: "node \<Rightarrow> kvs" where
  "root_map n = (case n_root n of None \<Rightarrow> [] | Some m \<Rightarrow> m)"

text \<open>\<open>asMap(clone(m))\<close> of a map, which is never nil.\<close>

definition clone_map :: "golib \<Rightarrow> kvs \<Rightarrow> kvs" where
  "clone_map E m = (case asMap E (clone E (VMap m)) of None \<Rightarrow> [] | Some rt \<Rightarrow> rt)"

definition Compile :: "golib \<Rightarrow> kvs \<Rightarrow> schema_leaf list \<Rightarrow> derr + node" where
  "Compile E instance_map leaves = (case newSchema E leaves of
     Inl err \<Rightarrow> Inl err
   | Inr s \<Rightarrow> Inr \<lparr>n_schema = Some s, n_root = Some (clone_map E instance_map)\<rparr>)"

abbreviation zero_node :: node where
  "zero_node \<equiv> \<lparr>n_schema = None, n_root = None\<rparr>"

definition IsZero :: "node \<Rightarrow> bool" where
  "IsZero n \<longleftrightarrow> n_schema n = None \<and> n_root n = None"

definition IsEmpty :: "node \<Rightarrow> bool" where
  "IsEmpty n \<longleftrightarrow> length (root_map n) = 0"

definition node_Clone :: "golib \<Rightarrow> node \<Rightarrow> node" where
  "node_Clone E n = \<lparr>n_schema = n_schema n, n_root = Some (clone_map E (root_map n))\<rparr>"

definition node_Map :: "golib \<Rightarrow> node \<Rightarrow> kvs" where
  "node_Map E n = clone_map E (root_map n)"

definition node_Equal :: "golib \<Rightarrow> node \<Rightarrow> node \<Rightarrow> bool" where
  "node_Equal E n other = equal E (VMap (root_map n)) (VMap (root_map other))"

section \<open>Lookup\<close>

definition set_last_keys :: "path \<Rightarrow> key list \<Rightarrow> path" where
  "set_last_keys p ks =
    (if ks \<noteq> [] \<and> p_segments p \<noteq> [] then
       p\<lparr>p_segments := butlast (p_segments p) @ [(last (p_segments p))\<lparr>s_keys := ks\<rparr>]\<rparr>
     else p)"

definition child_path :: "path \<Rightarrow> string \<Rightarrow> path" where
  "child_path p k = (if p_module p = '''' then p\<lparr>p_module := k\<rparr> else path_append p (Segment k []))"

definition dynamic :: "schema option \<Rightarrow> path \<Rightarrow> schema_entry option" where
  "dynamic s p = (case schema_lookup s p of
     None \<Rightarrow> None
   | Some e \<Rightarrow> if se_valueFrom e = ValueFromProcessUptime then Some e else None)"

text \<open>
  The getters written into a copied tree. The copy holds no other map and slice types than
  these, and the keys of a path do not matter to the schema.
\<close>

function applyGetters :: "golib \<Rightarrow> schema option \<Rightarrow> path \<Rightarrow> val \<Rightarrow> val" where
  "applyGetters E s pre v =
    (if s = None then v
     else if dynamic s pre \<noteq> None then v
     else case v of
       VMap m \<Rightarrow>
         VMap (map (\<lambda>kv. (fst kv,
           let np = child_path pre (fst kv) in
           if p_module pre = '''' then applyGetters E s np (snd kv)
           else case dynamic s np of
             Some e \<Rightarrow> getterValue E e
           | None \<Rightarrow> applyGetters E s np (snd kv))) m)
     | VList arr \<Rightarrow>
         VList (map (\<lambda>item. case item of
             VMap im \<Rightarrow> applyGetters E s (set_last_keys pre (keysForItem E im)) item
           | _ \<Rightarrow> item) arr)
     | _ \<Rightarrow> v)"
  by pat_completeness auto
termination
  by (relation "measure (\<lambda>(E, s, pre, v). size v)")
    (auto dest: size_list_member size_kvs_member)

declare applyGetters.simps [simp del]

definition materializeRoot :: "golib \<Rightarrow> node \<Rightarrow> kvs" where
  "materializeRoot E n =
    (case applyGetters E (n_schema n) (Path '''' []) (VMap (clone_map E (root_map n))) of
       VMap m \<Rightarrow> m | _ \<Rightarrow> [])"

text \<open>The loop of \<open>walkGet\<close> over the segments.\<close>

fun walk_segments :: "golib \<Rightarrow> val \<Rightarrow> segment list \<Rightarrow> val option" where
  "walk_segments E cur [] = Some cur"
| "walk_segments E cur (seg # segs) =
    (if s_keys seg \<noteq> [] then
       (let cur' = (case asMap E cur of Some m \<Rightarrow> kv_nil m (s_name seg) | None \<Rightarrow> cur) in
        case asSlice cur' of
          None \<Rightarrow> None
        | Some arr \<Rightarrow>
            (case listIndex E arr (s_keys seg) of
               None \<Rightarrow> None
             | Some (_, item) \<Rightarrow> walk_segments E (VMap item) segs))
     else
       (case asMap E cur of
          None \<Rightarrow> None
        | Some m \<Rightarrow>
            (case map_of m (s_name seg) of
               None \<Rightarrow> None
             | Some next \<Rightarrow> walk_segments E next segs)))"

definition walkGet :: "golib \<Rightarrow> node \<Rightarrow> path \<Rightarrow> val option" where
  "walkGet E n p = (case n_root n of
     None \<Rightarrow> None
   | Some rt \<Rightarrow>
       (case map_of rt (p_module p) of
          None \<Rightarrow> None
        | Some cur \<Rightarrow> walk_segments E cur (p_segments p)))"

definition lookup :: "golib \<Rightarrow> node \<Rightarrow> path \<Rightarrow> val option" where
  "lookup E n p =
    (if IsRoot p then Some (VMap (materializeRoot E n))
     else if n_schema n \<noteq> None \<and> \<not> known (n_schema n) p then None
     else case walkGet E n p of
       None \<Rightarrow>
         (case dynamic (n_schema n) p of
            Some e \<Rightarrow> Some (clone E (getterValue E e))
          | None \<Rightarrow> None)
     | Some v \<Rightarrow>
         (case dynamic (n_schema n) p of
            Some e \<Rightarrow> Some (clone E (getterValue E e))
          | None \<Rightarrow> Some (clone E v)))"

definition Lookup :: "golib \<Rightarrow> node \<Rightarrow> string \<Rightarrow> val option" where
  "Lookup E n s = (case ParsePath E s of Inl _ \<Rightarrow> None | Inr p \<Rightarrow> lookup E n p)"

section \<open>Subtrees\<close>

text \<open>
  The nested maps that lead from a module to the selected value. The code fills them from
  the outside in; the value of one segment is built from the rest.
\<close>

fun graft_segments :: "golib \<Rightarrow> segment list \<Rightarrow> val \<Rightarrow> kvs" where
  "graft_segments E [] v = []"
| "graft_segments E (seg # segs) v =
    (if s_keys seg \<noteq> [] then
       (let entry = entryWithKeys (s_keys seg);
            filled = (if segs = [] then
                        (case asMap E v of
                           Some body \<Rightarrow> fold (\<lambda>kv m. kv_put (fst kv) (snd kv) m) body entry
                         | None \<Rightarrow> entry)
                      else fold (\<lambda>kv m. kv_put (fst kv) (snd kv) m) (graft_segments E segs v) entry) in
        [(s_name seg, VList [VMap filled])])
     else if segs = [] then [(s_name seg, v)]
     else [(s_name seg, VMap (graft_segments E segs v))])"

definition graft :: "golib \<Rightarrow> path \<Rightarrow> val \<Rightarrow> kvs" where
  "graft E p v =
    (if p_module p = '''' then (case asMap E v of Some m \<Rightarrow> m | None \<Rightarrow> [])
     else if p_segments p = [] then [(p_module p, v)]
     else [(p_module p, VMap (graft_segments E (p_segments p) v))])"

definition Subtree :: "golib \<Rightarrow> node \<Rightarrow> path \<Rightarrow> node" where
  "Subtree E n p =
    (if IsRoot p then \<lparr>n_schema = n_schema n, n_root = Some (materializeRoot E n)\<rparr>
     else case lookup E n p of
       None \<Rightarrow> \<lparr>n_schema = n_schema n, n_root = Some []\<rparr>
     | Some v \<Rightarrow> \<lparr>n_schema = n_schema n, n_root = Some (graft E p v)\<rparr>)"

section \<open>Validation\<close>

function validateValue :: "golib \<Rightarrow> schema option \<Rightarrow> path \<Rightarrow> val \<Rightarrow> derr option"
  and validateChildren :: "golib \<Rightarrow> schema option \<Rightarrow> path \<Rightarrow> val \<Rightarrow> derr option" where
  "validateValue E s p v = (case schema_lookup s p of
     None \<Rightarrow> validateChildren E s p v
   | Some e \<Rightarrow>
       if se_typ e = ''list'' then
         (case asSlice v of
            Some arr \<Rightarrow> first_err (\<lambda>item. validateChildren E s p item) arr
          | None \<Rightarrow> if isMap E v then validateChildren E s p v else checkValue E e v)
       else if se_typ e = ''container'' then
         (case checkValue E e v of Some err \<Rightarrow> Some err | None \<Rightarrow> validateChildren E s p v)
       else if se_typ e = ''leaf-list'' then checkValue E e v
       else if se_valueFrom e = ValueFromProcessUptime then None
       else (case checkValue E e v of
               Some de \<Rightarrow>
                 Some (with_violations de [fv (path_string p) ''invalid_value'' (e_message de)])
             | None \<Rightarrow> None))"
| "validateChildren E s p v = (case asMap E v of
     Some m \<Rightarrow> first_err (\<lambda>kv. validateValue E s (child_path p (fst kv)) (snd kv)) m
   | None \<Rightarrow>
       (case asSlice v of
          Some arr \<Rightarrow> first_err (\<lambda>item. validateValue E s p item) arr
        | None \<Rightarrow> None))"
  by pat_completeness auto
termination
  by (relation "measure (\<lambda>x. case x of Inl (E, s, p, v) \<Rightarrow> 2 * size v + 1 | Inr (E, s, p, v) \<Rightarrow> 2 * size v)")
    (auto dest: asSlice_size asMap_size)

declare validateValue.simps [simp del] validateChildren.simps [simp del]

definition Validate :: "golib \<Rightarrow> node \<Rightarrow> derr option" where
  "Validate E n =
    (if n_schema n = None then None
     else validateValue E (n_schema n) (Path '''' []) (VMap (root_map n)))"

section \<open>Differences\<close>

text \<open>The entry of one list item in the index: its keys and its value in each tree.\<close>

record diff_pair =
  dp_keys :: "key list"
  dp_a :: val
  dp_b :: val

definition add_item :: "golib \<Rightarrow> bool \<Rightarrow> val \<Rightarrow> path \<times> diff_pair gomap \<Rightarrow> path \<times> diff_pair gomap" where
  "add_item E fromA item st =
    (let p = fst st; index = snd st;
         ks = (case asMap E item of Some m \<Rightarrow> keysForItem E m | None \<Rightarrow> []);
         p' = set_last_keys p ks;
         i = (if ks \<noteq> [] then path_string p' else path_string p @ ''#'' @ stringify E item);
         pr = (case map_of index i of Some pr \<Rightarrow> pr | None \<Rightarrow> \<lparr>dp_keys = ks, dp_a = VNil, dp_b = VNil\<rparr>) in
     (p', kv_put i (if fromA then pr\<lparr>dp_a := item\<rparr> else pr\<lparr>dp_b := item\<rparr>) index))"

definition diff_index :: "golib \<Rightarrow> path \<Rightarrow> val list \<Rightarrow> val list \<Rightarrow> path \<times> diff_pair gomap" where
  "diff_index E p as bs = fold (add_item E False) bs (fold (add_item E True) as (p, []))"

lemma add_item_mem:
  assumes "x \<in> set (snd (add_item E fromA item st))"
  shows "x \<in> set (snd st) \<or> (\<exists>pr \<in> insert \<lparr>dp_keys = dp_keys (snd x), dp_a = VNil, dp_b = VNil\<rparr> (snd ` set (snd st)).
    (fromA \<and> dp_a (snd x) = item \<and> dp_b (snd x) = dp_b pr) \<or> (\<not> fromA \<and> dp_b (snd x) = item \<and> dp_a (snd x) = dp_a pr))"
  using assms
  by (auto simp: add_item_def Let_def split: option.splits if_splits dest!: kv_put_mem map_of_SomeD) force+

definition index_bound :: "nat \<Rightarrow> nat \<Rightarrow> diff_pair gomap \<Rightarrow> bool" where
  "index_bound na nb index \<longleftrightarrow> (\<forall>x \<in> set index. size (dp_a (snd x)) < na \<and> size (dp_b (snd x)) < nb)"

lemma add_item_bound:
  assumes "index_bound na nb (snd st)" and "0 < na" and "0 < nb" and "fromA \<Longrightarrow> size item < na"
    and "\<not> fromA \<Longrightarrow> size item < nb"
  shows "index_bound na nb (snd (add_item E fromA item st))"
  using assms unfolding index_bound_def by (fastforce dest: add_item_mem)

lemma fold_add_item_bound:
  "index_bound na nb (snd st) \<Longrightarrow> 0 < na \<Longrightarrow> 0 < nb \<Longrightarrow>
     (\<And>item. item \<in> set items \<Longrightarrow> size item < (if fromA then na else nb)) \<Longrightarrow>
     index_bound na nb (snd (fold (add_item E fromA) items st))"
proof (induction items arbitrary: st)
  case (Cons item items)
  have "index_bound na nb (snd (add_item E fromA item st))"
    using Cons.prems(1,2,3) Cons.prems(4) [of item] by (intro add_item_bound) auto
  with Cons show ?case by simp
qed simp

lemma diff_index_size:
  assumes "asSlice a = Some as" and "asSlice b = Some bs" and "x \<in> set (snd (diff_index E p as bs))"
  shows "size (dp_a (snd x)) < size a \<and> size (dp_b (snd x)) < size b"
proof -
  have pos: "0 < size a" "0 < size b"
    using assms(1,2) by (auto simp: asSlice_def split: val.splits)
  have "index_bound (size a) (size b) (snd (diff_index E p as bs))"
    unfolding diff_index_def
    by (intro fold_add_item_bound pos) (auto simp: index_bound_def asSlice_size [OF assms(1)] asSlice_size [OF assms(2)])
  with assms(3) show ?thesis by (auto simp: index_bound_def)
qed

definition seen_keys :: "kvs \<Rightarrow> kvs \<Rightarrow> string list" where
  "seen_keys am bm = map fst am @ filter (\<lambda>k. k \<notin> fst ` set am) (map fst bm)"

lemma kv_nil_size:
  assumes "asMap E v = Some m"
  shows "size (kv_nil m k) < size v"
proof (cases "map_of m k")
  case None
  with assms show ?thesis by (auto simp: kv_nil_def asMap_def split: val.splits)
next
  case (Some w)
  with asMap_size [OF assms map_of_SomeD [OF Some]] show ?thesis by (simp add: kv_nil_def)
qed

function diffWalk :: "golib \<Rightarrow> path \<Rightarrow> val \<Rightarrow> val \<Rightarrow> change list \<times> path" where
  "diffWalk E p a b =
    (if equal E a b then ([], p)
     else case (asMap E a, asMap E b) of
       (Some am, Some bm) \<Rightarrow>
         (concat (map (\<lambda>k. fst (diffWalk E (child_path p k) (kv_nil am k) (kv_nil bm k))) (seen_keys am bm)), p)
     | _ \<Rightarrow>
         (case (asSlice a, asSlice b) of
            (Some as, Some bs) \<Rightarrow>
              (let st = diff_index E p as bs in
               fold (\<lambda>ipr acc.
                  (let np = set_last_keys (snd acc) (dp_keys (snd ipr));
                       r = diffWalk E np (dp_a (snd ipr)) (dp_b (snd ipr))
                   in (fst acc @ fst r, snd r))) (snd st) ([], fst st))
          | _ \<Rightarrow>
              ([Change (path_string p)
                 (if a = VNil then ''create'' else if b = VNil then ''delete'' else ''replace'')], p)))"
  by pat_completeness auto
termination
  by (relation "measure (\<lambda>(E, p, a, b). size a + size b)")
    (auto intro!: add_strict_mono intro: kv_nil_size [OF sym] dest: diff_index_size [OF sym sym])

declare diffWalk.simps [simp del]

definition Diff :: "golib \<Rightarrow> node \<Rightarrow> node \<Rightarrow> change list" where
  "Diff E n other = fst (diffWalk E (Path [] []) (VMap (root_map n)) (VMap (root_map other)))"

section \<open>Facts\<close>

lemma clone_map_eq: "clone_map E m = map (\<lambda>kv. (fst kv, clone E (snd kv))) m"
  by (simp add: clone_map_def)

lemma clone_map_canonical: "go_val (VMap m) \<Longrightarrow> canonical (VMap (clone_map E m))"
  using clone_canonical [of "VMap m" E] by (simp add: clone_map_eq)

lemma clone_map_id: "canonical (VMap m) \<Longrightarrow> clone_map E m = m"
  using clone_id [of "VMap m" E] by (simp add: clone_map_eq)

abbreviation node_ok :: "node \<Rightarrow> bool" where
  "node_ok n \<equiv> canonical (VMap (root_map n))"

lemma root_map_simps [simp]:
  "root_map \<lparr>n_schema = s, n_root = Some m\<rparr> = m" "root_map (n\<lparr>n_root := Some m\<rparr>) = m"
  "root_map zero_node = []"
  by (simp_all add: root_map_def)

lemma node_Clone_ok: "go_val (VMap (root_map n)) \<Longrightarrow> node_ok (node_Clone E n)"
  using clone_map_canonical by (simp add: node_Clone_def)

lemma node_Clone_root: "node_ok n \<Longrightarrow> root_map (node_Clone E n) = root_map n"
  by (simp add: node_Clone_def clone_map_id)

lemma node_Clone_schema [simp]: "n_schema (node_Clone E n) = n_schema n"
  by (simp add: node_Clone_def)

lemma walk_segments_canonical:
  "canonical cur \<Longrightarrow> walk_segments E cur segs = Some v \<Longrightarrow> canonical v"
proof (induction segs arbitrary: cur)
  case (Cons seg segs)
  show ?case
  proof (cases "s_keys seg = []")
    case True
    with Cons.prems obtain m w where m: "cur = VMap m" "map_of m (s_name seg) = Some w"
        "walk_segments E w segs = Some v"
      by (auto simp: asMap_canonical split: option.splits)
    with Cons.IH [of w] Cons.prems(1) canonical_map_of show ?thesis by blast
  next
    case False
    define cur' where "cur' = (case asMap E cur of Some m \<Rightarrow> kv_nil m (s_name seg) | None \<Rightarrow> cur)"
    have c': "canonical cur'"
      using Cons.prems(1) canonical_asMap canonical_kv_nil unfolding cur'_def by (auto split: option.splits)
    from False Cons.prems(2) obtain arr i item where arr: "asSlice cur' = Some arr"
        "listIndex E arr (s_keys seg) = Some (i, item)" "walk_segments E (VMap item) segs = Some v"
      by (auto simp: Let_def cur'_def [symmetric] split: option.splits)
    then have "list_all canonical arr" using c' by (simp add: asSlice_canonical)
    from listIndex_canonical [OF this arr(2)] Cons.IH arr(3) show ?thesis by blast
  qed
qed simp

lemma walkGet_canonical:
  assumes "node_ok n" and "walkGet E n p = Some v"
  shows "canonical v"
proof -
  from assms(2) obtain rt cur where "n_root n = Some rt" "map_of rt (p_module p) = Some cur"
      "walk_segments E cur (p_segments p) = Some v"
    by (auto simp: walkGet_def split: option.splits)
  with assms(1) canonical_map_of [of rt "p_module p" cur] walk_segments_canonical show ?thesis
    by (simp add: root_map_def)
qed

text \<open>The values of a tree with the schema path each is found at, not looking below a
  dynamic leaf.\<close>

inductive located :: "schema option \<Rightarrow> kvs \<Rightarrow> path \<Rightarrow> val \<Rightarrow> bool" for s rt where
  top: "located s rt (Path [] []) (VMap rt)"
| child: "located s rt p (VMap m) \<Longrightarrow> dynamic s p = None \<Longrightarrow> (k, w) \<in> set m \<Longrightarrow>
     located s rt (child_path p k) w"
| item: "located s rt p (VList arr) \<Longrightarrow> dynamic s p = None \<Longrightarrow> w \<in> set arr \<Longrightarrow> located s rt p w"

definition leaf_typ :: "schema_entry \<Rightarrow> bool" where
  "leaf_typ e \<longleftrightarrow> se_typ e \<notin> {''list'', ''container'', ''leaf-list''}"

definition checked :: "golib \<Rightarrow> schema option \<Rightarrow> path \<Rightarrow> val \<Rightarrow> bool" where
  "checked E s p v \<longleftrightarrow> validateValue E s p v = None
     \<or> (\<exists>e. schema_lookup s p = Some e \<and> se_typ e = ''list'' \<and> validateChildren E s p v = None)
     \<or> (\<exists>e. schema_lookup s p = Some e \<and> se_typ e = ''leaf-list'' \<and> \<not> isMap E v \<and> \<not> isSlice v)"

lemma checkValue_type: "checkValue E e v = None \<Longrightarrow> type_matches E (se_typ e) v"
  by (auto simp: checkValue_def checkType_def split: if_splits)

lemma leaf_checks: "leaf_typ e \<Longrightarrow> dynamic s p = None \<Longrightarrow> schema_lookup s p = Some e \<Longrightarrow>
    validateValue E s p v = None \<longleftrightarrow> checkValue E e v = None"
  by (subst validateValue.simps) (auto simp: leaf_typ_def dynamic_def split: option.splits)

lemma leaf_map_empty: "leaf_typ e \<Longrightarrow> type_matches E (se_typ e) (VMap m) \<Longrightarrow> m = []"
  by (auto simp: type_matches_def leaf_typ_def isEmptyType_def asInt64_def asUint64_def asFloat64_def split: if_splits)

lemma leaf_list_nil: "leaf_typ e \<Longrightarrow> type_matches E (se_typ e) (VList arr) \<Longrightarrow>
   se_typ e = ''empty'' \<and> (arr = [] \<or> arr = [VNil])"
  by (cases arr)
    (auto simp: type_matches_def leaf_typ_def isEmptyType_def asInt64_def asUint64_def asFloat64_def split: if_splits)

lemma checked_children:
  assumes "checked E s p (VMap m)" and "dynamic s p = None"
  shows "validateChildren E s p (VMap m) = None"
proof (cases "schema_lookup s p")
  case None
  with assms(1) show ?thesis by (auto simp: checked_def validateValue.simps [of E s p])
next
  case (Some e)
  show ?thesis
  proof (cases "leaf_typ e")
    case True
    with assms Some leaf_checks [OF True assms(2) Some, of E "VMap m"] have "checkValue E e (VMap m) = None"
      by (auto simp: checked_def leaf_typ_def)
    from leaf_map_empty [OF True checkValue_type [OF this]] show ?thesis
      by (simp add: validateChildren.simps [of E s p])
  next
    case False
    then consider "se_typ e = ''list''" | "se_typ e = ''container''" | "se_typ e = ''leaf-list''"
      by (auto simp: leaf_typ_def)
    then show ?thesis
    proof cases
      case 3
      with assms(1) Some checkValue_type [of E e "VMap m"] show ?thesis
        by (auto simp: checked_def validateValue.simps [of E s p] type_matches_def isMap_def)
    qed (use assms(1) Some in \<open>auto simp: checked_def validateValue.simps [of E s p] isMap_def split: option.splits\<close>)
  qed
qed

lemma checked_items:
  assumes "checked E s p (VList arr)" and "dynamic s p = None" and "w \<in> set arr"
  shows "checked E s p w"
proof (cases "schema_lookup s p")
  case None
  with assms(1) have "validateChildren E s p (VList arr) = None"
    by (auto simp: checked_def validateValue.simps [of E s p])
  with assms(3) show ?thesis by (simp add: checked_def validateChildren.simps [of E s p "VList arr"])
next
  case (Some e)
  show ?thesis
  proof (cases "leaf_typ e")
    case True
    with assms Some leaf_checks [OF True assms(2) Some, of E "VList arr"]
    have c: "checkValue E e (VList arr) = None" by (auto simp: checked_def leaf_typ_def)
    from leaf_list_nil [OF True checkValue_type [OF c]] assms(3) have w: "w = VNil" "se_typ e = ''empty''"
      by auto
    with c have "checkValue E e w = None"
      by (auto simp: checkValue_def checkType_def type_matches_def isEmptyType_def checkPattern_def
          checkRange_def asFloat64_def asInt64_def asUint64_def split: option.splits if_splits)
    with leaf_checks [OF True assms(2) Some] show ?thesis by (simp add: checked_def)
  next
    case False
    then consider "se_typ e = ''list''" | "se_typ e = ''container''" | "se_typ e = ''leaf-list''"
      by (auto simp: leaf_typ_def)
    then show ?thesis
    proof cases
      case 1
      with assms Some show ?thesis
        by (auto simp: checked_def validateValue.simps [of E s p "VList arr"]
            validateChildren.simps [of E s p "VList arr"])
    next
      case 2
      with assms Some checkValue_type [of E e "VList arr"] show ?thesis
        by (auto simp: checked_def validateValue.simps [of E s p "VList arr"] type_matches_def isMap_def
            split: option.splits)
    next
      case 3
      with assms Some checkValue_type [of E e "VList arr"] show ?thesis
        by (auto simp: checked_def validateValue.simps [of E s p "VList arr"] type_matches_def isSlice_def
            list_all_iff)
    qed
  qed
qed

lemma located_checked:
  assumes "located s rt p v" and "validateValue E s (Path [] []) (VMap rt) = None"
  shows "checked E s p v"
  using assms
proof (induction rule: located.induct)
  case (child p m k w)
  from checked_children [OF child.IH [OF child.prems] child.hyps(2)] child.hyps(3) show ?case
    by (auto simp: checked_def validateChildren.simps [of E s p])
next
  case (item p arr w)
  from checked_items [OF item.IH [OF item.prems] item.hyps(2,3)] show ?case .
qed (simp add: checked_def)

section \<open>Properties\<close>

text \<open>C36: In a tree that validates, every value found at a schema leaf (below no dynamic leaf)
  passes that leaf's own type, pattern and range checks, whatever maps and lists lead to it.\<close>

theorem validate_sound:
  assumes "Validate E n = None" and "n_schema n = Some s"
    and "located (n_schema n) (root_map n) p v"
    and "schema_lookup (n_schema n) p = Some e" and "leaf_typ e" and "dynamic (n_schema n) p = None"
  shows "checkValue E e v = None"
proof -
  from assms(1,2) have "validateValue E (n_schema n) (Path [] []) (VMap (root_map n)) = None"
    by (simp add: Validate_def)
  from located_checked [OF assms(3) this] leaf_checks [OF assms(5,6,4)] assms(4,5) show ?thesis
    by (auto simp: checked_def leaf_typ_def)
qed

abbreviation uptime_lib :: "int \<Rightarrow> golib" where
  "uptime_lib n \<equiv> (float_lib (\<lambda>_. None))\<lparr>uptime := n\<rparr>"

abbreviation mtu_schema :: schema where
  "mtu_schema \<equiv> [(''if:mtu'', \<lparr>se_path = Path ''if'' [Segment ''mtu'' []], se_typ = ''uint32'',
     se_access = ''write'', se_min = None, se_max = None, se_pattern = None, se_valueFrom = []\<rparr>)]"

abbreviation mtu_node :: node where
  "mtu_node \<equiv> \<lparr>n_schema = Some mtu_schema, n_root = Some [(''if'', VMap [(''mtu'', VInt KInt64 1500)])]\<rparr>"

lemma mtu_located: "located (Some mtu_schema) (root_map mtu_node) (Path ''if'' [Segment ''mtu'' []]) (VInt KInt64 1500)"
proof -
  have "located (Some mtu_schema) (root_map mtu_node) (child_path (Path [] []) ''if'') (VMap [(''mtu'', VInt KInt64 1500)])"
    by (rule located.child [OF located.top]) (simp_all add: dynamic_def schema_lookup_def SchemaString_def)
  from located.child [OF this, of "''mtu''" "VInt KInt64 1500"] show ?thesis
    by (simp add: dynamic_def schema_lookup_def SchemaString_def child_path_def path_append_def)
qed

lemmas mtu_eval = schema_lookup_def SchemaString_def child_path_def path_append_def checkValue_def checkType_def
  type_matches_def asUint64_def checkPattern_def checkRange_def

lemma mtu_valid: "Validate (uptime_lib 0) mtu_node = None"
  by (simp add: Validate_def validateValue.simps validateChildren.simps mtu_eval)

theorem validate_sound_witness: "checkValue (uptime_lib 0) (snd (hd mtu_schema)) (VInt KInt64 1500) = None"
  using validate_sound [OF mtu_valid, of mtu_schema "Path ''if'' [Segment ''mtu'' []]" "VInt KInt64 1500" "snd (hd mtu_schema)"]
    mtu_located
  by (simp add: leaf_typ_def dynamic_def schema_lookup_def SchemaString_def)

lemma dynamicD:
  "dynamic s p = Some e \<Longrightarrow> \<exists>byPath. s = Some byPath \<and> map_of byPath (SchemaString p) = Some e"
  by (auto simp: dynamic_def schema_lookup_def split: option.splits if_splits)

lemma known_entry: "map_of byPath (SchemaString p) = Some e \<Longrightarrow> known (Some byPath) p"
  by (auto simp: known_def Let_def)

lemma known_module:
  "map_of byPath (SchemaString (Path md segs)) = Some e \<Longrightarrow> md \<noteq> [] \<Longrightarrow> known (Some byPath) (Path md [])"
  by (force simp: known_def Let_def SchemaString_def IsRoot_def list_ex_iff prefix_def dest!: map_of_SomeD)

lemma getter_clone [simp]: "clone E (getterValue E e) = getterValue E e"
  by (simp add: getterValue_def Let_def)

lemma map_of_eq_Some_mapped:
  "map_of m k = Some w \<Longrightarrow> map_of (map (\<lambda>kv. (fst kv, f kv)) m) k = Some (f (k, w))"
  by (induction m) auto

text \<open>What reads return for a dynamic leaf \<open>k\<close> of a module. Reading the leaf gives the
  getter's value, whatever is stored. Reading the whole tree gives the getter's value at the
  leaf. Reading the module gives what is stored at the leaf: the getters are not applied
  below the path that is read.\<close>

theorem getters_on_read:
  assumes ok: "node_ok n" and rt: "n_root n = Some rt" "map_of rt md = Some (VMap m)" "map_of m k = Some w"
    and dyn: "dynamic (n_schema n) (Path md [Segment k []]) = Some e"
    and above: "dynamic (n_schema n) (Path [] []) = None" "dynamic (n_schema n) (Path md []) = None"
    and md: "md \<noteq> []"
  shows "lookup E n (Path md [Segment k []]) = Some (getterValue E e)
    \<and> (\<exists>m'. map_of (materializeRoot E n) md = Some (VMap m') \<and> map_of m' k = Some (getterValue E e))
    \<and> (\<exists>m'. lookup E n (Path md []) = Some (VMap m') \<and> map_of m' k = Some w)"
proof (intro conjI)
  obtain byPath where s: "n_schema n = Some byPath" "map_of byPath (SchemaString (Path md [Segment k []])) = Some e"
    using dynamicD [OF dyn] by blast
  show "lookup E n (Path md [Segment k []]) = Some (getterValue E e)"
    using s dyn known_entry [OF s(2)] by (simp add: lookup_def IsRoot_def split: option.split)
  have c: "canonical (VMap m)" using ok rt canonical_map_of [of rt md "VMap m"] by (simp add: root_map_def)
  have "lookup E n (Path md []) = Some (VMap m)"
    using s known_module [OF s(2) md] md rt above clone_id [OF c, of E]
    by (simp add: lookup_def IsRoot_def walkGet_def)
  with rt show "\<exists>m'. lookup E n (Path md []) = Some (VMap m') \<and> map_of m' k = Some w" by blast
  have "map_of (materializeRoot E n) md = Some (applyGetters E (n_schema n) (Path md []) (VMap m))"
    using s above(1) clone_map_id [of "root_map n" E] ok rt
    by (simp add: materializeRoot_def applyGetters.simps [of E _ "Path [] []"] root_map_def map_of_map
        child_path_def o_def Let_def map_of_eq_Some_mapped)
  moreover have "applyGetters E (n_schema n) (Path md []) (VMap m) =
      VMap (map (\<lambda>kv. (fst kv, case dynamic (n_schema n) (Path md [Segment (fst kv) []]) of
        Some e \<Rightarrow> getterValue E e
      | None \<Rightarrow> applyGetters E (n_schema n) (Path md [Segment (fst kv) []]) (snd kv))) m)"
    using s(2) above(2) md unfolding s(1)
    by (simp add: applyGetters.simps [of E _ "Path md []"] child_path_def path_append_def Let_def)
  ultimately show "\<exists>m'. map_of (materializeRoot E n) md = Some (VMap m') \<and> map_of m' k = Some (getterValue E e)"
    using rt dyn by (simp add: map_of_eq_Some_mapped)
qed

abbreviation up_schema :: schema where
  "up_schema \<equiv> [(''sys:up'', \<lparr>se_path = Path ''sys'' [Segment ''up'' []], se_typ = ''uint64'',
     se_access = ''read'', se_min = None, se_max = None, se_pattern = None,
     se_valueFrom = ValueFromProcessUptime\<rparr>)]"

abbreviation up_node :: node where
  "up_node \<equiv> \<lparr>n_schema = Some up_schema, n_root = Some [(''sys'', VMap [(''up'', VInt KInt64 0)])]\<rparr>"

theorem getters_on_read_witness:
  "lookup (uptime_lib 7) up_node (Path ''sys'' [Segment ''up'' []]) = Some (VInt KUint64 7)
   \<and> (\<exists>m'. lookup (uptime_lib 7) up_node (Path ''sys'' []) = Some (VMap m') \<and> map_of m' ''up'' = Some (VInt KInt64 0))"
proof -
  have "dynamic (n_schema up_node) (Path ''sys'' [Segment ''up'' []]) = Some (snd (hd up_schema))"
    "dynamic (n_schema up_node) (Path [] []) = None" "dynamic (n_schema up_node) (Path ''sys'' []) = None"
    by (simp_all add: dynamic_def schema_lookup_def SchemaString_def)
  from getters_on_read [OF _ _ _ _ this, of "[(''sys'', VMap [(''up'', VInt KInt64 0)])]"
      "[(''up'', VInt KInt64 0)]" "VInt KInt64 0" "uptime_lib 7"]
  show ?thesis by (simp add: getterValue_def)
qed

lemma fold_put_map: "map_of (fold (\<lambda>kv m. kv_put (fst kv) (snd kv) m) kvs m) = map_of m ++ map_of (rev kvs)"
  by (induction kvs arbitrary: m) auto

lemma map_of_rev_distinct: "distinct (map fst kvs) \<Longrightarrow> map_of (rev kvs) = map_of kvs"
proof (induction kvs)
  case (Cons kv kvs)
  then have "map_of kvs (fst kv) = None" by (simp add: map_of_eq_None_iff)
  with Cons show ?case by (auto simp: map_add_def split: option.splits)
qed simp

lemma fold_put_distinct:
  "distinct (map fst kvs) \<Longrightarrow>
     map_of (fold (\<lambda>kv m. kv_put (fst kv) (snd kv) m) kvs m) = map_of m ++ map_of kvs"
  using map_of_rev_distinct [of kvs] by (simp add: fold_put_map)

text \<open>Key names are distinct in every segment, and the segment below a list entry does not
  name one of the entry's keys.\<close>

fun keys_apart :: "segment list \<Rightarrow> bool" where
  "keys_apart [] = True"
| "keys_apart (seg # segs) =
     (distinct (map k_name (s_keys seg)) \<and> (case segs of [] \<Rightarrow> True | s' # _ \<Rightarrow> s_name s' \<notin> k_name ` set (s_keys seg))
      \<and> keys_apart segs)"

definition same_value :: "val \<Rightarrow> val \<Rightarrow> bool" where
  "same_value v w \<longleftrightarrow> v = w \<or> (\<exists>m m'. v = VMap m \<and> w = VMap m' \<and> map_of m = map_of m')"

lemma graft_segments_shape: "\<exists>w. graft_segments E (seg # segs) v = [(s_name seg, w)]"
  by (cases "s_keys seg = []"; cases "segs = []") (simp_all add: Let_def)

lemma graft_keys:
  assumes "graft_segments E (seg' # segs') v = [(s_name seg', w)]" "distinct (map k_name ks)"
    and "s_name seg' \<notin> k_name ` set ks"
  shows "matchKeys E (fold (\<lambda>kv m. kv_put (fst kv) (snd kv) m) (graft_segments E (seg' # segs') v) (entryWithKeys ks)) ks"
proof -
  have "matchKeys E (kv_put (s_name seg') w (put_keys ks [])) ks = matchKeys E (put_keys ks []) ks"
    using assms(3) by (intro matchKeys_cong) (auto simp: image_iff)
  with matchKeys_put_keys [OF assms(2)] show ?thesis
    by (simp add: assms(1) entryWithKeys_put_keys del: graft_segments.simps)
qed

lemma walk_graft:
  "segs \<noteq> [] \<Longrightarrow> keys_apart segs \<Longrightarrow>
   (s_keys (last segs) \<noteq> [] \<Longrightarrow> \<exists>m. v = VMap m \<and> distinct (map fst m) \<and> matchKeys E m (s_keys (last segs))) \<Longrightarrow>
   \<exists>w. walk_segments E (VMap (graft_segments E segs v)) segs = Some w \<and> same_value v w"
proof (induction segs)
  case (Cons seg segs)
  show ?case
  proof (cases "segs = []")
    case True
    show ?thesis
    proof (cases "s_keys seg = []")
      case False
      with Cons.prems(3) True obtain m where m: "v = VMap m" "distinct (map fst m)" "matchKeys E m (s_keys seg)"
        by auto
      define m' where "m' = fold (\<lambda>kv m. kv_put (fst kv) (snd kv) m) m (entryWithKeys (s_keys seg))"
      have "map_of m' = map_of (entryWithKeys (s_keys seg)) ++ map_of m"
        by (simp add: m'_def fold_put_distinct [OF m(2)])
      moreover have "map_of (entryWithKeys (s_keys seg)) n = None \<or> map_of m n \<noteq> None" for n
        using m(3) map_of_put_keys_other [of n "s_keys seg" "[]"]
        by (auto simp: entryWithKeys_put_keys matchKeys_def list_all_iff split: option.splits)
      ultimately have same: "map_of m' = map_of m" by (fastforce simp: map_add_def split: option.splits)
      then have "matchKeys E m' (s_keys seg)" using m(3) matchKeys_cong [of "s_keys seg" m' m E] by simp
      with False True m(1) same show ?thesis
        by (auto simp: m'_def [symmetric] kv_nil_def Let_def same_value_def)
    qed (simp add: same_value_def True)
  next
    case False
    then obtain seg' segs' where segs: "segs = seg' # segs'" by (cases segs) auto
    obtain w0 where g: "graft_segments E segs v = [(s_name seg', w0)]" 
      using graft_segments_shape unfolding segs by blast
    from Cons.IH False Cons.prems obtain w where
      w: "walk_segments E (VMap (graft_segments E segs v)) segs = Some w" "same_value v w" by auto
    show ?thesis
    proof (cases "s_keys seg = []")
      case True
      with w False show ?thesis by simp
    next
      case keyed: False
      define m' where "m' = fold (\<lambda>kv m. kv_put (fst kv) (snd kv) m) (graft_segments E segs v) (entryWithKeys (s_keys seg))"
      have match: "matchKeys E m' (s_keys seg)"
        using graft_keys [of E seg' segs' v w0] g Cons.prems(2) unfolding m'_def segs by simp
      have "walk_segments E (VMap m') segs = walk_segments E (VMap (graft_segments E segs v)) segs"
        by (simp add: segs m'_def g [unfolded segs] kv_nil_def del: graft_segments.simps)
      with w keyed False match show ?thesis by (simp add: m'_def [symmetric] kv_nil_def)
    qed
  qed
qed simp

lemma walk_keyed_last:
  "walk_segments E cur segs = Some v \<Longrightarrow> segs \<noteq> [] \<Longrightarrow> s_keys (last segs) \<noteq> [] \<Longrightarrow>
     \<exists>m. v = VMap m \<and> matchKeys E m (s_keys (last segs))"
proof (induction segs arbitrary: cur)
  case (Cons seg segs)
  show ?case
  proof (cases "segs = []")
    case True
    with Cons.prems show ?thesis
      by (auto simp: Let_def dest!: listIndex_SomeD split: option.splits)
  next
    case False
    with Cons.prems obtain cur' where "walk_segments E cur' segs = Some v"
      by (auto simp: Let_def split: option.splits if_splits)
    with Cons.IH Cons.prems False show ?thesis by auto
  qed
qed simp

text \<open>Selecting the subtree at a path keeps the selected value: looking the same path up in
  the subtree gives the value the tree has there (for a list entry, a map with the same
  bindings), through any number of nested containers and keyed lists.\<close>

theorem subtree_keeps_value:
  assumes "node_ok n" and "lookup E n p = Some v" and "dynamic (n_schema n) p = None"
    and "p_module p \<noteq> []" and "keys_apart (p_segments p)"
  shows "\<exists>w. walkGet E (Subtree E n p) p = Some w \<and> same_value v w"
proof (cases "p_segments p = []")
  case True
  with assms(2,4) show ?thesis by (simp add: Subtree_def IsRoot_def graft_def walkGet_def same_value_def)
next
  case False
  have "\<exists>m. v = VMap m \<and> distinct (map fst m) \<and> matchKeys E m (s_keys (last (p_segments p)))"
    if "s_keys (last (p_segments p)) \<noteq> []"
  proof -
    from assms(2,3,4) obtain v0 where v0: "walkGet E n p = Some v0" "v = clone E v0"
      by (auto simp: lookup_def IsRoot_def split: option.splits if_splits)
    with walkGet_canonical [OF assms(1) v0(1)] have "walkGet E n p = Some v" "canonical v" by (simp_all add: clone_id)
    then show ?thesis
      using walk_keyed_last [OF _ False that] by (fastforce simp: walkGet_def split: option.splits)
  qed
  with walk_graft [OF False assms(5), of v E] assms False show ?thesis
    by (simp add: Subtree_def IsRoot_def graft_def walkGet_def)
qed

theorem subtree_keeps_value_witness:
  "\<exists>w. walkGet (uptime_lib 0) (Subtree (uptime_lib 0) mtu_node (Path ''if'' [Segment ''mtu'' []])) (Path ''if'' [Segment ''mtu'' []]) = Some w
     \<and> same_value (VInt KInt64 1500) w"
  using subtree_keeps_value [of mtu_node "uptime_lib 0" "Path ''if'' [Segment ''mtu'' []]" "VInt KInt64 1500"]
  by (simp add: lookup_def IsRoot_def known_def walkGet_def dynamic_def schema_lookup_def SchemaString_def)

text \<open>A tree of maps and scalars: no lists and no nil.\<close>

fun record_tree :: "val \<Rightarrow> bool" where
  "record_tree (VMap m) = (distinct (map fst m) \<and> list_all (\<lambda>kv. record_tree (snd kv)) m)"
| "record_tree (VList xs) = False"
| "record_tree (VMaps ms) = False"
| "record_tree (VAny kws) = False"
| "record_tree VNil = False"
| "record_tree v = True"

lemma record_tree_views: "record_tree a \<Longrightarrow> asSlice a = None" "record_tree a \<Longrightarrow> asMap E a = Some m \<longleftrightarrow> a = VMap m"
  by (cases a; simp add: asSlice_def asMap_def)+

lemma equal_nil: "record_tree a \<Longrightarrow> \<not> equal E a VNil" "record_tree a \<Longrightarrow> \<not> equal E VNil a"
  by (subst equal.simps; cases a;
      simp add: asMap_def asSlice_def scalar_equal_def asInt64_def asUint64_def asFloat64_def go_eq_def
        split: option.split)+

lemma record_kv_nil: "record_tree (VMap m) \<Longrightarrow> kv_nil m k = VNil \<or> record_tree (kv_nil m k)"
  by (auto simp: kv_nil_def list_all_iff split: option.split dest: map_of_SomeD)

lemma record_kv_nil_iff: "record_tree (VMap m) \<Longrightarrow> kv_nil m k = VNil \<longleftrightarrow> k \<notin> fst ` set m"
  by (auto simp: kv_nil_def list_all_iff map_of_eq_None_iff split: option.split dest!: map_of_SomeD)
    (metis fst_conv image_eqI record_tree.simps(5) snd_conv)+

lemma record_maps_equal:
  assumes "record_tree (VMap am)" and "record_tree (VMap bm)"
    and "\<And>k. k \<in> set (seen_keys am bm) \<Longrightarrow> equal E (kv_nil am k) (kv_nil bm k)"
  shows "equal E (VMap am) (VMap bm)"
proof -
  have iff: "k \<in> fst ` set am \<longleftrightarrow> k \<in> fst ` set bm" for k
  proof (cases "k \<in> set (seen_keys am bm)")
    case True
    from assms(3) [OF this] equal_nil record_kv_nil [OF assms(1), of k] record_kv_nil [OF assms(2), of k]
      record_kv_nil_iff [OF assms(1), of k] record_kv_nil_iff [OF assms(2), of k]
    show ?thesis by metis
  qed (auto simp: seen_keys_def)
  have "set (map fst am) = set (map fst bm)" using iff by auto
  then have "length am = length bm"
    using assms(1,2) distinct_card [of "map fst am"] distinct_card [of "map fst bm"] by simp
  moreover have "kv_nil am (fst kv) = snd kv" if "kv \<in> set am" for kv
    using that assms(1) by (simp add: kv_nil_def map_of_is_SomeI [of am "fst kv" "snd kv"])
  then have "equal E (snd kv) (kv_nil bm (fst kv))" if "kv \<in> set am" for kv
    using that assms(3) [of "fst kv"] by (simp add: seen_keys_def)
  ultimately show ?thesis by (subst equal.simps) (simp add: list_all_iff)
qed

lemma diffWalk_equal: "equal E a b \<Longrightarrow> diffWalk E p a b = ([], p)"
  by (subst diffWalk.simps) simp

lemma diff_record_tree:
  "(a = VNil \<or> record_tree a) \<Longrightarrow> (b = VNil \<or> record_tree b) \<Longrightarrow>
     fst (diffWalk E p a b) = [] \<longleftrightarrow> equal E a b"
proof (induction "size a + size b" arbitrary: a b p rule: less_induct)
  case less
  show ?case
  proof (cases "equal E a b")
    case True
    then show ?thesis by (simp add: diffWalk_equal)
  next
    case neq: False
    show ?thesis
    proof (cases "\<exists>am bm. a = VMap am \<and> b = VMap bm")
      case True
      then obtain am bm where ab: "a = VMap am" "b = VMap bm" by blast
      with less.prems have rec: "record_tree (VMap am)" "record_tree (VMap bm)" by auto
      then obtain k where k: "k \<in> set (seen_keys am bm)" "\<not> equal E (kv_nil am k) (kv_nil bm k)"
        using record_maps_equal neq ab by blast
      have "size (kv_nil am k) + size (kv_nil bm k) < size a + size b"
        using kv_nil_size [of E a am k] kv_nil_size [of E b bm k] ab by (simp add: add_strict_mono)
      from less.hyps [OF this record_kv_nil [OF rec(1)] record_kv_nil [OF rec(2)]] k
      have "fst (diffWalk E (child_path p k) (kv_nil am k) (kv_nil bm k)) \<noteq> []" by simp
      with k(1) neq ab show ?thesis by (subst diffWalk.simps) auto
    next
      case False
      then have "asSlice a = None" "\<not> (asMap E a \<noteq> None \<and> asMap E b \<noteq> None)"
        using less.prems by (cases a; cases b; auto simp: record_tree_views asMap_def)+
      with neq show ?thesis by (subst diffWalk.simps) (auto split: option.splits)
    qed
  qed
qed

text \<open>The difference of two equal trees is empty, and on trees made of containers and scalar
  leaves it is empty only then: a change to such a tree is always reported.\<close>

theorem diff_empty_iff:
  "(node_Equal E n other \<longrightarrow> Diff E n other = [])
   \<and> (record_tree (VMap (root_map n)) \<and> record_tree (VMap (root_map other)) \<longrightarrow>
      (Diff E n other = [] \<longleftrightarrow> node_Equal E n other))"
  using diff_record_tree [of "VMap (root_map n)" "VMap (root_map other)" E "Path [] []"]
  by (auto simp: Diff_def node_Equal_def diffWalk_equal)

theorem diff_empty_iff_witness:
  "Diff (uptime_lib 0) mtu_node (mtu_node\<lparr>n_root := Some [(''if'', VMap [(''mtu'', VInt KInt64 9000)])]\<rparr>) \<noteq> []"
  using diff_empty_iff [of "uptime_lib 0" mtu_node "mtu_node\<lparr>n_root := Some [(''if'', VMap [(''mtu'', VInt KInt64 9000)])]\<rparr>"]
  by (simp add: node_Equal_def equal.simps kv_nil_def asMap_def asSlice_def scalar_equal_def asInt64_def)

text \<open>A reordered list differs, and the difference reports nothing: list items are matched by
  their keys or printed values, so a commit that only reorders a list announces no change.\<close>

theorem diff_misses_reordering:
  "let n = \<lparr>n_schema = None, n_root = Some [(''acl'', VList [VInt KInt64 1, VInt KInt64 2])]\<rparr>;
       other = \<lparr>n_schema = None, n_root = Some [(''acl'', VList [VInt KInt64 2, VInt KInt64 1])]\<rparr>
   in \<not> node_Equal E n other \<and> Diff E n other = []"
proof -
  have eq: "equal E (VInt KInt64 i) (VInt KInt64 j) \<longleftrightarrow> i = j" for i j
    by (subst equal.simps) (simp add: asMap_def asSlice_def scalar_equal_def asInt64_def)
  have neq: "\<not> equal E (VList [VInt KInt64 1, VInt KInt64 2]) (VList [VInt KInt64 2, VInt KInt64 1])"
    by (subst equal.simps) (simp add: eq)
  then have top: "\<not> equal E (VMap [(''acl'', VList [VInt KInt64 1, VInt KInt64 2])])
      (VMap [(''acl'', VList [VInt KInt64 2, VInt KInt64 1])])"
    by (subst equal.simps) (simp add: kv_nil_def)
  have same: "diffWalk E p (VInt KInt64 i) (VInt KInt64 i) = ([], p)" for p i
    by (simp add: diffWalk_equal eq)
  have "diffWalk E (Path ''acl'' []) (VList [VInt KInt64 1, VInt KInt64 2]) (VList [VInt KInt64 2, VInt KInt64 1])
      = ([], Path ''acl'' [])"
    by (subst diffWalk.simps)
      (simp add: neq diff_index_def add_item_def Let_def asMap_def stringify_def path_string_def set_last_keys_def
        itoa_def same dec_digits.simps digit_char_def)
  then have "fst (diffWalk E (Path [] []) (VMap [(''acl'', VList [VInt KInt64 1, VInt KInt64 2])])
      (VMap [(''acl'', VList [VInt KInt64 2, VInt KInt64 1])])) = []"
    by (subst diffWalk.simps) (simp add: top seen_keys_def child_path_def kv_nil_def)
  with top show ?thesis by (simp add: node_Equal_def Diff_def)
qed

end
