(* ===== verification/Yang_Edit.thy ===== *)
theory Yang_Edit
  imports Yang_Node
begin

text \<open>
  Package \<open>yangtree\<close>, \<open>edit.go\<close>: merge, replace and delete at a path. A cursor of the code is a
  pair of closures over the tree: here it is the value the cursor points at and the root map
  that results from storing a value there. An edit works on a copy of the tree and is
  dropped on an error, so an operation returns either the error or the new root map.
\<close>

section \<open>Merging\<close>

lemma size_kv_put: "size_list (size_prod (\<lambda>_. 0) size) (kv_put k v m)
    \<le> size_list (size_prod (\<lambda>_. 0) size) (m :: kvs) + size v + 2"
  by (induction m) auto

lemma size_fold_put:
  "size_list (size_prod (\<lambda>_. 0) size) (fold (\<lambda>kw m. kv_put (f (fst kw)) (snd kw) m) (kws :: (val \<times> val) list) m)
    \<le> size_list (size_prod (\<lambda>_. 0) size) m + size_list (size_prod size size) kws"
proof (induction kws arbitrary: m)
  case (Cons kw kws)
  show ?case
    using Cons.IH [of "kv_put (f (fst kw)) (snd kw) m"] size_kv_put [of "f (fst kw)" "snd kw" m]
    by (cases kw) simp
qed simp

lemma asMap_size_le: "asMap E v = Some m \<Longrightarrow> size (VMap m) \<le> size v"
  using size_fold_put [of "sprint E" _ "[]"] by (auto simp: asMap_def split: val.splits)

text \<open>A bound on the values of a list, for the termination of the merge.\<close>

definition max_size :: "val set \<Rightarrow> nat" where
  "max_size vs = Max (insert 0 (size ` vs))"

lemma max_size_member: "finite vs \<Longrightarrow> v \<in> vs \<Longrightarrow> size v \<le> max_size vs"
  by (simp add: max_size_def)

lemma max_size_less: "finite vs \<Longrightarrow> 0 < n \<Longrightarrow> (\<And>v. v \<in> vs \<Longrightarrow> size v < n) \<Longrightarrow> max_size vs < n"
  by (simp add: max_size_def)

lemma asMap_max: "asMap E v = Some m \<Longrightarrow> max_size (snd ` set m) < size v"
proof (rule max_size_less)
  assume a: "asMap E v = Some m"
  then show "0 < size v" by (auto simp: asMap_def split: val.splits)
  show "size w < size v" if "w \<in> snd ` set m" for w
    using that asMap_size [OF a] by auto
qed simp

lemma asSlice_max: "asSlice v = Some xs \<Longrightarrow> max_size (set xs) < size v"
proof (rule max_size_less)
  assume a: "asSlice v = Some xs"
  then show "0 < size v" by (auto simp: asSlice_def split: val.splits)
qed (auto dest: asSlice_size)

lemma merge_decreases:
  "Some m = asMap E v \<Longrightarrow> Suc (2 * max_size (snd ` set m)) < 2 * size v"
  "Some xs = asSlice v \<Longrightarrow> Suc (2 * max_size (set xs)) < 2 * size v"
  "asSlice v = Some xs \<Longrightarrow> Suc (2 * max_size (set xs)) < 2 * size v"
  using asMap_max [of E v m] asSlice_max [of v xs] by simp_all

function mergeMaps :: "golib \<Rightarrow> kvs \<Rightarrow> kvs \<Rightarrow> kvs"
  and mergeValues :: "golib \<Rightarrow> val \<Rightarrow> val \<Rightarrow> val"
  and mergeLists :: "golib \<Rightarrow> val list \<Rightarrow> val list \<Rightarrow> val list" where
  "mergeMaps E dst src =
     fold (\<lambda>kv d. kv_put (fst kv) (case map_of d (fst kv) of
         Some dv \<Rightarrow> mergeValues E dv (snd kv)
       | None \<Rightarrow> clone E (snd kv)) d) src dst"
| "mergeValues E dst src =
    (if src = VNil then dst
     else case (asMap E dst, asMap E src) of
       (Some dm, Some sm) \<Rightarrow> VMap (mergeMaps E dm sm)
     | _ \<Rightarrow>
       (case asSlice src of
          Some ss \<Rightarrow> VList (mergeLists E (case asSlice dst of Some ds \<Rightarrow> ds | None \<Rightarrow> []) ss)
        | None \<Rightarrow>
          (case asMap E src of
             Some sm \<Rightarrow> clone E (VMap sm)
           | None \<Rightarrow> clone E src)))"
| "mergeLists E dst src =
     fold (\<lambda>item out. case asMap E item of
         None \<Rightarrow> out @ [clone E item]
       | Some m \<Rightarrow>
           (let ks = keysForItem E m in
            if ks = [] then out @ [clone E item]
            else case listIndex E out ks of
              None \<Rightarrow> out @ [clone E (VMap m)]
            | Some (i, existing) \<Rightarrow> out[i := mergeValues E (VMap existing) (VMap m)])) src dst"
  by pat_completeness auto
termination
proof (relation "measure (\<lambda>x. case x of
      Inl (E, dst, src) \<Rightarrow> 2 * max_size (snd ` set src) + 1
    | Inr (Inl (E, dst, src)) \<Rightarrow> 2 * size src
    | Inr (Inr (E, dst, src)) \<Rightarrow> 2 * max_size (set src) + 1)", goal_cases)
  case (2 E dst src kv d)
  then show ?case using max_size_member [of "snd ` set src" "snd kv"] by simp
next
  case (6 E dst src)
  then show ?case using max_size_member [of "set src"] asMap_size_le [of E] by fastforce
qed (auto intro: merge_decreases)

declare mergeMaps.simps [simp del] mergeValues.simps [simp del] mergeLists.simps [simp del]

section \<open>Cursors\<close>

record cursor =
  cget :: val
  cset :: "val \<Rightarrow> kvs"

text \<open>
  Writing to the map that \<open>asMap\<close> gives for a value changes the value itself, except for a
  \<open>map[any]any\<close>, of which \<open>asMap\<close> makes a copy.
\<close>

definition write_back :: "val \<Rightarrow> kvs \<Rightarrow> val" where
  "write_back parent m = (case parent of VAny _ \<Rightarrow> parent | _ \<Rightarrow> VMap m)"

definition moduleCursor :: "kvs \<Rightarrow> string \<Rightarrow> bool \<Rightarrow> cursor" where
  "moduleCursor rt md create =
    (let rt' = (if map_of rt md = None \<and> create then kv_put md (VMap []) rt else rt)
     in \<lparr>cget = kv_nil rt' md, cset = (\<lambda>v. kv_put md v rt')\<rparr>)"

abbreviation no_path :: derr where
  "no_path \<equiv> NotFound ''path does not exist''"

definition descend :: "golib \<Rightarrow> cursor \<Rightarrow> segment \<Rightarrow> bool \<Rightarrow> derr + cursor" where
  "descend E cur seg create =
    (if asMap E (cget cur) = None \<and> \<not> create then Inl no_path
     else
       (let m = (case asMap E (cget cur) of Some m \<Rightarrow> m | None \<Rightarrow> []);
            up = (\<lambda>m'. cset cur (write_back (cget cur) m'))
        in
        if s_keys seg = [] then
          (if map_of m (s_name seg) = None \<and> \<not> create then Inl no_path
           else
             (let m1 = (if map_of m (s_name seg) = None then kv_put (s_name seg) (VMap []) m else m)
              in Inr \<lparr>cget = kv_nil m1 (s_name seg), cset = (\<lambda>v. up (kv_put (s_name seg) v m1))\<rparr>))
        else if asSlice (kv_nil m (s_name seg)) = None \<and> \<not> create then Inl no_path
        else
          (let arr = (case asSlice (kv_nil m (s_name seg)) of Some arr \<Rightarrow> arr | None \<Rightarrow> []) in
           case listIndex E arr (s_keys seg) of
             None \<Rightarrow>
               if \<not> create then Inl no_path
               else
                 (let arr1 = arr @ [VMap (entryWithKeys (s_keys seg))] in
                  Inr \<lparr>cget = VMap (entryWithKeys (s_keys seg)),
                       cset = (\<lambda>v. up (kv_put (s_name seg) (VList (arr1[length arr := v])) m))\<rparr>)
           | Some (i, _) \<Rightarrow>
               Inr \<lparr>cget = arr ! i,
                    cset = (\<lambda>v. up (kv_put (s_name seg) (VList (arr[i := v])) m))\<rparr>)))"

fun descend_all :: "golib \<Rightarrow> cursor \<Rightarrow> segment list \<Rightarrow> derr + cursor" where
  "descend_all E cur [] = Inr cur"
| "descend_all E cur (seg # segs) = (case descend E cur seg True of
     Inl err \<Rightarrow> Inl err | Inr cur' \<Rightarrow> descend_all E cur' segs)"

section \<open>Writing\<close>

definition isScalarLeaf :: "schema option \<Rightarrow> path \<Rightarrow> bool" where
  "isScalarLeaf s p = (case schema_lookup s p of
     None \<Rightarrow> False
   | Some e \<Rightarrow> \<not> (se_typ e = ''list'' \<or> se_typ e = ''container'' \<or> se_typ e = ''leaf-list''))"

definition checkWritten :: "golib \<Rightarrow> schema option \<Rightarrow> path \<Rightarrow> val \<Rightarrow> derr option" where
  "checkWritten E s p v =
    (if s = None then None
     else case schema_lookup s p of
       Some e \<Rightarrow>
         if se_valueFrom e \<noteq> [] then Some (NotWritable ''leaf is not writable'')
         else (case checkValue E e v of
                 Some err \<Rightarrow> Some err
               | None \<Rightarrow> validateValue E s p v)
     | None \<Rightarrow> validateValue E s p v)"

definition written :: "golib \<Rightarrow> bool \<Rightarrow> val \<Rightarrow> val \<Rightarrow> val" where
  "written E merge old v = (if merge then mergeValues E old v else clone E v)"

definition applyLast :: "golib \<Rightarrow> schema option \<Rightarrow> cursor \<Rightarrow> path \<Rightarrow> val \<Rightarrow> bool \<Rightarrow> derr + kvs" where
  "applyLast E s parent p v merge =
    (let seg = last (p_segments p) in
     if s_keys seg \<noteq> [] then
       (case descend E parent seg True of
          Inl err \<Rightarrow> Inl err
        | Inr entryCur \<Rightarrow>
            (let nxt = written E merge (cget entryCur) v in
             case asMap E nxt of
               None \<Rightarrow>
                 if \<not> isScalarLeaf s p then Inl (ValidationFailed ''list entry requires a container'' [])
                 else (case checkWritten E s p nxt of Some err \<Rightarrow> Inl err | None \<Rightarrow> Inr (cset entryCur nxt))
             | Some m \<Rightarrow>
                 (let nxt' = VMap (put_keys (s_keys seg) m) in
                  case checkWritten E s p nxt' of Some err \<Rightarrow> Inl err | None \<Rightarrow> Inr (cset entryCur nxt'))))
     else
       (let m = (case asMap E (cget parent) of Some m \<Rightarrow> m | None \<Rightarrow> []);
            nxt = written E merge (kv_nil m (s_name seg)) v
        in case checkWritten E s p nxt of
             Some err \<Rightarrow> Inl err
           | None \<Rightarrow> Inr (cset parent (write_back (cget parent) (kv_put (s_name seg) nxt m)))))"

definition put :: "golib \<Rightarrow> schema option \<Rightarrow> kvs \<Rightarrow> path \<Rightarrow> val \<Rightarrow> bool \<Rightarrow> derr + kvs" where
  "put E s rt p v merge =
    (if IsRoot p then
       (case asMap E v of
          None \<Rightarrow> Inl (ValidationFailed ''root write requires a container'' [])
        | Some m \<Rightarrow>
            (let rt' = (if merge then mergeMaps E rt m else clone_map E m) in
             case checkWritten E s p (VMap rt') of Some err \<Rightarrow> Inl err | None \<Rightarrow> Inr rt'))
     else
       (let cur = moduleCursor rt (p_module p) True in
        if p_segments p = [] then
          (let nxt = written E merge (cget cur) v in
           case checkWritten E s p nxt of Some err \<Rightarrow> Inl err | None \<Rightarrow> Inr (cset cur nxt))
        else
          (case descend_all E cur (butlast (p_segments p)) of
             Inl err \<Rightarrow> Inl err
           | Inr parent \<Rightarrow> applyLast E s parent p v merge)))"

section \<open>Deleting\<close>

fun descend_existing :: "golib \<Rightarrow> cursor \<Rightarrow> segment list \<Rightarrow> derr + cursor" where
  "descend_existing E cur [] = Inr cur"
| "descend_existing E cur (seg # segs) = (case descend E cur seg False of
     Inl err \<Rightarrow> Inl err
   | Inr cur' \<Rightarrow> if cget cur' = VNil then Inl no_path else descend_existing E cur' segs)"

definition deleteAt :: "golib \<Rightarrow> kvs \<Rightarrow> path \<Rightarrow> derr + kvs" where
  "deleteAt E rt p =
    (if IsRoot p then Inr []
     else if p_segments p = [] then
       (if map_of rt (p_module p) = None then Inl no_path else Inr (kv_del (p_module p) rt))
     else
       (let cur = moduleCursor rt (p_module p) False in
        if cget cur = VNil then Inl no_path
        else case descend_existing E cur (butlast (p_segments p)) of
          Inl err \<Rightarrow> Inl err
        | Inr parent \<Rightarrow>
            (case asMap E (cget parent) of
               None \<Rightarrow> Inl no_path
             | Some m \<Rightarrow>
                 (let seg = last (p_segments p);
                      up = (\<lambda>m'. cset parent (write_back (cget parent) m'))
                  in
                  if s_keys seg \<noteq> [] then
                    (case asSlice (kv_nil m (s_name seg)) of
                       None \<Rightarrow> Inl no_path
                     | Some arr \<Rightarrow>
                         (case listIndex E arr (s_keys seg) of
                            None \<Rightarrow> Inl no_path
                          | Some (i, _) \<Rightarrow>
                              Inr (up (kv_put (s_name seg) (VList (take i arr @ drop (Suc i) arr)) m))))
                  else if map_of m (s_name seg) = None then Inl no_path
                  else Inr (up (kv_del (s_name seg) m))))))"

section \<open>Operations\<close>

abbreviation OpMerge :: string where "OpMerge \<equiv> ''merge''"
abbreviation OpReplace :: string where "OpReplace \<equiv> ''replace''"
abbreviation OpDelete :: string where "OpDelete \<equiv> ''delete''"

text \<open>The value of an edit is a dynamic value or another tree.\<close>

datatype edit_value = EVal val | ENode node

definition edit_val :: "golib \<Rightarrow> path \<Rightarrow> edit_value \<Rightarrow> val" where
  "edit_val E p v = (case v of
     EVal w \<Rightarrow> w
   | ENode vn \<Rightarrow>
       if IsRoot p then VMap (node_Map E vn)
       else (case lookup E vn p of Some got \<Rightarrow> got | None \<Rightarrow> VMap (node_Map E vn)))"

definition apply_op :: "golib \<Rightarrow> node \<Rightarrow> string \<Rightarrow> path \<Rightarrow> edit_value \<Rightarrow> derr + node" where
  "apply_op E n oper p v =
    (let w = edit_val E p v; s = n_schema n in
     if s \<noteq> None \<and> \<not> known s p then Inl (unknownPath p)
     else if oper \<noteq> OpDelete \<and> s \<noteq> None \<and> readOnly s p then Inl (NotWritable ''leaf is not writable'')
     else
       (let rt = root_map (node_Clone E n);
            res = (if oper = OpMerge \<or> oper = [] then put E s rt p w True
                   else if oper = OpReplace then put E s rt p w False
                   else if oper = OpDelete then deleteAt E rt p
                   else Inl (ValidationFailed ''unsupported operation'' []))
        in case res of Inl err \<Rightarrow> Inl err | Inr rt' \<Rightarrow> Inr (n\<lparr>n_root := Some rt'\<rparr>)))"

definition Apply :: "golib \<Rightarrow> node option \<Rightarrow> string \<Rightarrow> string \<Rightarrow> edit_value \<Rightarrow> derr + node" where
  "Apply E n oper pth v = (case n of
     None \<Rightarrow> Inl (ValidationFailed ''nil node'' [])
   | Some n \<Rightarrow> (case ParsePath E pth of Inl err \<Rightarrow> Inl err | Inr p \<Rightarrow> apply_op E n oper p v))"

section \<open>What a cursor promises\<close>

text \<open>A value that can be stored at a list entry with the given keys and found there again.\<close>

definition fits :: "golib \<Rightarrow> key list \<Rightarrow> val \<Rightarrow> bool" where
  "fits E ks v \<longleftrightarrow> ks = [] \<or> (\<exists>m. v = VMap m \<and> matchKeys E m ks)"

text \<open>
  A cursor into the module \<open>md\<close> of the root \<open>rt\<close>, at a place that \<open>rd\<close> reads: what is stored
  through it is read back, the tree stays canonical, and no other module changes.
\<close>

definition cursor_ok :: "golib \<Rightarrow> string \<Rightarrow> kvs \<Rightarrow> (val \<Rightarrow> val option) \<Rightarrow> key list \<Rightarrow> cursor \<Rightarrow> bool" where
  "cursor_ok E md rt rd ks cur \<longleftrightarrow>
     canonical (cget cur)
     \<and> (ks \<noteq> [] \<longrightarrow> fits E ks (cget cur))
     \<and> (\<forall>v. canonical v \<longrightarrow> canonical (VMap (cset cur v)))
     \<and> (\<forall>v. fits E ks v \<longrightarrow> (\<exists>x. map_of (cset cur v) md = Some x \<and> rd x = Some v))
     \<and> (\<forall>v md'. md' \<noteq> md \<longrightarrow> map_of (cset cur v) md' = map_of rt md')"

lemma canonical_empty [simp]: "canonical (VMap [])"
  by simp

lemma moduleCursor_ok:
  assumes "canonical (VMap rt)"
  shows "cursor_ok E md rt Some [] (moduleCursor rt md c)"
  using assms canonical_kv_put [OF canonical_kv_put [OF assms canonical_empty, of md]]
    canonical_kv_put [OF assms] canonical_kv_nil [OF assms]
    canonical_kv_nil [OF canonical_kv_put [OF assms canonical_empty, of md]]
  by (auto simp: cursor_ok_def moduleCursor_def Let_def fits_def simp del: canonical.simps)

lemma walk_segments_append:
  "walk_segments E cur (xs @ ys) = Option.bind (walk_segments E cur xs) (\<lambda>x. walk_segments E x ys)"
  by (induction xs arbitrary: cur) (auto simp: Let_def split: option.split)

abbreviation cur_map :: "golib \<Rightarrow> cursor \<Rightarrow> kvs" where
  "cur_map E cur \<equiv> (case asMap E (cget cur) of Some m \<Rightarrow> m | None \<Rightarrow> [])"

lemma cur_map_canonical: "canonical (cget cur) \<Longrightarrow> canonical (VMap (cur_map E cur))"
  using canonical_asMap [of "cget cur" E] by (auto simp del: canonical.simps split: option.split)

lemma write_back_canonical: "canonical v \<Longrightarrow> write_back v m = VMap m"
  by (cases v) (auto simp: write_back_def)

lemma fits_put:
  assumes "fits E ks (VMap m)" and "n \<notin> k_name ` set ks"
  shows "fits E ks (VMap (kv_put n v m))" and "fits E ks (VMap (kv_del n m))"
proof -
  have "matchKeys E (kv_put n v m) ks = matchKeys E m ks" "matchKeys E (kv_del n m) ks = matchKeys E m ks"
    using assms(2) by (auto intro!: matchKeys_cong simp: image_iff)
  with assms(1) show "fits E ks (VMap (kv_put n v m))" "fits E ks (VMap (kv_del n m))"
    by (auto simp: fits_def)
qed

lemma cursor_fits:
  "cursor_ok E md rt rd ks cur \<Longrightarrow> fits E ks (VMap (cur_map E cur))"
  by (auto simp: cursor_ok_def fits_def)

text \<open>Replacing the map under a cursor, in one binding.\<close>

lemma cursor_up:
  assumes "cursor_ok E md rt rd ks cur" and "fits E ks (VMap m)"
  shows "\<exists>x. map_of (cset cur (write_back (cget cur) m)) md = Some x \<and> rd x = Some (VMap m)"
    and "canonical (VMap m) \<Longrightarrow> canonical (VMap (cset cur (write_back (cget cur) m)))"
    and "md' \<noteq> md \<Longrightarrow> map_of (cset cur (write_back (cget cur) m)) md' = map_of rt md'"
  using assms by (auto simp: cursor_ok_def write_back_canonical simp del: canonical.simps)

lemma descend_keyless:
  assumes ok: "cursor_ok E md rt rd ks cur" and d: "descend E cur seg c = Inr cur'"
    and seg: "s_keys seg = []" "s_name seg \<notin> k_name ` set ks"
  shows "cursor_ok E md rt (\<lambda>x. Option.bind (rd x) (\<lambda>y. walk_segments E y [seg])) [] cur'"
proof -
  define m1 where "m1 = (if map_of (cur_map E cur) (s_name seg) = None
    then kv_put (s_name seg) (VMap []) (cur_map E cur) else cur_map E cur)"
  have cur': "cur' = \<lparr>cget = kv_nil m1 (s_name seg),
      cset = (\<lambda>v. cset cur (write_back (cget cur) (kv_put (s_name seg) v m1)))\<rparr>"
    using d seg(1) by (auto simp: descend_def Let_def m1_def split: if_splits)
  have c: "canonical (VMap (cur_map E cur))"
    using ok cur_map_canonical by (auto simp: cursor_ok_def simp del: canonical.simps)
  have m1: "canonical (VMap m1)" "fits E ks (VMap m1)"
    using canonical_kv_put [OF c canonical_empty] c cursor_fits [OF ok] fits_put(1) [OF cursor_fits [OF ok] seg(2)]
    by (auto simp: m1_def simp del: canonical.simps)
  note up = cursor_up [OF ok fits_put(1) [OF m1(2) seg(2)]]
  show ?thesis
    using up(1) up(2) [OF canonical_kv_put [OF m1(1)]] up(3) canonical_kv_nil [OF m1(1)] seg(1)
    by (fastforce simp: cursor_ok_def cur' simp del: canonical.simps)
qed

lemma descend_keyed:
  assumes ok: "cursor_ok E md rt rd ks cur" and d: "descend E cur seg c = Inr cur'"
    and seg: "s_keys seg \<noteq> []" "s_name seg \<notin> k_name ` set ks" "distinct (map k_name (s_keys seg))"
  shows "cursor_ok E md rt (\<lambda>x. Option.bind (rd x) (\<lambda>y. walk_segments E y [seg])) (s_keys seg) cur'"
proof -
  define m where "m = cur_map E cur"
  define arr where "arr = (case asSlice (kv_nil m (s_name seg)) of Some arr \<Rightarrow> arr | None \<Rightarrow> [])"
  have m: "canonical (VMap m)" "fits E ks (VMap m)"
    using ok cur_map_canonical cursor_fits [OF ok] by (auto simp: cursor_ok_def m_def simp del: canonical.simps)
  have arr: "list_all canonical arr"
    using canonical_kv_nil [OF m(1), of "s_name seg"] asSlice_canonical
    by (auto simp: arr_def split: option.split)
  obtain i arr1 where cur': "cur' = \<lparr>cget = arr1 ! i,
      cset = (\<lambda>v. cset cur (write_back (cget cur) (kv_put (s_name seg) (VList (arr1[i := v])) m)))\<rparr>"
    and i: "list_all canonical arr1" "i < length arr1" "fits E (s_keys seg) (arr1 ! i)"
      "\<And>v m'. v = VMap m' \<Longrightarrow> matchKeys E m' (s_keys seg) \<Longrightarrow> listIndex E (arr1[i := v]) (s_keys seg) = Some (i, m')"
  proof (cases "listIndex E arr (s_keys seg)")
    case None
    let ?new = "VMap (entryWithKeys (s_keys seg))"
    have "cur' = \<lparr>cget = (arr @ [?new]) ! length arr, cset = (\<lambda>v. cset cur (write_back (cget cur)
        (kv_put (s_name seg) (VList ((arr @ [?new])[length arr := v])) m)))\<rparr>"
      using d seg(1) None by (auto simp: descend_def Let_def m_def [symmetric] arr_def [symmetric] split: if_splits)
    moreover have "list_all canonical (arr @ [?new])"
      using arr canonical_entryWithKeys by (simp del: canonical.simps)
    moreover have "fits E (s_keys seg) ((arr @ [?new]) ! length arr)"
      using matchKeys_put_keys [OF seg(3)] by (auto simp: fits_def entryWithKeys_put_keys)
    moreover have "listIndex E ((arr @ [?new])[length arr := v]) (s_keys seg) = Some (length arr, m')"
      if "v = VMap m'" "matchKeys E m' (s_keys seg)" for v m'
      using that listIndex_snoc [OF None, of v m'] by simp
    ultimately show ?thesis using that [of "arr @ [?new]" "length arr"] by simp
  next
    case (Some ie)
    then obtain i e where ie: "listIndex E arr (s_keys seg) = Some (i, e)" by (cases ie) simp
    from ie d seg(1) have "cur' = \<lparr>cget = arr ! i, cset = (\<lambda>v. cset cur (write_back (cget cur)
        (kv_put (s_name seg) (VList (arr[i := v])) m)))\<rparr>"
      by (auto simp: descend_def Let_def m_def [symmetric] arr_def [symmetric] split: if_splits)
    moreover have "listIndex E (arr[i := v]) (s_keys seg) = Some (i, m')"
      if "v = VMap m'" "matchKeys E m' (s_keys seg)" for v m'
      using that listIndex_update [OF ie, of v m'] by simp
    ultimately show ?thesis
      using that [of arr i] arr listIndex_SomeD [OF ie] listIndex_canonical [OF arr ie] by (auto simp: fits_def)
  qed
  note up = cursor_up [OF ok fits_put(1) [OF m(2) seg(2)]]
  have can: "canonical (VMap (kv_put (s_name seg) (VList (arr1[i := v])) m))" if "canonical v" for v
    using canonical_kv_put [OF m(1), of "VList (arr1[i := v])"] i(1) that set_update_subset_insert [of arr1 i v]
    by (auto simp: list_all_iff simp del: canonical.simps(1))
  have "canonical (arr1 ! i)" using i(1,2) by (simp add: list_all_length)
  moreover have "\<exists>x. map_of (cset cur' v) md = Some x \<and> Option.bind (rd x) (\<lambda>y. walk_segments E y [seg]) = Some v"
    if "fits E (s_keys seg) v" for v
    using that up(1) [of "VList (arr1[i := v])"] i(4) [of v] seg(1) by (auto simp: cur' fits_def kv_nil_def)
  ultimately show ?thesis
    using up(2,3) can i(3) by (auto simp: cursor_ok_def cur' simp del: canonical.simps)
qed

lemmas descend_ok = descend_keyless descend_keyed

text \<open>The names of a path keep apart from the keys of the segment above it.\<close>

definition below :: "key list \<Rightarrow> segment list \<Rightarrow> bool" where
  "below ks segs \<longleftrightarrow> keys_apart segs \<and> (case segs of [] \<Rightarrow> True | seg # _ \<Rightarrow> s_name seg \<notin> k_name ` set ks)"

lemma below_Cons: "below ks (seg # segs) \<Longrightarrow>
    s_name seg \<notin> k_name ` set ks \<and> distinct (map k_name (s_keys seg)) \<and> below (s_keys seg) segs"
  by (auto simp: below_def split: list.splits)

lemma descend_step:
  assumes "cursor_ok E md rt rd ks cur" and "descend E cur seg c = Inr cur'" and "below ks (seg # segs)"
  shows "cursor_ok E md rt (\<lambda>x. Option.bind (rd x) (\<lambda>y. walk_segments E y [seg])) (s_keys seg) cur'"
  using descend_ok [OF assms(1,2)] below_Cons [OF assms(3)] by (cases "s_keys seg = []") auto

lemma bind_walk: "Option.bind (walk_segments E y [seg]) (\<lambda>y. walk_segments E y segs) = walk_segments E y (seg # segs)"
  using walk_segments_append [of E y "[seg]" segs] by simp

lemma descend_all_ok:
  "cursor_ok E md rt rd ks cur \<Longrightarrow> descend_all E cur segs = Inr cur' \<Longrightarrow> below ks (segs @ [seg]) \<Longrightarrow>
     \<exists>ks'. cursor_ok E md rt (\<lambda>x. Option.bind (rd x) (\<lambda>y. walk_segments E y segs)) ks' cur' \<and> below ks' [seg]"
proof (induction segs arbitrary: rd ks cur)
  case (Cons s segs)
  then obtain cur1 where cur1: "descend E cur s True = Inr cur1" "descend_all E cur1 segs = Inr cur'"
    by (auto split: sum.splits)
  from Cons.prems(3) have b: "below ks (s # segs @ [seg])" by simp
  from Cons.IH [OF descend_step [OF Cons.prems(1) cur1(1) b] cur1(2)] below_Cons [OF b] show ?case
    by (simp add: bind_walk del: walk_segments.simps)
qed auto

lemma descend_existing_ok:
  "cursor_ok E md rt rd ks cur \<Longrightarrow> descend_existing E cur segs = Inr cur' \<Longrightarrow> below ks (segs @ [seg]) \<Longrightarrow>
     \<exists>ks'. cursor_ok E md rt (\<lambda>x. Option.bind (rd x) (\<lambda>y. walk_segments E y segs)) ks' cur' \<and> below ks' [seg]"
proof (induction segs arbitrary: rd ks cur)
  case (Cons s segs)
  then obtain cur1 where cur1: "descend E cur s False = Inr cur1" "descend_existing E cur1 segs = Inr cur'"
    by (auto split: sum.splits if_splits)
  from Cons.prems(3) have b: "below ks (s # segs @ [seg])" by simp
  from Cons.IH [OF descend_step [OF Cons.prems(1) cur1(1) b] cur1(2)] below_Cons [OF b] show ?case
    by (simp add: bind_walk del: walk_segments.simps)
qed auto

section \<open>Merging keeps trees canonical\<close>

lemma canonical_VList_iff: "canonical (VList xs) \<longleftrightarrow> (\<forall>x \<in> set xs. canonical x)"
  by (simp add: list_all_iff)

lemma go_val_asMap: "go_val v \<Longrightarrow> asMap E v = Some m \<Longrightarrow> go_val (VMap m)"
proof (cases v)
  case (VAny kws)
  assume v: "go_val v" "asMap E v = Some m"
  with VAny have m: "m = fold (\<lambda>kw m. kv_put (sprint E (fst kw)) (snd kw) m) kws []" by (simp add: asMap_def)
  have "go_val (snd kv)" if "kv \<in> set m" for kv
    using fold_put_mem [of kv "sprint E" id kws "[]"] that v VAny by (auto simp: m list_all_iff)
  then show ?thesis using distinct_fold_put [of "[]" "\<lambda>kw. sprint E (fst kw)" snd kws] by (simp add: m list_all_iff)
qed (auto simp: asMap_def)

lemma go_val_asSlice: "go_val v \<Longrightarrow> asSlice v = Some xs \<Longrightarrow> x \<in> set xs \<Longrightarrow> go_val x"
  by (auto simp: asSlice_def list_all_iff split: val.splits)

lemma canonical_fold:
  "canonical (VMap d) \<Longrightarrow> (\<And>kv d. kv \<in> set src \<Longrightarrow> canonical (VMap d) \<Longrightarrow> canonical (f kv d)) \<Longrightarrow>
     canonical (VMap (fold (\<lambda>kv d. kv_put (fst kv) (f kv d) d) src d))"
proof (induction src arbitrary: d)
  case (Cons kv src)
  from Cons.IH [OF canonical_kv_put [OF Cons.prems(1) Cons.prems(2) [of kv d]]] Cons.prems show ?case
    by (simp del: canonical.simps)
qed simp

lemma canonical_fold_list:
  "list_all canonical d \<Longrightarrow> (\<And>x d. x \<in> set src \<Longrightarrow> list_all canonical d \<Longrightarrow> list_all canonical (f x d)) \<Longrightarrow>
     list_all canonical (fold f src d)"
  by (induction src arbitrary: d) auto

lemma merge_canonical:
  "canonical (VMap dst) \<Longrightarrow> go_val (VMap src) \<Longrightarrow> canonical (VMap (mergeMaps E dst src))"
  "canonical d \<Longrightarrow> go_val v \<Longrightarrow> canonical (mergeValues E d v)"
  "list_all canonical ds \<Longrightarrow> list_all go_val vs \<Longrightarrow> list_all canonical (mergeLists E ds vs)"
proof (induction E dst src and E d v and E ds vs rule: mergeMaps_mergeValues_mergeLists.induct)
  case (1 E dst src)
  show ?case
    unfolding mergeMaps.simps
  proof (rule canonical_fold [OF 1(2)])
    fix kv d assume kv: "kv \<in> set src" and d: "canonical (VMap d)"
    with 1(3) have g: "go_val (snd kv)" by (auto simp: list_all_iff)
    then show "canonical (case map_of d (fst kv) of None \<Rightarrow> clone E (snd kv) | Some dv \<Rightarrow> mergeValues E dv (snd kv))"
      using clone_canonical [OF g] 1(1) [OF kv _ canonical_map_of [OF d] g] by (simp split: option.split)
  qed
next
  case (2 E dst src)
  have clones: "canonical (clone E src)" "canonical (clone E (VMap sm))" if "asMap E src = Some sm \<or> sm = []" for sm
    using that clone_canonical [OF 2(5)] go_val_asMap [OF 2(5)] clone_canonical [of "VMap sm" E] by fastforce+
  have lists: "list_all canonical (mergeLists E (case asSlice dst of Some ds \<Rightarrow> ds | None \<Rightarrow> []) ss)"
    if "asSlice src = Some ss" "src \<noteq> VNil" "\<not> (asMap E dst \<noteq> None \<and> asMap E src \<noteq> None)" for ss
  proof -
    have "list_all canonical (case asSlice dst of Some ds \<Rightarrow> ds | None \<Rightarrow> [])"
      using 2(4) asSlice_canonical by (auto split: option.split)
    moreover have "list_all go_val ss" using go_val_asSlice [OF 2(5) that(1)] by (simp add: list_all_iff)
    ultimately show ?thesis
      using 2(1,2) that by (cases "asMap E dst"; cases "asMap E src") auto
  qed
  have maps: "canonical (VMap (mergeMaps E dm sm))"
    if "asMap E dst = Some dm" "asMap E src = Some sm" "src \<noteq> VNil" for dm sm
    using 2(3) [OF that(3) _ that(1)] that canonical_asMap [OF 2(4) that(1)] go_val_asMap [OF 2(5) that(2)]
    by simp
  show ?case
    using 2(4) lists maps clones
    by (subst mergeValues.simps) (auto simp: canonical_VList_iff list_all_iff simp del: canonical.simps split: option.split)
next
  case (3 E dst src)
  show ?case
    unfolding mergeLists.simps
  proof (rule canonical_fold_list [OF 3(2)], goal_cases)
    case (1 item out)
    with 3(3) have g: "go_val item" by (simp add: list_all_iff)
    have "canonical (mergeValues E (VMap ex) (VMap m))"
      if "asMap E item = Some m" "keysForItem E m \<noteq> []" "listIndex E out (keysForItem E m) = Some (i, ex)" for m i ex
      using 3(1) [OF 1(1) that(1) refl that(2,3) refl] listIndex_canonical [OF 1(2) that(3)] go_val_asMap [OF g that(1)]
      by blast
    moreover have "canonical (clone E (VMap m))" if "asMap E item = Some m" for m
      using clone_canonical [OF go_val_asMap [OF g that]] .
    ultimately show ?case
      using 1(2) clone_canonical [OF g] set_update_subset_insert [of out]
      by (fastforce simp: Let_def list_all_iff simp del: canonical.simps clone.simps split: option.split)
  qed
qed

section \<open>Every edit keeps the tree canonical and the other modules\<close>

definition cursor_safe :: "string \<Rightarrow> kvs \<Rightarrow> cursor \<Rightarrow> bool" where
  "cursor_safe md rt cur \<longleftrightarrow>
     canonical (cget cur)
     \<and> (\<forall>v. canonical v \<longrightarrow> canonical (VMap (cset cur v)))
     \<and> (\<forall>v md'. md' \<noteq> md \<longrightarrow> map_of (cset cur v) md' = map_of rt md')"

definition root_safe :: "string \<Rightarrow> kvs \<Rightarrow> kvs \<Rightarrow> bool" where
  "root_safe md rt rt' \<longleftrightarrow> canonical (VMap rt') \<and> (\<forall>md'. md' \<noteq> md \<longrightarrow> map_of rt' md' = map_of rt md')"

lemma moduleCursor_safe: "canonical (VMap rt) \<Longrightarrow> cursor_safe md rt (moduleCursor rt md c)"
  using moduleCursor_ok [of rt undefined md c] by (auto simp: cursor_ok_def cursor_safe_def simp del: canonical.simps)

lemma cursor_safe_set: "cursor_safe md rt cur \<Longrightarrow> canonical v \<Longrightarrow> root_safe md rt (cset cur v)"
  by (simp add: cursor_safe_def root_safe_def)

lemma cursor_safe_up:
  assumes "cursor_safe md rt cur" and "canonical (VMap m)"
  shows "root_safe md rt (cset cur (write_back (cget cur) m))"
  using assms cursor_safe_set [OF assms]
  by (simp add: cursor_safe_def write_back_canonical del: canonical.simps)

lemma cursor_safe_map: "cursor_safe md rt cur \<Longrightarrow> canonical (VMap (cur_map E cur))"
  using cur_map_canonical by (auto simp: cursor_safe_def simp del: canonical.simps)

lemma cursor_safe_below:
  assumes "cursor_safe md rt cur" and "canonical g" and "\<And>v. canonical v \<Longrightarrow> canonical (VMap (f v))"
  shows "cursor_safe md rt \<lparr>cget = g, cset = (\<lambda>v. cset cur (write_back (cget cur) (f v)))\<rparr>"
  using assms cursor_safe_up [OF assms(1) assms(3)]
  by (auto simp: cursor_safe_def root_safe_def simp del: canonical.simps)

lemma slice_canonical:
  "canonical (VMap m) \<Longrightarrow> list_all canonical (case asSlice (kv_nil m n) of Some arr \<Rightarrow> arr | None \<Rightarrow> [])"
  using canonical_kv_nil [of m n] asSlice_canonical by (auto split: option.split)

lemma canonical_put_list:
  "canonical (VMap m) \<Longrightarrow> list_all canonical xs \<Longrightarrow> canonical (VMap (kv_put n (VList xs) m))"
  by (rule canonical_kv_put) simp_all

lemma list_all_update: "list_all P xs \<Longrightarrow> P v \<Longrightarrow> list_all P (xs[i := v])"
  using set_update_subset_insert [of xs i v] by (auto simp: list_all_iff)

lemma descend_safe:
  assumes safe: "cursor_safe md rt cur" and d: "descend E cur seg c = Inr cur'"
  shows "cursor_safe md rt cur'"
proof -
  let ?m = "cur_map E cur"
  let ?arr = "case asSlice (kv_nil ?m (s_name seg)) of Some arr \<Rightarrow> arr | None \<Rightarrow> []"
  note m = cursor_safe_map [OF safe, of E]
  note arr = slice_canonical [OF m, of "s_name seg"]
  show ?thesis
  proof (cases "s_keys seg = []")
    case True
    define m1 where "m1 = (if map_of ?m (s_name seg) = None then kv_put (s_name seg) (VMap []) ?m else ?m)"
    have "canonical (VMap m1)" using m canonical_kv_put [OF m canonical_empty] by (simp add: m1_def del: canonical.simps)
    moreover have "cur' = \<lparr>cget = kv_nil m1 (s_name seg),
        cset = (\<lambda>v. cset cur (write_back (cget cur) (kv_put (s_name seg) v m1)))\<rparr>"
      using d True by (auto simp: descend_def Let_def m1_def split: if_splits)
    ultimately show ?thesis
      using cursor_safe_below [OF safe canonical_kv_nil canonical_kv_put] by simp
  next
    case False
    show ?thesis
    proof (cases "listIndex E ?arr (s_keys seg)")
      case None
      with d False have "cur' = \<lparr>cget = VMap (entryWithKeys (s_keys seg)), cset = (\<lambda>v. cset cur (write_back (cget cur)
          (kv_put (s_name seg) (VList ((?arr @ [VMap (entryWithKeys (s_keys seg))])[length ?arr := v])) ?m)))\<rparr>"
        by (auto simp: descend_def Let_def split: if_splits)
      then show ?thesis
        using arr by (auto intro!: cursor_safe_below [OF safe canonical_entryWithKeys] canonical_put_list [OF m] list_all_update
            simp: canonical_entryWithKeys simp del: canonical.simps)
    next
      case (Some ie)
      with d False have "cur' = \<lparr>cget = ?arr ! fst ie, cset = (\<lambda>v. cset cur (write_back (cget cur)
          (kv_put (s_name seg) (VList (?arr[fst ie := v])) ?m)))\<rparr>"
        by (cases ie) (auto simp: descend_def Let_def split: if_splits)
      moreover have "canonical (?arr ! fst ie)"
        using listIndex_canonical [OF arr, of E "s_keys seg" "fst ie" "snd ie"] Some by (simp del: canonical.simps)
      ultimately show ?thesis
        using arr by (auto intro!: cursor_safe_below [OF safe] canonical_put_list [OF m] list_all_update simp del: canonical.simps)
    qed
  qed
qed

lemma descend_all_safe:
  "cursor_safe md rt cur \<Longrightarrow> descend_all E cur segs = Inr cur' \<Longrightarrow> cursor_safe md rt cur'"
  by (induction segs arbitrary: cur) (auto split: sum.splits dest: descend_safe)

lemma descend_existing_safe:
  "cursor_safe md rt cur \<Longrightarrow> descend_existing E cur segs = Inr cur' \<Longrightarrow> cursor_safe md rt cur'"
  by (induction segs arbitrary: cur) (auto split: sum.splits if_splits dest: descend_safe)

lemma written_canonical: "canonical old \<Longrightarrow> go_val v \<Longrightarrow> canonical (written E merge old v)"
  using merge_canonical(2) clone_canonical by (simp add: written_def)

lemma put_keys_canonical: "canonical (VMap m) \<Longrightarrow> canonical (VMap (put_keys ks m))"
  unfolding put_keys_def by (rule canonical_put_keys)

lemma applyLast_safe:
  assumes "cursor_safe md rt parent" and "go_val v" and "applyLast E s parent p v merge = Inr rt'"
  shows "root_safe md rt rt'"
proof (cases "s_keys (last (p_segments p)) = []")
  case True
  note m = cursor_safe_map [OF assms(1), of E]
  have "canonical (VMap (kv_put (s_name (last (p_segments p)))
      (written E merge (kv_nil (cur_map E parent) (s_name (last (p_segments p)))) v) (cur_map E parent)))"
    by (intro canonical_kv_put m written_canonical canonical_kv_nil assms(2))
  from cursor_safe_up [OF assms(1) this] assms(3) True show ?thesis
    by (auto simp: applyLast_def Let_def split: option.splits)
next
  case False
  then obtain cur where cur: "descend E parent (last (p_segments p)) True = Inr cur"
    using assms(3) by (auto simp: applyLast_def Let_def split: sum.splits)
  note safe = descend_safe [OF assms(1) cur]
  have nxt: "canonical (written E merge (cget cur) v)"
    using safe assms(2) by (simp add: cursor_safe_def written_canonical)
  then have "canonical (VMap (put_keys ks m))" if "asMap E (written E merge (cget cur) v) = Some m" for m ks
    using put_keys_canonical [of m ks] that by (simp add: asMap_canonical del: canonical.simps)
  then show ?thesis
    using assms(3) False cur cursor_safe_set [OF safe] nxt
    by (auto simp: applyLast_def Let_def simp del: canonical.simps split: option.splits if_splits)
qed

lemma put_safe:
  assumes "canonical (VMap rt)" and "go_val v" and "\<not> IsRoot p" and "put E s rt p v merge = Inr rt'"
  shows "root_safe (p_module p) rt rt'"
proof -
  note safe = moduleCursor_safe [OF assms(1), of "p_module p" True]
  show ?thesis
  proof (cases "p_segments p = []")
    case True
    have "canonical (written E merge (cget (moduleCursor rt (p_module p) True)) v)"
      using safe assms(2) by (simp add: cursor_safe_def written_canonical)
    from cursor_safe_set [OF safe this] True assms(3,4) show ?thesis
      by (auto simp: put_def Let_def split: option.splits)
  next
    case False
    with assms(3,4) obtain parent where parent:
        "descend_all E (moduleCursor rt (p_module p) True) (butlast (p_segments p)) = Inr parent"
        "applyLast E s parent p v merge = Inr rt'"
      by (auto simp: put_def Let_def split: sum.splits)
    from applyLast_safe [OF descend_all_safe [OF safe parent(1)] assms(2) parent(2)] show ?thesis .
  qed
qed

lemma deleteAt_safe:
  assumes "canonical (VMap rt)" and "\<not> IsRoot p" and "deleteAt E rt p = Inr rt'"
  shows "root_safe (p_module p) rt rt'"
proof (cases "p_segments p = []")
  case True
  then show ?thesis
    using assms canonical_kv_del [OF assms(1)]
    by (auto simp: deleteAt_def root_safe_def simp del: canonical.simps split: if_splits)
next
  case False
  then obtain parent m where parent: "descend_existing E (moduleCursor rt (p_module p) False) (butlast (p_segments p)) = Inr parent"
      "asMap E (cget parent) = Some m"
    using assms(2,3) by (auto simp: deleteAt_def Let_def split: sum.splits option.splits if_splits)
  note safe = descend_existing_safe [OF moduleCursor_safe [OF assms(1)] parent(1)]
  have m: "canonical (VMap m)" using cursor_safe_map [OF safe, of E] parent(2) by simp
  have "list_all canonical (take i arr @ drop (Suc i) arr)" if "asSlice (kv_nil m n) = Some arr" for i n arr
    using slice_canonical [OF m, of n] that by (auto simp: list_all_iff dest: in_set_takeD in_set_dropD)
  then show ?thesis
    using assms(2,3) False parent cursor_safe_up [OF safe] canonical_kv_del [OF m] canonical_put_list [OF m]
    by (auto simp: deleteAt_def Let_def simp del: canonical.simps split: option.splits if_splits)
qed

lemma root_put_canonical:
  assumes "canonical (VMap rt)" and "go_val v" and "IsRoot p" and "put E s rt p v merge = Inr rt'"
  shows "canonical (VMap rt')"
  using assms merge_canonical(1) [OF assms(1) go_val_asMap [OF assms(2)]]
    clone_map_canonical [OF go_val_asMap [OF assms(2)]]
  by (auto simp: put_def Let_def simp del: canonical.simps go_val.simps split: option.splits if_splits)

definition edit_ok :: "edit_value \<Rightarrow> bool" where
  "edit_ok v = (case v of EVal w \<Rightarrow> go_val w | ENode vn \<Rightarrow> node_ok vn)"

lemma lookup_canonical:
  assumes "node_ok n" and "\<not> IsRoot p" and "lookup E n p = Some v"
  shows "canonical v"
proof -
  have "canonical (clone E w)" if "walkGet E n p = Some w" for w
    using clone_id [of w E] walkGet_canonical [OF assms(1) that] by simp
  with assms(2,3) show ?thesis
    by (auto simp: lookup_def getterValue_canonical split: if_splits option.splits)
qed

lemma edit_val_go_val: "edit_ok v \<Longrightarrow> go_val (edit_val E p v)"
  using lookup_canonical clone_map_id canonical_go_val
  by (auto simp: edit_ok_def edit_val_def node_Map_def simp del: canonical.simps go_val.simps
      split: edit_value.splits option.splits)

text \<open>The three ways an edit succeeds.\<close>

lemma apply_op_InrE:
  assumes "apply_op E n oper p v = Inr n'" and "node_ok n"
  obtains (put) merge rt' where "put E (n_schema n) (root_map n) p (edit_val E p v) merge = Inr rt'"
      "n' = n\<lparr>n_root := Some rt'\<rparr>" "\<not> merge \<Longrightarrow> oper = OpReplace" "merge \<Longrightarrow> oper = OpMerge \<or> oper = []"
      "n_schema n \<noteq> None \<Longrightarrow> known (n_schema n) p \<and> \<not> readOnly (n_schema n) p"
    | (del) rt' where "deleteAt E (root_map n) p = Inr rt'" "n' = n\<lparr>n_root := Some rt'\<rparr>" "oper = OpDelete"
      "n_schema n \<noteq> None \<Longrightarrow> known (n_schema n) p"
proof -
  have guards: "n_schema n \<noteq> None \<Longrightarrow> known (n_schema n) p" "oper \<noteq> OpDelete \<Longrightarrow> n_schema n \<noteq> None \<Longrightarrow> \<not> readOnly (n_schema n) p"
    using assms(1) by (auto simp: apply_op_def Let_def split: if_splits)
  let ?res = "if oper = OpMerge \<or> oper = [] then put E (n_schema n) (root_map n) p (edit_val E p v) True
       else if oper = OpReplace then put E (n_schema n) (root_map n) p (edit_val E p v) False
       else if oper = OpDelete then deleteAt E (root_map n) p
       else Inl (ValidationFailed ''unsupported operation'' [])"
  have "apply_op E n oper p v = (case ?res of Inl err \<Rightarrow> Inl err | Inr rt' \<Rightarrow> Inr (n\<lparr>n_root := Some rt'\<rparr>))"
    using guards unfolding apply_op_def Let_def node_Clone_root [OF assms(2)] by argo
  with assms(1) obtain rt' where res: "?res = Inr rt'" "n' = n\<lparr>n_root := Some rt'\<rparr>"
    by (cases ?res) simp_all
  consider "oper = OpMerge \<or> oper = []" | "oper = OpReplace" | "oper = OpDelete"
    using res(1) by (auto split: if_splits)
  then show thesis
  proof cases
    case 1
    then show thesis using put [of True rt'] guards res by auto
  next
    case 2
    then show thesis using put [of False rt'] guards res by auto
  next
    case 3
    then show thesis using del [of rt'] guards res by auto
  qed
qed

lemma node_ok_upd [simp]: "n_schema (n\<lparr>n_root := r\<rparr>) = n_schema n"
  by simp

lemma apply_op_safe:
  assumes "apply_op E n oper p v = Inr n'" and "node_ok n" and "edit_ok v"
  shows "node_ok n' \<and> n_schema n' = n_schema n
     \<and> (\<not> IsRoot p \<longrightarrow> (\<forall>md. md \<noteq> p_module p \<longrightarrow> map_of (root_map n') md = map_of (root_map n) md))"
  using assms(1,2)
proof (cases rule: apply_op_InrE)
  case (put merge rt')
  show ?thesis
    using put(1,2) put_safe [OF assms(2) edit_val_go_val [OF assms(3)] _ put(1)]
      root_put_canonical [OF assms(2) edit_val_go_val [OF assms(3)] _ put(1)]
    by (auto simp: root_safe_def simp del: canonical.simps)
next
  case (del rt')
  have "IsRoot p \<Longrightarrow> rt' = []" using del(1) by (simp add: deleteAt_def)
  then show ?thesis
    using del(1,2) deleteAt_safe [OF assms(2) _ del(1)] canonical_empty
    by (cases "IsRoot p") (auto simp: root_safe_def simp del: canonical.simps)
qed

section \<open>What is written is read back\<close>

definition stored :: "golib \<Rightarrow> path \<Rightarrow> val \<Rightarrow> val" where
  "stored E p v =
    (if p_segments p \<noteq> [] \<and> s_keys (last (p_segments p)) \<noteq> [] then
       (case asMap E v of Some m \<Rightarrow> VMap (put_keys (s_keys (last (p_segments p))) m) | None \<Rightarrow> v)
     else v)"

lemma applyLast_read:
  assumes ok: "cursor_ok E md rt rd ks parent" and b: "below ks [last (p_segments p)]"
    and a: "applyLast E s parent p v False = Inr rt'"
    and m: "s_keys (last (p_segments p)) \<noteq> [] \<Longrightarrow> asMap E (clone E v) \<noteq> None" and ne: "p_segments p \<noteq> []"
  shows "\<exists>x. map_of rt' md = Some x \<and>
    Option.bind (rd x) (\<lambda>y. walk_segments E y [last (p_segments p)]) = Some (stored E p (clone E v))"
proof (cases "s_keys (last (p_segments p)) = []")
  case True
  have "fits E ks (VMap (kv_put (s_name (last (p_segments p))) (clone E v) (cur_map E parent)))"
    using fits_put(1) [OF cursor_fits [OF ok]] below_Cons [OF b] by blast
  from cursor_up(1) [OF ok this] a True show ?thesis
    by (auto simp: applyLast_def Let_def written_def stored_def split: option.splits)
next
  case False
  then obtain cur where cur: "descend E parent (last (p_segments p)) True = Inr cur"
    using a by (auto simp: applyLast_def Let_def split: sum.splits)
  from m False obtain m where m: "asMap E (clone E v) = Some m" by auto
  have "fits E (s_keys (last (p_segments p))) (VMap (put_keys (s_keys (last (p_segments p))) m))"
    using matchKeys_put_keys below_Cons [OF b] by (simp add: fits_def)
  with descend_step [OF ok cur b] False a m cur ne show ?thesis
    by (auto simp: cursor_ok_def applyLast_def Let_def written_def stored_def split: option.splits)
qed

lemma put_read:
  assumes "canonical (VMap rt)" and "\<not> IsRoot p" and "keys_apart (p_segments p)"
    and "put E s rt p v False = Inr rt'"
    and "p_segments p \<noteq> [] \<Longrightarrow> s_keys (last (p_segments p)) \<noteq> [] \<Longrightarrow> asMap E (clone E v) \<noteq> None"
  shows "walkGet E \<lparr>n_schema = s, n_root = Some rt'\<rparr> p = Some (stored E p (clone E v))"
proof (cases "p_segments p = []")
  case True
  with assms(2,4) show ?thesis
    by (auto simp: put_def Let_def written_def moduleCursor_def walkGet_def stored_def split: option.splits if_splits)
next
  case False
  then have segs: "butlast (p_segments p) @ [last (p_segments p)] = p_segments p" by simp
  from assms(2,4) False obtain parent where parent:
      "descend_all E (moduleCursor rt (p_module p) True) (butlast (p_segments p)) = Inr parent"
      "applyLast E s parent p v False = Inr rt'"
    by (auto simp: put_def Let_def split: sum.splits)
  have "below [] (butlast (p_segments p) @ [last (p_segments p)])"
    using assms(3) by (auto simp: below_def segs split: list.split)
  from descend_all_ok [OF moduleCursor_ok [OF assms(1)] parent(1) this] obtain ks' where
    ks': "cursor_ok E (p_module p) rt (\<lambda>x. Option.bind (Some x) (\<lambda>y. walk_segments E y (butlast (p_segments p)))) ks' parent"
      "below ks' [last (p_segments p)]" by blast
  from applyLast_read [OF ks' parent(2) assms(5) [OF False] False] show ?thesis
    using walk_segments_append [of E _ "butlast (p_segments p)" "[last (p_segments p)]"] segs
    by (auto simp: walkGet_def simp del: walk_segments.simps)
qed

lemma dynamic_read_only: "dynamic s p = Some e \<Longrightarrow> readOnly s p"
  by (auto simp: dynamic_def readOnly_def split: option.splits if_splits)

lemma dynamic_no_schema: "dynamic None p = None"
  by (simp add: dynamic_def schema_lookup_def)

lemma deleted_last:
  assumes "canonical (VMap rt)" and "p_segments p \<noteq> []" and "keys_apart (p_segments p)"
    and "s_keys (last (p_segments p)) = []" and "deleteAt E rt p = Inr rt'"
  shows "walkGet E \<lparr>n_schema = s, n_root = Some rt'\<rparr> p = None"
proof -
  let ?cur = "moduleCursor rt (p_module p) False"
  from assms(2) have segs: "butlast (p_segments p) @ [last (p_segments p)] = p_segments p" by simp
  from assms(2,4,5) obtain parent m where parent: "descend_existing E ?cur (butlast (p_segments p)) = Inr parent"
      "asMap E (cget parent) = Some m"
      "rt' = cset parent (write_back (cget parent) (kv_del (s_name (last (p_segments p))) m))"
    by (auto simp: deleteAt_def IsRoot_def Let_def split: sum.splits option.splits if_splits)
  have "below [] (butlast (p_segments p) @ [last (p_segments p)])"
    using assms(3) by (auto simp: below_def segs split: list.split)
  from descend_existing_ok [OF moduleCursor_ok [OF assms(1)] parent(1) this] obtain ks' where
    ks': "cursor_ok E (p_module p) rt (\<lambda>x. Option.bind (Some x) (\<lambda>y. walk_segments E y (butlast (p_segments p)))) ks' parent"
      "below ks' [last (p_segments p)]" by blast
  have "fits E ks' (VMap (kv_del (s_name (last (p_segments p))) m))"
    using fits_put(2) [OF cursor_fits [OF ks'(1)]] below_Cons [OF ks'(2)] parent(2) by simp
  from cursor_up(1) [OF ks'(1) this] show ?thesis
    using walk_segments_append [of E _ "butlast (p_segments p)" "[last (p_segments p)]"] segs assms(4) parent(3)
    by (auto simp: walkGet_def)
qed

lemma replace_lookup:
  assumes "node_ok n" and "go_val v" and "\<not> IsRoot p" and "keys_apart (p_segments p)"
    and "p_segments p \<noteq> [] \<Longrightarrow> s_keys (last (p_segments p)) \<noteq> [] \<Longrightarrow> asMap E (clone E v) \<noteq> None"
    and "apply_op E n OpReplace p (EVal v) = Inr n'"
  shows "lookup E n' p = Some (stored E p (clone E v))"
  using assms(6,1)
proof (cases rule: apply_op_InrE)
  case (put merge rt')
  then have put': "put E (n_schema n) (root_map n) p v False = Inr rt'"
    by (cases merge) (auto simp: edit_val_def)
  from put_read [OF assms(1,3,4) put' assms(5)] put(2) have w: "walkGet E n' p = Some (stored E p (clone E v))"
    by (simp add: walkGet_def)
  have "node_ok n'" "n_schema n' = n_schema n"
    using apply_op_safe [OF assms(6,1)] assms(2) by (auto simp: edit_ok_def)
  with walkGet_canonical [OF _ w] have "canonical (stored E p (clone E v))" by blast
  moreover have "dynamic (n_schema n) p = None"
    using put(5) dynamic_read_only dynamic_no_schema by (cases "n_schema n"; cases "dynamic (n_schema n) p") auto
  ultimately show ?thesis
    using put(5) w assms(3) \<open>n_schema n' = n_schema n\<close> by (cases "n_schema n") (auto simp: lookup_def clone_id)
qed simp

section \<open>Properties\<close>

text \<open>A replace that succeeds is read back: looking the path up in the new tree gives a copy
  of the value that was written, for a list entry with the keys of the path put into it,
  whatever containers and list entries the edit had to create on the way.\<close>

theorem replace_then_read:
  assumes "node_ok n" and "go_val v" and "\<not> IsRoot p" and "keys_apart (p_segments p)"
    and "p_segments p \<noteq> [] \<Longrightarrow> s_keys (last (p_segments p)) \<noteq> [] \<Longrightarrow> asMap E (clone E v) \<noteq> None"
    and "apply_op E n OpReplace p (EVal v) = Inr n'"
  shows "lookup E n' p = Some (stored E p (clone E v))"
  by (rule replace_lookup [OF assms])

text \<open>A delete that succeeds removes the node: the path is then missing (or, for a dynamic
  leaf, shows only the getter's value).\<close>

theorem delete_then_missing:
  assumes "node_ok n" and "\<not> IsRoot p" and "keys_apart (p_segments p)"
    and "p_segments p = [] \<or> s_keys (last (p_segments p)) = []"
    and "apply_op E n OpDelete p v = Inr n'"
  shows "lookup E n' p = map_option (getterValue E) (dynamic (n_schema n) p)"
  using assms(5,1)
proof (cases rule: apply_op_InrE)
  case (put merge rt')
  then show ?thesis by (cases merge) auto
next
  case (del rt')
  have "walkGet E n' p = None"
  proof (cases "p_segments p = []")
    case True
    with del(1,2) assms(2) show ?thesis by (auto simp: deleteAt_def walkGet_def split: if_splits)
  next
    case False
    with deleted_last [OF assms(1) False assms(3) _ del(1)] assms(4) del(2) show ?thesis
      by (simp add: walkGet_def)
  qed
  with del(2,4) assms(2) show ?thesis
    by (cases "n_schema n") (auto simp: lookup_def dynamic_no_schema split: option.split)
qed

text \<open>Every successful edit keeps the schema and the shape of the tree (canonical maps and
  slices, distinct keys), and an edit below one module leaves every other module as it was.\<close>

theorem edit_preserves:
  assumes "apply_op E n oper p v = Inr n'" and "node_ok n" and "edit_ok v"
  shows "node_ok n' \<and> n_schema n' = n_schema n
     \<and> (\<not> IsRoot p \<longrightarrow> (\<forall>md. md \<noteq> p_module p \<longrightarrow> map_of (root_map n') md = map_of (root_map n) md))"
  by (rule apply_op_safe [OF assms])

abbreviation mtu_path :: path where
  "mtu_path \<equiv> Path ''if'' [Segment ''port'' [Key ''name'' ''e0''], Segment ''mtu'' []]"

abbreviation port_schema :: schema where
  "port_schema \<equiv> [(''if:port/mtu'', \<lparr>se_path = Path ''if'' [Segment ''port'' [], Segment ''mtu'' []],
     se_typ = ''uint32'', se_access = ''write'', se_min = None, se_max = None, se_pattern = None,
     se_valueFrom = []\<rparr>)]"

abbreviation port_node :: "kvs \<Rightarrow> node" where
  "port_node m \<equiv> \<lparr>n_schema = Some port_schema, n_root = Some m\<rparr>"

lemmas edit_eval = apply_op_def edit_val_def known_def readOnly_def IsRoot_def mtu_eval node_Clone_def clone_map_eq
  put_def moduleCursor_def descend_def kv_nil_def Let_def applyLast_def write_back_def written_def checkWritten_def
  validateValue.simps entryWithKeys_def

lemma port_edit:
  "apply_op (uptime_lib 0) (port_node []) OpReplace mtu_path (EVal (VInt KInt64 1500)) =
     Inr (port_node [(''if'', VMap [(''port'', VList [VMap [(''name'', VStr ''e0''), (''mtu'', VInt KInt64 1500)]])])])"
  by (simp add: edit_eval)

theorem replace_then_read_witness:
  "lookup (uptime_lib 0) (port_node [(''if'', VMap [(''port'', VList [VMap [(''name'', VStr ''e0''), (''mtu'', VInt KInt64 1500)]])])])
     mtu_path = Some (VInt KInt64 1500)"
  using replace_then_read [OF _ _ _ _ _ port_edit] by (simp add: IsRoot_def stored_def)

lemma mtu_delete:
  "apply_op (uptime_lib 0) mtu_node OpDelete (Path ''if'' [Segment ''mtu'' []]) (EVal VNil) =
     Inr (mtu_node\<lparr>n_root := Some [(''if'', VMap [])]\<rparr>)"
  by (simp add: apply_op_def edit_val_def known_def IsRoot_def SchemaString_def node_Clone_def clone_map_eq deleteAt_def
      moduleCursor_def kv_nil_def write_back_def Let_def)

theorem delete_then_missing_witness:
  "lookup (uptime_lib 0) (mtu_node\<lparr>n_root := Some [(''if'', VMap [])]\<rparr>) (Path ''if'' [Segment ''mtu'' []]) = None"
  using delete_then_missing [OF _ _ _ _ mtu_delete]
  by (simp add: IsRoot_def dynamic_def schema_lookup_def SchemaString_def)

theorem edit_preserves_witness:
  "node_ok (port_node [(''if'', VMap [(''port'', VList [VMap [(''name'', VStr ''e0''), (''mtu'', VInt KInt64 1500)]])])])"
  using edit_preserves [OF port_edit] by (simp add: edit_ok_def)

section \<open>Merging\<close>

lemma mergeMaps_map_of:
  "distinct (map fst src) \<Longrightarrow> map_of (mergeMaps E dst src) k = (case map_of src k of
     None \<Rightarrow> map_of dst k
   | Some sv \<Rightarrow> Some (case map_of dst k of None \<Rightarrow> clone E sv | Some dv \<Rightarrow> mergeValues E dv sv))"
  unfolding mergeMaps.simps
proof (induction src arbitrary: dst)
  case (Cons kv src)
  have "map_of src (fst kv) = None" using Cons.prems by (simp add: map_of_eq_None_iff)
  with Cons show ?case by (cases kv) (auto split: option.split)
qed simp

text \<open>A merge is binding by binding: a key the source does not bind keeps its value, a key only
  the source binds gets a copy, and a key both bind gets the merge of the two; at a scalar
  leaf the source's value wins.\<close>

theorem merge_lookup:
  assumes "distinct (map fst src)"
  shows "map_of (mergeMaps E dst src) k = (case map_of src k of
      None \<Rightarrow> map_of dst k
    | Some sv \<Rightarrow> Some (case map_of dst k of None \<Rightarrow> clone E sv | Some dv \<Rightarrow> mergeValues E dv sv))
    \<and> (asMap E v = None \<and> asSlice v = None \<and> v \<noteq> VNil \<longrightarrow> mergeValues E old v = v)"
proof -
  have "clone E v = v" if "asMap E v = None" "asSlice v = None"
    using that by (cases v) (auto simp: asMap_def asSlice_def)
  then show ?thesis
    by (auto simp: mergeMaps_map_of [OF assms] mergeValues.simps [of E old] split: option.split)
qed

theorem merge_lookup_witness:
  "map_of (mergeMaps (uptime_lib 0) [(''a'', VInt KInt 1), (''b'', VInt KInt 2)] [(''b'', VInt KInt 3)]) ''b'' = Some (VInt KInt 3)"
  using merge_lookup [of "[(''b'', VInt KInt 3)]" "uptime_lib 0" "[(''a'', VInt KInt 1), (''b'', VInt KInt 2)]" "''b''"
      "VInt KInt 3" "VInt KInt 2"]
  by (simp add: asMap_def asSlice_def)

lemma mergeLists_scalars:
  "list_all (\<lambda>y. asMap E y = None) ys \<Longrightarrow> mergeLists E xs ys = xs @ map (clone E) ys"
  unfolding mergeLists.simps by (induction ys arbitrary: xs) auto

text \<open>Merging into a leaf-list appends: values that are already there are added again, so
  repeating a merge that succeeded grows the list.\<close>

theorem merge_leaf_list_appends:
  assumes "list_all (\<lambda>y. asMap E y = None) ys" and "list_all canonical ys"
  shows "mergeValues E (VList xs) (VList ys) = VList (xs @ ys)"
proof -
  have "map (clone E) ys = ys" using assms(2) by (auto simp: list_all_iff clone_id intro: map_idI)
  then show ?thesis
    by (simp add: mergeValues.simps [of E "VList xs"] mergeLists_scalars [OF assms(1)])
qed

theorem merge_leaf_list_appends_witness:
  "mergeValues (uptime_lib 0) (VList [VStr ''ntp1'']) (VList [VStr ''ntp1'']) = VList [VStr ''ntp1'', VStr ''ntp1'']"
  using merge_leaf_list_appends [of "uptime_lib 0" "[VStr ''ntp1'']" "[VStr ''ntp1'']"] by (simp add: asMap_def)

section \<open>Rejected edits\<close>

lemma descend_reads:
  assumes "canonical (cget cur)" and "descend E cur seg False = Inr cur'"
  shows "walk_segments E (cget cur) [seg] = Some (cget cur')"
proof (cases "s_keys seg = []")
  case True
  with assms(2) show ?thesis
    by (auto simp: descend_def Let_def kv_nil_def split: if_splits option.splits)
next
  case False
  from assms(2) obtain m where m: "asMap E (cget cur) = Some m" by (auto simp: descend_def split: if_splits)
  then have "canonical (VMap m)" by (rule canonical_asMap [OF assms(1)])
  note arr = slice_canonical [OF this, of "s_name seg"]
  from m False assms(2) obtain xs i e where xs: "asSlice (kv_nil m (s_name seg)) = Some xs"
      "listIndex E xs (s_keys seg) = Some (i, e)" "cget cur' = xs ! i"
    by (auto simp: descend_def Let_def split: if_splits option.splits prod.splits)
  with listIndex_canonical [of xs E "s_keys seg" i e] arr m False show ?thesis by simp
qed

lemma descend_existing_reads:
  "cursor_safe md rt cur \<Longrightarrow> descend_existing E cur segs = Inr cur' \<Longrightarrow>
     walk_segments E (cget cur) segs = Some (cget cur')"
proof (induction segs arbitrary: cur)
  case (Cons seg segs)
  then obtain cur1 where cur1: "descend E cur seg False = Inr cur1" "descend_existing E cur1 segs = Inr cur'"
    by (auto split: sum.splits if_splits)
  have "canonical (cget cur)" using Cons.prems(1) by (simp add: cursor_safe_def)
  from descend_reads [OF this cur1(1)] Cons.IH [OF descend_safe [OF Cons.prems(1) cur1(1)] cur1(2)]
    bind_walk [of E "cget cur" seg segs]
  show ?case by simp
qed simp

lemma descend_existing_error: "descend_existing E cur segs = Inl err \<Longrightarrow> err = no_path"
proof (induction segs arbitrary: cur)
  case (Cons seg segs)
  have "err' = no_path" if "descend E cur seg False = Inl err'" for err'
    using that by (auto simp: descend_def Let_def split: if_splits option.splits)
  with Cons show ?case by (auto split: sum.splits if_splits)
qed simp

lemma deleteAt_error: "deleteAt E rt p = Inl err \<Longrightarrow> err = no_path"
  by (auto simp: deleteAt_def Let_def descend_existing_error split: if_splits sum.splits option.splits)

lemma deleteAt_found:
  assumes "canonical (VMap rt)" and "\<not> IsRoot p" and "deleteAt E rt p = Inr rt'"
  shows "walkGet E \<lparr>n_schema = s, n_root = Some rt\<rparr> p \<noteq> None"
proof (cases "p_segments p = []")
  case True
  with assms(2,3) show ?thesis by (auto simp: deleteAt_def walkGet_def split: if_splits)
next
  case False
  let ?cur = "moduleCursor rt (p_module p) False" and ?seg = "last (p_segments p)"
  from assms(2,3) False obtain parent m where parent:
      "descend_existing E ?cur (butlast (p_segments p)) = Inr parent" "asMap E (cget parent) = Some m"
      "cget ?cur \<noteq> VNil"
    by (auto simp: deleteAt_def Let_def split: if_splits sum.splits option.splits)
  have "walk_segments E (cget parent) [?seg] \<noteq> None"
    using assms(2,3) False parent by (auto simp: deleteAt_def Let_def split: if_splits sum.splits option.splits)
  with descend_existing_reads [OF moduleCursor_safe [OF assms(1)] parent(1)]
    walk_segments_append [of E "cget ?cur" "butlast (p_segments p)" "[?seg]"] False
  have "walk_segments E (cget ?cur) (p_segments p) \<noteq> None" by (simp del: walk_segments.simps)
  with parent(3) show ?thesis
    by (auto simp: walkGet_def moduleCursor_def kv_nil_def split: option.splits)
qed

text \<open>The edits that a schema rejects. A path the schema does not know is refused as an unknown
  element, a write to a read-only or dynamic leaf as not writable, and a delete of a path
  that holds nothing as not found.\<close>

theorem edit_rejections:
  assumes "n_schema n = Some s" and "node_ok n"
  shows "(\<not> known (n_schema n) p \<longrightarrow> apply_op E n oper p v = Inl (unknownPath p))
    \<and> (known (n_schema n) p \<and> readOnly (n_schema n) p \<and> oper \<noteq> OpDelete \<longrightarrow>
        apply_op E n oper p v = Inl (NotWritable ''leaf is not writable''))
    \<and> (known (n_schema n) p \<and> \<not> IsRoot p \<and> walkGet E n p = None \<longrightarrow>
        apply_op E n OpDelete p v = Inl no_path)"
proof (intro conjI impI)
  assume p: "known (n_schema n) p \<and> \<not> IsRoot p \<and> walkGet E n p = None"
  have "deleteAt E (root_map n) p = Inl no_path"
  proof (cases "deleteAt E (root_map n) p")
    case (Inr rt')
    from deleteAt_found [OF assms(2) _ Inr] p show ?thesis
      by (auto simp: walkGet_def root_map_def split: option.splits)
  qed (simp add: deleteAt_error)
  with p node_Clone_root [OF assms(2), of E] show "apply_op E n OpDelete p v = Inl no_path"
    by (simp add: apply_op_def Let_def)
qed (use assms in \<open>auto simp: apply_op_def Let_def\<close>)

theorem edit_rejections_witness:
  "apply_op (uptime_lib 0) up_node OpReplace (Path ''sys'' [Segment ''up'' []]) (EVal (VInt KInt64 99)) =
     Inl (NotWritable ''leaf is not writable'')"
  using edit_rejections [of up_node up_schema "Path ''sys'' [Segment ''up'' []]" "uptime_lib 0" OpReplace "EVal (VInt KInt64 99)"]
  by (simp add: known_def readOnly_def schema_lookup_def SchemaString_def IsRoot_def)

text \<open>A replace of the whole tree is only type-checked: it succeeds exactly when the known
  leaves of the new tree pass their checks. Elements the schema does not know are stored, and
  read-only and dynamic leaves are overwritten.\<close>

theorem root_write_only_type_checked:
  assumes "n_schema n = Some s" and "map_of s [] = None" and "node_ok n" and "canonical (VMap m)"
  shows "apply_op E n OpReplace (Path [] []) (EVal (VMap m)) =
    (case validateValue E (Some s) (Path [] []) (VMap m) of
       None \<Rightarrow> Inr (n\<lparr>n_root := Some m\<rparr>)
     | Some err \<Rightarrow> Inl err)"
  using assms clone_map_id [OF assms(4), of E]
  by (simp add: apply_op_def Let_def known_def IsRoot_def readOnly_def schema_lookup_def SchemaString_def edit_val_def
      put_def checkWritten_def split: option.split)

theorem root_write_only_type_checked_witness:
  "apply_op (uptime_lib 0) up_node OpReplace (Path [] []) (EVal (VMap [(''sys'', VMap [(''up'', VInt KInt64 99)]), (''bogus'', VInt KInt64 1)])) =
     Inr (up_node\<lparr>n_root := Some [(''sys'', VMap [(''up'', VInt KInt64 99)]), (''bogus'', VInt KInt64 1)]\<rparr>)"
  using root_write_only_type_checked [of up_node up_schema "[(''sys'', VMap [(''up'', VInt KInt64 99)]), (''bogus'', VInt KInt64 1)]" "uptime_lib 0"]
  by (simp add: validateValue.simps validateChildren.simps schema_lookup_def SchemaString_def child_path_def path_append_def asMap_def
      asSlice_def)

end
