(* ===== verification/Notif.thy ===== *)
theory Notif
  imports Domainerr
begin

text \<open>
  Package \<open>notif\<close>: the bounded log of config-change notifications and the waiters on it. The
  code runs under one mutex, except that the results are sent to the waiters' channels after
  the mutex is released, and a waiter blocks on its channel and on its context. So each
  locked section is one operation on the ring, and the system state adds the sends that are
  still to happen, the channel buffers and the calls that block; its steps interleave in any
  order. A record's identifier comes from the ulid package: it is an argument of \<open>OnCommit\<close>.
\<close>

section \<open>Data\<close>

record nchange =
  nc_path :: string
  nc_operation :: string

record notification =
  nt_id :: string
  nt_stream :: string
  nt_profile :: string
  nt_changes :: "nchange list"

datatype nerr = ErrWaitTimeout | ErrNotFound | ErrStoreWiped | CtxErr goerr

abbreviation StreamNETCONF :: string where
  "StreamNETCONF \<equiv> ''NETCONF''"

text \<open>A query is the profile it asks for; the empty profile matches any. A channel is a number.\<close>

type_synonym chan = nat

record waiter =
  w_q :: string
  w_ch :: chan

record ring =
  r_cap :: nat
  r_items :: "notification list"
  r_waiters :: "waiter list"

section \<open>The no-op store\<close>

definition Nop_List :: "string \<Rightarrow> nerr + notification list" where
  "Nop_List q = Inr []"

definition Nop_Get :: "string \<Rightarrow> nerr + notification" where
  "Nop_Get i = Inl ErrNotFound"

definition Nop_Wait :: "goerr option \<Rightarrow> string \<Rightarrow> nerr + notification" where
  "Nop_Wait ctx q = (case ctx of Some err \<Rightarrow> Inl (CtxErr err) | None \<Rightarrow> Inl ErrWaitTimeout)"

section \<open>The ring, one definition per locked section\<close>

definition notif_New :: "int \<Rightarrow> ring" where
  "notif_New n =
    (let n1 = (if n \<le> 0 then 256 else n); n2 = (if n1 > 4096 then 4096 else n1)
     in \<lparr>r_cap = nat n2, r_items = [], r_waiters = []\<rparr>)"

definition cloneChanges :: "nchange list \<Rightarrow> nchange list" where
  "cloneChanges cs = map (\<lambda>c. c) cs"

definition cloneNotification :: "notification \<Rightarrow> notification" where
  "cloneNotification n = n\<lparr>nt_changes := cloneChanges (nt_changes n)\<rparr>"

definition notif_match :: "string \<Rightarrow> notification \<Rightarrow> bool" where
  "notif_match q n \<longleftrightarrow> q = [] \<or> q = nt_profile n"

definition waitErr :: "goerr \<Rightarrow> nerr" where
  "waitErr err = (if err = GDeadline then ErrWaitTimeout else CtxErr err)"

definition takeWaiters :: "ring \<Rightarrow> notification \<Rightarrow> ring \<times> waiter list" where
  "takeWaiters r n =
    (r\<lparr>r_waiters := filter (\<lambda>w. \<not> notif_match (w_q w) n) (r_waiters r)\<rparr>,
     filter (\<lambda>w. notif_match (w_q w) n) (r_waiters r))"

definition commit_record :: "string \<Rightarrow> string \<Rightarrow> nchange list \<Rightarrow> notification" where
  "commit_record i profile changes =
     \<lparr>nt_id = i, nt_stream = StreamNETCONF, nt_profile = profile, nt_changes = cloneChanges changes\<rparr>"

text \<open>The new ring and the waiters the record goes to.\<close>

definition OnCommit :: "ring \<Rightarrow> string \<Rightarrow> string \<Rightarrow> nchange list \<Rightarrow> ring \<times> waiter list" where
  "OnCommit r i profile changes =
    (let n = commit_record i profile changes;
         kept = (if length (r_items r) \<ge> r_cap r then take (r_cap r - 1) (tl (r_items r)) else r_items r)
     in takeWaiters (r\<lparr>r_items := kept @ [n]\<rparr>) n)"

definition broadcastWiped :: "ring \<Rightarrow> ring \<times> waiter list" where
  "broadcastWiped r = (r\<lparr>r_items := [], r_waiters := []\<rparr>, r_waiters r)"

definition Clear :: "goerr option \<Rightarrow> ring \<Rightarrow> nerr + (ring \<times> waiter list)" where
  "Clear ctx r = (case ctx of Some err \<Rightarrow> Inl (CtxErr err) | None \<Rightarrow> Inr (broadcastWiped r))"

definition notif_List :: "goerr option \<Rightarrow> ring \<Rightarrow> string \<Rightarrow> nerr + notification list" where
  "notif_List ctx r q = (case ctx of
     Some err \<Rightarrow> Inl (CtxErr err)
   | None \<Rightarrow> Inr (map cloneNotification (filter (notif_match q) (r_items r))))"

definition notif_Get :: "goerr option \<Rightarrow> ring \<Rightarrow> string \<Rightarrow> nerr + notification" where
  "notif_Get ctx r i = (case ctx of
     Some err \<Rightarrow> Inl (CtxErr err)
   | None \<Rightarrow>
       (case find (\<lambda>n. nt_id n = i) (r_items r) of
          Some n \<Rightarrow> Inr (cloneNotification n)
        | None \<Rightarrow> Inl ErrNotFound))"

definition matchNewest :: "ring \<Rightarrow> string \<Rightarrow> notification option" where
  "matchNewest r q = map_option cloneNotification (find (notif_match q) (rev (r_items r)))"

definition removeWaiter :: "ring \<Rightarrow> chan \<Rightarrow> ring" where
  "removeWaiter r ch = r\<lparr>r_waiters := filter (\<lambda>w. w_ch w \<noteq> ch) (r_waiters r)\<rparr>"

section \<open>The system: waiters, channels and sends\<close>

record notif_sys =
  ns_ring :: ring
  ns_next :: chan
  ns_parked :: "(chan \<times> string) list"
  ns_sends :: "(chan \<times> (nerr + notification)) list"
  ns_bufs :: "(chan \<times> (nerr + notification)) list"
  ns_done :: "(string \<times> (nerr + notification)) list"

datatype notif_op =
    DoCommit string string "nchange list"
  | DoWipe
  | DoWait "goerr option" string
  | DoSend chan
  | DoRecv chan
  | DoCancel chan goerr

text \<open>
  \<open>DoWait\<close> is \<open>Wait\<close> up to its \<open>select\<close>, \<open>DoRecv\<close> and \<open>DoCancel\<close> are the two branches of the
  \<open>select\<close>. \<open>DoSend\<close> is one pending send to a channel of capacity one: it blocks, and changes
  nothing, while the buffer is full. A finished call is logged with its query and result.
\<close>

fun notif_step :: "notif_sys \<Rightarrow> notif_op \<Rightarrow> notif_sys" where
  "notif_step s (DoCommit i profile changes) =
    (let (r, taken) = OnCommit (ns_ring s) i profile changes;
         n = commit_record i profile changes
     in s\<lparr>ns_ring := r, ns_sends := ns_sends s @ map (\<lambda>w. (w_ch w, Inr (cloneNotification n))) taken\<rparr>)"
| "notif_step s DoWipe =
    (let (r, taken) = broadcastWiped (ns_ring s)
     in s\<lparr>ns_ring := r, ns_sends := ns_sends s @ map (\<lambda>w. (w_ch w, Inl ErrStoreWiped)) taken\<rparr>)"
| "notif_step s (DoWait ctx q) = (case ctx of
     Some err \<Rightarrow> s\<lparr>ns_done := (q, Inl (waitErr err)) # ns_done s\<rparr>
   | None \<Rightarrow>
       (case matchNewest (ns_ring s) q of
          Some n \<Rightarrow> s\<lparr>ns_done := (q, Inr n) # ns_done s\<rparr>
        | None \<Rightarrow>
            s\<lparr>ns_ring := (ns_ring s)\<lparr>r_waiters := r_waiters (ns_ring s) @ [\<lparr>w_q = q, w_ch = ns_next s\<rparr>]\<rparr>,
              ns_next := Suc (ns_next s),
              ns_parked := (ns_next s, q) # ns_parked s\<rparr>))"
| "notif_step s (DoSend ch) = (case (map_of (ns_sends s) ch, map_of (ns_bufs s) ch) of
     (Some res, None) \<Rightarrow>
       s\<lparr>ns_sends := AList.delete ch (ns_sends s), ns_bufs := (ch, res) # ns_bufs s\<rparr>
   | _ \<Rightarrow> s)"
| "notif_step s (DoRecv ch) = (case (map_of (ns_parked s) ch, map_of (ns_bufs s) ch) of
     (Some q, Some res) \<Rightarrow>
       s\<lparr>ns_parked := AList.delete ch (ns_parked s), ns_bufs := AList.delete ch (ns_bufs s),
         ns_done := (q, res) # ns_done s\<rparr>
   | _ \<Rightarrow> s)"
| "notif_step s (DoCancel ch err) = (case map_of (ns_parked s) ch of
     Some q \<Rightarrow>
       s\<lparr>ns_ring := removeWaiter (ns_ring s) ch, ns_parked := AList.delete ch (ns_parked s),
         ns_done := (q, Inl (waitErr err)) # ns_done s\<rparr>
   | None \<Rightarrow> s)"

definition notif_init :: "int \<Rightarrow> notif_sys" where
  "notif_init n = \<lparr>ns_ring = notif_New n, ns_next = 0, ns_parked = [], ns_sends = [], ns_bufs = [], ns_done = []\<rparr>"

section \<open>The invariant\<close>

lemma cloneChanges_id [simp]: "cloneChanges cs = cs"
  by (simp add: cloneChanges_def)

lemma cloneNotification_id [simp]: "cloneNotification n = n"
  by (simp add: cloneNotification_def)

definition ring_ok :: "ring \<Rightarrow> bool" where
  "ring_ok r \<longleftrightarrow> 0 < r_cap r \<and> length (r_items r) \<le> r_cap r"

text \<open>No record in the log matches a registered waiter.\<close>

definition none_missed :: "ring \<Rightarrow> bool" where
  "none_missed r \<longleftrightarrow> (\<forall>w \<in> set (r_waiters r). \<forall>n \<in> set (r_items r). \<not> notif_match (w_q w) n)"

abbreviation live_chans :: "notif_sys \<Rightarrow> chan list" where
  "live_chans s \<equiv> map w_ch (r_waiters (ns_ring s)) @ map fst (ns_sends s) @ map fst (ns_bufs s)"

text \<open>
  Each channel is in at most one place: with a registered waiter, in a pending send or in a
  full buffer. Every blocked call has its channel in one of them, and a registered waiter
  belongs to a blocked call with the same query.
\<close>

definition chans_ok :: "notif_sys \<Rightarrow> bool" where
  "chans_ok s \<longleftrightarrow> distinct (live_chans s) \<and> (\<forall>ch \<in> set (live_chans s). ch < ns_next s)
     \<and> distinct (map fst (ns_parked s)) \<and> (\<forall>ch \<in> fst ` set (ns_parked s). ch < ns_next s)
     \<and> fst ` set (ns_parked s) \<subseteq> set (live_chans s)
     \<and> (\<forall>w \<in> set (r_waiters (ns_ring s)). (w_ch w, w_q w) \<in> set (ns_parked s))"

definition results_ok :: "notif_sys \<Rightarrow> bool" where
  "results_ok s \<longleftrightarrow>
     (\<forall>ch n q. (ch, Inr n) \<in> set (ns_sends s @ ns_bufs s) \<longrightarrow> (ch, q) \<in> set (ns_parked s) \<longrightarrow> notif_match q n)
     \<and> (\<forall>q n. (q, Inr n) \<in> set (ns_done s) \<longrightarrow> notif_match q n)"

definition notif_inv :: "notif_sys \<Rightarrow> bool" where
  "notif_inv s \<longleftrightarrow> ring_ok (ns_ring s) \<and> none_missed (ns_ring s) \<and> chans_ok s \<and> results_ok s"

lemma OnCommit_items:
  "ring_ok r \<Longrightarrow> r_items (fst (OnCommit r i p cs)) = last_n (r_cap r) (r_items r @ [commit_record i p cs])"
proof -
  assume ok: "ring_ok r"
  show ?thesis
  proof (cases "length (r_items r) \<ge> r_cap r")
    case True
    with ok have len: "length (r_items r) = r_cap r" "0 < r_cap r" by (auto simp: ring_ok_def)
    then have "r_items r \<noteq> []" by auto
    with len True show ?thesis
      by (cases "r_items r") (simp_all add: OnCommit_def takeWaiters_def last_n_def Let_def)
  qed (simp add: OnCommit_def takeWaiters_def last_n_def Let_def)
qed

lemma OnCommit_cap [simp]: "r_cap (fst (OnCommit r i p cs)) = r_cap r"
  by (simp add: OnCommit_def takeWaiters_def Let_def)

lemma OnCommit_waiters:
  "r_waiters (fst (OnCommit r i p cs)) = filter (\<lambda>w. \<not> notif_match (w_q w) (commit_record i p cs)) (r_waiters r)"
  "snd (OnCommit r i p cs) = filter (\<lambda>w. notif_match (w_q w) (commit_record i p cs)) (r_waiters r)"
  by (simp_all add: OnCommit_def takeWaiters_def Let_def)

lemma OnCommit_ok: "ring_ok r \<Longrightarrow> ring_ok (fst (OnCommit r i p cs))"
  using OnCommit_items [of r i p cs] by (simp add: ring_ok_def)

lemma OnCommit_none_missed: "ring_ok r \<Longrightarrow> none_missed r \<Longrightarrow> none_missed (fst (OnCommit r i p cs))"
  using set_last_n [of "r_cap r" "r_items r @ [commit_record i p cs]"]
  by (auto simp: none_missed_def OnCommit_items OnCommit_waiters)

interpretation rlog: bounded_log "\<lambda>r x. fst (OnCommit r (fst x) (fst (snd x)) (snd (snd x)))" r_items
    "\<lambda>_ x. commit_record (fst x) (fst (snd x)) (snd (snd x))" r_cap ring_ok
  by unfold_locales (simp_all add: OnCommit_items OnCommit_ok ring_ok_def)

lemma distinct_split:
  "distinct (map f xs @ ys) \<Longrightarrow> distinct (map f (filter (\<lambda>x. \<not> P x) xs) @ ys @ map f (filter P xs))"
  by (induction xs) auto

lemma apart: "distinct (xs @ ys @ zs) \<Longrightarrow> x \<in> set zs \<Longrightarrow> x \<notin> set xs \<and> x \<notin> set ys"
  by auto

lemma chans_distinct: "chans_ok s \<Longrightarrow> distinct (live_chans s)"
  by (simp only: chans_ok_def)

lemma matchNewest_None: "matchNewest r q = None \<longleftrightarrow> (\<forall>n \<in> set (r_items r). \<not> notif_match q n)"
  by (auto simp: matchNewest_def find_None_iff)

lemma matchNewest_Some: "matchNewest r q = Some n \<Longrightarrow> n \<in> set (r_items r) \<and> notif_match q n"
  by (auto simp: matchNewest_def find_Some_iff) (metis nth_mem set_rev length_rev)

text \<open>Registered waiters that get a result move their channel from the ring to the sends.\<close>

lemma taken_chans:
  assumes "chans_ok s"
  shows "chans_ok (s\<lparr>ns_ring := (ns_ring s)\<lparr>r_items := its, r_waiters := filter (\<lambda>w. \<not> P w) (r_waiters (ns_ring s))\<rparr>,
    ns_sends := ns_sends s @ map (\<lambda>w. (w_ch w, res)) (filter P (r_waiters (ns_ring s)))\<rparr>)" (is "chans_ok ?s'")
proof -
  let ?ws = "r_waiters (ns_ring s)"
  have live: "live_chans ?s' = map w_ch (filter (\<lambda>w. \<not> P w) ?ws) @ (map fst (ns_sends s) @ map w_ch (filter P ?ws)) @ map fst (ns_bufs s)"
    by (simp add: comp_def)
  have set: "set (live_chans ?s') = set (live_chans s)" unfolding live by auto
  have "distinct (map w_ch (filter (\<lambda>w. \<not> P w) ?ws) @ (map fst (ns_sends s) @ map fst (ns_bufs s)) @ map w_ch (filter P ?ws))"
    using chans_distinct [OF assms] by (intro distinct_split) simp
  then have "distinct (live_chans ?s')"
    unfolding live distinct_append set_append by blast
  with assms show ?thesis unfolding chans_ok_def set by simp
qed

lemma taken_results:
  assumes "chans_ok s" and "results_ok s"
    and "\<And>w n. w \<in> set (r_waiters (ns_ring s)) \<Longrightarrow> P w \<Longrightarrow> res = Inr n \<Longrightarrow> notif_match (w_q w) n"
  shows "results_ok (s\<lparr>ns_ring := r, ns_sends := ns_sends s @ map (\<lambda>w. (w_ch w, res)) (filter P (r_waiters (ns_ring s)))\<rparr>)"
proof -
  have "notif_match q n" if "w \<in> set (r_waiters (ns_ring s))" "P w" "res = Inr n" "(w_ch w, q) \<in> set (ns_parked s)" for w n q
  proof -
    from assms(1) that(1) have "(w_ch w, w_q w) \<in> set (ns_parked s)" "distinct (map fst (ns_parked s))"
      by (auto simp: chans_ok_def)
    with that(4) have "q = w_q w" by (metis eq_key_imp_eq_value)
    with assms(3) that show ?thesis by blast
  qed
  with assms(2) show ?thesis by (auto simp: results_ok_def)
qed

lemma commit_inv: "notif_inv s \<Longrightarrow> notif_inv (notif_step s (DoCommit i p cs))"
proof -
  assume inv: "notif_inv s"
  let ?r = "ns_ring s" and ?n = "commit_record i p cs"
  let ?P = "\<lambda>w. notif_match (w_q w) ?n"
  have r: "fst (OnCommit ?r i p cs) = ?r\<lparr>r_items := r_items (fst (OnCommit ?r i p cs)), r_waiters := filter (\<lambda>w. \<not> ?P w) (r_waiters ?r)\<rparr>"
    by (simp add: OnCommit_def takeWaiters_def Let_def)
  have step: "notif_step s (DoCommit i p cs) = s\<lparr>ns_ring := fst (OnCommit ?r i p cs),
      ns_sends := ns_sends s @ map (\<lambda>w. (w_ch w, Inr ?n)) (filter ?P (r_waiters ?r))\<rparr>"
    by (simp add: OnCommit_waiters Let_def split: prod.split) (metis OnCommit_waiters(2) snd_conv)
  have "chans_ok (notif_step s (DoCommit i p cs))"
    unfolding step by (subst r, rule taken_chans) (use inv in \<open>simp add: notif_inv_def\<close>)
  moreover have "results_ok (notif_step s (DoCommit i p cs))"
    unfolding step by (rule taken_results) (use inv in \<open>auto simp: notif_inv_def\<close>)
  ultimately show ?thesis
    using inv OnCommit_ok OnCommit_none_missed unfolding notif_inv_def step by simp
qed

lemma wipe_inv: "notif_inv s \<Longrightarrow> notif_inv (notif_step s DoWipe)"
proof -
  assume inv: "notif_inv s"
  have step: "notif_step s DoWipe = s\<lparr>ns_ring := (ns_ring s)\<lparr>r_items := [], r_waiters := filter (\<lambda>w. \<not> True) (r_waiters (ns_ring s))\<rparr>,
      ns_sends := ns_sends s @ map (\<lambda>w. (w_ch w, Inl ErrStoreWiped)) (filter (\<lambda>w. True) (r_waiters (ns_ring s)))\<rparr>"
    by (simp add: broadcastWiped_def)
  have "chans_ok (notif_step s DoWipe)"
    unfolding step by (rule taken_chans) (use inv in \<open>simp add: notif_inv_def\<close>)
  moreover have "results_ok (notif_step s DoWipe)"
    unfolding step by (rule taken_results) (use inv in \<open>auto simp: notif_inv_def\<close>)
  ultimately show ?thesis
    using inv unfolding notif_inv_def step by (simp add: ring_ok_def none_missed_def)
qed

lemma done_inv:
  "notif_inv s \<Longrightarrow> (\<And>n. res = Inr n \<Longrightarrow> notif_match q n) \<Longrightarrow> notif_inv (s\<lparr>ns_done := (q, res) # ns_done s\<rparr>)"
  by (auto simp: notif_inv_def chans_ok_def results_ok_def)

lemma park_chans:
  assumes "chans_ok s"
  shows "chans_ok (s\<lparr>ns_ring := (ns_ring s)\<lparr>r_waiters := r_waiters (ns_ring s) @ [\<lparr>w_q = q, w_ch = ns_next s\<rparr>]\<rparr>,
    ns_next := Suc (ns_next s), ns_parked := (ns_next s, q) # ns_parked s\<rparr>)" (is "chans_ok ?s'")
proof -
  have fresh: "ns_next s \<notin> set (live_chans s)" "ns_next s \<notin> fst ` set (ns_parked s)"
    using assms unfolding chans_ok_def by blast+
  have live: "set (live_chans ?s') = insert (ns_next s) (set (live_chans s))" by auto
  have "distinct (live_chans ?s')" using assms fresh(1) by (auto simp: chans_ok_def)
  then show ?thesis
    unfolding chans_ok_def live using assms fresh(2) unfolding chans_ok_def by (auto simp: less_Suc_eq)
qed

lemma wait_inv: "notif_inv s \<Longrightarrow> notif_inv (notif_step s (DoWait ctx q))"
proof (cases ctx)
  case None
  assume inv: "notif_inv s"
  show ?thesis
  proof (cases "matchNewest (ns_ring s) q")
    case m: None
    have fresh: "\<And>res. (ns_next s, res) \<notin> set (ns_sends s @ ns_bufs s)"
    proof
      fix res assume "(ns_next s, res) \<in> set (ns_sends s @ ns_bufs s)"
      then have "ns_next s \<in> set (live_chans s)" by (force simp: image_iff)
      with inv show False unfolding notif_inv_def chans_ok_def by blast
    qed
    have "results_ok (notif_step s (DoWait ctx q))"
      using inv fresh by (auto simp: notif_inv_def results_ok_def None m)
    moreover have "none_missed (ns_ring (notif_step s (DoWait ctx q)))"
      using inv m [unfolded matchNewest_None] by (auto simp: notif_inv_def none_missed_def None m)
    ultimately show ?thesis
      using inv park_chans [of s q] by (simp add: notif_inv_def None m ring_ok_def)
  next
    case (Some n)
    with inv done_inv [of s "Inr n" q] matchNewest_Some [OF Some] show ?thesis by (simp add: None)
  qed
next
  case (Some err)
  assume "notif_inv s"
  with done_inv [of s "Inl (waitErr err)" q] show ?thesis by (simp add: Some)
qed

lemma in_delete: "x \<in> set (AList.delete k m) \<longleftrightarrow> x \<in> set m \<and> fst x \<noteq> k"
  by (auto simp: AList.delete_eq)

lemma fst_delete: "map fst (AList.delete k m) = filter (\<lambda>x. x \<noteq> k) (map fst m)"
  by (induction m) (auto simp: AList.delete_eq)

lemma send_inv: "notif_inv s \<Longrightarrow> notif_inv (notif_step s (DoSend ch))"
proof -
  assume inv: "notif_inv s"
  show ?thesis
  proof (cases "map_of (ns_bufs s) ch = None \<and> map_of (ns_sends s) ch \<noteq> None")
    case True
    then obtain res where res: "map_of (ns_sends s) ch = Some res" "map_of (ns_bufs s) ch = None" by auto
    let ?s' = "s\<lparr>ns_sends := AList.delete ch (ns_sends s), ns_bufs := (ch, res) # ns_bufs s\<rparr>"
    have mem: "(ch, res) \<in> set (ns_sends s)" using res(1) by (rule map_of_SomeD)
    then have ch: "ch \<in> set (map fst (ns_sends s))" by (metis fst_conv image_eqI list.set_map)
    then have live: "set (live_chans ?s') = set (live_chans s)"
      by (auto simp: fst_delete simp del: map_map set_map)
    have "distinct (live_chans s)" using inv by (simp add: notif_inv_def chans_ok_def)
    then have "distinct (live_chans ?s')"
      using ch by (auto simp: fst_delete simp del: map_map set_map)
    then have "chans_ok ?s'"
      unfolding chans_ok_def live using inv unfolding notif_inv_def chans_ok_def by simp
    moreover have "results_ok ?s'"
      using inv mem by (auto simp: notif_inv_def results_ok_def in_delete)
    ultimately show ?thesis using inv res by (simp add: notif_inv_def)
  qed (use inv in \<open>auto split: option.split\<close>)
qed

lemma recv_inv: "notif_inv s \<Longrightarrow> notif_inv (notif_step s (DoRecv ch))"
proof -
  assume inv: "notif_inv s"
  show ?thesis
  proof (cases "map_of (ns_parked s) ch \<noteq> None \<and> map_of (ns_bufs s) ch \<noteq> None")
    case True
    then obtain q res where q: "map_of (ns_parked s) ch = Some q" "map_of (ns_bufs s) ch = Some res" by auto
    let ?s' = "s\<lparr>ns_parked := AList.delete ch (ns_parked s), ns_bufs := AList.delete ch (ns_bufs s)\<rparr>"
    note mem = map_of_SomeD [OF q(1)] map_of_SomeD [OF q(2)]
    have ok: "chans_ok s" using inv by (simp add: notif_inv_def)
    have "ch \<in> set (map fst (ns_bufs s))" using mem(2) by (metis fst_conv image_eqI list.set_map)
    then have nw: "ch \<notin> set (map w_ch (r_waiters (ns_ring s)))"
      using apart [OF chans_distinct [OF ok]] by blast
    then have "(w_ch w, w_q w) \<in> set (AList.delete ch (ns_parked s))" if "w \<in> set (r_waiters (ns_ring s))" for w
      using that ok by (auto simp: in_delete chans_ok_def)
    moreover have "set (live_chans s) - {ch} \<subseteq> set (live_chans ?s')"
      by (auto simp: fst_delete simp del: map_map set_map)
    moreover have "distinct (live_chans ?s')" "set (live_chans ?s') \<subseteq> set (live_chans s)"
      using ok by (auto simp: chans_ok_def fst_delete simp del: map_map set_map)
    ultimately have "chans_ok ?s'"
      using ok unfolding chans_ok_def by (simp add: fst_delete set_map [symmetric] del: map_map set_map) blast
    moreover have "results_ok ?s'" using inv by (auto simp: notif_inv_def results_ok_def in_delete)
    moreover have "notif_match q n" if "res = Inr n" for n
      using inv mem that by (auto simp: notif_inv_def results_ok_def)
    ultimately show ?thesis
      using inv q done_inv [of ?s' res q] by (simp add: notif_inv_def)
  qed (use inv in \<open>auto split: option.split\<close>)
qed

lemma cancel_inv: "notif_inv s \<Longrightarrow> notif_inv (notif_step s (DoCancel ch err))"
proof (cases "map_of (ns_parked s) ch")
  case (Some q)
  assume inv: "notif_inv s"
  let ?s' = "s\<lparr>ns_ring := removeWaiter (ns_ring s) ch, ns_parked := AList.delete ch (ns_parked s)\<rparr>"
  have ws: "map w_ch (r_waiters (removeWaiter (ns_ring s) ch)) = filter (\<lambda>x. x \<noteq> ch) (map w_ch (r_waiters (ns_ring s)))"
    by (simp add: removeWaiter_def filter_map comp_def)
  have ok: "chans_ok s" using inv by (simp add: notif_inv_def)
  have "set (live_chans s) - {ch} \<subseteq> set (live_chans ?s')" "set (live_chans ?s') \<subseteq> set (live_chans s)"
    using ws by (auto simp del: map_map set_map)
  moreover have "distinct (live_chans ?s')" using ok ws by (auto simp: chans_ok_def simp del: map_map set_map)
  moreover have "\<forall>w \<in> set (r_waiters (ns_ring ?s')). (w_ch w, w_q w) \<in> set (ns_parked ?s')"
    using ok by (auto simp: removeWaiter_def chans_ok_def in_delete)
  ultimately have "chans_ok ?s'"
    using ok unfolding chans_ok_def by (simp add: fst_delete set_map [symmetric] del: map_map set_map) blast
  moreover have "results_ok ?s'" using inv by (auto simp: notif_inv_def results_ok_def in_delete)
  moreover have "ring_ok (ns_ring ?s')" "none_missed (ns_ring ?s')"
    using inv by (auto simp: notif_inv_def ring_ok_def none_missed_def removeWaiter_def)
  ultimately show ?thesis
    using Some done_inv [of ?s' "Inl (waitErr err)" q] by (simp add: notif_inv_def)
qed simp

lemma notif_step_inv: "notif_inv s \<Longrightarrow> notif_inv (notif_step s x)"
  using commit_inv wipe_inv wait_inv send_inv recv_inv cancel_inv by (cases x) auto

interpretation nsys: invariant_machine notif_step notif_inv
  by unfold_locales (rule notif_step_inv)

lemma notif_init_inv: "notif_inv (notif_init n)"
  by (simp add: notif_inv_def notif_init_def notif_New_def ring_ok_def none_missed_def chans_ok_def results_ok_def Let_def)

lemma entries_map: "rlog.entries r xs = map (\<lambda>x. commit_record (fst x) (fst (snd x)) (snd (snd x))) xs"
  by (induction xs arbitrary: r) auto

lemma step_cap [simp]: "r_cap (ns_ring (notif_step s x)) = r_cap (ns_ring s)"
proof (cases x)
  case (DoCommit i p cs)
  then show ?thesis
    using OnCommit_cap [of "ns_ring s" i p cs] by (auto simp del: OnCommit_cap split: prod.split)
qed (auto simp: broadcastWiped_def removeWaiter_def split: option.split)

lemma run_cap [simp]: "r_cap (ns_ring (run_steps notif_step s xs)) = r_cap (ns_ring s)"
  by (induction xs arbitrary: s) auto

lemma wake_waiter:
  assumes inv: "notif_inv s" and "w \<in> set (r_waiters (ns_ring s))"
    and "w_q w = [] \<or> w_q w = profile"
  shows "(w_q w, Inr (commit_record i profile changes)) \<in>
    set (ns_done (run_steps notif_step s [DoCommit i profile changes, DoSend (w_ch w), DoRecv (w_ch w)]))"
proof -
  let ?n = "commit_record i profile changes"
  let ?s1 = "notif_step s (DoCommit i profile changes)"
  have sends: "ns_sends ?s1 = ns_sends s @ map (\<lambda>w. (w_ch w, Inr ?n)) (filter (\<lambda>w. notif_match (w_q w) ?n) (r_waiters (ns_ring s)))"
    using OnCommit_waiters(2) [of "ns_ring s" i profile changes] by (auto split: prod.split)
  have bufs: "ns_bufs ?s1 = ns_bufs s" "ns_parked ?s1 = ns_parked s" by (auto split: prod.split)
  have inv1: "notif_inv ?s1" using notif_step_inv [OF inv] .
  then have d: "distinct (map fst (ns_sends ?s1))" "distinct (map fst (ns_parked ?s1))"
    by (auto simp: notif_inv_def chans_ok_def)
  have "notif_match (w_q w) ?n" using assms(3) by (auto simp: notif_match_def commit_record_def)
  then have mem: "(w_ch w, Inr ?n) \<in> set (ns_sends ?s1)" unfolding sends using assms(2) by auto
  then have s1: "map_of (ns_sends ?s1) (w_ch w) = Some (Inr ?n)" using d(1) by simp
  have "w_ch w \<notin> set (map fst (ns_bufs s))"
  proof -
    have "w_ch w \<in> set (map w_ch (r_waiters (ns_ring s)))" using assms(2) by simp
    then show ?thesis using apart [OF chans_distinct, of s "w_ch w"] inv unfolding notif_inv_def by blast
  qed
  then have b1: "map_of (ns_bufs ?s1) (w_ch w) = None" by (simp add: bufs map_of_eq_None_iff del: notif_step.simps)
  have "(w_ch w, w_q w) \<in> set (ns_parked ?s1)" using inv assms(2) by (auto simp: bufs notif_inv_def chans_ok_def simp del: notif_step.simps)
  then have p1: "map_of (ns_parked ?s1) (w_ch w) = Some (w_q w)" using d(2) by simp
  show ?thesis
    using s1 b1 p1 by (simp del: notif_step.simps(1))
qed

section \<open>Properties\<close>

text \<open>C26: Whatever commits, wipes, waits, sends, receives and cancellations interleave: a send to a
  waiter's channel never blocks, every blocked call is registered or has its result on the
  way (no wake-up is lost), no stored record matches a registered waiter, a call that returns
  a record returns one that matches its query, and the log holds at most 4096 records.\<close>

theorem notif_safety:
  assumes "s = run_steps notif_step (notif_init n) ops"
  shows "(\<forall>(ch, res) \<in> set (ns_sends s). map_of (ns_bufs s) ch = None)
    \<and> (\<forall>(ch, q) \<in> set (ns_parked s). ch \<in> set (map w_ch (r_waiters (ns_ring s))) \<or> ch \<in> fst ` set (ns_sends s @ ns_bufs s))
    \<and> (\<forall>w \<in> set (r_waiters (ns_ring s)). \<forall>m \<in> set (r_items (ns_ring s)). \<not> notif_match (w_q w) m)
    \<and> (\<forall>q m. (q, Inr m) \<in> set (ns_done s) \<longrightarrow> notif_match q m)
    \<and> length (r_items (ns_ring s)) \<le> 4096"
proof -
  have inv: "notif_inv s" unfolding assms by (rule nsys.run_inv [OF notif_init_inv])
  then have ch: "chans_ok s" by (simp add: notif_inv_def)
  have "map_of (ns_bufs s) ch = None" if "(ch, res) \<in> set (ns_sends s)" for ch res
  proof -
    have "ch \<in> set (map fst (ns_sends s))" using that by force
    then have "ch \<notin> set (map fst (ns_bufs s))"
      using apart [OF chans_distinct [OF ch], of ch] by blast
    then show ?thesis by (simp add: map_of_eq_None_iff)
  qed
  moreover have "ch \<in> set (map w_ch (r_waiters (ns_ring s))) \<or> ch \<in> fst ` set (ns_sends s @ ns_bufs s)"
    if "(ch, q) \<in> set (ns_parked s)" for ch q
  proof -
    have "ch \<in> fst ` set (ns_parked s)" using that by (metis fst_conv image_eqI)
    with ch have "ch \<in> set (live_chans s)" unfolding chans_ok_def by blast
    then show ?thesis by auto
  qed
  moreover have "r_cap (ns_ring s) \<le> 4096"
    unfolding assms by (auto simp: notif_init_def notif_New_def Let_def)
  ultimately show ?thesis
    using inv unfolding notif_inv_def ring_ok_def none_missed_def results_ok_def
    by (intro conjI; (blast | simp))
qed

theorem notif_safety_witness:
  "length (r_items (ns_ring (run_steps notif_step (notif_init 1)
     [DoWait None [], DoCommit ''id'' ''lab'' [], DoSend 0, DoRecv 0]))) \<le> 4096"
  using notif_safety [OF refl, of 1 "[DoWait None [], DoCommit ''id'' ''lab'' [], DoSend 0, DoRecv 0]"] by blast

text \<open>A commit wakes a matching waiter: once the send and the receive have happened, the
  blocked call has returned the record of that commit.\<close>

theorem commit_wakes_waiter:
  assumes "s = run_steps notif_step (notif_init n) ops" and "w \<in> set (r_waiters (ns_ring s))"
    and "w_q w = [] \<or> w_q w = profile"
  shows "(w_q w, Inr (commit_record i profile changes)) \<in>
    set (ns_done (run_steps notif_step s [DoCommit i profile changes, DoSend (w_ch w), DoRecv (w_ch w)]))"
proof -
  have "notif_inv s" unfolding assms(1) by (rule nsys.run_inv [OF notif_init_inv])
  from wake_waiter [OF this assms(2,3)] show ?thesis .
qed

theorem commit_wakes_waiter_witness:
  "([], Inr (commit_record ''id'' ''lab'' [])) \<in> set (ns_done (run_steps notif_step
     (run_steps notif_step (notif_init 0) [DoWait None []]) [DoCommit ''id'' ''lab'' [], DoSend 0, DoRecv 0]))"
  using commit_wakes_waiter [OF refl, of "\<lparr>w_q = [], w_ch = 0\<rparr>" 0 "[DoWait None []]" "''lab''" "''id''" "[]"]
  by (simp add: notif_init_def notif_New_def matchNewest_def Let_def del: notif_step.simps(1,4,5))

text \<open>The log is the newest records: after any commits to a new ring it holds exactly the last
  \<open>cap\<close> of them, oldest first.\<close>

theorem ring_keeps_newest:
  "r_items (run_steps (\<lambda>r x. fst (OnCommit r (fst x) (fst (snd x)) (snd (snd x)))) (notif_New n) commits)
     = last_n (r_cap (notif_New n)) (map (\<lambda>x. commit_record (fst x) (fst (snd x)) (snd (snd x))) commits)"
proof -
  have "ring_ok (notif_New n)" "r_items (notif_New n) = []"
    by (simp_all add: ring_ok_def notif_New_def Let_def)
  then show ?thesis using rlog.recs_run [of "notif_New n" commits] by (simp add: entries_map)
qed

end
