(* ===== verification/Datastore.thy ===== *)
theory Datastore
  imports Yang_Edit Notif "HOL-Library.Word"
begin

text \<open>
  Package \<open>datastore\<close>: the running, candidate and startup trees of one profile instance, their
  locks and the store generation (a 64-bit counter). Every operation runs under the handle's
  mutex and is one definition: it returns its error or the new handle; \<open>Commit\<close> also returns the
  event it hands to the sink after releasing the mutex. The theorems: a lock keeps the other
  sessions out over any sequence of calls, what commit, discard and the direct write to
  running do, what the generation counts, and the shape every reachable handle keeps.
\<close>

section \<open>State\<close>

abbreviation Running :: string where "Running \<equiv> ''running''"
abbreviation Candidate :: string where "Candidate \<equiv> ''candidate''"
abbreviation Startup :: string where "Startup \<equiv> ''startup''"

record edit_op =
  eo_op :: string
  eo_path :: string
  eo_value :: edit_value

text \<open>What the operations read of a context: its error and the session it carries.\<close>

record ctx =
  ctx_err :: "goerr option"
  ctx_session :: "string option"

definition WithSessionID :: "ctx option \<Rightarrow> string \<Rightarrow> ctx" where
  "WithSessionID c sid = (case c of
     None \<Rightarrow> \<lparr>ctx_err = None, ctx_session = Some sid\<rparr>
   | Some c \<Rightarrow> c\<lparr>ctx_session := Some sid\<rparr>)"

definition sessionIDFrom :: "ctx \<Rightarrow> string" where
  "sessionIDFrom c = (case ctx_session c of None \<Rightarrow> [] | Some s \<Rightarrow> s)"

record handle =
  h_profile :: string
  h_running :: node
  h_candidate :: node
  h_startup :: node
  h_sink :: bool
  h_gen :: "64 word"
  h_locks :: "string gomap"

definition ds_New :: "golib \<Rightarrow> string \<Rightarrow> node \<Rightarrow> node \<Rightarrow> node \<Rightarrow> bool \<Rightarrow> handle" where
  "ds_New E profile running candidate startup sink =
    (let r = node_Clone E running;
         c = (if IsZero candidate then node_Clone E r else node_Clone E candidate);
         s = (if IsZero startup then node_Clone E r else node_Clone E startup)
     in \<lparr>h_profile = profile, h_running = r, h_candidate = c, h_startup = s, h_sink = sink,
         h_gen = 0, h_locks = []\<rparr>)"

section \<open>Helpers\<close>

definition store :: "handle \<Rightarrow> string \<Rightarrow> derr + node" where
  "store h name =
    (if name = Running then Inr (h_running h)
     else if name = Candidate then Inr (h_candidate h)
     else if name = Startup then Inr (h_startup h)
     else Inl (ValidationFailed ''unknown datastore'' []))"

definition lock_denied :: "string \<Rightarrow> derr" where
  "lock_denied holder = LockDenied (''datastore is locked by session '' @ holder)"

definition denyIfLocked :: "handle \<Rightarrow> string \<Rightarrow> string \<Rightarrow> derr option" where
  "denyIfLocked h st sid = (case map_of (h_locks h) st of
     None \<Rightarrow> None
   | Some holder \<Rightarrow> if sid \<noteq> [] \<and> holder = sid then None else Some (lock_denied holder))"

definition toNotif :: "change list \<Rightarrow> nchange list" where
  "toNotif cs = map (\<lambda>c. \<lparr>nc_path = c_path c, nc_operation = c_operation c\<rparr>) cs"

definition dirty :: "golib \<Rightarrow> handle \<Rightarrow> bool" where
  "dirty E h \<longleftrightarrow> \<not> node_Equal E (h_running h) (h_candidate h)"

definition Locked :: "handle \<Rightarrow> string \<Rightarrow> string option" where
  "Locked h st = map_of (h_locks h) st"

definition LockCount :: "handle option \<Rightarrow> nat" where
  "LockCount h = (case h of
     None \<Rightarrow> 0
   | Some h \<Rightarrow> length (filter (\<lambda>st. Locked h st \<noteq> None) [Running, Candidate, Startup]))"

section \<open>Operations\<close>

definition Get :: "golib \<Rightarrow> ctx \<Rightarrow> handle \<Rightarrow> string \<Rightarrow> string \<Rightarrow> goerr + node" where
  "Get E c h st filt = (case ctx_err c of
     Some err \<Rightarrow> Inl err
   | None \<Rightarrow>
       (case store h st of
          Inl err \<Rightarrow> Inl (GDomain err)
        | Inr n \<Rightarrow>
            (case ParsePath E filt of
               Inl err \<Rightarrow> Inl (GDomain err)
             | Inr p \<Rightarrow> Inr (Subtree E n p))))"

definition Edit :: "golib \<Rightarrow> ctx \<Rightarrow> handle \<Rightarrow> string \<Rightarrow> edit_op \<Rightarrow> goerr + handle" where
  "Edit E c h st oper = (case ctx_err c of
     Some err \<Rightarrow> Inl err
   | None \<Rightarrow>
       if st \<noteq> Candidate then Inl (GDomain (NotWritable ''edit-config target must be candidate''))
       else (case denyIfLocked h st (sessionIDFrom c) of
               Some err \<Rightarrow> Inl (GDomain err)
             | None \<Rightarrow>
                 (case Apply E (Some (h_candidate h)) (eo_op oper) (eo_path oper) (eo_value oper) of
                    Inl err \<Rightarrow> Inl (GDomain err)
                  | Inr n \<Rightarrow> Inr (h\<lparr>h_candidate := n\<rparr>))))"

definition WriteRunningIfCandidateClean :: "golib \<Rightarrow> ctx \<Rightarrow> handle \<Rightarrow> edit_op \<Rightarrow> goerr + handle" where
  "WriteRunningIfCandidateClean E c h oper = (case ctx_err c of
     Some err \<Rightarrow> Inl err
   | None \<Rightarrow>
       if dirty E h then Inl (GDomain (CandidateDirty ''candidate is dirty''))
       else if map_of (h_locks h) Candidate \<noteq> None then Inl (GDomain (CandidateDirty ''candidate is locked''))
       else (case denyIfLocked h Running (sessionIDFrom c) of
               Some err \<Rightarrow> Inl (GDomain err)
             | None \<Rightarrow>
                 (case Apply E (Some (node_Clone E (h_running h))) (eo_op oper) (eo_path oper) (eo_value oper) of
                    Inl err \<Rightarrow> Inl (GDomain err)
                  | Inr r \<Rightarrow>
                      (case Apply E (Some (node_Clone E (h_candidate h))) (eo_op oper) (eo_path oper) (eo_value oper) of
                         Inl err \<Rightarrow> Inl (GDomain err)
                       | Inr n \<Rightarrow> Inr (h\<lparr>h_running := r, h_candidate := n\<rparr>)))))"

definition Copy :: "golib \<Rightarrow> ctx \<Rightarrow> handle \<Rightarrow> string \<Rightarrow> string \<Rightarrow> goerr + handle" where
  "Copy E c h src dst = (case ctx_err c of
     Some err \<Rightarrow> Inl err
   | None \<Rightarrow>
       (case store h src of
          Inl err \<Rightarrow> Inl (GDomain err)
        | Inr from \<Rightarrow>
            (case store h dst of
               Inl err \<Rightarrow> Inl (GDomain err)
             | Inr _ \<Rightarrow>
                 if src = dst then Inr h
                 else (case denyIfLocked h dst (sessionIDFrom c) of
                         Some err \<Rightarrow> Inl (GDomain err)
                       | None \<Rightarrow>
                           (let cloned = node_Clone E from in
                            if dst = Running then Inr (h\<lparr>h_running := cloned, h_gen := h_gen h + 1\<rparr>)
                            else if dst = Candidate then Inr (h\<lparr>h_candidate := cloned\<rparr>)
                            else if dst = Startup then Inr (h\<lparr>h_startup := cloned, h_gen := h_gen h + 1\<rparr>)
                            else Inr h)))))"

definition Delete :: "golib \<Rightarrow> ctx \<Rightarrow> handle \<Rightarrow> string \<Rightarrow> goerr + handle" where
  "Delete E c h st = (case ctx_err c of
     Some err \<Rightarrow> Inl err
   | None \<Rightarrow>
       if st \<noteq> Startup then Inl (GDomain (NotWritable ''delete-config target must be startup''))
       else (case denyIfLocked h st (sessionIDFrom c) of
               Some err \<Rightarrow> Inl (GDomain err)
             | None \<Rightarrow>
                 (case Apply E (Some (node_Clone E (h_startup h))) OpReplace [] (EVal (VMap [])) of
                    Inl err \<Rightarrow> Inl (GDomain err)
                  | Inr n \<Rightarrow> Inr (h\<lparr>h_startup := n\<rparr>))))"

text \<open>The event is the profile and the changes that the sink gets, if there is a sink.\<close>

definition Commit :: "golib \<Rightarrow> ctx \<Rightarrow> handle \<Rightarrow> goerr + handle \<times> (string \<times> nchange list) option" where
  "Commit E c h = (case ctx_err c of
     Some err \<Rightarrow> Inl err
   | None \<Rightarrow>
       (case denyIfLocked h Candidate (sessionIDFrom c) of
          Some err \<Rightarrow> Inl (GDomain err)
        | None \<Rightarrow>
            (case denyIfLocked h Running (sessionIDFrom c) of
               Some err \<Rightarrow> Inl (GDomain err)
             | None \<Rightarrow>
                 (case Validate E (h_candidate h) of
                    Some err \<Rightarrow> Inl (GDomain err)
                  | None \<Rightarrow>
                      (let changes = toNotif (Diff E (h_running h) (h_candidate h));
                           h' = h\<lparr>h_running := node_Clone E (h_candidate h), h_gen := h_gen h + 1\<rparr>
                       in Inr (h', if h_sink h then Some (h_profile h, changes) else None))))))"

definition Discard :: "golib \<Rightarrow> ctx \<Rightarrow> handle \<Rightarrow> goerr + handle" where
  "Discard E c h = (case ctx_err c of
     Some err \<Rightarrow> Inl err
   | None \<Rightarrow>
       (case denyIfLocked h Candidate (sessionIDFrom c) of
          Some err \<Rightarrow> Inl (GDomain err)
        | None \<Rightarrow> Inr (h\<lparr>h_candidate := node_Clone E (h_running h)\<rparr>)))"

definition Lock :: "ctx \<Rightarrow> handle \<Rightarrow> string \<Rightarrow> string \<Rightarrow> goerr + handle" where
  "Lock c h st sid = (case ctx_err c of
     Some err \<Rightarrow> Inl err
   | None \<Rightarrow>
       if sid = [] then Inl (GDomain (ValidationFailed ''session id is required to lock'' []))
       else (case store h st of
               Inl err \<Rightarrow> Inl (GDomain err)
             | Inr _ \<Rightarrow>
                 (case map_of (h_locks h) st of
                    None \<Rightarrow> Inr (h\<lparr>h_locks := kv_put st sid (h_locks h)\<rparr>)
                  | Some holder \<Rightarrow>
                      if holder \<noteq> sid then Inl (GDomain (lock_denied holder))
                      else Inr (h\<lparr>h_locks := kv_put st sid (h_locks h)\<rparr>))))"

definition Unlock :: "ctx \<Rightarrow> handle \<Rightarrow> string \<Rightarrow> string \<Rightarrow> goerr + handle" where
  "Unlock c h st sid = (case ctx_err c of
     Some err \<Rightarrow> Inl err
   | None \<Rightarrow>
       (case store h st of
          Inl err \<Rightarrow> Inl (GDomain err)
        | Inr _ \<Rightarrow>
            (case map_of (h_locks h) st of
               None \<Rightarrow> Inl (GDomain (LockDenied ''datastore is not locked''))
             | Some holder \<Rightarrow>
                 if holder \<noteq> sid then Inl (GDomain (lock_denied holder))
                 else Inr (h\<lparr>h_locks := kv_del st (h_locks h)\<rparr>))))"

section \<open>Sequences of calls\<close>

datatype ds_call =
    CEdit string edit_op
  | CWrite edit_op
  | CCopy string string
  | CDelete string
  | CCommit
  | CDiscard
  | CLock string string
  | CUnlock string string

fun ds_result :: "golib \<Rightarrow> handle \<Rightarrow> ctx \<Rightarrow> ds_call \<Rightarrow> goerr + handle" where
  "ds_result E h c (CEdit st oper) = Edit E c h st oper"
| "ds_result E h c (CWrite oper) = WriteRunningIfCandidateClean E c h oper"
| "ds_result E h c (CCopy src dst) = Copy E c h src dst"
| "ds_result E h c (CDelete st) = Delete E c h st"
| "ds_result E h c CCommit = map_sum id fst (Commit E c h)"
| "ds_result E h c CDiscard = Discard E c h"
| "ds_result E h c (CLock st sid) = Lock c h st sid"
| "ds_result E h c (CUnlock st sid) = Unlock c h st sid"

text \<open>A call that fails leaves the handle as it is.\<close>

definition ds_step :: "golib \<Rightarrow> handle \<Rightarrow> ctx \<times> ds_call \<Rightarrow> handle" where
  "ds_step E h x = (case ds_result E h (fst x) (snd x) of Inl _ \<Rightarrow> h | Inr h' \<Rightarrow> h')"

section \<open>Locks\<close>

text \<open>A call that session \<open>a\<close> does not make: it carries another session or none, and for the lock
  calls names another one.\<close>

fun not_by :: "string \<Rightarrow> ctx \<times> ds_call \<Rightarrow> bool" where
  "not_by a (c, CLock st sid) = (sid \<noteq> a)"
| "not_by a (c, CUnlock st sid) = (sid \<noteq> a)"
| "not_by a (c, _) = (sessionIDFrom c \<noteq> a \<or> sessionIDFrom c = [])"

lemma deny_other:
  "map_of (h_locks h) st = Some a \<Longrightarrow> sid \<noteq> a \<or> sid = [] \<Longrightarrow> denyIfLocked h st sid = Some (lock_denied a)"
  by (auto simp: denyIfLocked_def)

lemma deny_None_iff:
  "denyIfLocked h st sid = None \<longleftrightarrow> map_of (h_locks h) st = None \<or> (sid \<noteq> [] \<and> map_of (h_locks h) st = Some sid)"
  by (auto simp: denyIfLocked_def split: option.splits)

text \<open>What each call needs to succeed, and what it then changes.\<close>

lemma Edit_Inr: "Edit E c h st oper = Inr h' \<Longrightarrow> st = Candidate \<and> denyIfLocked h Candidate (sessionIDFrom c) = None
    \<and> (\<exists>n. Apply E (Some (h_candidate h)) (eo_op oper) (eo_path oper) (eo_value oper) = Inr n \<and> h' = h\<lparr>h_candidate := n\<rparr>)"
  unfolding Edit_def by (simp split: option.splits if_splits sum.splits)

lemma Write_Inr: "WriteRunningIfCandidateClean E c h oper = Inr h' \<Longrightarrow>
    \<not> dirty E h \<and> map_of (h_locks h) Candidate = None \<and> denyIfLocked h Running (sessionIDFrom c) = None
    \<and> (\<exists>r n. Apply E (Some (node_Clone E (h_running h))) (eo_op oper) (eo_path oper) (eo_value oper) = Inr r
        \<and> Apply E (Some (node_Clone E (h_candidate h))) (eo_op oper) (eo_path oper) (eo_value oper) = Inr n
        \<and> h' = h\<lparr>h_running := r, h_candidate := n\<rparr>)"
  unfolding WriteRunningIfCandidateClean_def by (simp split: option.splits if_splits sum.splits)

lemma Delete_Inr: "Delete E c h st = Inr h' \<Longrightarrow> st = Startup \<and> denyIfLocked h Startup (sessionIDFrom c) = None
    \<and> (\<exists>n. Apply E (Some (node_Clone E (h_startup h))) OpReplace [] (EVal (VMap [])) = Inr n \<and> h' = h\<lparr>h_startup := n\<rparr>)"
  unfolding Delete_def by (simp split: option.splits if_splits sum.splits)

lemma Discard_Inr: "Discard E c h = Inr h' \<Longrightarrow> denyIfLocked h Candidate (sessionIDFrom c) = None
    \<and> h' = h\<lparr>h_candidate := node_Clone E (h_running h)\<rparr>"
  unfolding Discard_def by (simp split: option.splits)

lemma Commit_Inr: "Commit E c h = Inr (h', ev) \<Longrightarrow>
    denyIfLocked h Candidate (sessionIDFrom c) = None \<and> denyIfLocked h Running (sessionIDFrom c) = None
    \<and> Validate E (h_candidate h) = None
    \<and> h' = h\<lparr>h_running := node_Clone E (h_candidate h), h_gen := h_gen h + 1\<rparr>
    \<and> ev = (if h_sink h then Some (h_profile h, toNotif (Diff E (h_running h) (h_candidate h))) else None)"
  unfolding Commit_def Let_def by (simp split: option.splits if_splits)

lemma Copy_Inr: "Copy E c h src dst = Inr h' \<Longrightarrow> (src = dst \<and> h' = h)
    \<or> (src \<noteq> dst \<and> denyIfLocked h dst (sessionIDFrom c) = None \<and> (\<exists>from. store h src = Inr from
        \<and> ((dst = Running \<and> h' = h\<lparr>h_running := node_Clone E from, h_gen := h_gen h + 1\<rparr>)
          \<or> (dst = Candidate \<and> h' = h\<lparr>h_candidate := node_Clone E from\<rparr>)
          \<or> (dst = Startup \<and> h' = h\<lparr>h_startup := node_Clone E from, h_gen := h_gen h + 1\<rparr>))))"
  unfolding Copy_def Let_def store_def [of h dst] by (auto split: option.splits if_splits sum.splits)

lemma Lock_Inr: "Lock c h st sid = Inr h' \<Longrightarrow> sid \<noteq> [] \<and> (\<exists>n. store h st = Inr n)
    \<and> (map_of (h_locks h) st = None \<or> map_of (h_locks h) st = Some sid) \<and> h' = h\<lparr>h_locks := kv_put st sid (h_locks h)\<rparr>"
  unfolding Lock_def by (simp split: option.splits if_splits sum.splits)

lemma Unlock_Inr: "Unlock c h st sid = Inr h' \<Longrightarrow> map_of (h_locks h) st = Some sid
    \<and> h' = h\<lparr>h_locks := kv_del st (h_locks h)\<rparr>"
  unfolding Unlock_def by (simp split: option.splits if_splits sum.splits)

lemma CCommit_Inr: "ds_result E h c CCommit = Inr h' \<Longrightarrow> \<exists>ev. Commit E c h = Inr (h', ev)"
  by (cases "Commit E c h") auto

lemmas ds_Inr = Edit_Inr Write_Inr Delete_Inr Discard_Inr Copy_Inr Lock_Inr Unlock_Inr

lemma store_upd [simp]:
  "st \<noteq> Candidate \<Longrightarrow> store (h\<lparr>h_candidate := n\<rparr>) st = store h st"
  "st \<noteq> Running \<Longrightarrow> store (h\<lparr>h_running := n\<rparr>) st = store h st"
  "st \<noteq> Startup \<Longrightarrow> store (h\<lparr>h_startup := n\<rparr>) st = store h st"
  "store (h\<lparr>h_gen := g\<rparr>) st = store h st" "store (h\<lparr>h_locks := l\<rparr>) st = store h st"
  by (simp_all add: store_def)

lemma ds_result_locked:
  assumes "map_of (h_locks h) st = Some a" and "not_by a (c, x)" and "ds_result E h c x = Inr h'"
  shows "store h' st = store h st \<and> map_of (h_locks h') st = Some a"
proof (cases x)
  case (CEdit st' oper)
  with assms Edit_Inr [of E c h st' oper h'] show ?thesis by (cases "st = Candidate") (auto simp: deny_None_iff)
next
  case (CWrite oper)
  with assms Write_Inr [of E c h oper h'] show ?thesis by (cases "st = Running"; cases "st = Candidate") (auto simp: deny_None_iff)
next
  case (CCopy src dst)
  with assms Copy_Inr [of E c h src dst h'] show ?thesis by (cases "st = dst") (auto simp: deny_None_iff)
next
  case (CDelete st')
  with assms Delete_Inr [of E c h st' h'] show ?thesis by (cases "st = Startup") (auto simp: deny_None_iff)
next
  case CCommit
  with assms CCommit_Inr [of E h c h'] obtain ev where "Commit E c h = Inr (h', ev)" by blast
  from Commit_Inr [OF this] assms(1,2) CCommit show ?thesis by (cases "st = Running") (auto simp: deny_None_iff)
next
  case CDiscard
  with assms Discard_Inr [of E c h h'] show ?thesis by (cases "st = Candidate") (auto simp: deny_None_iff)
next
  case (CLock st' sid)
  with assms Lock_Inr [of c h st' sid h'] show ?thesis by auto
next
  case (CUnlock st' sid)
  with assms Unlock_Inr [of c h st' sid h'] show ?thesis by auto
qed

lemma run_locked:
  "map_of (h_locks h) st = Some a \<Longrightarrow> list_all (not_by a) xs \<Longrightarrow>
     store (run_steps (ds_step E) h xs) st = store h st \<and> map_of (h_locks (run_steps (ds_step E) h xs)) st = Some a"
proof (induction xs arbitrary: h)
  case (Cons x xs)
  have "store (ds_step E h x) st = store h st \<and> map_of (h_locks (ds_step E h x)) st = Some a"
    using ds_result_locked [of h st a "fst x" "snd x" E] Cons.prems by (auto simp: ds_step_def split: sum.split)
  with Cons show ?case by simp
qed simp

section \<open>The shape of a handle\<close>

definition handle_ok :: "handle \<Rightarrow> bool" where
  "handle_ok h \<longleftrightarrow> node_ok (h_running h) \<and> node_ok (h_candidate h) \<and> node_ok (h_startup h)
     \<and> n_schema (h_candidate h) = n_schema (h_running h) \<and> n_schema (h_startup h) = n_schema (h_running h)"

fun call_ok :: "ds_call \<Rightarrow> bool" where
  "call_ok (CEdit st oper) = edit_ok (eo_value oper)"
| "call_ok (CWrite oper) = edit_ok (eo_value oper)"
| "call_ok _ = True"

lemma Apply_safe:
  assumes "Apply E (Some n) oper pth v = Inr n'" and "node_ok n" and "edit_ok v"
  shows "node_ok n' \<and> n_schema n' = n_schema n"
  using assms apply_op_safe [of E n oper _ v n'] by (auto simp: Apply_def simp del: canonical.simps split: sum.splits)

lemma clone_ok: "node_ok n \<Longrightarrow> node_ok (node_Clone E n)"
  using node_Clone_ok [OF canonical_go_val] by blast

text \<open>The states a handle can reach by calls with Go values.\<close>

inductive ds_reach :: "golib \<Rightarrow> handle \<Rightarrow> handle \<Rightarrow> bool" for E h where
  start: "ds_reach E h h"
| call: "ds_reach E h h' \<Longrightarrow> call_ok x \<Longrightarrow> ds_result E h' c x = Inr h'' \<Longrightarrow> ds_reach E h h''"

inductive_cases ds_reachE: "ds_reach E h h'"

lemma store_ok: "handle_ok h \<Longrightarrow> store h st = Inr n \<Longrightarrow> node_ok n \<and> n_schema n = n_schema (h_running h)"
  unfolding store_def handle_ok_def by (simp del: canonical.simps split: if_splits)

lemma ds_result_ok:
  assumes "handle_ok h" and "call_ok x" and "ds_result E h c x = Inr h'"
  shows "handle_ok h' \<and> n_schema (h_running h') = n_schema (h_running h)"
proof (cases x)
  case (CEdit st oper)
  with assms Edit_Inr [of E c h st oper h'] Apply_safe show ?thesis
    by (fastforce simp: handle_ok_def simp del: canonical.simps)
next
  case (CWrite oper)
  with assms Write_Inr [of E c h oper h'] Apply_safe clone_ok show ?thesis
    by (fastforce simp: handle_ok_def simp del: canonical.simps)
next
  case (CDelete st)
  have "edit_ok (EVal (VMap []))" by (simp add: edit_ok_def)
  with CDelete assms Delete_Inr [of E c h st h'] Apply_safe clone_ok show ?thesis
    by (fastforce simp: handle_ok_def simp del: canonical.simps)
next
  case (CCopy src dst)
  with assms Copy_Inr [of E c h src dst h'] store_ok [OF assms(1)] clone_ok show ?thesis
    by (auto simp: handle_ok_def simp del: canonical.simps)
next
  case CCommit
  with assms CCommit_Inr [of E h c h'] obtain ev where "Commit E c h = Inr (h', ev)" by blast
  from Commit_Inr [OF this] assms(1) clone_ok show ?thesis by (simp add: handle_ok_def del: canonical.simps)
next
  case CDiscard
  with assms Discard_Inr [of E c h h'] clone_ok show ?thesis by (simp add: handle_ok_def del: canonical.simps)
next
  case (CLock st' sid)
  with assms Lock_Inr [of c h st' sid h'] show ?thesis by (simp add: handle_ok_def del: canonical.simps)
next
  case (CUnlock st' sid)
  with assms Unlock_Inr [of c h st' sid h'] show ?thesis by (simp add: handle_ok_def del: canonical.simps)
qed

lemma ds_reach_ok: "ds_reach E h h' \<Longrightarrow> handle_ok h \<Longrightarrow> handle_ok h' \<and> n_schema (h_running h') = n_schema (h_running h)"
  by (induction rule: ds_reach.induct) (auto dest: ds_result_ok)

section \<open>The generation\<close>

text \<open>The calls that publish: a commit, and a copy onto another store that is running or startup.\<close>

fun publishes :: "ds_call \<Rightarrow> bool" where
  "publishes CCommit = True"
| "publishes (CCopy src dst) = (src \<noteq> dst \<and> dst \<noteq> Candidate)"
| "publishes _ = False"

lemma ds_result_gen:
  assumes "ds_result E h c x = Inr h'"
  shows "h_gen h' = (if publishes x then h_gen h + 1 else h_gen h)"
proof (cases x)
  case (CCopy src dst)
  with assms Copy_Inr [of E c h src dst h'] show ?thesis by auto
next
  case CCommit
  with assms CCommit_Inr [of E h c h'] obtain ev where "Commit E c h = Inr (h', ev)" by blast
  from Commit_Inr [OF this] CCommit show ?thesis by simp
qed (use assms in \<open>auto dest: ds_Inr\<close>)

fun published :: "golib \<Rightarrow> handle \<Rightarrow> (ctx \<times> ds_call) list \<Rightarrow> nat" where
  "published E h [] = 0"
| "published E h (x # xs) =
     (if publishes (snd x) \<and> (\<exists>h'. ds_result E h (fst x) (snd x) = Inr h') then 1 else 0) + published E (ds_step E h x) xs"

lemma run_gen: "h_gen (run_steps (ds_step E) h xs) = h_gen h + of_nat (published E h xs)"
proof (induction xs arbitrary: h)
  case (Cons x xs)
  show ?case
    using ds_result_gen [of E h "fst x" "snd x"] Cons.IH [of "ds_step E h x"]
    by (auto simp: ds_step_def split: sum.splits)
qed simp

section \<open>Properties\<close>

text \<open>C25: Lock exclusion. While a session holds the lock of a datastore, no sequence of calls by
  other sessions (or by calls without a session) changes that datastore's tree or its lock,
  whatever the calls are: edits, direct writes, copies, deletes, commits, discards, locks and
  unlocks.\<close>

theorem lock_exclusion:
  assumes "Locked h st = Some a" and "list_all (not_by a) xs"
  shows "store (run_steps (ds_step E) h xs) st = store h st \<and> Locked (run_steps (ds_step E) h xs) st = Some a"
  using run_locked [of h st a xs E] assms by (simp add: Locked_def)

abbreviation sample_handle :: "kvs \<Rightarrow> kvs \<Rightarrow> string gomap \<Rightarrow> handle" where
  "sample_handle r c locks \<equiv> \<lparr>h_profile = ''lab'', h_running = port_node r, h_candidate = port_node c,
     h_startup = port_node [], h_sink = True, h_gen = 0, h_locks = locks\<rparr>"

abbreviation session :: "string \<Rightarrow> ctx" where
  "session sid \<equiv> \<lparr>ctx_err = None, ctx_session = Some sid\<rparr>"

theorem lock_exclusion_witness:
  "store (run_steps (ds_step (uptime_lib 0)) (sample_handle [] [] [(Candidate, ''1'')])
      [(session ''2'', CDiscard), (session ''2'', CUnlock Candidate ''2''), (session ''2'', CCommit)]) Candidate
     = Inr (port_node [])"
  using lock_exclusion [of "sample_handle [] [] [(Candidate, ''1'')]" Candidate "''1''"
      "[(session ''2'', CDiscard), (session ''2'', CUnlock Candidate ''2''), (session ''2'', CCommit)]" "uptime_lib 0"]
  by (simp add: Locked_def sessionIDFrom_def store_def)

text \<open>C37: Commit, exactly. It succeeds if and only if the context is live, neither candidate nor
  running is locked by another session and the candidate validates; then running is a copy of
  the candidate, the generation is one higher, everything else is unchanged, and the sink gets
  the profile with the difference from the old running to the candidate.\<close>

theorem commit_exact:
  "Commit E c h = Inr (h', ev) \<longleftrightarrow>
     ctx_err c = None \<and> (\<forall>st \<in> {Candidate, Running}. \<forall>a. Locked h st = Some a \<longrightarrow> a = sessionIDFrom c \<and> a \<noteq> [])
     \<and> Validate E (h_candidate h) = None
     \<and> h' = h\<lparr>h_running := node_Clone E (h_candidate h), h_gen := h_gen h + 1\<rparr>
     \<and> ev = (if h_sink h then Some (h_profile h, toNotif (Diff E (h_running h) (h_candidate h))) else None)"
  (is "?l \<longleftrightarrow> ?r")
proof
  assume l: ?l
  have "ctx_err c = None" using l by (auto simp: Commit_def split: option.splits)
  with Commit_Inr [OF l] show ?r by (auto simp: deny_None_iff Locked_def)
next
  assume r: ?r
  then have "denyIfLocked h Candidate (sessionIDFrom c) = None" "denyIfLocked h Running (sessionIDFrom c) = None"
    by (auto simp: denyIfLocked_def Locked_def split: option.splits)
  with r show ?l by (simp add: Commit_def Let_def)
qed

text \<open>After a commit, and after a discard, the two trees are the same: the handle is clean
  exactly when the published tree has no value that reads as not-a-number.\<close>

theorem commit_and_discard_clean:
  assumes "handle_ok h"
  shows "(Commit E c h = Inr (h1, ev) \<longrightarrow>
       root_map (h_running h1) = root_map (h_candidate h) \<and> (dirty E h1 \<longleftrightarrow> \<not> no_nan E (VMap (root_map (h_candidate h)))))
    \<and> (Discard E c h = Inr h2 \<longrightarrow>
       root_map (h_candidate h2) = root_map (h_running h) \<and> (dirty E h2 \<longleftrightarrow> \<not> no_nan E (VMap (root_map (h_running h)))))"
proof (intro conjI impI)
  assume "Commit E c h = Inr (h1, ev)"
  from Commit_Inr [OF this] have h1: "h_running h1 = node_Clone E (h_candidate h)" "h_candidate h1 = h_candidate h"
    by simp_all
  have ok: "node_ok (h_candidate h)" using assms by (simp add: handle_ok_def)
  show "root_map (h_running h1) = root_map (h_candidate h)" using node_Clone_root [OF ok] h1 by simp
  then show "dirty E h1 \<longleftrightarrow> \<not> no_nan E (VMap (root_map (h_candidate h)))"
    using equal_refl_iff [OF ok, of E] h1(2) by (simp add: dirty_def node_Equal_def del: no_nan.simps)
next
  assume "Discard E c h = Inr h2"
  from Discard_Inr [OF this] have h2: "h_candidate h2 = node_Clone E (h_running h)" "h_running h2 = h_running h"
    by simp_all
  have ok: "node_ok (h_running h)" using assms by (simp add: handle_ok_def)
  show "root_map (h_candidate h2) = root_map (h_running h)" using node_Clone_root [OF ok] h2 by simp
  then show "dirty E h2 \<longleftrightarrow> \<not> no_nan E (VMap (root_map (h_running h)))"
    using equal_refl_iff [OF ok, of E] h2(2) by (simp add: dirty_def node_Equal_def del: no_nan.simps)
qed

lemma port_valid: "Validate E (port_node []) = None"
  by (simp add: Validate_def validateValue.simps validateChildren.simps schema_lookup_def SchemaString_def)

lemma port_no_entry: "Diff E (port_node []) (port_node []) = []"
  by (simp add: Diff_def diffWalk_equal equal.simps)

theorem commit_exact_witness:
  "Commit (uptime_lib 0) (session ''1'') (sample_handle [] [] [(Candidate, ''1'')]) =
     Inr ((sample_handle [] [] [(Candidate, ''1'')])\<lparr>h_running := node_Clone (uptime_lib 0) (port_node []), h_gen := 1\<rparr>, Some (''lab'', []))"
  using commit_exact [of "uptime_lib 0" "session ''1''" "sample_handle [] [] [(Candidate, ''1'')]"
      "(sample_handle [] [] [(Candidate, ''1'')])\<lparr>h_running := node_Clone (uptime_lib 0) (port_node []), h_gen := 1\<rparr>" "Some (''lab'', [])"]
  by (simp add: Locked_def sessionIDFrom_def port_valid port_no_entry toNotif_def)

theorem commit_and_discard_clean_witness:
  "\<not> dirty (uptime_lib 0) ((sample_handle [] [] [])\<lparr>h_running := node_Clone (uptime_lib 0) (port_node []), h_gen := 1\<rparr>)"
  using commit_and_discard_clean [of "sample_handle [] [] []" "uptime_lib 0" "session ''1''"
      "(sample_handle [] [] [])\<lparr>h_running := node_Clone (uptime_lib 0) (port_node []), h_gen := 1\<rparr>"
      "Some (''lab'', [])" "sample_handle [] [] []"]
  by (simp add: handle_ok_def Commit_def denyIfLocked_def port_valid port_no_entry toNotif_def Let_def)

text \<open>The store generation counts publications: over any calls it grows by the number of
  successful commits and copies onto running or startup, modulo \<open>2^64\<close>; edits, direct writes
  to running, deletes, discards and locks do not move it.\<close>

theorem generation_counts_publications:
  "unat (h_gen (run_steps (ds_step E) h xs)) = (unat (h_gen h) + published E h xs) mod 2 ^ 64"
  by (simp add: run_gen unat_word_ariths unat_of_nat mod_add_right_eq)

text \<open>Every handle that a new one reaches keeps its shape: the three trees are canonical and
  share the schema the profile started with.\<close>

theorem reachable_handles_ok:
  assumes "ds_reach E (ds_New E profile r c s sink) h" and "go_val (VMap (root_map r))"
    and "go_val (VMap (root_map c))" and "go_val (VMap (root_map s))"
    and "IsZero c \<or> n_schema c = n_schema r" and "IsZero s \<or> n_schema s = n_schema r"
  shows "handle_ok h \<and> n_schema (h_running h) = n_schema r"
proof -
  have ok: "node_ok (node_Clone E r)" "node_ok (node_Clone E c)" "node_ok (node_Clone E s)"
    using assms(2-4) node_Clone_ok by blast+
  then have "handle_ok (ds_New E profile r c s sink)"
    using assms(5,6) clone_ok [OF ok(1)] by (auto simp: handle_ok_def ds_New_def Let_def simp del: canonical.simps)
  from ds_reach_ok [OF assms(1) this] show ?thesis by (simp add: ds_New_def Let_def)
qed

theorem reachable_handles_ok_witness:
  "handle_ok (ds_New (uptime_lib 0) ''lab'' mtu_node zero_node zero_node True)"
  using reachable_handles_ok [OF ds_reach.start, of mtu_node zero_node zero_node "uptime_lib 0" "''lab''" True] by (simp add: IsZero_def)

text \<open>The direct write to running. It needs a clean candidate that nobody has locked (not even
  the caller) and no foreign lock on running; it applies the same edit to both trees, so two
  identical trees stay identical, and it leaves startup, the locks and the generation alone.\<close>

theorem write_running_exact:
  assumes "WriteRunningIfCandidateClean E c h oper = Inr h'"
  shows "\<not> dirty E h \<and> Locked h Candidate = None \<and> (\<forall>a. Locked h Running = Some a \<longrightarrow> a = sessionIDFrom c)
    \<and> Apply E (Some (node_Clone E (h_running h))) (eo_op oper) (eo_path oper) (eo_value oper) = Inr (h_running h')
    \<and> Apply E (Some (node_Clone E (h_candidate h))) (eo_op oper) (eo_path oper) (eo_value oper) = Inr (h_candidate h')
    \<and> (h_running h = h_candidate h \<longrightarrow> h_running h' = h_candidate h')
    \<and> h_startup h' = h_startup h \<and> h_locks h' = h_locks h \<and> h_gen h' = h_gen h"
  using Write_Inr [OF assms] by (auto simp: Locked_def deny_None_iff)

text \<open>Locks and unlocks. A lock is granted exactly to a named session, on an existing store,
  that is free or already held by that session, and then only that session's unlock releases
  it; a foreign unlock is refused and changes nothing.\<close>

theorem lock_protocol:
  assumes "ctx_err c = None"
  shows "((\<exists>h'. Lock c h st sid = Inr h') \<longleftrightarrow>
       sid \<noteq> [] \<and> st \<in> {Running, Candidate, Startup} \<and> (Locked h st = None \<or> Locked h st = Some sid))
    \<and> (Lock c h st sid = Inr h1 \<longrightarrow> Locked h1 st = Some sid
         \<and> (\<forall>sid'. (\<exists>h'. Unlock c h1 st sid' = Inr h') \<longleftrightarrow> sid' = sid)
         \<and> (\<exists>h2. Unlock c h1 st sid = Inr h2 \<and> Locked h2 st = None \<and> (\<forall>st'. st' \<noteq> st \<longrightarrow> Locked h2 st' = Locked h st')))"
proof (intro conjI impI)
  have st: "(\<exists>n. store h st = Inr n) \<longleftrightarrow> st \<in> {Running, Candidate, Startup}" for h
    by (auto simp: store_def)
  show "(\<exists>h'. Lock c h st sid = Inr h') \<longleftrightarrow>
       sid \<noteq> [] \<and> st \<in> {Running, Candidate, Startup} \<and> (Locked h st = None \<or> Locked h st = Some sid)"
    using st [of h] assms by (auto simp: Lock_def Locked_def split: option.splits sum.splits)
  assume l: "Lock c h st sid = Inr h1"
  from Lock_Inr [OF l] obtain n where h1: "h1 = h\<lparr>h_locks := kv_put st sid (h_locks h)\<rparr>" "store h st = Inr n" by blast
  then show "Locked h1 st = Some sid" by (simp add: Locked_def)
  show "\<forall>sid'. (\<exists>h'. Unlock c h1 st sid' = Inr h') \<longleftrightarrow> sid' = sid"
    using h1 assms by (auto simp: Unlock_def)
  show "\<exists>h2. Unlock c h1 st sid = Inr h2 \<and> Locked h2 st = None \<and> (\<forall>st'. st' \<noteq> st \<longrightarrow> Locked h2 st' = Locked h st')"
    using h1 assms by (simp add: Unlock_def Locked_def)
qed

theorem lock_protocol_witness:
  "\<exists>h'. Lock (session ''1'') (sample_handle [] [] []) Candidate ''1'' = Inr h'"
  using lock_protocol [of "session ''1''" "sample_handle [] [] []" Candidate "''1''"] by (simp add: Locked_def)

lemma ParsePath_empty: "ParsePath E [] = Inr (Path [] [])"
proof -
  have "TrimSpace [] = []" by (simp add: TrimSpace_def)
  then show ?thesis by (simp add: ParsePath_def)
qed

lemma clear_write:
  "WriteRunningIfCandidateClean E (session ''1'') (sample_handle [] [] [])
     \<lparr>eo_op = OpReplace, eo_path = [], eo_value = EVal (VMap [])\<rparr> = Inr (sample_handle [] [] [])"
  by (simp add: WriteRunningIfCandidateClean_def dirty_def node_Equal_def equal.simps denyIfLocked_def Apply_def ParsePath_empty
      apply_op_def edit_val_def known_def IsRoot_def readOnly_def schema_lookup_def SchemaString_def node_Clone_def clone_map_eq
      put_def checkWritten_def validateValue.simps validateChildren.simps Let_def)

theorem write_running_exact_witness:
  "Locked (sample_handle [] [] []) Candidate = None \<and> \<not> dirty (uptime_lib 0) (sample_handle [] [] [])"
  using write_running_exact [OF clear_write [of "uptime_lib 0"]] by blast

end
