(* ===== verification/Snapshot_Compile.thy ===== *)
theory Snapshot_Compile
  imports Config_Export Datastore
begin

text \<open>
  Packages \<open>snapshot\<close> (\<open>snapshot.go\<close>, \<open>store.go\<close>) and \<open>compiler\<close> (\<open>compile.go\<close>): the immutable snapshot
  of a document, the questions asked of it, the store of the active, previous and bootstrap
  snapshots, and the compilation of a document. A pointer is an option; a revision is its
  text. The theorems: what a compiled snapshot guarantees, which clients it admits, and that
  compiling its document again gives the same snapshot.
\<close>

section \<open>Snapshots\<close>

record sprofile =
  sf_name :: string
  sf_modules :: "module_spec list"
  sf_schema :: "schema_leaf list"
  sf_running :: node
  sf_startup :: node

record suser =
  su_name :: string
  su_profile :: string
  su_access :: string
  su_passwordFile :: string
  su_authorizedKeysFile :: string

record snapshot =
  sn_canonical :: "state option"
  sn_revision :: string
  sn_bootstrapRevision :: string
  sn_generation :: "64 word"
  sn_compiledAt :: int
  sn_netconfAddress :: string
  sn_restconfAddress :: string
  sn_managementAddress :: string
  sn_restPath :: string
  sn_mcpPath :: string
  sn_hostKeyFile :: string
  sn_shared :: bool
  sn_versions :: "string list"
  sn_allow :: "nprefix list"
  sn_denyAll :: bool
  sn_profiles :: "sprofile list"
  sn_users :: "suser list"

definition Drifted :: "snapshot option \<Rightarrow> bool" where
  "Drifted s = (case s of
     None \<Rightarrow> False
   | Some s \<Rightarrow> sn_revision s \<noteq> [] \<and> sn_bootstrapRevision s \<noteq> [] \<and> sn_revision s \<noteq> sn_bootstrapRevision s)"

definition ProfileNamed :: "snapshot option \<Rightarrow> string \<Rightarrow> sprofile option" where
  "ProfileNamed s name = (case s of None \<Rightarrow> None | Some s \<Rightarrow> find (\<lambda>p. sf_name p = name) (sn_profiles s))"

definition UserNamed :: "snapshot option \<Rightarrow> string \<Rightarrow> suser option" where
  "UserNamed s name = (case s of None \<Rightarrow> None | Some s \<Rightarrow> find (\<lambda>u. su_name u = name) (sn_users s))"

definition Allowed :: "snapshot option \<Rightarrow> addr \<Rightarrow> bool" where
  "Allowed s ip = (case s of
     None \<Rightarrow> False
   | Some s \<Rightarrow>
       if sn_denyAll s then False
       else if length (sn_allow s) = 0 then True
       else (let probe = Unmap ip in list_ex (\<lambda>p. Contains p probe \<or> Contains p ip) (sn_allow s)))"

section \<open>The store\<close>

record snap_store =
  ss_active :: "snapshot option"
  ss_previous :: "snapshot option"
  ss_bootstrap :: "snapshot option"

definition NewStore :: snap_store where
  "NewStore = \<lparr>ss_active = None, ss_previous = None, ss_bootstrap = None\<rparr>"

text \<open>The new store and the snapshot that was active.\<close>

definition Swap :: "snap_store \<Rightarrow> snapshot option \<Rightarrow> snap_store \<times> snapshot option" where
  "Swap s new =
    (let prev = ss_active s; s1 = s\<lparr>ss_active := new\<rparr>
     in (if prev \<noteq> None then s1\<lparr>ss_previous := prev\<rparr> else s1, prev))"

definition SetBootstrap :: "snap_store \<Rightarrow> snapshot option \<Rightarrow> snap_store" where
  "SetBootstrap s new = s\<lparr>ss_bootstrap := new\<rparr>"

definition InstallBootstrap :: "snap_store \<Rightarrow> snapshot option \<Rightarrow> snap_store \<times> snapshot option" where
  "InstallBootstrap s new = (if new = None then (s, None) else Swap (SetBootstrap s new) new)"

section \<open>Compilation\<close>

text \<open>The time is \<open>None\<close> when it is the zero time; the clock is an argument.\<close>

record compile_opts =
  co_now :: "int option"
  co_bootstrapRevision :: string
  co_generation :: "64 word"

definition compileProfile :: "golib \<Rightarrow> profile_spec \<Rightarrow> derr + sprofile" where
  "compileProfile E p = (case Compile E (case pr_instance p of None \<Rightarrow> [] | Some m \<Rightarrow> m) (pr_schema p) of
     Inl err \<Rightarrow> Inl err
   | Inr running \<Rightarrow>
       (case Validate E running of
          Some err \<Rightarrow> Inl err
        | None \<Rightarrow>
            (case (case pr_startup p of
                     None \<Rightarrow> Inr zero_node
                   | Some m \<Rightarrow>
                       (case Compile E m (pr_schema p) of
                          Inl err \<Rightarrow> Inl err
                        | Inr startup \<Rightarrow> (case Validate E startup of Some err \<Rightarrow> Inl err | None \<Rightarrow> Inr startup))) of
               Inl err \<Rightarrow> Inl err
             | Inr startup \<Rightarrow>
                 Inr \<lparr>sf_name = pr_name p, sf_modules = pr_modules p, sf_schema = pr_schema p,
                   sf_running = running, sf_startup = startup\<rparr>)))"

fun compileProfiles :: "golib \<Rightarrow> profile_spec list \<Rightarrow> derr + sprofile list" where
  "compileProfiles E [] = Inr []"
| "compileProfiles E (p # ps) = (case compileProfile E p of
     Inl err \<Rightarrow> Inl err
   | Inr q \<Rightarrow> (case compileProfiles E ps of Inl err \<Rightarrow> Inl err | Inr qs \<Rightarrow> Inr (q # qs)))"

definition compileUsers :: "user_spec list \<Rightarrow> suser list" where
  "compileUsers us = map (\<lambda>u. \<lparr>su_name = us_name u, su_profile = us_profile u, su_access = us_access u,
     su_passwordFile = us_passwordFile u, su_authorizedKeysFile = us_authorizedKeysFile u\<rparr>) us"

fun parse_cidrs :: "cfglib \<Rightarrow> nat \<Rightarrow> string list \<Rightarrow> derr + nprefix list" where
  "parse_cidrs K i [] = Inr []"
| "parse_cidrs K i (c # cs) = (case cf_prefix K c of
     Inl msg \<Rightarrow> Inl (ValidationFailed ''invalid allowClientCidrs''
       [fv (at_index ''spec.admission.allowClientCidrs'' i) ''invalid_value'' msg])
   | Inr p \<Rightarrow> (case parse_cidrs K (Suc i) cs of Inl err \<Rightarrow> Inl err | Inr ps \<Rightarrow> Inr (p # ps)))"

definition compileAllow :: "cfglib \<Rightarrow> string list option \<Rightarrow> derr + nprefix list \<times> bool" where
  "compileAllow K cidrs =
    (if cidrs = Some [] then Inr ([], True)
     else (case parse_cidrs K 0 (case cidrs of None \<Rightarrow> [] | Some cs \<Rightarrow> cs) of
             Inl err \<Rightarrow> Inl err | Inr ps \<Rightarrow> Inr (ps, False)))"

definition compiler_Compile :: "golib \<Rightarrow> cfglib \<Rightarrow> int \<Rightarrow> state option \<Rightarrow> compile_opts \<Rightarrow> derr + snapshot" where
  "compiler_Compile E K clock st opts = (case Normalize E K st of
     Inl err \<Rightarrow> Inl err
   | Inr n \<Rightarrow>
       (case config_Validate K (Some n) of
          Some err \<Rightarrow> Inl err
        | None \<Rightarrow>
            (let now = (case co_now opts of None \<Rightarrow> clock | Some t \<Rightarrow> t); sp = st_spec n; l = sp_listeners sp in
             case compileProfiles E (sp_profiles sp) of
               Inl err \<Rightarrow> Inl err
             | Inr profiles \<Rightarrow>
                 (let users = compileUsers (sp_users sp) in
                  case compileAllow K (ad_allowClientCidrs (sp_admission sp)) of
                    Inl err \<Rightarrow> Inl err
                  | Inr (allow, denyAll) \<Rightarrow>
                      (case Revision E K (Some n) of
                         Inl err \<Rightarrow> Inl err
                       | Inr revn \<Rightarrow>
                           Inr \<lparr>sn_canonical = Some n, sn_revision = revn,
                             sn_bootstrapRevision = (if co_bootstrapRevision opts = [] then revn else co_bootstrapRevision opts),
                             sn_generation = co_generation opts, sn_compiledAt = now,
                             sn_netconfAddress = nl_address (ls_netconf l), sn_restconfAddress = rl_address (ls_restconf l),
                             sn_managementAddress = ml_address (ls_management l), sn_restPath = ml_restPath (ls_management l),
                             sn_mcpPath = ml_mcpPath (ls_management l), sn_hostKeyFile = nl_hostKeyFile (ls_netconf l),
                             sn_shared = nc_sharedProfileDatastore (sp_netconf sp), sn_versions = nc_versions (sp_netconf sp),
                             sn_allow = allow, sn_denyAll = denyAll, sn_profiles = profiles, sn_users = users\<rparr>)))))"

section \<open>Facts\<close>

lemma compileProfile_fields:
  assumes "compileProfile E p = Inr q"
  shows "sf_name q = pr_name p" "sf_modules q = pr_modules p" "sf_schema q = pr_schema p"
    "Compile E (case pr_instance p of None \<Rightarrow> [] | Some m \<Rightarrow> m) (pr_schema p) = Inr (sf_running q)" "Validate E (sf_running q) = None"
    "pr_startup p = None \<Longrightarrow> sf_startup q = zero_node"
    "pr_startup p = Some m \<Longrightarrow> Compile E m (pr_schema p) = Inr (sf_startup q) \<and> Validate E (sf_startup q) = None"
  using assms unfolding compileProfile_def by (auto split: sum.splits option.splits)

lemma compileProfiles_all2: "compileProfiles E ps = Inr qs \<Longrightarrow> list_all2 (\<lambda>p q. compileProfile E p = Inr q) ps qs"
  by (induction ps arbitrary: qs) (auto split: sum.splits)

lemma compileProfiles_names: "compileProfiles E ps = Inr qs \<Longrightarrow> map sf_name qs = map pr_name ps"
  by (induction ps arbitrary: qs) (auto split: sum.splits simp: compileProfile_fields(1))

lemma compileProfiles_mem: "compileProfiles E ps = Inr qs \<Longrightarrow> q \<in> set qs \<Longrightarrow> \<exists>p \<in> set ps. compileProfile E p = Inr q"
  by (induction ps arbitrary: qs) (auto split: sum.splits)

lemma parse_cidrs_Inr: "parse_cidrs K i cs = Inr ps \<Longrightarrow> map (cf_prefix K) cs = map Inr ps"
  by (induction cs arbitrary: i ps) (auto split: sum.splits)

lemma parse_cidrs_ok: "\<forall>c \<in> set cs. parses K c \<Longrightarrow> \<exists>ps. parse_cidrs K i cs = Inr ps"
proof (induction cs arbitrary: i)
  case (Cons c cs)
  then obtain p ps where "cf_prefix K c = Inr p" "parse_cidrs K (Suc i) cs = Inr ps"
    by (fastforce simp: parses_def split: sum.splits)
  then show ?case by simp
qed simp

text \<open>What a successful compilation went through.\<close>

lemma compile_parts:
  assumes "compiler_Compile E K clock st opts = Inr snap"
  obtains n where "Normalize E K st = Inr n" "config_Validate K (Some n) = None" "sn_canonical snap = Some n"
    "compileProfiles E (sp_profiles (st_spec n)) = Inr (sn_profiles snap)" "sn_users snap = compileUsers (sp_users (st_spec n))"
    "compileAllow K (ad_allowClientCidrs (sp_admission (st_spec n))) = Inr (sn_allow snap, sn_denyAll snap)"
    "Revision E K (Some n) = Inr (sn_revision snap)" "sn_shared snap = nc_sharedProfileDatastore (sp_netconf (st_spec n))"
    "sn_generation snap = co_generation opts"
    "sn_bootstrapRevision snap = (if co_bootstrapRevision opts = [] then sn_revision snap else co_bootstrapRevision opts)"
  using assms unfolding compiler_Compile_def Let_def
  by (auto split: sum.splits option.splits prod.splits)

lemma val_normal_canonical: "val_normal v \<Longrightarrow> canonical v"
  by (induction v rule: val_induct) (auto simp: list_all_iff obj_normal_def)

lemma normal_trees:
  assumes "trip_ok E K" and "normal_form E K n" and "p \<in> set (sp_profiles (st_spec n))"
    and "pr_instance p = Some m \<or> pr_startup p = Some m"
  shows "canonical (VMap m)"
proof -
  have "tree_ok E K (pr_instance p) \<and> tree_ok E K (pr_startup p)"
    using normal_form_spec [OF assms(1,2)] assms(3) by (simp add: spec_normal_def)
  with assms(4) have "val_normal (VMap m)" by (auto simp: tree_ok_def simp del: val_normal.simps)
  then show ?thesis by (rule val_normal_canonical)
qed

lemma Compile_ok: "Compile E m ss = Inr n \<Longrightarrow> canonical (VMap m) \<Longrightarrow> node_ok n \<and> n_schema n \<noteq> None \<and> n_root n = Some m"
proof -
  assume a: "Compile E m ss = Inr n" "canonical (VMap m)"
  have "clone_map E m = m" using clone_map_id [OF a(2), of E] .
  with a show ?thesis by (auto simp: Compile_def root_map_def split: sum.splits)
qed

lemma valid_names:
  assumes "valid_state K d n"
  shows "distinct (map pr_name (sp_profiles (st_spec n)))" "distinct (map us_name (sp_users (st_spec n)))"
    "u \<in> set (sp_users (st_spec n)) \<Longrightarrow> us_profile u \<in> pr_name ` set (sp_profiles (st_spec n))"
  using assms by (auto simp: valid_state_def Let_def names_given_def user_ok_def)

lemma config_Validate_valid: "config_Validate K (Some n) = None \<longleftrightarrow> valid_state K [] n"
  using violations_empty [of K "[]" n "violations K [] n"]
  by (auto simp: config_Validate_def validate_def Let_def split: option.splits)

lemma find_name: "find (\<lambda>x. f x = k) xs \<noteq> None \<longleftrightarrow> k \<in> f ` set xs"
  by (induction xs) auto

text \<open>What every compiled snapshot promises the rest of the program.\<close>

definition snapshot_ok :: "golib \<Rightarrow> snapshot \<Rightarrow> bool" where
  "snapshot_ok E snap \<longleftrightarrow>
     distinct (map sf_name (sn_profiles snap)) \<and> distinct (map su_name (sn_users snap))
     \<and> (\<forall>u \<in> set (sn_users snap). ProfileNamed (Some snap) (su_profile u) \<noteq> None)
     \<and> (\<forall>q \<in> set (sn_profiles snap). node_ok (sf_running q) \<and> Validate E (sf_running q) = None \<and> n_schema (sf_running q) \<noteq> None
          \<and> (IsZero (sf_startup q) \<or> node_ok (sf_startup q) \<and> Validate E (sf_startup q) = None
               \<and> n_schema (sf_startup q) = n_schema (sf_running q)))"

lemma Compile_schema: "Compile E m ss = Inr n \<Longrightarrow> Compile E m' ss = Inr n' \<Longrightarrow> n_schema n = n_schema n'"
  by (auto simp: Compile_def split: sum.splits)

lemma compiled_snapshot_ok:
  assumes "trip_ok E K" and "compiler_Compile E K clock st opts = Inr snap"
  shows "snapshot_ok E snap"
proof -
  from assms(2) obtain n where n: "Normalize E K st = Inr n" "config_Validate K (Some n) = None"
      "compileProfiles E (sp_profiles (st_spec n)) = Inr (sn_profiles snap)" "sn_users snap = compileUsers (sp_users (st_spec n))"
    by (rule compile_parts)
  have nf: "normal_form E K n"
    using n(1) Normalize_gives_normal [OF assms(1)] by (cases st) (auto simp: Normalize_def)
  have v: "valid_state K [] n" using n(2) by (simp add: config_Validate_valid)
  note names = compileProfiles_names [OF n(3)]
  have users: "map su_name (sn_users snap) = map us_name (sp_users (st_spec n))"
    "su_profile ` set (sn_users snap) = us_profile ` set (sp_users (st_spec n))"
    by (simp_all add: n(4) compileUsers_def image_image comp_def)
  have bound: "ProfileNamed (Some snap) (su_profile u) \<noteq> None" if "u \<in> set (sn_users snap)" for u
  proof -
    have "su_profile u \<in> us_profile ` set (sp_users (st_spec n))" using that users(2) by blast
    then have "su_profile u \<in> set (map pr_name (sp_profiles (st_spec n)))" using valid_names(3) [OF v] by auto
    then show ?thesis unfolding names [symmetric] by (simp add: ProfileNamed_def find_name del: not_None_eq)
  qed
  have trees: "node_ok (sf_running q) \<and> Validate E (sf_running q) = None \<and> n_schema (sf_running q) \<noteq> None
          \<and> (IsZero (sf_startup q) \<or> node_ok (sf_startup q) \<and> Validate E (sf_startup q) = None
               \<and> n_schema (sf_startup q) = n_schema (sf_running q))" if "q \<in> set (sn_profiles snap)" for q
  proof -
    from compileProfiles_mem [OF n(3) that] obtain p where p: "p \<in> set (sp_profiles (st_spec n))" "compileProfile E p = Inr q" by blast
    note c = compileProfile_fields [OF p(2)]
    have r: "canonical (VMap (case pr_instance p of None \<Rightarrow> [] | Some m \<Rightarrow> m))"
      using normal_trees [OF assms(1) nf p(1)] by (auto split: option.split simp del: canonical.simps)
    show ?thesis
      using Compile_ok [OF c(4) r] c(5,6,7) normal_trees [OF assms(1) nf p(1)] Compile_ok Compile_schema [OF _ c(4)]
      by (cases "pr_startup p") (auto simp: IsZero_def simp del: canonical.simps)
  qed
  show ?thesis unfolding snapshot_ok_def using names users(1) valid_names(1,2) [OF v] bound trees by simp
qed

section \<open>The trees of a profile\<close>

text \<open>A schema that holds the leaves of a profile: one entry for each, found under the leaf's path, with its type, access, getter,
  pattern and range.\<close>

definition entry_for :: "golib \<Rightarrow> schema \<Rightarrow> schema_leaf \<Rightarrow> bool" where
  "entry_for E s leaf \<longleftrightarrow> (\<exists>p e. ParsePath E (sl_path leaf) = Inr p \<and> schema_lookup (Some s) p = Some e \<and> se_path e = p
     \<and> se_typ e = sl_type leaf \<and> KnownSchemaType (sl_type leaf) \<and> se_access e = sl_access leaf \<and> se_valueFrom e = sl_valueFrom leaf
     \<and> se_pattern e = (if sl_pattern leaf = [] then None else Some (sl_pattern leaf))
     \<and> (if sl_range leaf = [] then se_min e = None \<and> se_max e = None else parseRange E (sl_range leaf) = Inr (se_min e, se_max e)))"

definition schema_holds :: "golib \<Rightarrow> schema_leaf list \<Rightarrow> schema \<Rightarrow> bool" where
  "schema_holds E leaves s \<longleftrightarrow> distinct (map fst s) \<and> length s = length leaves \<and> (\<forall>leaf \<in> set leaves. entry_for E s leaf)"

text \<open>A node with the given content that validates over the schema of the leaves.\<close>

definition tree_over :: "golib \<Rightarrow> schema_leaf list \<Rightarrow> kvs \<Rightarrow> node \<Rightarrow> bool" where
  "tree_over E leaves m n \<longleftrightarrow> n_root n = Some m \<and> (\<exists>s. n_schema n = Some s \<and> schema_holds E leaves s) \<and> Validate E n = None"

definition profile_compiled :: "golib \<Rightarrow> profile_spec \<Rightarrow> sprofile \<Rightarrow> bool" where
  "profile_compiled E p q \<longleftrightarrow> sf_name q = pr_name p \<and> sf_modules q = pr_modules p \<and> sf_schema q = pr_schema p
     \<and> tree_over E (pr_schema p) (case pr_instance p of None \<Rightarrow> [] | Some m \<Rightarrow> m) (sf_running q)
     \<and> (case pr_startup p of None \<Rightarrow> IsZero (sf_startup q) | Some m \<Rightarrow> tree_over E (pr_schema p) m (sf_startup q))"

lemma addLeaf_entry:
  assumes "addLeaf E i leaf s = Inr s'"
  shows "entry_for E s' leaf"
  using assms unfolding addLeaf_def entry_for_def
  by (auto simp: Let_def schema_lookup_def split: if_splits sum.splits prod.splits option.splits)

lemma addLeaves_entries: "addLeaves E i leaves s = Inr s' \<Longrightarrow> leaf \<in> set leaves \<Longrightarrow> entry_for E s' leaf"
proof (induction leaves arbitrary: i s)
  case (Cons l leaves)
  then obtain s1 where s1: "addLeaf E i l s = Inr s1" "addLeaves E (Suc i) leaves s1 = Inr s'"
    by (auto split: sum.splits)
  show ?case
  proof (cases "leaf = l")
    case True
    have "schema_lookup (Some s') p = Some e" if "schema_lookup (Some s1) p = Some e" for p e
      using that addLeaves_keeps [OF s1(2)] by (simp add: schema_lookup_def)
    with addLeaf_entry [OF s1(1)] True show ?thesis unfolding entry_for_def by blast
  next
    case False
    with Cons.IH [OF s1(2)] Cons.prems(2) show ?thesis by simp
  qed
qed simp

lemma Compile_tree_over:
  assumes "Compile E m leaves = Inr n" and "canonical (VMap m)" and "Validate E n = None"
  shows "tree_over E leaves m n"
proof -
  from assms(1) obtain s where s: "newSchema E leaves = Inr s" "n = \<lparr>n_schema = Some s, n_root = Some (clone_map E m)\<rparr>"
    by (auto simp: Compile_def split: sum.splits)
  have "schema_holds E leaves s"
    using s(1) addLeaves_wf [of E 0 leaves "[]" s] addLeaves_entries [of E 0 leaves "[]" s] by (auto simp: schema_holds_def newSchema_def)
  moreover have "clone_map E m = m" by (rule clone_map_id) (rule assms(2))
  ultimately show ?thesis using s(2) assms(3) by (simp add: tree_over_def)
qed

lemma compileProfile_compiled:
  assumes "trip_ok E K" and "normal_form E K n" and "p \<in> set (sp_profiles (st_spec n))" and "compileProfile E p = Inr q"
  shows "profile_compiled E p q"
proof -
  note c = compileProfile_fields [OF assms(4)]
  note t = normal_trees [OF assms(1-3)]
  have "canonical (VMap (case pr_instance p of None \<Rightarrow> [] | Some m \<Rightarrow> m))"
    using t by (auto split: option.split simp del: canonical.simps)
  from Compile_tree_over [OF c(4) this c(5)] c(1-3,6,7) t Compile_tree_over [of E _ "pr_schema p" "sf_startup q"] show ?thesis
    by (cases "pr_startup p") (auto simp: profile_compiled_def IsZero_def simp del: canonical.simps)
qed

section \<open>Properties\<close>

text \<open>C11: What compilation guarantees: the snapshot's document is normalized and valid. Its profiles are the document's, one by one and
  under distinct names, with their modules and schema; each has a running tree with the profile's instance as its content, and a startup
  tree with the startup's or none when none is given; each tree validates and carries a schema that holds exactly the profile's leaves,
  every one under its path with its type, access, getter, pattern and range. Its users are the document's, under distinct names,
  and every user names one of the profiles. Without a given bootstrap revision the snapshot is not drifted.\<close>

theorem compile_sound:
  assumes "trip_ok E K" and "compiler_Compile E K clock st opts = Inr snap"
  shows "(\<exists>n. sn_canonical snap = Some n \<and> valid_state K [] n \<and> Normalize E K (Some n) = Inr n
      \<and> list_all2 (profile_compiled E) (sp_profiles (st_spec n)) (sn_profiles snap)
      \<and> list_all2 (\<lambda>u x. su_name x = us_name u \<and> su_profile x = us_profile u \<and> su_access x = us_access u
           \<and> su_passwordFile x = us_passwordFile u \<and> su_authorizedKeysFile x = us_authorizedKeysFile u) (sp_users (st_spec n)) (sn_users snap))
    \<and> snapshot_ok E snap \<and> (co_bootstrapRevision opts = [] \<longrightarrow> \<not> Drifted (Some snap))"
proof -
  from assms(2) obtain n where n: "Normalize E K st = Inr n" "config_Validate K (Some n) = None" "sn_canonical snap = Some n"
      "compileProfiles E (sp_profiles (st_spec n)) = Inr (sn_profiles snap)" "sn_users snap = compileUsers (sp_users (st_spec n))"
      "sn_bootstrapRevision snap = (if co_bootstrapRevision opts = [] then sn_revision snap else co_bootstrapRevision opts)"
    by (rule compile_parts)
  have nf: "normal_form E K n"
    using n(1) Normalize_gives_normal [OF assms(1)] by (cases st) (auto simp: Normalize_def)
  have "list_all2 (profile_compiled E) (sp_profiles (st_spec n)) (sn_profiles snap)"
    using compileProfiles_all2 [OF n(4)] compileProfile_compiled [OF assms(1) nf] by (auto elim!: list.rel_mono_strong)
  then show ?thesis
    using n compiled_snapshot_ok [OF assms] nf
    by (auto simp: config_Validate_valid Normalize_normal Drifted_def compileUsers_def list.rel_map list_all2_same)
qed

lemma compileAllow_Inr:
  assumes "compileAllow K (Some cs) = Inr (allow, deny)"
  shows "deny = (cs = [])" "set allow = {p. \<exists>c \<in> set cs. cf_prefix K c = Inr p}"
proof -
  have "set ps = {p. \<exists>c \<in> set cs. cf_prefix K c = Inr p}" if "map (cf_prefix K) cs = map Inr ps" for ps
    using that by (induction cs arbitrary: ps) (auto simp: Cons_eq_map_conv)
  with assms show "deny = (cs = [])" "set allow = {p. \<exists>c \<in> set cs. cf_prefix K c = Inr p}"
    by (auto simp: compileAllow_def dest: parse_cidrs_Inr split: if_splits sum.splits)
qed

lemma ex_parsed: "(\<exists>p \<in> {p. \<exists>c \<in> set cs. f c = Inr p}. P p) \<longleftrightarrow> list_ex (\<lambda>c. case f c of Inl _ \<Rightarrow> False | Inr p \<Rightarrow> P p) cs"
  by (induction cs) (auto split: sum.splits)

text \<open>Admission is exact: a compiled snapshot admits an address if and only if one of the networks that the
  normalized document lists contains the address or its unmapped form. An empty list admits nobody, and the
  branch of the code that admits everyone is never reached.\<close>

theorem admission_exact:
  assumes "compiler_Compile E K clock (Some st) opts = Inr snap"
  shows "Allowed (Some snap) ip =
    list_ex (\<lambda>c. case cf_prefix K c of Inl _ \<Rightarrow> False | Inr p \<Rightarrow> Contains p (Unmap ip) \<or> Contains p ip)
      (case ad_allowClientCidrs (sp_admission (st_spec st)) of None \<Rightarrow> DefaultLoopbackCIDRs | Some cs \<Rightarrow> map fix_utf8 cs)"
proof -
  from assms obtain n where n: "Normalize E K (Some st) = Inr n"
      "compileAllow K (ad_allowClientCidrs (sp_admission (st_spec n))) = Inr (sn_allow snap, sn_denyAll snap)"
    by (rule compile_parts)
  let ?cs = "case ad_allowClientCidrs (sp_admission (st_spec st)) of None \<Rightarrow> DefaultLoopbackCIDRs | Some cs \<Rightarrow> map fix_utf8 cs"
  have cs: "ad_allowClientCidrs (sp_admission (st_spec n)) = Some ?cs"
    using n(1) by (auto simp: Normalize_def config_cloneState_def json_state_def materializeDefaults_def Let_def json_spec_def
        split: if_splits option.splits)
  note a = compileAllow_Inr [OF n(2) [unfolded cs]]
  have "Allowed (Some snap) ip \<longleftrightarrow> (\<exists>p \<in> set (sn_allow snap). Contains p (Unmap ip) \<or> Contains p ip)"
  proof (cases "?cs = []")
    case True
    then show ?thesis using a by (simp add: Allowed_def)
  next
    case False
    have "sn_allow snap \<noteq> []"
    proof
      assume "sn_allow snap = []"
      then show False using n(2) cs False parse_cidrs_Inr [of K 0 ?cs "[]"] by (auto simp: compileAllow_def split: sum.splits if_splits)
    qed
    then show ?thesis using a(1) False by (simp add: Allowed_def Let_def list_ex_iff)
  qed
  also have "\<dots> \<longleftrightarrow> list_ex (\<lambda>c. case cf_prefix K c of Inl _ \<Rightarrow> False | Inr p \<Rightarrow> Contains p (Unmap ip) \<or> Contains p ip) ?cs"
    unfolding a(2) by (rule ex_parsed)
  finally show ?thesis .
qed

text \<open>Compiling the document of a snapshot again gives the same snapshot: only the generation, the time and the
  bootstrap revision come from the new options. So a snapshot is determined by its document.\<close>

theorem compile_again:
  assumes "trip_ok E K" and "compiler_Compile E K clock st opts = Inr snap"
  shows "compiler_Compile E K clock' (sn_canonical snap) opts' = Inr (snap\<lparr>
     sn_generation := co_generation opts', sn_compiledAt := (case co_now opts' of None \<Rightarrow> clock' | Some t \<Rightarrow> t),
     sn_bootstrapRevision := (if co_bootstrapRevision opts' = [] then sn_revision snap else co_bootstrapRevision opts')\<rparr>)"
proof -
  from assms(2) obtain n where n: "Normalize E K st = Inr n" "sn_canonical snap = Some n" by (rule compile_parts)
  have "normal_form E K n"
    using n(1) Normalize_gives_normal [OF assms(1)] by (cases st) (auto simp: Normalize_def)
  then have "Normalize E K (Some n) = Inr n" by (rule Normalize_normal)
  with assms(2) n show ?thesis
    unfolding compiler_Compile_def Let_def by (auto split: sum.splits option.splits prod.splits)
qed

abbreviation boot_profile :: profile_spec where
  "boot_profile \<equiv> \<lparr>pr_name = ''r1'', pr_modules = [], pr_schema = [], pr_instance = Some [], pr_startup = None\<rparr>"

abbreviation boot_user :: user_spec where
  "boot_user \<equiv> \<lparr>us_name = ''ada'', us_passwordFile = ''pw'', us_authorizedKeysFile = [], us_profile = ''r1'', us_access = ''read-write''\<rparr>"

abbreviation boot_spec :: spec where
  "boot_spec \<equiv> \<lparr>sp_listeners = \<lparr>ls_netconf = \<lparr>nl_enabled = True, nl_address = '':830'', nl_hostKeyFile = ''hk''\<rparr>,
      ls_restconf = \<lparr>rl_enabled = False, rl_address = '':8303'', rl_tls = \<lparr>tls_enabled = False\<rparr>\<rparr>,
      ls_management = \<lparr>ml_address = '':8088'', ml_restPath = ''/v1'', ml_mcpPath = ''/mcp''\<rparr>,
      ls_callHome = \<lparr>ch_enabled = False\<rparr>, ls_netconfTLS = \<lparr>nt_enabled = False\<rparr>\<rparr>,
     sp_auth = \<lparr>as_mode = ''bearer'', as_tokens = []\<rparr>, sp_ui = \<lparr>ui_enabled = False\<rparr>,
     sp_netconf = \<lparr>nc_versions = [''1.1''], nc_writableRunning = False, nc_notifications = \<lparr>ns_enabled = True\<rparr>,
       nc_sharedProfileDatastore = True\<rparr>,
     sp_restconf = \<lparr>rc_json = True, rc_xml = False\<rparr>, sp_admission = \<lparr>ad_allowClientCidrs = Some [''127.0.0.0/8'']\<rparr>,
     sp_management = \<lparr>mg_allowedOrigins = [], mg_mcp = \<lparr>mcp_allowLegacyClients = False\<rparr>\<rparr>,
     sp_profiles = [boot_profile], sp_users = [boot_user]\<rparr>"

abbreviation boot_state :: state where
  "boot_state \<equiv> \<lparr>st_apiVersion = ''labnetconf.dev/v1alpha1'', st_kind = ''LabNETCONF'',
     st_metadata = \<lparr>mt_name = ''lab'', mt_labels = []\<rparr>, st_spec = boot_spec\<rparr>"

abbreviation no_opts :: compile_opts where
  "no_opts \<equiv> \<lparr>co_now = None, co_bootstrapRevision = [], co_generation = 0\<rparr>"

abbreviation lib0 :: golib where
  "lib0 \<equiv> float_lib (\<lambda>_. None)"

lemma blank_plain: "s \<noteq> [] \<Longrightarrow> plain_ascii (hd s) \<Longrightarrow> plain_ascii (last s) \<Longrightarrow> \<not> blank s"
  by (simp add: blank_def TrimSpace_plain)

lemma boot_normal: "normal_form E K boot_state"
  unfolding normal_form_def
proof (intro conjI)
  show "json_state E K boot_state = boot_state"
    by (simp add: json_state_def json_spec_def json_listeners_def json_profile_def json_user_def fix_utf8_ascii)
  show "materializeDefaults (st_spec boot_state) = st_spec boot_state"
    by (simp add: materializeDefaults_def or_default_def blank_plain plain_ascii_def)
qed (simp_all add: state_trees_def)

lemma boot_valid: "valid_state cfg_lib [] boot_state"
  by (simp add: valid_state_def Let_def listeners_ok_def address_ok_def url_path_ok_def blank_plain plain_ascii_def names_given_def
      profile_ok_def user_ok_def parses_def)

lemma Validate_empty: "Validate E \<lparr>n_schema = Some [], n_root = Some []\<rparr> = None"
  by (simp add: Validate_def validateValue.simps [of E "Some []"] validateChildren.simps [of E "Some []"] schema_lookup_def
      root_map_def asMap_def)

lemma compileAllow_ok:
  assumes "\<forall>cs. c = Some cs \<longrightarrow> (\<forall>x \<in> set cs. parses K x)"
  shows "\<exists>al. compileAllow K c = Inr al"
proof (cases c)
  case (Some cs)
  with assms parse_cidrs_ok [of cs K 0] obtain ps where "parse_cidrs K 0 cs = Inr ps" by auto
  with Some show ?thesis by (auto simp: compileAllow_def)
qed (auto simp: compileAllow_def)

text \<open>A valid document whose trees compile has a snapshot: the client networks always parse, so only the
  YAML encoder can fail after that.\<close>

lemma compile_succeeds:
  assumes nf: "normal_form E K n" and v: "valid_state K [] n" and ps: "compileProfiles E (sp_profiles (st_spec n)) = Inr qs"
    and y: "cf_yaml_write K (toYAMLNode E K (tree_state K n)) = Inr b"
  shows "\<exists>snap. compiler_Compile E K clock (Some n) opts = Inr snap \<and> sn_canonical snap = Some n
    \<and> sn_profiles snap = qs \<and> sn_users snap = compileUsers (sp_users (st_spec n))
    \<and> sn_shared snap = nc_sharedProfileDatastore (sp_netconf (st_spec n))"
proof -
  note norm = Normalize_normal [OF nf]
  have "list_all marshals (state_trees n)" using nf by (simp add: normal_form_def)
  then have r: "Revision E K (Some n) = Inr (''sha256:'' @ hex_encode (cf_sha256 K b))"
    by (simp add: Revision_def CanonicalYAML_def norm y)
  have "\<forall>cs. ad_allowClientCidrs (sp_admission (st_spec n)) = Some cs \<longrightarrow> (\<forall>c \<in> set cs. parses K c)"
    using v by (simp add: valid_state_def Let_def)
  from compileAllow_ok [OF this]
  obtain al where al: "compileAllow K (ad_allowClientCidrs (sp_admission (st_spec n))) = Inr al" by blast
  have "config_Validate K (Some n) = None" using v by (simp add: config_Validate_valid)
  with norm ps r al show ?thesis by (cases al) (simp add: compiler_Compile_def Let_def)
qed

lemma boot_compiles_in:
  assumes "valid_state K [] boot_state" and "cf_yaml_write K (toYAMLNode E K (tree_state K boot_state)) = Inr b"
  shows "\<exists>snap. compiler_Compile E K clock (Some boot_state) opts = Inr snap \<and> sn_canonical snap = Some boot_state
    \<and> sn_profiles snap = [\<lparr>sf_name = ''r1'', sf_modules = [], sf_schema = [],
         sf_running = \<lparr>n_schema = Some [], n_root = Some []\<rparr>, sf_startup = zero_node\<rparr>]
    \<and> sn_users snap = compileUsers [boot_user] \<and> sn_shared snap = True"
proof -
  have "compileProfiles E [boot_profile] = Inr [\<lparr>sf_name = ''r1'', sf_modules = [], sf_schema = [],
      sf_running = \<lparr>n_schema = Some [], n_root = Some []\<rparr>, sf_startup = zero_node\<rparr>]"
    by (simp add: compileProfile_def Compile_def newSchema_def clone_map_id Validate_empty)
  from compile_succeeds [OF boot_normal assms(1) _ assms(2), of _ clock opts] this show ?thesis by simp
qed

lemma boot_compiles: "\<exists>snap. compiler_Compile lib0 cfg_lib 7 (Some boot_state) no_opts = Inr snap \<and> sn_canonical snap = Some boot_state
    \<and> sn_profiles snap = [\<lparr>sf_name = ''r1'', sf_modules = [], sf_schema = [],
         sf_running = \<lparr>n_schema = Some [], n_root = Some []\<rparr>, sf_startup = zero_node\<rparr>]
    \<and> sn_users snap = compileUsers [boot_user] \<and> sn_shared snap = True"
  by (rule boot_compiles_in [OF boot_valid]) simp

theorem compile_sound_witness:
  "\<exists>snap. compiler_Compile lib0 cfg_lib 7 (Some boot_state) no_opts = Inr snap \<and> snapshot_ok lib0 snap \<and> \<not> Drifted (Some snap)"
  using boot_compiles compile_sound [OF float_lib_trip, of 7 "Some boot_state" no_opts] by fastforce

theorem admission_exact_witness:
  "\<exists>snap. compiler_Compile lib0 cfg_lib 7 (Some boot_state) no_opts = Inr snap
     \<and> Allowed (Some snap) (A6 0xFFFF7F000001 []) \<and> \<not> Allowed (Some snap) (A4 0x08080808)"
proof -
  from boot_compiles obtain snap where s: "compiler_Compile lib0 cfg_lib 7 (Some boot_state) no_opts = Inr snap" by blast
  have "Contains \<lparr>np_addr = A4 0x7F000000, np_bits = 8\<rparr> (Unmap (A6 0xFFFF7F000001 []))"
    "\<not> Contains \<lparr>np_addr = A4 0x7F000000, np_bits = 8\<rparr> (A4 0x08080808)" "Unmap (A4 0x08080808) = A4 0x08080808"
    by (simp_all add: Unmap_def Contains_A4 same_net_def)
  then show ?thesis
    using s admission_exact [OF s, of "A6 0xFFFF7F000001 []"] admission_exact [OF s, of "A4 0x08080808"]
    by (simp add: list_ex_iff)
qed

theorem compile_again_witness:
  "\<exists>snap. compiler_Compile lib0 cfg_lib 7 (Some boot_state) no_opts = Inr snap
     \<and> (\<exists>snap'. compiler_Compile lib0 cfg_lib 9 (sn_canonical snap) no_opts = Inr snap' \<and> sn_profiles snap' = sn_profiles snap)"
proof -
  from boot_compiles obtain snap where s: "compiler_Compile lib0 cfg_lib 7 (Some boot_state) no_opts = Inr snap" by blast
  from compile_again [OF float_lib_trip s, of 9 no_opts] s show ?thesis by fastforce
qed

text \<open>An empty startup map does not survive the copy of the document, so the profile gets no startup tree and its
  datastore starts from a copy of running.\<close>

theorem empty_startup_is_running:
  assumes "pr_startup p = Some []" and "compileProfile E (json_profile E K p) = Inr q" and "node_ok (sf_running q)"
  shows "IsZero (sf_startup q) \<and> h_startup (ds_New E (sf_name q) (sf_running q) zero_node (sf_startup q) sink)
    = h_running (ds_New E (sf_name q) (sf_running q) zero_node (sf_startup q) sink)"
proof -
  have "sf_startup q = zero_node" using compileProfile_fields(6) [OF assms(2)] assms(1) by (simp add: json_profile_def)
  moreover have "node_Clone E (node_Clone E n) = node_Clone E n" if "node_ok n" for n
    using clone_map_id [OF that, of E] by (simp add: node_Clone_def root_map_def)
  ultimately show ?thesis using assms(3) by (simp add: ds_New_def IsZero_def Let_def)
qed

end
