(* ===== verification/App_Idempotency.thy ===== *)
theory App_Idempotency
  imports App_Operations "HOL-Library.Word"
begin

text \<open>
  Package \<open>app\<close>, \<open>idempotency.go\<close>, with the result types of \<open>types.go\<close>: the bounded cache of
  apply results, a map of keys to the nodes of a doubly linked list kept in order of use. The
  nodes are cells of a heap, and every pointer assignment of the code is an update of it. The
  specification is a plain list, most recent first; the theorems say that the linked cache
  implements it for every sequence of calls, and that it never holds more than its maximum.
\<close>

section \<open>Results\<close>

record diff_entry =
  de_path :: string
  de_op :: string
  de_before :: "bytes option"
  de_after :: "bytes option"

record plan =
  pl_previous :: string
  pl_candidate :: string
  pl_drifted :: bool
  pl_diff :: "diff_entry list option"
  pl_operations :: "apply_oper list option"

record apply_result =
  ar_plan :: plan
  ar_applied :: bool
  ar_generation :: "64 word"
  ar_runtimeRevision :: string

text \<open>\<open>append([]T(nil), xs...)\<close> of a non-nil slice: a copy, but nil when the slice is empty.\<close>

definition append_nil :: "'a list \<Rightarrow> 'a list option" where
  "append_nil xs = (if xs = [] then None else Some xs)"

definition cloneDiff :: "diff_entry list option \<Rightarrow> diff_entry list option" where
  "cloneDiff diff = map_option (map (\<lambda>d. d\<lparr>de_before := Option.bind (de_before d) append_nil,
     de_after := Option.bind (de_after d) append_nil\<rparr>)) diff"

definition clonePlan :: "plan \<Rightarrow> plan" where
  "clonePlan p = p\<lparr>pl_diff := cloneDiff (pl_diff p), pl_operations := Option.bind (pl_operations p) append_nil\<rparr>"

definition cloneApply :: "apply_result option \<Rightarrow> apply_result option" where
  "cloneApply r = map_option (\<lambda>r. r\<lparr>ar_plan := clonePlan (ar_plan r)\<rparr>) r"

section \<open>The cache\<close>

type_synonym ptr = nat

record idemp_entry =
  ie_key :: string
  ie_fp :: string
  ie_apply :: "apply_result option"
  ie_prev :: "ptr option"
  ie_next :: "ptr option"

record idemp_cache =
  ic_max :: nat
  ic_entries :: "ptr gomap"
  ic_head :: "ptr option"
  ic_tail :: "ptr option"
  ic_heap :: "ptr \<Rightarrow> idemp_entry"
  ic_fresh :: ptr

definition newIdempCache :: "int \<Rightarrow> idemp_cache" where
  "newIdempCache mx = \<lparr>ic_max = nat (if mx \<le> 0 then 256 else mx), ic_entries = [], ic_head = None, ic_tail = None,
     ic_heap = (\<lambda>_. \<lparr>ie_key = [], ie_fp = [], ie_apply = None, ie_prev = None, ie_next = None\<rparr>), ic_fresh = 0\<rparr>"

definition upd :: "ptr \<Rightarrow> (idemp_entry \<Rightarrow> idemp_entry) \<Rightarrow> idemp_cache \<Rightarrow> idemp_cache" where
  "upd p f c = c\<lparr>ic_heap := (ic_heap c)(p := f (ic_heap c p))\<rparr>"

definition set_prev :: "idemp_cache \<Rightarrow> ptr \<Rightarrow> ptr option \<Rightarrow> idemp_cache" where
  "set_prev c p v = upd p (\<lambda>e. e\<lparr>ie_prev := v\<rparr>) c"

definition set_next :: "idemp_cache \<Rightarrow> ptr \<Rightarrow> ptr option \<Rightarrow> idemp_cache" where
  "set_next c p v = upd p (\<lambda>e. e\<lparr>ie_next := v\<rparr>) c"

definition unlinkLocked :: "idemp_cache \<Rightarrow> ptr \<Rightarrow> idemp_cache" where
  "unlinkLocked c e =
    (let c1 = (case ie_prev (ic_heap c e) of
                 Some p \<Rightarrow> set_next c p (ie_next (ic_heap c e))
               | None \<Rightarrow> c\<lparr>ic_head := ie_next (ic_heap c e)\<rparr>);
         c2 = (case ie_next (ic_heap c1 e) of
                 Some n \<Rightarrow> set_prev c1 n (ie_prev (ic_heap c1 e))
               | None \<Rightarrow> c1\<lparr>ic_tail := ie_prev (ic_heap c1 e)\<rparr>)
     in set_next (set_prev c2 e None) e None)"

definition removeLocked :: "idemp_cache \<Rightarrow> ptr \<Rightarrow> idemp_cache" where
  "removeLocked c e = unlinkLocked (c\<lparr>ic_entries := kv_del (ie_key (ic_heap c e)) (ic_entries c)\<rparr>) e"

text \<open>Linking a node in at the front, as the insertion and the move do.\<close>

definition link_front :: "idemp_cache \<Rightarrow> ptr \<Rightarrow> idemp_cache" where
  "link_front c e =
    (let c1 = set_prev c e None;
         c2 = set_next c1 e (ic_head c1);
         c3 = (case ic_head c2 of Some h \<Rightarrow> set_prev c2 h (Some e) | None \<Rightarrow> c2);
         c4 = c3\<lparr>ic_head := Some e\<rparr>
     in if ic_tail c4 = None then c4\<lparr>ic_tail := Some e\<rparr> else c4)"

definition moveFrontLocked :: "idemp_cache \<Rightarrow> ptr \<Rightarrow> idemp_cache" where
  "moveFrontLocked c e = (if ic_head c = Some e then c else link_front (unlinkLocked c e) e)"

text \<open>
  The loop that drops the tail while the cache is over its maximum. The fuel is the number of
  entries: every iteration removes one.
\<close>

fun trim :: "nat \<Rightarrow> idemp_cache \<Rightarrow> idemp_cache" where
  "trim 0 c = c"
| "trim (Suc n) c = (if length (ic_entries c) > ic_max c then
     (case ic_tail c of Some t \<Rightarrow> trim n (removeLocked c t) | None \<Rightarrow> c) else c)"

text \<open>The entry is allocated first: a new cell of the heap.\<close>

definition insertFrontLocked :: "idemp_cache \<Rightarrow> idemp_entry \<Rightarrow> idemp_cache" where
  "insertFrontLocked c ent =
    (let e = ic_fresh c;
         c0 = upd e (\<lambda>_. ent) (c\<lparr>ic_fresh := Suc e\<rparr>);
         c1 = (case map_of (ic_entries c0) (ie_key ent) of Some old \<Rightarrow> removeLocked c0 old | None \<Rightarrow> c0);
         c2 = c1\<lparr>ic_entries := kv_put (ie_key ent) e (ic_entries c1)\<rparr>;
         c3 = link_front c2 e
     in trim (length (ic_entries c3)) c3)"

definition idemp_lookup :: "idemp_cache \<Rightarrow> string \<Rightarrow> string \<Rightarrow> idemp_cache \<times> (derr + ptr option)" where
  "idemp_lookup c key fp =
    (if key = [] then (c, Inr None)
     else case map_of (ic_entries c) key of
       None \<Rightarrow> (c, Inr None)
     | Some e \<Rightarrow>
         if ie_fp (ic_heap c e) \<noteq> fp then
           (c, Inl (ValidationFailed ''idempotency key reused with a different request''
              [fv ''idempotencyKey'' ''invalid_value'' ''idempotency key reused with a different request'']))
         else (moveFrontLocked c e, Inr (Some e)))"

definition storeApply :: "idemp_cache \<Rightarrow> string \<Rightarrow> string \<Rightarrow> apply_result option \<Rightarrow> idemp_cache" where
  "storeApply c key fp r =
    (if key = [] \<or> r = None then c
     else
       (let fresh = \<lparr>ie_key = key, ie_fp = fp, ie_apply = cloneApply r, ie_prev = None, ie_next = None\<rparr> in
        case map_of (ic_entries c) key of
          Some e \<Rightarrow>
            if ie_fp (ic_heap c e) = fp then moveFrontLocked (upd e (\<lambda>x. x\<lparr>ie_apply := cloneApply r\<rparr>) c) e
            else insertFrontLocked c fresh
        | None \<Rightarrow> insertFrontLocked c fresh))"

definition evict :: "idemp_cache \<Rightarrow> string \<Rightarrow> idemp_cache" where
  "evict c key =
    (if key = [] then c
     else case map_of (ic_entries c) key of Some e \<Rightarrow> removeLocked c e | None \<Rightarrow> c)"

definition clear :: "idemp_cache \<Rightarrow> idemp_cache" where
  "clear c = c\<lparr>ic_entries := [], ic_head := None, ic_tail := None\<rparr>"

section \<open>The specification\<close>

type_synonym lru_entry = "string \<times> string \<times> apply_result option"

definition lru_del :: "string \<Rightarrow> lru_entry list \<Rightarrow> lru_entry list" where
  "lru_del k xs = filter (\<lambda>x. fst x \<noteq> k) xs"

definition lru_get :: "string \<Rightarrow> lru_entry list \<Rightarrow> lru_entry option" where
  "lru_get k xs = find (\<lambda>x. fst x = k) xs"

definition lru_lookup :: "lru_entry list \<Rightarrow> string \<Rightarrow> string \<Rightarrow> lru_entry list" where
  "lru_lookup xs k fp = (if k = [] then xs else case lru_get k xs of
     None \<Rightarrow> xs
   | Some x \<Rightarrow> if fst (snd x) \<noteq> fp then xs else x # lru_del k xs)"

definition lru_store :: "nat \<Rightarrow> lru_entry list \<Rightarrow> string \<Rightarrow> string \<Rightarrow> apply_result option \<Rightarrow> lru_entry list" where
  "lru_store mx xs k fp r = (if k = [] \<or> r = None then xs else
     (case lru_get k xs of
        Some x \<Rightarrow>
          if fst (snd x) = fp then (k, fp, cloneApply r) # lru_del k xs
          else take mx ((k, fp, cloneApply r) # lru_del k xs)
      | None \<Rightarrow> take mx ((k, fp, cloneApply r) # xs)))"

definition lru_evict :: "lru_entry list \<Rightarrow> string \<Rightarrow> lru_entry list" where
  "lru_evict xs k = (if k = [] then xs else lru_del k xs)"

section \<open>Linked segments\<close>

abbreviation first_of :: "ptr list \<Rightarrow> ptr option \<Rightarrow> ptr option" where
  "first_of ps nx \<equiv> (case ps of [] \<Rightarrow> nx | q # _ \<Rightarrow> Some q)"

fun dlseg :: "(ptr \<Rightarrow> idemp_entry) \<Rightarrow> ptr option \<Rightarrow> ptr list \<Rightarrow> ptr option \<Rightarrow> bool" where
  "dlseg hp pr [] nx = True"
| "dlseg hp pr (p # ps) nx =
     (ie_prev (hp p) = pr \<and> ie_next (hp p) = first_of ps nx \<and> dlseg hp (Some p) ps nx)"

lemma dlseg_frame [simp]: "p \<notin> set ps \<Longrightarrow> dlseg (hp(p := x)) pr ps nx = dlseg hp pr ps nx"
  by (induction ps arbitrary: pr) auto

lemma dlseg_append:
  "dlseg hp pr (as @ bs) nx \<longleftrightarrow>
     dlseg hp pr as (first_of bs nx) \<and> dlseg hp (if as = [] then pr else Some (last as)) bs nx"
  by (induction as arbitrary: pr) (auto split: list.splits)

definition links :: "idemp_cache \<Rightarrow> ptr list \<Rightarrow> bool" where
  "links c ps \<longleftrightarrow> dlseg (ic_heap c) None ps None \<and> distinct ps \<and> ic_head c = first_of ps None
     \<and> ic_tail c = (if ps = [] then None else Some (last ps))"

definition pay :: "idemp_cache \<Rightarrow> ptr \<Rightarrow> lru_entry" where
  "pay c p = (ie_key (ic_heap c p), ie_fp (ic_heap c p), ie_apply (ic_heap c p))"

text \<open>Everything but the links.\<close>

definition same_data :: "idemp_cache \<Rightarrow> idemp_cache \<Rightarrow> bool" where
  "same_data c c' \<longleftrightarrow> ic_entries c' = ic_entries c \<and> ic_max c' = ic_max c \<and> ic_fresh c' = ic_fresh c \<and> pay c' = pay c"

lemma same_data_trans: "same_data c c' \<Longrightarrow> same_data c' c'' \<Longrightarrow> same_data c c''"
  by (simp add: same_data_def)

lemma set_link_fields [simp]:
  "ic_head (set_prev c p v) = ic_head c" "ic_tail (set_prev c p v) = ic_tail c"
  "ic_head (set_next c p v) = ic_head c" "ic_tail (set_next c p v) = ic_tail c"
  "ic_heap (set_prev c p v) = (ic_heap c)(p := (ic_heap c p)\<lparr>ie_prev := v\<rparr>)"
  "ic_heap (set_next c p v) = (ic_heap c)(p := (ic_heap c p)\<lparr>ie_next := v\<rparr>)"
  "ic_entries (set_prev c p v) = ic_entries c" "ic_entries (set_next c p v) = ic_entries c"
  "ic_max (set_prev c p v) = ic_max c" "ic_max (set_next c p v) = ic_max c"
  "ic_fresh (set_prev c p v) = ic_fresh c" "ic_fresh (set_next c p v) = ic_fresh c"
  "pay (set_prev c p v) = pay c" "pay (set_next c p v) = pay c"
  by (auto simp: set_prev_def set_next_def upd_def pay_def fun_eq_iff)

lemma pay_head_tail [simp]: "pay (c\<lparr>ic_head := x\<rparr>) = pay c" "pay (c\<lparr>ic_tail := x\<rparr>) = pay c"
    "pay (c\<lparr>ic_entries := m\<rparr>) = pay c" "pay (c\<lparr>ic_fresh := n\<rparr>) = pay c"
  by (simp_all add: pay_def fun_eq_iff)

lemma unlink_same: "same_data c (unlinkLocked c e)"
  by (simp add: same_data_def unlinkLocked_def Let_def split: option.split)

lemma link_front_same: "same_data c (link_front c e)"
  by (simp add: same_data_def link_front_def Let_def split: option.split)

lemma link_front_links:
  assumes "links c ps" and "e \<notin> set ps"
  shows "links (link_front c e) (e # ps)"
  using assms by (cases ps) (auto simp: links_def link_front_def Let_def split: list.splits)

lemma unlink_links:
  assumes "links c (as @ e # bs)"
  shows "links (unlinkLocked c e) (as @ bs)"
proof -
  have seg: "dlseg (ic_heap c) None as (Some e)" "ie_prev (ic_heap c e) = (if as = [] then None else Some (last as))"
      "ie_next (ic_heap c e) = first_of bs None" "dlseg (ic_heap c) (Some e) bs None"
    using assms by (auto simp: links_def dlseg_append)
  have d: "distinct (as @ e # bs)" and ht: "ic_head c = first_of (as @ [e]) None" "ic_tail c = Some (last (e # bs))"
    using assms by (cases as; simp add: links_def)+
  show ?thesis
  proof (cases as rule: rev_cases)
    case Nil
    with seg d ht show ?thesis
      by (cases bs) (simp_all add: links_def unlinkLocked_def Let_def)
  next
    case (snoc as' p)
    show ?thesis
    proof (cases bs)
      case bs: Nil
      have h: "ic_heap (unlinkLocked c e) = (ic_heap c)(p := (ic_heap c p)\<lparr>ie_next := None\<rparr>, e := (ic_heap c e)\<lparr>ie_prev := None, ie_next := None\<rparr>)"
        "ic_head (unlinkLocked c e) = ic_head c" "ic_tail (unlinkLocked c e) = Some p"
        using seg d by (simp_all add: unlinkLocked_def Let_def snoc bs)
      have "dlseg (ic_heap (unlinkLocked c e)) None (as' @ [p]) None"
        unfolding h using seg(1) d by (simp add: dlseg_append snoc bs)
      with d ht show ?thesis by (cases as') (simp_all add: links_def h snoc bs)
    next
      case bs: (Cons b bs')
      have h: "ic_heap (unlinkLocked c e) = (ic_heap c)(p := (ic_heap c p)\<lparr>ie_next := Some b\<rparr>, b := (ic_heap c b)\<lparr>ie_prev := Some p\<rparr>,
          e := (ic_heap c e)\<lparr>ie_prev := None, ie_next := None\<rparr>)"
        "ic_head (unlinkLocked c e) = ic_head c" "ic_tail (unlinkLocked c e) = ic_tail c"
        using seg d by (simp_all add: unlinkLocked_def Let_def snoc bs)
      have "dlseg (ic_heap (unlinkLocked c e)) None ((as' @ [p]) @ b # bs') None"
        unfolding h dlseg_append [of _ _ "as' @ [p]"] using seg d by (simp add: dlseg_append snoc bs)
      with d ht show ?thesis by (cases as') (simp_all add: links_def h snoc bs)
    qed
  qed
qed

section \<open>Representation\<close>

definition rep :: "idemp_cache \<Rightarrow> ptr list \<Rightarrow> bool" where
  "rep c ps \<longleftrightarrow> links c ps \<and> distinct (map fst (ic_entries c))
     \<and> (\<forall>k p. map_of (ic_entries c) k = Some p \<longleftrightarrow> p \<in> set ps \<and> fst (pay c p) = k)
     \<and> (\<forall>p \<in> set ps. p < ic_fresh c)"

abbreviation abs_of :: "idemp_cache \<Rightarrow> ptr list \<Rightarrow> lru_entry list" where
  "abs_of c ps \<equiv> map (pay c) ps"

lemma rep_distinct_keys: "rep c ps \<Longrightarrow> distinct (map fst (abs_of c ps))"
proof -
  assume r: "rep c ps"
  have "p = q" if "p \<in> set ps" "q \<in> set ps" "fst (pay c p) = fst (pay c q)" for p q
    using r that unfolding rep_def by (metis option.inject)
  with r show ?thesis by (auto simp: rep_def links_def distinct_map inj_on_def)
qed

lemma rep_length: "rep c ps \<Longrightarrow> length (ic_entries c) = length ps"
proof -
  assume r: "rep c ps"
  have "fst ` set (ic_entries c) = set (map fst (abs_of c ps))"
  proof (rule set_eqI)
    fix k
    have "k \<in> fst ` set (ic_entries c) \<longleftrightarrow> (\<exists>p. map_of (ic_entries c) k = Some p)"
      by (metis map_of_eq_None_iff not_None_eq)
    also have "\<dots> \<longleftrightarrow> k \<in> set (map fst (abs_of c ps))" using r unfolding rep_def by auto
    finally show "k \<in> fst ` set (ic_entries c) \<longleftrightarrow> k \<in> set (map fst (abs_of c ps))" .
  qed
  then have "card (set (map fst (ic_entries c))) = card (set (map fst (abs_of c ps)))" by simp
  with r rep_distinct_keys [OF r] show ?thesis
    by (metis distinct_card length_map rep_def)
qed

lemma find_unique: "distinct (map f xs) \<Longrightarrow> x \<in> set xs \<Longrightarrow> find (\<lambda>y. f y = f x) xs = Some x"
  by (induction xs) auto

lemma rep_get: "rep c ps \<Longrightarrow> lru_get k (abs_of c ps) = map_option (pay c) (map_of (ic_entries c) k)"
proof (cases "map_of (ic_entries c) k")
  case None
  assume r: "rep c ps"
  with None have "\<forall>p \<in> set ps. fst (pay c p) \<noteq> k" unfolding rep_def by (metis option.distinct(1))
  then show ?thesis by (simp add: None lru_get_def find_None_iff)
next
  case (Some p)
  assume r: "rep c ps"
  with Some have "p \<in> set ps" "fst (pay c p) = k" by (auto simp: rep_def)
  with find_unique [OF rep_distinct_keys [OF r], of "pay c p"] Some show ?thesis by (simp add: lru_get_def)
qed

lemma rep_mapI: "rep c ps \<Longrightarrow> p \<in> set ps \<Longrightarrow> map_of (ic_entries c) (fst (pay c p)) = Some p"
  unfolding rep_def by blast

lemma rep_other_keys:
  assumes "rep c (as @ e # bs)" and "p \<in> set (as @ bs)"
  shows "fst (pay c p) \<noteq> fst (pay c e)"
proof
  assume "fst (pay c p) = fst (pay c e)"
  moreover have "map_of (ic_entries c) (fst (pay c p)) = Some p" "map_of (ic_entries c) (fst (pay c e)) = Some e"
    by (rule rep_mapI [OF assms(1)]; use assms(2) in \<open>simp add: disj_commute\<close>)+
  ultimately have "p = e" by (metis option.inject)
  with assms show False by (simp add: rep_def links_def)
qed

lemma rep_del:
  assumes "rep c (as @ e # bs)"
  shows "lru_del (fst (pay c e)) (abs_of c (as @ e # bs)) = abs_of c (as @ bs)"
proof -
  have "\<forall>x \<in> set (abs_of c as @ abs_of c bs). fst x \<noteq> fst (pay c e)"
    using rep_other_keys [OF assms] by auto
  then show ?thesis by (simp add: lru_del_def filter_id_conv)
qed

lemma removeLocked_rep:
  assumes "rep c (as @ e # bs)"
  shows "rep (removeLocked c e) (as @ bs)" and "pay (removeLocked c e) = pay c" and "ic_max (removeLocked c e) = ic_max c"
    and "map_of (ic_entries (removeLocked c e)) = (map_of (ic_entries c))(fst (pay c e) := None)"
    and "ic_fresh (removeLocked c e) = ic_fresh c"
proof -
  let ?c = "c\<lparr>ic_entries := kv_del (ie_key (ic_heap c e)) (ic_entries c)\<rparr>"
  have same: "same_data ?c (removeLocked c e)" unfolding removeLocked_def by (rule unlink_same)
  then show pay: "pay (removeLocked c e) = pay c" and "ic_max (removeLocked c e) = ic_max c" "ic_fresh (removeLocked c e) = ic_fresh c"
    by (simp_all add: same_data_def)
  have key: "ie_key (ic_heap c e) = fst (pay c e)" by (simp add: pay_def)
  from same key show ent: "map_of (ic_entries (removeLocked c e)) = (map_of (ic_entries c))(fst (pay c e) := None)"
    by (simp add: same_data_def)
  have "links ?c (as @ e # bs)" using assms by (simp add: rep_def links_def)
  then have l: "links (removeLocked c e) (as @ bs)" unfolding removeLocked_def by (rule unlink_links)
  have "e \<notin> set (as @ bs)" using assms by (simp add: rep_def links_def)
  moreover have "\<forall>p \<in> set (as @ bs). fst (pay c p) \<noteq> fst (pay c e)"
    using rep_other_keys [OF assms] by blast
  moreover have "distinct (map fst (ic_entries (removeLocked c e)))"
    using same assms by (simp add: same_data_def rep_def distinct_delete)
  ultimately show "rep (removeLocked c e) (as @ bs)"
    using l assms same unfolding rep_def ent pay by (auto simp: same_data_def)
qed

lemma moveFront_rep:
  assumes "rep c (as @ e # bs)"
  shows "rep (moveFrontLocked c e) (e # as @ bs)" and "same_data c (moveFrontLocked c e)"
proof -
  have "same_data c (link_front (unlinkLocked c e) e)"
    by (rule same_data_trans [OF unlink_same link_front_same])
  then show same: "same_data c (moveFrontLocked c e)"
    by (simp add: moveFrontLocked_def) (simp add: same_data_def)
  have l: "links c (as @ e # bs)" and e: "e \<notin> set (as @ bs)" using assms by (simp_all add: rep_def links_def)
  have "links (moveFrontLocked c e) (e # as @ bs)"
  proof (cases as)
    case Nil
    with l show ?thesis by (simp add: moveFrontLocked_def links_def)
  next
    case (Cons a as')
    with l e have "ic_head c \<noteq> Some e" by (auto simp: links_def)
    with link_front_links [OF unlink_links [OF l] e] show ?thesis by (simp add: moveFrontLocked_def)
  qed
  then show "rep (moveFrontLocked c e) (e # as @ bs)"
    using assms same unfolding rep_def by (auto simp: same_data_def)
qed

lemma trim_rep:
  "rep c ps \<Longrightarrow> length ps \<le> n \<Longrightarrow> rep (trim n c) (take (ic_max c) ps) \<and> pay (trim n c) = pay c \<and> ic_max (trim n c) = ic_max c"
proof (induction n arbitrary: c ps)
  case (Suc n)
  show ?case
  proof (cases "length ps > ic_max c")
    case True
    then have "ps \<noteq> []" by auto
    then obtain as t where ps: "ps = as @ [t]" using rev_exhaust by blast
    have rm: "rep (removeLocked c t) as" "pay (removeLocked c t) = pay c" "ic_max (removeLocked c t) = ic_max c"
      using removeLocked_rep [of c as t "[]"] Suc.prems(1) by (simp_all add: ps)
    have "ic_tail c = Some t" using Suc.prems(1) by (simp add: rep_def links_def ps)
    then have step: "trim (Suc n) c = trim n (removeLocked c t)" using True rep_length [OF Suc.prems(1)] by simp
    from Suc.IH [OF rm(1)] Suc.prems(2) rm True show ?thesis unfolding step by (simp add: ps)
  qed (use Suc.prems rep_length [OF Suc.prems(1)] in auto)
qed simp

lemma alloc_rep:
  assumes "rep c ps"
  shows "rep (upd (ic_fresh c) (\<lambda>_. ent) (c\<lparr>ic_fresh := Suc (ic_fresh c)\<rparr>)) ps"
    and "abs_of (upd (ic_fresh c) (\<lambda>_. ent) (c\<lparr>ic_fresh := Suc (ic_fresh c)\<rparr>)) ps = abs_of c ps"
proof -
  let ?c = "upd (ic_fresh c) (\<lambda>_. ent) (c\<lparr>ic_fresh := Suc (ic_fresh c)\<rparr>)"
  have fresh: "ic_fresh c \<notin> set ps" using assms by (auto simp: rep_def)
  then have pay: "pay ?c p = pay c p" if "p \<in> set ps" for p using that by (auto simp: pay_def upd_def)
  then show "abs_of ?c ps = abs_of c ps" by simp
  have "links ?c ps" using assms fresh by (simp add: rep_def links_def upd_def)
  moreover have "(p \<in> set ps \<and> fst (pay ?c p) = k) \<longleftrightarrow> (p \<in> set ps \<and> fst (pay c p) = k)" for p k
    using pay by auto
  ultimately show "rep ?c ps" using assms by (simp add: rep_def upd_def less_Suc_eq)
qed

lemma link_new_rep:
  assumes "rep c ps" and "e \<notin> set ps" and "e < ic_fresh c" and "map_of (ic_entries c) (fst (pay c e)) = None"
  shows "rep (link_front (c\<lparr>ic_entries := kv_put (fst (pay c e)) e (ic_entries c)\<rparr>) e) (e # ps)"
    and "pay (link_front (c\<lparr>ic_entries := kv_put (fst (pay c e)) e (ic_entries c)\<rparr>) e) = pay c"
    and "ic_max (link_front (c\<lparr>ic_entries := kv_put (fst (pay c e)) e (ic_entries c)\<rparr>) e) = ic_max c"
proof -
  let ?c = "c\<lparr>ic_entries := kv_put (fst (pay c e)) e (ic_entries c)\<rparr>"
  have same: "same_data ?c (link_front ?c e)" by (rule link_front_same)
  then show pay: "pay (link_front ?c e) = pay c" and "ic_max (link_front ?c e) = ic_max c" by (simp_all add: same_data_def)
  have "links ?c ps" using assms(1) by (simp add: rep_def links_def)
  then have l: "links (link_front ?c e) (e # ps)" by (rule link_front_links [OF _ assms(2)])
  have none: "fst (pay c p) \<noteq> fst (pay c e)" if "p \<in> set ps" for p
    using rep_mapI [OF assms(1) that] assms(4) by auto
  have "map_of (ic_entries ?c) k = Some p \<longleftrightarrow> p \<in> set (e # ps) \<and> fst (pay c p) = k" for k p
    using assms(1,2,4) none by (cases "k = fst (pay c e)") (auto simp: rep_def)
  with l same assms(1,3) show "rep (link_front ?c e) (e # ps)"
    unfolding rep_def pay by (simp add: same_data_def distinct_update)
qed

lemma insertFront_rep:
  assumes "rep c ps" and "ie_key ent = k"
  shows "\<exists>ps'. rep (insertFrontLocked c ent) ps' \<and> ic_max (insertFrontLocked c ent) = ic_max c
    \<and> abs_of (insertFrontLocked c ent) ps' = take (ic_max c) ((k, ie_fp ent, ie_apply ent) # lru_del k (abs_of c ps))"
proof -
  define e where "e = ic_fresh c"
  define c0 where "c0 = upd e (\<lambda>_. ent) (c\<lparr>ic_fresh := Suc e\<rparr>)"
  define c1 where "c1 = (case map_of (ic_entries c0) k of Some old \<Rightarrow> removeLocked c0 old | None \<Rightarrow> c0)"
  have c0: "rep c0 ps" "abs_of c0 ps = abs_of c ps" "ic_max c0 = ic_max c" "e < ic_fresh c0"
    using alloc_rep [OF assms(1), of ent] by (simp_all add: c0_def e_def upd_def)
  have e: "e \<notin> set ps" "pay c0 e = (k, ie_fp ent, ie_apply ent)"
    using assms by (auto simp: rep_def e_def c0_def upd_def pay_def)
  have "\<exists>qs. rep c1 qs \<and> abs_of c1 qs = lru_del k (abs_of c ps) \<and> set qs \<subseteq> set ps \<and> pay c1 = pay c0 \<and> ic_max c1 = ic_max c
      \<and> map_of (ic_entries c1) k = None \<and> ic_fresh c1 = ic_fresh c0"
  proof (cases "map_of (ic_entries c0) k")
    case None
    then have "lru_get k (abs_of c0 ps) = None" by (simp add: rep_get [OF c0(1)])
    then have "lru_del k (abs_of c ps) = abs_of c ps"
      unfolding c0(2) by (auto simp: lru_get_def lru_del_def find_None_iff filter_id_conv)
    with None c0 show ?thesis by (intro exI [of _ ps]) (simp add: c1_def)
  next
    case (Some old)
    then have "old \<in> set ps" "fst (pay c0 old) = k" using c0(1) by (auto simp: rep_def)
    then obtain as bs where ps: "ps = as @ old # bs" by (meson split_list)
    note rm = removeLocked_rep [OF c0(1) [unfolded ps]]
    have "abs_of (removeLocked c0 old) (as @ bs) = lru_del k (abs_of c ps)"
      using rep_del [OF c0(1) [unfolded ps]] \<open>fst (pay c0 old) = k\<close> unfolding ps [symmetric] c0(2) by (simp add: rm(2))
    with rm \<open>fst (pay c0 old) = k\<close> c0(3) show ?thesis
      by (intro exI [of _ "as @ bs"]) (auto simp: c1_def Some ps)
  qed
  then obtain qs where qs: "rep c1 qs" "abs_of c1 qs = lru_del k (abs_of c ps)" "set qs \<subseteq> set ps" "pay c1 = pay c0"
      "ic_max c1 = ic_max c" "map_of (ic_entries c1) k = None" "ic_fresh c1 = ic_fresh c0" by blast
  define c3 where "c3 = link_front (c1\<lparr>ic_entries := kv_put k e (ic_entries c1)\<rparr>) e"
  have c3: "rep c3 (e # qs)" "pay c3 = pay c1" "ic_max c3 = ic_max c1"
    using link_new_rep [OF qs(1), of e] qs e c0(4) by (auto simp: c3_def)
  from trim_rep [OF c3(1), of "length (ic_entries c3)"] rep_length [OF c3(1)] c3 qs e
  have "rep (trim (length (ic_entries c3)) c3) (take (ic_max c) (e # qs)) \<and> ic_max (trim (length (ic_entries c3)) c3) = ic_max c
    \<and> abs_of (trim (length (ic_entries c3)) c3) (take (ic_max c) (e # qs)) = take (ic_max c) ((k, ie_fp ent, ie_apply ent) # lru_del k (abs_of c ps))"
    by (simp add: take_map [symmetric])
  moreover have "insertFrontLocked c ent = trim (length (ic_entries c3)) c3"
    unfolding insertFrontLocked_def Let_def assms(2) e_def [symmetric] c0_def [symmetric] c1_def [symmetric] c3_def [symmetric] ..
  ultimately show ?thesis by auto
qed

section \<open>Simulation\<close>

datatype idemp_call =
    ILookup string string
  | IStore string string "apply_result option"
  | IEvict string
  | IClear

fun idemp_step :: "idemp_cache \<Rightarrow> idemp_call \<Rightarrow> idemp_cache" where
  "idemp_step c (ILookup k fp) = fst (idemp_lookup c k fp)"
| "idemp_step c (IStore k fp r) = storeApply c k fp r"
| "idemp_step c (IEvict k) = evict c k"
| "idemp_step c IClear = clear c"

fun lru_step :: "nat \<Rightarrow> lru_entry list \<Rightarrow> idemp_call \<Rightarrow> lru_entry list" where
  "lru_step mx xs (ILookup k fp) = lru_lookup xs k fp"
| "lru_step mx xs (IStore k fp r) = lru_store mx xs k fp r"
| "lru_step mx xs (IEvict k) = lru_evict xs k"
| "lru_step mx xs IClear = []"

text \<open>What a lookup answers: nothing, an error, or the entry that is found.\<close>

definition idemp_answer :: "idemp_cache \<Rightarrow> string \<Rightarrow> string \<Rightarrow> derr + lru_entry option" where
  "idemp_answer c k fp = map_sum id (map_option (pay c)) (snd (idemp_lookup c k fp))"

definition lru_answer :: "lru_entry list \<Rightarrow> string \<Rightarrow> string \<Rightarrow> derr + lru_entry option" where
  "lru_answer xs k fp = (if k = [] then Inr None else case lru_get k xs of
     None \<Rightarrow> Inr None
   | Some x \<Rightarrow>
       if fst (snd x) \<noteq> fp then Inl (ValidationFailed ''idempotency key reused with a different request''
         [fv ''idempotencyKey'' ''invalid_value'' ''idempotency key reused with a different request''])
       else Inr (Some x))"

lemma answer_refines: "rep c ps \<Longrightarrow> idemp_answer c k fp = lru_answer (abs_of c ps) k fp"
  using rep_get [of c ps k]
  by (auto simp: idemp_answer_def idemp_lookup_def lru_answer_def pay_def split: option.splits)

definition implements :: "idemp_cache \<Rightarrow> nat \<Rightarrow> lru_entry list \<Rightarrow> bool" where
  "implements c mx xs \<longleftrightarrow> (\<exists>ps. rep c ps \<and> abs_of c ps = xs) \<and> ic_max c = mx"

lemma found_split:
  assumes "rep c ps" and "map_of (ic_entries c) k = Some e"
  obtains as bs where "ps = as @ e # bs" "fst (pay c e) = k" "lru_get k (abs_of c ps) = Some (pay c e)"
    "lru_del k (abs_of c ps) = abs_of c (as @ bs)"
proof -
  have e: "e \<in> set ps" "fst (pay c e) = k" using assms by (auto simp: rep_def)
  from e(1) obtain as bs where ps: "ps = as @ e # bs" by (meson split_list)
  have "lru_del k (abs_of c ps) = abs_of c (as @ bs)" using rep_del [of c as e bs] assms(1) e(2) unfolding ps by blast
  with that [OF ps e(2)] rep_get [OF assms(1), of k] assms(2) show thesis by simp
qed

lemma moved_implements:
  assumes "rep c (as @ e # bs)" and "xs = pay c e # abs_of c (as @ bs)"
  shows "implements (moveFrontLocked c e) (ic_max c) xs"
  using moveFront_rep [OF assms(1)] assms(2)
  by (auto simp: implements_def same_data_def intro!: exI [of _ "e # as @ bs"])

lemma lookup_refines: "rep c ps \<Longrightarrow> implements (fst (idemp_lookup c k fp)) (ic_max c) (lru_lookup (abs_of c ps) k fp)"
proof (cases "map_of (ic_entries c) k")
  case None
  assume "rep c ps"
  with None rep_get [of c ps k] show ?thesis
    by (auto simp: idemp_lookup_def lru_lookup_def implements_def)
next
  case (Some e)
  assume r: "rep c ps"
  from found_split [OF r Some] obtain as bs where s: "ps = as @ e # bs" "fst (pay c e) = k"
      "lru_get k (abs_of c ps) = Some (pay c e)" "lru_del k (abs_of c ps) = abs_of c (as @ bs)" .
  have "implements c (ic_max c) (abs_of c ps)" using r by (auto simp: implements_def)
  with moved_implements [of c as e bs] r s Some show ?thesis
    by (auto simp: idemp_lookup_def lru_lookup_def pay_def)
qed

lemma lru_del_absent: "lru_get k xs = None \<Longrightarrow> lru_del k xs = xs"
  by (auto simp: lru_get_def lru_del_def find_None_iff filter_id_conv)

lemma insert_implements:
  "rep c ps \<Longrightarrow> implements (insertFrontLocked c \<lparr>ie_key = k, ie_fp = fp, ie_apply = r, ie_prev = None, ie_next = None\<rparr>) (ic_max c)
     (take (ic_max c) ((k, fp, r) # lru_del k (abs_of c ps)))"
  using insertFront_rep [of c ps "\<lparr>ie_key = k, ie_fp = fp, ie_apply = r, ie_prev = None, ie_next = None\<rparr>" k]
  by (auto simp: implements_def)

lemma set_apply_rep:
  assumes "rep c (as @ e # bs)" and "ie_fp (ic_heap c e) = fp" and "fst (pay c e) = k"
  shows "rep (upd e (\<lambda>x. x\<lparr>ie_apply := r\<rparr>) c) (as @ e # bs)"
    and "pay (upd e (\<lambda>x. x\<lparr>ie_apply := r\<rparr>) c) e = (k, fp, r)"
    and "abs_of (upd e (\<lambda>x. x\<lparr>ie_apply := r\<rparr>) c) (as @ bs) = abs_of c (as @ bs)"
proof -
  let ?c = "upd e (\<lambda>x. x\<lparr>ie_apply := r\<rparr>) c"
  have keys: "fst (pay ?c p) = fst (pay c p)" for p by (simp add: pay_def upd_def)
  have seg: "dlseg (ic_heap ?c) pr qs nx = dlseg (ic_heap c) pr qs nx" for pr qs nx
    by (induction qs arbitrary: pr) (simp_all add: upd_def)
  have "links ?c (as @ e # bs)" using assms(1) unfolding rep_def links_def seg by (simp add: upd_def)
  then show "rep ?c (as @ e # bs)" using assms(1) unfolding rep_def keys by (simp add: upd_def)
  show "pay ?c e = (k, fp, r)" using assms(2,3) by (simp add: pay_def upd_def)
  have "e \<notin> set (as @ bs)" using assms(1) by (simp add: rep_def links_def)
  then show "abs_of ?c (as @ bs) = abs_of c (as @ bs)" by (auto simp: pay_def upd_def)
qed

lemma store_refines: "rep c ps \<Longrightarrow> implements (storeApply c k fp r) (ic_max c) (lru_store (ic_max c) (abs_of c ps) k fp r)"
proof (cases "k = [] \<or> r = None")
  case True
  assume "rep c ps"
  with True show ?thesis by (auto simp: storeApply_def lru_store_def implements_def)
next
  case False
  assume r: "rep c ps"
  show ?thesis
  proof (cases "map_of (ic_entries c) k")
    case None
    with rep_get [OF r, of k] have "lru_get k (abs_of c ps) = None" by simp
    with insert_implements [OF r, of k fp "cloneApply r"] None False lru_del_absent show ?thesis
      by (auto simp: storeApply_def lru_store_def)
  next
    case (Some e)
    from found_split [OF r Some] obtain as bs where s: "ps = as @ e # bs" "fst (pay c e) = k"
        "lru_get k (abs_of c ps) = Some (pay c e)" "lru_del k (abs_of c ps) = abs_of c (as @ bs)" .
    show ?thesis
    proof (cases "ie_fp (ic_heap c e) = fp")
      case True
      note u = set_apply_rep [OF r [unfolded s(1)] True s(2), of "cloneApply r"]
      have "fst (snd (pay c e)) = fp" using True by (simp add: pay_def)
      then have "lru_store (ic_max c) (abs_of c ps) k fp r = (k, fp, cloneApply r) # abs_of c (as @ bs)"
        using False s by (auto simp: lru_store_def simp del: map_append)
      moreover have "storeApply c k fp r = moveFrontLocked (upd e (\<lambda>x. x\<lparr>ie_apply := cloneApply r\<rparr>) c) e"
        using False Some True by (auto simp: storeApply_def)
      moreover have "ic_max (upd e (\<lambda>x. x\<lparr>ie_apply := cloneApply r\<rparr>) c) = ic_max c" by (simp add: upd_def)
      ultimately show ?thesis using moved_implements [OF u(1) refl] unfolding u(2,3) by metis
    next
      case fp: False
      then have "fst (snd (pay c e)) \<noteq> fp" by (simp add: pay_def)
      with False s fp Some insert_implements [OF r, of k fp "cloneApply r"] show ?thesis
        by (auto simp: storeApply_def lru_store_def)
    qed
  qed
qed

lemma evict_refines: "rep c ps \<Longrightarrow> implements (evict c k) (ic_max c) (lru_evict (abs_of c ps) k)"
proof (cases "map_of (ic_entries c) k")
  case None
  assume r: "rep c ps"
  with None rep_get [OF r, of k] lru_del_absent [of k "abs_of c ps"] show ?thesis
    by (auto simp: evict_def lru_evict_def implements_def)
next
  case (Some e)
  assume r: "rep c ps"
  from found_split [OF r Some] obtain as bs where s: "ps = as @ e # bs" "fst (pay c e) = k"
      "lru_get k (abs_of c ps) = Some (pay c e)" "lru_del k (abs_of c ps) = abs_of c (as @ bs)" .
  note rm = removeLocked_rep [OF r [unfolded s(1)]]
  have "implements (removeLocked c e) (ic_max c) (lru_del k (abs_of c ps))"
    unfolding implements_def using rm(1-3) s(4) by auto
  moreover have "implements c (ic_max c) (abs_of c ps)" using r by (auto simp: implements_def)
  ultimately show ?thesis using Some by (simp add: evict_def lru_evict_def)
qed

lemma clear_refines: "implements (clear c) (ic_max c) []"
  by (simp add: implements_def clear_def rep_def links_def)

lemma step_refines:
  assumes "implements c mx xs"
  shows "implements (idemp_step c x) mx (lru_step mx xs x)"
proof -
  from assms obtain ps where c: "rep c ps" "abs_of c ps = xs" "ic_max c = mx" by (auto simp: implements_def)
  show ?thesis
    using lookup_refines [OF c(1)] store_refines [OF c(1)] evict_refines [OF c(1)] clear_refines [of c]
    unfolding c(2,3) by (cases x) simp_all
qed

lemma run_refines: "implements c mx xs \<Longrightarrow> implements (run_steps idemp_step c calls) mx (run_steps (lru_step mx) xs calls)"
  by (induction calls arbitrary: c xs) (auto intro: step_refines)

lemma lru_step_bound: "length xs \<le> mx \<Longrightarrow> length (lru_step mx xs x) \<le> mx"
proof -
  assume l: "length xs \<le> mx"
  have del: "length (lru_del k xs) \<le> length xs" for k by (simp add: lru_del_def)
  have less: "length (lru_del k xs) < length xs" if "lru_get k xs \<noteq> None" for k
    using that by (auto simp: lru_get_def lru_del_def find_None_iff intro!: length_filter_less)
  have len: "Suc (length (lru_del k xs)) \<le> mx" if "lru_get k xs = Some y" for k y using less [of k] that l by simp
  show ?thesis
    using l del len order_trans [OF del l]
    by (cases x) (auto simp: lru_lookup_def lru_store_def lru_evict_def split: option.split)
qed

text \<open>The answer right after a store and after a lookup.\<close>

lemma lru_get_store: "0 < mx \<Longrightarrow> k \<noteq> [] \<Longrightarrow> lru_get k (lru_store mx xs k fp (Some r)) = Some (k, fp, cloneApply (Some r))"
  by (cases mx) (auto simp: lru_store_def lru_get_def split: option.split)

lemma store_answer:
  assumes "rep c ps" and "0 < ic_max c" and "k \<noteq> []"
  shows "idemp_answer (storeApply c k fp (Some r)) k fp' = (if fp' = fp then Inr (Some (k, fp, cloneApply (Some r)))
    else Inl (ValidationFailed ''idempotency key reused with a different request''
         [fv ''idempotencyKey'' ''invalid_value'' ''idempotency key reused with a different request'']))"
proof -
  obtain ps' where s: "rep (storeApply c k fp (Some r)) ps'"
      "abs_of (storeApply c k fp (Some r)) ps' = lru_store (ic_max c) (abs_of c ps) k fp (Some r)"
    using store_refines [OF assms(1), of k fp "Some r"] by (auto simp: implements_def)
  show ?thesis unfolding answer_refines [OF s(1)] s(2) using assms lru_get_store by (simp add: lru_answer_def)
qed

lemma lru_lookup_answer: "lru_answer (lru_lookup xs k fp) k fp = lru_answer xs k fp"
proof (cases "k = [] \<or> lru_get k xs = None")
  case False
  then obtain x where x: "lru_get k xs = Some x" by blast
  then have "fst x = k" by (auto simp: lru_get_def find_Some_iff)
  with x False show ?thesis by (simp add: lru_answer_def lru_lookup_def lru_get_def)
qed (auto simp: lru_answer_def lru_lookup_def)

lemma lookup_answer:
  assumes "rep c ps"
  shows "idemp_answer (fst (idemp_lookup c k fp)) k fp = idemp_answer c k fp"
proof -
  obtain ps' where s: "rep (fst (idemp_lookup c k fp)) ps'"
      "abs_of (fst (idemp_lookup c k fp)) ps' = lru_lookup (abs_of c ps) k fp"
    using lookup_refines [OF assms, of k fp] by (auto simp: implements_def)
  show ?thesis unfolding answer_refines [OF s(1)] s(2) answer_refines [OF assms] by (rule lru_lookup_answer)
qed

lemma lru_run_bound: "length xs \<le> mx \<Longrightarrow> length (run_steps (lru_step mx) xs calls) \<le> mx"
  by (induction calls arbitrary: xs) (auto intro: lru_step_bound)

lemma newIdempCache_implements: "implements (newIdempCache mx) (ic_max (newIdempCache mx)) []"
  by (simp add: implements_def newIdempCache_def rep_def links_def)

section \<open>Properties\<close>

text \<open>C27: The linked cache implements the list specification. After any calls, a lookup answers
  exactly what the list (most recent first, cut at the maximum) answers: the stored result, a
  refusal when the key was used for another request, or nothing; and the cache holds at most
  its maximum of entries.\<close>

theorem idempotency_cache_refines:
  assumes "c = run_steps idemp_step (newIdempCache mx) calls"
    and "xs = run_steps (lru_step (ic_max (newIdempCache mx))) [] calls"
  shows "idemp_answer c k fp = lru_answer xs k fp \<and> length (ic_entries c) = length xs \<and> length xs \<le> ic_max c"
proof -
  have "implements c (ic_max (newIdempCache mx)) xs"
    unfolding assms by (rule run_refines [OF newIdempCache_implements])
  then obtain ps where c: "rep c ps" "abs_of c ps = xs" "ic_max c = ic_max (newIdempCache mx)"
    by (auto simp: implements_def)
  have "length xs \<le> ic_max c" unfolding c(3) assms(2) by (rule lru_run_bound) simp
  with answer_refines [OF c(1)] rep_length [OF c(1)] c(2) show ?thesis by auto
qed

abbreviation done_result :: apply_result where
  "done_result \<equiv> \<lparr>ar_plan = \<lparr>pl_previous = ''a'', pl_candidate = ''b'', pl_drifted = False, pl_diff = None, pl_operations = None\<rparr>,
     ar_applied = True, ar_generation = 2, ar_runtimeRevision = ''b''\<rparr>"

theorem idempotency_cache_refines_witness:
  "idemp_answer (run_steps idemp_step (newIdempCache 1) [IStore ''k1'' ''fp1'' (Some done_result), IStore ''k2'' ''fp2'' (Some done_result)]) ''k1'' ''fp1''
     = Inr None"
  using idempotency_cache_refines [OF refl refl, of 1 "[IStore ''k1'' ''fp1'' (Some done_result), IStore ''k2'' ''fp2'' (Some done_result)]" "''k1''" "''fp1''"]
  by (simp add: newIdempCache_def lru_answer_def lru_store_def lru_get_def lru_del_def)

text \<open>A result is replayed: a lookup right after a store with the same key and request finds a
  copy of the stored result, and a different request under the same key is refused.\<close>

theorem stored_result_is_replayed:
  assumes "c = run_steps idemp_step (newIdempCache mx) calls" and "k \<noteq> []"
  shows "idemp_answer (storeApply c k fp (Some r)) k fp = Inr (Some (k, fp, cloneApply (Some r)))
    \<and> (fp' \<noteq> fp \<longrightarrow> (\<exists>err. idemp_answer (storeApply c k fp (Some r)) k fp' = Inl err \<and> e_code err = CodeValidationFailed))"
proof -
  have pos: "0 < ic_max (newIdempCache mx)" by (simp add: newIdempCache_def)
  have "implements c (ic_max (newIdempCache mx)) (run_steps (lru_step (ic_max (newIdempCache mx))) [] calls)"
    unfolding assms(1) by (rule run_refines [OF newIdempCache_implements])
  then obtain ps where c: "rep c ps" "ic_max c = ic_max (newIdempCache mx)" by (auto simp: implements_def)
  with store_answer [OF c(1) _ assms(2)] pos show ?thesis by simp
qed

theorem stored_result_is_replayed_witness:
  "idemp_answer (storeApply (newIdempCache 0) ''k'' ''fp'' (Some done_result)) ''k'' ''fp'' = Inr (Some (''k'', ''fp'', cloneApply (Some done_result)))"
  using stored_result_is_replayed [of "newIdempCache 0" 0 "[]" "''k''" "''fp''" done_result] by simp

end
