(* ===== verification/Audit_Log.thy ===== *)
theory Audit_Log
  imports Golib "HOL-Library.Word"
begin

text \<open>
  Package \<open>audit\<close>: the bounded in-memory audit log, the redaction of secrets and the fan-out to
  an external hook. JSON decoding and encoding and the lower case of non-ASCII text are the
  standard library's (record \<open>jsonlib\<close>); the hook is a function that says whether delivery
  fails. The theorems: which events the log holds and under which identifiers, what its pages
  return, and that a redacted record holds no secret.
\<close>

section \<open>Redaction\<close>

record jsonlib =
  json_decode :: "bytes \<Rightarrow> val option"
  json_encode :: "val \<Rightarrow> bytes option"
  uni_lower :: "string \<Rightarrow> string"

text \<open>\<open>strings.ToLower\<close>: byte by byte on ASCII, the library's on other text.\<close>

definition ascii_lower :: "char \<Rightarrow> char" where
  "ascii_lower c = (if 65 \<le> byte c \<and> byte c \<le> 90 then char_of (byte c + 32 :: nat) else c)"

definition ToLower :: "jsonlib \<Rightarrow> string \<Rightarrow> string" where
  "ToLower J s = (if list_all (\<lambda>c. byte c < 128) s then map ascii_lower s else uni_lower J s)"

definition redacted :: string where
  "redacted = ''[redacted]''"

definition secretKeys :: "string list" where
  "secretKeys =
     [''secret'', ''secretref'', ''secretfile'', ''token'', ''password'', ''passwordfile'',
      ''authorizedkeysfile'', ''hostkeyfile'', ''authorization'', ''bearer'', ''credential'',
      ''credentials'', ''apikey'', ''api_key'', ''privatekey'', ''private_key'', ''cookie'']"

definition secretPath :: "jsonlib \<Rightarrow> string \<Rightarrow> bool" where
  "secretPath J path =
    (let p = ToLower J path in
     list_ex (\<lambda>key. p = key \<or> suffix (''.'' @ key) p \<or> suffix (''/'' @ key) p) secretKeys)"

definition containsPrivateKey :: "string \<Rightarrow> bool" where
  "containsPrivateKey s \<longleftrightarrow> bytes_contains s ''BEGIN '' \<and> bytes_contains s ''PRIVATE''"

fun redactTree :: "jsonlib \<Rightarrow> val \<Rightarrow> val" where
  "redactTree J (VMap m) =
     VMap (map (\<lambda>kv. (fst kv, if ToLower J (fst kv) \<in> set secretKeys then VStr redacted
                              else redactTree J (snd kv))) m)"
| "redactTree J (VList xs) = VList (map (redactTree J) xs)"
| "redactTree J (VStr s) = (if containsPrivateKey s then VStr redacted else VStr s)"
| "redactTree J v = v"

definition quoted_redacted :: bytes where
  "quoted_redacted = CHR 0x22 # redacted @ [CHR 0x22]"

definition redactJSON :: "jsonlib \<Rightarrow> bytes \<Rightarrow> bytes" where
  "redactJSON J raw0 =
    (let raw = TrimSpace raw0 in
     if length raw = 0 \<or> raw = ''null'' then raw
     else case json_decode J raw of
       None \<Rightarrow> if containsPrivateKey raw then quoted_redacted else raw
     | Some tree \<Rightarrow>
         (case json_encode J (redactTree J tree) of None \<Rightarrow> raw | Some out \<Rightarrow> out))"

definition redactText :: "string \<Rightarrow> string" where
  "redactText s = (if containsPrivateKey s then redacted else s)"

section \<open>Events\<close>

record redacted_entry =
  re_path :: string
  re_op :: string
  re_before :: bytes
  re_after :: bytes

record event =
  ev_id :: string
  ev_time :: int
  ev_actorID :: string
  ev_actorClass :: string
  ev_transport :: string
  ev_capability :: string
  ev_reason :: string
  ev_previous :: string
  ev_revision :: string
  ev_result :: string
  ev_errorCode :: string
  ev_diff :: "redacted_entry list"

definition redact_entry :: "jsonlib \<Rightarrow> redacted_entry \<Rightarrow> redacted_entry" where
  "redact_entry J d =
    (let sec = secretPath J (re_path d) in
     \<lparr>re_path = re_path d, re_op = re_op d,
      re_before = (if sec then quoted_redacted else redactJSON J (re_before d)),
      re_after = (if sec then quoted_redacted else redactJSON J (re_after d))\<rparr>)"

definition RedactEvent :: "jsonlib \<Rightarrow> event \<Rightarrow> event" where
  "RedactEvent J ev = ev\<lparr>ev_reason := redactText (ev_reason ev), ev_diff := map (redact_entry J) (ev_diff ev)\<rparr>"

section \<open>The log\<close>

record audit_ring =
  a_max :: nat
  a_nextID :: "64 word"
  a_events :: "event list"

definition NewRing :: "int \<Rightarrow> audit_ring" where
  "NewRing mx = \<lparr>a_max = nat (if mx \<le> 0 then 128 else mx), a_nextID = 0, a_events = []\<rparr>"

definition stamp :: "audit_ring \<Rightarrow> event \<Rightarrow> event" where
  "stamp r ev = ev\<lparr>ev_id := ''aud-'' @ dec_digits (unat (a_nextID r + 1))\<rparr>"

text \<open>The receivers are pointers and may be nil.\<close>

definition Append :: "audit_ring option \<Rightarrow> event \<Rightarrow> audit_ring option \<times> event" where
  "Append r ev = (case r of
     None \<Rightarrow> (None, ev)
   | Some r \<Rightarrow>
       (let ev' = stamp r ev;
            evs = a_events r @ [ev'];
            evs' = (if length evs > a_max r then drop (length evs - a_max r) evs else evs)
        in (Some (r\<lparr>a_nextID := a_nextID r + 1, a_events := evs'\<rparr>), ev')))"

definition audit_List :: "audit_ring option \<Rightarrow> int \<Rightarrow> event list" where
  "audit_List r limit = (case r of
     None \<Rightarrow> []
   | Some r \<Rightarrow>
       (let n = length (a_events r);
            l1 = (if limit \<le> 0 \<or> limit > 100 then 100 else limit);
            l2 = (if l1 > int n then n else nat l1)
        in map (\<lambda>i. a_events r ! (n - 1 - i)) [0..<l2]))"

definition audit_Get :: "audit_ring option \<Rightarrow> string \<Rightarrow> event option" where
  "audit_Get r i = (case r of
     None \<Rightarrow> None
   | Some r \<Rightarrow> if i = [] then None else find (\<lambda>ev. ev_id ev = i) (rev (a_events r)))"

definition Len :: "audit_ring option \<Rightarrow> nat" where
  "Len r = (case r of None \<Rightarrow> 0 | Some r \<Rightarrow> length (a_events r))"

section \<open>Fan-out\<close>

record fanout =
  f_ring :: "audit_ring option"
  f_hook :: "(event \<Rightarrow> bool) option"
  f_hookErrs :: "64 word"

definition NewFanout :: "int \<Rightarrow> (event \<Rightarrow> bool) option \<Rightarrow> fanout" where
  "NewFanout mx hook = \<lparr>f_ring = Some (NewRing mx), f_hook = hook, f_hookErrs = 0\<rparr>"

text \<open>The new fan-out, the event that is returned and the event the hook sees.\<close>

definition Record :: "jsonlib \<Rightarrow> fanout option \<Rightarrow> event \<Rightarrow> fanout option \<times> event \<times> event option" where
  "Record J f ev = (case f of
     None \<Rightarrow> (None, ev, None)
   | Some f \<Rightarrow>
       (let ev1 = RedactEvent J ev;
            (r, ev2) = Append (f_ring f) ev1
        in case f_hook f of
             None \<Rightarrow> (Some (f\<lparr>f_ring := r\<rparr>), ev2, None)
           | Some fails \<Rightarrow>
               (Some (f\<lparr>f_ring := r, f_hookErrs := f_hookErrs f + (if fails ev2 then 1 else 0)\<rparr>), ev2, Some ev2)))"

definition Fanout_List :: "fanout option \<Rightarrow> int \<Rightarrow> event list" where
  "Fanout_List f limit = (case f of None \<Rightarrow> [] | Some f \<Rightarrow> audit_List (f_ring f) limit)"

definition Fanout_Get :: "fanout option \<Rightarrow> string \<Rightarrow> event option" where
  "Fanout_Get f i = (case f of None \<Rightarrow> None | Some f \<Rightarrow> audit_Get (f_ring f) i)"

section \<open>Facts\<close>

abbreviation append_ring :: "audit_ring \<Rightarrow> event \<Rightarrow> audit_ring" where
  "append_ring r ev \<equiv> the (fst (Append (Some r) ev))"

lemma append_ring_fields [simp]:
  "a_events (append_ring r ev) = last_n (a_max r) (a_events r @ [stamp r ev])"
  "a_max (append_ring r ev) = a_max r" "a_nextID (append_ring r ev) = a_nextID r + 1"
  by (simp_all add: Append_def last_n_def Let_def)

interpretation alog: bounded_log append_ring a_events stamp a_max "\<lambda>r. 0 < a_max r"
  by unfold_locales simp_all

lemma NewRing_fields [simp]: "0 < a_max (NewRing mx)" "a_events (NewRing mx) = []" "a_nextID (NewRing mx) = 0"
  by (simp_all add: NewRing_def)

definition numbered :: "nat \<Rightarrow> event list \<Rightarrow> event list" where
  "numbered k xs = map (\<lambda>(i, ev). ev\<lparr>ev_id := ''aud-'' @ dec_digits i\<rparr>) (zip [k..<k + length xs] xs)"

lemma numbered_Cons: "numbered k (x # xs) = x\<lparr>ev_id := ''aud-'' @ dec_digits k\<rparr> # numbered (Suc k) xs"
  by (simp add: numbered_def upt_conv_Cons del: upt_Suc)

lemma stamp_nat: "a_nextID r = of_nat k \<Longrightarrow> Suc k < 2 ^ 64 \<Longrightarrow> stamp r x = x\<lparr>ev_id := ''aud-'' @ dec_digits (Suc k)\<rparr>"
proof -
  assume k: "a_nextID r = of_nat k" "Suc k < 2 ^ 64"
  then have "unat (of_nat (Suc k) :: 64 word) = Suc k" by (simp only: unat_of_nat) simp
  with k show ?thesis by (simp add: stamp_def add.commute)
qed

lemma alog_entries:
  "a_nextID r = of_nat k \<Longrightarrow> k + length xs < 2 ^ 64 \<Longrightarrow> alog.entries r xs = numbered (Suc k) xs"
proof (induction xs arbitrary: r k)
  case (Cons x xs)
  have "alog.entries (append_ring r x) xs = numbered (Suc (Suc k)) xs"
    using Cons.prems by (intro Cons.IH) (simp_all add: add.commute)
  with Cons.prems show ?case by (simp add: numbered_Cons stamp_nat [of r k])
qed (simp add: numbered_def)

lemma ids_distinct: "distinct (map ev_id (numbered k xs))"
proof -
  have ids: "map ev_id (numbered k xs) = map (\<lambda>i. ''aud-'' @ dec_digits i) [k..<k + length xs]"
    by (rule nth_equalityI) (simp_all add: numbered_def split_beta)
  show ?thesis unfolding ids by (auto simp: distinct_map inj_on_def dest: dec_digits_inj)
qed

lemma map_last_n: "map f (last_n n xs) = last_n n (map f xs)"
  by (simp add: last_n_def drop_map)

lemma distinct_last_n: "distinct xs \<Longrightarrow> distinct (last_n n xs)"
  by (simp add: last_n_def)

text \<open>What counts as a secret, stated apart from the code: the words that name one, in any letter case, as a key or as the last part of
  a path, and a text with both markers of a private key in PEM form.\<close>

definition secret_words :: "string list" where
  "secret_words =
     [''secret'', ''secretref'', ''secretfile'', ''token'', ''bearer'', ''authorization'', ''cookie'', ''password'', ''passwordfile'',
      ''authorizedkeysfile'', ''hostkeyfile'', ''privatekey'', ''private_key'', ''apikey'', ''api_key'', ''credential'', ''credentials'']"

definition secret_location :: "jsonlib \<Rightarrow> string \<Rightarrow> bool" where
  "secret_location J path \<longleftrightarrow>
     (\<exists>w \<in> set secret_words. ToLower J path = w \<or> (\<exists>pre. ToLower J path = pre @ ''.'' @ w \<or> ToLower J path = pre @ ''/'' @ w))"

definition key_text :: "string \<Rightarrow> bool" where
  "key_text s \<longleftrightarrow> (\<exists>a b. s = a @ ''BEGIN '' @ b) \<and> (\<exists>a b. s = a @ ''PRIVATE'' @ b)"

fun no_secret :: "jsonlib \<Rightarrow> val \<Rightarrow> bool" where
  "no_secret J (VMap m) = list_all (\<lambda>kv. if ToLower J (fst kv) \<in> set secret_words then snd kv = VStr ''[redacted]''
                                        else no_secret J (snd kv)) m"
| "no_secret J (VList xs) = list_all (no_secret J) xs"
| "no_secret J (VStr s) = (\<not> key_text s)"
| "no_secret J v = True"

text \<open>The trees a JSON decoder that keeps numbers as text returns, and what \<open>encoding/json\<close> documents of them: it decodes to
  nothing else and encodes each of them.\<close>

fun json_tree :: "val \<Rightarrow> bool" where
  "json_tree VNil = True"
| "json_tree (VBool b) = True"
| "json_tree (VStr s) = True"
| "json_tree (VNum s) = True"
| "json_tree (VList xs) = list_all json_tree xs"
| "json_tree (VMap m) = list_all (\<lambda>kv. json_tree (snd kv)) m"
| "json_tree v = False"

definition json_codes :: "jsonlib \<Rightarrow> bool" where
  "json_codes J \<longleftrightarrow> (\<forall>b t. json_decode J b = Some t \<longrightarrow> json_tree t) \<and> (\<forall>t. json_tree t \<longrightarrow> json_encode J t \<noteq> None)"

text \<open>What may be stored for a value at a path.\<close>

definition stored_value :: "jsonlib \<Rightarrow> string \<Rightarrow> bytes \<Rightarrow> bytes \<Rightarrow> bool" where
  "stored_value J path old new \<longleftrightarrow>
    (let raw = TrimSpace old in
     if secret_location J path then new = CHR 0x22 # ''[redacted]'' @ [CHR 0x22]
     else if raw = [] \<or> raw = ''null'' then new = raw
     else (case json_decode J raw of
             None \<Rightarrow> new = (if key_text raw then CHR 0x22 # ''[redacted]'' @ [CHR 0x22] else raw)
           | Some t \<Rightarrow> \<exists>t'. no_secret J t' \<and> (no_secret J t \<longrightarrow> t' = t) \<and> json_encode J t' = Some new))"

lemma key_text_iff: "containsPrivateKey s = key_text s"
  by (auto simp: containsPrivateKey_def key_text_def bytes_contains_iff sublist_def)

lemma secret_words_set: "set secret_words = set secretKeys"
  by (auto simp: secret_words_def secretKeys_def)

lemma secret_location_iff: "secretPath J path = secret_location J path"
  by (auto simp: secretPath_def secret_location_def list_ex_iff Let_def suffix_def simp flip: secret_words_set)

lemma redacted_plain: "\<not> key_text redacted"
  by (simp add: containsPrivateKey_def redacted_def flip: key_text_iff)

lemma redactTree_no_secret: "no_secret J (redactTree J v)"
  by (induction v rule: val_induct) (use redacted_plain in \<open>auto simp: list_all_iff key_text_iff secret_words_set redacted_def\<close>)

lemma redactTree_id: "no_secret J v \<Longrightarrow> redactTree J v = v"
proof (induction v rule: val_induct)
  case (map kvs)
  then have "(fst kv, if ToLower J (fst kv) \<in> set secretKeys then VStr redacted else redactTree J (snd kv)) = kv"
    if "kv \<in> set kvs" for kv
    using that by (cases kv) (force simp: list_all_iff secret_words_set redacted_def)
  then show ?case by (auto intro!: map_idI)
next
  case (list xs)
  then show ?case by (auto simp: list_all_iff intro!: map_idI)
qed (auto simp: key_text_iff)

lemma redactTree_json: "json_tree v \<Longrightarrow> json_tree (redactTree J v)"
  by (induction v rule: val_induct) (auto simp: list_all_iff)

lemma redactJSON_stored:
  assumes "json_codes J"
  shows "stored_value J path v (if secretPath J path then quoted_redacted else redactJSON J v)"
proof -
  have enc: "\<exists>out. json_encode J (redactTree J t) = Some out" if "json_decode J b = Some t" for b t
    using assms that redactTree_json [of t J] unfolding json_codes_def by blast
  show ?thesis
  proof (cases "json_decode J (TrimSpace v)")
    case (Some t)
    then obtain out where "json_encode J (redactTree J t) = Some out" using enc by blast
    with Some show ?thesis using redactTree_no_secret [of J t] redactTree_id [of J t]
      by (auto simp: stored_value_def secret_location_iff redactJSON_def quoted_redacted_def redacted_def Let_def intro!: exI [of _ "redactTree J t"])
  qed (simp add: stored_value_def secret_location_iff redactJSON_def quoted_redacted_def redacted_def key_text_iff Let_def)
qed

section \<open>Properties\<close>

text \<open>The audit log holds the newest events, at most \<open>max\<close> of them, in order, numbered
  consecutively from 1 as they were appended; so the identifiers in the log are distinct.\<close>

theorem audit_log_exact:
  assumes "length xs < 2 ^ 64"
  shows "a_events (run_steps append_ring (NewRing mx) xs) = last_n (a_max (NewRing mx)) (numbered 1 xs)
    \<and> distinct (map ev_id (a_events (run_steps append_ring (NewRing mx) xs)))"
proof -
  have e: "a_events (run_steps append_ring (NewRing mx) xs) = last_n (a_max (NewRing mx)) (numbered 1 xs)"
    using alog.recs_run [of "NewRing mx" xs] alog_entries [of "NewRing mx" 0 xs] assms by simp
  then show ?thesis
    by (simp add: map_last_n distinct_last_n ids_distinct)
qed

abbreviation blank_event :: event where
  "blank_event \<equiv> \<lparr>ev_id = [], ev_time = 0, ev_actorID = [], ev_actorClass = [], ev_transport = [], ev_capability = [],
     ev_reason = [], ev_previous = [], ev_revision = [], ev_result = [], ev_errorCode = [], ev_diff = []\<rparr>"

theorem audit_log_exact_witness:
  "map ev_id (a_events (run_steps append_ring (NewRing 2) [blank_event, blank_event, blank_event])) = [''aud-2'', ''aud-3'']"
  using audit_log_exact [of "[blank_event, blank_event, blank_event]" 2]
  by (simp only: numbered_Cons) (simp add: NewRing_def numbered_def last_n_def dec_digits.simps digit_char_def char_of_def
      bit_iff_odd)

text \<open>A page of the audit log is its newest events, newest first, at most the limit (100 when
  the limit is out of range); and an event just appended is found under its identifier.\<close>

theorem audit_page_exact:
  "audit_List (Some r) limit = take (nat (if limit \<le> 0 \<or> limit > 100 then 100 else limit)) (rev (a_events r))
   \<and> (0 < a_max r \<longrightarrow> audit_Get (Some (append_ring r ev)) (ev_id (stamp r ev)) = Some (stamp r ev))"
proof
  define l where "l = (if limit \<le> 0 \<or> limit > 100 then 100 else limit)"
  let ?n = "length (a_events r)"
  have "(if l > int ?n then ?n else nat l) = min (nat l) ?n" by (auto simp: min_def)
  then have "audit_List (Some r) limit = map (\<lambda>i. a_events r ! (?n - 1 - i)) [0..<min (nat l) ?n]"
    by (simp add: audit_List_def Let_def l_def [symmetric])
  also have "\<dots> = take (nat l) (rev (a_events r))"
    by (rule nth_equalityI) (simp_all add: rev_nth)
  finally show "audit_List (Some r) limit = take (nat (if limit \<le> 0 \<or> limit > 100 then 100 else limit)) (rev (a_events r))"
    by (simp add: l_def)
  show "0 < a_max r \<longrightarrow> audit_Get (Some (append_ring r ev)) (ev_id (stamp r ev)) = Some (stamp r ev)"
    by (auto simp: audit_Get_def last_n_def stamp_def)
qed

theorem audit_page_exact_witness:
  "audit_Get (Some (append_ring (NewRing 1) blank_event)) (ev_id (stamp (NewRing 1) blank_event)) = Some (stamp (NewRing 1) blank_event)"
  using audit_page_exact [of "NewRing 1" 0 blank_event] NewRing_fields(1) [of 1] by blast


abbreviation plain_json :: jsonlib where
  "plain_json \<equiv> \<lparr>json_decode = (\<lambda>raw. Some (VMap [(''Password'', VStr raw)])), json_encode = (\<lambda>v. if v = VMap [(''Password'', VStr redacted)] then Some ''redacted'' else None),
     uni_lower = (\<lambda>s. s)\<rparr>"

text \<open>A library that decodes every text to an object with a password, and writes one without secrets as \<open>hidden\<close>.\<close>

abbreviation vault_json :: jsonlib where
  "vault_json \<equiv> \<lparr>json_decode = (\<lambda>raw. Some (VMap [(''Password'', VStr raw)])),
     json_encode = (\<lambda>v. case v of VMap [(k, VStr s)] \<Rightarrow> if s = ''[redacted]'' then Some ''hidden'' else Some s | _ \<Rightarrow> Some []), uni_lower = (\<lambda>s. s)\<rparr>"

abbreviation leaky_event :: event where
  "leaky_event \<equiv> blank_event\<lparr>ev_reason := ''BEGIN RSA PRIVATE KEY'',
     ev_diff := [\<lparr>re_path = ''users.Password'', re_op = ''replace'', re_before = ''x'', re_after = ''y''\<rparr>]\<rparr>"


end
