(* ===== verification/App_Service.thy ===== *)
theory App_Service
  imports Snapshot_Compile App_Idempotency Audit_Log
begin

text \<open>
  Package \<open>app\<close>, \<open>svc.go\<close>, \<open>mutate.go\<close>, \<open>reset.go\<close>, \<open>datastore.go\<close>, \<open>query.go\<close>, \<open>audit.go\<close> and \<open>actor.go\<close>: the
  service over snapshots. Its state holds the snapshot store, the datastore handles (references
  into a heap, since users may share the handle of a profile), the idempotency cache, the
  audit log and the notification system. Every method that takes the mutex is one definition,
  which returns the new state and its result. The clock, the identifier of a notification
  and the outcome of reading the bootstrap file are arguments; metrics and logging are left out.
\<close>

section \<open>State\<close>

record actor =
  ac_id :: string
  ac_class :: string
  ac_role :: string
  ac_scopes :: "string list"
  ac_transport :: string

record app =
  ap_snaps :: snap_store
  ap_bootstrapPath :: string
  ap_audit :: "fanout option"
  ap_idemp :: idemp_cache
  ap_notif :: notif_sys
  ap_resetHooks :: "nat list"
  ap_applyHooks :: "nat list"
  ap_heap :: "nat \<Rightarrow> handle"
  ap_next :: nat
  ap_profileHandles :: "nat gomap"
  ap_userHandles :: "nat gomap"

section \<open>Audit\<close>

definition ActorFrom :: "actor option \<Rightarrow> actor" where
  "ActorFrom a = (case a of None \<Rightarrow> \<lparr>ac_id = [], ac_class = [], ac_role = [], ac_scopes = [], ac_transport = []\<rparr> | Some a \<Rightarrow> a)"

text \<open>An event with only its capability; the zero time is 0.\<close>

definition event_of :: "string \<Rightarrow> event" where
  "event_of capability = \<lparr>ev_id = [], ev_time = 0, ev_actorID = [], ev_actorClass = [], ev_transport = [],
     ev_capability = capability, ev_reason = [], ev_previous = [], ev_revision = [], ev_result = ''ok'', ev_errorCode = [], ev_diff = []\<rparr>"

definition recordAudit :: "jsonlib \<Rightarrow> int \<Rightarrow> actor option \<Rightarrow> event \<Rightarrow> app \<Rightarrow> app" where
  "recordAudit J clock act ev a = (case ap_audit a of
     None \<Rightarrow> a
   | Some f \<Rightarrow>
       (let ev1 = (if ev_time ev = 0 then ev\<lparr>ev_time := clock\<rparr> else ev);
            ev2 = (if ev_result ev1 = [] then ev1\<lparr>ev_result := ''ok''\<rparr> else ev1);
            who = ActorFrom act;
            ev3 = (if ev_actorID ev2 = [] \<and> ev_actorClass ev2 = [] \<and> ev_transport ev2 = []
                   then ev2\<lparr>ev_actorID := ac_id who, ev_actorClass := ac_class who, ev_transport := ac_transport who\<rparr> else ev2)
        in a\<lparr>ap_audit := fst (Record J (Some f) ev3)\<rparr>))"

definition toAuditDiff :: "diff_entry list option \<Rightarrow> redacted_entry list" where
  "toAuditDiff d = map (\<lambda>e. \<lparr>re_path = de_path e, re_op = de_op e, re_before = (case de_before e of None \<Rightarrow> [] | Some b \<Rightarrow> b),
     re_after = (case de_after e of None \<Rightarrow> [] | Some b \<Rightarrow> b)\<rparr>) (case d of None \<Rightarrow> [] | Some es \<Rightarrow> es)"

definition QueryAudit :: "ctx \<Rightarrow> app \<Rightarrow> int \<Rightarrow> goerr + event list" where
  "QueryAudit c a limit = (case ctx_err c of Some err \<Rightarrow> Inl err | None \<Rightarrow> Inr (Fanout_List (ap_audit a) limit))"

section \<open>Errors\<close>

definition asDomain :: "goerr \<Rightarrow> string \<Rightarrow> derr" where
  "asDomain err text = (case err_as err of Some d \<Rightarrow> d | None \<Rightarrow> ValidationFailed text [])"

definition goerr_text :: "goerr \<Rightarrow> string" where
  "goerr_text err = (case err of
     GDomain d \<Rightarrow> error_string (Some d)
   | GCanceled \<Rightarrow> ''context canceled''
   | GDeadline \<Rightarrow> ''context deadline exceeded''
   | GOther s \<Rightarrow> s)"

definition active :: "app \<Rightarrow> derr + snapshot" where
  "active a = (case ss_active (ap_snaps a) of
     None \<Rightarrow> Inl (ValidationFailed ''no active snapshot'' [])
   | Some snap \<Rightarrow> Inr snap)"

section \<open>Differences of documents\<close>

definition mustJSON :: "cfglib \<Rightarrow> val \<Rightarrow> bytes" where
  "mustJSON K v = (if marshals v then cf_json_write K v else ''null'')"

definition diff_keys :: "kvs \<Rightarrow> kvs \<Rightarrow> string list" where
  "diff_keys bm am = sort (remdups (map fst bm @ map fst am))"

lemma size_map_of [termination_simp]:
  "map_of m k = Some v \<Longrightarrow> size (v :: val) < Suc (size_list (size_prod (\<lambda>_. 0) size) m)"
  using size_kvs_member [of "(k, v)" m] map_of_SomeD [of m k v] by simp

lemma size_nth [termination_simp]: "i < length xs \<Longrightarrow> size (xs ! i :: val) < Suc (size_list size xs)"
  by (simp add: size_list_member)

definition entry :: "string \<Rightarrow> string \<Rightarrow> bytes option \<Rightarrow> bytes option \<Rightarrow> diff_entry" where
  "entry p oper b a = \<lparr>de_path = p, de_op = oper, de_before = b, de_after = a\<rparr>"

function walkDiff :: "cfglib \<Rightarrow> val \<Rightarrow> val \<Rightarrow> string \<Rightarrow> diff_entry list" where
  "walkDiff K before after path =
    (if mustJSON K before = mustJSON K after then []
     else case (before, after) of
       (VMap bm, VMap am) \<Rightarrow>
         concat (map (\<lambda>k.
           let p = (if path = [] then k else path @ ''.'' @ k) in
           case map_of bm k of
             None \<Rightarrow> [entry p ''add'' None (Some (mustJSON K (kv_nil am k)))]
           | Some bv \<Rightarrow>
               (case map_of am k of
                  None \<Rightarrow> [entry p ''remove'' (Some (mustJSON K bv)) None]
                | Some av \<Rightarrow> walkDiff K bv av p)) (diff_keys bm am))
     | (VList bl, VList al) \<Rightarrow>
         concat (map (\<lambda>i.
           let p = path @ ''['' @ itoa (int i) @ '']'' in
           if i \<ge> length bl then [entry p ''add'' None (Some (mustJSON K (al ! i)))]
           else if i \<ge> length al then [entry p ''remove'' (Some (mustJSON K (bl ! i))) None]
           else walkDiff K (bl ! i) (al ! i) p) [0..<max (length bl) (length al)])
     | _ \<Rightarrow> [entry path ''replace'' (Some (mustJSON K before)) (Some (mustJSON K after))])"
  by pat_completeness auto
termination
  by (relation "measure (\<lambda>(K, b, a, p). size b)") (auto simp: size_map_of size_nth)

declare walkDiff.simps [simp del]

definition jsonTree :: "golib \<Rightarrow> cfglib \<Rightarrow> state option \<Rightarrow> goerr + val" where
  "jsonTree E K st = (case st of
     None \<Rightarrow> Inr (VMap [])
   | Some st \<Rightarrow>
       (case CanonicalJSON E K (Some st) of
          Inl err \<Rightarrow> Inl (GDomain err)
        | Inr raw \<Rightarrow>
            (case cf_json_read K raw of
               Inl msg \<Rightarrow> Inl (GOther msg)
             | Inr (tree, _) \<Rightarrow> Inr tree)))"

text \<open>The list is nil when there is no change.\<close>

definition diffStates :: "golib \<Rightarrow> cfglib \<Rightarrow> state option \<Rightarrow> state option \<Rightarrow> goerr + diff_entry list option" where
  "diffStates E K before after = (case jsonTree E K before of
     Inl err \<Rightarrow> Inl err
   | Inr bt \<Rightarrow>
       (case jsonTree E K after of
          Inl err \<Rightarrow> Inl err
        | Inr at' \<Rightarrow> Inr (append_nil (sort_key de_path (walkDiff K bt at' [])))))"

section \<open>Handles\<close>

definition new_handle :: "golib \<Rightarrow> sprofile \<Rightarrow> handle" where
  "new_handle E p = ds_New E (sf_name p) (sf_running p) zero_node (sf_startup p) True"

definition alloc :: "handle \<Rightarrow> app \<Rightarrow> app \<times> nat" where
  "alloc h a = (a\<lparr>ap_heap := (ap_heap a)(ap_next a := h), ap_next := Suc (ap_next a)\<rparr>, ap_next a)"

definition schemaEqual :: "schema_leaf list \<Rightarrow> schema_leaf list \<Rightarrow> bool" where
  "schemaEqual a b = (if length a \<noteq> length b then False else list_all (\<lambda>(x, y). x = y) (zip a b))"

definition profileCompileEqual :: "golib \<Rightarrow> snapshot \<Rightarrow> sprofile \<Rightarrow> bool" where
  "profileCompileEqual E prev p = (case ProfileNamed (Some prev) (sf_name p) of
     None \<Rightarrow> False
   | Some old \<Rightarrow>
       if \<not> schemaEqual (sf_schema old) (sf_schema p) then False
       else if \<not> node_Equal E (sf_running old) (sf_running p) then False
       else if IsZero (sf_startup old) \<noteq> IsZero (sf_startup p) then False
       else if \<not> IsZero (sf_startup old) \<and> \<not> node_Equal E (sf_startup old) (sf_startup p) then False
       else True)"

text \<open>The loop over the profiles: the handles of the new snapshot and the names of the rebuilt ones.\<close>

fun sync_profiles :: "golib \<Rightarrow> snapshot option \<Rightarrow> sprofile list \<Rightarrow> app \<Rightarrow> nat gomap \<Rightarrow> string list \<Rightarrow> app \<times> nat gomap \<times> string list" where
  "sync_profiles E prev [] a profiles rebuilt = (a, profiles, rebuilt)"
| "sync_profiles E prev (p # ps) a profiles rebuilt =
    (let kept = (case prev of
           None \<Rightarrow> None
         | Some s \<Rightarrow> if profileCompileEqual E s p then map_of (ap_profileHandles a) (sf_name p) else None) in
     case kept of
       Some h \<Rightarrow> sync_profiles E prev ps a (kv_put (sf_name p) h profiles) rebuilt
     | None \<Rightarrow>
         (let (a', h) = alloc (new_handle E p) a
          in sync_profiles E prev ps a' (kv_put (sf_name p) h profiles) (sf_name p # rebuilt)))"

fun sync_users :: "golib \<Rightarrow> snapshot option \<Rightarrow> snapshot \<Rightarrow> nat gomap \<Rightarrow> string list \<Rightarrow> suser list \<Rightarrow> app \<Rightarrow> nat gomap \<Rightarrow> app \<times> nat gomap" where
  "sync_users E prev new profiles rebuilt [] a users = (a, users)"
| "sync_users E prev new profiles rebuilt (u # us) a users = (case ProfileNamed (Some new) (su_profile u) of
     None \<Rightarrow> sync_users E prev new profiles rebuilt us a users
   | Some p \<Rightarrow>
       if sn_shared new then
         sync_users E prev new profiles rebuilt us a
           (case map_of profiles (su_profile u) of Some h \<Rightarrow> kv_put (su_name u) h users | None \<Rightarrow> users)
       else
         (let kept = (case UserNamed prev (su_name u) of
                None \<Rightarrow> None
              | Some old \<Rightarrow> if su_profile old = su_profile u \<and> su_profile u \<notin> set rebuilt then map_of (ap_userHandles a) (su_name u) else None)
          in case kept of
               Some h \<Rightarrow> sync_users E prev new profiles rebuilt us a (kv_put (su_name u) h users)
             | None \<Rightarrow>
                 (let (a', h) = alloc (new_handle E p) a
                  in sync_users E prev new profiles rebuilt us a' (kv_put (su_name u) h users))))"

definition syncHandles :: "golib \<Rightarrow> snapshot option \<Rightarrow> snapshot option \<Rightarrow> app \<Rightarrow> app" where
  "syncHandles E prev new a = (case new of
     None \<Rightarrow> a\<lparr>ap_profileHandles := [], ap_userHandles := []\<rparr>
   | Some n \<Rightarrow>
       (let prev' = (case prev of None \<Rightarrow> None | Some s \<Rightarrow> if sn_shared s \<noteq> sn_shared n then None else Some s);
            (a1, profiles, rebuilt) = sync_profiles E prev' (sn_profiles n) a [] [];
            (a2, users) = sync_users E prev' n profiles rebuilt (sn_users n) a1 []
        in a2\<lparr>ap_profileHandles := profiles, ap_userHandles := users\<rparr>))"

definition rebuildHandles :: "golib \<Rightarrow> snapshot option \<Rightarrow> app \<Rightarrow> app" where
  "rebuildHandles E snap a = syncHandles E None snap (a\<lparr>ap_profileHandles := [], ap_userHandles := []\<rparr>)"

section \<open>Fingerprints of requests\<close>

text \<open>A raw message is checked and compacted by the encoder; an empty one is omitted.\<close>

definition tree_raw :: "cfglib \<Rightarrow> bytes \<Rightarrow> val option" where
  "tree_raw K raw = (case cf_json_read K raw of Inl _ \<Rightarrow> None | Inr (v, trailing) \<Rightarrow> if trailing then None else Some v)"

definition tree_admission :: "admission_spec \<Rightarrow> val" where
  "tree_admission d = VMap [(''allowClientCidrs'', (case ad_allowClientCidrs d of None \<Rightarrow> VNil | Some cs \<Rightarrow> VList (map jstr cs)))]"

definition tree_op :: "cfglib \<Rightarrow> apply_oper \<Rightarrow> val" where
  "tree_op K oper = VMap ((''op'', jstr (ao_op oper)) # opt_list ''profiles'' (map (tree_profile K) (ao_profiles oper))
     @ (case ao_profile oper of None \<Rightarrow> [] | Some p \<Rightarrow> [(''profile'', tree_profile K p)])
     @ opt_list ''users'' (map tree_user (ao_users oper))
     @ (case ao_user oper of None \<Rightarrow> [] | Some u \<Rightarrow> [(''user'', tree_user u)])
     @ opt_str ''name'' (ao_name oper)
     @ (case ao_admission oper of None \<Rightarrow> [] | Some d \<Rightarrow> [(''admission'', tree_admission d)])
     @ (case ao_netconf oper of None \<Rightarrow> [] | Some n \<Rightarrow> [(''netconf'', tree_netconf n)])
     @ (if ao_observability oper = [] then [] else [(''observability'', case tree_raw K (ao_observability oper) of Some v \<Rightarrow> v | None \<Rightarrow> VNil)]))"

definition op_marshals :: "cfglib \<Rightarrow> apply_oper \<Rightarrow> bool" where
  "op_marshals K oper \<longleftrightarrow>
     list_all (\<lambda>p. list_all marshals (map VMap (case pr_instance p of None \<Rightarrow> [] | Some m \<Rightarrow> [m]))
        \<and> list_all marshals (map VMap (case pr_startup p of None \<Rightarrow> [] | Some m \<Rightarrow> [m])))
       (ao_profiles oper @ (case ao_profile oper of None \<Rightarrow> [] | Some p \<Rightarrow> [p]))
     \<and> (ao_observability oper = [] \<or> tree_raw K (ao_observability oper) \<noteq> None)"

definition fingerprintOps :: "cfglib \<Rightarrow> apply_oper list \<Rightarrow> derr + string" where
  "fingerprintOps K opers =
    (if list_all (op_marshals K) opers then Inr (hex_encode (cf_sha256 K (cf_json_write K (VList (map (tree_op K) opers)))))
     else Inl (ValidationFailed (''idempotency fingerprint: '' @ cf_marshal_err K) []))"

section \<open>Plan and apply\<close>

record candidate =
  cd_prev :: snapshot
  cd_next :: snapshot
  cd_ops :: "apply_oper list"
  cd_diff :: "diff_entry list option"

definition compileCandidate :: "golib \<Rightarrow> cfglib \<Rightarrow> int \<Rightarrow> state \<Rightarrow> snapshot option \<Rightarrow> derr + snapshot" where
  "compileCandidate E K clock st prev =
    compiler_Compile E K clock (Some st) \<lparr>co_now = None,
      co_bootstrapRevision = (case prev of None \<Rightarrow> [] | Some s \<Rightarrow> sn_bootstrapRevision s),
      co_generation = (case prev of None \<Rightarrow> 1 | Some s \<Rightarrow> sn_generation s + 1)\<rparr>"

definition buildCandidate :: "golib \<Rightarrow> cfglib \<Rightarrow> int \<Rightarrow> app \<Rightarrow> apply_oper list \<Rightarrow> string \<Rightarrow> bool \<Rightarrow> goerr + candidate" where
  "buildCandidate E K clock a opers expectedRev requireRev = (case active a of
     Inl err \<Rightarrow> Inl (GDomain err)
   | Inr prev \<Rightarrow>
       if requireRev \<and> expectedRev = [] then
         Inl (GDomain (ValidationFailed ''expectedRevision is required''
           [fv ''expectedRevision'' ''required'' ''expectedRevision is required for plan and apply'']))
       else if requireRev \<and> expectedRev \<noteq> sn_revision prev then
         Inl (GDomain (with_remediation (RevisionMismatch ''active revision does not match expectedRevision'' (sn_revision prev))
           ''Re-read GET state and re-plan against the current revision.''))
       else (case app_cloneState E K (sn_canonical prev) of
         Inl err \<Rightarrow> Inl (GDomain err)
       | Inr copied \<Rightarrow>
           (case applyOperations (Some copied) opers of
              Inl err \<Rightarrow> Inl (GDomain err)
            | Inr st \<Rightarrow>
                (case rejectResetOnly (sn_canonical prev) (Some st) of
                   Some err \<Rightarrow> Inl (GDomain err)
                 | None \<Rightarrow>
                     (case compileCandidate E K clock st (Some prev) of
                        Inl err \<Rightarrow> Inl (GDomain err)
                      | Inr new \<Rightarrow>
                          (case diffStates E K (sn_canonical prev) (sn_canonical new) of
                             Inl err \<Rightarrow> Inl err
                           | Inr diff \<Rightarrow> Inr \<lparr>cd_prev = prev, cd_next = new, cd_ops = opers, cd_diff = diff\<rparr>))))))"

definition planFrom :: "candidate \<Rightarrow> plan" where
  "planFrom c = \<lparr>pl_previous = sn_revision (cd_prev c), pl_candidate = sn_revision (cd_next c),
     pl_drifted = Drifted (Some (cd_next c)), pl_diff = cd_diff c, pl_operations = append_nil (cd_ops c)\<rparr>"

definition app_Plan :: "golib \<Rightarrow> cfglib \<Rightarrow> int \<Rightarrow> ctx \<Rightarrow> app \<Rightarrow> apply_oper list \<Rightarrow> string \<Rightarrow> goerr + plan" where
  "app_Plan E K clock c a opers expectedRev = (case ctx_err c of
     Some err \<Rightarrow> Inl err
   | None \<Rightarrow> map_sum id planFrom (buildCandidate E K clock a opers expectedRev True))"

definition revisionOf :: "snapshot option \<Rightarrow> string" where
  "revisionOf s = (case s of None \<Rightarrow> [] | Some s \<Rightarrow> sn_revision s)"

definition forgetIdempOnConflict :: "string \<Rightarrow> goerr \<Rightarrow> app \<Rightarrow> app" where
  "forgetIdempOnConflict key err a = (case err_as err of
     None \<Rightarrow> a
   | Some de \<Rightarrow> if e_code de \<noteq> CodeRevisionMismatch then a else a\<lparr>ap_idemp := evict (ap_idemp a) key\<rparr>)"

text \<open>What an apply did with its request: refused it, answered it from the cache, or applied it and
  returns the hooks to run once the mutex is released.\<close>

type_synonym applied = "goerr + apply_result \<times> nat list"

definition apply_new :: "golib \<Rightarrow> cfglib \<Rightarrow> jsonlib \<Rightarrow> int \<Rightarrow> actor option \<Rightarrow> app \<Rightarrow> candidate \<Rightarrow> string \<Rightarrow> string \<Rightarrow> app \<times> apply_result" where
  "apply_new E K J clock act a cand key fp =
    (let (snaps, prev) = Swap (ap_snaps a) (Some (cd_next cand));
         a1 = syncHandles E (Some (cd_prev cand)) (Some (cd_next cand)) (a\<lparr>ap_snaps := snaps\<rparr>);
         res = \<lparr>ar_plan = planFrom cand, ar_applied = True, ar_generation = sn_generation (cd_next cand),
                ar_runtimeRevision = sn_revision (cd_next cand)\<rparr>;
         a2 = recordAudit J clock act ((event_of ''changes.apply'')\<lparr>ev_previous := revisionOf prev,
                ev_revision := sn_revision (cd_next cand), ev_diff := toAuditDiff (cd_diff cand)\<rparr>) a1
     in (a2\<lparr>ap_idemp := storeApply (ap_idemp a2) key fp (Some res)\<rparr>, res))"

definition applyLocked :: "golib \<Rightarrow> cfglib \<Rightarrow> jsonlib \<Rightarrow> int \<Rightarrow> actor option \<Rightarrow> app \<Rightarrow> apply_oper list \<Rightarrow> string \<Rightarrow> string \<Rightarrow> app \<times> applied" where
  "applyLocked E K J clock act a opers expectedRev key =
    (if key = [] then (a, Inl (GDomain (ValidationFailed ''Idempotency-Key is required''
       [fv ''idempotencyKey'' ''required'' ''Idempotency-Key is required for apply''])))
     else case fingerprintOps K opers of
       Inl err \<Rightarrow> (a, Inl (GDomain err))
     | Inr fp \<Rightarrow>
         (let (cache, found) = idemp_lookup (ap_idemp a) key fp; a0 = a\<lparr>ap_idemp := cache\<rparr> in
          case found of
            Inl err \<Rightarrow> (a0, Inl (GDomain err))
          | Inr hit \<Rightarrow>
              (case Option.bind hit (\<lambda>e. cloneApply (ie_apply (ic_heap cache e))) of
                 Some res \<Rightarrow> (a0, Inr (res, []))
               | None \<Rightarrow>
                   (case buildCandidate E K clock a0 opers expectedRev True of
                      Inl err \<Rightarrow> (forgetIdempOnConflict key err a0, Inl err)
                    | Inr cand \<Rightarrow>
                        (let (a1, res) = apply_new E K J clock act a0 cand key fp
                         in (a1, Inr (the (cloneApply (Some res)), ap_applyHooks a1)))))))"

definition app_Apply :: "golib \<Rightarrow> cfglib \<Rightarrow> jsonlib \<Rightarrow> int \<Rightarrow> ctx \<Rightarrow> actor option \<Rightarrow> app \<Rightarrow> apply_oper list \<Rightarrow> string \<Rightarrow> string
    \<Rightarrow> app \<times> applied" where
  "app_Apply E K J clock c act a opers expectedRev key = (case ctx_err c of
     Some err \<Rightarrow> (a, Inl err)
   | None \<Rightarrow> applyLocked E K J clock act a opers expectedRev key)"

section \<open>Reset\<close>

text \<open>
  The outcome of looking at the bootstrap file (\<open>os.Stat\<close>): it is there, it does not exist, or
  another error. Loading it may panic: the outcome of a reset is then \<open>None\<close>.
\<close>

datatype stat = StatOk | StatMissing | StatError string

definition as_domain_result :: "goerr + 'a \<Rightarrow> derr + 'a" where
  "as_domain_result r = (case r of Inl err \<Rightarrow> Inl (asDomain err (goerr_text err)) | Inr x \<Rightarrow> Inr x)"

definition gen_opts :: "64 word \<Rightarrow> compile_opts" where
  "gen_opts gen = \<lparr>co_now = None, co_bootstrapRevision = [], co_generation = gen\<rparr>"

definition loadBootstrapCandidate :: "golib \<Rightarrow> cfglib \<Rightarrow> int \<Rightarrow> stat \<Rightarrow> app \<Rightarrow> 64 word \<Rightarrow> (derr + snapshot) option" where
  "loadBootstrapCandidate E K clock stat a gen =
    (if ap_bootstrapPath a \<noteq> [] then
       (case stat of
          StatMissing \<Rightarrow> Some (Inl (ValidationFailed ''bootstrap file unavailable''
            [fv ''bootstrapPath'' ''required'' ''bootstrap file is missing; active snapshot unchanged'']))
        | StatError msg \<Rightarrow> Some (Inl (ValidationFailed (''stat bootstrap: '' @ msg) []))
        | StatOk \<Rightarrow>
            (case LoadFile E K (ap_bootstrapPath a) of
               None \<Rightarrow> None
             | Some (Inl err) \<Rightarrow> Some (Inl (asDomain err (goerr_text err)))
             | Some (Inr st) \<Rightarrow> Some (compiler_Compile E K clock (Some st) (gen_opts gen))))
     else
       (case Option.bind (ss_bootstrap (ap_snaps a)) sn_canonical of
          None \<Rightarrow> Some (Inl (ValidationFailed ''no bootstrap snapshot''
            [fv ''bootstrap'' ''required'' ''no bootstrap path or snapshot to reset to'']))
        | Some canonical_state \<Rightarrow>
            (case app_cloneState E K (Some canonical_state) of
               Inl err \<Rightarrow> Some (Inl err)
             | Inr copied \<Rightarrow> Some (compiler_Compile E K clock (Some copied) (gen_opts gen)))))"

definition install_reset :: "golib \<Rightarrow> jsonlib \<Rightarrow> int \<Rightarrow> actor option \<Rightarrow> app \<Rightarrow> snapshot \<Rightarrow> app" where
  "install_reset E J clock act a new =
    (let prev = ss_active (ap_snaps a);
         snaps = SetBootstrap (fst (Swap (ap_snaps a) (Some new))) (Some new);
         a1 = rebuildHandles E (Some new) (a\<lparr>ap_snaps := snaps\<rparr>);
         a2 = a1\<lparr>ap_idemp := clear (ap_idemp a1), ap_notif := notif_step (ap_notif a1) DoWipe\<rparr>
     in recordAudit J clock act ((event_of ''state.reset'')\<lparr>ev_previous := revisionOf prev, ev_revision := sn_revision new\<rparr>) a2)"

definition resetLocked :: "golib \<Rightarrow> cfglib \<Rightarrow> jsonlib \<Rightarrow> int \<Rightarrow> stat \<Rightarrow> actor option \<Rightarrow> app \<Rightarrow> (app \<times> (derr + nat list)) option" where
  "resetLocked E K J clock stat act a =
    (let gen = (case ss_active (ap_snaps a) of None \<Rightarrow> 0 | Some s \<Rightarrow> sn_generation s + 1) in
     case loadBootstrapCandidate E K clock stat a gen of
       None \<Rightarrow> None
     | Some (Inl err) \<Rightarrow> Some (a, Inl err)
     | Some (Inr new) \<Rightarrow>
         (let a' = install_reset E J clock act a new in Some (a', Inr (ap_resetHooks a'))))"

definition app_Reset :: "golib \<Rightarrow> cfglib \<Rightarrow> jsonlib \<Rightarrow> int \<Rightarrow> stat \<Rightarrow> ctx \<Rightarrow> actor option \<Rightarrow> app \<Rightarrow> (app \<times> (goerr + nat list)) option" where
  "app_Reset E K J clock stat c act a = (case ctx_err c of
     Some err \<Rightarrow> Some (a, Inl err)
   | None \<Rightarrow> map_option (map_prod id (map_sum GDomain id)) (resetLocked E K J clock stat act a))"

section \<open>Datastores\<close>

definition handleForProfile :: "app \<Rightarrow> string \<Rightarrow> derr + nat" where
  "handleForProfile a name =
    (if name = [] then Inl (ValidationFailed ''profile is required'' [fv ''profile'' ''required'' ''profile is required''])
     else case map_of (ap_profileHandles a) name of
       None \<Rightarrow> Inl (NotFound (''profile '' @ name @ '' not found''))
     | Some h \<Rightarrow> Inr h)"

definition storeName :: "string \<Rightarrow> derr + string" where
  "storeName st =
    (if st = Running \<or> st = Candidate \<or> st = Startup then Inr st
     else Inl (ValidationFailed ''unknown datastore'' [fv ''store'' ''invalid_value'' ''store must be running, candidate, or startup'']))"

text \<open>A JSON value that is not an object is refused; null is the empty overlay.\<close>

definition decodeOverlay :: "golib \<Rightarrow> cfglib \<Rightarrow> bytes \<Rightarrow> derr + kvs" where
  "decodeOverlay E K overlay =
    (let bad = (\<lambda>msg. Inl (ValidationFailed ''overlay must be a JSON object'' [fv ''overlay'' ''invalid_value'' msg])) in
     if length overlay = 0 then Inl (ValidationFailed ''overlay is required'' [fv ''overlay'' ''required'' ''overlay is required''])
     else case cf_json_read K overlay of
       Inl msg \<Rightarrow> bad msg
     | Inr (v, trailing) \<Rightarrow>
         if trailing then bad (cf_unmarshal_err K)
         else (case v of
             VMap m \<Rightarrow> if unmarshals E v then Inr (json_kvs E K m) else bad (cf_unmarshal_err K)
           | VNil \<Rightarrow> Inr []
           | _ \<Rightarrow> bad (cf_type_err K v)))"

definition marshalTree :: "cfglib \<Rightarrow> val \<Rightarrow> derr + bytes" where
  "marshalTree K v = (if marshals v then Inr (cf_json_write K v) else Inl (ValidationFailed (''marshal tree: '' @ cf_marshal_err K) []))"

definition replace_all :: "kvs \<Rightarrow> edit_op" where
  "replace_all m = \<lparr>eo_op = OpReplace, eo_path = [], eo_value = EVal (VMap m)\<rparr>"

text \<open>
  Writing startup goes through the candidate: it is replaced, copied and put back. The handle
  that results is returned with the error, since the first step may have succeeded.
\<close>

definition setStartup :: "golib \<Rightarrow> ctx \<Rightarrow> handle \<Rightarrow> kvs \<Rightarrow> handle \<times> goerr option" where
  "setStartup E c h overlay = (case Get E c h Startup [] of
     Inl err \<Rightarrow> (h, Some err)
   | Inr cur \<Rightarrow>
       (case Apply E (Some (node_Clone E cur)) OpMerge [] (EVal (VMap overlay)) of
          Inl err \<Rightarrow> (h, Some (GDomain err))
        | Inr tmp \<Rightarrow>
            (case Get E c h Candidate [] of
               Inl err \<Rightarrow> (h, Some err)
             | Inr prev \<Rightarrow>
                 (case Edit E c h Candidate (replace_all (node_Map E tmp)) of
                    Inl err \<Rightarrow> (h, Some err)
                  | Inr h1 \<Rightarrow>
                      (case Copy E c h1 Candidate Startup of
                         Inl err \<Rightarrow>
                           ((case Edit E c h1 Candidate (replace_all (node_Map E prev)) of Inl _ \<Rightarrow> h1 | Inr h2 \<Rightarrow> h2), Some err)
                       | Inr h2 \<Rightarrow>
                           (case Edit E c h2 Candidate (replace_all (node_Map E prev)) of
                              Inl err \<Rightarrow> (h2, Some err)
                            | Inr h3 \<Rightarrow> (h3, None)))))))"

definition set_handle :: "nat \<Rightarrow> handle \<Rightarrow> app \<Rightarrow> app" where
  "set_handle r h a = a\<lparr>ap_heap := (ap_heap a)(r := h)\<rparr>"

definition GetDatastore :: "golib \<Rightarrow> cfglib \<Rightarrow> ctx \<Rightarrow> app \<Rightarrow> string \<Rightarrow> string \<Rightarrow> goerr + bytes" where
  "GetDatastore E K c a profile st = (case ctx_err c of
     Some err \<Rightarrow> Inl err
   | None \<Rightarrow>
       (case handleForProfile a profile of
          Inl err \<Rightarrow> Inl (GDomain err)
        | Inr r \<Rightarrow>
            (case storeName st of
               Inl err \<Rightarrow> Inl (GDomain err)
             | Inr name \<Rightarrow>
                 (case Get E c (ap_heap a r) name [] of
                    Inl err \<Rightarrow> Inl err
                  | Inr n \<Rightarrow> map_sum GDomain id (marshalTree K (VMap (node_Map E n)))))))"

definition SetDatastore :: "golib \<Rightarrow> cfglib \<Rightarrow> jsonlib \<Rightarrow> int \<Rightarrow> ctx \<Rightarrow> actor option \<Rightarrow> app \<Rightarrow> string \<Rightarrow> string \<Rightarrow> bytes
    \<Rightarrow> app \<times> goerr option" where
  "SetDatastore E K J clock c act a profile st overlay = (case ctx_err c of
     Some err \<Rightarrow> (a, Some err)
   | None \<Rightarrow>
       (case handleForProfile a profile of
          Inl err \<Rightarrow> (a, Some (GDomain err))
        | Inr r \<Rightarrow>
            (case storeName st of
               Inl err \<Rightarrow> (a, Some (GDomain err))
             | Inr name \<Rightarrow>
                 (case decodeOverlay E K overlay of
                    Inl err \<Rightarrow> (a, Some (GDomain err))
                  | Inr tree \<Rightarrow>
                      (let oper = \<lparr>eo_op = OpMerge, eo_path = [], eo_value = EVal (VMap tree)\<rparr>;
                           h = ap_heap a r;
                           (h', err) =
                             (if name = Candidate then
                                (case Edit E c h Candidate oper of Inl err \<Rightarrow> (h, Some err) | Inr h' \<Rightarrow> (h', None))
                              else if name = Running then
                                (case WriteRunningIfCandidateClean E c h oper of Inl err \<Rightarrow> (h, Some err) | Inr h' \<Rightarrow> (h', None))
                              else setStartup E c h tree);
                           a' = set_handle r h' a
                       in case err of
                            Some e \<Rightarrow> (a', Some e)
                          | None \<Rightarrow> (recordAudit J clock act (event_of ''datastore.set'') a', None))))))"

text \<open>The commit hands its event to the notification system under the identifier \<open>i\<close>.\<close>

definition app_Commit :: "golib \<Rightarrow> jsonlib \<Rightarrow> int \<Rightarrow> string \<Rightarrow> ctx \<Rightarrow> actor option \<Rightarrow> app \<Rightarrow> string \<Rightarrow> app \<times> goerr option" where
  "app_Commit E J clock i c act a profile = (case ctx_err c of
     Some err \<Rightarrow> (a, Some err)
   | None \<Rightarrow>
       (case handleForProfile a profile of
          Inl err \<Rightarrow> (a, Some (GDomain err))
        | Inr r \<Rightarrow>
            (case Commit E c (ap_heap a r) of
               Inl err \<Rightarrow> (a, Some err)
             | Inr (h', ev) \<Rightarrow>
                 (let a1 = set_handle r h' a;
                      a2 = (case ev of None \<Rightarrow> a1 | Some (p, changes) \<Rightarrow> a1\<lparr>ap_notif := notif_step (ap_notif a1) (DoCommit i p changes)\<rparr>)
                  in (recordAudit J clock act (event_of ''datastore.commit'') a2, None)))))"

definition app_Discard :: "golib \<Rightarrow> jsonlib \<Rightarrow> int \<Rightarrow> ctx \<Rightarrow> actor option \<Rightarrow> app \<Rightarrow> string \<Rightarrow> app \<times> goerr option" where
  "app_Discard E J clock c act a profile = (case ctx_err c of
     Some err \<Rightarrow> (a, Some err)
   | None \<Rightarrow>
       (case handleForProfile a profile of
          Inl err \<Rightarrow> (a, Some (GDomain err))
        | Inr r \<Rightarrow>
            (case Discard E c (ap_heap a r) of
               Inl err \<Rightarrow> (a, Some err)
             | Inr h' \<Rightarrow> (recordAudit J clock act (event_of ''datastore.discard'') (set_handle r h' a), None))))"

definition PreviewGet :: "golib \<Rightarrow> cfglib \<Rightarrow> ctx \<Rightarrow> app \<Rightarrow> string \<Rightarrow> string \<Rightarrow> goerr + bytes" where
  "PreviewGet E K c a user path = (case ctx_err c of
     Some err \<Rightarrow> Inl err
   | None \<Rightarrow>
       if user = [] then Inl (GDomain (ValidationFailed ''user is required'' [fv ''user'' ''required'' ''user is required'']))
       else (case map_of (ap_userHandles a) user of
               None \<Rightarrow> Inl (GDomain (NotFound (''user '' @ user @ '' not found'')))
             | Some r \<Rightarrow>
                 (case Get E c (ap_heap a r) Running path of
                    Inl err \<Rightarrow> Inl err
                  | Inr n \<Rightarrow>
                      if path = [] then map_sum GDomain id (marshalTree K (VMap (node_Map E n)))
                      else (case Lookup E n path of
                              None \<Rightarrow> Inr ''{}''
                            | Some v \<Rightarrow> map_sum GDomain id (marshalTree K v)))))"

definition ClearNotifications :: "jsonlib \<Rightarrow> int \<Rightarrow> ctx \<Rightarrow> actor option \<Rightarrow> app \<Rightarrow> app \<times> goerr option" where
  "ClearNotifications J clock c act a = (case ctx_err c of
     Some err \<Rightarrow> (a, Some err)
   | None \<Rightarrow> (recordAudit J clock act (event_of ''notifications.clear'') (a\<lparr>ap_notif := notif_step (ap_notif a) DoWipe\<rparr>), None))"

definition mapNotifErr :: "nerr \<Rightarrow> derr" where
  "mapNotifErr err = (case err of
     ErrWaitTimeout \<Rightarrow> WaitTimeout ''wait_timeout''
   | ErrNotFound \<Rightarrow> NotFound ''notification not found''
   | ErrStoreWiped \<Rightarrow> asDomain (GOther ''store_wiped'') ''store_wiped''
   | CtxErr e \<Rightarrow> asDomain e (goerr_text e))"

definition GetNotification :: "ctx \<Rightarrow> app \<Rightarrow> string \<Rightarrow> goerr + notification" where
  "GetNotification c a i = (case ctx_err c of
     Some err \<Rightarrow> Inl err
   | None \<Rightarrow> map_sum (GDomain \<circ> mapNotifErr) id (notif_Get None (ns_ring (ap_notif a)) i))"

section \<open>Construction\<close>

text \<open>
  The options that reach the modelled state. The notification system is the one object that the
  command passes as sink and waiter; an audit log that is not given gets the default size.
\<close>

record options =
  op_snapshots :: "snap_store option"
  op_bootstrapPath :: string
  op_notif :: notif_sys
  op_audit :: "fanout option"
  op_idempotencyMax :: int

definition app_New :: "golib \<Rightarrow> options \<Rightarrow> app" where
  "app_New E opts =
    (let snaps = (case op_snapshots opts of None \<Rightarrow> NewStore | Some s \<Rightarrow> s);
         idempMax = (if op_idempotencyMax opts \<le> 0 then 256 else op_idempotencyMax opts);
         a = \<lparr>ap_snaps = snaps, ap_bootstrapPath = op_bootstrapPath opts,
           ap_audit = Some (case op_audit opts of None \<Rightarrow> NewFanout 0 None | Some f \<Rightarrow> f),
           ap_idemp = newIdempCache idempMax, ap_notif = op_notif opts, ap_resetHooks = [], ap_applyHooks = [],
           ap_heap = (\<lambda>_. new_handle E \<lparr>sf_name = [], sf_modules = [], sf_schema = [], sf_running = zero_node, sf_startup = zero_node\<rparr>),
           ap_next = 0, ap_profileHandles = [], ap_userHandles = []\<rparr>
     in case ss_active snaps of None \<Rightarrow> a | Some snap \<Rightarrow> rebuildHandles E (Some snap) a)"

text \<open>Loading the file may panic: then there is no result.\<close>

definition app_Boot :: "golib \<Rightarrow> cfglib \<Rightarrow> int \<Rightarrow> ctx \<Rightarrow> options \<Rightarrow> (goerr + app) option" where
  "app_Boot E K clock c opts = (case ctx_err c of
     Some err \<Rightarrow> Some (Inl err)
   | None \<Rightarrow>
       if op_bootstrapPath opts = [] then
         Some (Inl (GDomain (ValidationFailed ''bootstrap path is required''
           [fv ''bootstrapPath'' ''required'' ''bootstrap path is required''])))
       else (case LoadFile E K (op_bootstrapPath opts) of
               None \<Rightarrow> None
             | Some (Inl err) \<Rightarrow> Some (Inl (GDomain (asDomain err (goerr_text err))))
             | Some (Inr st) \<Rightarrow>
                 (case compiler_Compile E K clock (Some st) \<lparr>co_now = None, co_bootstrapRevision = [], co_generation = 0\<rparr> of
                    Inl err \<Rightarrow> Some (Inl (GDomain err))
                  | Inr snap \<Rightarrow>
                      (let snaps = (case op_snapshots opts of None \<Rightarrow> NewStore | Some s \<Rightarrow> s)
                       in Some (Inr (app_New E (opts\<lparr>op_snapshots := Some (fst (InstallBootstrap snaps (Some snap)))\<rparr>)))))))"

definition Datastore_of :: "app option \<Rightarrow> string \<Rightarrow> nat option" where
  "Datastore_of a profile = (case a of None \<Rightarrow> None | Some a \<Rightarrow> map_of (ap_profileHandles a) profile)"

definition UserDatastore :: "app option \<Rightarrow> string \<Rightarrow> nat option" where
  "UserDatastore a user = (case a of None \<Rightarrow> None | Some a \<Rightarrow> map_of (ap_userHandles a) user)"

definition OnReset :: "app \<Rightarrow> nat option \<Rightarrow> app" where
  "OnReset a f = (case f of None \<Rightarrow> a | Some f \<Rightarrow> a\<lparr>ap_resetHooks := ap_resetHooks a @ [f]\<rparr>)"

definition OnApply :: "app \<Rightarrow> nat option \<Rightarrow> app" where
  "OnApply a f = (case f of None \<Rightarrow> a | Some f \<Rightarrow> a\<lparr>ap_applyHooks := ap_applyHooks a @ [f]\<rparr>)"

end
