(* ===== verification/App_Laws.thy ===== *)
theory App_Laws
  imports App_Service
begin

text \<open>
  What the service over snapshots keeps: its table of datastore handles. A handle is a
  reference into a heap, so that the sharing of a profile's handle by its users, and the
  separation of the users when they do not share, are statements about references. The
  invariant is carried through every call that changes the state.
\<close>

section \<open>Tables of references\<close>

definition inj_map :: "('k \<rightharpoonup> 'v) \<Rightarrow> bool" where
  "inj_map m \<longleftrightarrow> (\<forall>k k' v. m k = Some v \<longrightarrow> m k' = Some v \<longrightarrow> k = k')"

lemma inj_map_upd: "inj_map m \<Longrightarrow> (\<And>k'. m k' = Some v \<Longrightarrow> k' = k) \<Longrightarrow> inj_map (m(k \<mapsto> v))"
  unfolding inj_map_def by (metis fun_upd_apply option.inject)

text \<open>A table that holds references of an older table under their old names, or newer ones.\<close>

definition grown_from :: "(string \<rightharpoonup> nat) \<Rightarrow> nat \<Rightarrow> (string \<rightharpoonup> nat) \<Rightarrow> nat \<Rightarrow> bool" where
  "grown_from old n0 m n \<longleftrightarrow> inj_map m \<and> (\<forall>k r. m k = Some r \<longrightarrow> r < n \<and> (old k = Some r \<or> n0 \<le> r))"

lemma grown_empty: "grown_from old n0 Map.empty n"
  by (simp add: grown_from_def inj_map_def)

lemma grown_keep:
  assumes "grown_from old n0 m n" and "inj_map old" and "\<And>k r. old k = Some r \<Longrightarrow> r < n0" and "n0 \<le> n" and "old k = Some h"
  shows "grown_from old n0 (m(k \<mapsto> h)) n"
proof -
  have "k' = k" if "m k' = Some h" for k'
    using that assms(1,2,5) assms(3) [OF assms(5)] unfolding grown_from_def inj_map_def by (metis leD)
  then have "inj_map (m(k \<mapsto> h))" using assms(1) by (intro inj_map_upd) (simp_all add: grown_from_def)
  then show ?thesis using assms(1,4,5) assms(3) [OF assms(5)] by (simp add: grown_from_def)
qed

lemma grown_fresh:
  assumes "grown_from old n0 m n" and "n0 \<le> n"
  shows "grown_from old n0 (m(k \<mapsto> n)) (Suc n)"
proof -
  have "k' = k" if "m k' = Some n" for k' using that assms(1) unfolding grown_from_def by blast
  then have "inj_map (m(k \<mapsto> n))" using assms(1) by (intro inj_map_upd) (simp_all add: grown_from_def)
  then show ?thesis using assms by (auto simp: grown_from_def less_Suc_eq)
qed

section \<open>Growing the heap\<close>

definition grown :: "app \<Rightarrow> app \<Rightarrow> bool" where
  "grown a b \<longleftrightarrow> b = a\<lparr>ap_heap := ap_heap b, ap_next := ap_next b\<rparr> \<and> ap_next a \<le> ap_next b
     \<and> (\<forall>r < ap_next a. ap_heap b r = ap_heap a r)"

lemma grown_refl: "grown a a"
  by (simp add: grown_def)

lemma grown_trans: "grown a b \<Longrightarrow> grown b c \<Longrightarrow> grown a c"
  unfolding grown_def by (cases a; cases b; cases c) auto

lemma grown_tables:
  "grown a b \<Longrightarrow> ap_profileHandles b = ap_profileHandles a \<and> ap_userHandles b = ap_userHandles a"
  unfolding grown_def by (cases a; cases b) auto

lemma alloc_grown: "grown a (fst (alloc h a))"
  by (simp add: grown_def alloc_def)

definition slot_ok :: "app \<Rightarrow> sprofile \<Rightarrow> nat \<Rightarrow> bool" where
  "slot_ok a p r \<longleftrightarrow> r < ap_next a \<and> handle_ok (ap_heap a r) \<and> h_profile (ap_heap a r) = sf_name p
     \<and> n_schema (h_running (ap_heap a r)) = n_schema (sf_running p)"

lemma slot_grown: "grown a b \<Longrightarrow> slot_ok a p r \<Longrightarrow> slot_ok b p r"
  by (simp add: grown_def slot_ok_def)

definition sprofile_ok :: "sprofile \<Rightarrow> bool" where
  "sprofile_ok q \<longleftrightarrow> node_ok (sf_running q)
     \<and> (IsZero (sf_startup q) \<or> node_ok (sf_startup q) \<and> n_schema (sf_startup q) = n_schema (sf_running q))"

lemma new_slot: "sprofile_ok p \<Longrightarrow> r < ap_next b \<Longrightarrow> ap_heap b r = new_handle E p \<Longrightarrow> slot_ok b p r"
  using clone_ok [of "sf_running p" E] clone_ok [of "sf_startup p" E] clone_ok [of "node_Clone E (sf_running p)" E]
  by (auto simp: slot_ok_def new_handle_def handle_ok_def sprofile_ok_def ds_New_def Let_def node_Clone_def IsZero_def
      simp del: canonical.simps)

section \<open>Synchronizing the profiles\<close>

definition kept_profile :: "golib \<Rightarrow> snapshot option \<Rightarrow> nat gomap \<Rightarrow> sprofile \<Rightarrow> nat option" where
  "kept_profile E prev t p = (case prev of
     None \<Rightarrow> None
   | Some s \<Rightarrow> if profileCompileEqual E s p then map_of t (sf_name p) else None)"

lemma sync_profiles_Cons:
  "sync_profiles E prev (p # ps) a pm rb = (case kept_profile E prev (ap_profileHandles a) p of
     Some h \<Rightarrow> sync_profiles E prev ps a (kv_put (sf_name p) h pm) rb
   | None \<Rightarrow> sync_profiles E prev ps (fst (alloc (new_handle E p) a)) (kv_put (sf_name p) (ap_next a) pm) (sf_name p # rb))"
  by (simp add: kept_profile_def alloc_def Let_def split: option.split)

definition profile_synced :: "golib \<Rightarrow> snapshot option \<Rightarrow> nat gomap \<Rightarrow> app \<Rightarrow> nat gomap \<Rightarrow> sprofile \<Rightarrow> bool" where
  "profile_synced E prev t b m p \<longleftrightarrow> (case kept_profile E prev t p of
     Some h \<Rightarrow> map_of m (sf_name p) = Some h
   | None \<Rightarrow> \<exists>r. map_of m (sf_name p) = Some r \<and> r < ap_next b \<and> ap_heap b r = new_handle E p)"

lemma sync_profiles_spec:
  assumes "sync_profiles E prev ps a pm rb = (b, pm', rb')" and "distinct (map sf_name ps)"
    and "ap_profileHandles a = t"
  shows "grown a b
    \<and> (\<forall>p \<in> set ps. profile_synced E prev t b pm' p)
    \<and> (\<forall>k. k \<notin> sf_name ` set ps \<longrightarrow> map_of pm' k = map_of pm k)
    \<and> set rb' = set rb \<union> sf_name ` {p \<in> set ps. kept_profile E prev t p = None}"
  using assms
proof (induction ps arbitrary: a pm rb)
  case Nil
  then show ?case by (simp add: grown_refl)
next
  case (Cons p ps)
  show ?case
  proof (cases "kept_profile E prev t p")
    case (Some h)
    with Cons.prems have "sync_profiles E prev ps a (kv_put (sf_name p) h pm) rb = (b, pm', rb')"
      by (simp add: sync_profiles_Cons del: sync_profiles.simps)
    from Cons.IH [OF this] Cons.prems Some show ?thesis by (auto simp: profile_synced_def)
  next
    case None
    let ?a = "fst (alloc (new_handle E p) a)"
    from None Cons.prems have "sync_profiles E prev ps ?a (kv_put (sf_name p) (ap_next a) pm) (sf_name p # rb) = (b, pm', rb')"
      by (simp add: sync_profiles_Cons del: sync_profiles.simps)
    from Cons.IH [OF this] Cons.prems(2,3)
    have ih: "grown ?a b" "\<forall>p \<in> set ps. profile_synced E prev t b pm' p"
        "\<forall>k. k \<notin> sf_name ` set ps \<longrightarrow> map_of pm' k = map_of (kv_put (sf_name p) (ap_next a) pm) k"
        "set rb' = set (sf_name p # rb) \<union> sf_name ` {p \<in> set ps. kept_profile E prev t p = None}"
      by (auto simp: alloc_def)
    have "ap_heap b (ap_next a) = new_handle E p" "ap_next a < ap_next b"
      using ih(1) by (auto simp: grown_def alloc_def)
    then have "profile_synced E prev t b pm' p"
      using None ih(3) Cons.prems(2) by (simp add: profile_synced_def)
    moreover have "grown a b" using alloc_grown ih(1) grown_trans by blast
    ultimately show ?thesis using ih(2,3,4) None by auto
  qed
qed

lemma kept_profile_old: "kept_profile E prev t p = Some h \<Longrightarrow> map_of t (sf_name p) = Some h"
  by (simp add: kept_profile_def split: option.splits if_splits)

text \<open>The hypotheses on an older table: no two names share a reference and all are below the bound.\<close>

definition table_below :: "(string \<rightharpoonup> nat) \<Rightarrow> nat \<Rightarrow> bool" where
  "table_below old n \<longleftrightarrow> inj_map old \<and> (\<forall>k r. old k = Some r \<longrightarrow> r < n)"

lemma sync_profiles_fresh:
  assumes "sync_profiles E prev ps a pm rb = (b, pm', rb')" and "ap_profileHandles a = t"
    and "\<And>p h. p \<in> set ps \<Longrightarrow> kept_profile E prev t p = Some h \<Longrightarrow> old (sf_name p) = Some h" and "table_below old n0" and "n0 \<le> ap_next a" and "grown_from old n0 (map_of pm) (ap_next a)"
  shows "grown_from old n0 (map_of pm') (ap_next b)"
  using assms
proof (induction ps arbitrary: a pm rb)
  case (Cons p ps)
  show ?case
  proof (cases "kept_profile E prev t p")
    case (Some h)
    with Cons.prems have "sync_profiles E prev ps a (kv_put (sf_name p) h pm) rb = (b, pm', rb')"
      by (simp add: sync_profiles_Cons del: sync_profiles.simps)
    moreover have "grown_from old n0 (map_of (kv_put (sf_name p) h pm)) (ap_next a)"
      using grown_keep [OF Cons.prems(6) _ _ Cons.prems(5) Cons.prems(3) [OF _ Some]] Cons.prems(4) by (simp add: table_below_def)
    ultimately show ?thesis using Cons.IH [of a] Cons.prems(2-5) by simp
  next
    case None
    let ?a = "fst (alloc (new_handle E p) a)"
    from None Cons.prems have "sync_profiles E prev ps ?a (kv_put (sf_name p) (ap_next a) pm) (sf_name p # rb) = (b, pm', rb')"
      by (simp add: sync_profiles_Cons del: sync_profiles.simps)
    moreover have "grown_from old n0 (map_of (kv_put (sf_name p) (ap_next a) pm)) (ap_next ?a)"
      using grown_fresh [OF Cons.prems(6,5)] by (simp add: alloc_def)
    ultimately show ?thesis using Cons.IH [of ?a] Cons.prems(2-5) by (simp add: alloc_def)
  qed
qed simp

section \<open>Synchronizing the users\<close>

definition kept_user :: "snapshot option \<Rightarrow> string list \<Rightarrow> nat gomap \<Rightarrow> suser \<Rightarrow> nat option" where
  "kept_user prev rebuilt t u = (case UserNamed prev (su_name u) of
     None \<Rightarrow> None
   | Some old \<Rightarrow> if su_profile old = su_profile u \<and> su_profile u \<notin> set rebuilt then map_of t (su_name u) else None)"

lemma sync_users_Cons:
  "\<not> sn_shared new \<Longrightarrow> ProfileNamed (Some new) (su_profile u) = Some p \<Longrightarrow>
   sync_users E prev new profiles rebuilt (u # us) a users = (case kept_user prev rebuilt (ap_userHandles a) u of
     Some h \<Rightarrow> sync_users E prev new profiles rebuilt us a (kv_put (su_name u) h users)
   | None \<Rightarrow> sync_users E prev new profiles rebuilt us (fst (alloc (new_handle E p) a)) (kv_put (su_name u) (ap_next a) users))"
  by (simp add: kept_user_def alloc_def Let_def split: option.split)

lemma sync_users_shared:
  assumes "sn_shared new" and "distinct (map su_name us)"
    and "\<forall>u \<in> set us. ProfileNamed (Some new) (su_profile u) \<noteq> None \<and> map_of profiles (su_profile u) \<noteq> None"
    and "sync_users E prev new profiles rebuilt us a users = (b, users')"
  shows "b = a \<and> (\<forall>u \<in> set us. map_of users' (su_name u) = map_of profiles (su_profile u))
    \<and> (\<forall>k. k \<notin> su_name ` set us \<longrightarrow> map_of users' k = map_of users k)"
  using assms
proof (induction us arbitrary: users)
  case (Cons u us)
  obtain p h where p: "ProfileNamed (Some new) (su_profile u) = Some p" "map_of profiles (su_profile u) = Some h"
    using Cons.prems(3) by auto
  with Cons.prems have "sync_users E prev new profiles rebuilt us a (kv_put (su_name u) h users) = (b, users')" by simp
  from Cons.IH [OF Cons.prems(1) _ _ this] Cons.prems(2,3) p(2) show ?case by auto
qed simp

definition user_synced :: "golib \<Rightarrow> snapshot option \<Rightarrow> snapshot \<Rightarrow> string list \<Rightarrow> nat gomap \<Rightarrow> app \<Rightarrow> nat gomap \<Rightarrow> suser \<Rightarrow> bool" where
  "user_synced E prev new rebuilt t b m u \<longleftrightarrow> (case kept_user prev rebuilt t u of
     Some h \<Rightarrow> map_of m (su_name u) = Some h
   | None \<Rightarrow> \<exists>p r. ProfileNamed (Some new) (su_profile u) = Some p \<and> map_of m (su_name u) = Some r \<and> r < ap_next b
       \<and> ap_heap b r = new_handle E p)"

lemma kept_user_old: "kept_user prev rb t u = Some h \<Longrightarrow> map_of t (su_name u) = Some h"
  by (simp add: kept_user_def split: option.splits if_splits)

lemma sync_users_spec:
  assumes "sync_users E prev new profiles rb us a um = (b, um')" and "\<not> sn_shared new" and "distinct (map su_name us)"
    and "ap_userHandles a = t" and "\<forall>u \<in> set us. ProfileNamed (Some new) (su_profile u) \<noteq> None"
    and "\<And>u h. u \<in> set us \<Longrightarrow> kept_user prev rb t u = Some h \<Longrightarrow> old (su_name u) = Some h"
    and "table_below old n0" and "n0 \<le> ap_next a" and "grown_from old n0 (map_of um) (ap_next a)"
  shows "grown a b \<and> (\<forall>u \<in> set us. user_synced E prev new rb t b um' u)
    \<and> (\<forall>k. k \<notin> su_name ` set us \<longrightarrow> map_of um' k = map_of um k)
    \<and> grown_from old n0 (map_of um') (ap_next b)"
  using assms
proof (induction us arbitrary: a um)
  case Nil
  then show ?case by (simp add: grown_refl)
next
  case (Cons u us)
  obtain p where p: "ProfileNamed (Some new) (su_profile u) = Some p" using Cons.prems(5) by auto
  note step = sync_users_Cons [OF Cons.prems(2) p]
  show ?case
  proof (cases "kept_user prev rb t u")
    case (Some h)
    with Cons.prems have s: "sync_users E prev new profiles rb us a (kv_put (su_name u) h um) = (b, um')"
      by (simp add: step del: sync_users.simps)
    have g: "grown_from old n0 (map_of (kv_put (su_name u) h um)) (ap_next a)"
      using grown_keep [OF Cons.prems(9) _ _ Cons.prems(8) Cons.prems(6) [OF _ Some]] Cons.prems(7) by (simp add: table_below_def)
    from Cons.IH [OF s Cons.prems(2) _ Cons.prems(4) _ _ Cons.prems(7,8) g] Cons.prems(3,5,6) Some
    show ?thesis by (auto simp: user_synced_def)
  next
    case None
    let ?a = "fst (alloc (new_handle E p) a)"
    from None Cons.prems have s: "sync_users E prev new profiles rb us ?a (kv_put (su_name u) (ap_next a) um) = (b, um')"
      by (simp add: step del: sync_users.simps)
    have g: "grown_from old n0 (map_of (kv_put (su_name u) (ap_next a) um)) (ap_next ?a)"
      using grown_fresh [OF Cons.prems(9,8)] by (simp add: alloc_def)
    have t: "ap_userHandles ?a = t" "n0 \<le> ap_next ?a" using Cons.prems(4,8) by (simp_all add: alloc_def)
    from Cons.IH [OF s Cons.prems(2) _ t(1) _ _ Cons.prems(7) t(2) g] Cons.prems(3,5,6)
    have ih: "grown ?a b" "\<forall>u \<in> set us. user_synced E prev new rb t b um' u"
        "\<forall>k. k \<notin> su_name ` set us \<longrightarrow> map_of um' k = map_of (kv_put (su_name u) (ap_next a) um) k"
        "grown_from old n0 (map_of um') (ap_next b)" by auto
    have "ap_heap b (ap_next a) = new_handle E p" "ap_next a < ap_next b"
      using ih(1) by (auto simp: grown_def alloc_def)
    then have "user_synced E prev new rb t b um' u"
      using None ih(3) Cons.prems(3) p by (simp add: user_synced_def)
    moreover have "grown a b" using alloc_grown ih(1) grown_trans by blast
    ultimately show ?thesis using ih(2,3,4) by auto
  qed
qed

section \<open>The table of handles\<close>

text \<open>
  The table fits a snapshot: every profile and every user of it has a live handle of the right
  profile and schema, and there are no others. Users share the handle of their profile or, when they do
  not share, every profile and every user has a handle of its own.
\<close>

definition profile_table :: "snapshot \<Rightarrow> app \<Rightarrow> bool" where
  "profile_table s a \<longleftrightarrow> dom (map_of (ap_profileHandles a)) = sf_name ` set (sn_profiles s)
     \<and> (\<forall>p \<in> set (sn_profiles s). \<exists>r. map_of (ap_profileHandles a) (sf_name p) = Some r \<and> slot_ok a p r)
     \<and> inj_map (map_of (ap_profileHandles a))"

definition user_table :: "snapshot \<Rightarrow> app \<Rightarrow> bool" where
  "user_table s a \<longleftrightarrow> dom (map_of (ap_userHandles a)) = su_name ` set (sn_users s)
     \<and> (\<forall>u \<in> set (sn_users s). \<exists>p r. ProfileNamed (Some s) (su_profile u) = Some p
           \<and> map_of (ap_userHandles a) (su_name u) = Some r \<and> slot_ok a p r
           \<and> (sn_shared s \<longrightarrow> map_of (ap_profileHandles a) (su_profile u) = Some r))
     \<and> (\<not> sn_shared s \<longrightarrow> inj_map (map_of (ap_userHandles a))
           \<and> (\<forall>k k' r. map_of (ap_profileHandles a) k = Some r \<longrightarrow> map_of (ap_userHandles a) k' \<noteq> Some r))"

definition snap_ok :: "golib \<Rightarrow> snapshot \<Rightarrow> bool" where
  "snap_ok E s \<longleftrightarrow> snapshot_ok E s \<and> (\<forall>q \<in> set (sn_profiles s). \<exists>m. Compile E m (sf_schema q) = Inr (sf_running q))"

lemma compiled_snap_ok:
  assumes "trip_ok E K" and "compiler_Compile E K clock st opts = Inr snap"
  shows "snap_ok E snap"
proof -
  from assms(2) obtain n :: state where n: "compileProfiles E (sp_profiles (st_spec n)) = Inr (sn_profiles snap)" by (rule compile_parts)
  have "\<exists>m. Compile E m (sf_schema q) = Inr (sf_running q)" if "q \<in> set (sn_profiles snap)" for q
    using compileProfiles_mem [OF n that] compileProfile_fields(3,4) by metis
  with compiled_snapshot_ok [OF assms] show ?thesis by (simp add: snap_ok_def)
qed

lemma find_in: "distinct (map f xs) \<Longrightarrow> x \<in> set xs \<Longrightarrow> find (\<lambda>y. f y = f x) xs = Some x"
  by (induction xs) auto

lemma ProfileNamed_in: "snap_ok E s \<Longrightarrow> p \<in> set (sn_profiles s) \<Longrightarrow> ProfileNamed (Some s) (sf_name p) = Some p"
  by (simp add: ProfileNamed_def find_in snap_ok_def snapshot_ok_def)

lemma UserNamed_in: "snap_ok E s \<Longrightarrow> u \<in> set (sn_users s) \<Longrightarrow> UserNamed (Some s) (su_name u) = Some u"
  by (simp add: UserNamed_def find_in snap_ok_def snapshot_ok_def)

lemma ProfileNamed_SomeD: "ProfileNamed (Some s) k = Some p \<Longrightarrow> p \<in> set (sn_profiles s) \<and> sf_name p = k"
  by (auto simp: ProfileNamed_def find_Some_iff)

lemma UserNamed_SomeD: "UserNamed (Some s) k = Some u \<Longrightarrow> u \<in> set (sn_users s) \<and> su_name u = k"
  by (auto simp: UserNamed_def find_Some_iff)

lemma snap_profile_ok: "snap_ok E s \<Longrightarrow> p \<in> set (sn_profiles s) \<Longrightarrow> sprofile_ok p"
  by (auto simp: snap_ok_def snapshot_ok_def sprofile_ok_def)

lemma schemaEqual_eq: "schemaEqual xs ys \<longleftrightarrow> xs = ys"
  by (simp add: schemaEqual_def list_all_iff list_eq_iff_zip_eq [of xs ys])

text \<open>A profile compiled the same way has the same schema.\<close>

lemma compile_equal_schema:
  assumes "profileCompileEqual E s p" and "snap_ok E s" and "snap_ok E n" and "p \<in> set (sn_profiles n)"
  obtains old where "old \<in> set (sn_profiles s)" "sf_name old = sf_name p" "n_schema (sf_running old) = n_schema (sf_running p)"
proof -
  from assms(1) obtain old where o: "ProfileNamed (Some s) (sf_name p) = Some old" "sf_schema old = sf_schema p"
    by (auto simp: profileCompileEqual_def schemaEqual_eq split: option.splits if_splits)
  note old = ProfileNamed_SomeD [OF o(1)]
  from assms(2) old obtain m where "Compile E m (sf_schema p) = Inr (sf_running old)" by (auto simp: snap_ok_def o(2) [symmetric])
  moreover from assms(3,4) obtain m' where "Compile E m' (sf_schema p) = Inr (sf_running p)" by (auto simp: snap_ok_def)
  ultimately have "n_schema (sf_running old) = n_schema (sf_running p)" by (rule Compile_schema)
  with old that show thesis by blast
qed

lemma kept_slot:
  assumes "kept_profile E prev (ap_profileHandles a) p = Some h" and "\<And>s. prev = Some s \<Longrightarrow> snap_ok E s \<and> profile_table s a"
    and "snap_ok E n" and "p \<in> set (sn_profiles n)"
  shows "slot_ok a p h"
proof -
  from assms(1) obtain s where s: "prev = Some s" "profileCompileEqual E s p" "map_of (ap_profileHandles a) (sf_name p) = Some h"
    by (auto simp: kept_profile_def split: option.splits if_splits)
  from compile_equal_schema [OF s(2) _ assms(3,4)] assms(2) [OF s(1)] obtain old
    where "old \<in> set (sn_profiles s)" "sf_name old = sf_name p" "n_schema (sf_running old) = n_schema (sf_running p)" by metis
  with assms(2) [OF s(1)] s(3) show ?thesis by (force simp: profile_table_def slot_ok_def)
qed

abbreviation old_table :: "snapshot option \<Rightarrow> nat gomap \<Rightarrow> string \<rightharpoonup> nat" where
  "old_table prev t \<equiv> (case prev of None \<Rightarrow> Map.empty | Some _ \<Rightarrow> map_of t)"

lemma table_below_empty: "table_below Map.empty n"
  by (simp add: table_below_def inj_map_def)

lemma profile_table_below: "profile_table s a \<Longrightarrow> table_below (map_of (ap_profileHandles a)) (ap_next a)"
  unfolding profile_table_def table_below_def slot_ok_def by (metis (no_types, lifting) domI imageE option.inject)

lemma user_table_below: "user_table s a \<Longrightarrow> \<not> sn_shared s \<Longrightarrow> table_below (map_of (ap_userHandles a)) (ap_next a)"
  unfolding user_table_def table_below_def slot_ok_def by (metis (no_types, lifting) domI imageE option.inject)

lemma synced_profiles:
  assumes "sync_profiles E prev (sn_profiles n) a [] [] = (a1, pm, rb)" and "snap_ok E n"
    and "\<And>s. prev = Some s \<Longrightarrow> snap_ok E s \<and> profile_table s a"
  shows "grown a a1" "dom (map_of pm) = sf_name ` set (sn_profiles n)"
    and "\<forall>p \<in> set (sn_profiles n). \<exists>r. map_of pm (sf_name p) = Some r \<and> slot_ok a1 p r"
    and "grown_from (old_table prev (ap_profileHandles a)) (ap_next a) (map_of pm) (ap_next a1)"
    and "\<forall>p \<in> set (sn_profiles n). profile_synced E prev (ap_profileHandles a) a1 pm p"
    and "set rb = sf_name ` {p \<in> set (sn_profiles n). kept_profile E prev (ap_profileHandles a) p = None}"
proof -
  have d: "distinct (map sf_name (sn_profiles n))" using assms(2) by (simp add: snap_ok_def snapshot_ok_def)
  note spec = sync_profiles_spec [OF assms(1) d refl]
  show g: "grown a a1" and s: "\<forall>p \<in> set (sn_profiles n). profile_synced E prev (ap_profileHandles a) a1 pm p"
    and "set rb = sf_name ` {p \<in> set (sn_profiles n). kept_profile E prev (ap_profileHandles a) p = None}"
    using spec by auto
  show slots: "\<forall>p \<in> set (sn_profiles n). \<exists>r. map_of pm (sf_name p) = Some r \<and> slot_ok a1 p r"
  proof
    fix p assume p: "p \<in> set (sn_profiles n)"
    show "\<exists>r. map_of pm (sf_name p) = Some r \<and> slot_ok a1 p r"
    proof (cases "kept_profile E prev (ap_profileHandles a) p")
      case None
      with s p have "\<exists>r. map_of pm (sf_name p) = Some r \<and> r < ap_next a1 \<and> ap_heap a1 r = new_handle E p"
        by (force simp: profile_synced_def)
      with new_slot [OF snap_profile_ok [OF assms(2) p]] show ?thesis by blast
    next
      case (Some h)
      from slot_grown [OF g kept_slot [OF Some assms(3) assms(2) p]] show ?thesis
        using s p Some by (force simp: profile_synced_def)
    qed
  qed
  then have "sf_name ` set (sn_profiles n) \<subseteq> dom (map_of pm)" by auto
  moreover have "dom (map_of pm) \<subseteq> sf_name ` set (sn_profiles n)"
  proof
    fix k assume "k \<in> dom (map_of pm)"
    then have "map_of pm k \<noteq> None" by auto
    with spec show "k \<in> sf_name ` set (sn_profiles n)" by auto
  qed
  ultimately show "dom (map_of pm) = sf_name ` set (sn_profiles n)" by blast
  have below: "table_below (old_table prev (ap_profileHandles a)) (ap_next a)"
    using assms(3) profile_table_below by (cases prev) (auto simp: table_below_empty)
  have old: "old_table prev (ap_profileHandles a) (sf_name p) = Some h"
    if "kept_profile E prev (ap_profileHandles a) p = Some h" for p h
    using that by (auto simp: kept_profile_def split: option.splits if_splits)
  show "grown_from (old_table prev (ap_profileHandles a)) (ap_next a) (map_of pm) (ap_next a1)"
    by (rule sync_profiles_fresh [OF assms(1) refl old below order_refl]) (simp_all add: grown_empty)
qed

lemma kept_user_slot:
  assumes "kept_user prev rb (ap_userHandles a) u = Some h" and "\<And>s. prev = Some s \<Longrightarrow> snap_ok E s \<and> profile_table s a \<and> user_table s a"
    and "snap_ok E n" and "ProfileNamed (Some n) (su_profile u) = Some p"
    and "set rb = sf_name ` {p \<in> set (sn_profiles n). kept_profile E prev (ap_profileHandles a) p = None}"
  shows "slot_ok a p h"
proof -
  from assms(1) obtain old where old: "UserNamed prev (su_name u) = Some old" "su_profile old = su_profile u"
      "su_profile u \<notin> set rb" "map_of (ap_userHandles a) (su_name u) = Some h"
    by (auto simp: kept_user_def split: option.splits if_splits)
  then obtain s where s: "prev = Some s" by (cases prev) (auto simp: UserNamed_def)
  note o = UserNamed_SomeD [OF old(1) [unfolded s]] and p = ProfileNamed_SomeD [OF assms(4)]
  have "kept_profile E prev (ap_profileHandles a) p \<noteq> None" using old(3) p assms(5) by force
  then have eq: "profileCompileEqual E s p" by (auto simp: kept_profile_def s split: if_splits)
  have ok: "snap_ok E s" "user_table s a" using assms(2) [OF s] by auto
  from compile_equal_schema [OF eq ok(1) assms(3)] p obtain q
    where q: "q \<in> set (sn_profiles s)" "sf_name q = sf_name p" "n_schema (sf_running q) = n_schema (sf_running p)" by metis
  have "ProfileNamed (Some s) (su_profile old) = Some q" using ProfileNamed_in [OF ok(1) q(1)] q(2) p old(2) by simp
  with ok(2) o old(2,4) have "slot_ok a q h" by (force simp: user_table_def)
  with q show ?thesis by (simp add: slot_ok_def)
qed

lemma unshared_users:
  assumes "sync_users E prev n pm rb (sn_users n) a1 [] = (a2, um)" and "snap_ok E n" and "\<not> sn_shared n"
    and "\<And>s. prev = Some s \<Longrightarrow> snap_ok E s \<and> profile_table s a \<and> user_table s a \<and> \<not> sn_shared s"
    and "set rb = sf_name ` {p \<in> set (sn_profiles n). kept_profile E prev (ap_profileHandles a) p = None}"
    and "grown a a1" and "grown_from (old_table prev (ap_profileHandles a)) (ap_next a) (map_of pm) (ap_next a1)"
  shows "grown a1 a2"
    and "\<forall>u \<in> set (sn_users n). \<exists>p r. ProfileNamed (Some n) (su_profile u) = Some p \<and> map_of um (su_name u) = Some r \<and> slot_ok a2 p r"
    and "\<forall>k. k \<notin> su_name ` set (sn_users n) \<longrightarrow> map_of um k = None"
    and "inj_map (map_of um)" and "\<And>k k' r. map_of pm k = Some r \<Longrightarrow> map_of um k' \<noteq> Some r"
    and "\<forall>u \<in> set (sn_users n). user_synced E prev n rb (ap_userHandles a) a2 um u"
    and "grown_from (old_table prev (ap_userHandles a)) (ap_next a1) (map_of um) (ap_next a2)"
proof -
  have d: "distinct (map su_name (sn_users n))" and pn: "\<forall>u \<in> set (sn_users n). ProfileNamed (Some n) (su_profile u) \<noteq> None"
    using assms(2) by (auto simp: snap_ok_def snapshot_ok_def)
  have t: "ap_userHandles a1 = ap_userHandles a" using grown_tables [OF assms(6)] by simp
  have n: "ap_next a \<le> ap_next a1" using assms(6) by (simp add: grown_def)
  have "table_below (old_table prev (ap_userHandles a)) (ap_next a)"
    using assms(4) user_table_below by (cases prev) (auto simp: table_below_empty)
  then have below: "table_below (old_table prev (ap_userHandles a)) (ap_next a1)" and
    low: "\<And>k r. old_table prev (ap_userHandles a) k = Some r \<Longrightarrow> r < ap_next a"
    using n by (auto simp: table_below_def dest: less_le_trans)
  have old: "old_table prev (ap_userHandles a) (su_name u) = Some h" if "kept_user prev rb (ap_userHandles a) u = Some h" for u h
    using that by (auto simp: kept_user_def UserNamed_def split: option.splits if_splits)
  have g: "grown_from (old_table prev (ap_userHandles a)) (ap_next a1) (map_of []) (ap_next a1)" by (simp add: grown_empty)
  note spec = sync_users_spec [OF assms(1,3) d t pn old below order_refl g]
  show g2: "grown a1 a2" and s: "\<forall>u \<in> set (sn_users n). user_synced E prev n rb (ap_userHandles a) a2 um u"
    and "\<forall>k. k \<notin> su_name ` set (sn_users n) \<longrightarrow> map_of um k = None" and "inj_map (map_of um)"
    and "grown_from (old_table prev (ap_userHandles a)) (ap_next a1) (map_of um) (ap_next a2)"
    using spec by (auto simp: grown_from_def)
  have sep: "old_table prev (ap_profileHandles a) k = Some r \<Longrightarrow> old_table prev (ap_userHandles a) k' \<noteq> Some r" for k k' r
    using assms(4) by (cases prev) (auto simp: user_table_def)
  show "map_of um k' \<noteq> Some r" if r: "map_of pm k = Some r" for k k' r
  proof
    assume u: "map_of um k' = Some r"
    have "r < ap_next a1" using r assms(7) by (simp add: grown_from_def)
    with u spec have "old_table prev (ap_userHandles a) k' = Some r" by (fastforce simp: grown_from_def)
    moreover from this r low assms(7) have "old_table prev (ap_profileHandles a) k = Some r" by (fastforce simp: grown_from_def)
    ultimately show False using sep by blast
  qed
  show "\<forall>u \<in> set (sn_users n). \<exists>p r. ProfileNamed (Some n) (su_profile u) = Some p \<and> map_of um (su_name u) = Some r \<and> slot_ok a2 p r"
  proof
    fix u assume u: "u \<in> set (sn_users n)"
    then obtain p where p: "ProfileNamed (Some n) (su_profile u) = Some p" using pn by blast
    have "\<exists>r. map_of um (su_name u) = Some r \<and> slot_ok a2 p r"
    proof (cases "kept_user prev rb (ap_userHandles a) u")
      case None
      with s u p have "\<exists>r. map_of um (su_name u) = Some r \<and> r < ap_next a2 \<and> ap_heap a2 r = new_handle E p"
        by (force simp: user_synced_def)
      with new_slot [OF snap_profile_ok [OF assms(2)]] ProfileNamed_SomeD [OF p] show ?thesis by blast
    next
      case (Some h)
      from kept_user_slot [OF Some _ assms(2) p assms(5)] assms(4) have "slot_ok a p h" by blast
      with slot_grown [OF g2 slot_grown [OF assms(6)]] s u Some show ?thesis by (force simp: user_synced_def)
    qed
    with p show "\<exists>p r. ProfileNamed (Some n) (su_profile u) = Some p \<and> map_of um (su_name u) = Some r \<and> slot_ok a2 p r" by blast
  qed
qed

lemma sync_users_grown: "sync_users E prev new pm rb us a um = (b, um') \<Longrightarrow> grown a b"
proof (induction us arbitrary: a um)
  case Nil
  then show ?case by (simp add: grown_refl)
next
  case (Cons u us)
  have step: "grown a b" if "sync_users E prev new pm rb us (fst (alloc h a)) m = (b, um')" for h m
    using Cons.IH [OF that] alloc_grown grown_trans by blast
  show ?case using Cons step by (auto simp: Let_def split_def split: option.splits if_splits)
qed

definition same_mode :: "snapshot option \<Rightarrow> snapshot \<Rightarrow> snapshot option" where
  "same_mode prev n = (case prev of None \<Rightarrow> None | Some s \<Rightarrow> if sn_shared s \<noteq> sn_shared n then None else Some s)"

lemma same_mode_SomeD: "same_mode prev n = Some s \<Longrightarrow> prev = Some s \<and> sn_shared s = sn_shared n"
  by (simp add: same_mode_def split: option.splits if_splits)

lemma syncHandles_cases:
  obtains a1 pm rb a2 um where "sync_profiles E (same_mode prev n) (sn_profiles n) a [] [] = (a1, pm, rb)"
    and "sync_users E (same_mode prev n) n pm rb (sn_users n) a1 [] = (a2, um)"
    and "syncHandles E prev (Some n) a = a2\<lparr>ap_profileHandles := pm, ap_userHandles := um\<rparr>"
proof -
  obtain a1 pm rb where 1: "sync_profiles E (same_mode prev n) (sn_profiles n) a [] [] = (a1, pm, rb)" by (metis prod_cases3)
  obtain a2 um where 2: "sync_users E (same_mode prev n) n pm rb (sn_users n) a1 [] = (a2, um)" by fastforce
  have "syncHandles E prev (Some n) a = a2\<lparr>ap_profileHandles := pm, ap_userHandles := um\<rparr>"
    using 1 2 by (simp add: syncHandles_def same_mode_def Let_def)
  with 1 2 that show thesis by blast
qed

lemma slot_tables [simp]: "slot_ok (b\<lparr>ap_profileHandles := x, ap_userHandles := y\<rparr>) p r = slot_ok b p r"
  by (simp add: slot_ok_def)

lemma syncHandles_tables:
  assumes "snap_ok E n" and "\<And>s. prev = Some s \<Longrightarrow> snap_ok E s \<and> profile_table s a \<and> user_table s a"
  shows "profile_table n (syncHandles E prev (Some n) a) \<and> user_table n (syncHandles E prev (Some n) a)
    \<and> (\<exists>b. grown a b \<and> (\<exists>pm um. syncHandles E prev (Some n) a = b\<lparr>ap_profileHandles := pm, ap_userHandles := um\<rparr>))"
proof -
  obtain a1 pm rb a2 um where sp: "sync_profiles E (same_mode prev n) (sn_profiles n) a [] [] = (a1, pm, rb)"
    and su: "sync_users E (same_mode prev n) n pm rb (sn_users n) a1 [] = (a2, um)"
    and b: "syncHandles E prev (Some n) a = a2\<lparr>ap_profileHandles := pm, ap_userHandles := um\<rparr>" by (rule syncHandles_cases)
  have prev: "snap_ok E s \<and> profile_table s a \<and> user_table s a \<and> sn_shared s = sn_shared n" if "same_mode prev n = Some s" for s
    using assms(2) same_mode_SomeD [OF that] by blast
  note P = synced_profiles [OF sp assms(1)]
  have P': "grown a a1" "dom (map_of pm) = sf_name ` set (sn_profiles n)"
      "\<forall>p \<in> set (sn_profiles n). \<exists>r. map_of pm (sf_name p) = Some r \<and> slot_ok a1 p r" "inj_map (map_of pm)"
      "set rb = sf_name ` {p \<in> set (sn_profiles n). kept_profile E (same_mode prev n) (ap_profileHandles a) p = None}"
      "grown_from (old_table (same_mode prev n) (ap_profileHandles a)) (ap_next a) (map_of pm) (ap_next a1)"
    using P prev by (auto simp: grown_from_def)
  have pn: "ProfileNamed (Some n) (su_profile u) \<noteq> None" if "u \<in> set (sn_users n)" for u
    using that assms(1) by (auto simp: snap_ok_def snapshot_ok_def)
  have "grown a1 a2 \<and> user_table n (syncHandles E prev (Some n) a)"
  proof (cases "sn_shared n")
    case False
    have h: "snap_ok E s \<and> profile_table s a \<and> user_table s a \<and> \<not> sn_shared s" if "same_mode prev n = Some s" for s
      using prev [OF that] False by simp
    note U' = unshared_users [OF su assms(1) False h P'(5,1) P'(6)]
    have "dom (map_of um) = su_name ` set (sn_users n)" using U'(2,3) by (auto simp: dom_def)
    with U'(1,2,4,5) False show ?thesis by (simp add: user_table_def b)
  next
    case True
    have m: "map_of pm (su_profile u) \<noteq> None" if "u \<in> set (sn_users n)" for u
    proof -
      from pn [OF that] obtain p where "ProfileNamed (Some n) (su_profile u) = Some p" by blast
      from ProfileNamed_SomeD [OF this] P'(3) show ?thesis by force
    qed
    have d: "distinct (map su_name (sn_users n))" using assms(1) by (simp add: snap_ok_def snapshot_ok_def)
    from sync_users_shared [OF True d _ su] m pn
    have S: "a2 = a1" "\<forall>u \<in> set (sn_users n). map_of um (su_name u) = map_of pm (su_profile u)"
      "\<forall>k. k \<notin> su_name ` set (sn_users n) \<longrightarrow> map_of um k = None" by auto
    have each: "\<exists>p r. ProfileNamed (Some n) (su_profile u) = Some p \<and> map_of um (su_name u) = Some r \<and> slot_ok a2 p r
        \<and> map_of pm (su_profile u) = Some r" if u: "u \<in> set (sn_users n)" for u
    proof -
      from pn [OF u] obtain p where p: "ProfileNamed (Some n) (su_profile u) = Some p" by blast
      with ProfileNamed_SomeD [OF p] P'(3) S(1,2) u show ?thesis by force
    qed
    then have "dom (map_of um) = su_name ` set (sn_users n)" using S(3) by (auto simp: dom_def)
    with each True S(1) show ?thesis by (simp add: user_table_def b grown_refl)
  qed
  moreover from this P'(3) slot_grown have "\<forall>p \<in> set (sn_profiles n). \<exists>r. map_of pm (sf_name p) = Some r \<and> slot_ok a2 p r" by blast
  then have "profile_table n (syncHandles E prev (Some n) a)" using P'(2,4) by (simp add: profile_table_def b)
  ultimately show ?thesis using grown_trans [OF P'(1)] b by blast
qed

section \<open>Calls on one handle\<close>

lemma applyGetters_canonical: "canonical v \<Longrightarrow> canonical (applyGetters E s pre v)"
proof (induction E s pre v rule: applyGetters.induct)
  case (1 E s pre v)
  show ?case
  proof (cases "s = None \<or> dynamic s pre \<noteq> None")
    case True
    then show ?thesis using "1.prems" by (auto simp: applyGetters.simps)
  next
    case F: False
    then have n: "s \<noteq> None" "\<not> dynamic s pre \<noteq> None" by auto
    show ?thesis
    proof (cases v)
      case (VMap m)
      have each: "canonical (if p_module pre = '''' then applyGetters E s (child_path pre (fst kv)) (snd kv)
           else case dynamic s (child_path pre (fst kv)) of Some e \<Rightarrow> getterValue E e
             | None \<Rightarrow> applyGetters E s (child_path pre (fst kv)) (snd kv))" if "kv \<in> set m" for kv
        using that "1.prems" "1.IH"(2,3) [OF n VMap that refl] VMap
        by (auto simp: list_all_iff getterValue_canonical split: option.split)
      show ?thesis using F "1.prems" each unfolding VMap
        by (subst applyGetters.simps) (simp add: list_all_iff Let_def comp_def)
    next
      case (VList xs)
      have "canonical (case x of VMap im \<Rightarrow> applyGetters E s (set_last_keys pre (keysForItem E im)) x | _ \<Rightarrow> x)" if "x \<in> set xs" for x
      proof -
        have "canonical x" using that "1.prems" VList by (simp add: list_all_iff)
        then show ?thesis using "1.IH"(1) [OF n VList that] by (cases x) (simp_all del: canonical.simps)
      qed
      then show ?thesis using F "1.prems" unfolding VList by (subst applyGetters.simps) (simp add: list_all_iff)
    qed (use F "1.prems" in \<open>auto simp: applyGetters.simps\<close>)
  qed
qed

lemma materializeRoot_ok: "node_ok n \<Longrightarrow> canonical (VMap (materializeRoot E n))"
proof -
  assume "node_ok n"
  then have "canonical (VMap (clone_map E (root_map n)))" using clone_map_canonical canonical_go_val by blast
  from applyGetters_canonical [OF this, of E "n_schema n" "Path [] []"] show ?thesis
    by (cases "applyGetters E (n_schema n) (Path [] []) (VMap (clone_map E (root_map n)))") (simp_all add: materializeRoot_def)
qed

lemma Get_root_ok: "handle_ok h \<Longrightarrow> Get E c h st [] = Inr n \<Longrightarrow> node_ok n"
  using store_ok [of h st] materializeRoot_ok
  by (auto simp: Get_def ParsePath_empty Subtree_def IsRoot_def root_map_def simp del: canonical.simps split: option.splits sum.splits)

lemma replace_all_ok: "node_ok n \<Longrightarrow> call_ok (CEdit st (replace_all (node_Map E n)))"
  using clone_map_canonical [OF canonical_go_val, of "root_map n" E] canonical_go_val
  by (auto simp: replace_all_def edit_ok_def node_Map_def simp del: canonical.simps go_val.simps)

lemma ds_result_profile: "ds_result E h c x = Inr h' \<Longrightarrow> h_profile h' = h_profile h"
proof (cases "x = CCommit")
  case True
  moreover assume "ds_result E h c x = Inr h'"
  ultimately show ?thesis using CCommit_Inr Commit_Inr by fastforce
next
  case False
  moreover assume "ds_result E h c x = Inr h'"
  ultimately show ?thesis by (cases x) (auto dest!: ds_Inr)
qed

lemma ds_reach_profile: "ds_reach E h h' \<Longrightarrow> h_profile h' = h_profile h"
  by (induction rule: ds_reach.induct) (auto dest: ds_result_profile)

lemma ds_reach_one: "call_ok x \<Longrightarrow> ds_result E h c x = Inr h' \<Longrightarrow> ds_reach E h h'"
  by (rule ds_reach.call [OF ds_reach.start])

lemma setStartup_reach:
  assumes "handle_ok h" and "go_val (VMap overlay)" and "setStartup E c h overlay = (h', err)"
  shows "ds_reach E h h'"
proof -
  have edit: "ds_reach E h0 h1" if "node_ok n" "Edit E c h0 Candidate (replace_all (node_Map E n)) = Inr h1" for n h0 h1
    using ds_reach_one [OF replace_all_ok [OF that(1)]] that(2) by simp
  have reach_trans: "ds_reach E h x \<Longrightarrow> call_ok d \<Longrightarrow> ds_result E x c d = Inr y \<Longrightarrow> ds_reach E h y" for x y d
    by (rule ds_reach.call)
  show ?thesis
  proof (cases "Get E c h Startup []")
    case (Inr cur)
    show ?thesis
    proof (cases "Apply E (Some (node_Clone E cur)) OpMerge [] (EVal (VMap overlay))")
      case A: (Inr tmp)
      have tmp: "node_ok tmp"
        using Apply_safe [OF A clone_ok [OF Get_root_ok [OF assms(1) Inr]]] assms(2) by (simp add: edit_ok_def)
      show ?thesis
      proof (cases "Get E c h Candidate []")
        case P: (Inr prev)
        note prev = Get_root_ok [OF assms(1) P]
        show ?thesis
        proof (cases "Edit E c h Candidate (replace_all (node_Map E tmp))")
          case 1: (Inr h1)
          have r1: "ds_reach E h h1" by (rule edit [OF tmp 1])
          have again: "ds_reach E h y" if "ds_reach E h x" "Edit E c x Candidate (replace_all (node_Map E prev)) = Inr y" for x y
            using reach_trans [OF that(1) replace_all_ok [OF prev]] that(2) by simp
          have copy: "ds_reach E h y" if "Copy E c h1 Candidate Startup = Inr y" for y
            using reach_trans [OF r1, of "CCopy Candidate Startup"] that by simp
          show ?thesis using assms(3) Inr A P 1 r1 again copy
            by (auto simp: setStartup_def split: sum.splits)
        qed (use assms(3) Inr A P in \<open>simp add: setStartup_def ds_reach.start\<close>)
      qed (use assms(3) Inr A in \<open>simp add: setStartup_def ds_reach.start\<close>)
    qed (use assms(3) Inr in \<open>simp add: setStartup_def ds_reach.start\<close>)
  qed (use assms(3) in \<open>simp add: setStartup_def ds_reach.start\<close>)
qed

section \<open>The invariant\<close>

definition app_ok :: "golib \<Rightarrow> app \<Rightarrow> bool" where
  "app_ok E a \<longleftrightarrow> (\<exists>s b. ss_active (ap_snaps a) = Some s \<and> ss_bootstrap (ap_snaps a) = Some b
     \<and> snap_ok E s \<and> sn_bootstrapRevision s = sn_revision b \<and> sn_revision b \<noteq> [] \<and> sn_revision s \<noteq> []
     \<and> profile_table s a \<and> user_table s a)
   \<and> (\<exists>ps. rep (ap_idemp a) ps) \<and> 0 < ic_max (ap_idemp a)"

text \<open>Only these parts of the state matter to it.\<close>

lemma app_ok_cong:
  assumes "app_ok E a" and "ap_snaps b = ap_snaps a" and "ap_idemp b = ap_idemp a"
    and "ap_profileHandles b = ap_profileHandles a" and "ap_userHandles b = ap_userHandles a"
    and "ap_next b = ap_next a"
    and "\<And>r. handle_ok (ap_heap a r) \<Longrightarrow> handle_ok (ap_heap b r) \<and> h_profile (ap_heap b r) = h_profile (ap_heap a r)
      \<and> n_schema (h_running (ap_heap b r)) = n_schema (h_running (ap_heap a r))"
  shows "app_ok E b"
proof -
  have slot: "slot_ok a p r \<Longrightarrow> slot_ok b p r" for p r using assms(6,7) by (simp add: slot_ok_def)
  have "profile_table s a \<Longrightarrow> profile_table s b" "user_table s a \<Longrightarrow> user_table s b" for s
    using slot unfolding profile_table_def user_table_def assms(4,5) by blast+
  then show ?thesis using assms(1) unfolding app_ok_def assms(2,3) by blast
qed

lemma recordAudit_frame [simp]:
  "ap_snaps (recordAudit J clock act ev a) = ap_snaps a" "ap_idemp (recordAudit J clock act ev a) = ap_idemp a"
  "ap_notif (recordAudit J clock act ev a) = ap_notif a" "ap_heap (recordAudit J clock act ev a) = ap_heap a"
  "ap_next (recordAudit J clock act ev a) = ap_next a" "ap_profileHandles (recordAudit J clock act ev a) = ap_profileHandles a"
  "ap_userHandles (recordAudit J clock act ev a) = ap_userHandles a" "ap_resetHooks (recordAudit J clock act ev a) = ap_resetHooks a"
  "ap_applyHooks (recordAudit J clock act ev a) = ap_applyHooks a" "ap_bootstrapPath (recordAudit J clock act ev a) = ap_bootstrapPath a"
  by (simp_all add: recordAudit_def Let_def split: option.split)

lemma app_ok_handle:
  assumes "app_ok E a" and "ds_reach E (ap_heap a r) h'"
  shows "app_ok E (set_handle r h' a)"
  by (rule app_ok_cong [OF assms(1)]) (use ds_reach_ok [OF assms(2)] ds_reach_profile [OF assms(2)] in \<open>auto simp: set_handle_def\<close>)

lemma app_ok_audit: "app_ok E a \<Longrightarrow> app_ok E (recordAudit J clock act ev a)"
  by (rule app_ok_cong) simp_all

lemma app_ok_notif: "app_ok E a \<Longrightarrow> app_ok E (a\<lparr>ap_notif := x\<rparr>)"
  by (rule app_ok_cong) simp_all

lemma app_ok_cache: "app_ok E a \<Longrightarrow> implements x (ic_max (ap_idemp a)) xs \<Longrightarrow> app_ok E (a\<lparr>ap_idemp := x\<rparr>)"
  by (auto simp: app_ok_def implements_def profile_table_def user_table_def slot_ok_def)

section \<open>Plan and apply\<close>

lemma buildCandidate_parts:
  assumes "buildCandidate E K clock a opers expectedRev requireRev = Inr cand"
  obtains copied st where "ss_active (ap_snaps a) = Some (cd_prev cand)"
    "requireRev \<longrightarrow> expectedRev \<noteq> [] \<and> expectedRev = sn_revision (cd_prev cand)" "cd_ops cand = opers"
    "app_cloneState E K (sn_canonical (cd_prev cand)) = Inr copied" "applyOperations (Some copied) opers = Inr st"
    "rejectResetOnly (sn_canonical (cd_prev cand)) (Some st) = None"
    "compileCandidate E K clock st (Some (cd_prev cand)) = Inr (cd_next cand)"
    "diffStates E K (sn_canonical (cd_prev cand)) (sn_canonical (cd_next cand)) = Inr (cd_diff cand)"
  using assms unfolding buildCandidate_def active_def by (auto split: option.splits sum.splits if_splits)

lemma Revision_given: "Revision E K st = Inr r \<Longrightarrow> r \<noteq> []"
  by (auto simp: Revision_def split: sum.splits)

lemma compiled_revisions:
  assumes "compiler_Compile E K clock st opts = Inr snap"
  shows "sn_revision snap \<noteq> []" "sn_generation snap = co_generation opts"
    "sn_bootstrapRevision snap = (if co_bootstrapRevision opts = [] then sn_revision snap else co_bootstrapRevision opts)"
proof -
  from assms obtain n where n: "Revision E K (Some n) = Inr (sn_revision snap)" "sn_generation snap = co_generation opts"
    "sn_bootstrapRevision snap = (if co_bootstrapRevision opts = [] then sn_revision snap else co_bootstrapRevision opts)"
    by (rule compile_parts)
  from n Revision_given show "sn_revision snap \<noteq> []" "sn_generation snap = co_generation opts"
    "sn_bootstrapRevision snap = (if co_bootstrapRevision opts = [] then sn_revision snap else co_bootstrapRevision opts)" by blast+
qed

text \<open>Installing a snapshot.\<close>

definition outside :: "app \<Rightarrow> snap_store \<times> idemp_cache \<times> notif_sys \<times> fanout option \<times> nat list \<times> nat list \<times> string" where
  "outside a = (ap_snaps a, ap_idemp a, ap_notif a, ap_audit a, ap_applyHooks a, ap_resetHooks a, ap_bootstrapPath a)"

lemma alloc_outside [simp]: "outside (fst (alloc h a)) = outside a"
  by (simp add: outside_def alloc_def)

lemma sync_profiles_outside: "outside (fst (sync_profiles E q ps x m l)) = outside x"
  by (induction ps arbitrary: x m l) (simp_all add: sync_profiles_Cons del: sync_profiles.simps(2) split: option.split)

lemma sync_users_outside: "outside (fst (sync_users E q n pm rb us x m)) = outside x"
proof (induction us arbitrary: x m)
  case (Cons u us)
  then show ?case using alloc_outside by (auto simp: Let_def split_def split: option.split)
qed simp

lemma syncHandles_outside: "outside (syncHandles E prev new a) = outside a"
proof (cases new)
  case (Some n)
  obtain a1 pm rb a2 um where sp: "sync_profiles E (same_mode prev n) (sn_profiles n) a [] [] = (a1, pm, rb)"
    and su: "sync_users E (same_mode prev n) n pm rb (sn_users n) a1 [] = (a2, um)"
    and b: "syncHandles E prev (Some n) a = a2\<lparr>ap_profileHandles := pm, ap_userHandles := um\<rparr>" by (rule syncHandles_cases)
  have "outside a2 = outside a"
    using sync_profiles_outside [of E "same_mode prev n" "sn_profiles n" a "[]" "[]"]
      sync_users_outside [of E "same_mode prev n" n pm rb "sn_users n" a1 "[]"] sp su by simp
  then show ?thesis by (simp add: Some b outside_def)
qed (simp add: syncHandles_def outside_def)

lemma syncHandles_frame [simp]:
  "ap_snaps (syncHandles E prev new a) = ap_snaps a" "ap_idemp (syncHandles E prev new a) = ap_idemp a"
  "ap_notif (syncHandles E prev new a) = ap_notif a" "ap_audit (syncHandles E prev new a) = ap_audit a"
  "ap_applyHooks (syncHandles E prev new a) = ap_applyHooks a" "ap_resetHooks (syncHandles E prev new a) = ap_resetHooks a"
  "ap_bootstrapPath (syncHandles E prev new a) = ap_bootstrapPath a"
  using syncHandles_outside [of E prev new a] by (simp_all add: outside_def)

lemma tables_snaps [simp]:
  "profile_table s (a\<lparr>ap_snaps := x\<rparr>) = profile_table s a" "user_table s (a\<lparr>ap_snaps := x\<rparr>) = user_table s a"
  "profile_table s (a\<lparr>ap_idemp := y\<rparr>) = profile_table s a" "user_table s (a\<lparr>ap_idemp := y\<rparr>) = user_table s a"
  by (simp_all add: profile_table_def user_table_def slot_ok_def)

lemma app_ok_install:
  assumes "snap_ok E n" and "\<And>s. prev = Some s \<Longrightarrow> snap_ok E s \<and> profile_table s a \<and> user_table s a"
    and "ss_active (ap_snaps a) = Some n" and "ss_bootstrap (ap_snaps a) = Some b"
    and "sn_bootstrapRevision n = sn_revision b" and "sn_revision b \<noteq> []" and "sn_revision n \<noteq> []"
    and "\<exists>ps. rep (ap_idemp a) ps" and "0 < ic_max (ap_idemp a)"
  shows "app_ok E (syncHandles E prev (Some n) a)"
  using syncHandles_tables [OF assms(1,2)] assms by (auto simp: app_ok_def)

lemma apply_new_ok:
  assumes "trip_ok E K" and "app_ok E a" and "buildCandidate E K clock a opers expectedRev True = Inr cand"
  shows "app_ok E (fst (apply_new E K J clock act a cand key fp))"
proof -
  from assms(3) obtain copied st where c: "ss_active (ap_snaps a) = Some (cd_prev cand)"
      "compileCandidate E K clock st (Some (cd_prev cand)) = Inr (cd_next cand)" by (rule buildCandidate_parts)
  from assms(2) c(1) obtain b where a: "ss_bootstrap (ap_snaps a) = Some b" "snap_ok E (cd_prev cand)"
      "sn_bootstrapRevision (cd_prev cand) = sn_revision b" "sn_revision b \<noteq> []"
      "profile_table (cd_prev cand) a" "user_table (cd_prev cand) a" "\<exists>ps. rep (ap_idemp a) ps" "0 < ic_max (ap_idemp a)"
    by (auto simp: app_ok_def)
  note r = compiled_revisions [OF c(2) [unfolded compileCandidate_def]]
  let ?a = "a\<lparr>ap_snaps := fst (Swap (ap_snaps a) (Some (cd_next cand)))\<rparr>"
  have "app_ok E (syncHandles E (Some (cd_prev cand)) (Some (cd_next cand)) ?a)"
    by (rule app_ok_install [where b = b])
      (use compiled_snap_ok [OF assms(1) c(2) [unfolded compileCandidate_def]] a c(1) r in \<open>auto simp: Swap_def Let_def\<close>)
  from app_ok_audit [OF this] have ok: "app_ok E (recordAudit J clock act ev (syncHandles E (Some (cd_prev cand)) (Some (cd_next cand)) ?a))" for ev .
  from a(7) obtain ps where "rep (ap_idemp a) ps" ..
  note store = store_refines [OF this]
  have "app_ok E ((recordAudit J clock act ev (syncHandles E (Some (cd_prev cand)) (Some (cd_next cand)) ?a))\<lparr>ap_idemp := storeApply (ap_idemp a) key fp r\<rparr>)" for ev r
    by (rule app_ok_cache [OF ok]) (use store in simp)
  then show ?thesis by (simp add: apply_new_def Let_def split_def)
qed

lemma app_ok_rep: "app_ok E a \<Longrightarrow> \<exists>ps. rep (ap_idemp a) ps"
  by (simp add: app_ok_def)

lemma implements_max: "implements c mx xs \<Longrightarrow> ic_max c = mx"
  by (auto simp: implements_def)

lemma lookup_cache_ok:
  assumes "app_ok E a" and "idemp_lookup (ap_idemp a) key fp = (cache, found)"
  shows "app_ok E (a\<lparr>ap_idemp := cache\<rparr>)"
proof -
  from app_ok_rep [OF assms(1)] obtain ps where "rep (ap_idemp a) ps" ..
  from lookup_refines [OF this, of key fp] assms(2)
  have "implements cache (ic_max (ap_idemp a)) (lru_lookup (abs_of (ap_idemp a) ps) key fp)" by simp
  with assms(1) show ?thesis by (rule app_ok_cache)
qed

lemma forget_ok: "app_ok E a \<Longrightarrow> app_ok E (forgetIdempOnConflict key err a)"
proof -
  assume a: "app_ok E a"
  from app_ok_rep [OF a] obtain ps where "rep (ap_idemp a) ps" ..
  from app_ok_cache [OF a evict_refines [OF this]] a show ?thesis
    by (simp add: forgetIdempOnConflict_def split: option.split)
qed

lemma applyLocked_ok:
  assumes "trip_ok E K" and "app_ok E a"
  shows "app_ok E (fst (applyLocked E K J clock act a opers expectedRev key))"
proof (cases "key = [] \<or> (\<exists>err. fingerprintOps K opers = Inl err)")
  case True
  with assms(2) show ?thesis by (auto simp: applyLocked_def)
next
  case False
  then obtain fp where fp: "key \<noteq> []" "fingerprintOps K opers = Inr fp" by (cases "fingerprintOps K opers") auto
  obtain cache found where l: "idemp_lookup (ap_idemp a) key fp = (cache, found)" by fastforce
  note ok = lookup_cache_ok [OF assms(2) l] and new = apply_new_ok [OF assms(1) lookup_cache_ok [OF assms(2) l]]
  show ?thesis
  proof (cases "\<exists>hit. found = Inr hit \<and> Option.bind hit (\<lambda>e. cloneApply (ie_apply (ic_heap cache e))) = None")
    case True
    with fp l ok new forget_ok [OF ok] show ?thesis
      by (auto simp: applyLocked_def split_def Let_def split: sum.split)
  next
    case False
    with fp l ok show ?thesis by (auto simp: applyLocked_def split_def Let_def split: sum.splits option.splits)
  qed
qed

lemma install_reset_ok:
  assumes "snap_ok E n" and "sn_bootstrapRevision n = sn_revision n" and "sn_revision n \<noteq> []" and "0 < ic_max (ap_idemp a)"
  shows "app_ok E (install_reset E J clock act a n)"
proof -
  let ?a = "a\<lparr>ap_snaps := SetBootstrap (fst (Swap (ap_snaps a) (Some n))) (Some n)\<rparr>"
  let ?b = "rebuildHandles E (Some n) ?a"
  have t: "profile_table n ?b" "user_table n ?b"
    unfolding rebuildHandles_def using syncHandles_tables [OF assms(1), of None] by simp_all
  have i: "implements (clear (ap_idemp a)) (ic_max (ap_idemp a)) []" by (rule clear_refines)
  have f: "ap_snaps ?b = SetBootstrap (fst (Swap (ap_snaps a) (Some n))) (Some n)" "ap_idemp ?b = ap_idemp a"
    by (simp_all add: rebuildHandles_def)
  have sn: "ss_active (ap_snaps ?b) = Some n" "ss_bootstrap (ap_snaps ?b) = Some n"
    unfolding f by (simp_all add: SetBootstrap_def Swap_def Let_def)
  obtain ps where "rep (clear (ap_idemp a)) ps" "ic_max (clear (ap_idemp a)) = ic_max (ap_idemp a)" using i by (auto simp: implements_def)
  with sn t assms f(2) have "app_ok E (?b\<lparr>ap_idemp := clear (ap_idemp ?b)\<rparr>)"
    unfolding app_ok_def tables_snaps by auto
  from app_ok_audit [OF app_ok_notif [OF this]] show ?thesis
    by (simp add: install_reset_def Let_def)
qed

lemma loadBootstrap_compiled:
  assumes "loadBootstrapCandidate E K clock stat a gen = Some (Inr new)"
  obtains st where "compiler_Compile E K clock (Some st) (gen_opts gen) = Inr new"
  using assms unfolding loadBootstrapCandidate_def
  by (auto split: if_splits stat.splits option.splits sum.splits)

lemma resetLocked_ok:
  assumes "trip_ok E K" and "app_ok E a" and "resetLocked E K J clock stat act a = Some (a', r)"
  shows "app_ok E a'"
proof -
  define gen where "gen = (case ss_active (ap_snaps a) of None \<Rightarrow> 0 | Some s \<Rightarrow> sn_generation s + 1)"
  have r: "(case loadBootstrapCandidate E K clock stat a gen of None \<Rightarrow> None | Some (Inl err) \<Rightarrow> Some (a, Inl err)
     | Some (Inr new) \<Rightarrow> (let x = install_reset E J clock act a new in Some (x, Inr (ap_resetHooks x)))) = Some (a', r)"
    using assms(3) unfolding resetLocked_def gen_def Let_def .
  have "a' = a \<or> (\<exists>new. loadBootstrapCandidate E K clock stat a gen = Some (Inr new) \<and> a' = install_reset E J clock act a new)"
    using r by (cases "loadBootstrapCandidate E K clock stat a gen") (auto simp: Let_def split: sum.splits)
  then consider "a' = a" | new where "loadBootstrapCandidate E K clock stat a gen = Some (Inr new)" "a' = install_reset E J clock act a new"
    by blast
  then show ?thesis
  proof cases
    case 1
    with assms(2) show ?thesis by simp
  next
    case 2
    from 2(1) obtain st where c: "compiler_Compile E K clock (Some st) (gen_opts gen) = Inr new" by (rule loadBootstrap_compiled)
    have "0 < ic_max (ap_idemp a)" using assms(2) by (simp add: app_ok_def)
    with install_reset_ok [OF compiled_snap_ok [OF assms(1) c]] compiled_revisions [OF c] 2(2) show ?thesis by (simp add: gen_opts_def)
  qed
qed

section \<open>The reachable states\<close>

text \<open>What the JSON reader returns can be written again: it makes no value of a type JSON does not have.\<close>

definition reads_json :: "cfglib \<Rightarrow> bool" where
  "reads_json K \<longleftrightarrow> (\<forall>raw v trailing. cf_json_read K raw = Inr (v, trailing) \<longrightarrow> marshals v)"

lemma decodeOverlay_go_val:
  assumes "trip_ok E K" and "reads_json K" and "decodeOverlay E K overlay = Inr tree"
  shows "go_val (VMap tree)"
proof (cases "tree = []")
  case False
  with assms(3) obtain m tr where m: "cf_json_read K overlay = Inr (VMap m, tr)" "unmarshals E (VMap m)" "tree = json_kvs E K m"
    unfolding decodeOverlay_def Let_def by (simp split: if_splits sum.splits prod.splits val.splits)
  with assms(2) have "marshals (VMap m)" by (auto simp: reads_json_def simp del: marshals.simps)
  from json_val_normal [OF assms(1) this m(2)] have "val_normal (VMap tree)" by (simp add: m(3) json_kvs_VMap del: json_val.simps val_normal.simps)
  then show ?thesis by (intro canonical_go_val val_normal_canonical)
qed simp

text \<open>
  One call on the service. A session of a user works on the user's handle directly; the parked
  waits and the hooks are also part of the state.
\<close>

inductive app_step :: "golib \<Rightarrow> cfglib \<Rightarrow> jsonlib \<Rightarrow> app \<Rightarrow> app \<Rightarrow> bool" for E K J where
  apply_call: "app_Apply E K J clock c act a opers expectedRev key = (a', r) \<Longrightarrow> app_step E K J a a'"
| reset_call: "app_Reset E K J clock stat c act a = Some (a', r) \<Longrightarrow> app_step E K J a a'"
| set_call: "SetDatastore E K J clock c act a profile st overlay = (a', err) \<Longrightarrow> app_step E K J a a'"
| commit_call: "app_Commit E J clock i c act a profile = (a', err) \<Longrightarrow> app_step E K J a a'"
| discard_call: "app_Discard E J clock c act a profile = (a', err) \<Longrightarrow> app_step E K J a a'"
| clear_call: "ClearNotifications J clock c act a = (a', err) \<Longrightarrow> app_step E K J a a'"
| session_call: "UserDatastore (Some a) user = Some r \<Longrightarrow> call_ok x \<Longrightarrow> ds_result E (ap_heap a r) c x = Inr h \<Longrightarrow>
    app_step E K J a (set_handle r h a)"
| notif_call: "app_step E K J a (a\<lparr>ap_notif := notif_step (ap_notif a) oper\<rparr>)"
| reset_hook: "app_step E K J a (OnReset a f)"
| apply_hook: "app_step E K J a (OnApply a f)"

inductive app_reach :: "golib \<Rightarrow> cfglib \<Rightarrow> jsonlib \<Rightarrow> app \<Rightarrow> app \<Rightarrow> bool" for E K J a where
  start: "app_reach E K J a a"
| call: "app_reach E K J a b \<Longrightarrow> app_step E K J b b' \<Longrightarrow> app_reach E K J a b'"

lemma profile_table_slot:
  assumes "profile_table s a" and "map_of (ap_profileHandles a) name = Some r"
  obtains p where "p \<in> set (sn_profiles s)" "sf_name p = name" "slot_ok a p r"
proof -
  have "name \<in> dom (map_of (ap_profileHandles a))" using assms(2) by blast
  then obtain p where p: "p \<in> set (sn_profiles s)" "sf_name p = name" using assms(1) by (auto simp: profile_table_def)
  with assms have "slot_ok a p r" by (auto simp: profile_table_def)
  with p that show thesis by blast
qed

lemma profile_handle_ok: "app_ok E a \<Longrightarrow> map_of (ap_profileHandles a) name = Some r \<Longrightarrow> handle_ok (ap_heap a r)"
  unfolding app_ok_def using profile_table_slot by (metis slot_ok_def)

lemma SetDatastore_ok:
  assumes "trip_ok E K" and "reads_json K" and "app_ok E a"
  shows "app_ok E (fst (SetDatastore E K J clock c act a profile st overlay))"
proof -
  have one: "ds_reach E h (fst (case ds_result E h c x of Inl err \<Rightarrow> (h, Some err) | Inr h' \<Rightarrow> (h', None)))" if "call_ok x" for h x
    using ds_reach_one [OF that] by (simp add: ds_reach.start split: sum.split)
  have reach: "ds_reach E h (fst (if name = Candidate then (case Edit E c h Candidate oper of Inl err \<Rightarrow> (h, Some err) | Inr h' \<Rightarrow> (h', None))
      else if name = Running then (case WriteRunningIfCandidateClean E c h oper of Inl err \<Rightarrow> (h, Some err) | Inr h' \<Rightarrow> (h', None))
      else setStartup E c h tree))"
    if "handle_ok h" "go_val (VMap tree)" "edit_ok (eo_value oper)" for h name oper tree
    using one [of "CEdit Candidate oper" h] one [of "CWrite oper" h] that setStartup_reach [OF that(1,2), of E c] by (simp add: prod_eq_iff)
  show ?thesis
  proof (cases "ctx_err c = None \<and> (\<exists>r name tree. handleForProfile a profile = Inr r \<and> storeName st = Inr name \<and> decodeOverlay E K overlay = Inr tree)")
    case False
    with assms(3) show ?thesis by (auto simp: SetDatastore_def split: option.split sum.split)
  next
    case True
    then obtain r name tree where t: "ctx_err c = None" "handleForProfile a profile = Inr r" "storeName st = Inr name" "decodeOverlay E K overlay = Inr tree"
      by blast
    let ?oper = "\<lparr>eo_op = OpMerge, eo_path = [], eo_value = EVal (VMap tree)\<rparr>"
    let ?w = "if name = Candidate then (case Edit E c (ap_heap a r) Candidate ?oper of Inl err \<Rightarrow> (ap_heap a r, Some err) | Inr h' \<Rightarrow> (h', None))
      else if name = Running then (case WriteRunningIfCandidateClean E c (ap_heap a r) ?oper of Inl err \<Rightarrow> (ap_heap a r, Some err) | Inr h' \<Rightarrow> (h', None))
      else setStartup E c (ap_heap a r) tree"
    have "handle_ok (ap_heap a r)"
      using t(2) profile_handle_ok [OF assms(3)] by (auto simp: handleForProfile_def split: if_splits option.splits)
    from reach [OF this decodeOverlay_go_val [OF assms(1,2) t(4)], of ?oper name]
    have "app_ok E (set_handle r (fst ?w) a)"
      using app_ok_handle [OF assms(3)] decodeOverlay_go_val [OF assms(1,2) t(4)] by (simp add: edit_ok_def del: go_val.simps)
    moreover have "fst (SetDatastore E K J clock c act a profile st overlay) = (if snd ?w = None
        then recordAudit J clock act (event_of ''datastore.set'') (set_handle r (fst ?w) a) else set_handle r (fst ?w) a)"
      using t by (simp add: SetDatastore_def Let_def split_def split: option.split)
    ultimately show ?thesis using app_ok_audit by simp
  qed
qed

lemma app_step_ok:
  assumes "app_step E K J a a'" and "trip_ok E K" and "reads_json K" and "app_ok E a"
  shows "app_ok E a'"
  using assms(1)
proof cases
  case (apply_call clock c act opers expectedRev key r)
  then show ?thesis using applyLocked_ok [OF assms(2,4), of J clock act opers expectedRev key] assms(4)
    by (auto simp: app_Apply_def split: option.splits)
next
  case (reset_call clock stat c act r)
  then show ?thesis using resetLocked_ok [OF assms(2,4)] assms(4)
    by (auto simp: app_Reset_def split: option.splits)
next
  case (set_call clock c act profile st overlay err)
  then show ?thesis using SetDatastore_ok [OF assms(2-4), of J clock c act profile st overlay] by simp
next
  case (commit_call clock i c act profile err)
  have "app_ok E (set_handle r h a)" if "Commit E c (ap_heap a r) = Inr (h, ev)" for r h ev
    using app_ok_handle [OF assms(4) ds_reach_one [of CCommit E "ap_heap a r" c h]] that by simp
  with commit_call assms(4) app_ok_audit app_ok_notif show ?thesis
    by (auto simp: app_Commit_def Let_def split: option.splits sum.splits prod.splits)
next
  case (discard_call clock c act profile err)
  have "app_ok E (set_handle r h a)" if "Discard E c (ap_heap a r) = Inr h" for r h
    using app_ok_handle [OF assms(4) ds_reach_one [of CDiscard E "ap_heap a r" c h]] that by simp
  with discard_call assms(4) app_ok_audit show ?thesis
    by (auto simp: app_Discard_def split: option.splits sum.splits)
next
  case (clear_call clock c act err)
  with assms(4) app_ok_audit app_ok_notif show ?thesis by (auto simp: ClearNotifications_def split: option.splits)
next
  case (session_call user r x c h)
  with app_ok_handle [OF assms(4) ds_reach_one] show ?thesis by blast
next
  case (notif_call oper)
  with assms(4) app_ok_notif show ?thesis by blast
next
  case (reset_hook f)
  with app_ok_cong [OF assms(4)] assms(4) show ?thesis by (simp add: OnReset_def split: option.split)
next
  case (apply_hook f)
  with app_ok_cong [OF assms(4)] assms(4) show ?thesis by (simp add: OnApply_def split: option.split)
qed

lemma app_reach_ok: "app_reach E K J a b \<Longrightarrow> trip_ok E K \<Longrightarrow> reads_json K \<Longrightarrow> app_ok E a \<Longrightarrow> app_ok E b"
  by (induction rule: app_reach.induct) (auto dest: app_step_ok)

lemma boot_installs:
  assumes "app_Boot E K clock c opts = Some (Inr a)"
  obtains st snap snaps where "compiler_Compile E K clock (Some st) \<lparr>co_now = None, co_bootstrapRevision = [], co_generation = 0\<rparr> = Inr snap"
    and "ss_active snaps = Some snap" and "ss_bootstrap snaps = Some snap" and "a = app_New E (opts\<lparr>op_snapshots := Some snaps\<rparr>)"
proof -
  from assms obtain st snap where c: "compiler_Compile E K clock (Some st) \<lparr>co_now = None, co_bootstrapRevision = [], co_generation = 0\<rparr> = Inr snap"
    "a = app_New E (opts\<lparr>op_snapshots := Some (fst (InstallBootstrap (case op_snapshots opts of None \<Rightarrow> NewStore | Some s \<Rightarrow> s) (Some snap)))\<rparr>)"
    unfolding app_Boot_def Let_def by (auto split: option.splits if_splits sum.splits)
  show thesis by (rule that [OF c(1) _ _ c(2)]) (simp_all add: InstallBootstrap_def Swap_def SetBootstrap_def Let_def)
qed

lemma app_New_ok:
  assumes "snap_ok E s" and "ss_active snaps = Some s" and "ss_bootstrap snaps = Some s" and "sn_bootstrapRevision s = sn_revision s"
    and "sn_revision s \<noteq> []" and "op_snapshots opts = Some snaps"
  shows "app_ok E (app_New E opts)"
proof -
  have c: "implements (newIdempCache mx) (ic_max (newIdempCache mx)) []" "0 < ic_max (newIdempCache mx)" for mx
    using newIdempCache_implements by (simp_all add: newIdempCache_def)
  then have c': "\<exists>ps. rep (newIdempCache mx) ps" for mx unfolding implements_def by blast
  have "app_ok E (syncHandles E None (Some s) x)" if "ap_snaps x = snaps" "ap_idemp x = newIdempCache mx" for x mx
    by (rule app_ok_install [where b = s]) (use assms c c' that in auto)
  then show ?thesis using assms(2,6) by (simp add: app_New_def rebuildHandles_def Let_def)
qed

lemma app_Boot_ok:
  assumes "trip_ok E K" and "app_Boot E K clock c opts = Some (Inr a)"
  shows "app_ok E a"
proof -
  from assms(2) obtain st snap snaps where b: "compiler_Compile E K clock (Some st) \<lparr>co_now = None, co_bootstrapRevision = [], co_generation = 0\<rparr> = Inr snap"
    "ss_active snaps = Some snap" "ss_bootstrap snaps = Some snap" "a = app_New E (opts\<lparr>op_snapshots := Some snaps\<rparr>)" by (rule boot_installs)
  from app_New_ok [OF compiled_snap_ok [OF assms(1) b(1)] b(2,3)] compiled_revisions [OF b(1)] b(4) show ?thesis by simp
qed

end
