(* ===== verification/App_Handles.thy ===== *)
theory App_Handles
  imports App_Laws
begin

text \<open>
  What a change of snapshot does to the handles, stated without the code's own comparison: when a
  profile is unchanged between two snapshots, what a handle built from a compiled profile holds, and
  which reference every profile and every user of the new snapshot has in the synchronized tables.
\<close>

section \<open>Unchanged profiles\<close>

text \<open>
  Two leaves agree when both read as the same signed number, else the same unsigned one, else the same
  floating-point one, and when one of them reads as no number, when they are the same value. Maps agree
  when they have as many keys and each key's values agree, lists when they agree one by one.
\<close>

definition same_leaf :: "golib \<Rightarrow> val \<Rightarrow> val \<Rightarrow> bool" where
  "same_leaf E v w \<longleftrightarrow> (\<exists>x. asInt64 E v = Some x \<and> asInt64 E w = Some x)
     \<or> (asInt64 E v = None \<or> asInt64 E w = None) \<and> (\<exists>x. asUint64 E v = Some x \<and> asUint64 E w = Some x)
     \<or> (asInt64 E v = None \<or> asInt64 E w = None) \<and> (asUint64 E v = None \<or> asUint64 E w = None)
         \<and> (\<exists>x y. asFloat64 E v = Some x \<and> asFloat64 E w = Some y \<and> f64_eq x y)
     \<or> (asFloat64 E v = None \<or> asFloat64 E w = None) \<and> go_eq v w"

lemma scalar_same_leaf: "scalar_equal E v w = same_leaf E v w"
proof -
  have f: "asFloat64 E u \<noteq> None" if "asInt64 E u \<noteq> None \<or> asUint64 E u \<noteq> None" for u
    using that by (auto simp: asFloat64_def split: option.split)
  show ?thesis using f [of v] f [of w]
    by (cases "asInt64 E v"; cases "asInt64 E w"; cases "asUint64 E v"; cases "asUint64 E w"; cases "asFloat64 E v"; cases "asFloat64 E w")
      (simp_all add: scalar_equal_def same_leaf_def; blast)+
qed

inductive agree :: "golib \<Rightarrow> val \<Rightarrow> val \<Rightarrow> bool" for E where
  agree_maps: "length m = length n \<Longrightarrow> (\<And>k v. (k, v) \<in> set m \<Longrightarrow> agree E v (case map_of n k of None \<Rightarrow> VNil | Some w \<Rightarrow> w)) \<Longrightarrow> agree E (VMap m) (VMap n)"
| agree_lists: "list_all2 (agree E) xs ys \<Longrightarrow> agree E (VList xs) (VList ys)"
| agree_leaves: "v \<notin> range VMap \<union> range VList \<Longrightarrow> w \<notin> range VMap \<union> range VList \<Longrightarrow> same_leaf E v w \<Longrightarrow> agree E v w"

inductive_simps agree_map: "agree E (VMap m) w"
inductive_simps agree_list: "agree E (VList xs) w"
inductive_cases agree_leafE: "agree E v w"

definition leaf :: "val \<Rightarrow> bool" where
  "leaf v \<longleftrightarrow> v \<notin> range VMap \<union> range VList"

lemma equal_leaf:
  assumes "leaf v" and "canonical v" and "canonical w"
  shows "equal E v w = agree E v w"
proof -
  have m: "asMap E v = None" "asSlice v = None"
    using assms(1,2) by (cases v; auto simp: leaf_def asMap_def asSlice_def)+
  have "\<not> scalar_equal E v w" if nl: "\<not> leaf w"
  proof -
    from nl obtain n ys where w: "w = VMap n \<or> w = VList ys" by (auto simp: leaf_def)
    then have "asInt64 E w = None" "asUint64 E w = None" "asFloat64 E w = None"
      by (auto simp: asInt64_def asUint64_def asFloat64_def)
    moreover have "\<not> go_eq v w" using w assms(1) by (auto simp: go_eq_def leaf_def split: val.splits)
    ultimately show ?thesis by (simp add: scalar_equal_def split: option.split)
  qed
  moreover have "equal E v w = scalar_equal E v w" by (subst equal.simps) (simp add: m)
  ultimately show ?thesis using assms(1) by (auto simp: leaf_def scalar_same_leaf intro: agree_leaves elim!: agree_leafE)
qed

text \<open>The comparison of the trees decides it.\<close>

lemma equal_agree: "canonical a \<Longrightarrow> canonical b \<Longrightarrow> equal E a b = agree E a b"
proof (induction a arbitrary: b rule: val_induct)
  case (list xs)
  show ?case
  proof (cases b)
    case (VList ys)
    have "list_all2 (equal E) xs ys = list_all2 (agree E) xs ys"
      using list VList by (intro list.rel_cong refl) (auto simp: list_all_iff)
    then show ?thesis by (subst equal.simps) (simp add: VList agree_list asMap_def asSlice_def list_all2_iff list_all_iff split_beta)
  qed (use list.prems in \<open>subst equal.simps; auto simp: agree_list asMap_def asSlice_def\<close>)+
next
  case (map m)
  show ?case
  proof (cases b)
    case (VMap n)
    have c: "canonical (kv_nil n k)" for k
      using map.prems(2) VMap by (auto simp: kv_nil_def list_all_iff split: option.split dest: map_of_SomeD)
    have "equal E v (kv_nil n k) = agree E v (kv_nil n k)" if "(k, v) \<in> set m" for k v
      using map.IH [OF that _ c] map.prems(1) that by (force simp: list_all_iff)
    then have "list_all (\<lambda>kv. equal E (snd kv) (kv_nil n (fst kv))) m \<longleftrightarrow> (\<forall>k v. (k, v) \<in> set m \<longrightarrow> agree E v (kv_nil n k))"
      by (auto simp: list_all_iff)
    then show ?thesis by (subst equal.simps) (simp add: VMap agree_map kv_nil_def)
  qed (use map.prems in \<open>subst equal.simps; auto simp: agree_map asMap_def asSlice_def\<close>)+
qed (simp_all add: equal_leaf leaf_def image_iff)

text \<open>The old snapshot has the profile with the same schema leaves, agreeing instance trees, and an
  agreeing start-up tree in both or in neither.\<close>

definition unchanged_profile :: "golib \<Rightarrow> snapshot \<Rightarrow> sprofile \<Rightarrow> bool" where
  "unchanged_profile E s p \<longleftrightarrow> (\<exists>old \<in> set (sn_profiles s). sf_name old = sf_name p \<and> sf_schema old = sf_schema p
     \<and> agree E (VMap (root_map (sf_running old))) (VMap (root_map (sf_running p)))
     \<and> (IsZero (sf_startup old) \<longleftrightarrow> IsZero (sf_startup p))
     \<and> agree E (VMap (root_map (sf_startup old))) (VMap (root_map (sf_startup p))))"

section \<open>New handles\<close>

text \<open>A handle with the trees of a compiled profile, no lock and no commit: without a start-up tree of its
  own the start-up datastore holds the instance tree too.\<close>

definition fresh_from :: "sprofile \<Rightarrow> handle \<Rightarrow> bool" where
  "fresh_from p h \<longleftrightarrow> h_profile h = sf_name p \<and> h_locks h = [] \<and> h_gen h = 0 \<and> h_sink h
     \<and> n_schema (h_running h) = n_schema (sf_running p) \<and> root_map (h_running h) = root_map (sf_running p)
     \<and> h_candidate h = h_running h
     \<and> (if IsZero (sf_startup p) then h_startup h = h_running h
        else n_schema (h_startup h) = n_schema (sf_startup p) \<and> root_map (h_startup h) = root_map (sf_startup p))"

lemma new_handle_fresh:
  assumes "sprofile_ok p"
  shows "fresh_from p (new_handle E p)"
proof -
  have c: "clone_map E (root_map n) = root_map n" if "node_ok n" for n
    using clone_id [OF that] by (simp add: clone_map_def asMap_def)
  have "node_Clone E (node_Clone E n) = node_Clone E n" if "node_ok n" for n
    by (simp add: node_Clone_def root_map_def [of "\<lparr>n_schema = x, n_root = y\<rparr>" for x y] c [OF that])
  with assms c show ?thesis
    by (auto simp: fresh_from_def new_handle_def ds_New_def Let_def sprofile_ok_def node_Clone_def root_map_def [of "\<lparr>n_schema = x, n_root = y\<rparr>" for x y]
       IsZero_def)
qed

text \<open>The comparison of the compiled profiles decides whether a profile is unchanged.\<close>

lemma compile_equal_unchanged:
  assumes "snap_ok E s" and "snap_ok E n" and "p \<in> set (sn_profiles n)"
  shows "profileCompileEqual E s p = unchanged_profile E s p"
proof -
  have d: "ProfileNamed (Some s) (sf_name p) = Some old \<longleftrightarrow> old \<in> set (sn_profiles s) \<and> sf_name old = sf_name p" for old
    using ProfileNamed_SomeD ProfileNamed_in [OF assms(1)] by metis
  note p = snap_profile_ok [OF assms(2,3)]
  have z: "canonical (VMap (root_map m))" if "IsZero m \<or> node_ok m" for m
    using that by (auto simp: IsZero_def root_map_def)
  have e: "agree E (VMap (root_map m)) (VMap (root_map m'))" if "IsZero m" "IsZero m'" for m m'
    using that by (auto simp: IsZero_def root_map_def agree_map)
  have eq: "node_Equal E (sf_running old) (sf_running p) = agree E (VMap (root_map (sf_running old))) (VMap (root_map (sf_running p)))"
    "node_Equal E (sf_startup old) (sf_startup p) = agree E (VMap (root_map (sf_startup old))) (VMap (root_map (sf_startup p)))"
    if "old \<in> set (sn_profiles s)" for old
    using snap_profile_ok [OF assms(1) that] p z unfolding node_Equal_def sprofile_ok_def by (metis equal_agree)+
  have one: "profileCompileEqual E s p \<longleftrightarrow> sf_schema old = sf_schema p \<and> agree E (VMap (root_map (sf_running old))) (VMap (root_map (sf_running p)))
      \<and> (IsZero (sf_startup old) \<longleftrightarrow> IsZero (sf_startup p)) \<and> agree E (VMap (root_map (sf_startup old))) (VMap (root_map (sf_startup p)))"
    if "old \<in> set (sn_profiles s)" "sf_name old = sf_name p" for old
  proof -
    have "ProfileNamed (Some s) (sf_name p) = Some old" using d that by simp
    then show ?thesis using eq [OF that(1)] e by (auto simp: profileCompileEqual_def schemaEqual_eq)
  qed
  show ?thesis
  proof (cases "ProfileNamed (Some s) (sf_name p)")
    case None
    then have "old \<in> set (sn_profiles s) \<Longrightarrow> sf_name old \<noteq> sf_name p" for old using d by (metis option.distinct(1))
    then show ?thesis using None by (auto simp: profileCompileEqual_def unchanged_profile_def)
  next
    case (Some old)
    then have o: "old \<in> set (sn_profiles s)" "sf_name old = sf_name p" using d by simp_all
    have "old' = old" if "old' \<in> set (sn_profiles s)" "sf_name old' = sf_name p" for old' using that Some d by (metis option.inject)
    with o one [OF o] show ?thesis unfolding unchanged_profile_def by metis
  qed
qed

section \<open>New references\<close>

text \<open>A profile or user that keeps nothing gets a reference that was not allocated before.\<close>

lemma table_below_restrict: "table_below t n \<Longrightarrow> table_below (t |` A) n"
  by (auto simp: table_below_def inj_map_def restrict_map_def split: if_splits)

lemma sync_profiles_new:
  assumes "sync_profiles E prev ps a [] [] = (b, pm, rb)" and "distinct (map sf_name ps)"
    and "prev \<noteq> None \<Longrightarrow> table_below (map_of (ap_profileHandles a)) (ap_next a)"
    and "p \<in> set ps" and "kept_profile E prev (ap_profileHandles a) p = None" and "map_of pm (sf_name p) = Some r"
  shows "ap_next a \<le> r"
proof -
  define A where "A = sf_name ` {q \<in> set ps. kept_profile E prev (ap_profileHandles a) q \<noteq> None}"
  have below: "table_below (map_of (ap_profileHandles a) |` A) (ap_next a)"
  proof (cases prev)
    case None
    then have "A = {}" by (auto simp: A_def kept_profile_def)
    then show ?thesis by (simp add: table_below_empty)
  qed (use assms(3) table_below_restrict in blast)
  have "(map_of (ap_profileHandles a) |` A) (sf_name q) = Some h"
    if "q \<in> set ps" "kept_profile E prev (ap_profileHandles a) q = Some h" for q h
    using that kept_profile_old [OF that(2)] by (auto simp: A_def restrict_map_def)
  from sync_profiles_fresh [OF assms(1) refl this below order_refl] have "grown_from (map_of (ap_profileHandles a) |` A) (ap_next a) (map_of pm) (ap_next b)"
    by (simp add: grown_empty)
  moreover have "sf_name p \<notin> A"
  proof
    assume "sf_name p \<in> A"
    then obtain q where q: "q \<in> set ps" "sf_name p = sf_name q" "kept_profile E prev (ap_profileHandles a) q \<noteq> None" unfolding A_def by blast
    with assms(2,4) have "p = q" unfolding distinct_map inj_on_def by blast
    with q(3) assms(5) show False by simp
  qed
  ultimately show ?thesis using assms(6) unfolding grown_from_def restrict_map_def by (metis option.distinct(1))
qed

lemma sync_users_new:
  assumes "sync_users E prev n pm rb us a [] = (b, um)" and "\<not> sn_shared n" and "distinct (map su_name us)"
    and "\<forall>u \<in> set us. ProfileNamed (Some n) (su_profile u) \<noteq> None"
    and "prev \<noteq> None \<Longrightarrow> table_below (map_of (ap_userHandles a)) (ap_next a)"
    and "u \<in> set us" and "kept_user prev rb (ap_userHandles a) u = None" and "map_of um (su_name u) = Some r"
  shows "ap_next a \<le> r"
proof -
  define A where "A = su_name ` {v \<in> set us. kept_user prev rb (ap_userHandles a) v \<noteq> None}"
  have below: "table_below (map_of (ap_userHandles a) |` A) (ap_next a)"
  proof (cases prev)
    case None
    then have "A = {}" by (auto simp: A_def kept_user_def UserNamed_def)
    then show ?thesis by (simp add: table_below_empty)
  qed (use assms(5) table_below_restrict in blast)
  have "(map_of (ap_userHandles a) |` A) (su_name v) = Some h"
    if "v \<in> set us" "kept_user prev rb (ap_userHandles a) v = Some h" for v h
    using that kept_user_old [OF that(2)] by (auto simp: A_def restrict_map_def)
  from sync_users_spec [OF assms(1-3) refl assms(4) this below order_refl]
  have "grown_from (map_of (ap_userHandles a) |` A) (ap_next a) (map_of um) (ap_next b)" by (simp add: grown_empty)
  moreover have "su_name u \<notin> A"
  proof
    assume "su_name u \<in> A"
    then obtain v where v: "v \<in> set us" "su_name u = su_name v" "kept_user prev rb (ap_userHandles a) v \<noteq> None" unfolding A_def by blast
    with assms(3,6) have "u = v" unfolding distinct_map inj_on_def by blast
    with v(3) assms(7) show False by simp
  qed
  ultimately show ?thesis using assms(8) unfolding grown_from_def restrict_map_def by (metis option.distinct(1))
qed

section \<open>The synchronized tables\<close>

text \<open>What a synchronized table gives a new profile and a new user, in terms of the two snapshots.\<close>

definition profile_installed :: "golib \<Rightarrow> snapshot \<Rightarrow> snapshot \<Rightarrow> app \<Rightarrow> app \<Rightarrow> sprofile \<Rightarrow> bool" where
  "profile_installed E s n a b p \<longleftrightarrow> (\<exists>r. map_of (ap_profileHandles b) (sf_name p) = Some r
     \<and> (if sn_shared s = sn_shared n \<and> unchanged_profile E s p
        then map_of (ap_profileHandles a) (sf_name p) = Some r \<and> ap_heap b r = ap_heap a r
        else ap_next a \<le> r \<and> fresh_from p (ap_heap b r)))"

definition user_installed :: "golib \<Rightarrow> snapshot \<Rightarrow> snapshot \<Rightarrow> app \<Rightarrow> app \<Rightarrow> suser \<Rightarrow> bool" where
  "user_installed E s n a b u \<longleftrightarrow> (\<exists>p \<in> set (sn_profiles n). \<exists>r. sf_name p = su_profile u \<and> map_of (ap_userHandles b) (su_name u) = Some r
     \<and> (if sn_shared n then map_of (ap_profileHandles b) (su_profile u) = Some r
        else if \<not> sn_shared s \<and> unchanged_profile E s p \<and> (\<exists>v \<in> set (sn_users s). su_name v = su_name u \<and> su_profile v = su_profile u)
        then map_of (ap_userHandles a) (su_name u) = Some r \<and> ap_heap b r = ap_heap a r
        else ap_next a \<le> r \<and> fresh_from p (ap_heap b r)))"

lemma installed_cong:
  assumes "ap_profileHandles b = ap_profileHandles b'" and "ap_userHandles b = ap_userHandles b'" and "ap_heap b = ap_heap b'"
    and "ap_profileHandles a = ap_profileHandles a'" and "ap_userHandles a = ap_userHandles a'" and "ap_heap a = ap_heap a'" and "ap_next a = ap_next a'"
  shows "profile_installed E s n a b p = profile_installed E s n a' b' p" and "user_installed E s n a b u = user_installed E s n a' b' u"
  by (simp_all only: profile_installed_def user_installed_def assms)

lemma kept_profile_iff:
  assumes "snap_ok E n" and "snap_ok E s" and "profile_table s a" and "p \<in> set (sn_profiles n)"
  shows "(if sn_shared s = sn_shared n \<and> unchanged_profile E s p
      then \<exists>r. kept_profile E (same_mode (Some s) n) (ap_profileHandles a) p = Some r \<and> map_of (ap_profileHandles a) (sf_name p) = Some r \<and> r < ap_next a
      else kept_profile E (same_mode (Some s) n) (ap_profileHandles a) p = None)"
proof -
  have eq: "profileCompileEqual E s p = unchanged_profile E s p" by (rule compile_equal_unchanged [OF assms(2,1,4)])
  show ?thesis
  proof (cases "sn_shared s = sn_shared n \<and> unchanged_profile E s p")
    case True
    then obtain old where "old \<in> set (sn_profiles s)" "sf_name old = sf_name p" by (auto simp: unchanged_profile_def)
    with assms(3) obtain r where "map_of (ap_profileHandles a) (sf_name p) = Some r" "slot_ok a old r"
      unfolding profile_table_def by metis
    with True eq show ?thesis by (auto simp: kept_profile_def same_mode_def slot_ok_def)
  next
    case False
    with eq show ?thesis by (auto simp: kept_profile_def same_mode_def)
  qed
qed

lemma sync_keeps_profile:
  assumes "sync_profiles E (same_mode (Some s) n) (sn_profiles n) a [] [] = (a1, pm, rb)" and "grown a1 a2"
    and "snap_ok E n" and "snap_ok E s" and "profile_table s a" and p: "p \<in> set (sn_profiles n)"
  shows "profile_installed E s n a (a2\<lparr>ap_profileHandles := pm, ap_userHandles := um\<rparr>) p"
proof -
  have prev: "snap_ok E x \<and> profile_table x a" if "same_mode (Some s) n = Some x" for x
    using same_mode_SomeD [OF that] assms(4,5) by simp
  note P = synced_profiles [OF assms(1,3) prev] and kp = kept_profile_iff [OF assms(3-6)]
  have d: "distinct (map sf_name (sn_profiles n))" using assms(3) by (simp add: snap_ok_def snapshot_ok_def)
  have synced: "profile_synced E (same_mode (Some s) n) (ap_profileHandles a) a1 pm p" using P(5) p by blast
  show ?thesis
  proof (cases "sn_shared s = sn_shared n \<and> unchanged_profile E s p")
    case True
    with kp obtain r where r: "kept_profile E (same_mode (Some s) n) (ap_profileHandles a) p = Some r"
      "map_of (ap_profileHandles a) (sf_name p) = Some r" "r < ap_next a" by auto
    with synced grown_trans [OF P(1) assms(2)] True show ?thesis by (simp add: profile_installed_def profile_synced_def grown_def)
  next
    case False
    with kp have k: "kept_profile E (same_mode (Some s) n) (ap_profileHandles a) p = None" by auto
    with synced obtain r where r: "map_of pm (sf_name p) = Some r" "r < ap_next a1" "ap_heap a1 r = new_handle E p"
      by (auto simp: profile_synced_def)
    have "ap_next a \<le> r" by (rule sync_profiles_new [OF assms(1) d profile_table_below [OF assms(5)] p k r(1)])
    moreover have "ap_heap a2 r = new_handle E p" using assms(2) r(2,3) by (simp add: grown_def)
    ultimately show ?thesis using False r(1) new_handle_fresh [OF snap_profile_ok [OF assms(3) p]]
      by (auto simp: profile_installed_def)
  qed
qed

lemma inj_image_filter: "inj_on f A \<Longrightarrow> p \<in> A \<Longrightarrow> f p = k \<Longrightarrow> k \<in> f ` {q \<in> A. P q} \<longleftrightarrow> P p"
  unfolding inj_on_def by blast

text \<open>The users that do not share keep their handle exactly when the old snapshot has them on the same,
  unchanged profile.\<close>

lemma kept_user_iff:
  assumes "snap_ok E n" and "snap_ok E s" and "profile_table s a" and "user_table s a" and "\<not> sn_shared n"
    and "set rb = sf_name ` {q \<in> set (sn_profiles n). kept_profile E (same_mode (Some s) n) (ap_profileHandles a) q = None}"
    and p: "p \<in> set (sn_profiles n)" "sf_name p = su_profile u"
  shows "(if \<not> sn_shared s \<and> unchanged_profile E s p \<and> (\<exists>v \<in> set (sn_users s). su_name v = su_name u \<and> su_profile v = su_profile u)
    then \<exists>r. kept_user (same_mode (Some s) n) rb (ap_userHandles a) u = Some r \<and> map_of (ap_userHandles a) (su_name u) = Some r \<and> r < ap_next a
    else kept_user (same_mode (Some s) n) rb (ap_userHandles a) u = None)"
proof -
  have "inj_on sf_name (set (sn_profiles n))" using assms(1) by (simp add: snap_ok_def snapshot_ok_def distinct_map)
  from inj_image_filter [OF this p] have rb: "su_profile u \<in> set rb \<longleftrightarrow> kept_profile E (same_mode (Some s) n) (ap_profileHandles a) p = None"
    unfolding assms(6) .
  note kp = kept_profile_iff [OF assms(1-3) p(1)]
  have un: "UserNamed (Some s) (su_name u) = Some v \<longleftrightarrow> v \<in> set (sn_users s) \<and> su_name v = su_name u" for v
    using UserNamed_SomeD UserNamed_in [OF assms(2)] by metis
  show ?thesis
  proof (cases "\<not> sn_shared s \<and> unchanged_profile E s p \<and> (\<exists>v \<in> set (sn_users s). su_name v = su_name u \<and> su_profile v = su_profile u)")
    case True
    then obtain v where v: "UserNamed (Some s) (su_name u) = Some v" "su_profile v = su_profile u" using un by blast
    then obtain q r where r: "map_of (ap_userHandles a) (su_name u) = Some r" "slot_ok a q r"
      using assms(4) un unfolding user_table_def by metis
    moreover have "su_profile u \<notin> set rb" using kp True assms(5) unfolding rb by auto
    ultimately show ?thesis using True assms(5) v by (auto simp: kept_user_def same_mode_def slot_ok_def)
  next
    case False
    then show ?thesis
    proof (cases "sn_shared s")
      case True
      with assms(5) show ?thesis by (simp add: kept_user_def same_mode_def UserNamed_def)
    next
      case ns: False
      have "su_profile u \<in> set rb" if "\<not> unchanged_profile E s p" using kp that unfolding rb by auto
      with False ns assms(5) show ?thesis by (auto simp: un kept_user_def same_mode_def split: option.split)
    qed
  qed
qed

lemma sync_keeps_user:
  assumes "sync_profiles E (same_mode (Some s) n) (sn_profiles n) a [] [] = (a1, pm, rb)"
    and "sync_users E (same_mode (Some s) n) n pm rb (sn_users n) a1 [] = (a2, um)"
    and "snap_ok E n" and "snap_ok E s" and "profile_table s a" and "user_table s a" and u: "u \<in> set (sn_users n)"
  shows "user_installed E s n a (a2\<lparr>ap_profileHandles := pm, ap_userHandles := um\<rparr>) u"
proof -
  have prev: "snap_ok E x \<and> profile_table x a" if "same_mode (Some s) n = Some x" for x
    using same_mode_SomeD [OF that] assms(4,5) by simp
  note P = synced_profiles [OF assms(1,3) prev]
  have d: "distinct (map su_name (sn_users n))" and pn: "\<forall>u \<in> set (sn_users n). ProfileNamed (Some n) (su_profile u) \<noteq> None"
    using assms(3) by (auto simp: snap_ok_def snapshot_ok_def)
  then obtain p where pf: "ProfileNamed (Some n) (su_profile u) = Some p" using u by blast
  note p = ProfileNamed_SomeD [OF pf]
  show ?thesis
  proof (cases "sn_shared n")
    case True
    have "\<forall>v \<in> set (sn_users n). ProfileNamed (Some n) (su_profile v) \<noteq> None \<and> map_of pm (su_profile v) \<noteq> None"
      using pn P(3) ProfileNamed_SomeD by (metis not_None_eq)
    from sync_users_shared [OF True d this assms(2)] u have "map_of um (su_name u) = map_of pm (su_profile u)" by blast
    with P(3) p True show ?thesis by (force simp: user_installed_def)
  next
    case False
    have un: "snap_ok E x \<and> profile_table x a \<and> user_table x a \<and> \<not> sn_shared x" if "same_mode (Some s) n = Some x" for x
      using same_mode_SomeD [OF that] assms(4-6) False by simp
    have synced: "user_synced E (same_mode (Some s) n) n rb (ap_userHandles a) a2 um u"
      using unshared_users(6) [OF assms(2,3) False un P(6,1,4)] u by blast
    have t: "ap_userHandles a1 = ap_userHandles a" "ap_next a \<le> ap_next a1" using grown_tables [OF P(1)] P(1) [unfolded grown_def] by blast+
    have below: "table_below (map_of (ap_userHandles a1)) (ap_next a1)" if "same_mode (Some s) n \<noteq> None"
    proof -
      have "\<not> sn_shared s" using that False by (auto simp: same_mode_def split: if_splits)
      from user_table_below [OF assms(6) this] t show ?thesis by (auto simp: table_below_def dest: less_le_trans)
    qed
    have rb: "set rb = sf_name ` {q \<in> set (sn_profiles n). kept_profile E (same_mode (Some s) n) (ap_profileHandles a) q = None}"
      by (rule P(6))
    note ku = kept_user_iff [OF assms(3-6) False rb conjunct1 [OF p] conjunct2 [OF p]]
    show ?thesis
    proof (cases "kept_user (same_mode (Some s) n) rb (ap_userHandles a) u")
      case (Some r)
      with ku have r: "\<not> sn_shared s \<and> unchanged_profile E s p \<and> (\<exists>v \<in> set (sn_users s). su_name v = su_name u \<and> su_profile v = su_profile u)"
        "map_of (ap_userHandles a) (su_name u) = Some r" "r < ap_next a" by (auto split: if_splits)
      have "ap_heap a2 r = ap_heap a r"
        using grown_trans [OF P(1) sync_users_grown [OF assms(2)]] r(3) by (simp add: grown_def)
      with synced Some r p False show ?thesis by (auto simp: user_installed_def user_synced_def)
    next
      case None
      with synced pf obtain r where r: "map_of um (su_name u) = Some r" "ap_heap a2 r = new_handle E p" by (auto simp: user_synced_def)
      have "ap_next a1 \<le> r" by (rule sync_users_new [OF assms(2) False d pn below u _ r(1)]) (simp_all add: t(1) None)
      moreover have "fresh_from p (ap_heap a2 r)" using r(2) p new_handle_fresh [OF snap_profile_ok [OF assms(3)]] by simp
      moreover have "\<not> (\<not> sn_shared s \<and> unchanged_profile E s p \<and> (\<exists>v \<in> set (sn_users s). su_name v = su_name u \<and> su_profile v = su_profile u))"
        using ku None by (auto split: if_splits)
      ultimately show ?thesis using t(2) r(1) False p unfolding user_installed_def
        by (intro bexI [of _ p] exI [of _ r]) auto
    qed
  qed
qed

lemma sync_keeps:
  assumes "snap_ok E n" and "snap_ok E s" and "profile_table s a" and "user_table s a"
  shows "\<forall>p \<in> set (sn_profiles n). profile_installed E s n a (syncHandles E (Some s) (Some n) a) p"
    and "\<forall>u \<in> set (sn_users n). user_installed E s n a (syncHandles E (Some s) (Some n) a) u"
proof -
  obtain a1 pm rb a2 um where sp: "sync_profiles E (same_mode (Some s) n) (sn_profiles n) a [] [] = (a1, pm, rb)"
    and su: "sync_users E (same_mode (Some s) n) n pm rb (sn_users n) a1 [] = (a2, um)"
    and b: "syncHandles E (Some s) (Some n) a = a2\<lparr>ap_profileHandles := pm, ap_userHandles := um\<rparr>" by (rule syncHandles_cases)
  show "\<forall>p \<in> set (sn_profiles n). profile_installed E s n a (syncHandles E (Some s) (Some n) a) p"
    "\<forall>u \<in> set (sn_users n). user_installed E s n a (syncHandles E (Some s) (Some n) a) u"
    unfolding b using sync_keeps_profile [OF sp sync_users_grown [OF su] assms(1-3)] sync_keeps_user [OF sp su assms] by blast+
qed
end
