(* ===== verification/App_Props.thy ===== *)
theory App_Props
  imports App_Handles
begin

text \<open>
  The properties of the service over snapshots: the invariant of every reachable state, what an apply
  and a reset do and when they refuse, and the replay of an apply under its idempotency key. The
  section on the sample service boots one from a document, for the concrete instances of the theorems.
\<close>

section \<open>A sample service\<close>

definition boot_tree :: val where
  "boot_tree = tree_state export_lib boot_state"

text \<open>A library whose JSON reader returns the document's tree for every text.\<close>

definition boot_lib :: cfglib where
  "boot_lib = export_lib\<lparr>cf_dir := (\<lambda>_. []), cf_file := (\<lambda>_. Inr ''{}''), cf_json_read := (\<lambda>_. Inr (boot_tree, False))\<rparr>"

definition boot_golib :: golib where
  "boot_golib = float_lib ratio_parse"

abbreviation live :: ctx where
  "live \<equiv> \<lparr>ctx_err = None, ctx_session = None\<rparr>"

definition boot_opts :: options where
  "boot_opts = \<lparr>op_snapshots = None, op_bootstrapPath = ''lab.json'',
     op_notif = \<lparr>ns_ring = notif_New 8, ns_next = 0, ns_parked = [], ns_sends = [], ns_bufs = [], ns_done = []\<rparr>,
     op_audit = None, op_idempotencyMax = 0\<rparr>"

lemma boot_trip: "trip_ok boot_golib boot_lib"
  using export_lib_trip by (simp add: trip_ok_def boot_golib_def boot_lib_def)

lemma boot_text: "float_text boot_golib boot_lib"
  using export_lib_text by (simp add: float_text_def boot_golib_def boot_lib_def)

lemma boot_tree_any: "tree_state K boot_state = tree_state K' boot_state"
  by (simp add: tree_state_def tree_spec_def tree_profile_def tree_map_def)

lemma boot_lib_tree: "tree_state boot_lib boot_state = boot_tree"
  unfolding boot_tree_def by (rule boot_tree_any)

lemma boot_reads: "reads_json boot_lib"
proof -
  have "marshals boot_tree" unfolding boot_lib_tree [symmetric]
    by (rule marshals_tree_state [OF boot_text normal_form_spec [OF boot_trip boot_normal]])
  then show ?thesis by (simp add: reads_json_def boot_lib_def del: marshals.simps)
qed

lemma boot_lib_valid: "valid_state boot_lib [] boot_state"
  by (simp add: boot_lib_def valid_state_def Let_def listeners_ok_def address_ok_def url_path_ok_def blank_plain plain_ascii_def
      names_given_def profile_ok_def user_ok_def parses_def)

lemma boot_loads: "LoadFile boot_golib boot_lib p = Some (Inr boot_state)"
proof -
  have t: "TrimSpace ''{}'' = ''{}''" by (rule TrimSpace_plain) (simp_all add: plain_ascii_def)
  have d: "Decode boot_golib boot_lib ''{}'' = Some (Inr boot_state)"
    using decodeRaw_tree_state [OF boot_trip boot_text boot_normal] t
    by (simp add: Decode_def stripBOM_def MaxDocumentBytes_def looksLikeJSON_def decodeJSON_def boot_lib_tree Let_def)
      (simp add: boot_lib_def decode_rune_def)
  have "validate boot_lib (Some boot_state) [] = None" using boot_lib_valid config_Validate_valid [of boot_lib boot_state]
    by (simp add: config_Validate_def)
  moreover have "cf_file boot_lib p = Inr ''{}''" "cf_dir boot_lib p = []" by (simp_all add: boot_lib_def)
  ultimately show ?thesis by (simp add: LoadFile_def load_def d Normalize_normal [OF boot_normal])
qed

lemma boot_ready:
  obtains a snap where "app_Boot boot_golib boot_lib 7 live boot_opts = Some (Inr a)"
    and "ss_active (ap_snaps a) = Some snap" and "ss_bootstrap (ap_snaps a) = Some snap" and "sn_canonical snap = Some boot_state"
    and "ap_idemp a = newIdempCache 256" and "sn_generation snap = 0" and "ap_bootstrapPath a = ''lab.json''"
    and "ap_applyHooks a = []" and "sn_users snap = compileUsers [boot_user]"
proof -
  have "cf_yaml_write boot_lib x = Inr []" for x by (simp add: boot_lib_def)
  from boot_compiles_in [OF boot_lib_valid this, of boot_golib 7 no_opts]
  obtain snap where c: "compiler_Compile boot_golib boot_lib 7 (Some boot_state) no_opts = Inr snap" "sn_canonical snap = Some boot_state"
      "sn_users snap = compileUsers [boot_user]" by blast
  define a where "a = app_New boot_golib (boot_opts\<lparr>op_snapshots := Some (fst (InstallBootstrap NewStore (Some snap)))\<rparr>)"
  have "app_Boot boot_golib boot_lib 7 live boot_opts = Some (Inr a)"
    using c(1) by (simp add: app_Boot_def boot_loads a_def) (simp add: boot_opts_def)
  moreover have "ss_active (ap_snaps a) = Some snap" "ss_bootstrap (ap_snaps a) = Some snap" "ap_idemp a = newIdempCache 256"
      "ap_bootstrapPath a = ''lab.json''" "ap_applyHooks a = []"
    by (simp_all add: a_def app_New_def InstallBootstrap_def Swap_def SetBootstrap_def Let_def boot_opts_def rebuildHandles_def)
  moreover have "sn_generation snap = 0" using compiled_revisions(2) [OF c(1)] by simp
  ultimately show thesis using c(2,3) that by blast
qed

section \<open>The invariant\<close>

text \<open>C2: The invariant of the service: in every state that calls can reach from a boot, each profile and each
  user of the active snapshot has a live datastore handle of its profile and schema, and there is no other
  handle. With shared datastores a user's handle is the profile's own, otherwise no two users or profiles
  share one. The active snapshot is drifted exactly if its revision is not the bootstrap's.\<close>

theorem service_invariant:
  assumes "trip_ok E K" and "reads_json K" and "app_Boot E K clock c opts = Some (Inr a0)" and "app_reach E K J a0 a"
  shows "\<exists>s b. ss_active (ap_snaps a) = Some s \<and> ss_bootstrap (ap_snaps a) = Some b \<and> snapshot_ok E s
    \<and> profile_table s a \<and> user_table s a \<and> (Drifted (Some s) \<longleftrightarrow> sn_revision s \<noteq> sn_revision b)"
proof -
  have "app_ok E a" by (rule app_reach_ok [OF assms(4,1,2) app_Boot_ok [OF assms(1,3)]])
  then obtain s b where "ss_active (ap_snaps a) = Some s" "ss_bootstrap (ap_snaps a) = Some b" "snap_ok E s"
    "profile_table s a" "user_table s a" "sn_bootstrapRevision s = sn_revision b" "sn_revision b \<noteq> []" "sn_revision s \<noteq> []"
    by (auto simp: app_ok_def)
  then show ?thesis by (auto simp: Drifted_def snap_ok_def)
qed

theorem service_invariant_witness:
  "\<exists>a s. app_Boot boot_golib boot_lib 7 live boot_opts = Some (Inr a) \<and> ss_active (ap_snaps a) = Some s
     \<and> profile_table s a \<and> user_table s a \<and> \<not> Drifted (Some s)"
proof -
  obtain a snap where a: "app_Boot boot_golib boot_lib 7 live boot_opts = Some (Inr a)" "ss_active (ap_snaps a) = Some snap"
    "ss_bootstrap (ap_snaps a) = Some snap" by (rule boot_ready)
  from service_invariant [OF boot_trip boot_reads a(1) app_reach.start] a show ?thesis by auto
qed

section \<open>Applying operations\<close>

lemma build_snaps_only: "ap_snaps b = ap_snaps a \<Longrightarrow> buildCandidate E K clock b opers expectedRev req = buildCandidate E K clock a opers expectedRev req"
  by (simp add: buildCandidate_def active_def)

text \<open>A request under a key that the cache does not hold.\<close>

lemma fresh_apply:
  assumes "ctx_err c = None" and "key \<noteq> []" and "map_of (ic_entries (ap_idemp a)) key = None" and "fingerprintOps K opers = Inr fp"
  shows "app_Apply E K J clock c act a opers expectedRev key = (case buildCandidate E K clock a opers expectedRev True of
     Inl err \<Rightarrow> (forgetIdempOnConflict key err a, Inl err)
   | Inr cand \<Rightarrow> (let (a1, res) = apply_new E K J clock act a cand key fp in (a1, Inr (the (cloneApply (Some res)), ap_applyHooks a1))))"
proof -
  have "idemp_lookup (ap_idemp a) key fp = (ap_idemp a, Inr None)" using assms(2,3) by (simp add: idemp_lookup_def)
  then show ?thesis using assms by (simp add: app_Apply_def applyLocked_def Let_def split_def split: sum.split)
qed

text \<open>C3: A plan predicts the apply: for a new idempotency key, an apply of the same operations fails with the
  plan's error and otherwise succeeds with the planned revisions, drift, differences and operations, at the
  next generation, and runs the hooks.\<close>

theorem plan_predicts_apply:
  assumes "ctx_err c = None" and "key \<noteq> []" and "map_of (ic_entries (ap_idemp a)) key = None" and "fingerprintOps K opers = Inr fp"
  shows "case app_Plan E K clock c a opers expectedRev of
     Inl err \<Rightarrow> snd (app_Apply E K J clock c act a opers expectedRev key) = Inl err
   | Inr p \<Rightarrow> (\<exists>s r. ss_active (ap_snaps a) = Some s \<and> snd (app_Apply E K J clock c act a opers expectedRev key) = Inr (r, ap_applyHooks a)
       \<and> ar_plan r = clonePlan p \<and> ar_applied r \<and> ar_runtimeRevision r = pl_candidate p \<and> ar_generation r = sn_generation s + 1
       \<and> pl_previous p = sn_revision s)"
proof (cases "buildCandidate E K clock a opers expectedRev True")
  case (Inl err)
  then show ?thesis using assms(1) by (simp add: fresh_apply [OF assms] app_Plan_def)
next
  case (Inr cand)
  from Inr obtain copied st where p: "ss_active (ap_snaps a) = Some (cd_prev cand)"
      "compileCandidate E K clock st (Some (cd_prev cand)) = Inr (cd_next cand)" by (rule buildCandidate_parts)
  have "sn_generation (cd_next cand) = sn_generation (cd_prev cand) + 1"
    using compiled_revisions(2) [OF p(2) [unfolded compileCandidate_def]] by simp
  then show ?thesis using Inr p(1) assms(1)
    by (simp add: fresh_apply [OF assms] app_Plan_def apply_new_def Let_def split_def cloneApply_def planFrom_def)
qed

abbreviation same_users :: apply_oper where
  "same_users \<equiv> \<lparr>ao_op = OpReplaceUsers, ao_profiles = [], ao_profile = None, ao_users = [boot_user], ao_user = None, ao_name = [],
     ao_admission = None, ao_netconf = None, ao_observability = []\<rparr>"

lemma same_users_fingerprint: "\<exists>fp. fingerprintOps boot_lib [same_users] = Inr fp"
  by (simp add: fingerprintOps_def op_marshals_def)

lemma boot_candidate:
  assumes "ss_active (ap_snaps a) = Some snap" and "sn_canonical snap = Some boot_state" and "sn_revision snap \<noteq> []"
  shows "\<exists>cand. buildCandidate boot_golib boot_lib clock a [same_users] (sn_revision snap) True = Inr cand"
proof -
  have "cf_yaml_write boot_lib x = Inr []" for x by (simp add: boot_lib_def)
  from boot_compiles_in [OF boot_lib_valid this]
  have c: "\<exists>snap. compiler_Compile boot_golib boot_lib clock (Some boot_state) opts = Inr snap \<and> sn_canonical snap = Some boot_state" for opts
    by blast
  then obtain new where n: "compileCandidate boot_golib boot_lib clock boot_state (Some snap) = Inr new" "sn_canonical new = Some boot_state"
    unfolding compileCandidate_def by blast
  have m: "list_all marshals (state_trees boot_state)" "list_all (unmarshals boot_golib) (state_trees boot_state)"
    by (simp_all add: state_trees_def)
  have "json_state boot_golib boot_lib boot_state = boot_state" using boot_normal [of boot_golib boot_lib] by (simp add: normal_form_def)
  with m have cl: "app_cloneState boot_golib boot_lib (Some boot_state) = Inr boot_state" by (simp add: app_cloneState_def)
  have "\<exists>raw. CanonicalJSON boot_golib boot_lib (Some boot_state) = Inr raw"
    using m(1) by (simp add: CanonicalJSON_def Normalize_normal [OF boot_normal])
  then have j: "jsonTree boot_golib boot_lib (Some boot_state) = Inr boot_tree"
    by (auto simp: jsonTree_def boot_lib_def)
  have d: "diffStates boot_golib boot_lib (Some boot_state) (Some boot_state) = Inr None"
    by (simp add: diffStates_def j walkDiff.simps append_nil_def)
  have o: "applyOperations (Some boot_state) [same_users] = Inr boot_state" by (simp add: applyOperations_def applyOne_def KnownOp_def Let_def)
  have r: "rejectResetOnly (Some boot_state) (Some boot_state) = None" by (simp add: rejectResetOnly_def Let_def)
  show ?thesis using assms n cl d o r by (simp add: buildCandidate_def active_def)
qed

lemma boot_applies:
  obtains a snap fp cand where "app_Boot boot_golib boot_lib 7 live boot_opts = Some (Inr a)" and "app_ok boot_golib a"
    and "ss_active (ap_snaps a) = Some snap" and "map_of (ic_entries (ap_idemp a)) ''k'' = None" and "fingerprintOps boot_lib [same_users] = Inr fp"
    and "buildCandidate boot_golib boot_lib 8 a [same_users] (sn_revision snap) True = Inr cand" and "ap_applyHooks a = []" and "sn_generation snap = 0"
    and "sn_revision snap \<noteq> []"
proof -
  obtain a snap where a: "app_Boot boot_golib boot_lib 7 live boot_opts = Some (Inr a)"
    "ss_active (ap_snaps a) = Some snap" "ss_bootstrap (ap_snaps a) = Some snap" "sn_canonical snap = Some boot_state"
    "ap_idemp a = newIdempCache 256" "sn_generation snap = 0" "ap_applyHooks a = []" by (rule boot_ready)
  have ok: "app_ok boot_golib a" by (rule app_Boot_ok [OF boot_trip a(1)])
  with a(2,3) have "sn_revision snap \<noteq> []" by (simp add: app_ok_def)
  obtain cand where c: "buildCandidate boot_golib boot_lib 8 a [same_users] (sn_revision snap) True = Inr cand"
    using boot_candidate [OF a(2,4) \<open>sn_revision snap \<noteq> []\<close>] by blast
  obtain fp where f: "fingerprintOps boot_lib [same_users] = Inr fp" using same_users_fingerprint by blast
  have k: "map_of (ic_entries (ap_idemp a)) ''k'' = None" using a(5) by (simp add: newIdempCache_def)
  show thesis by (rule that [OF a(1) ok a(2) k f c a(7,6) \<open>sn_revision snap \<noteq> []\<close>])
qed

theorem plan_predicts_apply_witness:
  "\<exists>a s r. app_Boot boot_golib boot_lib 7 live boot_opts = Some (Inr a) \<and> ss_active (ap_snaps a) = Some s
     \<and> snd (app_Apply boot_golib boot_lib plain_json 8 live None a [same_users] (sn_revision s) ''k'') = Inr (r, []) \<and> ar_generation r = 1"
proof -
  obtain a snap fp cand where a: "app_Boot boot_golib boot_lib 7 live boot_opts = Some (Inr a)" "ss_active (ap_snaps a) = Some snap"
    "map_of (ic_entries (ap_idemp a)) ''k'' = None" "fingerprintOps boot_lib [same_users] = Inr fp"
    "buildCandidate boot_golib boot_lib 8 a [same_users] (sn_revision snap) True = Inr cand" "ap_applyHooks a = []" "sn_generation snap = 0"
    by (rule boot_applies)
  have p: "app_Plan boot_golib boot_lib 8 live a [same_users] (sn_revision snap) = Inr (planFrom cand)" using a(5) by (simp add: app_Plan_def)
  have "ctx_err live = None" "''k'' \<noteq> []" by simp_all
  from plan_predicts_apply [OF this a(3,4), where E = boot_golib and clock = 8 and expectedRev = "sn_revision snap" and J = plain_json and act = None] a(1,2,6,7) show ?thesis
    unfolding p by auto
qed

lemma apply_new_fields:
  assumes "ss_active (ap_snaps a) = Some s" and "buildCandidate E K clock a opers expectedRev True = Inr cand"
    and "r = apply_new E K J clock act a cand key fp"
  shows "ap_snaps (fst r) = (ap_snaps a)\<lparr>ss_active := Some (cd_next cand), ss_previous := Some s\<rparr>"
    and "ar_runtimeRevision (the (cloneApply (Some (snd r)))) = sn_revision (cd_next cand)"
    and "ap_profileHandles (fst r) = ap_profileHandles (syncHandles E (Some s) (Some (cd_next cand)) (a\<lparr>ap_snaps := ap_snaps (fst r)\<rparr>))"
    and "ap_userHandles (fst r) = ap_userHandles (syncHandles E (Some s) (Some (cd_next cand)) (a\<lparr>ap_snaps := ap_snaps (fst r)\<rparr>))"
    and "ap_heap (fst r) = ap_heap (syncHandles E (Some s) (Some (cd_next cand)) (a\<lparr>ap_snaps := ap_snaps (fst r)\<rparr>))"
proof -
  from assms(2) have "ss_active (ap_snaps a) = Some (cd_prev cand)" by (rule buildCandidate_parts)
  then have "cd_prev cand = s" using assms(1) by simp
  then show "ap_snaps (fst r) = (ap_snaps a)\<lparr>ss_active := Some (cd_next cand), ss_previous := Some s\<rparr>"
    "ar_runtimeRevision (the (cloneApply (Some (snd r)))) = sn_revision (cd_next cand)"
    "ap_profileHandles (fst r) = ap_profileHandles (syncHandles E (Some s) (Some (cd_next cand)) (a\<lparr>ap_snaps := ap_snaps (fst r)\<rparr>))"
    "ap_userHandles (fst r) = ap_userHandles (syncHandles E (Some s) (Some (cd_next cand)) (a\<lparr>ap_snaps := ap_snaps (fst r)\<rparr>))"
    "ap_heap (fst r) = ap_heap (syncHandles E (Some s) (Some (cd_next cand)) (a\<lparr>ap_snaps := ap_snaps (fst r)\<rparr>))"
    using assms(1) by (simp_all add: assms(3) apply_new_def Let_def split_def cloneApply_def Swap_def)
qed

text \<open>C4: An applied change is installed as a whole: the new snapshot is active, the old one is kept as the
  previous one, the bootstrap snapshot and its revision stay. While the sharing mode stays, a profile whose
  schema, instance tree and start-up tree are unchanged keeps its live handle and all it holds, and so does a
  user with a handle of his own on the same, unchanged profile; every other one gets a reference never used
  before, to an unlocked handle with the new trees. When the sharing mode changes, every handle is replaced.
  Users that share have the handle of their profile.\<close>

theorem apply_installs:
  assumes "trip_ok E K" and "app_ok E a" and "ss_active (ap_snaps a) = Some s"
    and "app_Apply E K J clock c act a opers expectedRev key = (a', Inr (res, hooks))"
    and "map_of (ic_entries (ap_idemp a)) key = None"
  shows "\<exists>new. ap_snaps a' = (ap_snaps a)\<lparr>ss_active := Some new, ss_previous := Some s\<rparr>
    \<and> expectedRev = sn_revision s \<and> sn_revision new = ar_runtimeRevision res
    \<and> sn_generation new = sn_generation s + 1 \<and> sn_bootstrapRevision new = sn_bootstrapRevision s
    \<and> (\<forall>p \<in> set (sn_profiles new). profile_installed E s new a a' p)
    \<and> (\<forall>u \<in> set (sn_users new). user_installed E s new a a' u)"
proof -
  have k: "ctx_err c = None" "key \<noteq> []" using assms(4) by (auto simp: app_Apply_def applyLocked_def split: option.splits if_splits)
  then obtain fp where fp: "fingerprintOps K opers = Inr fp"
    using assms(4) by (auto simp: app_Apply_def applyLocked_def split: sum.splits)
  note run = assms(4) [unfolded fresh_apply [OF k(1,2) assms(5) fp]]
  then obtain cand where c: "buildCandidate E K clock a opers expectedRev True = Inr cand" by (auto split: sum.splits)
  note a' = apply_new_fields [OF assms(3) c refl]
  from c obtain copied st where p: "ss_active (ap_snaps a) = Some (cd_prev cand)" "True \<longrightarrow> expectedRev \<noteq> [] \<and> expectedRev = sn_revision (cd_prev cand)"
      "compileCandidate E K clock st (Some (cd_prev cand)) = Inr (cd_next cand)" by (rule buildCandidate_parts)
  have prev: "cd_prev cand = s" using p(1) assms(3) by simp
  have ok: "snap_ok E s" "profile_table s a" "user_table s a" "sn_bootstrapRevision s \<noteq> []"
    using assms(2,3) by (auto simp: app_ok_def)
  have t: "profile_table s (a\<lparr>ap_snaps := ap_snaps a'\<rparr>)" "user_table s (a\<lparr>ap_snaps := ap_snaps a'\<rparr>)" using ok by simp_all
  note new = compiled_snap_ok [OF assms(1) p(3) [unfolded compileCandidate_def]]
  note r = compiled_revisions [OF p(3) [unfolded compileCandidate_def]]
  have "a' = fst (apply_new E K J clock act a cand key fp)" "res = the (cloneApply (Some (snd (apply_new E K J clock act a cand key fp))))"
    using run c by (simp_all add: Let_def split_def)
  with a' have f: "ap_snaps a' = (ap_snaps a)\<lparr>ss_active := Some (cd_next cand), ss_previous := Some s\<rparr>"
      "ar_runtimeRevision res = sn_revision (cd_next cand)"
      "ap_profileHandles a' = ap_profileHandles (syncHandles E (Some s) (Some (cd_next cand)) (a\<lparr>ap_snaps := ap_snaps a'\<rparr>))"
      "ap_userHandles a' = ap_userHandles (syncHandles E (Some s) (Some (cd_next cand)) (a\<lparr>ap_snaps := ap_snaps a'\<rparr>))"
      "ap_heap a' = ap_heap (syncHandles E (Some s) (Some (cd_next cand)) (a\<lparr>ap_snaps := ap_snaps a'\<rparr>))"
    by (simp_all add: prev)
  let ?x = "a\<lparr>ap_snaps := ap_snaps a'\<rparr>"
  have eq: "profile_installed E s n a a' p = profile_installed E s n ?x (syncHandles E (Some s) (Some (cd_next cand)) ?x) p"
    "user_installed E s n a a' u = user_installed E s n ?x (syncHandles E (Some s) (Some (cd_next cand)) ?x) u" for n p u
    by (rule installed_cong; simp add: f(3-5))+
  have "\<forall>p \<in> set (sn_profiles (cd_next cand)). profile_installed E s (cd_next cand) a a' p"
    "\<forall>u \<in> set (sn_users (cd_next cand)). user_installed E s (cd_next cand) a a' u"
    unfolding eq by (rule sync_keeps [OF new ok(1) t])+
  with f(1,2) p(2) r prev ok(4) show ?thesis by (intro exI [of _ "cd_next cand"]) auto
qed

theorem apply_installs_witness:
  "\<exists>a a' s new. app_Boot boot_golib boot_lib 7 live boot_opts = Some (Inr a) \<and> ss_active (ap_snaps a) = Some s
     \<and> fst (app_Apply boot_golib boot_lib plain_json 8 live None a [same_users] (sn_revision s) ''k'') = a'
     \<and> ap_snaps a' = (ap_snaps a)\<lparr>ss_active := Some new, ss_previous := Some s\<rparr> \<and> sn_generation new = 1"
proof -
  obtain a snap fp cand where a: "app_Boot boot_golib boot_lib 7 live boot_opts = Some (Inr a)" "app_ok boot_golib a"
    "ss_active (ap_snaps a) = Some snap" "map_of (ic_entries (ap_idemp a)) ''k'' = None" "fingerprintOps boot_lib [same_users] = Inr fp"
    "buildCandidate boot_golib boot_lib 8 a [same_users] (sn_revision snap) True = Inr cand" "ap_applyHooks a = []" "sn_generation snap = 0"
    by (rule boot_applies)
  have "ctx_err live = None" "''k'' \<noteq> []" by simp_all
  from fresh_apply [OF this a(4,5)] a(6) obtain a' res hooks
    where r: "app_Apply boot_golib boot_lib plain_json 8 live None a [same_users] (sn_revision snap) ''k'' = (a', Inr (res, hooks))"
    by (simp add: Let_def split_def)
  from apply_installs [OF boot_trip a(2,3) r a(4)] obtain new
    where "ap_snaps a' = (ap_snaps a)\<lparr>ss_active := Some new, ss_previous := Some snap\<rparr>" "sn_generation new = sn_generation snap + 1"
    by blast
  with a(1,3,8) r show ?thesis by fastforce
qed

text \<open>A stale or missing expected revision is refused: an apply whose expected revision is not the active one
  fails with revision mismatch and reports the active revision. It changes nothing, and the key stays free, so
  that the client can read the state again and retry under the same key.\<close>

theorem stale_revision_refused:
  assumes "ctx_err c = None" and "key \<noteq> []" and "map_of (ic_entries (ap_idemp a)) key = None" and "fingerprintOps K opers = Inr fp"
    and "ss_active (ap_snaps a) = Some s" and "expectedRev \<noteq> []" and "expectedRev \<noteq> sn_revision s"
  shows "\<exists>d. app_Apply E K J clock c act a opers expectedRev key = (a, Inl (GDomain d)) \<and> e_code d = CodeRevisionMismatch
    \<and> e_revision d = sn_revision s \<and> e_retryable d"
  using assms
  by (simp add: fresh_apply [OF assms(1-4)] buildCandidate_def active_def forgetIdempOnConflict_def err_as_def evict_def
      RevisionMismatch_def New_def with_remediation_def WithRemediation_def err_clone_def Retryable_def catalog_def)

theorem stale_revision_refused_witness:
  "\<exists>a s d. app_Boot boot_golib boot_lib 7 live boot_opts = Some (Inr a) \<and> ss_active (ap_snaps a) = Some s
     \<and> app_Apply boot_golib boot_lib plain_json 8 live None a [same_users] (CHR ''x'' # sn_revision s) ''k'' = (a, Inl (GDomain d))
     \<and> e_code d = CodeRevisionMismatch"
proof -
  obtain a snap fp cand where a: "app_Boot boot_golib boot_lib 7 live boot_opts = Some (Inr a)" "app_ok boot_golib a"
    "ss_active (ap_snaps a) = Some snap" "map_of (ic_entries (ap_idemp a)) ''k'' = None" "fingerprintOps boot_lib [same_users] = Inr fp"
    by (rule boot_applies)
  have "ctx_err live = None" "''k'' \<noteq> []" by simp_all
  from stale_revision_refused [OF this a(4,5,3), of "CHR ''x'' # sn_revision snap" boot_golib plain_json 8 None] a(1,3)
  show ?thesis by auto
qed

section \<open>Refused calls\<close>

text \<open>C7: A call that fails changes nothing: a refused apply leaves all of the state but the idempotency cache as it
  was, and a refused reset, commit or discard leaves the whole state. In particular no snapshot is installed, no
  handle replaced, no event recorded and no notification sent on an error.\<close>

theorem failed_calls_change_nothing:
  "(case app_Apply E K J clock c act a opers expectedRev key of (a', Inl _) \<Rightarrow> a' = a\<lparr>ap_idemp := ap_idemp a'\<rparr> | _ \<Rightarrow> True)
   \<and> (case app_Reset E K J clock stat c act a of Some (a', Inl _) \<Rightarrow> a' = a | _ \<Rightarrow> True)
   \<and> (case app_Commit E J clock i c act a profile of (a', Some _) \<Rightarrow> a' = a | _ \<Rightarrow> True)
   \<and> (case app_Discard E J clock c act a profile of (a', Some _) \<Rightarrow> a' = a | _ \<Rightarrow> True)"
proof -
  have "case app_Apply E K J clock c act a opers expectedRev key of (a', Inl _) \<Rightarrow> a' = a\<lparr>ap_idemp := ap_idemp a'\<rparr> | _ \<Rightarrow> True"
    by (auto simp: app_Apply_def applyLocked_def forgetIdempOnConflict_def Let_def split_def split: option.split sum.split)
  moreover have "case app_Reset E K J clock stat c act a of Some (a', Inl _) \<Rightarrow> a' = a | _ \<Rightarrow> True"
    by (auto simp: app_Reset_def resetLocked_def Let_def split: option.split sum.split)
  moreover have "case app_Commit E J clock i c act a profile of (a', Some _) \<Rightarrow> a' = a | _ \<Rightarrow> True"
    by (auto simp: app_Commit_def Let_def split: option.split sum.split)
  moreover have "case app_Discard E J clock c act a profile of (a', Some _) \<Rightarrow> a' = a | _ \<Rightarrow> True"
    by (auto simp: app_Discard_def split: option.split sum.split)
  ultimately show ?thesis by blast
qed

section \<open>Replaying\<close>

lemma moveFront_same: "same_data c (moveFrontLocked c e)"
  unfolding moveFrontLocked_def using same_data_trans [OF unlink_same link_front_same] by (simp add: same_data_def)

lemma lookup_pay: "pay (fst (idemp_lookup c k fp)) = pay c"
  using moveFront_same [of c] by (simp add: idemp_lookup_def same_data_def split: option.split)

lemma hit_answer:
  assumes "idemp_lookup c k fp = (cache, Inr hit)"
  shows "Option.bind hit (\<lambda>e. cloneApply (ie_apply (ic_heap cache e)))
    = (case idemp_answer c k fp of Inr (Some (_, _, r)) \<Rightarrow> cloneApply r | _ \<Rightarrow> None)"
proof -
  have "pay cache = pay c" using lookup_pay [of c k fp] assms by simp
  then have "ie_apply (ic_heap cache e) = ie_apply (ic_heap c e)" for e by (simp add: pay_def fun_eq_iff)
  then show ?thesis using assms by (cases hit) (simp_all add: idemp_answer_def pay_def)
qed

lemma answer_key:
  assumes "rep c ps" and "idemp_answer c k fp = Inr (Some x)"
  shows "fst x = k" "fst (snd x) = fp"
  using assms(2) unfolding answer_refines [OF assms(1)] lru_answer_def lru_get_def
  by (auto simp: find_Some_iff split: if_splits option.splits)

text \<open>A request whose key holds a result of the same request is answered from the cache.\<close>

lemma cached_apply:
  assumes "ctx_err c = None" and "key \<noteq> []" and "fingerprintOps K opers = Inr fp"
    and "idemp_answer (ap_idemp a) key fp = Inr (Some (key, fp, Some r))"
  shows "app_Apply E K J clock c act a opers expectedRev key
    = (a\<lparr>ap_idemp := fst (idemp_lookup (ap_idemp a) key fp)\<rparr>, Inr (the (cloneApply (Some r)), []))"
proof -
  obtain cache found where l: "idemp_lookup (ap_idemp a) key fp = (cache, found)" by fastforce
  with assms(4) obtain hit where h: "found = Inr hit" by (cases found) (auto simp: idemp_answer_def)
  from hit_answer [OF l [unfolded h]] assms(4) have "Option.bind hit (\<lambda>e. cloneApply (ie_apply (ic_heap cache e))) = cloneApply (Some r)" by simp
  then show ?thesis using assms(1-3) l h by (simp add: app_Apply_def applyLocked_def Let_def cloneApply_def)
qed

lemma append_nil_twice: "Option.bind (append_nil x) append_nil = append_nil x"
  by (auto simp: append_nil_def)

lemma clone_twice: "cloneApply (cloneApply r) = cloneApply r"
proof -
  have "cloneDiff (cloneDiff d) = cloneDiff d" for d
    by (cases d) (simp_all add: cloneDiff_def append_nil_twice)
  then have "clonePlan (clonePlan p) = clonePlan p" for p by (simp add: clonePlan_def append_nil_twice)
  then show ?thesis by (cases r) (simp_all add: cloneApply_def)
qed

lemma applied_answer:
  assumes "app_ok E a" and "app_Apply E K J clock c act a opers expectedRev key = (a', Inr (res, hooks))"
  obtains fp r where "key \<noteq> []" "fingerprintOps K opers = Inr fp" "idemp_answer (ap_idemp a') key fp = Inr (Some (key, fp, Some r))"
    "the (cloneApply (Some r)) = res"
proof -
  have k: "ctx_err c = None" "key \<noteq> []" using assms(2) by (auto simp: app_Apply_def applyLocked_def split: option.splits if_splits)
  then obtain fp where fp: "fingerprintOps K opers = Inr fp"
    using assms(2) by (auto simp: app_Apply_def applyLocked_def split: sum.splits)
  obtain cache found where l: "idemp_lookup (ap_idemp a) key fp = (cache, found)" by fastforce
  obtain hit where h: "found = Inr hit"
    using assms(2) k fp l by (cases found) (auto simp: app_Apply_def applyLocked_def Let_def)
  from app_ok_rep [OF assms(1)] obtain ps where rep: "rep (ap_idemp a) ps" ..
  from app_ok_rep [OF lookup_cache_ok [OF assms(1) l]] obtain ps' where rep': "rep cache ps'" by auto
  have pos: "0 < ic_max cache" using lookup_cache_ok [OF assms(1) l] by (simp add: app_ok_def)
  show thesis
  proof (cases "Option.bind hit (\<lambda>e. cloneApply (ie_apply (ic_heap cache e)))")
    case None
    with assms(2) k fp l h obtain cand r where n: "apply_new E K J clock act (a\<lparr>ap_idemp := cache\<rparr>) cand key fp = (a', r)"
        "res = the (cloneApply (Some r))"
      by (auto simp: app_Apply_def applyLocked_def Let_def split_def prod_eq_iff split: sum.splits)
    then have "ap_idemp a' = storeApply cache key fp (Some r)" by (auto simp: apply_new_def Let_def split_def)
    with store_answer [OF rep' pos k(2), of fp r fp] n(2)
    have "idemp_answer (ap_idemp a') key fp = Inr (Some (key, fp, Some res))" by (simp add: cloneApply_def)
    moreover have "the (cloneApply (Some res)) = res" using clone_twice [of "Some r"] n(2) by (simp add: cloneApply_def)
    ultimately show ?thesis using that k fp by blast
  next
    case (Some r)
    with assms(2) k fp l h have a': "a' = a\<lparr>ap_idemp := cache\<rparr>" "res = r" by (simp_all add: app_Apply_def applyLocked_def Let_def)
    from hit_answer [OF l [unfolded h]] Some obtain x where x: "idemp_answer (ap_idemp a) key fp = Inr (Some x)" "cloneApply (snd (snd x)) = Some r"
      by (auto split: sum.splits option.splits)
    then obtain r0 where r0: "snd (snd x) = Some r0" "the (cloneApply (Some r0)) = res" using a'(2) by (cases "snd (snd x)") (auto simp: cloneApply_def)
    have "x = (key, fp, Some r0)" using answer_key [OF rep x(1)] r0(1) by (simp add: prod_eq_iff)
    with lookup_answer [OF rep, of key fp] l x(1) a'(1) have "idemp_answer (ap_idemp a') key fp = Inr (Some (key, fp, Some r0))" by simp
    with that k fp r0(2) show ?thesis by blast
  qed
qed

text \<open>C5: An apply is idempotent: repeating an applied request under its key returns the first result and changes no
  snapshot and no handle, and runs no hook, whatever revision the repetition expects, the first request's own
  one included.\<close>

theorem apply_is_idempotent:
  assumes "app_ok E a" and "app_Apply E K J clock c act a opers expectedRev key = (a', Inr (res, hooks))" and "ctx_err c' = None"
  shows "\<exists>cache. app_Apply E K J clock' c' act' a' opers expectedRev' key = (a'\<lparr>ap_idemp := cache\<rparr>, Inr (res, []))"
proof -
  from applied_answer [OF assms(1,2)] obtain fp r where f: "key \<noteq> []" "fingerprintOps K opers = Inr fp"
      "idemp_answer (ap_idemp a') key fp = Inr (Some (key, fp, Some r))" "the (cloneApply (Some r)) = res" by metis
  from cached_apply [OF assms(3) f(1-3)] f(4) show ?thesis by blast
qed

theorem apply_is_idempotent_witness:
  "\<exists>a a' s res. app_Boot boot_golib boot_lib 7 live boot_opts = Some (Inr a) \<and> ss_active (ap_snaps a) = Some s
     \<and> app_Apply boot_golib boot_lib plain_json 8 live None a [same_users] (sn_revision s) ''k'' = (a', Inr (res, []))
     \<and> snd (app_Apply boot_golib boot_lib plain_json 9 live None a' [same_users] (sn_revision s) ''k'') = Inr (res, [])"
proof -
  obtain a snap fp cand where a: "app_Boot boot_golib boot_lib 7 live boot_opts = Some (Inr a)" "app_ok boot_golib a"
    "ss_active (ap_snaps a) = Some snap" "map_of (ic_entries (ap_idemp a)) ''k'' = None" "fingerprintOps boot_lib [same_users] = Inr fp"
    "buildCandidate boot_golib boot_lib 8 a [same_users] (sn_revision snap) True = Inr cand" "ap_applyHooks a = []"
    by (rule boot_applies)
  have l: "ctx_err live = None" "''k'' \<noteq> []" by simp_all
  from fresh_apply [OF l a(4,5)] a(6) obtain a' res hooks
    where r: "app_Apply boot_golib boot_lib plain_json 8 live None a [same_users] (sn_revision snap) ''k'' = (a', Inr (res, hooks))" "hooks = ap_applyHooks a'"
    by (simp add: Let_def split_def)
  have "hooks = []" using r(2) r(1) [unfolded fresh_apply [OF l a(4,5)]] a(6,7) by (auto simp: Let_def split_def apply_new_def)
  with apply_is_idempotent [OF a(2) r(1) l(1), of 9 None "sn_revision snap"] r a(1,3) show ?thesis by fastforce
qed

section \<open>Reset\<close>

text \<open>Handles built from nothing are new and hold the compiled trees.\<close>

lemma rebuilt_handles:
  assumes "snap_ok E n" and "b = syncHandles E None (Some n) a"
  shows "(\<forall>p \<in> set (sn_profiles n). \<exists>r \<ge> ap_next a. map_of (ap_profileHandles b) (sf_name p) = Some r \<and> ap_heap b r = new_handle E p)
    \<and> (\<forall>u \<in> set (sn_users n). \<exists>p. \<exists>r \<ge> ap_next a. ProfileNamed (Some n) (su_profile u) = Some p
         \<and> map_of (ap_userHandles b) (su_name u) = Some r \<and> ap_heap b r = new_handle E p)"
proof -
  obtain a1 pm rb a2 um where sp': "sync_profiles E (same_mode None n) (sn_profiles n) a [] [] = (a1, pm, rb)"
    and su': "sync_users E (same_mode None n) n pm rb (sn_users n) a1 [] = (a2, um)"
    and b: "syncHandles E None (Some n) a = a2\<lparr>ap_profileHandles := pm, ap_userHandles := um\<rparr>" by (rule syncHandles_cases)
  have sp: "sync_profiles E None (sn_profiles n) a [] [] = (a1, pm, rb)" and su: "sync_users E None n pm rb (sn_users n) a1 [] = (a2, um)"
    using sp' su' by (simp_all add: same_mode_def)
  have P: "grown a a1" "grown_from Map.empty (ap_next a) (map_of pm) (ap_next a1)"
      "\<forall>p \<in> set (sn_profiles n). profile_synced E None (ap_profileHandles a) a1 pm p"
      "set rb = sf_name ` {p \<in> set (sn_profiles n). kept_profile E None (ap_profileHandles a) p = None}"
    using synced_profiles [OF sp assms(1)] by simp_all
  have g: "grown a1 a2" by (rule sync_users_grown [OF su])
  have profiles: "\<exists>r \<ge> ap_next a. map_of pm (sf_name p) = Some r \<and> ap_heap a2 r = new_handle E p" if p: "p \<in> set (sn_profiles n)" for p
  proof -
    from P(3) p obtain r where r: "map_of pm (sf_name p) = Some r" "r < ap_next a1" "ap_heap a1 r = new_handle E p"
      by (force simp: profile_synced_def kept_profile_def)
    moreover have "ap_next a \<le> r" using P(2) r(1) by (simp add: grown_from_def)
    ultimately show ?thesis using g by (auto simp: grown_def)
  qed
  have pn: "\<exists>p. ProfileNamed (Some n) (su_profile u) = Some p" if "u \<in> set (sn_users n)" for u
    using that assms(1) by (force simp: snap_ok_def snapshot_ok_def)
  have "\<exists>p. \<exists>r \<ge> ap_next a. ProfileNamed (Some n) (su_profile u) = Some p \<and> map_of um (su_name u) = Some r \<and> ap_heap a2 r = new_handle E p"
    if u: "u \<in> set (sn_users n)" for u
  proof (cases "sn_shared n")
    case True
    have m: "ProfileNamed (Some n) (su_profile u) \<noteq> None \<and> map_of pm (su_profile u) \<noteq> None" if "u \<in> set (sn_users n)" for u
      using pn [OF that] ProfileNamed_SomeD profiles by fastforce
    have d: "distinct (map su_name (sn_users n))" using assms(1) by (simp add: snap_ok_def snapshot_ok_def)
    from sync_users_shared [OF True d _ su] m u have "map_of um (su_name u) = map_of pm (su_profile u)" by blast
    with pn [OF u] ProfileNamed_SomeD profiles show ?thesis by metis
  next
    case False
    have h: "snap_ok E s \<and> profile_table s a \<and> user_table s a \<and> \<not> sn_shared s" if "None = Some s" for s using that by simp
    have gf: "grown_from (old_table None (ap_profileHandles a)) (ap_next a) (map_of pm) (ap_next a1)" using P(2) by simp
    note U = unshared_users [OF su assms(1) False h P(4,1) gf]
    from U(6) u obtain p r where r: "ProfileNamed (Some n) (su_profile u) = Some p" "map_of um (su_name u) = Some r" "ap_heap a2 r = new_handle E p"
      by (force simp: user_synced_def kept_user_def UserNamed_def)
    moreover have "ap_next a1 \<le> r" using U(7) r(2) by (simp add: grown_from_def)
    ultimately show ?thesis using P(1) by (auto simp: grown_def)
  qed
  with profiles show ?thesis by (simp add: assms(2) b)
qed

lemma cloned_compiles:
  assumes "app_cloneState E K (Some doc) = Inr copied" and "compiler_Compile E K clock (Some copied) opts = Inr new"
  shows "compiler_Compile E K clock (Some doc) opts = Inr new"
proof -
  from assms(1) have c: "copied = json_state E K doc" "config_cloneState E K doc = Inr copied"
    by (auto simp: app_cloneState_def config_cloneState_def split: if_splits)
  from assms(2) obtain n where n: "Normalize E K (Some copied) = Inr n" by (rule compile_parts)
  then have "config_cloneState E K copied = Inr (json_state E K copied)" by (auto simp: Normalize_def config_cloneState_def split: if_splits)
  then have "Normalize E K (Some copied) = Normalize E K (Some doc)" using c by (simp add: Normalize_def)
  with assms(2) show ?thesis by (simp add: compiler_Compile_def)
qed

text \<open>The document a reset starts from: the bootstrap file read again or, without one, the document of the
  bootstrap snapshot, whatever has been applied since.\<close>

definition bootstrap_document :: "golib \<Rightarrow> cfglib \<Rightarrow> stat \<Rightarrow> app \<Rightarrow> state \<Rightarrow> bool" where
  "bootstrap_document E K stat a doc \<longleftrightarrow>
     (if ap_bootstrapPath a \<noteq> [] then stat = StatOk \<and> LoadFile E K (ap_bootstrapPath a) = Some (Inr doc)
      else \<exists>b. ss_bootstrap (ap_snaps a) = Some b \<and> sn_canonical b = Some doc)"

lemma loadBootstrap_document:
  assumes "loadBootstrapCandidate E K clock stat a gen = Some (Inr new)"
  obtains doc where "bootstrap_document E K stat a doc" "compiler_Compile E K clock (Some doc) (gen_opts gen) = Inr new"
proof (cases "ap_bootstrapPath a = []")
  case True
  with assms obtain b doc copied where "ss_bootstrap (ap_snaps a) = Some b" "sn_canonical b = Some doc"
    "app_cloneState E K (Some doc) = Inr copied" "compiler_Compile E K clock (Some copied) (gen_opts gen) = Inr new"
    unfolding loadBootstrapCandidate_def by (auto split: option.splits sum.splits simp: bind_eq_Some_conv)
  with True that cloned_compiles show thesis by (auto simp: bootstrap_document_def)
next
  case False
  with assms that show thesis unfolding loadBootstrapCandidate_def
    by (auto simp: bootstrap_document_def split: stat.splits option.splits sum.splits)
qed

text \<open>C6: A reset starts over from the bootstrap document: the file read again when there is one, and otherwise the
  document of the bootstrap snapshot. Its normal form, freshly compiled, is both the active and the bootstrap
  snapshot, at the next generation and not drifted. Every profile and user gets a new handle, one that no earlier
  session can hold, with the compiled trees and no locks; the idempotency cache and the notification log are empty
  and every parked wait is told so.\<close>

theorem reset_starts_over:
  assumes "trip_ok E K" and "app_Reset E K J clock stat c act a = Some (a', Inr hooks)" and "ss_active (ap_snaps a) = Some s"
  shows "\<exists>new doc n. bootstrap_document E K stat a doc \<and> Normalize E K (Some doc) = Inr n \<and> sn_canonical new = Some n
    \<and> compiler_Compile E K clock (Some doc) (gen_opts (sn_generation s + 1)) = Inr new
    \<and> ss_active (ap_snaps a') = Some new \<and> ss_bootstrap (ap_snaps a') = Some new \<and> ss_previous (ap_snaps a') = Some s
    \<and> \<not> Drifted (Some new) \<and> sn_generation new = sn_generation s + 1
    \<and> (\<forall>p \<in> set (sn_profiles new). \<exists>r \<ge> ap_next a. map_of (ap_profileHandles a') (sf_name p) = Some r
         \<and> fresh_from p (ap_heap a' r))
    \<and> (\<forall>u \<in> set (sn_users new). \<exists>p. \<exists>r \<ge> ap_next a. ProfileNamed (Some new) (su_profile u) = Some p
         \<and> map_of (ap_userHandles a') (su_name u) = Some r \<and> fresh_from p (ap_heap a' r))
    \<and> ic_entries (ap_idemp a') = [] \<and> r_items (ns_ring (ap_notif a')) = []
    \<and> ns_sends (ap_notif a') = ns_sends (ap_notif a) @ map (\<lambda>w. (w_ch w, Inl ErrStoreWiped)) (r_waiters (ns_ring (ap_notif a)))
    \<and> hooks = ap_resetHooks a"
proof -
  from assms(2) have r: "resetLocked E K J clock stat act a = Some (a', Inr hooks)"
    by (auto simp: app_Reset_def split: option.splits) (metis sum.exhaust map_sum.simps sum.simps(4) sum.inject(2) id_apply)
  then obtain new where l: "loadBootstrapCandidate E K clock stat a (sn_generation s + 1) = Some (Inr new)"
      "a' = install_reset E J clock act a new" "hooks = ap_resetHooks a'"
    unfolding resetLocked_def assms(3) Let_def by (auto split: option.splits sum.splits)
  from l(1) obtain doc where doc: "bootstrap_document E K stat a doc"
    and c: "compiler_Compile E K clock (Some doc) (gen_opts (sn_generation s + 1)) = Inr new" by (rule loadBootstrap_document)
  from c obtain n where n: "Normalize E K (Some doc) = Inr n" "sn_canonical new = Some n" by (rule compile_parts)
  note rv = compiled_revisions [OF c]
  let ?a = "a\<lparr>ap_snaps := ap_snaps a', ap_profileHandles := [], ap_userHandles := []\<rparr>"
  have f: "ap_snaps a' = (ap_snaps a)\<lparr>ss_active := Some new, ss_previous := Some s, ss_bootstrap := Some new\<rparr>"
      "ap_profileHandles a' = ap_profileHandles (syncHandles E None (Some new) ?a)"
      "ap_userHandles a' = ap_userHandles (syncHandles E None (Some new) ?a)"
      "ap_heap a' = ap_heap (syncHandles E None (Some new) ?a)"
      "ap_idemp a' = clear (ap_idemp a)" "ap_notif a' = notif_step (ap_notif a) DoWipe" "ap_resetHooks a' = ap_resetHooks a"
    using assms(3) by (simp_all add: l(2) install_reset_def rebuildHandles_def Let_def Swap_def SetBootstrap_def)
  have fresh: "fresh_from p (new_handle E p)" if "ProfileNamed (Some new) k = Some p \<or> p \<in> set (sn_profiles new)" for k p
    using that ProfileNamed_SomeD new_handle_fresh [OF snap_profile_ok [OF compiled_snap_ok [OF assms(1) c]]] by blast
  note h = rebuilt_handles [OF compiled_snap_ok [OF assms(1) c] refl, of ?a]
  have "(\<forall>p \<in> set (sn_profiles new). \<exists>r \<ge> ap_next a. map_of (ap_profileHandles a') (sf_name p) = Some r
         \<and> fresh_from p (ap_heap a' r))"
    unfolding f(2,4) using h fresh by fastforce
  moreover have "(\<forall>u \<in> set (sn_users new). \<exists>p. \<exists>r \<ge> ap_next a. ProfileNamed (Some new) (su_profile u) = Some p
         \<and> map_of (ap_userHandles a') (su_name u) = Some r \<and> fresh_from p (ap_heap a' r))"
    unfolding f(3,4) using h fresh by fastforce
  moreover have "\<not> Drifted (Some new)" "sn_generation new = sn_generation s + 1" using rv by (simp_all add: Drifted_def gen_opts_def)
  moreover have "ss_active (ap_snaps a') = Some new" "ss_bootstrap (ap_snaps a') = Some new" "ss_previous (ap_snaps a') = Some s"
    by (simp_all add: f(1))
  moreover have "ic_entries (ap_idemp a') = []" "r_items (ns_ring (ap_notif a')) = []"
    "ns_sends (ap_notif a') = ns_sends (ap_notif a) @ map (\<lambda>w. (w_ch w, Inl ErrStoreWiped)) (r_waiters (ns_ring (ap_notif a)))"
    by (simp_all add: f(5,6) clear_def broadcastWiped_def)
  ultimately show ?thesis using l(3) f(7) doc c n by blast
qed

theorem reset_starts_over_witness:
  "\<exists>a a' hooks new. app_Boot boot_golib boot_lib 7 live boot_opts = Some (Inr a)
     \<and> app_Reset boot_golib boot_lib plain_json 8 StatOk live None a = Some (a', Inr hooks)
     \<and> ss_active (ap_snaps a') = Some new \<and> sn_generation new = 1 \<and> \<not> Drifted (Some new)
     \<and> (\<exists>doc n. LoadFile boot_golib boot_lib ''lab.json'' = Some (Inr doc) \<and> Normalize boot_golib boot_lib (Some doc) = Inr n
          \<and> sn_canonical new = Some n)"
proof -
  obtain a snap where a: "app_Boot boot_golib boot_lib 7 live boot_opts = Some (Inr a)"
    "ss_active (ap_snaps a) = Some snap" "sn_generation snap = 0" "ap_bootstrapPath a = ''lab.json''" by (rule boot_ready)
  have "cf_yaml_write boot_lib x = Inr []" for x by (simp add: boot_lib_def)
  from boot_compiles_in [OF boot_lib_valid this, of boot_golib 8]
  obtain new where "compiler_Compile boot_golib boot_lib 8 (Some boot_state) (gen_opts 1) = Inr new" by blast
  then have "loadBootstrapCandidate boot_golib boot_lib 8 StatOk a 1 = Some (Inr new)"
    by (simp add: loadBootstrapCandidate_def a(4) boot_loads)
  then obtain a' hooks where r: "app_Reset boot_golib boot_lib plain_json 8 StatOk live None a = Some (a', Inr hooks)"
    by (simp add: app_Reset_def resetLocked_def a(2,3) Let_def)
  from reset_starts_over [OF boot_trip r a(2)] a(1,3,4) r show ?thesis unfolding bootstrap_document_def by auto
qed

end
