(* ===== verification/Ncframing.thy ===== *)
theory Ncframing
  imports Prelude
begin

text \<open>
  Package \<open>ncframing\<close> (\<open>framing.go\<close>, \<open>reader.go\<close>): the RFC 6242 framings of NETCONF. A
  writer turns a payload into the bytes it hands to the connection; a reader consumes a
  prefix of the bytes of the connection and returns one payload. The bytes the connection
  still holds, and the error it reports once they are used up, are the reader's input.
  The theorems: a written message is read back unchanged and nothing after it is consumed,
  any chunking of a payload decodes to it, no payload beyond the limit is returned; and the
  exact set of payloads for which the end-of-message framing fails.
\<close>

section \<open>Versions, limits and errors\<close>

type_synonym version = int

abbreviation Version10 :: version where "Version10 \<equiv> 10"
abbreviation Version11 :: version where "Version11 \<equiv> 11"

definition EOM10 :: bytes where
  "EOM10 = '']]>]]>''"

definition MaxMessageSize :: nat where
  "MaxMessageSize = 16 * 2 ^ 20"

datatype ferr =
    ErrTooLarge
  | ErrInvalidFrame string
  | ErrEOMInMessage
  | ErrEmptyMessage
  | UnsupportedVersion version
  | EOF
  | ErrUnexpectedEOF
  | IOError string

section \<open>Writers\<close>

definition Write1_0 :: "bytes \<Rightarrow> ferr + bytes" where
  "Write1_0 msg =
     (if bytes_contains msg EOM10 then Inl ErrEOMInMessage
      else if length msg > MaxMessageSize then Inl ErrTooLarge
      else Inr (msg @ EOM10))"

definition Write1_1 :: "bytes \<Rightarrow> ferr + bytes" where
  "Write1_1 msg =
     (if length msg = 0 then Inl ErrEmptyMessage
      else if length msg > MaxMessageSize then Inl ErrTooLarge
      else Inr ([NL, CHR ''#''] @ itoa (int (length msg)) @ [NL] @ msg
                @ [NL, CHR ''#'', CHR ''#'', NL]))"

definition Write :: "version \<Rightarrow> bytes \<Rightarrow> ferr + bytes" where
  "Write ver msg =
     (if ver = Version10 then Write1_0 msg
      else if ver = Version11 then Write1_1 msg
      else Inl (UnsupportedVersion ver))"

section \<open>The reader\<close>

text \<open>
  \<open>r_in\<close> is what is left to read and \<open>r_end\<close> the error \<open>ReadByte\<close> reports after it:
  \<open>EOF\<close>, or an error of the connection.
\<close>

record reader =
  r_in :: bytes
  r_end :: ferr
  r_ver :: version
  r_max :: nat

definition NewReader :: "bytes \<Rightarrow> ferr \<Rightarrow> version \<Rightarrow> reader" where
  "NewReader inp e ver = \<lparr>r_in = inp, r_end = e, r_ver = ver, r_max = MaxMessageSize\<rparr>"

definition SetVersion :: "reader \<Rightarrow> version \<Rightarrow> reader" where
  "SetVersion r ver = r\<lparr>r_ver := ver\<rparr>"

definition unexpectedEOF :: "ferr \<Rightarrow> ferr" where
  "unexpectedEOF e = (if e = EOF then ErrUnexpectedEOF else e)"

text \<open>The loop of \<open>read10\<close>: payload so far, the window of the last bytes, whether a byte came.\<close>

fun read10 :: "nat \<Rightarrow> ferr \<Rightarrow> bytes \<Rightarrow> bytes \<Rightarrow> bool \<Rightarrow> bytes \<Rightarrow> (ferr + bytes) \<times> bytes" where
  "read10 mx e msg window got [] =
     (Inl (if e = EOF then (if \<not> got then EOF else ErrUnexpectedEOF) else e), [])"
| "read10 mx e msg window got (b # bs) =
     (if length window < 6 then
        (let window' = window @ [b] in
         if length window' = 6 \<and> window' = EOM10 then (Inr msg, bs)
         else read10 mx e msg window' True bs)
      else if length msg + 1 > mx then (Inl ErrTooLarge, bs)
      else
        (let msg' = msg @ [hd window]; window' = tl window @ [b] in
         if window' = EOM10 then (Inr msg', bs)
         else read10 mx e msg' window' True bs))"

definition expect :: "ferr \<Rightarrow> char \<Rightarrow> bytes \<Rightarrow> ferr option \<times> bytes" where
  "expect e want inp = (case inp of
     [] \<Rightarrow> (Some e, [])
   | b # bs \<Rightarrow>
       if b \<noteq> want then (Some (ErrInvalidFrame (''expected '' @ [want])), bs) else (None, bs))"

text \<open>The inner loop over the digits of a chunk size.\<close>

fun read_size :: "nat \<Rightarrow> ferr \<Rightarrow> nat \<Rightarrow> nat \<Rightarrow> bytes \<Rightarrow> (ferr + nat) \<times> bytes" where
  "read_size mx e sz digits [] = (Inl (unexpectedEOF e), [])"
| "read_size mx e sz digits (b # bs) =
     (if b = NL then (Inr sz, bs)
      else if byte b < (48 :: nat) \<or> byte b > (57 :: nat) then (Inl (ErrInvalidFrame ''chunk sz''), bs)
      else if digits + 1 > 10 then (Inl (ErrInvalidFrame ''chunk sz''), bs)
      else
        (let sz' = sz * 10 + digit_val b in
         if sz' > mx then (Inl ErrTooLarge, bs)
         else read_size mx e sz' (digits + 1) bs))"

lemma read_size_shrinks: "read_size mx e sz digits inp = (r, rest) \<Longrightarrow> length rest \<le> length inp"
  by (induction mx e sz digits inp rule: read_size.induct)
    (auto simp: Let_def split: if_splits)

text \<open>The chunk loop of \<open>read11\<close>; each round consumes at least the line feed it starts with.\<close>

function read11 :: "nat \<Rightarrow> ferr \<Rightarrow> bytes \<Rightarrow> nat \<Rightarrow> bytes \<Rightarrow> (ferr + bytes) \<times> bytes" where
  "read11 mx e msg chunks inp = (case inp of
     [] \<Rightarrow> (Inl (if e = EOF then (if chunks = 0 then EOF else ErrUnexpectedEOF) else e), [])
   | b # i1 \<Rightarrow>
     if b \<noteq> NL then (Inl (ErrInvalidFrame ''expected LF''), i1)
     else (case expect e CHR ''#'' i1 of
       (Some err, i2) \<Rightarrow> (Inl (unexpectedEOF err), i2)
     | (None, i2) \<Rightarrow>
       (case i2 of
         [] \<Rightarrow> (Inl (unexpectedEOF e), [])
       | b2 # i3 \<Rightarrow>
         if b2 = CHR ''#'' then
           (case expect e NL i3 of
             (Some err, i4) \<Rightarrow> (Inl (unexpectedEOF err), i4)
           | (None, i4) \<Rightarrow>
               if chunks = 0 then (Inl (ErrInvalidFrame ''missing chunk''), i4)
               else (Inr msg, i4))
         else if byte b2 < (49 :: nat) \<or> byte b2 > (57 :: nat) then
           (Inl (ErrInvalidFrame ''chunk sz''), i3)
         else
           (case read_size mx e (digit_val b2) 1 i3 of
             (Inl err, i4) \<Rightarrow> (Inl err, i4)
           | (Inr sz, i4) \<Rightarrow>
               if sz < 1 then (Inl (ErrInvalidFrame ''chunk sz''), i4)
               else if length msg + sz > mx then (Inl ErrTooLarge, i4)
               else if length i4 < sz then (Inl (unexpectedEOF e), [])
               else read11 mx e (msg @ take sz i4) (chunks + 1) (drop sz i4)))))"
  by pat_completeness auto
termination
  by (relation "measure (\<lambda>(mx, e, msg, chunks, inp). length inp)")
    (auto simp: expect_def split: list.splits if_splits dest!: sym [THEN read_size_shrinks])

declare read11.simps [simp del]

definition ReadMessage :: "reader \<Rightarrow> (ferr + bytes) \<times> reader" where
  "ReadMessage r =
     (if r_ver r = Version10 then
        (case read10 (r_max r) (r_end r) [] [] False (r_in r) of
           (res, rest) \<Rightarrow> (res, r\<lparr>r_in := rest\<rparr>))
      else if r_ver r = Version11 then
        (case read11 (r_max r) (r_end r) [] 0 (r_in r) of
           (res, rest) \<Rightarrow> (res, r\<lparr>r_in := rest\<rparr>))
      else (Inl (UnsupportedVersion (r_ver r)), r))"

section \<open>End-of-message framing\<close>

text \<open>
  The reader stops at the first point where the bytes it has consumed end in the delimiter.
  \<open>stops_at c xs\<close>: reading \<open>xs\<close> after \<open>c\<close> reaches the delimiter exactly at the end of \<open>xs\<close>.
\<close>

definition stops_at :: "bytes \<Rightarrow> bytes \<Rightarrow> bool" where
  "stops_at c xs \<longleftrightarrow> xs \<noteq> [] \<and> suffix EOM10 (c @ xs)
     \<and> (\<forall>ys. strict_prefix ys xs \<and> ys \<noteq> [] \<longrightarrow> \<not> suffix EOM10 (c @ ys))"

lemma length_EOM10 [simp]: "length EOM10 = 6"
  by (simp add: EOM10_def)

lemma suffix_same_length: "length a = length b \<Longrightarrow> suffix a (c @ b) \<longleftrightarrow> a = b"
  by (auto simp: suffix_def)

lemma stops_at_Cons:
  assumes "stops_at c (b # xs)" and "\<not> suffix EOM10 (c @ [b])"
  shows "stops_at (c @ [b]) xs"
proof -
  from assms have "xs \<noteq> []" by (auto simp: stops_at_def)
  moreover have "\<not> suffix EOM10 ((c @ [b]) @ ys)" if "strict_prefix ys xs" "ys \<noteq> []" for ys
  proof -
    from that have "strict_prefix (b # ys) (b # xs)" by (auto simp: strict_prefix_def)
    with assms(1) show ?thesis unfolding stops_at_def by fastforce
  qed
  ultimately show ?thesis using assms(1) by (auto simp: stops_at_def)
qed

lemma stops_at_now:
  assumes "stops_at c (b # xs)" and "suffix EOM10 (c @ [b])"
  shows "xs = []"
proof (rule ccontr)
  assume "xs \<noteq> []"
  then have "strict_prefix [b] (b # xs)" by (auto simp: strict_prefix_def)
  with assms show False unfolding stops_at_def by blast
qed

lemma suffix_window_full:
  "length win = 6 \<Longrightarrow> suffix EOM10 ((msg @ win) @ [b]) \<longleftrightarrow> tl win @ [b] = EOM10"
proof -
  assume "length win = 6"
  then obtain w ws where "win = w # ws" "length ws = 5" by (cases win) auto
  then show ?thesis using suffix_same_length [of EOM10 "ws @ [b]" "msg @ [w]"] by auto
qed

lemma suffix_window_short:
  "length win < 6 \<Longrightarrow> suffix EOM10 (win @ [b]) \<longleftrightarrow> win @ [b] = EOM10"
  using suffix_same_length [of EOM10 "win @ [b]" "[]"] suffix_length_le [of EOM10 "win @ [b]"]
  by (cases "length win = 5") (auto simp del: suffix_snoc)

lemma read10_stops:
  assumes "stops_at (msg @ win) xs" and "length win = 6 \<or> length win < 6 \<and> msg = []"
    and "length (msg @ win @ xs) \<le> mx + 6"
  shows "read10 mx e msg win got (xs @ rest)
       = (Inr (take (length (msg @ win @ xs) - 6) (msg @ win @ xs)), rest)"
  using assms
proof (induction xs arbitrary: msg win got)
  case Nil
  then show ?case by (simp add: stops_at_def)
next
  case (Cons b xs)
  show ?case
  proof (cases "length win < 6")
    case True
    then have c: "msg = []" using Cons.prems(2) by auto
    note short = suffix_window_short [OF True, of b]
    show ?thesis
    proof (cases "win @ [b] = EOM10")
      case True
      with short c have "xs = []" using stops_at_now [OF Cons.prems(1)] by simp
      with True \<open>length win < 6\<close> c show ?thesis by (auto simp: arg_cong [OF True, of length])
    next
      case False
      with short c have "stops_at ([] @ (win @ [b])) xs"
        using stops_at_Cons [OF Cons.prems(1)] by simp
      moreover have "length win = 5 \<or> length win < 5" using \<open>length win < 6\<close> by linarith
      ultimately show ?thesis
        using Cons.IH [of "[]" "win @ [b]" True] False \<open>length win < 6\<close> c Cons.prems(3) by simp
    qed
  next
    case False
    with Cons.prems(2) have w6: "length win = 6" by auto
    then obtain w ws where win: "win = w # ws" by (cases win) auto
    note full = suffix_window_full [OF w6, of msg b]
    have fits: "\<not> length msg + 1 > mx" using Cons.prems(3) w6 by simp
    show ?thesis
    proof (cases "tl win @ [b] = EOM10")
      case True
      with full have "xs = []" using stops_at_now [OF Cons.prems(1)] by simp
      with True False fits win w6 show ?thesis by simp
    next
      case nf: False
      with full have "stops_at ((msg @ [w]) @ (ws @ [b])) xs"
        using stops_at_Cons [OF Cons.prems(1)] win by simp
      from Cons.IH [OF this, of True] nf False fits win w6 Cons.prems(3) show ?thesis by simp
    qed
  qed
qed

text \<open>
  The delimiter overlaps itself only by its last three bytes: after a payload without the
  delimiter, it can be found early only if the payload ends in those three bytes.
\<close>

lemma EOM10_overlap:
  assumes "0 < k" "k < 6" and "suffix EOM10 (m @ take k EOM10)"
  shows "k = 3 \<and> suffix '']]>'' m"
proof -
  from assms(3) obtain z where z: "m @ take k EOM10 = z @ EOM10" by (auto simp: suffix_def)
  have zm: "m = take (length m) (z @ EOM10)" by (metis append_eq_conv_conj z)
  have "length m + k = length z + 6" using arg_cong [OF z, of length] assms(2) by simp
  then have len: "length m = length z + (6 - k)" using assms(2) by simp
  have tl: "take k EOM10 = drop (6 - k) EOM10"
    using arg_cong [OF z, of "drop (length m)"] len by simp
  have m: "m = z @ take (6 - k) EOM10" using zm len by simp
  have "k \<in> {1, 2, 3, 4, 5}" using assms(1,2) by auto
  with tl have k3: "k = 3" by (auto simp: EOM10_def)
  with m show ?thesis by (simp add: EOM10_def suffix_def)
qed

lemma strict_prefix_append_cases:
  assumes "strict_prefix ys (m @ d)"
  obtains "prefix ys m" | k where "0 < k" "k < length d" "ys = m @ take k d"
proof (cases "prefix ys m")
  case False
  with assms obtain us where us: "ys = m @ us" "prefix us d"
    by (auto simp: strict_prefix_def prefix_append)
  with False assms have "us \<noteq> []" "us \<noteq> d" by (auto simp: strict_prefix_def)
  with us have "us = take (length us) d" "0 < length us" "length us < length d"
    by (auto simp: prefix_def)
  then show thesis using that(2) us(1) by metis
qed (rule that(1))

lemma stops_at_frame:
  assumes "\<not> bytes_contains m EOM10" and "\<not> suffix '']]>'' m"
  shows "stops_at [] (m @ EOM10)"
proof -
  have "\<not> suffix EOM10 ys" if ys: "strict_prefix ys (m @ EOM10)" for ys
    using ys
  proof (cases rule: strict_prefix_append_cases)
    case 1
    show ?thesis
    proof
      assume "suffix EOM10 ys"
      with 1 have "sublist EOM10 m"
        using prefix_imp_sublist suffix_imp_sublist sublist_order.order_trans by blast
      with assms(1) show False by (simp add: bytes_contains_iff)
    qed
  next
    case (2 k)
    then show ?thesis using EOM10_overlap [of k m] assms(2) by auto
  qed
  then show ?thesis by (auto simp: stops_at_def suffix_def EOM10_def)
qed

lemma stops_at_early:
  assumes "\<not> bytes_contains m EOM10" and "m = m' @ '']]>''"
  shows "stops_at [] (m' @ EOM10)"
proof (rule stops_at_frame)
  show "\<not> bytes_contains m' EOM10"
    using assms by (auto simp: bytes_contains_iff sublist_appendI intro: sublist_append_rightI
        dest: sublist_order.order_trans)
  show "\<not> suffix '']]>'' m'"
  proof
    assume "suffix '']]>'' m'"
    then obtain z where "m' = z @ '']]>''" by (auto simp: suffix_def)
    with assms(2) have "m = z @ EOM10 @ []" by (simp add: EOM10_def)
    with assms(1) show False by (metis bytes_contains_iff sublist_appendI)
  qed
qed

lemma read10_frame:
  assumes "\<not> bytes_contains m EOM10" "\<not> suffix '']]>'' m" "length m \<le> mx"
  shows "read10 mx e [] [] False ((m @ EOM10) @ rest) = (Inr m, rest)"
  using read10_stops [of "[]" "[]" "m @ EOM10" mx e False rest] stops_at_frame [OF assms(1,2)] assms(3)
  by simp

lemma read10_early:
  assumes "\<not> bytes_contains m EOM10" "m = m' @ '']]>''" "length m \<le> mx"
  shows "read10 mx e [] [] False ((m @ EOM10) @ rest) = (Inr m', '']]>'' @ rest)"
  using read10_stops [of "[]" "[]" "m' @ EOM10" mx e False "'']]>'' @ rest"]
    stops_at_early [OF assms(1,2)] assms(2,3)
  by (simp add: EOM10_def)

section \<open>Chunked framing\<close>

lemma is_digit_not_NL: "is_digit c \<Longrightarrow> c \<noteq> NL"
  by (auto simp: is_digit_def)

lemma dec_val_prefix_le: "dec_val pre \<le> dec_val (pre @ post)"
  by (induction post rule: rev_induct) (auto simp: dec_val_snoc simp flip: append_assoc)

lemma read_size_digits:
  assumes "\<forall>c \<in> set post. is_digit c" and "dec_val (pre @ post) \<le> mx"
    and "length (pre @ post) \<le> 10"
  shows "read_size mx e (dec_val pre) (length pre) (post @ NL # rest)
       = (Inr (dec_val (pre @ post)), rest)"
  using assms
proof (induction post arbitrary: pre)
  case (Cons c post)
  have v: "dec_val pre * 10 + digit_val c = dec_val (pre @ [c])" by (simp add: dec_val_snoc)
  have le: "dec_val (pre @ [c]) \<le> mx"
    using dec_val_prefix_le [of "pre @ [c]" post] Cons.prems(2) by simp
  have "read_size mx e (dec_val (pre @ [c])) (length (pre @ [c])) (post @ NL # rest)
      = (Inr (dec_val ((pre @ [c]) @ post)), rest)"
    by (rule Cons.IH) (use Cons.prems in auto)
  then show ?case
    using Cons.prems is_digit_not_NL [of c] le by (auto simp: v is_digit_def)
qed simp

text \<open>One chunk as RFC 6242 writes it, and a message as a sequence of chunks.\<close>

definition chunk :: "bytes \<Rightarrow> bytes" where
  "chunk c = NL # CHR ''#'' # dec_digits (length c) @ NL # c"

definition end_of_chunks :: bytes where
  "end_of_chunks = [NL, CHR ''#'', CHR ''#'', NL]"

lemma read11_end: "0 < n \<Longrightarrow> read11 mx e msg n (end_of_chunks @ rest) = (Inr msg, rest)"
  by (simp add: read11.simps end_of_chunks_def expect_def)

lemma read11_chunk:
  assumes "c \<noteq> []" and "length msg + length c \<le> mx" and "mx < 10 ^ 10"
  shows "read11 mx e msg n (chunk c @ rest) = read11 mx e (msg @ c) (Suc n) rest"
proof -
  obtain d ds where ds: "dec_digits (length c) = d # ds"
    by (cases "dec_digits (length c)") auto
  have dig: "is_digit d" "\<forall>x \<in> set ds. is_digit x"
    using dec_digits_all_digits [of "length c"] ds by auto
  have "d \<noteq> CHR ''0''" using hd_dec_digits [of "length c"] assms(1) ds by simp
  then have d1: "byte d \<noteq> (48 :: nat)" using byte_neq [of d "CHR ''0''"] by simp
  have "length (d # ds) \<le> 10" using dec_digits_length [of "length c" 10] assms(2,3) ds by simp
  moreover have "dec_val (d # ds) = length c" using dec_val_dec_digits [of "length c"] ds by simp
  ultimately have sz: "read_size mx e (digit_val d) (Suc 0) (ds @ NL # c @ rest) = (Inr (length c), c @ rest)"
    using read_size_digits [of ds "[d]" mx e "c @ rest"] dig(2) assms(2)
    by (simp add: dec_val_def)
  have "d \<noteq> CHR ''#''" using dig(1) by (auto simp: is_digit_def)
  with dig(1) d1 assms(1,2) sz show ?thesis
    by (simp add: read11.simps [of mx e msg n] chunk_def ds expect_def is_digit_def)
qed

lemma read11_chunks:
  assumes "\<forall>c \<in> set cs. c \<noteq> []" and "length msg + length (concat cs) \<le> mx" and "mx < 10 ^ 10"
    and "cs \<noteq> [] \<or> 0 < n"
  shows "read11 mx e msg n (concat (map chunk cs) @ end_of_chunks @ rest)
       = (Inr (msg @ concat cs), rest)"
  using assms
proof (induction cs arbitrary: msg n)
  case Nil
  then show ?case by (simp add: read11_end)
next
  case (Cons c cs)
  then show ?case
    using read11_chunk [of c msg mx e n "concat (map chunk cs) @ end_of_chunks @ rest"] by simp
qed

lemma MaxMessageSize_digits: "MaxMessageSize < 10 ^ 10"
  by (simp add: MaxMessageSize_def)

lemma Write1_1_chunk:
  "Write1_1 m = Inr f \<longleftrightarrow> m \<noteq> [] \<and> length m \<le> MaxMessageSize \<and> f = chunk m @ end_of_chunks"
  by (auto simp: Write1_1_def chunk_def end_of_chunks_def itoa_def)

lemma read11_frame:
  "Write1_1 m = Inr f \<Longrightarrow> read11 MaxMessageSize e [] 0 (f @ rest) = (Inr m, rest)"
  using read11_chunks [of "[m]" "[]" MaxMessageSize 0 e rest] MaxMessageSize_digits
  by (auto simp: Write1_1_chunk)

section \<open>The decoded payload is bounded\<close>

lemma read10_bound: "read10 mx e msg win got inp = (Inr m, rest) \<Longrightarrow> length msg \<le> mx \<Longrightarrow> length m \<le> mx"
  by (induction mx e msg win got inp rule: read10.induct) (auto simp: Let_def split: if_splits)

lemma read11_bound: "read11 mx e msg n inp = (Inr m, rest) \<Longrightarrow> length msg \<le> mx \<Longrightarrow> length m \<le> mx"
proof (induction mx e msg n inp arbitrary: m rest rule: read11.induct)
  case (1 mx e msg n inp)
  from "1.prems" show ?case
    by (subst (asm) read11.simps)
      (auto split: list.splits if_splits prod.splits option.splits sum.splits intro: "1.IH")
qed

text \<open>Reading consumes a prefix of the input: what is left is a suffix of it.\<close>

lemma read10_suffix: "read10 mx e msg win got inp = (r, rest) \<Longrightarrow> suffix rest inp"
  by (induction mx e msg win got inp rule: read10.induct)
    (auto simp: Let_def suffix_Cons split: if_splits)

lemma read_size_suffix: "read_size mx e sz digits inp = (r, rest) \<Longrightarrow> suffix rest inp"
  by (induction mx e sz digits inp rule: read_size.induct)
    (auto simp: Let_def suffix_Cons split: if_splits)

lemma expect_suffix: "expect e want inp = (r, rest) \<Longrightarrow> suffix rest inp"
  by (auto simp: expect_def suffix_Cons split: list.splits if_splits)

lemma read11_suffix: "read11 mx e msg n inp = (r, rest) \<Longrightarrow> suffix rest inp"
proof (induction "length inp" arbitrary: msg n inp r rest rule: less_induct)
  case less
  have next_chunk: "suffix rest (NL # i1)"
    if "read11 mx e msg' n' (drop k i4) = (r, rest)" "suffix i4 i3" "suffix (b # i3) i1" "inp = NL # i1"
    for msg' n' k i4 i3 b i1
  proof -
    have d: "suffix (drop k i4) i1"
      using that(2,3) by (meson suffix_ConsD suffix_drop suffix_order.order_trans)
    then have "length (drop k i4) < length inp" using suffix_length_le [OF d] that(4) by simp
    from less.hyps [OF this that(1)] d show ?thesis
      by (meson suffix_ConsI suffix_order.order_trans)
  qed
  from less.prems show ?case
    by (subst (asm) read11.simps)
      (auto split: list.splits if_splits prod.splits option.splits sum.splits
        dest!: expect_suffix read_size_suffix elim: next_chunk
        intro: suffix_order.order_trans suffix_ConsI)
qed

section \<open>A stream of messages\<close>

text \<open>
  What a session relies on: a frame is read back as the message it was written from, and
  reading leaves what follows the frame. A whole conversation written frame after frame is
  then read back message by message. \<open>feed\<close> is the reader whose connection still holds the
  given bytes.
\<close>

fun write_all :: "(bytes \<Rightarrow> ferr + bytes) \<Rightarrow> bytes list \<Rightarrow> ferr + bytes" where
  "write_all enc [] = Inr []"
| "write_all enc (m # ms) = (case enc m of Inl e \<Rightarrow> Inl e
     | Inr f \<Rightarrow> (case write_all enc ms of Inl e \<Rightarrow> Inl e | Inr fs \<Rightarrow> Inr (f @ fs)))"

fun read_n :: "('r \<Rightarrow> (ferr + bytes) \<times> 'r) \<Rightarrow> nat \<Rightarrow> 'r \<Rightarrow> (ferr + bytes list) \<times> 'r" where
  "read_n dec 0 r = (Inr [], r)"
| "read_n dec (Suc n) r = (case dec r of (Inl e, r') \<Rightarrow> (Inl e, r')
     | (Inr m, r') \<Rightarrow> (case read_n dec n r' of (Inl e, r'') \<Rightarrow> (Inl e, r'')
         | (Inr ms, r'') \<Rightarrow> (Inr (m # ms), r'')))"

locale frame_codec =
  fixes enc :: "bytes \<Rightarrow> ferr + bytes"
    and dec :: "'r \<Rightarrow> (ferr + bytes) \<times> 'r"
    and feed :: "bytes \<Rightarrow> 'r"
    and sendable :: "bytes \<Rightarrow> bool"
  assumes enc_ok: "sendable m \<Longrightarrow> \<exists>f. enc m = Inr f"
    and dec_enc: "sendable m \<Longrightarrow> enc m = Inr f \<Longrightarrow> dec (feed (f @ rest)) = (Inr m, feed rest)"
begin

lemma stream_round_trip:
  "\<forall>m \<in> set ms. sendable m \<Longrightarrow>
     \<exists>fs. write_all enc ms = Inr fs \<and> read_n dec (length ms) (feed (fs @ rest)) = (Inr ms, feed rest)"
proof (induction ms)
  case (Cons m ms)
  then obtain fs where "write_all enc ms = Inr fs"
      "read_n dec (length ms) (feed (fs @ rest)) = (Inr ms, feed rest)"
    by auto
  moreover from Cons.prems obtain f where "enc m = Inr f" using enc_ok [of m] by auto
  ultimately show ?case using Cons.prems dec_enc [of m f "fs @ rest"] by auto
qed simp

end

text \<open>Payloads each framing carries faithfully.\<close>

definition sendable :: "version \<Rightarrow> bytes \<Rightarrow> bool" where
  "sendable ver m \<longleftrightarrow> length m \<le> MaxMessageSize \<and>
     (if ver = Version10 then \<not> bytes_contains m EOM10 \<and> \<not> suffix '']]>'' m else m \<noteq> [])"

lemma ReadMessage_10:
  "ReadMessage (NewReader inp e Version10) =
     (case read10 MaxMessageSize e [] [] False inp of (r, rest) \<Rightarrow> (r, NewReader rest e Version10))"
  by (simp add: ReadMessage_def NewReader_def split: prod.split)

lemma ReadMessage_11:
  "ReadMessage (NewReader inp e Version11) =
     (case read11 MaxMessageSize e [] 0 inp of (r, rest) \<Rightarrow> (r, NewReader rest e Version11))"
  by (simp add: ReadMessage_def NewReader_def split: prod.split)

lemma Write_10: "sendable Version10 m \<Longrightarrow> Write Version10 m = Inr (m @ EOM10)"
  by (simp add: Write_def Write1_0_def sendable_def)

lemma Write_11: "sendable Version11 m \<Longrightarrow> Write Version11 m = Inr (chunk m @ end_of_chunks)"
  using Write1_1_chunk [of m "chunk m @ end_of_chunks"] by (simp add: Write_def sendable_def)

interpretation eom: frame_codec "Write Version10" ReadMessage "\<lambda>inp. NewReader inp e Version10"
  "sendable Version10" for e
proof unfold_locales
  show "\<exists>f. Write Version10 m = Inr f" if "sendable Version10 m" for m
    using Write_10 [OF that] by blast
  show "ReadMessage (NewReader (f @ rest) e Version10) = (Inr m, NewReader rest e Version10)"
    if "sendable Version10 m" "Write Version10 m = Inr f" for m f rest
    using that Write_10 [OF that(1)] read10_frame [of m MaxMessageSize e rest]
    by (simp add: sendable_def ReadMessage_10)
qed

interpretation chunked: frame_codec "Write Version11" ReadMessage "\<lambda>inp. NewReader inp e Version11"
  "sendable Version11" for e
proof unfold_locales
  show "\<exists>f. Write Version11 m = Inr f" if "sendable Version11 m" for m
    using Write_11 [OF that] by blast
  show "ReadMessage (NewReader (f @ rest) e Version11) = (Inr m, NewReader rest e Version11)"
    if "sendable Version11 m" "Write Version11 m = Inr f" for m f rest
  proof -
    have "f = chunk m @ end_of_chunks" using that Write_11 [OF that(1)] by simp
    then show ?thesis
      using that(1) read11_chunks [of "[m]" "[]" MaxMessageSize 0 e rest] MaxMessageSize_digits
      by (simp add: sendable_def ReadMessage_11)
  qed
qed

section \<open>Properties\<close>

text \<open>C35: Both framings carry a conversation: if every message is one the negotiated framing can
  carry, then the frames written one after another are read back as exactly those messages,
  in order, and the reader is left at the bytes that follow the last frame.\<close>

theorem conversation_round_trip:
  assumes "ver = Version10 \<or> ver = Version11" and "\<forall>m \<in> set ms. sendable ver m"
  shows "\<exists>fs. write_all (Write ver) ms = Inr fs \<and>
     read_n ReadMessage (length ms) (NewReader (fs @ rest) e ver) = (Inr ms, NewReader rest e ver)"
  using assms eom.stream_round_trip chunked.stream_round_trip by blast

theorem conversation_round_trip_witness:
  "\<exists>fs. write_all (Write Version11) [''<hello/>'', '']]>]]>''] = Inr fs \<and>
     read_n ReadMessage 2 (NewReader (fs @ ''tail'') EOF Version11)
       = (Inr [''<hello/>'', '']]>]]>''], NewReader ''tail'' EOF Version11)"
proof -
  have "\<forall>m \<in> set [''<hello/>'', '']]>]]>'']. sendable Version11 m"
    by (simp add: sendable_def MaxMessageSize_def)
  from conversation_round_trip [OF disjI2 [OF refl] this, of "''tail''" EOF] show ?thesis
    by (simp add: numeral_2_eq_2 del: write_all.simps read_n.simps)
qed

text \<open>A 1.1 message may arrive in any division into non-empty chunks whose total fits the
  limit: the reader returns their concatenation and stops right after the end-of-chunks mark.\<close>

theorem any_chunking_decodes:
  assumes "cs \<noteq> []" and "\<forall>c \<in> set cs. c \<noteq> []" and "length (concat cs) \<le> MaxMessageSize"
  shows "ReadMessage (NewReader (concat (map chunk cs) @ end_of_chunks @ rest) e Version11)
       = (Inr (concat cs), NewReader rest e Version11)"
  using assms read11_chunks [of cs "[]" MaxMessageSize 0 e rest] MaxMessageSize_digits
  by (simp add: ReadMessage_11)

theorem any_chunking_decodes_witness:
  "ReadMessage (NewReader (concat (map chunk [''<rp'', ''c/>'']) @ end_of_chunks @ ''x'') EOF Version11)
     = (Inr (concat [''<rp'', ''c/>'']), NewReader ''x'' EOF Version11)"
  by (rule any_chunking_decodes) (simp_all add: MaxMessageSize_def)

text \<open>Exactly when the 1.0 framing is faithful: a payload that \<open>Write1_0\<close> accepts is read
  back unchanged if and only if it does not end in the last three bytes of the delimiter.
  The writer rejects a payload that contains the delimiter but not one that completes it
  together with the delimiter that follows.\<close>

theorem eom_framing_exact:
  assumes "Write1_0 m = Inr f"
  shows "ReadMessage (NewReader (f @ rest) e Version10) = (Inr m, NewReader rest e Version10)
     \<longleftrightarrow> \<not> suffix '']]>'' m"
proof -
  from assms have w: "\<not> bytes_contains m EOM10" "length m \<le> MaxMessageSize" "f = m @ EOM10"
    by (auto simp: Write1_0_def split: if_splits)
  show ?thesis
  proof (cases "suffix '']]>'' m")
    case True
    then obtain m' where m': "m = m' @ '']]>''" by (auto simp: suffix_def)
    with read10_early [OF w(1) m' w(2), of e rest] w(3) True show ?thesis
      by (simp add: ReadMessage_10)
  next
    case False
    with read10_frame [OF w(1) False w(2), of e rest] w(3) show ?thesis
      by (simp add: ReadMessage_10)
  qed
qed

theorem eom_framing_exact_witness:
  "Write1_0 ''a]]>'' = Inr ''a]]>]]>]]>''
   \<and> ReadMessage (NewReader ''a]]>]]>]]>'' EOF Version10) \<noteq> (Inr ''a]]>'', NewReader [] EOF Version10)"
proof -
  have w: "Write1_0 ''a]]>'' = Inr ''a]]>]]>]]>''"
    by (simp add: Write1_0_def EOM10_def MaxMessageSize_def)
  with eom_framing_exact [OF w, of "[]" EOF] show ?thesis by (simp add: suffix_def)
qed

text \<open>No reader ever returns a payload larger than its limit, whatever bytes the peer sends,
  and what it has not consumed is a suffix of what it was given.\<close>

theorem read_message_bounded:
  assumes "ReadMessage r = (Inr m, r')"
  shows "length m \<le> r_max r \<and> suffix (r_in r') (r_in r) \<and> r_max r' = r_max r \<and> r_ver r' = r_ver r"
  using assms read10_bound read11_bound read10_suffix read11_suffix
  by (fastforce simp: ReadMessage_def split: if_splits prod.splits)

theorem read_message_bounded_witness:
  "ReadMessage \<lparr>r_in = ''ab]]>]]>'', r_end = EOF, r_ver = 10, r_max = 2\<rparr>
     = (Inr ''ab'', \<lparr>r_in = [], r_end = EOF, r_ver = 10, r_max = 2\<rparr>) \<and> length ''ab'' \<le> (2 :: nat)"
proof -
  have r: "ReadMessage \<lparr>r_in = ''ab]]>]]>'', r_end = EOF, r_ver = 10, r_max = 2\<rparr>
     = (Inr ''ab'', \<lparr>r_in = [], r_end = EOF, r_ver = 10, r_max = 2\<rparr>)"
    by (simp add: ReadMessage_def EOM10_def)
  from read_message_bounded [OF r] r show ?thesis by simp
qed

end
