(* ===== verification/Xml_Lib.thy ===== *)
theory Xml_Lib
  imports Golib "HOL-Library.List_Lexorder" "HOL-Library.Char_ord"
begin

text \<open>
  What the NETCONF packages use of \<open>encoding/xml\<close>. Writing is concrete: the escaping of text and
  the form of start and end tags. Reading is a parameter: the record \<open>xmllib\<close> has the element
  that a strict decoder finds first in a document, with its content or the error met inside it.
  An element keeps the bytes between its tags, which \<open>innerxml\<close> fields return. Byte strings
  are ordered as Go orders strings.
\<close>

section \<open>Reading\<close>

datatype xname = XName (xn_space: string) (xn_local: string)

datatype xattr = XAttr (xa_name: xname) (xa_value: string)

text \<open>An element has its name, attributes, the bytes of its content, and the content itself.\<close>

datatype xml =
    Elem xname "xattr list" bytes "xml list"
  | CData bytes

text \<open>
  What a decoder finds up to the end of the first element: no start element before the end of
  the input, an error before the first start element, or that element with its content or the
  error that cuts it short.
\<close>

datatype xroot =
    NoRoot
  | BadProlog string
  | Root xname "xattr list" "string + bytes \<times> xml list"

record xmllib =
  xml_root :: "bytes \<Rightarrow> xroot"
  quote_str :: "string \<Rightarrow> string"
  format_float :: "f64 \<Rightarrow> string"
  conv_i64 :: "f64 \<Rightarrow> int"

fun chardata :: "xml \<Rightarrow> bytes" where
  "chardata (CData t) = t"
| "chardata (Elem n as raw kids) = []"

text \<open>Decoding an element into a string: its own character data, without that of its children.\<close>

definition text_of :: "xml list \<Rightarrow> string" where
  "text_of kids = concat (map chardata kids)"

text \<open>The value of an attribute field: the last attribute with that local name.\<close>

definition attr_of :: "string \<Rightarrow> xattr list \<Rightarrow> string" where
  "attr_of nm as = fold (\<lambda>a v. if xn_local (xa_name a) = nm then xa_value a else v) as []"

section \<open>Escaping\<close>

definition in_char_range :: "nat \<Rightarrow> bool" where
  "in_char_range r \<longleftrightarrow> r = 9 \<or> r = 10 \<or> r = 13 \<or> (32 \<le> r \<and> r \<le> 55295)
     \<or> (57344 \<le> r \<and> r \<le> 65533) \<or> (65536 \<le> r \<and> r \<le> 1114111)"

text \<open>What \<open>xml.EscapeText\<close> writes for a rune of the given width, or that it is copied.\<close>

definition escape_rune :: "nat \<Rightarrow> nat \<Rightarrow> bytes option" where
  "escape_rune r w =
    (if r = 34 then Some ''&#34;''
     else if r = 39 then Some ''&#39;''
     else if r = 38 then Some ''&amp;''
     else if r = 60 then Some ''&lt;''
     else if r = 62 then Some ''&gt;''
     else if r = 9 then Some ''&#x9;''
     else if r = 10 then Some ''&#xA;''
     else if r = 13 then Some ''&#xD;''
     else if \<not> in_char_range r \<or> (r = 65533 \<and> w = 1) then Some [CHR 0xEF, CHR 0xBF, CHR 0xBD]
     else None)"

fun escape_text :: "bytes \<Rightarrow> bytes" where
  "escape_text [] = []"
| "escape_text (c # cs) =
    (let rw = decode_rune c cs in
     (case escape_rune (fst rw) (snd rw) of Some e \<Rightarrow> e | None \<Rightarrow> c # take (snd rw - 1) cs)
     @ escape_text (drop (snd rw - 1) cs))"

declare escape_text.simps(2) [simp del]

section \<open>Documents as they are written\<close>

text \<open>
  A document before it is written: elements with their content between two tags, elements
  written as one empty tag, and text, which is escaped.
\<close>

datatype xsrc =
    Tag string "(string \<times> string) list" "xsrc list"
  | Empty string "(string \<times> string) list"
  | Txt string

definition render_attrs :: "(string \<times> string) list \<Rightarrow> bytes" where
  "render_attrs as = concat (map (\<lambda>kv. '' '' @ fst kv @ ''=\"'' @ escape_text (snd kv) @ ''\"'') as)"

fun render :: "xsrc \<Rightarrow> bytes" where
  "render (Tag n as kids) =
     ''<'' @ n @ render_attrs as @ ''>'' @ concat (map render kids) @ ''</'' @ n @ ''>''"
| "render (Empty n as) = ''<'' @ n @ render_attrs as @ ''/>''"
| "render (Txt s) = escape_text s"

abbreviation renders :: "xsrc list \<Rightarrow> bytes" where
  "renders ds \<equiv> concat (map render ds)"

definition scope :: "string \<Rightarrow> (string \<times> string) list \<Rightarrow> string" where
  "scope ns as = (case map_of as ''xmlns'' of Some u \<Rightarrow> u | None \<Rightarrow> ns)"

definition read_attrs :: "(string \<times> string) list \<Rightarrow> xattr list" where
  "read_attrs as = map (\<lambda>kv. XAttr (XName [] (fst kv)) (snd kv)) as"

text \<open>The tree that a document stands for, in the scope of a default name space.\<close>

fun read_back :: "string \<Rightarrow> xsrc \<Rightarrow> xml" where
  "read_back ns (Tag n as kids) =
     Elem (XName (scope ns as) n) (read_attrs as) (renders kids) (map (read_back (scope ns as)) kids)"
| "read_back ns (Empty n as) = Elem (XName (scope ns as) n) (read_attrs as) [] []"
| "read_back ns (Txt s) = CData s"

text \<open>The decoder reads a document as the tree it stands for.\<close>

definition reads :: "xmllib \<Rightarrow> xsrc \<Rightarrow> bool" where
  "reads X d \<longleftrightarrow> (case read_back [] d of
     Elem n as raw kids \<Rightarrow> xml_root X (render d) = Root n as (Inr (raw, kids))
   | CData t \<Rightarrow> False)"

lemma reads_Tag:
  "reads X (Tag n as kids) \<longleftrightarrow>
     xml_root X (render (Tag n as kids))
       = Root (XName (scope [] as) n) (read_attrs as) (Inr (renders kids, map (read_back (scope [] as)) kids))"
  by (simp add: reads_def)

text \<open>A decoder that knows one document, for concrete runs.\<close>

definition one_doc_lib :: "xsrc \<Rightarrow> xmllib" where
  "one_doc_lib d = \<lparr>xml_root = (\<lambda>b. if b = render d then
       (case read_back [] d of Elem n as raw kids \<Rightarrow> Root n as (Inr (raw, kids)) | CData t \<Rightarrow> NoRoot)
     else NoRoot),
     quote_str = (\<lambda>s. ''\"'' @ s @ ''\"''), format_float = (\<lambda>x. []), conv_i64 = (\<lambda>x. min_i64)\<rparr>"

lemma one_doc_reads: "reads (one_doc_lib (Tag n as kids)) (Tag n as kids)"
  by (simp add: reads_def one_doc_lib_def)

lemma scope_simps [simp]:
  "scope ns [] = ns" "scope ns ((k, v) # as) = (if k = ''xmlns'' then v else scope ns as)"
  by (simp_all add: scope_def)

lemma attr_of_read [simp]: "attr_of nm (read_attrs []) = []"
  by (simp add: attr_of_def read_attrs_def)

lemma text_of_simps [simp]:
  "text_of [] = []" "text_of (x # xs) = chardata x @ text_of xs"
  by (simp_all add: text_of_def)

lemma chardata_read_back [simp]:
  "chardata (read_back ns (Tag n as kids)) = []" "chardata (read_back ns (Empty n as)) = []"
  by simp_all

text \<open>Text that needs no escaping: plain ASCII without the five markup characters.\<close>

definition plain_text_char :: "char \<Rightarrow> bool" where
  "plain_text_char c \<longleftrightarrow> 32 \<le> byte c \<and> byte c < (127 :: nat) \<and> c \<notin> set ''\"&<>'' \<and> byte c \<noteq> (39 :: nat)"

lemma escape_text_plain: "list_all plain_text_char s \<Longrightarrow> escape_text s = s"
proof (induction s)
  case (Cons c cs)
  then have c: "plain_text_char c" by simp
  have m: "byte c \<noteq> 34" "byte c \<noteq> 38" "byte c \<noteq> 60" "byte c \<noteq> 62"
    using c byte_neq [of c "CHR 0x22"] byte_neq [of c "CHR ''&''"] byte_neq [of c "CHR ''<''"] byte_neq [of c "CHR ''>''"]
    by (auto simp: plain_text_char_def)
  with c have "decode_rune c cs = (byte c, 1)" "escape_rune (byte c) 1 = None"
    by (auto simp: plain_text_char_def decode_rune_def escape_rune_def in_char_range_def Let_def)
  with Cons show ?case by (simp add: escape_text.simps(2))
qed simp

end
