(* ===== verification/Ncrpc.thy ===== *)
theory Ncrpc
  imports Xml_Lib
begin

text \<open>
  Package \<open>ncrpc\<close> (\<open>cap.go\<close>, \<open>types.go\<close>, \<open>encode.go\<close>, \<open>decode.go\<close>): the hello, rpc and rpc-reply
  documents of NETCONF. An encoder returns the bytes it writes. The decoders of the source pull
  tokens; a strict decoder delivers them well nested, so the token loop over an element is a
  walk over the children of that element, and an error of the decoder inside the document is
  the only way a token can be missing. The theorems: every request and every reply the package
  writes is read back by its own decoder, with exactly the fields the operation carries.
\<close>

section \<open>Names\<close>

definition BaseNamespace :: string where
  "BaseNamespace = ''urn:ietf:params:xml:ns:netconf:base:1.0''"
definition NotificationNamespace :: string where
  "NotificationNamespace = ''urn:ietf:params:xml:ns:netconf:notification:1.0''"

abbreviation CapBase10 :: string where "CapBase10 \<equiv> ''urn:ietf:params:netconf:base:1.0''"
abbreviation CapBase11 :: string where "CapBase11 \<equiv> ''urn:ietf:params:netconf:base:1.1''"

definition AdvertisedCapabilities :: "string list" where
  "AdvertisedCapabilities =
    [CapBase10, CapBase11, ''urn:ietf:params:netconf:capability:candidate:1.0'',
     ''urn:ietf:params:netconf:capability:startup:1.0'', ''urn:ietf:params:netconf:capability:validate:1.0'',
     ''urn:ietf:params:netconf:capability:notification:1.0'']"

abbreviation OpGet :: string where "OpGet \<equiv> ''get''"
abbreviation OpGetConfig :: string where "OpGetConfig \<equiv> ''get-config''"
abbreviation OpEditConfig :: string where "OpEditConfig \<equiv> ''edit-config''"
abbreviation OpCopyConfig :: string where "OpCopyConfig \<equiv> ''copy-config''"
abbreviation OpDeleteConfig :: string where "OpDeleteConfig \<equiv> ''delete-config''"
abbreviation OpLock :: string where "OpLock \<equiv> ''lock''"
abbreviation OpUnlock :: string where "OpUnlock \<equiv> ''unlock''"
abbreviation OpCommit :: string where "OpCommit \<equiv> ''commit''"
abbreviation OpDiscardChanges :: string where "OpDiscardChanges \<equiv> ''discard-changes''"
abbreviation OpValidate :: string where "OpValidate \<equiv> ''validate''"
abbreviation OpCloseSession :: string where "OpCloseSession \<equiv> ''close-session''"
abbreviation OpKillSession :: string where "OpKillSession \<equiv> ''kill-session''"
abbreviation OpCreateSubscription :: string where "OpCreateSubscription \<equiv> ''create-subscription''"

abbreviation StoreRunning :: string where "StoreRunning \<equiv> ''running''"
abbreviation StoreCandidate :: string where "StoreCandidate \<equiv> ''candidate''"
abbreviation StoreStartup :: string where "StoreStartup \<equiv> ''startup''"
abbreviation FilterSubtree :: string where "FilterSubtree \<equiv> ''subtree''"
abbreviation FilterXPath :: string where "FilterXPath \<equiv> ''xpath''"

section \<open>Messages\<close>

record hello =
  he_caps :: "string list"
  he_session :: string

record nfilter =
  fl_type :: string
  fl_select :: string
  fl_inner :: bytes

record rpc =
  rp_id :: string
  rp_name :: string
  rp_ns :: string
  rp_source :: string
  rp_target :: string
  rp_filter :: "nfilter option"
  rp_defop :: string
  rp_config :: bytes
  rp_session :: string
  rp_stream :: string

record rpc_error =
  re_type :: string
  re_tag :: string
  re_severity :: string
  re_apptag :: string
  re_path :: string
  re_message :: string

record reply =
  ry_id :: string
  ry_ok :: bool
  ry_data :: "bytes option"
  ry_errors :: "rpc_error list"

record message =
  ms_hello :: "hello option"
  ms_rpc :: "rpc option"
  ms_reply :: "reply option"

abbreviation no_rpc :: rpc where
  "no_rpc \<equiv> \<lparr>rp_id = [], rp_name = [], rp_ns = [], rp_source = [], rp_target = [], rp_filter = None,
     rp_defop = [], rp_config = [], rp_session = [], rp_stream = []\<rparr>"

section \<open>Encoding\<close>

definition encodeLeaf :: "string \<Rightarrow> string \<Rightarrow> bytes" where
  "encodeLeaf name val = ''<'' @ name @ ''>'' @ escape_text val @ ''</'' @ name @ ''>''"

definition encodeConfig :: "bytes \<Rightarrow> bytes" where
  "encodeConfig config = (if config = [] then [] else ''<config>'' @ config @ ''</config>'')"

definition encodeFilter :: "nfilter option \<Rightarrow> bytes" where
  "encodeFilter f = (case f of
     None \<Rightarrow> []
   | Some f \<Rightarrow>
       ''<filter type=\"'' @ escape_text (if fl_type f = [] then FilterSubtree else fl_type f) @ ''\"''
       @ (if fl_select f = [] then [] else '' select=\"'' @ escape_text (fl_select f) @ ''\"'')
       @ (if fl_inner f = [] then ''/>'' else ''>'' @ fl_inner f @ ''</filter>''))"

definition encodeDatastore :: "string \<Rightarrow> string \<Rightarrow> bytes" where
  "encodeDatastore tag st =
    (if st = [] then [] else ''<'' @ tag @ ''><'' @ st @ ''/></'' @ tag @ ''>'')"

definition encodeContainer :: "string \<Rightarrow> string \<Rightarrow> bytes \<Rightarrow> bytes" where
  "encodeContainer name xmlns inner =
    ''<'' @ name @ (if xmlns = [] then [] else '' xmlns=\"'' @ xmlns @ ''\"'')
    @ (if inner = [] then ''/>'' else ''>'' @ inner @ ''</'' @ name @ ''>'')"

definition opt_leaf :: "string \<Rightarrow> string \<Rightarrow> bytes" where
  "opt_leaf name val = (if val = [] then [] else encodeLeaf name val)"

definition op_body :: "rpc \<Rightarrow> bytes" where
  "op_body r =
    (if rp_name r = OpCopyConfig then
       encodeDatastore ''target'' (rp_target r) @ encodeDatastore ''source'' (rp_source r)
     else if rp_name r = OpEditConfig then
       encodeDatastore ''target'' (rp_target r) @ opt_leaf ''default-operation'' (rp_defop r)
       @ encodeFilter (rp_filter r) @ encodeConfig (rp_config r)
     else if rp_name r = OpGet then encodeFilter (rp_filter r)
     else if rp_name r = OpGetConfig \<or> rp_name r = OpValidate then
       encodeDatastore ''source'' (rp_source r) @ encodeFilter (rp_filter r)
     else if rp_name r = OpDeleteConfig \<or> rp_name r = OpLock \<or> rp_name r = OpUnlock then
       encodeDatastore ''target'' (rp_target r)
     else if rp_name r = OpKillSession then opt_leaf ''session-id'' (rp_session r)
     else if rp_name r = OpCreateSubscription then
       opt_leaf ''stream'' (rp_stream r) @ encodeFilter (rp_filter r)
     else
       encodeDatastore ''source'' (rp_source r) @ encodeDatastore ''target'' (rp_target r)
       @ opt_leaf ''default-operation'' (rp_defop r) @ encodeFilter (rp_filter r)
       @ encodeConfig (rp_config r) @ opt_leaf ''session-id'' (rp_session r)
       @ opt_leaf ''stream'' (rp_stream r))"

definition encodeOp :: "rpc \<Rightarrow> bytes" where
  "encodeOp r =
    (let xmlns = (if rp_name r = OpCreateSubscription then NotificationNamespace else [])
     in encodeContainer (rp_name r) xmlns (op_body r))"

definition encodeError :: "rpc_error \<Rightarrow> bytes" where
  "encodeError e =
    ''<rpc-error>''
    @ opt_leaf ''error-type'' (re_type e) @ opt_leaf ''error-tag'' (re_tag e)
    @ opt_leaf ''error-severity'' (re_severity e) @ opt_leaf ''error-app-tag'' (re_apptag e)
    @ opt_leaf ''error-path'' (re_path e) @ opt_leaf ''error-message'' (re_message e)
    @ ''</rpc-error>''"

text \<open>\<open>xml.Marshal\<close> of a struct whose name carries the base name space and whose content is raw.\<close>

definition marshal_doc :: "string \<Rightarrow> string \<Rightarrow> bytes \<Rightarrow> bytes" where
  "marshal_doc name mid inner =
    ''<'' @ name @ '' xmlns=\"'' @ BaseNamespace @ ''\" message-id=\"'' @ escape_text mid @ ''\">''
    @ inner @ ''</'' @ name @ ''>''"

definition EncodeHello :: "hello \<Rightarrow> bytes" where
  "EncodeHello h =
    ''<hello xmlns=\"'' @ BaseNamespace @ ''\">''
    @ (if he_caps h = [] then []
       else ''<capabilities>'' @ concat (map (encodeLeaf ''capability'') (he_caps h)) @ ''</capabilities>'')
    @ opt_leaf ''session-id'' (he_session h) @ ''</hello>''"

definition EncodeRPC :: "rpc \<Rightarrow> string + bytes" where
  "EncodeRPC r =
    (if rp_id r = [] then Inl ''ncrpc: missing message-id''
     else if rp_name r = [] then Inl ''ncrpc: missing rpc operation''
     else Inr (marshal_doc ''rpc'' (rp_id r) (encodeOp r)))"

definition EncodeReply :: "reply \<Rightarrow> string + bytes" where
  "EncodeReply r =
    (if ry_id r = [] then Inl ''ncrpc: missing message-id''
     else Inr (marshal_doc ''rpc-reply'' (ry_id r)
       (if ry_errors r \<noteq> [] then concat (map encodeError (ry_errors r))
        else (case ry_data r of
                Some d \<Rightarrow> ''<data>'' @ d @ ''</data>''
              | None \<Rightarrow> ''<ok/>''))))"

definition Encode :: "message \<Rightarrow> string + bytes" where
  "Encode m =
    (let n = (if ms_hello m \<noteq> None then 1 else 0) + (if ms_rpc m \<noteq> None then 1 else 0)
             + (if ms_reply m \<noteq> None then 1 else (0 :: nat)) in
     if n \<noteq> 1 then Inl ''ncrpc: message must be hello, rpc, or rpc-reply''
     else (case ms_hello m of
             Some h \<Rightarrow> Inr (EncodeHello h)
           | None \<Rightarrow>
               (case ms_rpc m of
                  Some r \<Rightarrow> EncodeRPC r
                | None \<Rightarrow> EncodeReply (the (ms_reply m)))))"

section \<open>Decoding\<close>

text \<open>A loop over the child elements of an element; everything else between them is skipped.\<close>

fun on_child :: "(string \<Rightarrow> string \<Rightarrow> xattr list \<Rightarrow> bytes \<Rightarrow> xml list \<Rightarrow> 's \<Rightarrow> 's) \<Rightarrow> xml \<Rightarrow> 's \<Rightarrow> 's" where
  "on_child f (Elem n as raw kids) s = f (xn_local n) (xn_space n) as raw kids s"
| "on_child f (CData t) s = s"

definition decodeCaps :: "xml list \<Rightarrow> string list" where
  "decodeCaps kids = fold (on_child (\<lambda>loc sp as raw ks caps.
     if loc = ''capability'' then caps @ [text_of ks] else caps)) kids []"

definition decodeHello :: "xml list \<Rightarrow> hello" where
  "decodeHello kids = fold (on_child (\<lambda>loc sp as raw ks h.
     if loc = ''capabilities'' then h\<lparr>he_caps := decodeCaps ks\<rparr>
     else if loc = ''session-id'' then h\<lparr>he_session := text_of ks\<rparr>
     else h)) kids \<lparr>he_caps = [], he_session = []\<rparr>"

definition decodeDatastore :: "xml list \<Rightarrow> string" where
  "decodeDatastore kids = fold (on_child (\<lambda>loc sp as raw ks name.
     if loc = StoreRunning \<or> loc = StoreCandidate \<or> loc = StoreStartup then loc
     else if loc = ''url'' then ''url''
     else name)) kids []"

definition decodeFilter :: "xattr list \<Rightarrow> bytes \<Rightarrow> nfilter" where
  "decodeFilter as raw =
    (let typ = attr_of ''type'' as in
     \<lparr>fl_type = (if typ = [] then FilterSubtree else typ), fl_select = attr_of ''select'' as, fl_inner = raw\<rparr>)"

definition op_child :: "string \<Rightarrow> string \<Rightarrow> xattr list \<Rightarrow> bytes \<Rightarrow> xml list \<Rightarrow> rpc \<Rightarrow> rpc" where
  "op_child loc sp as raw ks r =
    (if loc = ''source'' then r\<lparr>rp_source := decodeDatastore ks\<rparr>
     else if loc = ''target'' then r\<lparr>rp_target := decodeDatastore ks\<rparr>
     else if loc = ''filter'' then r\<lparr>rp_filter := Some (decodeFilter as raw)\<rparr>
     else if loc = ''default-operation'' then r\<lparr>rp_defop := text_of ks\<rparr>
     else if loc = ''config'' then r\<lparr>rp_config := raw\<rparr>
     else if loc = ''session-id'' then r\<lparr>rp_session := text_of ks\<rparr>
     else if loc = ''stream'' then r\<lparr>rp_stream := text_of ks\<rparr>
     else r)"

definition decodeOp :: "string \<Rightarrow> string \<Rightarrow> xml list \<Rightarrow> rpc \<Rightarrow> rpc" where
  "decodeOp loc sp kids r = fold (on_child op_child) kids (r\<lparr>rp_name := loc, rp_ns := sp\<rparr>)"

definition decodeRPC :: "xattr list \<Rightarrow> xml list \<Rightarrow> string + rpc" where
  "decodeRPC as kids =
    (let r = fold (on_child (\<lambda>loc sp as raw ks r.
               if rp_name r = [] then decodeOp loc sp ks r else r)) kids
               (no_rpc\<lparr>rp_id := attr_of ''message-id'' as\<rparr>)
     in if rp_name r = [] then Inl ''ncrpc: missing rpc operation'' else Inr r)"

definition error_child :: "string \<Rightarrow> string \<Rightarrow> xattr list \<Rightarrow> bytes \<Rightarrow> xml list \<Rightarrow> rpc_error \<Rightarrow> rpc_error" where
  "error_child loc sp as raw ks e =
    (if loc = ''error-type'' then e\<lparr>re_type := text_of ks\<rparr>
     else if loc = ''error-tag'' then e\<lparr>re_tag := text_of ks\<rparr>
     else if loc = ''error-severity'' then e\<lparr>re_severity := text_of ks\<rparr>
     else if loc = ''error-app-tag'' then e\<lparr>re_apptag := text_of ks\<rparr>
     else if loc = ''error-path'' then e\<lparr>re_path := text_of ks\<rparr>
     else if loc = ''error-message'' then e\<lparr>re_message := text_of ks\<rparr>
     else e)"

definition decodeError :: "xml list \<Rightarrow> rpc_error" where
  "decodeError kids = fold (on_child error_child) kids
     \<lparr>re_type = [], re_tag = [], re_severity = [], re_apptag = [], re_path = [], re_message = []\<rparr>"

definition reply_child :: "string \<Rightarrow> string \<Rightarrow> xattr list \<Rightarrow> bytes \<Rightarrow> xml list \<Rightarrow> reply \<Rightarrow> reply" where
  "reply_child loc sp as raw ks r =
    (if loc = ''ok'' then r\<lparr>ry_ok := True\<rparr>
     else if loc = ''data'' then r\<lparr>ry_data := Some raw\<rparr>
     else if loc = ''rpc-error'' then r\<lparr>ry_errors := ry_errors r @ [decodeError ks]\<rparr>
     else r)"

definition decodeReply :: "xattr list \<Rightarrow> xml list \<Rightarrow> reply" where
  "decodeReply as kids = fold (on_child reply_child) kids
     \<lparr>ry_id = attr_of ''message-id'' as, ry_ok = False, ry_data = None, ry_errors = []\<rparr>"

abbreviation hello_msg :: "hello \<Rightarrow> message" where
  "hello_msg h \<equiv> \<lparr>ms_hello = Some h, ms_rpc = None, ms_reply = None\<rparr>"
abbreviation rpc_msg :: "rpc \<Rightarrow> message" where
  "rpc_msg r \<equiv> \<lparr>ms_hello = None, ms_rpc = Some r, ms_reply = None\<rparr>"
abbreviation reply_msg :: "reply \<Rightarrow> message" where
  "reply_msg r \<equiv> \<lparr>ms_hello = None, ms_rpc = None, ms_reply = Some r\<rparr>"

definition Decode :: "xmllib \<Rightarrow> bytes \<Rightarrow> string + message" where
  "Decode X msg = (case xml_root X msg of
     NoRoot \<Rightarrow> Inl ''ncrpc: missing root element''
   | BadProlog e \<Rightarrow> Inl (''ncrpc: '' @ e)
   | Root n as content \<Rightarrow>
       if xn_local n = ''hello'' then
         (case content of Inl e \<Rightarrow> Inl e | Inr rk \<Rightarrow> Inr (hello_msg (decodeHello (snd rk))))
       else if xn_local n = ''rpc'' then
         (case content of
            Inl e \<Rightarrow> Inl e
          | Inr rk \<Rightarrow> (case decodeRPC as (snd rk) of Inl e \<Rightarrow> Inl e | Inr r \<Rightarrow> Inr (rpc_msg r)))
       else if xn_local n = ''rpc-reply'' then
         (case content of Inl e \<Rightarrow> Inl e | Inr rk \<Rightarrow> Inr (reply_msg (decodeReply as (snd rk))))
       else Inl (''ncrpc: unexpected element '' @ quote_str X (xn_local n)))"

section \<open>What the encoders write\<close>

text \<open>
  The documents behind the bytes. The content of a filter and of a config element is XML that
  the caller supplies as bytes; here it is given as the elements those bytes are written from.
\<close>

definition opt_docs :: "string \<Rightarrow> string \<Rightarrow> xsrc list" where
  "opt_docs n s = (if s = [] then [] else [Tag n [] [Txt s]])"

definition store_docs :: "string \<Rightarrow> string \<Rightarrow> xsrc list" where
  "store_docs tag st = (if st = [] then [] else [Tag tag [] [Empty st []]])"

definition filter_docs :: "nfilter option \<Rightarrow> xsrc list \<Rightarrow> xsrc list" where
  "filter_docs f kids = (case f of
     None \<Rightarrow> []
   | Some f \<Rightarrow>
       (let as = (''type'', if fl_type f = [] then FilterSubtree else fl_type f)
                 # (if fl_select f = [] then [] else [(''select'', fl_select f)])
        in [if kids = [] then Empty ''filter'' as else Tag ''filter'' as kids]))"

definition config_docs :: "xsrc list \<Rightarrow> xsrc list" where
  "config_docs kids = (if kids = [] then [] else [Tag ''config'' [] kids])"

definition op_docs :: "rpc \<Rightarrow> xsrc list \<Rightarrow> xsrc list \<Rightarrow> xsrc list" where
  "op_docs r fk ck =
    (if rp_name r = OpCopyConfig then store_docs ''target'' (rp_target r) @ store_docs ''source'' (rp_source r)
     else if rp_name r = OpEditConfig then
       store_docs ''target'' (rp_target r) @ opt_docs ''default-operation'' (rp_defop r)
       @ filter_docs (rp_filter r) fk @ config_docs ck
     else if rp_name r = OpGet then filter_docs (rp_filter r) fk
     else if rp_name r = OpGetConfig \<or> rp_name r = OpValidate then
       store_docs ''source'' (rp_source r) @ filter_docs (rp_filter r) fk
     else if rp_name r = OpDeleteConfig \<or> rp_name r = OpLock \<or> rp_name r = OpUnlock then
       store_docs ''target'' (rp_target r)
     else if rp_name r = OpKillSession then opt_docs ''session-id'' (rp_session r)
     else if rp_name r = OpCreateSubscription then
       opt_docs ''stream'' (rp_stream r) @ filter_docs (rp_filter r) fk
     else
       store_docs ''source'' (rp_source r) @ store_docs ''target'' (rp_target r)
       @ opt_docs ''default-operation'' (rp_defop r) @ filter_docs (rp_filter r) fk
       @ config_docs ck @ opt_docs ''session-id'' (rp_session r) @ opt_docs ''stream'' (rp_stream r))"

definition op_attrs :: "rpc \<Rightarrow> (string \<times> string) list" where
  "op_attrs r = (if rp_name r = OpCreateSubscription then [(''xmlns'', NotificationNamespace)] else [])"

definition op_doc :: "rpc \<Rightarrow> xsrc list \<Rightarrow> xsrc list \<Rightarrow> xsrc" where
  "op_doc r fk ck = (if op_docs r fk ck = [] then Empty (rp_name r) (op_attrs r)
     else Tag (rp_name r) (op_attrs r) (op_docs r fk ck))"

definition rpc_doc :: "rpc \<Rightarrow> xsrc list \<Rightarrow> xsrc list \<Rightarrow> xsrc" where
  "rpc_doc r fk ck = Tag ''rpc'' [(''xmlns'', BaseNamespace), (''message-id'', rp_id r)] [op_doc r fk ck]"

text \<open>A forest of elements, whose bytes are empty only if there is none.\<close>

fun is_elem :: "xsrc \<Rightarrow> bool" where
  "is_elem (Txt s) = False"
| "is_elem d = True"

lemma render_elem: "is_elem d \<Longrightarrow> render d \<noteq> []"
  by (cases d) auto

lemma renders_empty_iff: "list_all is_elem ds \<Longrightarrow> renders ds = [] \<longleftrightarrow> ds = []"
  by (cases ds) (auto dest: render_elem)

lemma namespace_plain [simp]:
  "escape_text BaseNamespace = BaseNamespace" "escape_text NotificationNamespace = NotificationNamespace"
  "BaseNamespace \<noteq> []" "NotificationNamespace \<noteq> []"
  by (simp_all add: escape_text_plain BaseNamespace_def NotificationNamespace_def plain_text_char_def)

lemma render_pieces [simp]:
  "renders (opt_docs n s) = opt_leaf n s"
  "renders (store_docs n s) = encodeDatastore n s"
  by (simp_all add: opt_docs_def opt_leaf_def encodeLeaf_def store_docs_def encodeDatastore_def render_attrs_def)

lemma render_filter:
  assumes "list_all is_elem fk" and "\<And>f. rp_filter r = Some f \<Longrightarrow> fl_inner f = renders fk"
  shows "renders (filter_docs (rp_filter r) fk) = encodeFilter (rp_filter r)"
  using assms renders_empty_iff [OF assms(1)]
  by (auto simp: filter_docs_def encodeFilter_def render_attrs_def Let_def split: option.split)

lemma render_config:
  "list_all is_elem ck \<Longrightarrow> renders (config_docs ck) = encodeConfig (renders ck)"
  using renders_empty_iff [of ck] by (auto simp: config_docs_def encodeConfig_def render_attrs_def)

lemma op_docs_elem: "list_all is_elem (op_docs r fk ck)"
  by (auto simp: op_docs_def opt_docs_def store_docs_def filter_docs_def config_docs_def Let_def split: option.split)

lemma renders_if: "renders (if c then a else b) = (if c then renders a else renders b)"
  by simp

lemma render_op_docs:
  assumes "list_all is_elem fk" and "\<And>f. rp_filter r = Some f \<Longrightarrow> fl_inner f = renders fk"
    and "list_all is_elem ck" and "rp_config r = renders ck"
  shows "encodeOp r = render (op_doc r fk ck)"
proof -
  have f: "renders (filter_docs (rp_filter r) fk) = encodeFilter (rp_filter r)"
    using render_filter assms(1,2) by blast
  have "renders (op_docs r fk ck) = op_body r"
    unfolding op_docs_def op_body_def renders_if map_append concat_append render_pieces
      f render_config [OF assms(3)] assms(4) by (rule refl)
  moreover from this have "op_body r = [] \<longleftrightarrow> op_docs r fk ck = []"
    using renders_empty_iff [OF op_docs_elem [of r fk ck]] by simp
  ultimately show ?thesis
    by (auto simp: encodeOp_def op_doc_def encodeContainer_def op_attrs_def render_attrs_def Let_def)
qed

lemma EncodeRPC_render:
  assumes "rp_id r \<noteq> []" and "rp_name r \<noteq> []" and "encodeOp r = render (op_doc r fk ck)"
  shows "EncodeRPC r = Inr (render (rpc_doc r fk ck))"
  using assms by (simp add: EncodeRPC_def rpc_doc_def marshal_doc_def render_attrs_def)

section \<open>What the decoders read\<close>

text \<open>The fields of a request that its operation carries over the wire.\<close>

definition carried :: "rpc \<Rightarrow> rpc" where
  "carried r =
    (let n = rp_name r;
         known = n \<in> {OpCopyConfig, OpEditConfig, OpGet, OpGetConfig, OpValidate, OpDeleteConfig, OpLock,
                      OpUnlock, OpKillSession, OpCreateSubscription} in
     \<lparr>rp_id = rp_id r, rp_name = n,
      rp_ns = (if n = OpCreateSubscription then NotificationNamespace else BaseNamespace),
      rp_source = (if \<not> known \<or> n \<in> {OpCopyConfig, OpGetConfig, OpValidate} then rp_source r else []),
      rp_target = (if \<not> known \<or> n \<in> {OpCopyConfig, OpEditConfig, OpDeleteConfig, OpLock, OpUnlock} then rp_target r else []),
      rp_filter = (if \<not> known \<or> n \<in> {OpEditConfig, OpGet, OpGetConfig, OpValidate, OpCreateSubscription}
                   then map_option (\<lambda>f. f\<lparr>fl_type := if fl_type f = [] then FilterSubtree else fl_type f\<rparr>) (rp_filter r)
                   else None),
      rp_defop = (if \<not> known \<or> n = OpEditConfig then rp_defop r else []),
      rp_config = (if \<not> known \<or> n = OpEditConfig then rp_config r else []),
      rp_session = (if \<not> known \<or> n = OpKillSession then rp_session r else []),
      rp_stream = (if \<not> known \<or> n = OpCreateSubscription then rp_stream r else [])\<rparr>)"

definition store_word :: "string \<Rightarrow> bool" where
  "store_word s \<longleftrightarrow> s \<in> {[], StoreRunning, StoreCandidate, StoreStartup, ''url''}"

lemma decodeDatastore_word:
  "store_word s \<Longrightarrow> s \<noteq> [] \<Longrightarrow> decodeDatastore [Elem (XName ns s) as raw []] = s"
  by (auto simp: store_word_def decodeDatastore_def)

lemma read_opt [simp]:
  "fold (on_child f) (map (read_back ns) (opt_docs n s)) r =
     (if s = [] then r else f n ns [] (escape_text s) [CData s] r)"
  by (simp add: opt_docs_def read_attrs_def)

lemma read_store [simp]:
  "fold (on_child f) (map (read_back ns) (store_docs n s)) r =
     (if s = [] then r else f n ns [] (''<'' @ s @ ''/>'') [Elem (XName ns s) [] [] []] r)"
  by (simp add: store_docs_def read_attrs_def render_attrs_def)

lemma read_config [simp]:
  "fold (on_child op_child) (map (read_back ns) (config_docs ck)) r =
     (if ck = [] then r else r\<lparr>rp_config := renders ck\<rparr>)"
  by (simp add: config_docs_def op_child_def)

lemma read_filter:
  assumes "\<And>f. g = Some f \<Longrightarrow> fl_inner f = renders fk"
  shows "fold (on_child op_child) (map (read_back ns) (filter_docs g fk)) r =
     (case g of None \<Rightarrow> r
      | Some f \<Rightarrow> r\<lparr>rp_filter := Some (f\<lparr>fl_type := if fl_type f = [] then FilterSubtree else fl_type f\<rparr>)\<rparr>)"
  using assms by (auto simp: filter_docs_def op_child_def decodeFilter_def attr_of_def read_attrs_def Let_def
      split: option.split intro!: nfilter.equality)

lemma op_child_leaf [simp]:
  "op_child ''default-operation'' ns as raw [CData s] r = r\<lparr>rp_defop := s\<rparr>"
  "op_child ''session-id'' ns as raw [CData s] r = r\<lparr>rp_session := s\<rparr>"
  "op_child ''stream'' ns as raw [CData s] r = r\<lparr>rp_stream := s\<rparr>"
  by (simp_all add: op_child_def)

lemma op_child_store:
  assumes "store_word s" and "s \<noteq> []"
  shows "op_child ''source'' ns as raw [Elem (XName ns s) [] [] []] r = r\<lparr>rp_source := s\<rparr>"
    and "op_child ''target'' ns as raw [Elem (XName ns s) [] [] []] r = r\<lparr>rp_target := s\<rparr>"
  using assms by (simp_all add: op_child_def decodeDatastore_word)

lemma op_docs_read:
  assumes "store_word (rp_source r)" and "store_word (rp_target r)"
    and f: "\<And>f. rp_filter r = Some f \<Longrightarrow> fl_inner f = renders fk"
    and c: "rp_config r = renders ck"
  shows "fold (on_child op_child) (map (read_back ns) (op_docs r fk ck))
      (no_rpc\<lparr>rp_id := rp_id r, rp_name := rp_name r,
         rp_ns := if rp_name r = OpCreateSubscription then NotificationNamespace else BaseNamespace\<rparr>) = carried r"
proof -
  note rd = read_filter [of "rp_filter r" fk, OF f] op_child_store [OF assms(1)] op_child_store [OF assms(2)]
  consider "rp_name r = OpCopyConfig" | "rp_name r = OpEditConfig" | "rp_name r = OpGet" | "rp_name r = OpGetConfig"
    | "rp_name r = OpValidate" | "rp_name r = OpDeleteConfig" | "rp_name r = OpLock" | "rp_name r = OpUnlock"
    | "rp_name r = OpKillSession" | "rp_name r = OpCreateSubscription"
    | (other) "rp_name r \<notin> {OpCopyConfig, OpEditConfig, OpGet, OpGetConfig, OpValidate, OpDeleteConfig, OpLock,
                OpUnlock, OpKillSession, OpCreateSubscription}" by blast
  then show ?thesis
  proof cases
    case other
    then have docs: "op_docs r fk ck = store_docs ''source'' (rp_source r) @ store_docs ''target'' (rp_target r)
       @ opt_docs ''default-operation'' (rp_defop r) @ filter_docs (rp_filter r) fk
       @ config_docs ck @ opt_docs ''session-id'' (rp_session r) @ opt_docs ''stream'' (rp_stream r)"
      unfolding op_docs_def by (simp only: insert_iff empty_iff de_Morgan_disj simp_thms if_False)
    from other show ?thesis
      unfolding docs carried_def Let_def
      by (simp add: rd c split: option.split del: list.inject)
  qed (simp_all add: op_docs_def carried_def rd c split: option.split)
qed

lemma rpc_decode:
  assumes "rp_name r \<noteq> []" and "store_word (rp_source r)" and "store_word (rp_target r)"
    and "\<And>f. rp_filter r = Some f \<Longrightarrow> fl_inner f = renders fk" and "rp_config r = renders ck"
  shows "decodeRPC (read_attrs [(''xmlns'', BaseNamespace), (''message-id'', rp_id r)])
           [read_back BaseNamespace (op_doc r fk ck)] = Inr (carried r)"
proof -
  let ?r0 = "no_rpc\<lparr>rp_id := rp_id r\<rparr>"
  have ns: "scope BaseNamespace (op_attrs r) = (if rp_name r = OpCreateSubscription then NotificationNamespace else BaseNamespace)"
    by (simp add: op_attrs_def)
  have "on_child (\<lambda>loc sp as raw ks r. if rp_name r = [] then decodeOp loc sp ks r else r)
          (read_back BaseNamespace (op_doc r fk ck)) ?r0 = carried r"
    using op_docs_read [OF assms(2-5), of "scope BaseNamespace (op_attrs r)"]
    by (cases "op_docs r fk ck = []") (simp_all add: op_doc_def decodeOp_def ns split del: if_split)
  moreover have "rp_name (carried r) = rp_name r" by (simp add: carried_def Let_def)
  ultimately show ?thesis using assms(1) by (simp add: decodeRPC_def attr_of_def read_attrs_def Let_def)
qed

text \<open>C34: Every request with a message-id, an operation and datastore names that the decoder knows (running,
  candidate, startup, url or none) is read back by the decoder as the request itself, with
  exactly the fields its operation carries: the message-id, the operation, the datastore names, the
  filter (an absent type read as subtree), the configuration and the session or stream named.\<close>

theorem rpc_round_trip:
  assumes "rp_id r \<noteq> []" and "rp_name r \<noteq> []" and "store_word (rp_source r)" and "store_word (rp_target r)"
    and "list_all is_elem fk" and "\<And>f. rp_filter r = Some f \<Longrightarrow> fl_inner f = renders fk"
    and "list_all is_elem ck" and "rp_config r = renders ck"
    and "reads X (rpc_doc r fk ck)"
  shows "\<exists>raw. EncodeRPC r = Inr raw \<and> Decode X raw = Inr (rpc_msg (carried r))"
proof -
  have "EncodeRPC r = Inr (render (rpc_doc r fk ck))"
    using EncodeRPC_render [OF assms(1,2)] render_op_docs [OF assms(5) _ assms(7,8)] assms(6) by blast
  moreover have "Decode X (render (rpc_doc r fk ck)) = Inr (rpc_msg (carried r))"
    using assms(9) rpc_decode [OF assms(2-4,6,8)]
    unfolding rpc_doc_def reads_Tag Decode_def by (simp add: scope_def)
  ultimately show ?thesis by blast
qed

abbreviation sample_edit :: rpc where
  "sample_edit \<equiv> \<lparr>rp_id = ''101'', rp_name = OpEditConfig, rp_ns = [], rp_source = [], rp_target = StoreCandidate,
     rp_filter = None, rp_defop = ''merge'', rp_config = renders [Tag ''interfaces'' [] [Txt ''a & b'']],
     rp_session = [], rp_stream = []\<rparr>"

theorem rpc_round_trip_witness:
  "\<exists>raw. EncodeRPC sample_edit = Inr raw
    \<and> Decode (one_doc_lib (rpc_doc sample_edit [] [Tag ''interfaces'' [] [Txt ''a & b'']])) raw
        = Inr (rpc_msg (sample_edit\<lparr>rp_ns := BaseNamespace\<rparr>))"
proof -
  have "reads (one_doc_lib (rpc_doc sample_edit [] [Tag ''interfaces'' [] [Txt ''a & b''] ]))
          (rpc_doc sample_edit [] [Tag ''interfaces'' [] [Txt ''a & b''] ])"
    unfolding rpc_doc_def by (rule one_doc_reads)
  from rpc_round_trip [OF _ _ _ _ _ _ _ _ this] show ?thesis
    by (simp add: store_word_def carried_def)
qed

section \<open>Replies and hellos\<close>

definition error_docs :: "rpc_error \<Rightarrow> xsrc list" where
  "error_docs e = opt_docs ''error-type'' (re_type e) @ opt_docs ''error-tag'' (re_tag e)
     @ opt_docs ''error-severity'' (re_severity e) @ opt_docs ''error-app-tag'' (re_apptag e)
     @ opt_docs ''error-path'' (re_path e) @ opt_docs ''error-message'' (re_message e)"

definition reply_docs :: "reply \<Rightarrow> xsrc list \<Rightarrow> xsrc list" where
  "reply_docs r dk =
    (if ry_errors r \<noteq> [] then map (\<lambda>e. Tag ''rpc-error'' [] (error_docs e)) (ry_errors r)
     else (case ry_data r of Some d \<Rightarrow> [Tag ''data'' [] dk] | None \<Rightarrow> [Empty ''ok'' []]))"

definition reply_doc :: "reply \<Rightarrow> xsrc list \<Rightarrow> xsrc" where
  "reply_doc r dk =
     Tag ''rpc-reply'' [(''xmlns'', BaseNamespace), (''message-id'', ry_id r)] (reply_docs r dk)"

lemma render_errors:
  "renders (map (\<lambda>e. Tag ''rpc-error'' [] (error_docs e)) es) = concat (map encodeError es)"
proof -
  have "render (Tag ''rpc-error'' [] (error_docs e)) = encodeError e" for e
    by (simp add: encodeError_def error_docs_def render_attrs_def)
  then show ?thesis by (simp add: o_def)
qed

lemma EncodeReply_render:
  assumes "ry_id r \<noteq> []" and "\<And>d. ry_data r = Some d \<Longrightarrow> d = renders dk"
  shows "EncodeReply r = Inr (render (reply_doc r dk))"
proof -
  have "renders (reply_docs r dk) =
     (if ry_errors r \<noteq> [] then concat (map encodeError (ry_errors r))
      else (case ry_data r of Some d \<Rightarrow> ''<data>'' @ d @ ''</data>'' | None \<Rightarrow> ''<ok/>''))"
    using assms(2) by (auto simp: reply_docs_def render_errors render_attrs_def simp del: map_map split: option.split)
  with assms(1) show ?thesis by (simp add: EncodeReply_def reply_doc_def marshal_doc_def render_attrs_def)
qed

lemma error_leaf_read:
  "re_type e = [] \<Longrightarrow> fold (on_child error_child) (map (read_back ns) (opt_docs ''error-type'' s)) e = e\<lparr>re_type := s\<rparr>"
  "re_tag e = [] \<Longrightarrow> fold (on_child error_child) (map (read_back ns) (opt_docs ''error-tag'' s)) e = e\<lparr>re_tag := s\<rparr>"
  "re_severity e = [] \<Longrightarrow> fold (on_child error_child) (map (read_back ns) (opt_docs ''error-severity'' s)) e = e\<lparr>re_severity := s\<rparr>"
  "re_apptag e = [] \<Longrightarrow> fold (on_child error_child) (map (read_back ns) (opt_docs ''error-app-tag'' s)) e = e\<lparr>re_apptag := s\<rparr>"
  "re_path e = [] \<Longrightarrow> fold (on_child error_child) (map (read_back ns) (opt_docs ''error-path'' s)) e = e\<lparr>re_path := s\<rparr>"
  "re_message e = [] \<Longrightarrow> fold (on_child error_child) (map (read_back ns) (opt_docs ''error-message'' s)) e = e\<lparr>re_message := s\<rparr>"
  by (auto simp: error_child_def)

lemma decodeError_read: "decodeError (map (read_back ns) (error_docs e)) = e"
  unfolding decodeError_def error_docs_def map_append fold_append o_apply
  by (simp add: error_leaf_read del: read_opt)

lemma decodeReply_errors:
  "fold (on_child reply_child) (map (read_back ns) (map (\<lambda>e. Tag ''rpc-error'' [] (error_docs e)) es)) r
   = r\<lparr>ry_errors := ry_errors r @ es\<rparr>"
  by (induction es arbitrary: r) (simp_all add: decodeError_read reply_child_def)

text \<open>What a reply says on the wire: its errors if it has any, else its data, else ok.\<close>

definition said :: "reply \<Rightarrow> reply" where
  "said r = \<lparr>ry_id = ry_id r, ry_ok = (ry_errors r = [] \<and> ry_data r = None),
     ry_data = (if ry_errors r = [] then ry_data r else None), ry_errors = ry_errors r\<rparr>"

lemma decodeReply_read:
  assumes "\<And>d. ry_data r = Some d \<Longrightarrow> d = renders dk"
  shows "decodeReply (read_attrs [(''xmlns'', BaseNamespace), (''message-id'', ry_id r)])
     (map (read_back BaseNamespace) (reply_docs r dk)) = said r"
proof (cases "ry_errors r = []")
  case True
  with assms show ?thesis
    by (auto simp: decodeReply_def reply_docs_def said_def attr_of_def read_attrs_def reply_child_def split: option.split)
next
  case False
  then show ?thesis
    using decodeReply_errors [of BaseNamespace "ry_errors r"]
    by (simp add: decodeReply_def reply_docs_def said_def attr_of_def read_attrs_def del: map_map)
qed

text \<open>Every reply the server writes is read back by the decoder: all its errors with every field,
  or its data, or ok when it has neither.\<close>

theorem reply_round_trip:
  assumes "ry_id r \<noteq> []" and "\<And>d. ry_data r = Some d \<Longrightarrow> d = renders dk" and "reads X (reply_doc r dk)"
  shows "\<exists>raw. EncodeReply r = Inr raw \<and> Decode X raw = Inr (reply_msg (said r))"
proof -
  have e: "EncodeReply r = Inr (render (reply_doc r dk))" using EncodeReply_render assms(1,2) by blast
  have d: "decodeReply (read_attrs [(''xmlns'', BaseNamespace), (''message-id'', ry_id r)])
     (map (read_back BaseNamespace) (reply_docs r dk)) = said r" using decodeReply_read assms(2) by blast
  have "Decode X (render (reply_doc r dk)) = Inr (reply_msg (said r))"
    using assms(3) d unfolding reply_doc_def reads_Tag Decode_def by (simp add: scope_def)
  with e show ?thesis by blast
qed

abbreviation sample_denied :: reply where
  "sample_denied \<equiv> \<lparr>ry_id = ''7'', ry_ok = False, ry_data = None,
     ry_errors = [\<lparr>re_type = ''protocol'', re_tag = ''lock-denied'', re_severity = ''error'', re_apptag = [],
       re_path = [], re_message = ''datastore is locked by session 4''\<rparr>]\<rparr>"

theorem reply_round_trip_witness:
  "\<exists>raw. EncodeReply sample_denied = Inr raw
     \<and> Decode (one_doc_lib (reply_doc sample_denied [])) raw = Inr (reply_msg sample_denied)"
proof -
  have "reads (one_doc_lib (reply_doc sample_denied [])) (reply_doc sample_denied [])"
    unfolding reply_doc_def by (rule one_doc_reads)
  from reply_round_trip [OF _ _ this] show ?thesis by (simp add: said_def)
qed

definition hello_doc :: "hello \<Rightarrow> xsrc" where
  "hello_doc h = Tag ''hello'' [(''xmlns'', BaseNamespace)]
     ((if he_caps h = [] then []
       else [Tag ''capabilities'' [] (map (\<lambda>c. Tag ''capability'' [] (if c = [] then [] else [Txt c])) (he_caps h))])
      @ opt_docs ''session-id'' (he_session h))"

lemma EncodeHello_render: "EncodeHello h = render (hello_doc h)"
proof -
  have "renders (map (\<lambda>c. Tag ''capability'' [] (if c = [] then [] else [Txt c])) cs)
     = concat (map (encodeLeaf ''capability'') cs)" for cs
    by (induction cs) (auto simp: encodeLeaf_def render_attrs_def)
  then show ?thesis by (simp add: EncodeHello_def hello_doc_def render_attrs_def)
qed

lemma decodeCaps_read:
  "decodeCaps (map (read_back ns) (map (\<lambda>c. Tag ''capability'' [] (if c = [] then [] else [Txt c])) cs)) = cs"
proof -
  have "fold (on_child (\<lambda>loc sp as raw ks caps. if loc = ''capability'' then caps @ [text_of ks] else caps))
     (map (read_back ns) (map (\<lambda>c. Tag ''capability'' [] (if c = [] then [] else [Txt c])) cs)) acc = acc @ cs" for acc
    by (induction cs arbitrary: acc) auto
  then show ?thesis by (simp add: decodeCaps_def)
qed

text \<open>The capabilities a peer announces are the ones the other side reads.\<close>

lemma hello_round_trip:
  assumes "reads X (hello_doc h)"
  shows "Decode X (EncodeHello h) = Inr (hello_msg h)"
proof -
  have "decodeHello (map (read_back BaseNamespace)
     ((if he_caps h = [] then []
       else [Tag ''capabilities'' [] (map (\<lambda>c. Tag ''capability'' [] (if c = [] then [] else [Txt c])) (he_caps h))])
      @ opt_docs ''session-id'' (he_session h))) = h"
    using decodeCaps_read [of BaseNamespace "he_caps h"] by (simp add: decodeHello_def)
  with assms show ?thesis
    unfolding EncodeHello_render hello_doc_def reads_Tag Decode_def by (simp add: scope_def)
qed

end
