(* ===== verification/Ncserver_Xml.thy ===== *)
theory Ncserver_Xml
  imports Xml_Lib Yang_Edit
begin

text \<open>
  Package \<open>ncserver\<close>, \<open>xmltree.go\<close>: configuration trees as XML, XML as edit values, and subtree
  filters as paths. The theorems: what the encoder writes is what the decoder reads back, every
  scalar as its text; which filter selects which path; and that a list with one entry is not
  read back as a list.
\<close>

section \<open>Name spaces\<close>

definition yang_prefix :: string where
  "yang_prefix = ''urn:ietf:params:xml:ns:yang:''"

definition xmlnsFor :: "string \<Rightarrow> string gomap \<Rightarrow> string" where
  "xmlnsFor md ns = (case map_of ns md of
     Some v \<Rightarrow> if v \<noteq> [] then v else yang_prefix @ md
   | None \<Rightarrow> yang_prefix @ md)"

definition moduleForNS :: "string \<Rightarrow> string gomap \<Rightarrow> string" where
  "moduleForNS space ns =
    (if space = [] then []
     else case find (\<lambda>mu. snd mu = space) ns of
       Some mu \<Rightarrow> fst mu
     | None \<Rightarrow> if prefix yang_prefix space then drop (length yang_prefix) space else [])"

section \<open>Encoding a tree\<close>

definition trunc_i64 :: "xmllib \<Rightarrow> f64 \<Rightarrow> int" where
  "trunc_i64 X x =
    (let t = (if f64_val x < 0 then \<lceil>f64_val x\<rceil> else \<lfloor>f64_val x\<rfloor>) in
     if f64_finite x \<and> min_i64 \<le> t \<and> t \<le> max_i64 then t else conv_i64 X x)"

definition formatScalar :: "golib \<Rightarrow> xmllib \<Rightarrow> val \<Rightarrow> string" where
  "formatScalar E X v = (case v of
     VBool b \<Rightarrow> if b then ''true'' else ''false''
   | VStr s \<Rightarrow> s
   | VInt k n \<Rightarrow> itoa n
   | VF64 x \<Rightarrow> if f64_eq x (f64_of_int (trunc_i64 X x)) then itoa (trunc_i64 X x) else format_float X x
   | _ \<Rightarrow> sprint E v)"

definition openElement :: "string \<Rightarrow> string \<Rightarrow> bool \<Rightarrow> bytes" where
  "openElement name ns withNS =
    ''<'' @ name @ (if withNS \<and> ns \<noteq> [] then '' xmlns=\"'' @ escape_text ns @ ''\"'' else [])"

definition closeElement :: "string \<Rightarrow> bytes" where
  "closeElement name = ''</'' @ name @ ''>''"

text \<open>A map in the order of its sorted keys.\<close>

definition sorted_kvs :: "kvs \<Rightarrow> kvs" where
  "sorted_kvs m = sort_key fst m"

lemma set_sorted_kvs [simp, termination_simp]: "set (sorted_kvs m) = set m"
  by (simp add: sorted_kvs_def)

fun encodeElement :: "golib \<Rightarrow> xmllib \<Rightarrow> string \<Rightarrow> val \<Rightarrow> string \<Rightarrow> bool \<Rightarrow> bytes" where
  "encodeElement E X name (VMap m) ns withNS =
     openElement name ns withNS
     @ (if m = [] then ''/>''
        else ''>'' @ concat (map (\<lambda>kv. encodeElement E X (fst kv) (snd kv) ns False) (sorted_kvs m))
             @ closeElement name)"
| "encodeElement E X name (VList xs) ns withNS =
     (case xs of
        [] \<Rightarrow> []
      | y # ys \<Rightarrow> encodeElement E X name y ns withNS
                  @ concat (map (\<lambda>y. encodeElement E X name y ns False) ys))"
| "encodeElement E X name VNil ns withNS = openElement name ns withNS @ ''/>''"
| "encodeElement E X name v ns withNS =
     openElement name ns withNS @ ''>'' @ escape_text (formatScalar E X v) @ closeElement name"

definition encodeTree :: "golib \<Rightarrow> xmllib \<Rightarrow> kvs \<Rightarrow> string gomap \<Rightarrow> bytes" where
  "encodeTree E X m ns = concat (map (\<lambda>mb. case snd mb of
     VMap body \<Rightarrow> concat (map (\<lambda>kv. encodeElement E X (fst kv) (snd kv) (xmlnsFor (fst mb) ns) True) (sorted_kvs body))
   | _ \<Rightarrow> []) (sorted_kvs m))"

section \<open>Decoding\<close>

text \<open>The generic node that \<open>encoding/xml\<close> fills: name, character data and child elements.\<close>

datatype xmlnode = XNode (xd_name: xname) (xd_text: string) (xd_nodes: "xmlnode list")

fun xml_nodes :: "xml \<Rightarrow> xmlnode list" where
  "xml_nodes (Elem n as raw kids) = [XNode n (text_of kids) (concat (map xml_nodes kids))]"
| "xml_nodes (CData t) = []"

definition decodeForest :: "xmllib \<Rightarrow> bytes \<Rightarrow> string + xmlnode list" where
  "decodeForest X inner =
    (let t = TrimSpace inner in
     if t = [] then Inr []
     else case xml_root X (''<x>'' @ t @ ''</x>'') of
       NoRoot \<Rightarrow> Inl ''EOF''
     | BadProlog e \<Rightarrow> Inl e
     | Root n as content \<Rightarrow>
         (case content of Inl e \<Rightarrow> Inl e | Inr rk \<Rightarrow> Inr (concat (map xml_nodes (snd rk)))))"

definition putChild :: "kvs \<Rightarrow> string \<Rightarrow> val \<Rightarrow> kvs" where
  "putChild m name v = (case map_of m name of
     Some existing \<Rightarrow>
       (case existing of
          VList xs \<Rightarrow> kv_put name (VList (xs @ [v])) m
        | _ \<Rightarrow> kv_put name (VList [existing, v]) m)
   | None \<Rightarrow> kv_put name v m)"

definition parseScalar :: "string \<Rightarrow> val" where
  "parseScalar s = (if s = ''true'' then VBool True else if s = ''false'' then VBool False else VStr s)"

lemma size_node_member [termination_simp]:
  "c \<in> set ns \<Longrightarrow> size (c :: xmlnode) < Suc (size_list size ns)"
  by (induction ns) auto

lemma size_node_find [termination_simp]:
  "find P ns = Some c \<Longrightarrow> size (c :: xmlnode) < Suc (size_list size ns)"
  using size_node_member [of c ns] by (metis find_Some_iff nth_mem)

fun nodeValue :: "xmlnode \<Rightarrow> val" where
  "nodeValue (XNode n t nodes) =
    (if nodes = [] then (if TrimSpace t = [] then VMap [] else parseScalar (TrimSpace t))
     else VMap (fold (\<lambda>c m. putChild m (xn_local (xd_name c)) (nodeValue c)) nodes []))"

definition put_top :: "string \<Rightarrow> string \<Rightarrow> val \<Rightarrow> kvs \<Rightarrow> kvs" where
  "put_top md name v rt =
    (let body = (case map_of rt md of Some (VMap b) \<Rightarrow> b | _ \<Rightarrow> [])
     in kv_put md (VMap (putChild body name v)) rt)"

fun decode_nodes :: "xmllib \<Rightarrow> string gomap \<Rightarrow> xmlnode list \<Rightarrow> kvs \<Rightarrow> string + kvs" where
  "decode_nodes X ns [] rt = Inr rt"
| "decode_nodes X ns (n # nodes) rt =
    (let md = moduleForNS (xn_space (xd_name n)) ns in
     if md = [] then Inl (''unknown-element: namespace '' @ quote_str X (xn_space (xd_name n)))
     else decode_nodes X ns nodes (put_top md (xn_local (xd_name n)) (nodeValue n) rt))"

definition decodeConfig :: "xmllib \<Rightarrow> bytes \<Rightarrow> string gomap \<Rightarrow> string + kvs" where
  "decodeConfig X inner ns = (case decodeForest X inner of
     Inl e \<Rightarrow> Inl e
   | Inr nodes \<Rightarrow> decode_nodes X ns nodes [])"

section \<open>Filters\<close>

definition key_node :: "xmlnode \<Rightarrow> bool" where
  "key_node c \<longleftrightarrow> TrimSpace (xd_text c) \<noteq> [] \<and> xd_nodes c = []"

definition filter_keys :: "xmlnode list \<Rightarrow> key list" where
  "filter_keys nodes = map (\<lambda>c. Key (xn_local (xd_name c)) (TrimSpace (xd_text c)))
     (filter (\<lambda>c. xn_local (xd_name c) \<noteq> [] \<and> key_node c) nodes)"

text \<open>The loop of \<open>filterPath\<close>: the leaves of a node are its keys, its first other child comes next.\<close>

fun filter_segs :: "xmlnode \<Rightarrow> segment list" where
  "filter_segs (XNode n t nodes) = Segment (xn_local n) (filter_keys nodes) #
     (case find (\<lambda>c. xn_local (xd_name c) \<noteq> [] \<and> \<not> key_node c) nodes of
        None \<Rightarrow> []
      | Some c \<Rightarrow> filter_segs c)"

definition filterPath :: "xmllib \<Rightarrow> bytes \<Rightarrow> string gomap \<Rightarrow> string + string" where
  "filterPath X inner ns = (case decodeForest X inner of
     Inl e \<Rightarrow> Inl e
   | Inr [] \<Rightarrow> Inr []
   | Inr (n # nodes) \<Rightarrow>
       (let md = moduleForNS (xn_space (xd_name n)) ns in
        if md = [] then Inl ''unknown-element''
        else Inr (path_string (Path md (filter_segs n)))))"

section \<open>What is written is read back\<close>

definition ns_attr :: "string \<Rightarrow> bool \<Rightarrow> (string \<times> string) list" where
  "ns_attr ns withNS = (if withNS \<and> ns \<noteq> [] then [(''xmlns'', ns)] else [])"

text \<open>The documents behind the bytes that the encoder writes for one name.\<close>

fun elem_docs :: "golib \<Rightarrow> xmllib \<Rightarrow> string \<Rightarrow> val \<Rightarrow> string \<Rightarrow> bool \<Rightarrow> xsrc list" where
  "elem_docs E X name (VMap m) ns withNS =
     [if m = [] then Empty name (ns_attr ns withNS)
      else Tag name (ns_attr ns withNS) (concat (map (\<lambda>kv. elem_docs E X (fst kv) (snd kv) ns False) (sorted_kvs m)))]"
| "elem_docs E X name (VList xs) ns withNS =
     (case xs of
        [] \<Rightarrow> []
      | y # ys \<Rightarrow> elem_docs E X name y ns withNS @ concat (map (\<lambda>y. elem_docs E X name y ns False) ys))"
| "elem_docs E X name VNil ns withNS = [Empty name (ns_attr ns withNS)]"
| "elem_docs E X name v ns withNS =
     [Tag name (ns_attr ns withNS) (if formatScalar E X v = [] then [] else [Txt (formatScalar E X v)])]"

definition tree_docs :: "golib \<Rightarrow> xmllib \<Rightarrow> kvs \<Rightarrow> string gomap \<Rightarrow> xsrc list" where
  "tree_docs E X m ns = concat (map (\<lambda>mb. case snd mb of
     VMap body \<Rightarrow> concat (map (\<lambda>kv. elem_docs E X (fst kv) (snd kv) (xmlnsFor (fst mb) ns) True) (sorted_kvs body))
   | _ \<Rightarrow> []) (sorted_kvs m))"

lemma render_ns_attr: "''<'' @ name @ render_attrs (ns_attr ns withNS) = openElement name ns withNS"
  by (simp add: ns_attr_def openElement_def render_attrs_def)

lemma renders_concat: "renders (concat dss) = concat (map renders dss)"
  by (induction dss) auto

lemma encodeElement_render: "encodeElement E X name v ns withNS = renders (elem_docs E X name v ns withNS)"
proof (induction E X name v ns withNS rule: encodeElement.induct)
  case (1 E X name m ns withNS)
  have "concat (map (\<lambda>kv. encodeElement E X (fst kv) (snd kv) ns False) (sorted_kvs m))
      = renders (concat (map (\<lambda>kv. elem_docs E X (fst kv) (snd kv) ns False) (sorted_kvs m)))"
    unfolding renders_concat map_map o_def
    by (rule arg_cong [where f = concat], rule map_cong [OF refl]) (use 1 in fastforce)
  with 1 show ?case
    by (simp add: closeElement_def render_ns_attr [symmetric])
next
  case (2 E X name xs ns withNS)
  show ?case
  proof (cases xs)
    case (Cons y ys)
    have "concat (map (\<lambda>y. encodeElement E X name y ns False) ys)
        = renders (concat (map (\<lambda>y. elem_docs E X name y ns False) ys))"
      unfolding renders_concat map_map o_def
      by (rule arg_cong [where f = concat], rule map_cong [OF refl]) (use 2 Cons in auto)
    with 2 Cons show ?thesis by simp
  qed simp
qed (simp_all add: closeElement_def render_ns_attr [symmetric])

lemma encodeTree_render: "encodeTree E X m ns = renders (tree_docs E X m ns)"
proof -
  have "(case snd mb of VMap body \<Rightarrow> concat (map (\<lambda>kv. encodeElement E X (fst kv) (snd kv) (xmlnsFor (fst mb) ns) True) (sorted_kvs body)) | _ \<Rightarrow> [])
     = renders (case snd mb of VMap body \<Rightarrow> concat (map (\<lambda>kv. elem_docs E X (fst kv) (snd kv) (xmlnsFor (fst mb) ns) True) (sorted_kvs body)) | _ \<Rightarrow> [])" for mb
    unfolding encodeElement_render by (simp add: renders_concat o_def split: val.split)
  then show ?thesis unfolding encodeTree_def tree_docs_def renders_concat map_map o_def by simp
qed

text \<open>Every scalar is read back as its text, a boolean as a boolean and nil as an empty container.\<close>

fun textual :: "golib \<Rightarrow> xmllib \<Rightarrow> val \<Rightarrow> val" where
  "textual E X (VMap m) = VMap (map (\<lambda>kv. (fst kv, textual E X (snd kv))) (sorted_kvs m))"
| "textual E X (VList xs) = VList (map (textual E X) xs)"
| "textual E X VNil = VMap []"
| "textual E X (VBool b) = VBool b"
| "textual E X (VStr s) = (if s = ''true'' then VBool True else if s = ''false'' then VBool False else VStr s)"
| "textual E X (VInt k n) = VStr (itoa n)"
| "textual E X v = parseScalar (formatScalar E X v)"

lemma itoa_not_word: "itoa n \<noteq> CHR ''t'' # s" "itoa n \<noteq> CHR ''f'' # s"
proof -
  have "is_digit c \<or> c = CHR ''-''" if "c \<in> set (itoa n)" for c
    using that dec_digits_all_digits by (auto simp: itoa_def split: if_splits)
  from this [of "CHR ''t''"] this [of "CHR ''f''"] show "itoa n \<noteq> CHR ''t'' # s" "itoa n \<noteq> CHR ''f'' # s"
    by (auto simp: is_digit_def)
qed

lemma textual_scalar:
  "textual E X (VBool b) = parseScalar (formatScalar E X (VBool b))" "textual E X (VStr s) = parseScalar (formatScalar E X (VStr s))"
  "textual E X (VInt k n) = parseScalar (formatScalar E X (VInt k n))"
  by (simp_all add: parseScalar_def formatScalar_def itoa_not_word)

declare textual.simps(4-6) [simp del] and textual_scalar [simp]

text \<open>
  The trees that XML can carry: every list has at least two entries and none is a list, every
  scalar has a text without white space at its ends.
\<close>

fun xml_ok :: "golib \<Rightarrow> xmllib \<Rightarrow> val \<Rightarrow> bool" where
  "xml_ok E X (VMap m) = (distinct (map fst m) \<and> list_all (\<lambda>kv. xml_ok E X (snd kv)) m)"
| "xml_ok E X (VList xs) = (2 \<le> length xs \<and> list_all (xml_ok E X) xs \<and> list_all (\<lambda>x. \<not> (\<exists>ys. x = VList ys)) xs)"
| "xml_ok E X VNil = True"
| "xml_ok E X v = (formatScalar E X v \<noteq> [] \<and> TrimSpace (formatScalar E X v) = formatScalar E X v)"

abbreviation is_list :: "val \<Rightarrow> bool" where
  "is_list v \<equiv> (\<exists>xs. v = VList xs)"

definition nodes_of :: "string \<Rightarrow> xsrc list \<Rightarrow> xmlnode list" where
  "nodes_of sp ds = concat (map xml_nodes (map (read_back sp) ds))"

lemma nodes_of_fold [simp]: "concat (map (xml_nodes \<circ> read_back sp) ds) = nodes_of sp ds"
  by (simp add: nodes_of_def)

lemma nodes_of_simps [simp]:
  "nodes_of sp [] = []" "nodes_of sp (d # ds) = xml_nodes (read_back sp d) @ nodes_of sp ds"
  "nodes_of sp (ds @ es) = nodes_of sp ds @ nodes_of sp es"
  by (simp_all add: nodes_of_def del: nodes_of_fold)

definition put_node :: "xmlnode \<Rightarrow> kvs \<Rightarrow> kvs" where
  "put_node c m = putChild m (xn_local (xd_name c)) (nodeValue c)"

lemma putChild_new: "name \<notin> fst ` set m \<Longrightarrow> putChild m name v = m @ [(name, v)]"
proof -
  assume n: "name \<notin> fst ` set m"
  then have "map_of m name = None" by (simp add: map_of_eq_None_iff)
  moreover from n have "kv_put name v m = m @ [(name, v)]" by (induction m) auto
  ultimately show ?thesis by (simp add: putChild_def)
qed

lemma kv_put_last: "name \<notin> fst ` set m \<Longrightarrow> kv_put name w (m @ [(name, v)]) = m @ [(name, w)]"
  by (induction m) auto

lemma textual_not_list: "\<not> is_list v \<Longrightarrow> \<not> is_list (textual E X v)"
  by (cases v) (auto simp: parseScalar_def)

lemma putChild_second:
  "name \<notin> fst ` set m \<Longrightarrow> \<not> is_list v \<Longrightarrow> putChild (m @ [(name, v)]) name w = m @ [(name, VList [v, w])]"
  by (auto simp: putChild_def kv_put_last map_of_eq_None_iff [symmetric] map_add_def split: val.split)

lemma putChild_more:
  "name \<notin> fst ` set m \<Longrightarrow> putChild (m @ [(name, VList xs)]) name w = m @ [(name, VList (xs @ [w]))]"
  by (auto simp: putChild_def kv_put_last map_of_eq_None_iff [symmetric] map_add_def)

lemma put_more_nodes:
  "name \<notin> fst ` set m \<Longrightarrow> list_all (\<lambda>c. xn_local (xd_name c) = name) cs \<Longrightarrow>
     fold put_node cs (m @ [(name, VList xs)]) = m @ [(name, VList (xs @ map nodeValue cs))]"
  by (induction cs arbitrary: xs) (simp_all add: put_node_def putChild_more)

text \<open>One element of the encoder, read back.\<close>

definition reads_as :: "golib \<Rightarrow> xmllib \<Rightarrow> val \<Rightarrow> bool" where
  "reads_as E X v \<longleftrightarrow> (\<forall>name ns sp withNS. \<exists>t nodes.
     nodes_of sp (elem_docs E X name v ns withNS) = [XNode (XName (scope sp (ns_attr ns withNS)) name) t nodes]
     \<and> nodeValue (XNode (XName (scope sp (ns_attr ns withNS)) name) t nodes) = textual E X v)"

lemma reads_as_node:
  assumes "reads_as E X v"
  obtains c where "nodes_of sp (elem_docs E X name v ns withNS) = [c]" and "xn_local (xd_name c) = name"
    and "xn_space (xd_name c) = scope sp (ns_attr ns withNS)" and "nodeValue c = textual E X v"
proof -
  from assms obtain t nodes where
    "nodes_of sp (elem_docs E X name v ns withNS) = [XNode (XName (scope sp (ns_attr ns withNS)) name) t nodes]"
    "nodeValue (XNode (XName (scope sp (ns_attr ns withNS)) name) t nodes) = textual E X v"
    unfolding reads_as_def by blast
  then show thesis by (intro that [of "XNode (XName (scope sp (ns_attr ns withNS)) name) t nodes"]) simp_all
qed

lemma list_items_read:
  assumes "\<And>x. x \<in> set xs \<Longrightarrow> reads_as E X x"
  shows "list_all (\<lambda>c. xn_local (xd_name c) = name) (nodes_of sp (concat (map (\<lambda>y. elem_docs E X name y ns False) xs)))
    \<and> map nodeValue (nodes_of sp (concat (map (\<lambda>y. elem_docs E X name y ns False) xs))) = map (textual E X) xs"
  using assms
proof (induction xs)
  case (Cons x xs)
  obtain c where "nodes_of sp (elem_docs E X name x ns False) = [c]" "xn_local (xd_name c) = name"
    "nodeValue c = textual E X x"
    using reads_as_node [OF Cons.prems [of x], of sp name ns False] by auto
  with Cons show ?case by simp
qed simp

text \<open>What the documents of one binding add to a map that has not got the name yet.\<close>

lemma put_docs:
  assumes "if is_list v then \<exists>y z zs. v = VList (y # z # zs) \<and> (\<forall>x \<in> set (y # z # zs). reads_as E X x \<and> \<not> is_list x)
           else reads_as E X v"
    and "name \<notin> fst ` set m"
  shows "fold put_node (nodes_of sp (elem_docs E X name v ns withNS)) m = m @ [(name, textual E X v)]"
proof (cases "is_list v")
  case True
  with assms(1) obtain y z zs where v: "v = VList (y # z # zs)"
    and all: "\<forall>x \<in> set (y # z # zs). reads_as E X x" and nl: "\<not> is_list y" by (auto split: if_splits)
  note items = bspec [OF all]
  obtain c where c: "nodes_of sp (elem_docs E X name y ns withNS) = [c]" "xn_local (xd_name c) = name"
    "nodeValue c = textual E X y"
    using reads_as_node [OF items, of y sp name ns withNS] by auto
  obtain d where d: "nodes_of sp (elem_docs E X name z ns False) = [d]" "xn_local (xd_name d) = name"
    "nodeValue d = textual E X z"
    using reads_as_node [OF items, of z sp name ns False] by auto
  have more: "list_all (\<lambda>c. xn_local (xd_name c) = name) (nodes_of sp (concat (map (\<lambda>y. elem_docs E X name y ns False) zs)))"
    "map nodeValue (nodes_of sp (concat (map (\<lambda>y. elem_docs E X name y ns False) zs))) = map (textual E X) zs"
    using list_items_read [of zs E X name sp ns] items by auto
  have two: "put_node d (put_node c m) = m @ [(name, VList [textual E X y, textual E X z])]"
    using c d assms(2) textual_not_list [OF nl] by (simp add: put_node_def putChild_new putChild_second)
  from put_more_nodes [OF assms(2) more(1)] two more(2) c(1) d(1) show ?thesis by (simp add: v)
next
  case False
  with assms(1) have r: "reads_as E X v" by simp
  from reads_as_node [OF r, of sp name ns withNS]
  obtain c where "nodes_of sp (elem_docs E X name v ns withNS) = [c]" "xn_local (xd_name c) = name"
    "nodeValue c = textual E X v" by blast
  with assms(2) show ?thesis by (simp add: put_node_def putChild_new)
qed

definition readable :: "golib \<Rightarrow> xmllib \<Rightarrow> val \<Rightarrow> bool" where
  "readable E X v \<longleftrightarrow> (if is_list v then \<exists>y z zs. v = VList (y # z # zs) \<and> (\<forall>x \<in> set (y # z # zs). reads_as E X x \<and> \<not> is_list x)
     else reads_as E X v)"

lemma put_kvs:
  assumes "\<And>k v. (k, v) \<in> set kvs \<Longrightarrow> readable E X v" and "distinct (map fst kvs)"
    and "fst ` set kvs \<inter> fst ` set m = {}"
  shows "fold put_node (nodes_of sp (concat (map (\<lambda>kv. elem_docs E X (fst kv) (snd kv) ns False) kvs))) m
     = m @ map (\<lambda>kv. (fst kv, textual E X (snd kv))) kvs"
  using assms
proof (induction kvs arbitrary: m)
  case (Cons kv kvs)
  obtain k v where kv: "kv = (k, v)" by (cases kv)
  have "readable E X v" using Cons.prems(1) [of k v] kv by simp
  then have "fold put_node (nodes_of sp (elem_docs E X k v ns False)) m = m @ [(k, textual E X v)]"
    using put_docs [of v E X k m] Cons.prems(3) kv by (simp add: readable_def)
  moreover have "fold put_node (nodes_of sp (concat (map (\<lambda>kv. elem_docs E X (fst kv) (snd kv) ns False) kvs))) (m @ [(k, textual E X v)])
     = (m @ [(k, textual E X v)]) @ map (\<lambda>kv. (fst kv, textual E X (snd kv))) kvs"
    using Cons.prems kv by (intro Cons.IH) auto
  ultimately show ?case by (simp add: kv)
qed simp

lemma text_only_nodes [simp]: "nodes_of sp (if s = [] then [] else [Txt s]) = []"
  by simp

lemma elem_text: "list_all (\<lambda>d. \<exists>n as kids. d = Tag n as kids \<or> d = Empty n as) ds \<Longrightarrow> text_of (map (read_back sp) ds) = []"
  by (induction ds) auto

lemma elem_docs_elem: "list_all (\<lambda>d. \<exists>n as kids. d = Tag n as kids \<or> d = Empty n as) (elem_docs E X name v ns withNS)"
  by (induction E X name v ns withNS rule: elem_docs.induct) (auto simp: list_all_iff split: list.split)

lemma TrimSpace_nil [simp]: "TrimSpace [] = []"
  by (simp add: TrimSpace_def)

lemma scalar_reads:
  assumes "xml_ok E X v" and "\<nexists>m. v = VMap m" and "\<not> is_list v"
  shows "reads_as E X v"
  using assms by (cases v) (simp_all add: reads_as_def)

lemma xml_ok_readable: "xml_ok E X v \<Longrightarrow> readable E X v"
proof (induction v rule: val_induct)
  case (list xs)
  then have len: "2 \<le> length xs" by simp
  obtain y z zs where xs: "xs = y # z # zs"
    using len by (cases xs; cases "tl xs") auto
  have "reads_as E X x \<and> \<not> is_list x" if "x \<in> set xs" for x
    using list.IH [OF that] list.prems that by (auto simp: readable_def list_all_iff split: if_splits)
  then show ?case using xs by (auto simp: readable_def)
next
  case (map kvs)
  have r: "readable E X v" if "(k, v) \<in> set (sorted_kvs kvs)" for k v
    using map that by (force simp: list_all_iff)
  have d: "distinct (List.map fst (sorted_kvs kvs))"
    using map.prems by (simp add: sorted_kvs_def distinct_map)
  have val: "fold put_node (nodes_of sp (concat (List.map (\<lambda>kv. elem_docs E X (fst kv) (snd kv) ns False) (sorted_kvs kvs)))) []
      = List.map (\<lambda>kv. (fst kv, textual E X (snd kv))) (sorted_kvs kvs)" for sp ns
    using put_kvs [of "sorted_kvs kvs" E X "[]"] r d by simp
  have "reads_as E X (VMap kvs)"
  proof (cases "kvs = []")
    case True
    then show ?thesis by (simp add: reads_as_def sorted_kvs_def)
  next
    case False
    show ?thesis
      unfolding reads_as_def
    proof (intro allI)
      fix name ns sp withNS
      let ?kids = "concat (List.map (\<lambda>kv. elem_docs E X (fst kv) (snd kv) ns False) (sorted_kvs kvs))"
      let ?sp = "scope sp (ns_attr ns withNS)"
      have t: "text_of (List.map (read_back ?sp) ?kids) = []"
        by (rule elem_text) (use elem_docs_elem in \<open>auto simp: list_all_iff\<close>)
      have ne: "nodes_of ?sp ?kids \<noteq> []"
        using val [of ?sp ns] False by (metis fold_simps(1) list.map_disc_iff set_empty set_sorted_kvs)
      have n: "nodes_of sp (elem_docs E X name (VMap kvs) ns withNS) = [XNode (XName ?sp name) [] (nodes_of ?sp ?kids)]"
        using False t by simp
      moreover have "nodeValue (XNode (XName ?sp name) [] (nodes_of ?sp ?kids)) = textual E X (VMap kvs)"
        using ne val [of ?sp ns] by (simp add: put_node_def [abs_def])
      ultimately show "\<exists>t nodes. nodes_of sp (elem_docs E X name (VMap kvs) ns withNS) = [XNode (XName ?sp name) t nodes]
          \<and> nodeValue (XNode (XName ?sp name) t nodes) = textual E X (VMap kvs)" by blast
    qed
  qed
  then show ?case by (simp add: readable_def)
qed (auto simp: readable_def intro: scalar_reads)

text \<open>The top of a tree: modules with their own name spaces, none empty, no list directly below.\<close>

definition module_ok :: "golib \<Rightarrow> xmllib \<Rightarrow> string gomap \<Rightarrow> string \<times> val \<Rightarrow> bool" where
  "module_ok E X ns mv \<longleftrightarrow> fst mv \<noteq> [] \<and> moduleForNS (xmlnsFor (fst mv) ns) ns = fst mv
     \<and> (\<exists>b. snd mv = VMap b \<and> b \<noteq> [] \<and> xml_ok E X (VMap b) \<and> list_all (\<lambda>kv. \<not> is_list (snd kv)) b)"

definition tree_ok :: "golib \<Rightarrow> xmllib \<Rightarrow> string gomap \<Rightarrow> kvs \<Rightarrow> bool" where
  "tree_ok E X ns m \<longleftrightarrow> distinct (map fst m) \<and> list_all (module_ok E X ns) m"

definition tree_text :: "golib \<Rightarrow> xmllib \<Rightarrow> kvs \<Rightarrow> kvs" where
  "tree_text E X m = map (\<lambda>kv. (fst kv, textual E X (snd kv))) (sorted_kvs m)"

lemma xmlnsFor_nonempty [simp]: "xmlnsFor md ns \<noteq> []"
  by (auto simp: xmlnsFor_def yang_prefix_def split: option.split)

lemma put_top_old:
  "md \<notin> fst ` set rt \<Longrightarrow> put_top md name v (rt @ [(md, VMap acc)]) = rt @ [(md, VMap (putChild acc name v))]"
  by (simp add: put_top_def kv_put_last map_of_eq_None_iff [symmetric] map_add_def)

lemma put_top_new: "md \<notin> fst ` set rt \<Longrightarrow> put_top md name v rt = rt @ [(md, VMap [(name, v)])]"
proof -
  assume n: "md \<notin> fst ` set rt"
  then have "map_of rt md = None" by (simp add: map_of_eq_None_iff)
  moreover from n have "kv_put md w rt = rt @ [(md, w)]" for w by (induction rt) auto
  ultimately show ?thesis by (simp add: put_top_def putChild_def)
qed

lemma decode_body:
  assumes "md \<noteq> []" and "moduleForNS u ns = md" and "u \<noteq> []" and "md \<notin> fst ` set rt"
    and "\<And>k v. (k, v) \<in> set kvs \<Longrightarrow> reads_as E X v" and "distinct (map fst kvs)" and "fst ` set kvs \<inter> fst ` set acc = {}"
  shows "decode_nodes X ns (nodes_of [] (concat (map (\<lambda>kv. elem_docs E X (fst kv) (snd kv) u True) kvs)) @ rest) (rt @ [(md, VMap acc)])
     = decode_nodes X ns rest (rt @ [(md, VMap (acc @ map (\<lambda>kv. (fst kv, textual E X (snd kv))) kvs))])"
  using assms(5-)
proof (induction kvs arbitrary: acc)
  case (Cons kv kvs)
  obtain k v where kv: "kv = (k, v)" by (cases kv)
  have "reads_as E X v" using Cons.prems(1) [of k v] kv by simp
  from reads_as_node [OF this, of "[]" k u True] obtain c where
    c: "nodes_of [] (elem_docs E X k v u True) = [c]" "xn_local (xd_name c) = k" "xn_space (xd_name c) = u"
      "nodeValue c = textual E X v" using assms(3) by (auto simp: ns_attr_def)
  have "put_top md k (textual E X v) (rt @ [(md, VMap acc)]) = rt @ [(md, VMap (acc @ [(k, textual E X v)]))]"
    using put_top_old [OF assms(4)] Cons.prems(3) kv by (simp add: putChild_new)
  moreover have "decode_nodes X ns (nodes_of [] (concat (map (\<lambda>kv. elem_docs E X (fst kv) (snd kv) u True) kvs)) @ rest)
       (rt @ [(md, VMap (acc @ [(k, textual E X v)]))])
     = decode_nodes X ns rest (rt @ [(md, VMap ((acc @ [(k, textual E X v)]) @ map (\<lambda>kv. (fst kv, textual E X (snd kv))) kvs))])"
    using Cons.prems kv by (intro Cons.IH) auto
  ultimately show ?case using c assms(1,2) by (simp add: kv Let_def)
qed simp

lemma module_kvs:
  assumes "module_ok E X ns (md, VMap b)"
  shows "(k, v) \<in> set (sorted_kvs b) \<Longrightarrow> reads_as E X v" and "distinct (map fst (sorted_kvs b))" and "sorted_kvs b \<noteq> []"
proof -
  assume "(k, v) \<in> set (sorted_kvs b)"
  with assms have "xml_ok E X v" "\<not> is_list v" by (auto simp: module_ok_def list_all_iff)
  then show "reads_as E X v" using xml_ok_readable [of E X v] by (simp add: readable_def)
next
  from assms show "distinct (map fst (sorted_kvs b))" by (simp add: module_ok_def sorted_kvs_def distinct_map)
  from assms have "b \<noteq> []" by (simp add: module_ok_def)
  then show "sorted_kvs b \<noteq> []" by (metis set_empty set_sorted_kvs)
qed

lemma decode_module:
  assumes m: "module_ok E X ns (md, VMap b)" and "md \<notin> fst ` set rt"
  shows "decode_nodes X ns (nodes_of [] (concat (map (\<lambda>kv. elem_docs E X (fst kv) (snd kv) (xmlnsFor md ns) True) (sorted_kvs b))) @ rest) rt
     = decode_nodes X ns rest (rt @ [(md, textual E X (VMap b))])"
proof -
  obtain k v kvs where kvs: "sorted_kvs b = (k, v) # kvs" using module_kvs(3) [OF m] by (cases "sorted_kvs b") auto
  have md: "md \<noteq> []" "moduleForNS (xmlnsFor md ns) ns = md" using m by (auto simp: module_ok_def)
  have "reads_as E X v" using module_kvs(1) [OF m, of k v] kvs by simp
  from reads_as_node [OF this, of "[]" k "xmlnsFor md ns" True] obtain c where
    c: "nodes_of [] (elem_docs E X k v (xmlnsFor md ns) True) = [c]" "xn_local (xd_name c) = k"
      "xn_space (xd_name c) = xmlnsFor md ns" "nodeValue c = textual E X v" by (auto simp: ns_attr_def)
  have "decode_nodes X ns (nodes_of [] (concat (map (\<lambda>kv. elem_docs E X (fst kv) (snd kv) (xmlnsFor md ns) True) kvs)) @ rest)
       (rt @ [(md, VMap [(k, textual E X v)])])
     = decode_nodes X ns rest (rt @ [(md, VMap ([(k, textual E X v)] @ map (\<lambda>kv. (fst kv, textual E X (snd kv))) kvs))])"
    using module_kvs(1,2) [OF m] kvs by (intro decode_body [OF md xmlnsFor_nonempty assms(2)]) auto
  with c md put_top_new [OF assms(2)] show ?thesis by (simp add: kvs Let_def)
qed

lemma decode_modules:
  assumes "list_all (module_ok E X ns) ms" and "distinct (map fst ms)" and "fst ` set ms \<inter> fst ` set rt = {}"
  shows "decode_nodes X ns (nodes_of [] (concat (map (\<lambda>mb. case snd mb of
       VMap body \<Rightarrow> concat (map (\<lambda>kv. elem_docs E X (fst kv) (snd kv) (xmlnsFor (fst mb) ns) True) (sorted_kvs body))
     | _ \<Rightarrow> []) ms))) rt = Inr (rt @ map (\<lambda>kv. (fst kv, textual E X (snd kv))) ms)"
  using assms
proof (induction ms arbitrary: rt)
  case (Cons mv ms)
  then obtain md b where mv: "mv = (md, VMap b)" by (cases mv) (auto simp: module_ok_def)
  have "decode_nodes X ns (nodes_of [] (concat (map (\<lambda>mb. case snd mb of
       VMap body \<Rightarrow> concat (map (\<lambda>kv. elem_docs E X (fst kv) (snd kv) (xmlnsFor (fst mb) ns) True) (sorted_kvs body))
     | _ \<Rightarrow> []) ms))) (rt @ [(md, textual E X (VMap b))])
     = Inr ((rt @ [(md, textual E X (VMap b))]) @ map (\<lambda>kv. (fst kv, textual E X (snd kv))) ms)"
    using Cons.prems mv by (intro Cons.IH) auto
  with decode_module [of E X ns md b rt] Cons.prems mv show ?case by simp
qed simp


lemma renders_ends:
  assumes "list_all (\<lambda>d. \<exists>n as kids. d = Tag n as kids \<or> d = Empty n as) ds" and "ds \<noteq> []"
  shows "renders ds \<noteq> [] \<and> plain_ascii (hd (renders ds)) \<and> plain_ascii (last (renders ds))"
proof -
  have one: "\<exists>s. render d = CHR ''<'' # s @ [CHR ''>'']" if "d \<in> set ds" for d
    using assms(1) that by (auto simp: list_all_iff)
  obtain s where s: "render (hd ds) = CHR ''<'' # s @ [CHR ''>'']" using one [of "hd ds"] assms(2) by auto
  obtain t where t: "render (last ds) = CHR ''<'' # t @ [CHR ''>'']" using one [of "last ds"] assms(2) by auto
  have "renders ds = render (hd ds) @ renders (tl ds)" using assms(2) by (cases ds) auto
  then have h: "renders ds \<noteq> []" "hd (renders ds) = CHR ''<''" by (simp_all only: s append_Cons list.sel list.distinct not_False_eq_True)
  have "renders ds = renders (butlast ds) @ render (last ds)"
    using arg_cong [OF append_butlast_last_id [OF assms(2)], of renders] by simp
  then have "last (renders ds) = CHR ''>''" unfolding t by (simp only:) simp
  with h show ?thesis by (simp add: plain_ascii_def del: concat_eq_Nil_conv)
qed

lemma decodeForest_renders:
  assumes "list_all (\<lambda>d. \<exists>n as kids. d = Tag n as kids \<or> d = Empty n as) ds" and "reads X (Tag ''x'' [] ds)"
  shows "decodeForest X (renders ds) = Inr (nodes_of [] ds)"
proof (cases "ds = []")
  case False
  with renders_ends [OF assms(1)] have "TrimSpace (renders ds) = renders ds" "(renders ds = []) = False"
    using TrimSpace_plain by blast+
  moreover have "xml_root X (''<x>'' @ renders ds @ ''</x>'') = Root (XName [] ''x'') [] (Inr (renders ds, map (read_back []) ds))"
    using assms(2) by (simp add: reads_Tag render_attrs_def read_attrs_def)
  ultimately show ?thesis unfolding decodeForest_def Let_def by (simp only: if_False) simp
qed (simp add: decodeForest_def)

text \<open>C33: The XML a get-config reply carries, given back as the config of an edit-config, is the tree
  it was written from, module by module and key by key, with the keys of each map in order and every scalar read as its text: a number
  comes back as its digits, the words true and false as truth values, nil as an empty container. It holds for the trees
  that this XML can carry: no module is empty and each has a name space of its own; every list has two entries or more, none of them
  a list, and none stands directly below a module; every scalar has a text that is not empty and has no white space at its ends.
  On the other trees the round trip fails: a list of one entry comes back as that entry, and the later entries of a list
  directly below a module lose their name space.\<close>

theorem xml_tree_round_trip:
  assumes "tree_ok E X ns m" and "reads X (Tag ''x'' [] (tree_docs E X m ns))"
  shows "decodeConfig X (encodeTree E X m ns) ns = Inr (tree_text E X m)"
proof -
  have el: "list_all (\<lambda>d. \<exists>n as kids. d = Tag n as kids \<or> d = Empty n as) (tree_docs E X m ns)"
    using elem_docs_elem by (fastforce simp: tree_docs_def list_all_iff split: val.splits)
  have "list_all (module_ok E X ns) (sorted_kvs m)" "distinct (map fst (sorted_kvs m))"
    using assms(1) by (auto simp: tree_ok_def list_all_iff sorted_kvs_def distinct_map)
  from decode_modules [OF this, of "[]"]
  have "decode_nodes X ns (nodes_of [] (tree_docs E X m ns)) [] = Inr (tree_text E X m)"
    by (simp add: tree_docs_def tree_text_def)
  with decodeForest_renders [OF el assms(2)] show ?thesis
    by (simp add: decodeConfig_def encodeTree_render)
qed

abbreviation ports_tree :: kvs where
  "ports_tree \<equiv> [(''ports'', VMap [(''port'', VMap [(''mtu'', VInt KInt64 1500), (''tag'', VList [VStr ''a'', VStr ''b'']), (''up'', VBool True)])])]"

lemma itoa_1500: "itoa 1500 = ''1500''"
  by code_simp

lemma ports_docs: "tree_docs E X ports_tree []
    = [Tag ''port'' [(''xmlns'', ''urn:ietf:params:xml:ns:yang:ports'')]
        [Tag ''mtu'' [] [Txt ''1500''], Tag ''tag'' [] [Txt ''a''], Tag ''tag'' [] [Txt ''b''], Tag ''up'' [] [Txt ''true'']]]"
  by (simp add: tree_docs_def sorted_kvs_def xmlnsFor_def yang_prefix_def formatScalar_def ns_attr_def itoa_1500)

theorem xml_tree_round_trip_witness:
  "decodeConfig (one_doc_lib (Tag ''x'' [] (tree_docs undefined undefined ports_tree [])))
     (encodeTree undefined (one_doc_lib (Tag ''x'' [] (tree_docs undefined undefined ports_tree []))) ports_tree []) []
   = Inr [(''ports'', VMap [(''port'', VMap [(''mtu'', VStr ''1500''), (''tag'', VList [VStr ''a'', VStr ''b'']), (''up'', VBool True)])])]"
proof -
  let ?X = "one_doc_lib (Tag ''x'' [] (tree_docs undefined undefined ports_tree []))"
  have trim: "TrimSpace ''1500'' = ''1500''" "TrimSpace ''true'' = ''true''" "TrimSpace ''a'' = ''a''" "TrimSpace ''b'' = ''b''"
    by (simp_all add: TrimSpace_plain plain_ascii_def)
  have "tree_ok undefined ?X [] ports_tree"
    by (simp add: tree_ok_def module_ok_def xmlnsFor_def moduleForNS_def yang_prefix_def formatScalar_def trim itoa_1500)
  moreover have "reads ?X (Tag ''x'' [] (tree_docs undefined ?X ports_tree []))"
    unfolding ports_docs by (rule one_doc_reads)
  ultimately show ?thesis
    using xml_tree_round_trip [of undefined ?X "[]" ports_tree]
    by (simp add: tree_text_def sorted_kvs_def parseScalar_def formatScalar_def itoa_1500)
qed

section \<open>Filters and paths\<close>

text \<open>The subtree filter for a path: nested elements, each with its keys as leaves.\<close>

fun path_docs :: "(string \<times> string) list \<Rightarrow> segment list \<Rightarrow> xsrc list" where
  "path_docs as [] = []"
| "path_docs as (s # ss) =
     [Tag (s_name s) as (map (\<lambda>k. Tag (k_name k) [] [Txt (k_value k)]) (s_keys s) @ path_docs [] ss)]"

definition filter_path_ok :: "segment list \<Rightarrow> bool" where
  "filter_path_ok ss \<longleftrightarrow> list_all (\<lambda>s. s_name s \<noteq> []
     \<and> list_all (\<lambda>k. k_name k \<noteq> [] \<and> k_value k \<noteq> [] \<and> TrimSpace (k_value k) = k_value k) (s_keys s)) ss"

lemma key_docs_nodes:
  "nodes_of sp (map (\<lambda>k. Tag (k_name k) [] [Txt (k_value k)]) ks)
     = map (\<lambda>k. XNode (XName sp (k_name k)) (k_value k) []) ks"
  by (induction ks) auto

lemma key_docs_text: "text_of (map (read_back sp) (map (\<lambda>k. Tag (k_name k) [] [Txt (k_value k)]) ks @ path_docs [] ss)) = []"
  by (rule elem_text) (cases ss; simp add: list_all_iff)

lemma filter_segs_path:
  "filter_path_ok (s # ss) \<Longrightarrow> \<exists>nodes. nodes_of sp (path_docs as (s # ss)) = [XNode (XName (scope sp as) (s_name s)) [] nodes]
     \<and> filter_segs (XNode (XName (scope sp as) (s_name s)) [] nodes) = s # ss \<and> (nodes = [] \<longrightarrow> s_keys s = [] \<and> ss = [])"
proof (induction ss arbitrary: s sp as)
  case Nil
  let ?ks = "map (\<lambda>k. XNode (XName (scope sp as) (k_name k)) (k_value k) []) (s_keys s)"
  from Nil have k: "list_all (\<lambda>k. k_name k \<noteq> [] \<and> k_value k \<noteq> [] \<and> TrimSpace (k_value k) = k_value k) (s_keys s)"
    by (simp add: filter_path_ok_def)
  have "filter_keys ?ks = s_keys s"
    using k by (induction "s_keys s" arbitrary: s) (auto simp: filter_keys_def key_node_def o_def list_all_iff intro: map_idI)
  moreover have "find (\<lambda>c. xn_local (xd_name c) \<noteq> [] \<and> \<not> key_node c) ?ks = None"
    using k by (auto simp: find_None_iff key_node_def list_all_iff)
  ultimately show ?case using key_docs_text [of "scope sp as" "s_keys s" "[]"]
    by (simp add: key_docs_nodes nodes_of_def [symmetric] del: map_map)
next
  case (Cons s' ss)
  let ?sp = "scope sp as"
  let ?ks = "map (\<lambda>k. XNode (XName ?sp (k_name k)) (k_value k) []) (s_keys s)"
  from Cons.prems have k: "list_all (\<lambda>k. k_name k \<noteq> [] \<and> k_value k \<noteq> [] \<and> TrimSpace (k_value k) = k_value k) (s_keys s)"
    and n': "s_name s' \<noteq> []" and ok: "filter_path_ok (s' # ss)" by (auto simp: filter_path_ok_def)
  from Cons.IH [OF ok, of ?sp "[]"] obtain nodes where
    d: "nodes_of ?sp (path_docs [] (s' # ss)) = [XNode (XName ?sp (s_name s')) [] nodes]"
    and f: "filter_segs (XNode (XName ?sp (s_name s')) [] nodes) = s' # ss" by auto
  let ?c = "XNode (XName ?sp (s_name s')) [] nodes"
  have nk: "\<not> key_node ?c" by (simp add: key_node_def)
  have keys: "filter_keys (?ks @ [?c]) = s_keys s"
  proof -
    have "filter (\<lambda>c. xn_local (xd_name c) \<noteq> [] \<and> key_node c) ?ks = ?ks"
      using k by (auto simp: filter_id_conv key_node_def list_all_iff)
    moreover have "map (\<lambda>c. Key (xn_local (xd_name c)) (TrimSpace (xd_text c))) ?ks = s_keys s"
      using k by (auto simp: list_all_iff intro: map_idI)
    ultimately show ?thesis using nk by (simp add: filter_keys_def)
  qed
  have "find (\<lambda>c. xn_local (xd_name c) \<noteq> [] \<and> \<not> key_node c) (?ks @ [?c]) = Some ?c"
  proof -
    have "find (\<lambda>c. xn_local (xd_name c) \<noteq> [] \<and> \<not> key_node c) ?ks = None"
      using k by (auto simp: find_None_iff key_node_def list_all_iff)
    moreover have "find P xs = None \<Longrightarrow> find P (xs @ ys) = find P ys" for P and xs ys :: "xmlnode list"
      by (induction xs) (auto split: if_splits)
    ultimately show ?thesis using n' nk by simp
  qed
  with keys f have "filter_segs (XNode (XName ?sp (s_name s)) [] (?ks @ [?c])) = s # s' # ss" by simp
  moreover have "nodes_of sp (path_docs as (s # s' # ss)) = [XNode (XName ?sp (s_name s)) [] (?ks @ [?c])]"
    using d key_docs_text [of ?sp "s_keys s" "s' # ss"] unfolding path_docs.simps(2) [of as s]
    by (simp add: key_docs_nodes nodes_of_def [symmetric] del: map_map path_docs.simps(2))
  ultimately show ?case by blast
qed

text \<open>A subtree filter that names the nodes of a path and the keys of its list entries selects
  exactly that path.\<close>

theorem filter_selects_path:
  assumes "moduleForNS (xmlnsFor md ns) ns = md" and "md \<noteq> []" and "filter_path_ok (s # ss)"
    and "reads X (Tag ''x'' [] (path_docs [(''xmlns'', xmlnsFor md ns)] (s # ss)))"
  shows "filterPath X (renders (path_docs [(''xmlns'', xmlnsFor md ns)] (s # ss))) ns = Inr (path_string (Path md (s # ss)))"
proof -
  let ?ds = "path_docs [(''xmlns'', xmlnsFor md ns)] (s # ss)"
  have "list_all (\<lambda>d. \<exists>n as kids. d = Tag n as kids \<or> d = Empty n as) ?ds" by simp
  note fo = decodeForest_renders [OF this assms(4)]
  from filter_segs_path [OF assms(3), of "[]" "[(''xmlns'', xmlnsFor md ns)]"] obtain nodes where
    "nodes_of [] ?ds = [XNode (XName (xmlnsFor md ns) (s_name s)) [] nodes]"
    "filter_segs (XNode (XName (xmlnsFor md ns) (s_name s)) [] nodes) = s # ss" by auto
  with fo assms(1,2) show ?thesis by (simp add: filterPath_def Let_def del: path_docs.simps)
qed

abbreviation port_segs :: "segment list" where
  "port_segs \<equiv> [Segment ''port'' [Key ''name'' ''ge-0''], Segment ''mtu'' []]"

theorem filter_selects_path_witness:
  "filterPath (one_doc_lib (Tag ''x'' [] (path_docs [(''xmlns'', xmlnsFor ''ports'' [])] port_segs)))
     (renders (path_docs [(''xmlns'', xmlnsFor ''ports'' [])] port_segs)) []
   = Inr (path_string (Path ''ports'' port_segs))"
proof -
  have "TrimSpace ''ge-0'' = ''ge-0''" by (simp add: TrimSpace_plain plain_ascii_def)
  then show ?thesis
    by (intro filter_selects_path one_doc_reads) (simp_all add: filter_path_ok_def moduleForNS_def xmlnsFor_def yang_prefix_def)
qed

section \<open>A list with one entry\<close>

text \<open>A list of which an edit-config names one entry is decoded as that entry, not as a list, and
  merging it replaces the whole list by the entry: every other entry is lost.\<close>

theorem one_entry_replaces_list:
  assumes "xd_nodes c \<noteq> []"
  shows "\<exists>m. nodeValue c = VMap m \<and> putChild [] (xn_local (xd_name c)) (nodeValue c) = [(xn_local (xd_name c), VMap m)]
    \<and> mergeValues E (VList entries) (nodeValue c) = VMap (clone_map E m)"
  using assms by (cases c) (auto simp: putChild_def mergeValues.simps asMap_def asSlice_def clone_map_def)

abbreviation one_entry :: xmlnode where
  "one_entry \<equiv> XNode (XName [] ''port'') [] [XNode (XName [] ''name'') ''ge-1'' []]"

theorem one_entry_replaces_list_witness:
  "\<exists>m. nodeValue one_entry = VMap m \<and> putChild [] ''port'' (nodeValue one_entry) = [(''port'', VMap m)]
    \<and> mergeValues undefined (VList [VMap [(''name'', VStr ''ge-0'')]]) (nodeValue one_entry) = VMap (clone_map undefined m)"
  using one_entry_replaces_list [of one_entry undefined "[VMap [(''name'', VStr ''ge-0'')]]"] by simp

end
