(* ===== verification/Ncserver.thy ===== *)
theory Ncserver
  imports Ncframing Ncrpc Ncserver_Xml Datastore
begin

text \<open>
  Package \<open>ncserver\<close> (\<open>error.go\<close>, \<open>dispatch.go\<close>, \<open>session.go\<close>, \<open>server.go\<close>): the NETCONF session
  engine. A datastore handle is shared by sessions and by the users bound to it, so handles
  live in a heap and users name them by address. \<open>dispatch\<close> answers one request; the loop of
  \<open>session.run\<close> reads, answers and writes; the server keeps the user index and the session
  table. The concurrent life of sessions is a step relation: \<open>Serve\<close> resolves a user, registers
  the session under the mutex, serves requests, and cleans up in its deferred function while
  other sessions, kills and \<open>ReplaceUsers\<close> go on. Contexts are modelled by the list of sessions
  whose context is cancelled, and the metrics by the session gauge.
\<close>

section \<open>Errors and replies\<close>

definition rpcErr :: "string \<Rightarrow> string \<Rightarrow> string \<Rightarrow> rpc_error" where
  "rpcErr typ tag msg = \<lparr>re_type = typ, re_tag = tag, re_severity = ''error'', re_apptag = [],
     re_path = [], re_message = msg\<rparr>"

definition okReply :: "string \<Rightarrow> reply" where
  "okReply i = \<lparr>ry_id = i, ry_ok = True, ry_data = None, ry_errors = []\<rparr>"

definition errReply :: "string \<Rightarrow> rpc_error \<Rightarrow> reply" where
  "errReply i e = \<lparr>ry_id = (if i = [] then ''0'' else i), ry_ok = False, ry_data = None, ry_errors = [e]\<rparr>"

definition err_text :: "goerr \<Rightarrow> string" where
  "err_text e = (case e of
     GDomain d \<Rightarrow> error_string (Some d)
   | GCanceled \<Rightarrow> ''context canceled''
   | GDeadline \<Rightarrow> ''context deadline exceeded''
   | GOther s \<Rightarrow> s)"

definition mapErr :: "goerr option \<Rightarrow> rpc_error" where
  "mapErr err = (case err of
     None \<Rightarrow> rpcErr ''application'' ''operation-failed'' ''error''
   | Some err \<Rightarrow>
       (case err_as err of
          None \<Rightarrow> rpcErr ''application'' ''operation-failed'' (err_text err)
        | Some de \<Rightarrow>
            if e_code de = CodeLockDenied then rpcErr ''protocol'' ''lock-denied'' (e_message de)
            else if e_code de = CodeNotWritable then rpcErr ''protocol'' ''operation-not-supported'' (e_message de)
            else if e_code de = CodeNotFound then rpcErr ''application'' ''data-missing'' (e_message de)
            else if e_code de = CodeForbidden \<or> e_code de = CodeUnauthorized then
              rpcErr ''protocol'' ''access-denied'' (e_message de)
            else if e_code de = CodeValidationFailed then
              rpcErr ''application''
                (if list_ex (\<lambda>v. fv_code v = ''unknown-element'') (e_violations de) then ''unknown-element''
                 else ''invalid-value'') (e_message de)
            else rpcErr ''application'' ''operation-failed'' (e_message de)))"

section \<open>State\<close>

abbreviation UserAccessRead :: string where "UserAccessRead \<equiv> ''read''"
abbreviation UserAccessReadWrite :: string where "UserAccessReadWrite \<equiv> ''read-write''"

record nuser =
  nu_name :: string
  nu_profile :: string
  nu_access :: string
  nu_handle :: "nat option"
  nu_ns :: "string gomap"

record nsess =
  se_id :: string
  se_user :: nuser
  se_remote :: string

text \<open>
  \<open>sv_heap\<close> are the datastore handles, \<open>sv_cancelled\<close> the sessions whose context is cancelled,
  \<open>sv_gauge\<close> the session gauge of the metrics, \<open>sv_sunk\<close> the events handed to the sink.
\<close>

record server =
  sv_users :: "nuser gomap"
  sv_next :: "64 word"
  sv_table :: "nsess gomap"
  sv_gauge :: nat
  sv_cancelled :: "string list"
  sv_heap :: "nat \<Rightarrow> handle"
  sv_sunk :: "(string \<times> nchange list) list"

definition se_addr :: "nsess \<Rightarrow> nat" where
  "se_addr s = (case nu_handle (se_user s) of Some a \<Rightarrow> a | None \<Rightarrow> 0)"

definition se_ctx :: "nsess \<Rightarrow> server \<Rightarrow> ctx" where
  "se_ctx s srv = WithSessionID
     (Some \<lparr>ctx_err = (if se_id s \<in> set (sv_cancelled srv) then Some GCanceled else None), ctx_session = None\<rparr>) (se_id s)"

definition cancel_session :: "string \<Rightarrow> server \<Rightarrow> server" where
  "cancel_session i srv = srv\<lparr>sv_cancelled := i # sv_cancelled srv\<rparr>"

definition Kill :: "string \<Rightarrow> server \<Rightarrow> bool \<times> server" where
  "Kill i srv = (case map_of (sv_table srv) i of
     None \<Rightarrow> (False, srv)
   | Some _ \<Rightarrow> (True, cancel_session i srv))"

section \<open>Dispatch\<close>

definition mutating :: "string \<Rightarrow> bool" where
  "mutating oper \<longleftrightarrow> oper \<in> set [OpEditConfig, OpCopyConfig, OpDeleteConfig, OpLock, OpUnlock, OpCommit,
     OpDiscardChanges, OpKillSession]"

definition storeName :: "string \<Rightarrow> bool \<Rightarrow> rpc_error + string" where
  "storeName name required =
    (if name = [] then
       (if required then Inl (rpcErr ''protocol'' ''missing-element'' ''datastore is required'') else Inr Running)
     else if name = ''url'' then
       Inl (rpcErr ''protocol'' ''operation-not-supported'' ''url capability is not advertised'')
     else if name = Running \<or> name = Candidate \<or> name = Startup then Inr name
     else Inl (rpcErr ''protocol'' ''unknown-element'' ''unknown datastore''))"

definition trim_byte :: "char \<Rightarrow> bool" where
  "trim_byte c \<longleftrightarrow> c = CHR '' '' \<or> c = NL \<or> c = CHR 0x0D \<or> c = CHR 0x09"

definition bytesTrim :: "bytes \<Rightarrow> bytes" where
  "bytesTrim b = rev (dropWhile trim_byte (rev (dropWhile trim_byte b)))"

text \<open>The reply to a datastore call, and the handle it leaves behind.\<close>

definition answer :: "nsess \<Rightarrow> server \<Rightarrow> rpc \<Rightarrow> goerr + handle \<Rightarrow> reply \<times> server" where
  "answer s srv r res = (case res of
     Inl e \<Rightarrow> (errReply (rp_id r) (mapErr (Some e)), srv)
   | Inr h \<Rightarrow> (okReply (rp_id r), srv\<lparr>sv_heap := (sv_heap srv)(se_addr s := h)\<rparr>))"

definition doGet :: "golib \<Rightarrow> xmllib \<Rightarrow> nsess \<Rightarrow> server \<Rightarrow> rpc \<Rightarrow> string \<Rightarrow> reply" where
  "doGet E X s srv r st =
    (let fpath = (case rp_filter r of
        None \<Rightarrow> Inr []
      | Some f \<Rightarrow>
          if fl_type f = FilterXPath then
            Inl (rpcErr ''protocol'' ''operation-not-supported'' ''xpath is not supported'')
          else if bytesTrim (fl_inner f) = [] then Inr []
          else (case filterPath X (fl_inner f) (nu_ns (se_user s)) of
                  Inl e \<Rightarrow> Inl (rpcErr ''application'' ''unknown-element'' e)
                | Inr p \<Rightarrow> Inr p))
     in case fpath of
       Inl e \<Rightarrow> errReply (rp_id r) e
     | Inr p \<Rightarrow>
         (case Get E (se_ctx s srv) (sv_heap srv (se_addr s)) st p of
            Inl e \<Rightarrow> errReply (rp_id r) (mapErr (Some e))
          | Inr n \<Rightarrow> \<lparr>ry_id = rp_id r, ry_ok = False,
              ry_data = Some (encodeTree E X (node_Map E n) (nu_ns (se_user s))), ry_errors = []\<rparr>))"

definition doEdit :: "golib \<Rightarrow> xmllib \<Rightarrow> nsess \<Rightarrow> server \<Rightarrow> rpc \<Rightarrow> reply \<times> server" where
  "doEdit E X s srv r =
    (if rp_target r \<noteq> StoreCandidate then
       (errReply (rp_id r) (rpcErr ''protocol'' ''operation-not-supported'' ''edit-config target must be candidate''), srv)
     else
       (let oper = (if rp_defop r = [] \<or> rp_defop r = ''merge'' then Some OpMerge
                    else if rp_defop r = ''replace'' then Some OpReplace else None)
        in case oper of
          None \<Rightarrow> (errReply (rp_id r) (rpcErr ''protocol'' ''invalid-value'' ''unsupported default-operation''), srv)
        | Some oper \<Rightarrow>
            (case decodeConfig X (rp_config r) (nu_ns (se_user s)) of
               Inl e \<Rightarrow> (errReply (rp_id r) (rpcErr ''application'' ''unknown-element'' e), srv)
             | Inr tree \<Rightarrow>
                 answer s srv r (Edit E (se_ctx s srv) (sv_heap srv (se_addr s)) Candidate
                   \<lparr>eo_op = oper, eo_path = [], eo_value = EVal (VMap tree)\<rparr>))))"

definition doCopy :: "golib \<Rightarrow> nsess \<Rightarrow> server \<Rightarrow> rpc \<Rightarrow> reply \<times> server" where
  "doCopy E s srv r = (case storeName (rp_source r) True of
     Inl e \<Rightarrow> (errReply (rp_id r) e, srv)
   | Inr src \<Rightarrow>
       (case storeName (rp_target r) True of
          Inl e \<Rightarrow> (errReply (rp_id r) e, srv)
        | Inr dst \<Rightarrow> answer s srv r (Copy E (se_ctx s srv) (sv_heap srv (se_addr s)) src dst)))"

definition doDelete :: "golib \<Rightarrow> nsess \<Rightarrow> server \<Rightarrow> rpc \<Rightarrow> reply \<times> server" where
  "doDelete E s srv r = (case storeName (rp_target r) True of
     Inl e \<Rightarrow> (errReply (rp_id r) e, srv)
   | Inr st \<Rightarrow> answer s srv r (Delete E (se_ctx s srv) (sv_heap srv (se_addr s)) st))"

definition doLock :: "nsess \<Rightarrow> server \<Rightarrow> rpc \<Rightarrow> bool \<Rightarrow> reply \<times> server" where
  "doLock s srv r take_it = (case storeName (rp_target r) True of
     Inl e \<Rightarrow> (errReply (rp_id r) e, srv)
   | Inr st \<Rightarrow> answer s srv r
       (if take_it then Lock (se_ctx s srv) (sv_heap srv (se_addr s)) st (se_id s)
        else Unlock (se_ctx s srv) (sv_heap srv (se_addr s)) st (se_id s)))"

definition doCommit :: "golib \<Rightarrow> nsess \<Rightarrow> server \<Rightarrow> rpc \<Rightarrow> reply \<times> server" where
  "doCommit E s srv r = (case Commit E (se_ctx s srv) (sv_heap srv (se_addr s)) of
     Inl e \<Rightarrow> (errReply (rp_id r) (mapErr (Some e)), srv)
   | Inr (h, ev) \<Rightarrow> (okReply (rp_id r),
       srv\<lparr>sv_heap := (sv_heap srv)(se_addr s := h),
           sv_sunk := sv_sunk srv @ (case ev of None \<Rightarrow> [] | Some e \<Rightarrow> [e])\<rparr>))"

definition doValidate :: "golib \<Rightarrow> nsess \<Rightarrow> server \<Rightarrow> rpc \<Rightarrow> reply" where
  "doValidate E s srv r = (case (if rp_source r = [] then Inr Candidate else storeName (rp_source r) True) of
     Inl e \<Rightarrow> errReply (rp_id r) e
   | Inr st \<Rightarrow>
       (case Get E (se_ctx s srv) (sv_heap srv (se_addr s)) st [] of
          Inl e \<Rightarrow> errReply (rp_id r) (mapErr (Some e))
        | Inr n \<Rightarrow>
            (case Validate E n of
               Some e \<Rightarrow> errReply (rp_id r) (mapErr (Some (GDomain e)))
             | None \<Rightarrow> okReply (rp_id r))))"

definition doKill :: "nsess \<Rightarrow> server \<Rightarrow> rpc \<Rightarrow> reply \<times> server" where
  "doKill s srv r =
    (if rp_session r = [] then
       (errReply (rp_id r) (rpcErr ''protocol'' ''missing-element'' ''session-id is required''), srv)
     else if rp_session r = se_id s then (okReply (rp_id r), cancel_session (se_id s) srv)
     else (case Kill (rp_session r) srv of
             (False, srv') \<Rightarrow> (errReply (rp_id r) (rpcErr ''application'' ''invalid-value'' ''no such session''), srv')
           | (True, srv') \<Rightarrow> (okReply (rp_id r), srv')))"

definition doSubscribe :: "rpc \<Rightarrow> reply" where
  "doSubscribe r =
    (let stream = (if rp_stream r = [] then ''NETCONF'' else rp_stream r) in
     if stream \<noteq> ''NETCONF'' then errReply (rp_id r) (rpcErr ''application'' ''invalid-value'' ''unknown stream'')
     else okReply (rp_id r))"

definition dispatch :: "golib \<Rightarrow> xmllib \<Rightarrow> nsess \<Rightarrow> server \<Rightarrow> rpc \<Rightarrow> reply \<times> server" where
  "dispatch E X s srv r =
    (if rp_id r = [] then (errReply ''0'' (rpcErr ''rpc'' ''missing-attribute'' ''message-id is required''), srv)
     else if nu_access (se_user s) \<noteq> UserAccessReadWrite \<and> mutating (rp_name r) then
       (errReply (rp_id r) (rpcErr ''protocol'' ''access-denied'' ''user is read-only''), srv)
     else if rp_name r = OpGet then (doGet E X s srv r Running, srv)
     else if rp_name r = OpGetConfig then
       (case storeName (rp_source r) True of
          Inl e \<Rightarrow> (errReply (rp_id r) e, srv)
        | Inr st \<Rightarrow> (doGet E X s srv r st, srv))
     else if rp_name r = OpEditConfig then doEdit E X s srv r
     else if rp_name r = OpCopyConfig then doCopy E s srv r
     else if rp_name r = OpDeleteConfig then doDelete E s srv r
     else if rp_name r = OpLock then doLock s srv r True
     else if rp_name r = OpUnlock then doLock s srv r False
     else if rp_name r = OpCommit then doCommit E s srv r
     else if rp_name r = OpDiscardChanges then
       answer s srv r (Discard E (se_ctx s srv) (sv_heap srv (se_addr s)))
     else if rp_name r = OpValidate then (doValidate E s srv r, srv)
     else if rp_name r = OpCloseSession then (okReply (rp_id r), srv)
     else if rp_name r = OpKillSession then doKill s srv r
     else if rp_name r = OpCreateSubscription then (doSubscribe r, srv)
     else (errReply (rp_id r) (rpcErr ''protocol'' ''operation-not-supported'' (''unknown rpc '' @ rp_name r)), srv))"

section \<open>The server\<close>

definition publishSessionsLocked :: "server \<Rightarrow> server" where
  "publishSessionsLocked srv = srv\<lparr>sv_gauge := length (sv_table srv)\<rparr>"

definition indexUsers :: "nuser list \<Rightarrow> nuser gomap" where
  "indexUsers us = fold (\<lambda>u m.
     (let u' = (if nu_access u = [] then u\<lparr>nu_access := UserAccessReadWrite\<rparr> else u)
      in kv_put (nu_name u) u' m)) us []"

definition server_New :: "nuser list \<Rightarrow> (nat \<Rightarrow> handle) \<Rightarrow> server" where
  "server_New us heap = \<lparr>sv_users = indexUsers us, sv_next = 0, sv_table = [], sv_gauge = 0, sv_cancelled = [],
     sv_heap = heap, sv_sunk = []\<rparr>"

definition storeUsers :: "nuser gomap \<Rightarrow> server \<Rightarrow> server" where
  "storeUsers us srv = srv\<lparr>sv_users := us\<rparr>"

text \<open>Whether a session still matches the user index.\<close>

definition live_as :: "nuser gomap \<Rightarrow> nuser \<Rightarrow> bool" where
  "live_as us u = (case map_of us (nu_name u) of
     None \<Rightarrow> False
   | Some live \<Rightarrow> nu_access live = nu_access u \<and> nu_profile live = nu_profile u \<and> nu_handle live = nu_handle u)"

text \<open>The part of \<open>ReplaceUsers\<close> after the index is published: remove and cancel what no longer matches.\<close>

definition sweepSessions :: "nuser gomap \<Rightarrow> server \<Rightarrow> server" where
  "sweepSessions us srv =
    (let victims = filter (\<lambda>is. \<not> live_as us (se_user (snd is))) (sv_table srv);
         srv1 = srv\<lparr>sv_table := filter (\<lambda>is. live_as us (se_user (snd is))) (sv_table srv)\<rparr>;
         srv2 = (if victims \<noteq> [] then publishSessionsLocked srv1 else srv1)
     in srv2\<lparr>sv_cancelled := map fst victims @ sv_cancelled srv2\<rparr>)"

definition ReplaceUsers :: "nuser list \<Rightarrow> server \<Rightarrow> server" where
  "ReplaceUsers us srv = sweepSessions (indexUsers us) (storeUsers (indexUsers us) srv)"

text \<open>\<open>Serve\<close> up to the session's identifier. \<open>H\<close> is the \<open>HandleFor\<close> callback.\<close>

definition serveBegin :: "xmllib \<Rightarrow> (string \<Rightarrow> nat option) \<Rightarrow> string \<Rightarrow> string \<Rightarrow> server \<Rightarrow> string + nsess \<times> server" where
  "serveBegin X H username addr srv = (case map_of (sv_users srv) username of
     None \<Rightarrow> Inl ''ncserver: unknown user''
   | Some u \<Rightarrow>
       (let u' = (case H username of Some h \<Rightarrow> u\<lparr>nu_handle := Some h\<rparr> | None \<Rightarrow> u) in
        if nu_handle u' = None then Inl (''ncserver: user '' @ quote_str X username @ '' has no datastore'')
        else
          (let n = sv_next srv + 1 in
           Inr (\<lparr>se_id = dec_digits (unat n), se_user = u', se_remote = addr\<rparr>, srv\<lparr>sv_next := n\<rparr>))))"

text \<open>The section of \<open>Serve\<close> under the mutex: enter the table, and leave it again if the user has
  changed in the meantime.\<close>

definition serveRegister :: "nsess \<Rightarrow> string \<Rightarrow> server \<Rightarrow> bool \<times> server" where
  "serveRegister s username srv =
    (let srv1 = publishSessionsLocked (srv\<lparr>sv_table := kv_put (se_id s) s (sv_table srv)\<rparr>);
         stale = (case map_of (sv_users srv1) username of
            None \<Rightarrow> True
          | Some live \<Rightarrow> nu_access live \<noteq> nu_access (se_user s) \<or> nu_profile live \<noteq> nu_profile (se_user s)
              \<or> nu_handle live \<noteq> nu_handle (se_user s))
     in if stale then
          (True, cancel_session (se_id s) (publishSessionsLocked (srv1\<lparr>sv_table := kv_del (se_id s) (sv_table srv1)\<rparr>)))
        else (False, srv1))"

definition server_drop :: "string \<Rightarrow> server \<Rightarrow> server" where
  "server_drop i srv = publishSessionsLocked (srv\<lparr>sv_table := kv_del i (sv_table srv)\<rparr>)"

text \<open>One round of the loop of \<open>dropLocks\<close>; its error is ignored.\<close>

definition dropLock :: "nsess \<Rightarrow> string \<Rightarrow> server \<Rightarrow> server" where
  "dropLock s st srv =
    (case Unlock \<lparr>ctx_err = None, ctx_session = None\<rparr> (sv_heap srv (se_addr s)) st (se_id s) of
       Inl _ \<Rightarrow> srv
     | Inr h \<Rightarrow> srv\<lparr>sv_heap := (sv_heap srv)(se_addr s := h)\<rparr>)"

definition dropLocks :: "nsess \<Rightarrow> server \<Rightarrow> server" where
  "dropLocks s srv = fold (dropLock s) [Running, Candidate, Startup] srv"

definition Sessions :: "server \<Rightarrow> (string \<times> string \<times> string \<times> string) list" where
  "Sessions srv = map (\<lambda>is. (se_id (snd is), nu_name (se_user (snd is)), nu_profile (se_user (snd is)), se_remote (snd is)))
     (sv_table srv)"

section \<open>What a request can do\<close>

text \<open>The datastore calls a session makes for itself.\<close>

fun own_call :: "string \<Rightarrow> ds_call \<Rightarrow> bool" where
  "own_call i (CLock st sid) = (sid = i)"
| "own_call i (CUnlock st sid) = (sid = i)"
| "own_call i (CWrite oper) = False"
| "own_call i _ = True"

text \<open>
  The effect of a request: nothing, the end of a session's context, or one successful call on the
  session's own handle, made as that session, with at most one event for the sink.
\<close>

definition effect :: "golib \<Rightarrow> nsess \<Rightarrow> server \<Rightarrow> server \<Rightarrow> bool" where
  "effect E s srv srv' \<longleftrightarrow> srv' = srv \<or> (\<exists>i. srv' = cancel_session i srv)
     \<or> (\<exists>c h evs. own_call (se_id s) c \<and> ds_result E (sv_heap srv (se_addr s)) (se_ctx s srv) c = Inr h
          \<and> srv' = srv\<lparr>sv_heap := (sv_heap srv)(se_addr s := h), sv_sunk := sv_sunk srv @ evs\<rparr>)"

lemma effect_none [simp]: "effect E s srv srv"
  by (simp add: effect_def)

lemma effect_call:
  assumes "own_call (se_id s) c" and "ds_result E (sv_heap srv (se_addr s)) (se_ctx s srv) c = res"
  shows "effect E s srv (snd (answer s srv r res))"
proof (cases res)
  case (Inr h)
  then have "effect E s srv (srv\<lparr>sv_heap := (sv_heap srv)(se_addr s := h), sv_sunk := sv_sunk srv @ []\<rparr>)"
    using assms unfolding effect_def by blast
  with Inr show ?thesis by (simp add: answer_def)
qed (simp add: answer_def)

lemma doEdit_effect: "effect E s srv (snd (doEdit E X s srv r))"
proof -
  have "effect E s srv (snd (answer s srv r (Edit E (se_ctx s srv) (sv_heap srv (se_addr s)) Candidate oper)))" for oper
    by (rule effect_call [where c = "CEdit Candidate oper"]) simp_all
  then show ?thesis by (simp add: doEdit_def Let_def split: sum.split)
qed

lemma doCopy_effect: "effect E s srv (snd (doCopy E s srv r))"
proof -
  have "effect E s srv (snd (answer s srv r (Copy E (se_ctx s srv) (sv_heap srv (se_addr s)) src dst)))" for src dst
    by (rule effect_call [where c = "CCopy src dst"]) simp_all
  then show ?thesis by (simp add: doCopy_def split: sum.split)
qed

lemma doDelete_effect: "effect E s srv (snd (doDelete E s srv r))"
proof -
  have "effect E s srv (snd (answer s srv r (Delete E (se_ctx s srv) (sv_heap srv (se_addr s)) st)))" for st
    by (rule effect_call [where c = "CDelete st"]) simp_all
  then show ?thesis by (simp add: doDelete_def split: sum.split)
qed

lemma doLock_effect: "effect E s srv (snd (doLock s srv r b))"
proof -
  have "effect E s srv (snd (answer s srv r (Lock (se_ctx s srv) (sv_heap srv (se_addr s)) st (se_id s))))"
    and "effect E s srv (snd (answer s srv r (Unlock (se_ctx s srv) (sv_heap srv (se_addr s)) st (se_id s))))" for st
    by (rule effect_call [where c = "CLock st (se_id s)"], simp_all)
      (rule effect_call [where c = "CUnlock st (se_id s)"], simp_all)
  then show ?thesis by (simp add: doLock_def split: sum.split)
qed

lemma doDiscard_effect: "effect E s srv (snd (answer s srv r (Discard E (se_ctx s srv) (sv_heap srv (se_addr s)))))"
  by (rule effect_call [where c = CDiscard]) simp_all

lemma doCommit_effect: "effect E s srv (snd (doCommit E s srv r))"
proof (cases "Commit E (se_ctx s srv) (sv_heap srv (se_addr s))")
  case (Inr hev)
  obtain h ev where hev: "hev = (h, ev)" by (cases hev)
  have "ds_result E (sv_heap srv (se_addr s)) (se_ctx s srv) CCommit = Inr h" "own_call (se_id s) CCommit"
    using Inr hev by simp_all
  then have "effect E s srv (srv\<lparr>sv_heap := (sv_heap srv)(se_addr s := h),
      sv_sunk := sv_sunk srv @ (case ev of None \<Rightarrow> [] | Some e \<Rightarrow> [e])\<rparr>)"
    unfolding effect_def by blast
  then show ?thesis by (simp add: doCommit_def Inr hev)
qed (simp add: doCommit_def)

lemma doKill_effect: "effect E s srv (snd (doKill s srv r))"
  by (auto simp: doKill_def Kill_def effect_def split: option.split)

lemma effect_if: "effect E s srv (snd a) \<Longrightarrow> effect E s srv (snd b) \<Longrightarrow> effect E s srv (snd (if c then a else b))"
  by simp

lemma dispatch_effect: "effect E s srv (snd (dispatch E X s srv r))"
  unfolding dispatch_def
  by (intro effect_if doEdit_effect doCopy_effect doDelete_effect doLock_effect doDiscard_effect doCommit_effect doKill_effect)
    (simp_all split: sum.split)

text \<open>C30: Every NETCONF request is at most one datastore call on the session's own handle, made as
  that session; the other handles, the user index, the session table and the counter stay as
  they are.\<close>

theorem request_is_one_call:
  "\<exists>c. own_call (se_id s) c
    \<and> (\<forall>a. sv_heap (snd (dispatch E X s srv r)) a = sv_heap srv a
         \<or> (a = se_addr s \<and> sv_heap (snd (dispatch E X s srv r)) a = ds_step E (sv_heap srv a) (se_ctx s srv, c)))
    \<and> sv_users (snd (dispatch E X s srv r)) = sv_users srv \<and> sv_table (snd (dispatch E X s srv r)) = sv_table srv
    \<and> sv_next (snd (dispatch E X s srv r)) = sv_next srv"
proof -
  let ?s' = "snd (dispatch E X s srv r)"
  have "effect E s srv ?s'" by (rule dispatch_effect)
  then consider "?s' = srv" | i where "?s' = cancel_session i srv"
    | c h evs where "own_call (se_id s) c" "ds_result E (sv_heap srv (se_addr s)) (se_ctx s srv) c = Inr h"
      "?s' = srv\<lparr>sv_heap := (sv_heap srv)(se_addr s := h), sv_sunk := sv_sunk srv @ evs\<rparr>"
    unfolding effect_def by blast
  then show ?thesis
  proof cases
    case 3
    then show ?thesis by (intro exI [of _ c]) (simp add: ds_step_def)
  qed (auto simp: cancel_session_def intro!: exI [of _ CDiscard])
qed

lemma keep_if: "(c \<Longrightarrow> snd a = srv) \<Longrightarrow> (\<not> c \<Longrightarrow> snd b = srv) \<Longrightarrow> snd (if c then a else b) = srv"
  by simp

text \<open>A user without write access changes no datastore, kills no session and takes no lock: the
  server is the same after any request, and every mutating request is answered access-denied.\<close>

theorem read_only_users_change_nothing:
  assumes "nu_access (se_user s) \<noteq> UserAccessReadWrite"
  shows "snd (dispatch E X s srv r) = srv
    \<and> (rp_id r \<noteq> [] \<and> mutating (rp_name r) \<longrightarrow>
      fst (dispatch E X s srv r) = errReply (rp_id r) (rpcErr ''protocol'' ''access-denied'' ''user is read-only''))"
proof (cases "mutating (rp_name r)")
  case True
  with assms show ?thesis by (simp add: dispatch_def)
next
  case False
  have "snd (dispatch E X s srv r) = srv"
    unfolding dispatch_def
    by (intro keep_if) (use False in \<open>simp_all add: mutating_def split: sum.split\<close>)
  with False show ?thesis by simp
qed

abbreviation reader_user :: nuser where
  "reader_user \<equiv> \<lparr>nu_name = ''bob'', nu_profile = ''lab'', nu_access = UserAccessRead, nu_handle = Some 0, nu_ns = []\<rparr>"

abbreviation lab_server :: server where
  "lab_server \<equiv> server_New [] (\<lambda>a. sample_handle [] [] [])"

abbreviation lock_rpc :: rpc where
  "lock_rpc \<equiv> no_rpc\<lparr>rp_id := ''1'', rp_name := OpLock, rp_target := Candidate\<rparr>"

theorem read_only_users_change_nothing_witness:
  "dispatch undefined undefined \<lparr>se_id = ''1'', se_user = reader_user, se_remote = []\<rparr> lab_server lock_rpc
     = (errReply ''1'' (rpcErr ''protocol'' ''access-denied'' ''user is read-only''), lab_server)"
  using read_only_users_change_nothing [of "\<lparr>se_id = ''1'', se_user = reader_user, se_remote = []\<rparr>" undefined undefined
      lab_server lock_rpc]
  by (simp add: mutating_def prod_eq_iff)

end
