(* ===== verification/App_Query.thy ===== *)
theory App_Query
  imports App_Props Ncserver
begin

text \<open>
  Package \<open>app\<close>, \<open>query.go\<close>, and the adapter of the session table in \<open>serve.go\<close>: the questions about the
  active snapshot, validation and export of a document, the notification log, and the list and the end of
  NETCONF sessions. The session table is an interface of the code; it is a locale here, and the
  NETCONF server's table is interpreted as an instance of it.
\<close>

section \<open>Questions about the snapshot\<close>

record listener_status =
  lst_name :: string
  lst_address :: string

record status =
  sx_ready :: bool
  sx_revision :: string
  sx_listeners :: "listener_status list"

definition app_Status :: "ctx \<Rightarrow> app \<Rightarrow> goerr + status" where
  "app_Status c a = (case ctx_err c of
     Some err \<Rightarrow> Inl err
   | None \<Rightarrow>
       (case active a of
          Inl err \<Rightarrow> Inl (GDomain err)
        | Inr snap \<Rightarrow> Inr \<lparr>sx_ready = True, sx_revision = sn_revision snap,
            sx_listeners = [\<lparr>lst_name = ''netconf'', lst_address = sn_netconfAddress snap\<rparr>,
              \<lparr>lst_name = ''restconf'', lst_address = sn_restconfAddress snap\<rparr>,
              \<lparr>lst_name = ''management'', lst_address = sn_managementAddress snap\<rparr>]\<rparr>))"

record state_view =
  sv_bootstrapRevision :: string
  sv_runtimeRevision :: string
  sv_generation :: "64 word"
  sv_drifted :: bool
  sv_loadedAt :: int
  sv_canonical :: state

definition app_State :: "golib \<Rightarrow> cfglib \<Rightarrow> ctx \<Rightarrow> app \<Rightarrow> goerr + state_view" where
  "app_State E K c a = (case ctx_err c of
     Some err \<Rightarrow> Inl err
   | None \<Rightarrow>
       (case active a of
          Inl err \<Rightarrow> Inl (GDomain err)
        | Inr snap \<Rightarrow>
            (case app_cloneState E K (sn_canonical snap) of
               Inl err \<Rightarrow> Inl (GDomain err)
             | Inr copied \<Rightarrow> Inr \<lparr>sv_bootstrapRevision = sn_bootstrapRevision snap, sv_runtimeRevision = sn_revision snap,
                 sv_generation = sn_generation snap, sv_drifted = Drifted (Some snap), sv_loadedAt = sn_compiledAt snap,
                 sv_canonical = copied\<rparr>)))"

text \<open>The outcome of a load may be a panic.\<close>

definition ValidateState :: "golib \<Rightarrow> cfglib \<Rightarrow> ctx \<Rightarrow> bytes \<Rightarrow> goerr option option" where
  "ValidateState E K c body = (case ctx_err c of
     Some err \<Rightarrow> Some (Some err)
   | None \<Rightarrow> (case Load E K body of None \<Rightarrow> None | Some (Inl err) \<Rightarrow> Some (Some (GDomain err)) | Some (Inr _) \<Rightarrow> Some None))"

definition ExportState :: "golib \<Rightarrow> cfglib \<Rightarrow> ctx \<Rightarrow> app \<Rightarrow> goerr + bytes" where
  "ExportState E K c a = (case ctx_err c of
     Some err \<Rightarrow> Inl err
   | None \<Rightarrow> (case active a of Inl err \<Rightarrow> Inl (GDomain err) | Inr snap \<Rightarrow> map_sum GDomain id (CanonicalYAML E K (sn_canonical snap))))"

definition ListProfiles :: "ctx \<Rightarrow> app \<Rightarrow> goerr + string list" where
  "ListProfiles c a = (case ctx_err c of
     Some err \<Rightarrow> Inl err
   | None \<Rightarrow> (case active a of Inl err \<Rightarrow> Inl (GDomain err) | Inr snap \<Rightarrow> Inr (map sf_name (sn_profiles snap))))"

record profile_view =
  pv_name :: string
  pv_modules :: "module_spec list"
  pv_schema :: "schema_leaf list"
  pv_instance :: kvs

definition GetProfile :: "golib \<Rightarrow> cfglib \<Rightarrow> ctx \<Rightarrow> app \<Rightarrow> string \<Rightarrow> goerr + profile_view" where
  "GetProfile E K c a name = (case ctx_err c of
     Some err \<Rightarrow> Inl err
   | None \<Rightarrow>
       if name = [] then Inl (GDomain (ValidationFailed ''name is required'' [fv ''name'' ''required'' ''name is required'']))
       else (case active a of
               Inl err \<Rightarrow> Inl (GDomain err)
             | Inr snap \<Rightarrow>
                 (case ProfileNamed (Some snap) name of
                    None \<Rightarrow> Inl (GDomain (NotFound (''profile '' @ name @ '' not found'')))
                  | Some p \<Rightarrow>
                      (case app_cloneState E K (sn_canonical snap) of
                         Inl err \<Rightarrow> Inl (GDomain err)
                       | Inr copied \<Rightarrow>
                           (let sp = find (\<lambda>sp. pr_name sp = name) (sp_profiles (st_spec copied)) in
                            Inr \<lparr>pv_name = sf_name p, pv_modules = (case sp of None \<Rightarrow> [] | Some sp \<Rightarrow> pr_modules sp),
                              pv_schema = (case sp of None \<Rightarrow> [] | Some sp \<Rightarrow> pr_schema sp),
                              pv_instance = (case Option.bind sp pr_instance of None \<Rightarrow> node_Map E (sf_running p) | Some m \<Rightarrow> m)\<rparr>)))))"

definition ListUsers :: "ctx \<Rightarrow> app \<Rightarrow> goerr + suser list" where
  "ListUsers c a = (case ctx_err c of
     Some err \<Rightarrow> Inl err
   | None \<Rightarrow> (case active a of Inl err \<Rightarrow> Inl (GDomain err) | Inr snap \<Rightarrow> Inr (sn_users snap)))"

section \<open>Notifications\<close>

definition nerr_go :: "nerr \<Rightarrow> goerr" where
  "nerr_go err = (case err of
     ErrWaitTimeout \<Rightarrow> GOther ''wait_timeout'' | ErrNotFound \<Rightarrow> GOther ''not_found'' | ErrStoreWiped \<Rightarrow> GOther ''store_wiped'' | CtxErr e \<Rightarrow> e)"

definition ListNotifications :: "ctx \<Rightarrow> app \<Rightarrow> string \<Rightarrow> goerr + notification list" where
  "ListNotifications c a q = (case ctx_err c of
     Some err \<Rightarrow> Inl err
   | None \<Rightarrow> map_sum nerr_go id (notif_List (ctx_err c) (ns_ring (ap_notif a)) q))"

text \<open>A wait parks the caller; this is what it returns once the notification system has a result for it.\<close>

definition wait_begin :: "ctx \<Rightarrow> app \<Rightarrow> string \<Rightarrow> app + goerr" where
  "wait_begin c a q = (case ctx_err c of
     Some err \<Rightarrow> Inr err
   | None \<Rightarrow> Inl (a\<lparr>ap_notif := notif_step (ap_notif a) (DoWait (ctx_err c) q)\<rparr>))"

definition wait_end :: "nerr + notification \<Rightarrow> goerr + notification" where
  "wait_end r = map_sum (GDomain \<circ> mapNotifErr) id r"

section \<open>Sessions\<close>

record session_row =
  sr_id :: string
  sr_user :: string
  sr_profile :: string

definition sessionIDLess :: "string \<Rightarrow> string \<Rightarrow> bool" where
  "sessionIDLess a b = (case (parse_uint a, parse_uint b) of
     (Some ai, Some bi) \<Rightarrow> if ai \<noteq> bi then ai < bi else a < b
   | (Some _, None) \<Rightarrow> True
   | (None, Some _) \<Rightarrow> False
   | (None, None) \<Rightarrow> a < b)"

text \<open>Sorting with a comparison; the result does not depend on the algorithm when no two rows tie.\<close>

fun insert_by :: "('a \<Rightarrow> 'a \<Rightarrow> bool) \<Rightarrow> 'a \<Rightarrow> 'a list \<Rightarrow> 'a list" where
  "insert_by lt x [] = [x]"
| "insert_by lt x (y # ys) = (if lt y x then y # insert_by lt x ys else x # y # ys)"

definition sort_by :: "('a \<Rightarrow> 'a \<Rightarrow> bool) \<Rightarrow> 'a list \<Rightarrow> 'a list" where
  "sort_by lt xs = foldr (insert_by lt) xs []"

text \<open>The table is nil until the server has published one; the nil list is \<open>None\<close>.\<close>

definition app_ListSessions :: "ctx \<Rightarrow> session_row list option \<Rightarrow> goerr + session_row list option" where
  "app_ListSessions c table = (case ctx_err c of
     Some err \<Rightarrow> Inl err
   | None \<Rightarrow> Inr (map_option (sort_by (\<lambda>x y. sessionIDLess (sr_id x) (sr_id y))) table))"

definition app_KillSession :: "('t \<Rightarrow> string \<Rightarrow> 't \<times> bool) \<Rightarrow> jsonlib \<Rightarrow> int \<Rightarrow> ctx \<Rightarrow> actor option \<Rightarrow> app \<times> 't option \<Rightarrow> string
    \<Rightarrow> (app \<times> 't option) \<times> goerr option" where
  "app_KillSession kill J clock c act st i = (case ctx_err c of
     Some err \<Rightarrow> (st, Some err)
   | None \<Rightarrow>
       if i = [] then (st, Some (GDomain (ValidationFailed ''id is required'' [fv ''id'' ''required'' ''id is required''])))
       else (case snd st of
               None \<Rightarrow> (st, Some (GDomain (NotFound (''session '' @ i @ '' not found''))))
             | Some t \<Rightarrow>
                 (let (t', known) = kill t i in
                  if \<not> known then ((fst st, Some t'), Some (GDomain (NotFound (''session '' @ i @ '' not found''))))
                  else ((recordAudit J clock act ((event_of ''session.kill'')\<lparr>ev_reason := i\<rparr>) (fst st), Some t'), None))))"

text \<open>The adapter over the NETCONF server.\<close>

definition nc_ListSessions :: "server option \<Rightarrow> session_row list" where
  "nc_ListSessions srv = (case srv of
     None \<Rightarrow> []
   | Some srv \<Rightarrow> map (\<lambda>(i, u, p, _). \<lparr>sr_id = i, sr_user = u, sr_profile = p\<rparr>) (Sessions srv))"

definition nc_KillSession :: "server option \<Rightarrow> string \<Rightarrow> server option \<times> bool" where
  "nc_KillSession srv i = (case srv of
     None \<Rightarrow> (None, False)
   | Some srv \<Rightarrow> (let (known, srv') = Kill i srv in (Some srv', known)))"

section \<open>The order of session identifiers\<close>

text \<open>Numbers come first, by value and then by text; other identifiers follow by text.\<close>

definition session_key :: "string \<Rightarrow> nat \<times> int \<times> string" where
  "session_key s = (case parse_uint s of Some n \<Rightarrow> (0, n, s) | None \<Rightarrow> (1, 0, s))"

definition key_less :: "nat \<times> int \<times> string \<Rightarrow> nat \<times> int \<times> string \<Rightarrow> bool" where
  "key_less x y \<longleftrightarrow> fst x < fst y \<or> fst x = fst y \<and> (fst (snd x) < fst (snd y) \<or> fst (snd x) = fst (snd y) \<and> snd (snd x) < snd (snd y))"

lemma sessionIDLess_key: "sessionIDLess a b \<longleftrightarrow> key_less (session_key a) (session_key b)"
  by (auto simp: sessionIDLess_def session_key_def key_less_def split: option.split)

lemma session_key_inj: "session_key a = session_key b \<Longrightarrow> a = b"
  by (auto simp: session_key_def split: option.splits)

lemma sessionIDLess_trans: "sessionIDLess a b \<Longrightarrow> sessionIDLess b d \<Longrightarrow> sessionIDLess a d"
  unfolding sessionIDLess_key key_less_def by auto

lemma sessionIDLess_total: "a \<noteq> b \<Longrightarrow> sessionIDLess a b \<or> sessionIDLess b a"
  using session_key_inj [of a b] unfolding sessionIDLess_key key_less_def
  by (metis less_linear prod_eqI)

lemma sessionIDLess_irrefl [simp]: "\<not> sessionIDLess a a"
  by (simp add: sessionIDLess_key key_less_def)

lemma insert_by_set [simp]: "set (insert_by lt x xs) = insert x (set xs)"
  by (induction xs) auto

lemma sort_by_set [simp]: "set (sort_by lt xs) = set xs"
  by (induction xs) (simp_all add: sort_by_def)

lemma insert_by_length [simp]: "length (insert_by lt x xs) = Suc (length xs)"
  by (induction xs) auto

lemma sort_by_length [simp]: "length (sort_by lt xs) = length xs"
  by (induction xs) (simp_all add: sort_by_def)

abbreviation row_less :: "session_row \<Rightarrow> session_row \<Rightarrow> bool" where
  "row_less x y \<equiv> sessionIDLess (sr_id x) (sr_id y)"

lemma insert_sorted:
  assumes "sorted_wrt row_less xs" and "sr_id x \<notin> sr_id ` set xs"
  shows "sorted_wrt row_less (insert_by row_less x xs)"
  using assms
proof (induction xs)
  case (Cons y ys)
  show ?case
  proof (cases "row_less y x")
    case True
    with Cons show ?thesis by auto
  next
    case False
    then have "row_less x y" using Cons.prems(2) sessionIDLess_total [of "sr_id x" "sr_id y"] by auto
    moreover have "row_less x z" if "z \<in> set ys" for z
      using Cons.prems(1) that calculation sessionIDLess_trans by auto
    ultimately show ?thesis using False Cons.prems(1) by auto
  qed
qed simp

lemma sort_rows_sorted: "distinct (map sr_id xs) \<Longrightarrow> sorted_wrt row_less (sort_by row_less xs)"
  by (induction xs) (simp_all add: sort_by_def insert_sorted sort_by_set [unfolded sort_by_def])

section \<open>The contract of a session table\<close>

locale session_table =
  fixes ok :: "'t \<Rightarrow> bool" and rows :: "'t \<Rightarrow> session_row list" and kill :: "'t \<Rightarrow> string \<Rightarrow> 't \<times> bool"
  assumes rows_distinct: "ok t \<Longrightarrow> distinct (map sr_id (rows t))"
    and kill_known: "ok t \<Longrightarrow> snd (kill t i) \<longleftrightarrow> i \<in> sr_id ` set (rows t)"
    and kill_unknown: "ok t \<Longrightarrow> \<not> snd (kill t i) \<Longrightarrow> fst (kill t i) = t"
begin

text \<open>The list is the table's rows in the order of their identifiers.\<close>

lemma listed:
  assumes "ok t" and "ctx_err c = None"
  shows "\<exists>xs. app_ListSessions c (Some (rows t)) = Inr (Some xs) \<and> set xs = set (rows t) \<and> length xs = length (rows t)
    \<and> sorted_wrt row_less xs"
  using assms sort_rows_sorted [OF rows_distinct [OF assms(1)]] by (simp add: app_ListSessions_def)

text \<open>Exactly the listed sessions can be killed; a refusal changes nothing.\<close>

lemma killed:
  assumes "ok t" and "ctx_err c = None" and "i \<noteq> []"
  shows "app_KillSession kill J clock c act (a, Some t) i =
    (if i \<in> sr_id ` set (rows t)
     then ((recordAudit J clock act ((event_of ''session.kill'')\<lparr>ev_reason := i\<rparr>) a, Some (fst (kill t i))), None)
     else ((a, Some t), Some (GDomain (NotFound (''session '' @ i @ '' not found'')))))"
  using assms kill_known [OF assms(1), of i] kill_unknown [OF assms(1), of i]
  by (simp add: app_KillSession_def Let_def split_def)

end

definition table_ok :: "server option \<Rightarrow> bool" where
  "table_ok srv = (case srv of None \<Rightarrow> True
     | Some srv \<Rightarrow> distinct (map fst (sv_table srv)) \<and> (\<forall>(i, s) \<in> set (sv_table srv). se_id s = i))"

lemma nc_ids: "table_ok srv \<Longrightarrow> map sr_id (nc_ListSessions srv) = (case srv of None \<Rightarrow> [] | Some s \<Rightarrow> map fst (sv_table s))"
  by (auto simp: table_ok_def nc_ListSessions_def Sessions_def split: option.split)

interpretation nc: session_table table_ok nc_ListSessions nc_KillSession
proof
  fix t i
  assume t: "table_ok t"
  show "distinct (map sr_id (nc_ListSessions t))" using nc_ids [OF t] t by (auto simp: table_ok_def split: option.split)
  have "i \<in> sr_id ` set (nc_ListSessions t) \<longleftrightarrow> (case t of None \<Rightarrow> False | Some s \<Rightarrow> map_of (sv_table s) i \<noteq> None)"
    using nc_ids [OF t] by (auto simp: map_of_eq_None_iff simp flip: set_map split: option.split)
  then show "snd (nc_KillSession t i) \<longleftrightarrow> i \<in> sr_id ` set (nc_ListSessions t)"
    by (simp add: nc_KillSession_def Kill_def split: option.split)
  show "\<not> snd (nc_KillSession t i) \<Longrightarrow> fst (nc_KillSession t i) = t"
    by (simp add: nc_KillSession_def Kill_def split: option.splits)
qed

section \<open>The document of a boot\<close>

lemma LoadFile_normal:
  assumes "trip_ok E K" and "LoadFile E K p = Some (Inr n)"
  shows "normal_form E K n"
proof -
  from assms(2) obtain b where "load E K b (cf_dir K p) = Some (Inr n)"
    by (auto simp: LoadFile_def split: sum.splits) (metis map_sum.simps sum.exhaust sum.inject(2) sum.simps(4) id_apply)
  then obtain st where "Normalize E K (Some st) = Inr n"
    by (auto simp: load_def split: option.splits sum.splits)
  then show ?thesis by (rule Normalize_gives_normal [OF assms(1)])
qed

lemma boot_loaded:
  assumes "app_Boot E K clock c opts = Some (Inr a)"
  shows "\<exists>n snap. LoadFile E K (op_bootstrapPath opts) = Some (Inr n) \<and> compiler_Compile E K clock (Some n) no_opts = Inr snap
    \<and> ss_active (ap_snaps a) = Some snap"
proof -
  from assms obtain n snap where c: "LoadFile E K (op_bootstrapPath opts) = Some (Inr n)" "compiler_Compile E K clock (Some n) no_opts = Inr snap"
    "a = app_New E (opts\<lparr>op_snapshots := Some (fst (InstallBootstrap (case op_snapshots opts of None \<Rightarrow> NewStore | Some s \<Rightarrow> s) (Some snap)))\<rparr>)"
    unfolding app_Boot_def Let_def by (auto split: option.splits if_splits sum.splits)
  have "ss_active (ap_snaps a) = Some snap"
    by (simp add: c(3) app_New_def InstallBootstrap_def Swap_def SetBootstrap_def Let_def rebuildHandles_def)
  with c(1,2) show ?thesis by blast
qed

section \<open>Properties\<close>

text \<open>The management view of sessions: the list holds exactly the sessions of the NETCONF server's table, in the
  strict order of their numeric identifiers; killing one succeeds exactly if it is listed, and then its
  context is cancelled and one event with its identifier is recorded. Killing an unlisted session is refused
  as not found and changes and records nothing.\<close>

theorem sessions_listed_and_killed:
  assumes "table_ok srv" and "ctx_err c = None" and "i \<noteq> []"
  shows "\<exists>xs. app_ListSessions c (Some (nc_ListSessions srv)) = Inr (Some xs) \<and> set xs = set (nc_ListSessions srv)
      \<and> sorted_wrt (\<lambda>x y. sessionIDLess (sr_id x) (sr_id y)) xs
      \<and> app_KillSession nc_KillSession J clock c act (a, Some srv) i =
        (if i \<in> sr_id ` set xs
         then ((recordAudit J clock act ((event_of ''session.kill'')\<lparr>ev_reason := i\<rparr>) a, Some (map_option (cancel_session i) srv)), None)
         else ((a, Some srv), Some (GDomain (NotFound (''session '' @ i @ '' not found'')))))"
proof -
  from nc.listed [OF assms(1,2)] obtain xs where xs: "app_ListSessions c (Some (nc_ListSessions srv)) = Inr (Some xs)"
    "set xs = set (nc_ListSessions srv)" "sorted_wrt row_less xs" by blast
  have "fst (nc_KillSession srv i) = map_option (cancel_session i) srv" if "i \<in> sr_id ` set (nc_ListSessions srv)"
    using nc.kill_known [OF assms(1), of i] that by (auto simp: nc_KillSession_def Kill_def split: option.splits)
  then have "app_KillSession nc_KillSession J clock c act (a, Some srv) i =
      (if i \<in> sr_id ` set xs
       then ((recordAudit J clock act ((event_of ''session.kill'')\<lparr>ev_reason := i\<rparr>) a, Some (map_option (cancel_session i) srv)), None)
       else ((a, Some srv), Some (GDomain (NotFound (''session '' @ i @ '' not found'')))))"
    unfolding xs(2) nc.killed [OF assms] by simp
  with xs show ?thesis by blast
qed

definition two_sessions :: server where
  "two_sessions = (server_New [] (\<lambda>_. sample_handle [] [] []))\<lparr>sv_table :=
     [(''10'', \<lparr>se_id = ''10'', se_user = \<lparr>nu_name = ''ada'', nu_profile = ''r1'', nu_access = [], nu_handle = Some 0, nu_ns = []\<rparr>, se_remote = []\<rparr>),
      (''9'', \<lparr>se_id = ''9'', se_user = \<lparr>nu_name = ''bob'', nu_profile = ''r1'', nu_access = [], nu_handle = Some 0, nu_ns = []\<rparr>, se_remote = []\<rparr>)]\<rparr>"

theorem sessions_listed_and_killed_witness:
  "\<exists>a. app_Boot boot_golib boot_lib 7 live boot_opts = Some (Inr a)
     \<and> snd (app_KillSession nc_KillSession plain_json 8 live None (a, Some (Some two_sessions)) ''9'') = None"
proof -
  obtain a where a: "app_Boot boot_golib boot_lib 7 live boot_opts = Some (Inr a)" by (rule boot_ready)
  have "table_ok (Some two_sessions)" "ctx_err live = None" "''9'' \<noteq> []" by (simp_all add: table_ok_def two_sessions_def server_New_def)
  from sessions_listed_and_killed [OF this, where J = plain_json and clock = 8 and act = None and a = a] obtain xs
    where xs: "set xs = set (nc_ListSessions (Some two_sessions))"
      "app_KillSession nc_KillSession plain_json 8 live None (a, Some (Some two_sessions)) ''9'' =
        (if ''9'' \<in> sr_id ` set xs
         then ((recordAudit plain_json 8 None ((event_of ''session.kill'')\<lparr>ev_reason := ''9''\<rparr>) a, Some (map_option (cancel_session ''9'') (Some two_sessions))), None)
         else ((a, Some (Some two_sessions)), Some (GDomain (NotFound (''session '' @ ''9'' @ '' not found'')))))" by blast
  have "''9'' \<in> sr_id ` set (nc_ListSessions (Some two_sessions))" by (simp add: nc_ListSessions_def Sessions_def two_sessions_def)
  then have "snd (app_KillSession nc_KillSession plain_json 8 live None (a, Some (Some two_sessions)) ''9'') = None"
    unfolding xs by (simp only: if_True snd_conv)
  with a show ?thesis by blast
qed

text \<open>What the service reports is what it was given: right after a boot from a document, the state view returns
  that document with the snapshot's revisions, and every profile of the document is listed and can be read.\<close>

theorem state_reports_document:
  assumes "trip_ok E K" and "app_Boot E K clock c opts = Some (Inr a)" and "ctx_err q = None"
  shows "\<exists>n snap v. LoadFile E K (op_bootstrapPath opts) = Some (Inr n) \<and> ss_active (ap_snaps a) = Some snap
    \<and> app_State E K q a = Inr v \<and> sv_canonical v = n \<and> sv_runtimeRevision v = sn_revision snap
    \<and> sv_bootstrapRevision v = sn_revision snap \<and> \<not> sv_drifted v \<and> sv_generation v = 0
    \<and> ListProfiles q a = Inr (map pr_name (sp_profiles (st_spec n)))
    \<and> (\<forall>p \<in> set (sp_profiles (st_spec n)). pr_name p \<noteq> [] \<longrightarrow> (\<exists>w. GetProfile E K q a (pr_name p) = Inr w \<and> pv_name w = pr_name p
         \<and> pv_modules w = pr_modules p \<and> pv_schema w = pr_schema p \<and> (\<forall>m. pr_instance p = Some m \<longrightarrow> pv_instance w = m)))"
proof -
  from boot_loaded [OF assms(2)] obtain n snap where b: "LoadFile E K (op_bootstrapPath opts) = Some (Inr n)"
    "compiler_Compile E K clock (Some n) no_opts = Inr snap" "ss_active (ap_snaps a) = Some snap" by blast
  have nf: "normal_form E K n" by (rule LoadFile_normal [OF assms(1) b(1)])
  from b(2) obtain n' :: state where c: "Normalize E K (Some n) = Inr n'" "config_Validate K (Some n') = None" "sn_canonical snap = Some n'"
    "compileProfiles E (sp_profiles (st_spec n')) = Inr (sn_profiles snap)" by (rule compile_parts)
  have n': "n' = n" using c(1) Normalize_normal [OF nf] by simp
  have cl: "app_cloneState E K (sn_canonical snap) = Inr n"
    using nf c(3) by (simp add: n' app_cloneState_def normal_form_def)
  note names = compileProfiles_names [OF c(4) [unfolded n']]
  note r = compiled_revisions [OF b(2)]
  have d: "distinct (map pr_name (sp_profiles (st_spec n)))"
    using valid_names(1) [of K "[]" n] c(2) config_Validate_valid [of K n] by (simp add: n')
  have "\<exists>w. GetProfile E K q a (pr_name p) = Inr w \<and> pv_name w = pr_name p
         \<and> pv_modules w = pr_modules p \<and> pv_schema w = pr_schema p \<and> (\<forall>m. pr_instance p = Some m \<longrightarrow> pv_instance w = m)"
    if p: "p \<in> set (sp_profiles (st_spec n))" "pr_name p \<noteq> []" for p
  proof -
    have "pr_name p \<in> set (map sf_name (sn_profiles snap))" using p(1) names by simp
    then have "ProfileNamed (Some snap) (pr_name p) \<noteq> None" by (simp add: ProfileNamed_def find_name del: not_None_eq)
    then obtain sp where "ProfileNamed (Some snap) (pr_name p) = Some sp" "sf_name sp = pr_name p" using ProfileNamed_SomeD by blast
    with find_in [OF d p(1)] p(2) b(3) cl assms(3) show ?thesis by (simp add: GetProfile_def active_def)
  qed
  moreover have "\<not> Drifted (Some snap)" "sn_generation snap = 0" using r by (simp_all add: Drifted_def)
  ultimately show ?thesis using b(1,3) cl names r assms(3)
    by (simp add: app_State_def ListProfiles_def active_def)
qed

theorem state_reports_document_witness:
  "\<exists>a v. app_Boot boot_golib boot_lib 7 live boot_opts = Some (Inr a) \<and> app_State boot_golib boot_lib live a = Inr v \<and> sv_canonical v = boot_state"
proof -
  obtain a where a: "app_Boot boot_golib boot_lib 7 live boot_opts = Some (Inr a)" by (rule boot_ready)
  have "ctx_err live = None" by simp
  from state_reports_document [OF boot_trip a this] a show ?thesis by (auto simp: boot_loads)
qed

end
