(* ===== verification/Netconfssh.thy ===== *)
theory Netconfssh
  imports Config_Json "HOL-Library.Multiset"
begin

text \<open>
  Package \<open>netconfssh\<close> (\<open>admission.go\<close>, \<open>auth.go\<close>, \<open>server.go\<close>): the SSH listener below the NETCONF server.
  It keeps the users with their credentials and a generation, the admitted networks and the tracked
  connections. Users and admission are replaced while connections are set up and served, so the second
  half of the theory is a step relation over the goroutines of \<open>handle\<close> and of the publishers. The
  SSH protocol itself, its keys' formats and the sockets are the library's (record \<open>sshlib\<close>): a key is its
  wire encoding, whose first field is its type.
\<close>

record sshlib =
  sl_keyType :: "bytes \<Rightarrow> string"
  sl_parseKey :: "bytes \<Rightarrow> string + bytes \<times> string list \<times> bytes"
  sl_addr :: "string \<Rightarrow> addr option"
  sl_host :: "string \<Rightarrow> string option"
  sl_signer :: "bytes \<Rightarrow> string option"
  sl_listen :: "string \<Rightarrow> string option"

section \<open>Admission\<close>

definition ssh_loopback :: "nprefix list" where
  "ssh_loopback = [\<lparr>np_addr = A4 0x7F000000, np_bits = 8\<rparr>, \<lparr>np_addr = A6 1 [], np_bits = 128\<rparr>]"

text \<open>A remote address: a TCP address with its IP, if it has one, or any other with its text.\<close>

datatype net_addr = TCPAddr "bytes option" string | OtherAddr string

fun addr_text :: "net_addr \<Rightarrow> string" where
  "addr_text (TCPAddr ip s) = s"
| "addr_text (OtherAddr s) = s"

definition be_bytes :: "bytes \<Rightarrow> nat" where
  "be_bytes b = foldl (\<lambda>n c. n * 256 + byte c) 0 b"

definition AddrFromSlice :: "bytes \<Rightarrow> addr" where
  "AddrFromSlice b = (if length b = 4 then A4 (of_nat (be_bytes b)) else if length b = 16 then A6 (of_nat (be_bytes b)) [] else ANone)"

definition addrIP :: "sshlib \<Rightarrow> net_addr option \<Rightarrow> addr" where
  "addrIP S remote = (case remote of
     None \<Rightarrow> ANone
   | Some (TCPAddr (Some ip) _) \<Rightarrow> Unmap (AddrFromSlice ip)
   | Some a \<Rightarrow>
       (let host = (case sl_host S (addr_text a) of None \<Rightarrow> addr_text a | Some h \<Rightarrow> h) in
        case sl_addr S host of None \<Rightarrow> ANone | Some ip \<Rightarrow> Unmap ip))"

definition ssh_admit :: "sshlib \<Rightarrow> net_addr option \<Rightarrow> nprefix list option \<Rightarrow> bool" where
  "ssh_admit S remote cidrs =
    (let cs = (case cidrs of None \<Rightarrow> ssh_loopback | Some cs \<Rightarrow> cs); ip = addrIP S remote in
     if ip = ANone then False else list_ex (\<lambda>p. Contains p ip) cs)"

fun ssh_prefixes :: "cfglib \<Rightarrow> string list \<Rightarrow> string + nprefix list" where
  "ssh_prefixes K [] = Inr []"
| "ssh_prefixes K (s # ss) = (case cf_prefix K s of
     Inl err \<Rightarrow> Inl err
   | Inr p \<Rightarrow> (case ssh_prefixes K ss of Inl err \<Rightarrow> Inl err | Inr ps \<Rightarrow> Inr (p # ps)))"

definition ParseCIDRs :: "cfglib \<Rightarrow> string list option \<Rightarrow> string + nprefix list option" where
  "ParseCIDRs K cidrs = (case cidrs of None \<Rightarrow> Inr None | Some cs \<Rightarrow> map_sum id Some (ssh_prefixes K cs))"

section \<open>Credentials\<close>

record ssh_user =
  hu_name :: string
  hu_passwordFile :: string
  hu_keysFile :: string

record authKey =
  ak_key :: bytes
  ak_options :: "string list"

record loadedUser =
  lu_name :: string
  lu_password :: bytes
  lu_keys :: "authKey list"
  lu_gen :: "64 word"

text \<open>\<open>bytes.TrimRight\<close> of the line end.\<close>

definition trim_crlf :: "bytes \<Rightarrow> bytes" where
  "trim_crlf b = rev (dropWhile (\<lambda>c. c = CHR 0x0D \<or> c = CHR 0x0A) (rev b))"

text \<open>The loop over the lines of an authorized keys file. It ends if the parser moves on, so the outcome is
  \<open>None\<close> where it does not.\<close>

partial_function (option) load_keys :: "sshlib \<Rightarrow> bytes \<Rightarrow> (string + authKey list) option" where
  "load_keys S rest =
    (if TrimSpace rest = [] then Some (Inr [])
     else (case sl_parseKey S rest of
             Inl err \<Rightarrow> Some (Inl err)
           | Inr (key, opts, next) \<Rightarrow>
               Option.bind (load_keys S next) (\<lambda>r. Some (map_sum id (\<lambda>ks. \<lparr>ak_key = key, ak_options = opts\<rparr> # ks) r))))"

definition load_user :: "cfglib \<Rightarrow> sshlib \<Rightarrow> ssh_user \<Rightarrow> (string + loadedUser) option" where
  "load_user K S u =
    (let pre = ''netconfssh: user '' @ cf_quote K (hu_name u);
         pw = (if hu_passwordFile u = [] then Inr []
               else (case cf_file K (hu_passwordFile u) of
                       Inl err \<Rightarrow> Inl (pre @ '' password: '' @ err)
                     | Inr b \<Rightarrow> if trim_crlf b = [] then Inl (pre @ '' password file is empty'') else Inr (trim_crlf b)))
     in case pw of
          Inl err \<Rightarrow> Some (Inl err)
        | Inr password \<Rightarrow>
            if hu_keysFile u = [] then Some (Inr \<lparr>lu_name = hu_name u, lu_password = password, lu_keys = [], lu_gen = 0\<rparr>)
            else (case cf_file K (hu_keysFile u) of
                    Inl err \<Rightarrow> Some (Inl (pre @ '' authorized keys: '' @ err))
                  | Inr raw \<Rightarrow>
                      if TrimSpace raw = [] then Some (Inl (pre @ '' authorized keys file is empty''))
                      else (case load_keys S raw of
                              None \<Rightarrow> None
                            | Some (Inl err) \<Rightarrow> Some (Inl (pre @ '' authorized keys: '' @ err))
                            | Some (Inr keys) \<Rightarrow>
                                Some (if keys = [] then Inl (pre @ '' authorized keys file is empty'')
                                      else Inr \<lparr>lu_name = hu_name u, lu_password = password, lu_keys = keys, lu_gen = 0\<rparr>))))"

fun load_each :: "cfglib \<Rightarrow> sshlib \<Rightarrow> ssh_user list \<Rightarrow> loadedUser gomap \<Rightarrow> (string + loadedUser gomap) option" where
  "load_each K S [] out = Some (Inr out)"
| "load_each K S (u # us) out =
    (if hu_name u = [] then Some (Inl ''netconfssh: user name is required'')
     else if map_of out (hu_name u) \<noteq> None then Some (Inl (''netconfssh: duplicate user '' @ cf_quote K (hu_name u)))
     else if hu_passwordFile u = [] \<and> hu_keysFile u = [] then
       Some (Inl (''netconfssh: user '' @ cf_quote K (hu_name u) @ '' needs passwordFile and/or authorizedKeysFile''))
     else (case load_user K S u of
             None \<Rightarrow> None
           | Some (Inl err) \<Rightarrow> Some (Inl err)
           | Some (Inr lu) \<Rightarrow> load_each K S us (kv_put (hu_name u) lu out)))"

definition loadUsers :: "cfglib \<Rightarrow> sshlib \<Rightarrow> ssh_user list \<Rightarrow> (string + loadedUser gomap) option" where
  "loadUsers K S us = (case load_each K S us [] of
     Some (Inr out) \<Rightarrow> Some (if out = [] then Inl ''netconfssh: at least one user is required'' else Inr out)
   | r \<Rightarrow> r)"

abbreviation credGenExt :: string where "credGenExt \<equiv> ''labnetconf-cred-gen''"

type_synonym perms = "string gomap option"

definition permissions :: "loadedUser \<Rightarrow> perms" where
  "permissions u = (if lu_gen u = 0 then None else Some [(credGenExt, dec_digits (unat (lu_gen u)))])"

definition credGenOf :: "perms \<Rightarrow> string" where
  "credGenOf p = (case p of None \<Rightarrow> [] | Some ext \<Rightarrow> (case map_of ext credGenExt of None \<Rightarrow> [] | Some g \<Rightarrow> g))"

definition credentialID :: "authKey \<Rightarrow> string" where
  "credentialID k =
    (let blob = ak_key k in
     itoa (int (length blob)) @ '':'' @ blob
     @ concat (map (\<lambda>opt. CHR 0x00 # itoa (int (length opt)) @ '':'' @ opt) (ak_options k)))"

fun count_ids :: "authKey list \<Rightarrow> nat gomap \<Rightarrow> nat gomap" where
  "count_ids [] counts = counts"
| "count_ids (k # ks) counts =
     (let n = (case map_of counts (credentialID k) of None \<Rightarrow> 0 | Some n \<Rightarrow> n)
      in count_ids ks (kv_put (credentialID k) (n + 1) counts))"

fun consume_ids :: "authKey list \<Rightarrow> nat gomap \<Rightarrow> bool" where
  "consume_ids [] counts = True"
| "consume_ids (k # ks) counts =
     (let n = (case map_of counts (credentialID k) of None \<Rightarrow> 0 | Some n \<Rightarrow> n)
      in if n = 0 then False else consume_ids ks (kv_put (credentialID k) (n - 1) counts))"

definition credentialsEqual :: "loadedUser \<Rightarrow> loadedUser \<Rightarrow> bool" where
  "credentialsEqual a b =
    (if lu_password a \<noteq> lu_password b then False
     else if length (lu_keys a) \<noteq> length (lu_keys b) then False
     else consume_ids (lu_keys b) (count_ids (lu_keys a) []))"

section \<open>The server\<close>

record trackedConn =
  tc_user :: string
  tc_gen :: "64 word"

text \<open>Connections are numbered. An admission or a user map that was never published is \<open>None\<close>; \<open>Some None\<close> is
  the nil list.\<close>

record ssh_server =
  sh_users :: "loadedUser gomap option"
  sh_allow :: "nprefix list option option"
  sh_nextGen :: "64 word"
  sh_conns :: "(nat \<times> trackedConn) list"

definition userMap :: "ssh_server \<Rightarrow> loadedUser gomap" where
  "userMap s = (case sh_users s of None \<Rightarrow> [] | Some m \<Rightarrow> m)"

definition admitted :: "sshlib \<Rightarrow> ssh_server \<Rightarrow> net_addr option \<Rightarrow> bool" where
  "admitted S s a = ssh_admit S a (case sh_allow s of None \<Rightarrow> None | Some cidrs \<Rightarrow> cidrs)"

definition passwordAuth :: "ssh_server \<Rightarrow> string \<Rightarrow> bytes \<Rightarrow> string + perms" where
  "passwordAuth s user password = (case map_of (userMap s) user of
     None \<Rightarrow> Inl ''denied''
   | Some u \<Rightarrow>
       if lu_password u = [] then Inl ''denied''
       else if lu_password u \<noteq> password then Inl ''denied''
       else Inr (permissions u))"

definition publicKeyAuth :: "sshlib \<Rightarrow> ssh_server \<Rightarrow> string \<Rightarrow> bytes \<Rightarrow> string + perms" where
  "publicKeyAuth S s user key = (case map_of (userMap s) user of
     None \<Rightarrow> Inl ''denied''
   | Some u \<Rightarrow>
       if list_ex (\<lambda>k. sl_keyType S (ak_key k) = sl_keyType S key \<and> ak_key k = key) (lu_keys u) then Inr (permissions u)
       else Inl ''denied'')"

text \<open>The two sections of \<open>SetAllow\<close>: the list is published, then the connections it refuses are collected.\<close>

definition storeAllow :: "nprefix list option \<Rightarrow> ssh_server \<Rightarrow> ssh_server" where
  "storeAllow cidrs s = s\<lparr>sh_allow := Some cidrs\<rparr>"

definition scanAllow :: "sshlib \<Rightarrow> (nat \<Rightarrow> net_addr option) \<Rightarrow> ssh_server \<Rightarrow> nat list" where
  "scanAllow S remote s = filter (\<lambda>c. \<not> admitted S s (remote c)) (map fst (sh_conns s))"

definition SetAllow :: "sshlib \<Rightarrow> (nat \<Rightarrow> net_addr option) \<Rightarrow> nprefix list option \<Rightarrow> ssh_server \<Rightarrow> ssh_server \<times> nat list" where
  "SetAllow S remote cidrs s = (let s1 = storeAllow cidrs s in (s1, scanAllow S remote s1))"

fun assign_gens :: "loadedUser gomap \<Rightarrow> loadedUser gomap \<Rightarrow> 64 word \<Rightarrow> loadedUser gomap \<times> 64 word" where
  "assign_gens old [] gen = ([], gen)"
| "assign_gens old ((n, nu) # next) gen =
     (let keep = (case map_of old (lu_name nu) of
            None \<Rightarrow> None
          | Some ou \<Rightarrow> if lu_gen ou \<noteq> 0 \<and> credentialsEqual ou nu then Some (lu_gen ou) else None);
          (g, gen1) = (case keep of Some g \<Rightarrow> (g, gen) | None \<Rightarrow> (gen + 1, gen + 1));
          (rest, gen2) = assign_gens old next gen1
      in ((n, nu\<lparr>lu_gen := g\<rparr>) # rest, gen2))"

definition stale_conn :: "loadedUser gomap \<Rightarrow> trackedConn \<Rightarrow> bool" where
  "stale_conn users info \<longleftrightarrow> tc_user info \<noteq> []
     \<and> (case map_of users (tc_user info) of None \<Rightarrow> True | Some u \<Rightarrow> lu_gen u \<noteq> tc_gen info)"

definition publishUsers :: "loadedUser gomap \<Rightarrow> ssh_server \<Rightarrow> ssh_server \<times> nat list" where
  "publishUsers next s =
    (let (users, gen) = assign_gens (userMap s) next (sh_nextGen s);
         drop = map fst (filter (\<lambda>(c, info). stale_conn users info) (sh_conns s))
     in (s\<lparr>sh_users := Some users, sh_nextGen := gen\<rparr>, drop))"

text \<open>The outcome with the connections that are closed.\<close>

definition ssh_ReplaceUsers :: "cfglib \<Rightarrow> sshlib \<Rightarrow> ssh_user list \<Rightarrow> ssh_server \<Rightarrow> (string + ssh_server \<times> nat list) option" where
  "ssh_ReplaceUsers K S us s = map_option (map_sum id (\<lambda>next. publishUsers next s)) (loadUsers K S us)"

definition ClearUsers :: "ssh_server \<Rightarrow> ssh_server" where
  "ClearUsers s = s\<lparr>sh_users := Some []\<rparr>"

definition CloseConns :: "ssh_server \<Rightarrow> ssh_server \<times> nat list" where
  "CloseConns s = (s\<lparr>sh_conns := []\<rparr>, map fst (sh_conns s))"

definition bindAuth :: "nat \<Rightarrow> string \<Rightarrow> string \<Rightarrow> ssh_server \<Rightarrow> bool \<times> ssh_server" where
  "bindAuth conn user genStr s = (case parse_uint genStr of
     None \<Rightarrow> (True, s)
   | Some gen \<Rightarrow>
       if gen = 0 \<or> user = [] then (True, s)
       else (case map_of (sh_conns s) conn of
               None \<Rightarrow> (True, s)
             | Some info \<Rightarrow>
                 (let s1 = s\<lparr>sh_conns := AList.update conn \<lparr>tc_user = user, tc_gen = word_of_int gen\<rparr> (sh_conns s)\<rparr>
                  in (case map_of (userMap s1) user of None \<Rightarrow> True | Some u \<Rightarrow> lu_gen u \<noteq> word_of_int gen, s1))))"

definition track :: "nat \<Rightarrow> bool \<Rightarrow> ssh_server \<Rightarrow> ssh_server" where
  "track c add s =
    (if add then (if map_of (sh_conns s) c = None then s\<lparr>sh_conns := AList.update c \<lparr>tc_user = [], tc_gen = 0\<rparr> (sh_conns s)\<rparr> else s)
     else s\<lparr>sh_conns := AList.delete c (sh_conns s)\<rparr>)"

record ssh_config =
  sc_address :: string
  sc_hostKeyFile :: string
  sc_users :: "ssh_user list"
  sc_allow :: "nprefix list option"
  sc_handler :: bool

definition ssh_New :: "cfglib \<Rightarrow> sshlib \<Rightarrow> ssh_config \<Rightarrow> (string + ssh_server) option" where
  "ssh_New K S cfg =
    (if \<not> sc_handler cfg then Some (Inl ''netconfssh: handler is required'')
     else if sc_hostKeyFile cfg = [] then Some (Inl ''netconfssh: hostKeyFile is required'')
     else (let address = (if sc_address cfg = [] then '':830'' else sc_address cfg) in
       case loadUsers K S (sc_users cfg) of
         None \<Rightarrow> None
       | Some (Inl err) \<Rightarrow> Some (Inl err)
       | Some (Inr users) \<Rightarrow> Some
           (case cf_file K (sc_hostKeyFile cfg) of
              Inl err \<Rightarrow> Inl (''netconfssh: host key: '' @ err)
            | Inr pem \<Rightarrow>
                if pem = [] then Inl ''netconfssh: host key file is empty''
                else (case sl_signer S pem of
                        Some err \<Rightarrow> Inl (''netconfssh: host key: '' @ err)
                      | None \<Rightarrow>
                          (let s = \<lparr>sh_users = None, sh_allow = None, sh_nextGen = 0, sh_conns = []\<rparr>;
                               s1 = storeAllow (sc_allow cfg) (fst (publishUsers users s))
                           in case sl_listen S address of Some err \<Rightarrow> Inl err | None \<Rightarrow> Inr s1)))))"

section \<open>Channels\<close>

text \<open>A request on a session channel with the subsystem's name where the payload has one.\<close>

record chan_req =
  cq_type :: string
  cq_subsystem :: "string option"
  cq_wantReply :: bool

text \<open>The replies that a session channel sends, and whether the handler is run.\<close>

fun ssh_session :: "chan_req list \<Rightarrow> bool list \<times> bool" where
  "ssh_session [] = ([], False)"
| "ssh_session (r # rs) =
    (if cq_type r = ''subsystem'' \<and> cq_subsystem r = Some ''netconf'' then
       ((if cq_wantReply r then [True] else []) @ concat (map (\<lambda>q. if cq_wantReply q then [False] else []) rs), True)
     else (let (replies, run) = ssh_session rs in ((if cq_wantReply r then False # replies else replies), run)))"

section \<open>Credentials as multisets\<close>

definition id_count :: "nat gomap \<Rightarrow> string \<Rightarrow> nat" where
  "id_count counts i = (case map_of counts i of None \<Rightarrow> 0 | Some n \<Rightarrow> n)"

lemma id_count_put [simp]: "id_count (kv_put i n counts) = (id_count counts)(i := n)"
  by (auto simp: id_count_def)

lemma id_count_Nil [simp]: "id_count [] i = 0"
  by (simp add: id_count_def)

lemma count_ids: "id_count (count_ids ks counts) i = id_count counts i + count (mset (map credentialID ks)) i"
  by (induction ks arbitrary: counts) (auto simp: Let_def id_count_def [symmetric])

lemma consume_ids: "consume_ids ks counts \<longleftrightarrow> (\<forall>i. count (mset (map credentialID ks)) i \<le> id_count counts i)"
proof (induction ks arbitrary: counts)
  case (Cons k ks)
  let ?n = "id_count counts (credentialID k)"
  show ?case
  proof (cases "?n = 0")
    case True
    then have "\<not> count (mset (map credentialID (k # ks))) (credentialID k) \<le> ?n" by simp
    then have "\<not> (\<forall>i. count (mset (map credentialID (k # ks))) i \<le> id_count counts i)" by blast
    then show ?thesis using True by (simp add: id_count_def [symmetric] del: mset.simps list.map)
  next
    case False
    then have "(m \<le> ((id_count counts)(credentialID k := ?n - 1)) i)
        \<longleftrightarrow> ((if i = credentialID k then Suc m else m) \<le> id_count counts i)" for m i by auto
    with False Cons.IH show ?thesis by (auto simp: id_count_def [symmetric] Let_def)
  qed
qed simp

lemma credentialsEqual_iff:
  "credentialsEqual a b \<longleftrightarrow> lu_password a = lu_password b
     \<and> mset (map credentialID (lu_keys a)) = mset (map credentialID (lu_keys b))"
proof -
  let ?ma = "mset (map credentialID (lu_keys a))" and ?mb = "mset (map credentialID (lu_keys b))"
  have "?ma = ?mb \<longleftrightarrow> length (lu_keys a) = length (lu_keys b) \<and> ?mb \<subseteq># ?ma"
    by (metis length_map mset_subset_size nless_le size_mset subset_mset.eq_refl subset_mset.le_neq_trans)
  then show ?thesis by (auto simp: credentialsEqual_def consume_ids count_ids subseteq_mset_def)
qed

lemma credentialID_key:
  assumes "credentialID k = credentialID k'"
  shows "ak_key k = ak_key k'"
proof -
  have nd: "CHR '':'' \<notin> set (dec_digits n)" for n
    using dec_digits_all_digits [of n] by (auto simp: is_digit_def)
  have sp: "takeWhile (\<lambda>c. c \<noteq> CHR '':'') (dec_digits n @ CHR '':'' # r) = dec_digits n"
    "dropWhile (\<lambda>c. c \<noteq> CHR '':'') (dec_digits n @ CHR '':'' # r) = CHR '':'' # r" for n r
    using nd [of n] by (auto simp: takeWhile_append2 dropWhile_append2 takeWhile_eq_all_conv dropWhile_eq_Nil_conv takeWhile_append dropWhile_append)
  obtain x y where e: "dec_digits (length (ak_key k)) @ CHR '':'' # ak_key k @ x = dec_digits (length (ak_key k')) @ CHR '':'' # ak_key k' @ y"
    using assms by (auto simp: credentialID_def itoa_def Let_def)
  from arg_cong [OF e, of "takeWhile (\<lambda>c. c \<noteq> CHR '':'')"] have "length (ak_key k) = length (ak_key k')"
    by (simp only: sp) (rule dec_digits_inj)
  moreover from arg_cong [OF e, of "dropWhile (\<lambda>c. c \<noteq> CHR '':'')"] have "ak_key k @ x = ak_key k' @ y" by (simp only: sp list.inject)
  ultimately show ?thesis by simp
qed

text \<open>What a user's entry accepts.\<close>

datatype cred = ByPassword bytes | ByKey bytes

fun accepts :: "loadedUser \<Rightarrow> cred \<Rightarrow> bool" where
  "accepts u (ByPassword p) \<longleftrightarrow> lu_password u \<noteq> [] \<and> lu_password u = p"
| "accepts u (ByKey key) \<longleftrightarrow> key \<in> ak_key ` set (lu_keys u)"

fun ssh_auth :: "sshlib \<Rightarrow> ssh_server \<Rightarrow> string \<Rightarrow> cred \<Rightarrow> string + perms" where
  "ssh_auth S s user (ByPassword p) = passwordAuth s user p"
| "ssh_auth S s user (ByKey key) = publicKeyAuth S s user key"

lemma ssh_auth_Inr: "ssh_auth S s user cr = Inr p \<longleftrightarrow> (\<exists>u. map_of (userMap s) user = Some u \<and> accepts u cr \<and> p = permissions u)"
  by (cases cr) (auto simp: passwordAuth_def publicKeyAuth_def list_ex_iff split: option.splits)

lemma same_credentials_accept:
  assumes "credentialsEqual a b" and "accepts a cr"
  shows "accepts b cr"
proof (cases cr)
  case (ByPassword p)
  with assms show ?thesis by (auto simp: credentialsEqual_iff)
next
  case (ByKey key)
  with assms(2) obtain k where k: "k \<in> set (lu_keys a)" "ak_key k = key" by auto
  have "set (map credentialID (lu_keys a)) = set (map credentialID (lu_keys b))"
    using assms(1) by (metis credentialsEqual_iff set_mset_mset)
  with k(1) obtain k' where k': "k' \<in> set (lu_keys b)" "credentialID k = credentialID k'" by (auto simp: set_eq_iff image_iff)
  from credentialID_key [OF k'(2)] k(2) have "key = ak_key k'" by simp
  with k'(1) ByKey show ?thesis by simp
qed

section \<open>Generations\<close>

text \<open>An entry of the published map comes from one of the new users; its generation is the old one of equal
  credentials, or new.\<close>

definition gen_from :: "loadedUser gomap \<Rightarrow> loadedUser gomap \<Rightarrow> nat \<Rightarrow> nat \<Rightarrow> string \<times> loadedUser \<Rightarrow> bool" where
  "gen_from old next lo hi nu \<longleftrightarrow> (\<exists>new. (fst nu, new) \<in> set next \<and> snd nu = new\<lparr>lu_gen := lu_gen (snd nu)\<rparr>
     \<and> ((\<exists>ou. map_of old (lu_name new) = Some ou \<and> lu_gen ou \<noteq> 0 \<and> credentialsEqual ou new \<and> lu_gen (snd nu) = lu_gen ou)
        \<or> lo < unat (lu_gen (snd nu)) \<and> unat (lu_gen (snd nu)) \<le> hi))"

lemma gen_from_mono: "gen_from old xs lo hi nu \<Longrightarrow> lo' \<le> lo \<Longrightarrow> set xs \<subseteq> set ys \<Longrightarrow> gen_from old ys lo' hi nu"
  unfolding gen_from_def by (meson le_less_trans subsetD)

lemma assign_gens_spec:
  assumes "assign_gens old next gen = (users, gen')" and "unat gen + length next < 2 ^ 64"
  shows "map fst users = map fst next \<and> unat gen \<le> unat gen' \<and> unat gen' \<le> unat gen + length next
    \<and> (\<forall>nu \<in> set users. gen_from old next (unat gen) (unat gen') nu)"
  using assms
proof (induction "next" arbitrary: gen users)
  case (Cons x xs)
  obtain n nu where x: "x = (n, nu)" by (cases x)
  define keep where "keep = (case map_of old (lu_name nu) of None \<Rightarrow> None | Some ou \<Rightarrow> if lu_gen ou \<noteq> 0 \<and> credentialsEqual ou nu then Some (lu_gen ou) else None)"
  define g1 where "g1 = (case keep of Some g \<Rightarrow> (g, gen) | None \<Rightarrow> (gen + 1, gen + 1))"
  obtain rest where r: "assign_gens old xs (snd g1) = (rest, gen')" "users = (n, nu\<lparr>lu_gen := fst g1\<rparr>) # rest"
    using Cons.prems(1) by (auto simp: x keep_def [symmetric] g1_def [symmetric] Let_def split: prod.splits)
  have suc: "unat (gen + 1) = Suc (unat gen)" using Cons.prems(2) by (simp add: unat_word_ariths)
  have g: "unat gen \<le> unat (snd g1)" "unat (snd g1) \<le> Suc (unat gen)" using suc by (auto simp: g1_def split: option.split)
  then have "unat (snd g1) + length xs < 2 ^ 64" using Cons.prems(2) by simp
  note IH = Cons.IH [OF r(1) this]
  have "gen_from old (x # xs) (unat gen) (unat gen') (n, nu\<lparr>lu_gen := fst g1\<rparr>)"
  proof (cases keep)
    case None
    then have "g1 = (gen + 1, gen + 1)" by (simp add: g1_def)
    with suc IH x show ?thesis by (auto simp: gen_from_def)
  next
    case (Some g)
    with x show ?thesis by (auto simp: gen_from_def g1_def keep_def split: option.splits if_splits)
  qed
  moreover have "map fst users = map fst (x # xs)" "unat gen \<le> unat gen'" "unat gen' \<le> unat gen + length (x # xs)"
    using IH g r(2) x by auto
  moreover have "gen_from old (x # xs) (unat gen) (unat gen') p" if "p \<in> set rest" for p
    using IH that g(1) by (auto intro: gen_from_mono)
  ultimately show ?case by (simp add: r(2))
qed simp

lemma load_user_name: "load_user K S u = Some (Inr lu) \<Longrightarrow> lu_name lu = hu_name u"
  by (auto simp: load_user_def Let_def split: if_splits sum.splits option.splits)

definition named_users :: "loadedUser gomap \<Rightarrow> bool" where
  "named_users m \<longleftrightarrow> distinct (map fst m) \<and> (\<forall>(n, u) \<in> set m. lu_name u = n)"

lemma named_put: "named_users m \<Longrightarrow> lu_name u = n \<Longrightarrow> named_users (kv_put n u m)"
  by (auto simp: named_users_def kv.wf_put dest!: kv_put_mem)

lemma load_each_named: "load_each K S us out = Some (Inr m) \<Longrightarrow> named_users out \<Longrightarrow> named_users m"
  by (induction us arbitrary: out) (auto split: if_splits option.splits sum.splits intro: named_put load_user_name)

lemma loadUsers_named: "loadUsers K S us = Some (Inr m) \<Longrightarrow> named_users m"
  by (auto simp: loadUsers_def named_users_def split: option.splits sum.splits if_splits dest!: load_each_named)

lemma publish_entry:
  assumes "publishUsers next s = (s', gone)" and "named_users next" and "unat (sh_nextGen s) + length next < 2 ^ 64"
    and "map_of (userMap s') n = Some u"
  shows "lu_name u = n \<and> ((\<exists>ou. map_of (userMap s) n = Some ou \<and> lu_gen ou \<noteq> 0 \<and> credentialsEqual ou u \<and> lu_gen u = lu_gen ou)
    \<or> unat (sh_nextGen s) < unat (lu_gen u) \<and> unat (lu_gen u) \<le> unat (sh_nextGen s'))"
proof -
  obtain users gen where g: "assign_gens (userMap s) next (sh_nextGen s) = (users, gen)" by force
  then have s': "userMap s' = users" "sh_nextGen s' = gen" using assms(1) by (auto simp: publishUsers_def userMap_def Let_def)
  have "(n, u) \<in> set users" using assms(4) s'(1) by (simp add: map_of_SomeD)
  with assign_gens_spec [OF g assms(3)] have "gen_from (userMap s) next (unat (sh_nextGen s)) (unat gen) (n, u)" by blast
  then obtain nu where nu: "(n, nu) \<in> set next" "u = nu\<lparr>lu_gen := lu_gen u\<rparr>"
    "(\<exists>ou. map_of (userMap s) (lu_name nu) = Some ou \<and> lu_gen ou \<noteq> 0 \<and> credentialsEqual ou nu \<and> lu_gen u = lu_gen ou)
      \<or> unat (sh_nextGen s) < unat (lu_gen u) \<and> unat (lu_gen u) \<le> unat gen" by (auto simp: gen_from_def)
  have "lu_name u = lu_name nu" "credentialsEqual ou nu = credentialsEqual ou u" for ou
    by (subst nu(2), simp add: credentialsEqual_def)+
  moreover have "lu_name nu = n" using nu(1) assms(2) by (auto simp: named_users_def)
  ultimately show ?thesis using nu(3) s'(2) by metis
qed

lemma publish_frame:
  assumes "publishUsers next s = (s', gone)"
  shows "sh_conns s' = sh_conns s \<and> sh_allow s' = sh_allow s
    \<and> gone = map fst (filter (\<lambda>(c, info). stale_conn (userMap s') info) (sh_conns s))"
  using assms by (auto simp: publishUsers_def userMap_def Let_def split: prod.splits)

lemma publish_grows:
  assumes "publishUsers next s = (s', gone)" and "unat (sh_nextGen s) + length next < 2 ^ 64"
  shows "unat (sh_nextGen s) \<le> unat (sh_nextGen s')"
proof -
  obtain users gen where g: "assign_gens (userMap s) next (sh_nextGen s) = (users, gen)" by force
  then have "sh_nextGen s' = gen" using assms(1) by (auto simp: publishUsers_def Let_def)
  with assign_gens_spec [OF g assms(2)] show ?thesis by simp
qed

section \<open>Connections and publishers\<close>

text \<open>
  Where the goroutine of a connection is: accepted, past the first admission check, tracked, past the second check,
  authenticated, serving channels, and in the deferred functions before and after the connection is untracked.
\<close>

datatype conn_phase =
    CAccepted
  | CChecked
  | CTracked
  | CReady
  | CAuthed string perms cred
  | CServing string cred
  | CLeaving
  | CUntracked

text \<open>
  The publishers: connections collected but not closed yet, published admission lists whose connections are still to be
  collected, and whether the users were cleared with the connections still to be closed.
\<close>

record sshsys =
  sy_srv :: ssh_server
  sy_threads :: "nat \<rightharpoonup> conn_phase"
  sy_closed :: "nat set"
  sy_drops :: "nat list"
  sy_scans :: nat
  sy_clearing :: bool

abbreviation in_phase :: "sshsys \<Rightarrow> nat \<Rightarrow> conn_phase \<Rightarrow> sshsys" where
  "in_phase n c ph \<equiv> n\<lparr>sy_threads := (sy_threads n)(c \<mapsto> ph)\<rparr>"

inductive ssh_step :: "cfglib \<Rightarrow> sshlib \<Rightarrow> (nat \<Rightarrow> net_addr option) \<Rightarrow> sshsys \<Rightarrow> sshsys \<Rightarrow> bool" for K S remote where
  accept: "sy_threads n c = None \<Longrightarrow> c \<notin> sy_closed n \<Longrightarrow> ssh_step K S remote n (in_phase n c CAccepted)"
| check: "sy_threads n c = Some CAccepted \<Longrightarrow>
    ssh_step K S remote n (in_phase n c (if admitted S (sy_srv n) (remote c) then CChecked else CUntracked))"
| tracked: "sy_threads n c = Some CChecked \<Longrightarrow> ssh_step K S remote n ((in_phase n c CTracked)\<lparr>sy_srv := track c True (sy_srv n)\<rparr>)"
| recheck: "sy_threads n c = Some CTracked \<Longrightarrow>
    ssh_step K S remote n (in_phase n c (if admitted S (sy_srv n) (remote c) then CReady else CLeaving))"
| refused: "sy_threads n c = Some CReady \<Longrightarrow> ssh_step K S remote n (in_phase n c CLeaving)"
| login: "sy_threads n c = Some CReady \<Longrightarrow> ssh_auth S (sy_srv n) user cr = Inr p \<Longrightarrow>
    ssh_step K S remote n (in_phase n c (CAuthed user p cr))"
| bound: "sy_threads n c = Some (CAuthed user p cr) \<Longrightarrow> bindAuth c user (credGenOf p) (sy_srv n) = (close, srv) \<Longrightarrow>
    ssh_step K S remote n ((in_phase n c (if close then CLeaving else CServing user cr))\<lparr>sy_srv := srv\<rparr>)"
| finished: "sy_threads n c = Some (CServing user cr) \<Longrightarrow> ssh_step K S remote n (in_phase n c CLeaving)"
| untracked: "sy_threads n c = Some CLeaving \<Longrightarrow>
    ssh_step K S remote n ((in_phase n c CUntracked)\<lparr>sy_srv := track c False (sy_srv n)\<rparr>)"
| ended: "sy_threads n c = Some CUntracked \<Longrightarrow>
    ssh_step K S remote n (n\<lparr>sy_threads := (sy_threads n)(c := None), sy_closed := insert c (sy_closed n)\<rparr>)"
| replace: "loadUsers K S us = Some (Inr next) \<Longrightarrow> publishUsers next (sy_srv n) = (srv, gone) \<Longrightarrow>
    unat (sh_nextGen (sy_srv n)) + length next < 2 ^ 64 \<Longrightarrow>
    ssh_step K S remote n (n\<lparr>sy_srv := srv, sy_drops := gone @ sy_drops n, sy_clearing := False\<rparr>)"
| close: "c \<in> set (sy_drops n) \<Longrightarrow>
    ssh_step K S remote n (n\<lparr>sy_closed := insert c (sy_closed n), sy_drops := remove1 c (sy_drops n)\<rparr>)"
| allow: "ssh_step K S remote n (n\<lparr>sy_srv := storeAllow cidrs (sy_srv n), sy_scans := Suc (sy_scans n)\<rparr>)"
| scan: "sy_scans n = Suc k \<Longrightarrow>
    ssh_step K S remote n (n\<lparr>sy_drops := scanAllow S remote (sy_srv n) @ sy_drops n, sy_scans := k\<rparr>)"
| clear: "ssh_step K S remote n (n\<lparr>sy_srv := ClearUsers (sy_srv n), sy_clearing := True\<rparr>)"
| close_all: "CloseConns (sy_srv n) = (srv, gone) \<Longrightarrow>
    ssh_step K S remote n (n\<lparr>sy_srv := srv, sy_drops := gone @ sy_drops n, sy_clearing := False\<rparr>)"

inductive_cases ssh_stepE: "ssh_step K S remote n n'"

inductive ssh_reach :: "cfglib \<Rightarrow> sshlib \<Rightarrow> (nat \<Rightarrow> net_addr option) \<Rightarrow> sshsys \<Rightarrow> bool" for K S remote where
  start: "ssh_New K S cfg = Some (Inr srv) \<Longrightarrow> length (sc_users cfg) < 2 ^ 64 \<Longrightarrow>
    ssh_reach K S remote \<lparr>sy_srv = srv, sy_threads = (\<lambda>c. None), sy_closed = {}, sy_drops = [], sy_scans = 0, sy_clearing = False\<rparr>"
| step: "ssh_reach K S remote n \<Longrightarrow> ssh_step K S remote n n' \<Longrightarrow> ssh_reach K S remote n'"

definition users_inv :: "ssh_server \<Rightarrow> bool" where
  "users_inv s \<longleftrightarrow> (\<forall>n u. map_of (userMap s) n = Some u \<longrightarrow> lu_gen u \<noteq> 0 \<and> unat (lu_gen u) \<le> unat (sh_nextGen s))"

text \<open>A generation that stands for a credential: while the user's entry has it, the entry accepts the credential.\<close>

definition gen_good :: "ssh_server \<Rightarrow> string \<Rightarrow> 64 word \<Rightarrow> cred \<Rightarrow> bool" where
  "gen_good s user g cr \<longleftrightarrow> g \<noteq> 0 \<and> unat g \<le> unat (sh_nextGen s)
     \<and> (\<forall>u. map_of (userMap s) user = Some u \<longrightarrow> lu_gen u = g \<longrightarrow> accepts u cr)"

definition has_gen :: "ssh_server \<Rightarrow> string \<Rightarrow> 64 word \<Rightarrow> bool" where
  "has_gen s user g \<longleftrightarrow> (\<exists>u. map_of (userMap s) user = Some u \<and> lu_gen u = g)"

definition going :: "sshsys \<Rightarrow> nat \<Rightarrow> bool" where
  "going n c \<longleftrightarrow> c \<in> sy_closed n \<or> c \<in> set (sy_drops n)"

abbreviation is_tracked :: "sshsys \<Rightarrow> nat \<Rightarrow> bool" where
  "is_tracked n c \<equiv> map_of (sh_conns (sy_srv n)) c \<noteq> None"

abbreviation let_in :: "sshlib \<Rightarrow> (nat \<Rightarrow> net_addr option) \<Rightarrow> sshsys \<Rightarrow> nat \<Rightarrow> bool" where
  "let_in S remote n c \<equiv> 0 < sy_scans n \<or> admitted S (sy_srv n) (remote c)"

fun conn_inv :: "sshlib \<Rightarrow> (nat \<Rightarrow> net_addr option) \<Rightarrow> sshsys \<Rightarrow> nat \<Rightarrow> conn_phase \<Rightarrow> bool" where
  "conn_inv S remote n c CTracked \<longleftrightarrow> going n c \<or> is_tracked n c"
| "conn_inv S remote n c CReady \<longleftrightarrow> going n c \<or> is_tracked n c \<and> let_in S remote n c"
| "conn_inv S remote n c (CAuthed user p cr) \<longleftrightarrow>
     (\<exists>g. p = Some [(credGenExt, dec_digits (unat g))] \<and> gen_good (sy_srv n) user g cr)
     \<and> (going n c \<or> is_tracked n c \<and> let_in S remote n c)"
| "conn_inv S remote n c (CServing user cr) \<longleftrightarrow> going n c
     \<or> (\<exists>g. map_of (sh_conns (sy_srv n)) c = Some \<lparr>tc_user = user, tc_gen = g\<rparr> \<and> user \<noteq> [] \<and> gen_good (sy_srv n) user g cr
          \<and> (sy_clearing n \<or> has_gen (sy_srv n) user g)) \<and> let_in S remote n c"
| "conn_inv S remote n c ph \<longleftrightarrow> True"

definition ssh_inv :: "sshlib \<Rightarrow> (nat \<Rightarrow> net_addr option) \<Rightarrow> sshsys \<Rightarrow> bool" where
  "ssh_inv S remote n \<longleftrightarrow> users_inv (sy_srv n) \<and> (\<forall>c ph. sy_threads n c = Some ph \<longrightarrow> conn_inv S remote n c ph)"

text \<open>What a step of somebody else may do to a connection.\<close>

definition spares :: "sshlib \<Rightarrow> (nat \<Rightarrow> net_addr option) \<Rightarrow> sshsys \<Rightarrow> sshsys \<Rightarrow> nat \<Rightarrow> bool" where
  "spares S remote n n' c \<longleftrightarrow> (going n c \<longrightarrow> going n' c)
     \<and> (\<forall>user g cr. gen_good (sy_srv n) user g cr \<longrightarrow> gen_good (sy_srv n') user g cr)
     \<and> (\<not> going n' c \<longrightarrow> map_of (sh_conns (sy_srv n')) c = map_of (sh_conns (sy_srv n)) c
          \<and> (is_tracked n c \<longrightarrow> let_in S remote n c \<longrightarrow> let_in S remote n' c)
          \<and> (\<forall>user g. map_of (sh_conns (sy_srv n)) c = Some \<lparr>tc_user = user, tc_gen = g\<rparr> \<longrightarrow> user \<noteq> []
               \<longrightarrow> sy_clearing n \<or> has_gen (sy_srv n) user g \<longrightarrow> sy_clearing n' \<or> has_gen (sy_srv n') user g))"

lemma spared_inv:
  assumes "spares S remote n n' c" and "conn_inv S remote n c ph"
  shows "conn_inv S remote n' c ph"
proof -
  have g: "gen_good (sy_srv n) user g cr \<Longrightarrow> gen_good (sy_srv n') user g cr" for user g cr
    using assms(1) by (simp add: spares_def)
  show ?thesis
  proof (cases "going n' c")
    case True
    then show ?thesis using assms(2) g by (cases ph) auto
  next
    case False
    then have "\<not> going n c" "map_of (sh_conns (sy_srv n')) c = map_of (sh_conns (sy_srv n)) c"
        "is_tracked n c \<Longrightarrow> let_in S remote n c \<Longrightarrow> let_in S remote n' c"
        "map_of (sh_conns (sy_srv n)) c = Some \<lparr>tc_user = user, tc_gen = g\<rparr> \<Longrightarrow> user \<noteq> []
           \<Longrightarrow> sy_clearing n \<or> has_gen (sy_srv n) user g \<Longrightarrow> sy_clearing n' \<or> has_gen (sy_srv n') user g" for user g
      using assms(1) by (auto simp: spares_def)
    then show ?thesis using assms(2) g by (cases ph) auto
  qed
qed

lemma spared_others:
  assumes "ssh_inv S remote n" and "users_inv (sy_srv n')" and "\<And>c'. c' \<noteq> c \<Longrightarrow> spares S remote n n' c'"
    and "sy_threads n' = (sy_threads n)(c \<mapsto> ph)" and "conn_inv S remote n' c ph"
  shows "ssh_inv S remote n'"
  using assms spared_inv unfolding ssh_inv_def by (metis fun_upd_apply option.inject)

lemma spared_all:
  assumes "ssh_inv S remote n" and "users_inv (sy_srv n')" and "\<And>c. spares S remote n n' c" and "sy_threads n' = sy_threads n"
  shows "ssh_inv S remote n'"
  using assms spared_inv unfolding ssh_inv_def by metis

lemma same_server_spares:
  assumes "sy_srv n' = sy_srv n" and "sy_scans n' = sy_scans n" and "sy_clearing n' = sy_clearing n" and "going n c \<Longrightarrow> going n' c"
  shows "spares S remote n n' c"
  using assms by (simp add: spares_def)

lemma conns_only_spares:
  assumes "sh_users (sy_srv n') = sh_users (sy_srv n)" and "sh_allow (sy_srv n') = sh_allow (sy_srv n)" and "sh_nextGen (sy_srv n') = sh_nextGen (sy_srv n)"
    and "sy_scans n' = sy_scans n" and "sy_clearing n' = sy_clearing n" and "going n' c = going n c"
    and "map_of (sh_conns (sy_srv n')) c = map_of (sh_conns (sy_srv n)) c"
  shows "spares S remote n n' c"
  using assms by (simp add: spares_def gen_good_def has_gen_def userMap_def admitted_def)

lemma track_frame [simp]:
  "sh_users (track c b s) = sh_users s" "sh_allow (track c b s) = sh_allow s" "sh_nextGen (track c b s) = sh_nextGen s"
  "map_of (sh_conns (track c True s)) c \<noteq> None" "c' \<noteq> c \<Longrightarrow> map_of (sh_conns (track c b s)) c' = map_of (sh_conns s) c'"
  by (auto simp: track_def update_conv' delete_conv')

lemma bind_frame:
  assumes "bindAuth c user g s = (b, s')"
  shows "sh_users s' = sh_users s" "sh_allow s' = sh_allow s" "sh_nextGen s' = sh_nextGen s"
    "c' \<noteq> c \<Longrightarrow> map_of (sh_conns s') c' = map_of (sh_conns s) c'"
  using assms by (auto simp: bindAuth_def Let_def update_conv' split: option.splits if_splits)

lemma users_inv_cong:
  "sh_users s' = sh_users s \<Longrightarrow> sh_nextGen s' = sh_nextGen s \<Longrightarrow> users_inv s' = users_inv s"
  by (simp add: users_inv_def userMap_def)

lemma parse_gen: "parse_uint (dec_digits (unat (g :: 64 word))) = Some (int (unat g))"
proof -
  have "uint g < 2 ^ 64" by (rule order.strict_trans2 [OF unsigned_less]) simp
  then have "int (unat g) \<le> max_u64" by (simp add: max_u64_def)
  then show ?thesis using dec_digits_all_digits [of "unat g"] by (simp add: parse_uint_def dec_val_dec_digits list_all_iff)
qed

lemma gens_equal: "word_of_int (int (unat g)) = g"
  by simp

lemma bind_serves:
  assumes "bindAuth c user (credGenOf (Some [(credGenExt, dec_digits (unat g))])) s = (False, s')"
  shows "map_of (sh_conns s') c = Some \<lparr>tc_user = user, tc_gen = g\<rparr> \<and> user \<noteq> [] \<and> has_gen s user g"
  using assms by (auto simp: bindAuth_def credGenOf_def parse_gen has_gen_def userMap_def update_conv' Let_def split: option.splits if_splits)

lemma login_good:
  assumes "users_inv s" and "ssh_auth S s user cr = Inr p"
  shows "\<exists>g. p = Some [(credGenExt, dec_digits (unat g))] \<and> gen_good s user g cr"
proof -
  from assms(2) obtain u where u: "map_of (userMap s) user = Some u" "accepts u cr" "p = permissions u" by (auto simp: ssh_auth_Inr)
  with assms(1) have "lu_gen u \<noteq> 0" "unat (lu_gen u) \<le> unat (sh_nextGen s)" by (auto simp: users_inv_def)
  with u show ?thesis by (auto simp: permissions_def gen_good_def)
qed

lemma publish_spares:
  assumes "publishUsers next s = (s', gone)" and "named_users next" and "unat (sh_nextGen s) + length next < 2 ^ 64" and "users_inv s"
  shows "users_inv s'" "gen_good s user g cr \<Longrightarrow> gen_good s' user g cr"
proof -
  note entry = publish_entry [OF assms(1,2,3)]
  have le: "unat (sh_nextGen s) \<le> unat (sh_nextGen s')" by (rule publish_grows [OF assms(1,3)])
  show "users_inv s'" unfolding users_inv_def
  proof (intro allI impI)
    fix n u assume "map_of (userMap s') n = Some u"
    from entry [OF this] assms(4) le show "lu_gen u \<noteq> 0 \<and> unat (lu_gen u) \<le> unat (sh_nextGen s')"
      by (fastforce simp: users_inv_def unat_eq_0)
  qed
  assume g: "gen_good s user g cr"
  have "accepts u cr" if "map_of (userMap s') user = Some u" "lu_gen u = g" for u
    using entry [OF that(1)] g that(2) same_credentials_accept by (fastforce simp: gen_good_def)
  with g le show "gen_good s' user g cr" by (auto simp: gen_good_def)
qed

lemma inv_users: "ssh_inv S remote n \<Longrightarrow> users_inv (sy_srv n)"
  by (simp add: ssh_inv_def)

lemma inv_conn: "ssh_inv S remote n \<Longrightarrow> sy_threads n c = Some ph \<Longrightarrow> conn_inv S remote n c ph"
  by (simp add: ssh_inv_def)

lemma phase_inv:
  assumes "ssh_inv S remote n" and "conn_inv S remote n c ph"
  shows "ssh_inv S remote (in_phase n c ph)"
proof -
  have sp: "spares S remote n (in_phase n c ph) c'" for c' by (rule same_server_spares) (simp_all add: going_def)
  show ?thesis by (rule spared_others [OF assms(1) _ sp _ spared_inv [OF sp assms(2)]]) (simp_all add: inv_users [OF assms(1)])
qed

lemma conns_inv:
  assumes "ssh_inv S remote n" and "sh_users s = sh_users (sy_srv n)" and "sh_allow s = sh_allow (sy_srv n)" and "sh_nextGen s = sh_nextGen (sy_srv n)"
    and "\<And>c'. c' \<noteq> c \<Longrightarrow> map_of (sh_conns s) c' = map_of (sh_conns (sy_srv n)) c'"
    and "conn_inv S remote ((in_phase n c ph)\<lparr>sy_srv := s\<rparr>) c ph"
  shows "ssh_inv S remote ((in_phase n c ph)\<lparr>sy_srv := s\<rparr>)"
  by (rule spared_others [OF assms(1) _ _ _ assms(6)])
    (use assms(2-5) users_inv_cong [OF assms(2,4)] inv_users [OF assms(1)] in \<open>auto simp: going_def intro!: conns_only_spares\<close>)

lemma bound_inv:
  assumes "ssh_inv S remote n" and "sy_threads n c = Some (CAuthed user p cr)" and "bindAuth c user (credGenOf p) (sy_srv n) = (close, srv)"
  shows "ssh_inv S remote ((in_phase n c (if close then CLeaving else CServing user cr))\<lparr>sy_srv := srv\<rparr>)"
proof -
  note fr = bind_frame [OF assms(3)]
  note ci = inv_conn [OF assms(1,2)]
  have "conn_inv S remote ((in_phase n c (CServing user cr))\<lparr>sy_srv := srv\<rparr>) c (CServing user cr)" if "\<not> close"
  proof -
    from ci obtain g where g: "p = Some [(credGenExt, dec_digits (unat g))]" "gen_good (sy_srv n) user g cr" by auto
    from bind_serves [of c user g "sy_srv n" srv] assms(3) g(1) that
    have b: "map_of (sh_conns srv) c = Some \<lparr>tc_user = user, tc_gen = g\<rparr>" "user \<noteq> []" "has_gen (sy_srv n) user g" by auto
    have "gen_good srv user g cr" "has_gen srv user g" "admitted S srv = admitted S (sy_srv n)"
      using g(2) b(3) fr(1-3) by (auto simp: gen_good_def has_gen_def userMap_def admitted_def)
    then show ?thesis using b ci by (auto simp: going_def)
  qed
  then show ?thesis by (intro conns_inv [OF assms(1) fr(1-4)]) auto
qed

lemma replace_inv:
  assumes "ssh_inv S remote n" and "loadUsers K S us = Some (Inr next)" and "publishUsers next (sy_srv n) = (srv, gone)"
    and "unat (sh_nextGen (sy_srv n)) + length next < 2 ^ 64"
  shows "ssh_inv S remote (n\<lparr>sy_srv := srv, sy_drops := gone @ sy_drops n, sy_clearing := False\<rparr>)"
proof -
  note pub = publish_spares [OF assms(3) loadUsers_named [OF assms(2)] assms(4) inv_users [OF assms(1)]]
  note fr = publish_frame [OF assms(3)]
  have "has_gen srv user g" if "c \<notin> set gone" "map_of (sh_conns (sy_srv n)) c = Some \<lparr>tc_user = user, tc_gen = g\<rparr>" "user \<noteq> []" for c user g
    using that fr map_of_SomeD [OF that(2)] by (force simp: has_gen_def stale_conn_def split: option.splits)
  then have sp: "spares S remote n (n\<lparr>sy_srv := srv, sy_drops := gone @ sy_drops n, sy_clearing := False\<rparr>) c" for c
    using fr pub(2) by (auto simp: spares_def going_def admitted_def)
  show ?thesis by (rule spared_all [OF assms(1) _ sp]) (simp_all add: pub(1))
qed

lemma close_all_inv:
  assumes "ssh_inv S remote n" and "CloseConns (sy_srv n) = (srv, gone)"
  shows "ssh_inv S remote (n\<lparr>sy_srv := srv, sy_drops := gone @ sy_drops n, sy_clearing := False\<rparr>)"
proof -
  have s: "sh_users srv = sh_users (sy_srv n)" "sh_allow srv = sh_allow (sy_srv n)" "sh_nextGen srv = sh_nextGen (sy_srv n)"
      "sh_conns srv = []" "gone = map fst (sh_conns (sy_srv n))"
    using assms(2) by (auto simp: CloseConns_def)
  have "map_of (sh_conns (sy_srv n)) c = None" if "c \<notin> set gone" for c using that s(5) by (simp add: map_of_eq_None_iff)
  then have sp: "spares S remote n (n\<lparr>sy_srv := srv, sy_drops := gone @ sy_drops n, sy_clearing := False\<rparr>) c" for c
    using s(1-4) by (auto simp: spares_def going_def gen_good_def userMap_def)
  show ?thesis by (rule spared_all [OF assms(1) _ sp]) (use users_inv_cong [OF s(1,3)] inv_users [OF assms(1)] in simp_all)
qed

lemma scan_inv:
  assumes "ssh_inv S remote n"
  shows "ssh_inv S remote (n\<lparr>sy_drops := scanAllow S remote (sy_srv n) @ sy_drops n, sy_scans := k\<rparr>)"
proof -
  have "admitted S (sy_srv n) (remote c)" if "c \<notin> set (scanAllow S remote (sy_srv n))" "is_tracked n c" for c
    using that by (auto simp: scanAllow_def) (metis fst_conv image_eqI map_of_SomeD)
  then have sp: "spares S remote n (n\<lparr>sy_drops := scanAllow S remote (sy_srv n) @ sy_drops n, sy_scans := k\<rparr>) c" for c
    by (auto simp: spares_def going_def)
  show ?thesis by (rule spared_all [OF assms(1) _ sp]) (simp_all add: inv_users [OF assms(1)])
qed

lemma ended_inv:
  assumes "ssh_inv S remote n"
  shows "ssh_inv S remote (n\<lparr>sy_threads := (sy_threads n)(c := None), sy_closed := insert c (sy_closed n)\<rparr>)"
proof -
  have "spares S remote n (n\<lparr>sy_threads := (sy_threads n)(c := None), sy_closed := insert c (sy_closed n)\<rparr>) c'" for c'
    by (rule same_server_spares) (auto simp: going_def)
  from spared_inv [OF this] assms show ?thesis by (auto simp: ssh_inv_def split: if_splits)
qed

lemma step_inv:
  assumes "ssh_step K S remote n n'" and "ssh_inv S remote n"
  shows "ssh_inv S remote n'"
  using assms
proof (induction rule: ssh_step.induct)
  case (tracked n c)
  then show ?case by (intro conns_inv) auto
next
  case (recheck n c)
  from inv_conn [OF recheck(2,1)] show ?case by (intro phase_inv [OF recheck(2)]) auto
next
  case (login n c user cr p)
  from inv_conn [OF login(3,1)] login_good [OF inv_users [OF login(3)] login(2)] show ?case by (intro phase_inv [OF login(3)]) auto
next
  case (bound n c user p cr close srv)
  show ?case by (rule bound_inv [OF bound(3,1,2)])
next
  case (untracked n c)
  then show ?case by (intro conns_inv) auto
next
  case (close c n)
  show ?case by (rule spared_all [OF close(2)]) (auto simp: inv_users [OF close(2)] going_def intro!: same_server_spares)
next
  case (allow n cidrs)
  show ?case
    by (rule spared_all [OF allow])
      (use inv_users [OF allow] in \<open>auto simp: spares_def going_def users_inv_def gen_good_def has_gen_def userMap_def storeAllow_def\<close>)
next
  case (clear n)
  show ?case
    by (rule spared_all [OF clear])
      (auto simp: spares_def going_def users_inv_def gen_good_def has_gen_def userMap_def ClearUsers_def admitted_def)
qed (auto intro: phase_inv bound_inv replace_inv close_all_inv scan_inv ended_inv)

lemma put_length: "length (kv_put k v m) \<le> Suc (length m)"
  by (induction m) auto

lemma load_each_length: "load_each K S us out = Some (Inr m) \<Longrightarrow> length m \<le> length us + length out"
proof (induction us arbitrary: out)
  case (Cons u us)
  then obtain lu where "load_each K S us (kv_put (hu_name u) lu out) = Some (Inr m)"
    by (auto split: if_splits option.splits sum.splits)
  from Cons.IH [OF this] put_length [of "hu_name u" lu out] show ?case by simp
qed simp

lemma start_inv:
  assumes "ssh_New K S cfg = Some (Inr srv)" and "length (sc_users cfg) < 2 ^ 64"
  shows "users_inv srv"
proof -
  define s where "s = \<lparr>sh_users = None, sh_allow = None, sh_nextGen = 0, sh_conns = []\<rparr>"
  from assms(1) obtain us where us: "loadUsers K S (sc_users cfg) = Some (Inr us)" "srv = storeAllow (sc_allow cfg) (fst (publishUsers us s))"
    by (auto simp: ssh_New_def s_def Let_def split: if_splits option.splits sum.splits)
  have "length us \<le> length (sc_users cfg)"
    using us(1) load_each_length [of K S "sc_users cfg" "[]"] by (auto simp: loadUsers_def split: option.splits sum.splits if_splits)
  then have "unat (sh_nextGen s) + length us < 2 ^ 64" using assms(2) by (simp add: s_def)
  from publish_spares(1) [OF surjective_pairing loadUsers_named [OF us(1)] this]
  have "users_inv (fst (publishUsers us s))" by (simp add: users_inv_def s_def userMap_def)
  then show ?thesis by (simp add: us(2) users_inv_def storeAllow_def userMap_def)
qed

lemma reach_inv: "ssh_reach K S remote n \<Longrightarrow> ssh_inv S remote n"
  by (induction rule: ssh_reach.induct) (auto simp: ssh_inv_def [of _ _ "\<lparr>sy_srv = _, sy_threads = _, sy_closed = _, sy_drops = _, sy_scans = _, sy_clearing = _\<rparr>"] start_inv step_inv)

text \<open>C15: No stale SSH connection, in every interleaving of connections with replacements of the users and of the admission:
  a connection that is being served, and that no publisher is about to close, could log in again with the credential it
  used, and would get the generation it is tracked under. Once no list of networks is being published its address
  is admitted by the current list.\<close>

theorem ssh_connections_current:
  assumes "ssh_reach K S remote n" and "sy_threads n c = Some (CServing user cr)" and "c \<notin> sy_closed n" and "c \<notin> set (sy_drops n)"
  shows "(\<not> sy_clearing n \<longrightarrow> (\<exists>u. map_of (userMap (sy_srv n)) user = Some u \<and> ssh_auth S (sy_srv n) user cr = Inr (permissions u)
           \<and> map_of (sh_conns (sy_srv n)) c = Some \<lparr>tc_user = user, tc_gen = lu_gen u\<rparr>))
    \<and> (sy_scans n = 0 \<longrightarrow> admitted S (sy_srv n) (remote c))"
proof -
  from inv_conn [OF reach_inv [OF assms(1)] assms(2)] assms(3,4) obtain g where g: "map_of (sh_conns (sy_srv n)) c = Some \<lparr>tc_user = user, tc_gen = g\<rparr>"
      "gen_good (sy_srv n) user g cr" "sy_clearing n \<or> has_gen (sy_srv n) user g" "let_in S remote n c"
    by (auto simp: going_def)
  then show ?thesis by (auto simp: has_gen_def gen_good_def ssh_auth_Inr)
qed

section \<open>A sample listener\<close>

definition ssh_lib :: sshlib where
  "ssh_lib = \<lparr>sl_keyType = (\<lambda>_. []), sl_parseKey = (\<lambda>_. Inl []), sl_addr = (\<lambda>_. None), sl_host = (\<lambda>_. None), sl_signer = (\<lambda>_. None),
     sl_listen = (\<lambda>_. None)\<rparr>"

definition ssh_files :: "cfglib \<Rightarrow> cfglib" where
  "ssh_files K = K\<lparr>cf_file := (\<lambda>_. Inr ''pw'')\<rparr>"

definition ssh_sample :: ssh_config where
  "ssh_sample = \<lparr>sc_address = [], sc_hostKeyFile = ''host'', sc_users = [\<lparr>hu_name = ''ana'', hu_passwordFile = ''p'', hu_keysFile = []\<rparr>],
     sc_allow = None, sc_handler = True\<rparr>"

abbreviation ana_loaded :: loadedUser where
  "ana_loaded \<equiv> \<lparr>lu_name = ''ana'', lu_password = ''pw'', lu_keys = [], lu_gen = 1\<rparr>"

abbreviation ssh_at :: "(nat \<times> trackedConn) list \<Rightarrow> ssh_server" where
  "ssh_at conns \<equiv> \<lparr>sh_users = Some [(''ana'', ana_loaded)], sh_allow = Some None, sh_nextGen = 1, sh_conns = conns\<rparr>"

abbreviation ssh_sys :: "(nat \<times> trackedConn) list \<Rightarrow> conn_phase \<Rightarrow> sshsys" where
  "ssh_sys conns ph \<equiv> \<lparr>sy_srv = ssh_at conns, sy_threads = [0 \<mapsto> ph], sy_closed = {}, sy_drops = [], sy_scans = 0, sy_clearing = False\<rparr>"

definition ssh_remote :: "nat \<Rightarrow> net_addr option" where
  "ssh_remote c = Some (TCPAddr (Some [CHR 0x7F, CHR 0x00, CHR 0x00, CHR 0x01]) [])"

lemma ssh_sample_starts: "ssh_New (ssh_files K) ssh_lib ssh_sample = Some (Inr (ssh_at []))"
  by (simp add: ssh_New_def ssh_sample_def loadUsers_def load_user_def ssh_files_def trim_crlf_def publishUsers_def userMap_def storeAllow_def ssh_lib_def Let_def)

lemma ssh_sample_admits: "admitted ssh_lib (ssh_at conns) (ssh_remote c)"
  by (simp add: admitted_def ssh_admit_def ssh_loopback_def ssh_remote_def addrIP_def AddrFromSlice_def be_bytes_def Unmap_def Contains_def
      prefix_valid_def hasZone_def BitLen_def)

lemma ssh_sample_serves: "ssh_reach (ssh_files K) ssh_lib ssh_remote (ssh_sys [(0, \<lparr>tc_user = ''ana'', tc_gen = 1\<rparr>)] (CServing ''ana'' (ByPassword ''pw'')))"
proof -
  let ?r = "ssh_reach (ssh_files K) ssh_lib ssh_remote" and ?t = "\<lparr>tc_user = [], tc_gen = 0\<rparr>"
  let ?n = "\<lparr>sy_srv = ssh_at [], sy_threads = (\<lambda>c. None), sy_closed = {}, sy_drops = [], sy_scans = 0, sy_clearing = False\<rparr>"
  have a: "?r ?n" by (rule ssh_reach.start [OF ssh_sample_starts]) (simp add: ssh_sample_def)
  have b: "?r (ssh_sys [] CAccepted)" using ssh_reach.step [OF a ssh_step.accept [of _ 0]] by simp
  have c: "?r (ssh_sys [] CChecked)" using ssh_reach.step [OF b ssh_step.check [of _ 0]] ssh_sample_admits by simp
  have d: "?r (ssh_sys [(0, ?t)] CTracked)" using ssh_reach.step [OF c ssh_step.tracked [of _ 0]] by (simp add: track_def)
  have e: "?r (ssh_sys [(0, ?t)] CReady)" using ssh_reach.step [OF d ssh_step.recheck [of _ 0]] ssh_sample_admits by simp
  have p: "ssh_auth ssh_lib (ssh_at [(0, ?t)]) ''ana'' (ByPassword ''pw'') = Inr (permissions ana_loaded)"
    by (simp add: passwordAuth_def userMap_def)
  have f: "?r (ssh_sys [(0, ?t)] (CAuthed ''ana'' (permissions ana_loaded) (ByPassword ''pw'')))"
    using ssh_reach.step [OF e ssh_step.login [of _ 0 _ "''ana''" "ByPassword ''pw''"]] p by (simp del: ssh_auth.simps)
  have "bindAuth 0 ''ana'' (credGenOf (permissions ana_loaded)) (ssh_at [(0, ?t)]) = (False, ssh_at [(0, \<lparr>tc_user = ''ana'', tc_gen = 1\<rparr>)])"
    by (simp add: bindAuth_def credGenOf_def permissions_def parse_gen [of 1, simplified] userMap_def)
  then show ?thesis using ssh_reach.step [OF f ssh_step.bound [where c = 0 and user = "''ana''" and close = False]] by simp
qed

theorem ssh_connections_current_witness:
  "admitted ssh_lib (ssh_at [(0, \<lparr>tc_user = ''ana'', tc_gen = 1\<rparr>)]) (ssh_remote 0)"
  using ssh_connections_current [OF ssh_sample_serves, of 0 "''ana''" "ByPassword ''pw''"] by simp

end
