(* ===== verification/Restconf.thy ===== *)
theory Restconf
  imports App_Query Netconfssh
begin

text \<open>
  Package \<open>restconf\<close> (\<open>auth.go\<close>, \<open>data.go\<close>, \<open>error.go\<close>, \<open>server.go\<close>): RFC 8040 over HTTP. A request is a record
  of what the handler reads of it, a response a record of the status, the headers that are set and
  the body. The handler works on the datastore handles of a heap, found for the user by a callback or in
  the constructor's map. Parsing of media types, networks and addresses is the standard library's
  (record \<open>rclib\<close>). Listening, shutting down and metrics are left out.
\<close>

section \<open>Requests and responses\<close>

record rclib =
  rl_media :: "string \<Rightarrow> string option"
  rl_cidr :: "string \<Rightarrow> nprefix option"
  rl_ip :: "string \<Rightarrow> addr option"
  rl_host :: "string \<Rightarrow> string option"
  rl_prefix :: "nprefix \<Rightarrow> string"

text \<open>The body is what arrives before the reader fails, and whether it fails.\<close>

record http_req =
  rq_method :: string
  rq_path :: string
  rq_escaped :: string
  rq_remote :: string
  rq_basic :: "(string \<times> string) option"
  rq_accept :: string
  rq_contentType :: string
  rq_body :: bytes
  rq_bodyFails :: bool

datatype resp_body = NoBody | Problem derr | Json bytes | Text string

record http_resp =
  rs_status :: nat
  rs_type :: string
  rs_authenticate :: bool
  rs_allow :: string
  rs_body :: resp_body

abbreviation MediaYangJSON :: string where "MediaYangJSON \<equiv> ''application/yang-data+json''"
abbreviation mediaProblem :: string where "mediaProblem \<equiv> ''application/problem+json''"
abbreviation mediaXRD :: string where "mediaXRD \<equiv> ''application/xrd+xml''"

definition maxBodyBytes :: nat where "maxBodyBytes = 2 ^ 20"

section \<open>Errors\<close>

datatype rc_err = MediaErr nat derr | GoErr goerr

definition statusFor :: "code \<Rightarrow> nat" where
  "statusFor c =
    (if c = CodeUnauthorized then 401
     else if c = CodeForbidden \<or> c = CodeOriginNotAllowed then 403
     else if c = CodeNotFound then 404
     else if c = CodeCandidateDirty \<or> c = CodeLockDenied \<or> c = CodeRevisionMismatch then 409
     else if c = CodeNotWritable then 403
     else 400)"

definition writeError :: "rc_err \<Rightarrow> http_resp" where
  "writeError err = (case err of
     MediaErr status d \<Rightarrow> \<lparr>rs_status = status, rs_type = mediaProblem, rs_authenticate = False, rs_allow = [], rs_body = Problem d\<rparr>
   | GoErr e \<Rightarrow>
       (let de = (case err_as e of Some d \<Rightarrow> d | None \<Rightarrow> ValidationFailed (goerr_text e) []); status = statusFor (e_code de) in
        \<lparr>rs_status = status, rs_type = mediaProblem, rs_authenticate = (status = 401), rs_allow = [], rs_body = Problem de\<rparr>))"

abbreviation domain_error :: "derr \<Rightarrow> http_resp" where
  "domain_error d \<equiv> writeError (GoErr (GDomain d))"

definition writeYangJSON :: "cfglib \<Rightarrow> nat \<Rightarrow> val \<Rightarrow> http_resp" where
  "writeYangJSON K status v =
    (if \<not> marshals v then domain_error (ValidationFailed ''failed to encode JSON'' [])
     else \<lparr>rs_status = status, rs_type = MediaYangJSON, rs_authenticate = False, rs_allow = [], rs_body = Json (cf_json_write K v)\<rparr>)"

text \<open>\<open>strings.Split\<close> at one byte: always at least one part.\<close>

fun split_byte :: "char \<Rightarrow> string \<Rightarrow> string list" where
  "split_byte sep [] = [[]]"
| "split_byte sep (c # cs) =
     (if c = sep then [] # split_byte sep cs
      else (case split_byte sep cs of [] \<Rightarrow> [[c]] | p # ps \<Rightarrow> (c # p) # ps))"

definition requireJSONAccept :: "rclib \<Rightarrow> http_req \<Rightarrow> rc_err option" where
  "requireJSONAccept R r =
    (if rq_accept r = [] then None
     else if list_ex (\<lambda>part. case rl_media R (TrimSpace part) of
               None \<Rightarrow> False
             | Some mt \<Rightarrow> mt = MediaYangJSON \<or> mt = ''*/*'' \<or> mt = ''application/*'') (split_byte (CHR '','') (rq_accept r)) then None
     else Some (MediaErr 406 (New CodeValidationFailed (''Accept must include '' @ MediaYangJSON))))"

definition requireYangJSONContent :: "rclib \<Rightarrow> http_req \<Rightarrow> rc_err option" where
  "requireYangJSONContent R r =
    (let bad = MediaErr 415 (New CodeValidationFailed (''Content-Type must be '' @ MediaYangJSON)) in
     if rq_contentType r = [] then Some bad
     else (case rl_media R (rq_contentType r) of
             None \<Rightarrow> Some bad
           | Some mt \<Rightarrow> if mt \<noteq> MediaYangJSON then Some bad else None))"

section \<open>The server\<close>

record rc_user =
  ru_name :: string
  ru_password :: bytes
  ru_profile :: string
  ru_access :: string

text \<open>An admission that was never published is \<open>None\<close>.\<close>

record rc_server =
  rc_users :: "rc_user list option"
  rc_admission :: "(nprefix list \<times> bool) option"
  rc_handles :: "nat gomap"
  rc_handleFor :: "(string \<Rightarrow> string \<Rightarrow> nat option) option"
  rc_yangDate :: string

abbreviation loopbackCIDRs :: "string list" where
  "loopbackCIDRs \<equiv> [''127.0.0.0/8'', ''::1/128'']"

fun parse_nets :: "rclib \<Rightarrow> string list \<Rightarrow> derr + nprefix list" where
  "parse_nets R [] = Inr []"
| "parse_nets R (raw # raws) = (case rl_cidr R (TrimSpace raw) of
     None \<Rightarrow> Inl (ValidationFailed ''invalid admission CIDR'' [])
   | Some n \<Rightarrow> (case parse_nets R raws of Inl err \<Rightarrow> Inl err | Inr ns \<Rightarrow> Inr (n # ns)))"

definition parseAdmission :: "rclib \<Rightarrow> string list option \<Rightarrow> derr + nprefix list \<times> bool" where
  "parseAdmission R cidrs =
    (let cs = (case cidrs of None \<Rightarrow> loopbackCIDRs | Some cs \<Rightarrow> cs) in
     if cs = [] then Inr ([], True)
     else (case parse_nets R cs of Inl err \<Rightarrow> Inl err | Inr ns \<Rightarrow> Inr (ns, False)))"

definition SetAdmission :: "rclib \<Rightarrow> rc_server \<Rightarrow> string list option \<Rightarrow> derr + rc_server" where
  "SetAdmission R s cidrs = (case parseAdmission R cidrs of
     Inl err \<Rightarrow> Inl err
   | Inr adm \<Rightarrow> Inr (s\<lparr>rc_admission := Some adm\<rparr>))"

definition rc_ReplaceUsers :: "rc_server \<Rightarrow> rc_user list \<Rightarrow> rc_server" where
  "rc_ReplaceUsers s us = s\<lparr>rc_users := Some us\<rparr>"

record rc_config =
  rf_users :: "rc_user list"
  rf_handles :: "nat gomap"
  rf_allowClientCidrs :: "string list option"
  rf_yangLibraryDate :: string
  rf_handleFor :: "(string \<Rightarrow> string \<Rightarrow> nat option) option"

definition rc_New :: "rclib \<Rightarrow> rc_config \<Rightarrow> derr + rc_server" where
  "rc_New R cfg =
    (let date = TrimSpace (rf_yangLibraryDate cfg);
         s = \<lparr>rc_users = None, rc_admission = None, rc_handles = rf_handles cfg, rc_handleFor = rf_handleFor cfg,
              rc_yangDate = (if date = [] then ''2016-06-21'' else date)\<rparr>
     in case SetAdmission R s (rf_allowClientCidrs cfg) of
          Inl err \<Rightarrow> Inl err
        | Inr s' \<Rightarrow> Inr (rc_ReplaceUsers s' (rf_users cfg)))"

text \<open>
  \<open>net.IPNet.Contains\<close>: an address and a network are taken as IPv4 when they are mapped. The address of a
  network is masked, so a mapped one has at least 96 bits.
\<close>

definition net_To4 :: "nprefix \<Rightarrow> nprefix" where
  "net_To4 n = (case np_addr n of
     A6 w z \<Rightarrow> if np_bits n \<ge> 96 \<and> drop_bit 32 w = 0xFFFF then \<lparr>np_addr = A4 (ucast w), np_bits = np_bits n - 96\<rparr> else n
   | _ \<Rightarrow> n)"

definition net_Contains :: "nprefix \<Rightarrow> addr \<Rightarrow> bool" where
  "net_Contains n ip = Contains (net_To4 n) (Unmap ip)"

definition ipFromRemote :: "rclib \<Rightarrow> string \<Rightarrow> addr option" where
  "ipFromRemote R remote = rl_ip R (case rl_host R remote of None \<Rightarrow> remote | Some host \<Rightarrow> host)"

definition admit :: "rclib \<Rightarrow> rc_server \<Rightarrow> string \<Rightarrow> bool" where
  "admit R s remote = (case rc_admission s of
     None \<Rightarrow> False
   | Some (nets, denyAll) \<Rightarrow>
       if denyAll then False
       else (case ipFromRemote R remote of None \<Rightarrow> False | Some ip \<Rightarrow> list_ex (\<lambda>n. net_Contains n ip) nets))"

text \<open>The line end of the password file is trimmed. The last user that matches is taken.\<close>

definition credential_ok :: "string \<Rightarrow> string \<Rightarrow> rc_user \<Rightarrow> bool" where
  "credential_ok user pass u \<longleftrightarrow> ru_name u = user \<and> trim_crlf (ru_password u) \<noteq> [] \<and> pass \<noteq> [] \<and> trim_crlf (ru_password u) = pass"

definition authenticate :: "rc_server \<Rightarrow> http_req \<Rightarrow> derr + rc_user" where
  "authenticate s r =
    (let unauth = Unauthorized ''RESTCONF requires HTTP Basic'' in
     case rq_basic r of
       None \<Rightarrow> Inl unauth
     | Some (user, pass) \<Rightarrow>
         (case rc_users s of
            None \<Rightarrow> Inl unauth
          | Some users \<Rightarrow>
              (case foldl (\<lambda>matched u. if credential_ok user pass u then Some u else matched) None users of
                 None \<Rightarrow> Inl unauth
               | Some u \<Rightarrow> Inr u)))"

definition handleForUser :: "rc_server \<Rightarrow> rc_user \<Rightarrow> nat option" where
  "handleForUser s u = (case (case rc_handleFor s of None \<Rightarrow> None | Some f \<Rightarrow> f (ru_name u) (ru_profile u)) of
     Some h \<Rightarrow> Some h
   | None \<Rightarrow> (case map_of (rc_handles s) (ru_name u) of Some h \<Rightarrow> Some h | None \<Rightarrow> map_of (rc_handles s) (ru_profile u)))"

section \<open>Data resources\<close>

definition hex_digit :: "char \<Rightarrow> nat option" where
  "hex_digit c =
    (if CHR ''0'' \<le> c \<and> c \<le> CHR ''9'' then Some (byte c - 48)
     else if CHR ''a'' \<le> c \<and> c \<le> CHR ''f'' then Some (byte c - 87)
     else if CHR ''A'' \<le> c \<and> c \<le> CHR ''F'' then Some (byte c - 55)
     else None)"

text \<open>\<open>url.PathUnescape\<close>: a percent sign is followed by two hexadecimal digits.\<close>

fun PathUnescape :: "string \<Rightarrow> string option" where
  "PathUnescape [] = Some []"
| "PathUnescape (c # cs) =
     (if c = CHR ''%'' then
        (case cs of
           a # b # rest \<Rightarrow>
             (case (hex_digit a, hex_digit b) of
                (Some x, Some y) \<Rightarrow> map_option (\<lambda>s. char_of (16 * x + y) # s) (PathUnescape rest)
              | _ \<Rightarrow> None)
         | _ \<Rightarrow> None)
      else map_option (\<lambda>s. c # s) (PathUnescape cs))"

definition before_byte :: "char \<Rightarrow> string \<Rightarrow> string" where
  "before_byte c s = takeWhile (\<lambda>x. x \<noteq> c) s"

definition after_byte :: "char \<Rightarrow> string \<Rightarrow> string" where
  "after_byte c s = tl (dropWhile (\<lambda>x. x \<noteq> c) s)"

definition trim_set :: "char list \<Rightarrow> string \<Rightarrow> string" where
  "trim_set cs s = rev (dropWhile (\<lambda>c. c \<in> set cs) (rev (dropWhile (\<lambda>c. c \<in> set cs) s)))"

text \<open>The loop ends because every round drops a bracket; the fuel is the length of the text.\<close>

fun bracket_keys :: "nat \<Rightarrow> string \<Rightarrow> key list" where
  "bracket_keys 0 s = []"
| "bracket_keys (Suc n) s =
     (case s of
        c # cs \<Rightarrow>
          if c \<noteq> CHR ''['' then []
          else if CHR '']'' \<notin> set cs then []
          else (let inner = before_byte (CHR '']'') cs; rest = bracket_keys n (after_byte (CHR '']'') cs) in
                if CHR ''='' \<in> set inner
                then Key (before_byte (CHR ''='') inner) (trim_set [CHR 0x22, CHR 0x27] (after_byte (CHR ''='') inner)) # rest
                else rest)
      | [] \<Rightarrow> [])"

definition parseBracketKeys :: "string \<Rightarrow> key list" where
  "parseBracketKeys s = bracket_keys (length s) s"

definition splitSegment :: "string \<Rightarrow> string \<times> key list" where
  "splitSegment seg =
    (if CHR ''['' \<in> set seg then
       (before_byte (CHR ''['') seg, parseBracketKeys (dropWhile (\<lambda>x. x \<noteq> CHR ''['') seg))
     else if CHR ''='' \<notin> set seg then (seg, [])
     else
       (let name = before_byte (CHR ''='') seg; vals = split_byte (CHR '','') (after_byte (CHR ''='') seg) in
        if length vals = 1 then (name, [Key ''name'' (vals ! 0)])
        else (name, map (\<lambda>(i, v). Key (''name'' @ itoa (int i + 1)) v) (enumerate 0 vals))))"

definition path_keys :: "key list \<Rightarrow> string" where
  "path_keys ks = concat (map (\<lambda>k. ''['' @ k_name k @ ''='' @ k_value k @ '']'') ks)"

text \<open>The loop over the segments; \<open>first\<close> is the test of the index.\<close>

fun build_path :: "bool \<Rightarrow> string list \<Rightarrow> derr + string" where
  "build_path first [] = Inr []"
| "build_path first (seg # segs) = (case PathUnescape seg of
     None \<Rightarrow> Inl (ValidationFailed ''invalid RESTCONF path'' [])
   | Some dec \<Rightarrow>
       if dec = [] then Inl (ValidationFailed ''invalid RESTCONF path'' [])
       else
         (let (ident, keys) = splitSegment dec in
          if first \<and> CHR '':'' \<notin> set ident then Inl (ValidationFailed ''path must be module-qualified'' [])
          else (case build_path False segs of
                  Inl err \<Rightarrow> Inl err
                | Inr rest \<Rightarrow> Inr ((if first then [] else ''/'') @ ident @ path_keys keys @ rest))))"

definition dataPath :: "golib \<Rightarrow> string \<Rightarrow> derr + string" where
  "dataPath E escaped =
    (let pre = ''/restconf/data'' in
     if escaped \<noteq> pre \<and> \<not> prefix (pre @ ''/'') escaped then Inl (NotFound ''not a data resource'')
     else
       (let rest = trim_set ''/'' (drop (length pre) escaped) in
        if rest = [] then Inr []
        else (case build_path True (split_byte (CHR ''/'') rest) of
                Inl err \<Rightarrow> Inl err
              | Inr b \<Rightarrow> (case ParsePath E b of Inl err \<Rightarrow> Inl err | Inr p \<Rightarrow> Inr (path_string p)))))"

text \<open>The maps are visited in one order; a module that is not a container keeps its name.\<close>

definition encodeRoot :: "kvs \<Rightarrow> kvs" where
  "encodeRoot m = fold (\<lambda>(md, children) acc. case children of
     VMap cm \<Rightarrow> fold (\<lambda>(name, v) acc. kv_put (md @ '':'' @ name) v acc) cm acc
   | _ \<Rightarrow> kv_put md children acc) m []"

definition decodeRoot :: "kvs \<Rightarrow> kvs" where
  "decodeRoot m = fold (\<lambda>(k, v) acc.
     if CHR '':'' \<notin> set k then kv_put k v acc
     else (let md = before_byte (CHR '':'') k; name = after_byte (CHR '':'') k;
               parent = (case map_of acc md of Some (VMap p) \<Rightarrow> p | _ \<Rightarrow> [])
           in kv_put md (VMap (kv_put name v parent)) acc)) m []"

definition resource_key :: "path \<Rightarrow> string" where
  "resource_key p = (if p_segments p = [] then p_module p else p_module p @ '':'' @ s_name (last (p_segments p)))"

definition wrapResource :: "golib \<Rightarrow> string \<Rightarrow> val \<Rightarrow> kvs" where
  "wrapResource E pth v = (case ParsePath E pth of Inl _ \<Rightarrow> [] | Inr p \<Rightarrow> [(resource_key p, v)])"

definition resourceKeys :: "path \<Rightarrow> string list" where
  "resourceKeys p = (if p_segments p = [] then [p_module p]
     else [p_module p @ '':'' @ s_name (last (p_segments p)), s_name (last (p_segments p))])"

fun first_key :: "kvs \<Rightarrow> string list \<Rightarrow> val option" where
  "first_key m [] = None"
| "first_key m (k # ks) = (case map_of m k of Some v \<Rightarrow> Some v | None \<Rightarrow> first_key m ks)"

definition unwrapResource :: "golib \<Rightarrow> string \<Rightarrow> val \<Rightarrow> derr + val" where
  "unwrapResource E pth raw = (case raw of
     VMap m \<Rightarrow>
       if pth = [] then Inr (VMap (decodeRoot m))
       else (case ParsePath E pth of
               Inl err \<Rightarrow> Inl err
             | Inr p \<Rightarrow>
                 (case first_key m (resourceKeys p) of
                    Some v \<Rightarrow> Inr v
                  | None \<Rightarrow>
                      (case m of [(_, v)] \<Rightarrow> Inr v
                       | _ \<Rightarrow> Inl (ValidationFailed ''request body does not match the target resource'' []))))
   | _ \<Rightarrow> Inl (ValidationFailed ''JSON object required'' []))"

text \<open>The decoder reads numbers as floats; a trailing value is an error.\<close>

definition json_Unmarshal :: "golib \<Rightarrow> cfglib \<Rightarrow> bytes \<Rightarrow> val option" where
  "json_Unmarshal E K b = (case cf_json_read K b of
     Inl _ \<Rightarrow> None
   | Inr (v, trailing) \<Rightarrow> if trailing \<or> \<not> unmarshals E v then None else Some (json_val E K v))"

definition readResourceBody :: "golib \<Rightarrow> cfglib \<Rightarrow> http_req \<Rightarrow> string \<Rightarrow> derr + val" where
  "readResourceBody E K r pth =
    (if rq_bodyFails r \<and> length (rq_body r) \<le> maxBodyBytes then Inl (ValidationFailed ''failed to read request body'' [])
     else if length (rq_body r) > maxBodyBytes then Inl (ValidationFailed ''request body too large'' [])
     else if TrimSpace (rq_body r) = [] then Inl (ValidationFailed ''JSON object required'' [])
     else (case json_Unmarshal E K (rq_body r) of
             None \<Rightarrow> Inl (ValidationFailed ''invalid JSON'' [])
           | Some raw \<Rightarrow> unwrapResource E pth raw))"

section \<open>The handlers\<close>

definition getData :: "golib \<Rightarrow> cfglib \<Rightarrow> rclib \<Rightarrow> ctx \<Rightarrow> http_req \<Rightarrow> handle \<Rightarrow> string \<Rightarrow> http_resp" where
  "getData E K R c r h pth = (case requireJSONAccept R r of
     Some err \<Rightarrow> writeError err
   | None \<Rightarrow>
       (case Get E c h Running pth of
          Inl err \<Rightarrow> writeError (GoErr err)
        | Inr n \<Rightarrow>
            (if pth = [] then writeYangJSON K 200 (VMap (encodeRoot (node_Map E n)))
             else (case Lookup E n pth of
                     None \<Rightarrow> writeYangJSON K 200 (VMap [])
                   | Some v \<Rightarrow> writeYangJSON K 200 (VMap (wrapResource E pth v))))))"

abbreviation plain_resp :: "nat \<Rightarrow> string \<Rightarrow> http_resp" where
  "plain_resp status allow \<equiv> \<lparr>rs_status = status, rs_type = [], rs_authenticate = False, rs_allow = allow, rs_body = NoBody\<rparr>"

text \<open>The outcome is the handle with the response.\<close>

definition writeData :: "golib \<Rightarrow> cfglib \<Rightarrow> rclib \<Rightarrow> ctx \<Rightarrow> http_req \<Rightarrow> handle \<Rightarrow> string \<Rightarrow> handle \<times> http_resp" where
  "writeData E K R c r h pth =
    (let verb = (if rq_method r = ''PATCH'' \<or> rq_method r = ''POST'' then OpMerge
                 else if rq_method r = ''PUT'' then OpReplace else if rq_method r = ''DELETE'' then OpDelete else []);
         value = (if rq_method r = ''DELETE'' then Inr VNil
                  else (case requireYangJSONContent R r of
                          Some err \<Rightarrow> Inl err
                        | None \<Rightarrow> map_sum (\<lambda>d. GoErr (GDomain d)) id (readResourceBody E K r pth)))
     in case value of
          Inl err \<Rightarrow> (h, writeError err)
        | Inr v \<Rightarrow>
            (case WriteRunningIfCandidateClean E c h \<lparr>eo_op = verb, eo_path = pth, eo_value = EVal v\<rparr> of
               Inl err \<Rightarrow> (h, writeError (GoErr err))
             | Inr h' \<Rightarrow> (h', plain_resp (if rq_method r = ''POST'' then 201 else 204) [])))"

definition hostMetaXRD :: string where
  "hostMetaXRD = (let q = [CHR 0x22]; nl = [CHR 0x0A] in
     ''<?xml version='' @ q @ ''1.0'' @ q @ '' encoding='' @ q @ ''UTF-8'' @ q @ ''?>'' @ nl
     @ ''<XRD xmlns='' @ q @ ''http://docs.oasis-open.org/ns/xri/xrd-1.0'' @ q @ ''>'' @ nl
     @ ''  <Link rel='' @ q @ ''restconf'' @ q @ '' href='' @ q @ ''/restconf'' @ q @ ''/>'' @ nl
     @ ''</XRD>'' @ nl)"

definition serveHostMeta :: "http_req \<Rightarrow> http_resp" where
  "serveHostMeta r =
    (if rq_method r \<noteq> ''GET'' then plain_resp 405 ''GET''
     else \<lparr>rs_status = 200, rs_type = mediaXRD, rs_authenticate = False, rs_allow = [], rs_body = Text hostMetaXRD\<rparr>)"

definition serve_info :: "cfglib \<Rightarrow> rclib \<Rightarrow> rc_server \<Rightarrow> http_req \<Rightarrow> val \<Rightarrow> http_resp" where
  "serve_info K R s r v = (case authenticate s r of
     Inl err \<Rightarrow> domain_error err
   | Inr _ \<Rightarrow>
       if rq_method r \<noteq> ''GET'' then plain_resp 405 ''GET''
       else (case requireJSONAccept R r of Some err \<Rightarrow> writeError err | None \<Rightarrow> writeYangJSON K 200 v))"

definition serveYangLibraryVersion :: "cfglib \<Rightarrow> rclib \<Rightarrow> rc_server \<Rightarrow> http_req \<Rightarrow> http_resp" where
  "serveYangLibraryVersion K R s r = serve_info K R s r (VMap [(''ietf-restconf:yang-library-version'', VStr (rc_yangDate s))])"

definition serveOperations :: "cfglib \<Rightarrow> rclib \<Rightarrow> rc_server \<Rightarrow> http_req \<Rightarrow> http_resp" where
  "serveOperations K R s r = serve_info K R s r (VMap [(''ietf-restconf:operations'', VMap [])])"

definition serveData :: "golib \<Rightarrow> cfglib \<Rightarrow> rclib \<Rightarrow> ctx \<Rightarrow> rc_server \<Rightarrow> (nat \<Rightarrow> handle) \<Rightarrow> http_req \<Rightarrow> (nat \<Rightarrow> handle) \<times> http_resp" where
  "serveData E K R c s heap r = (case authenticate s r of
     Inl err \<Rightarrow> (heap, domain_error err)
   | Inr u \<Rightarrow>
       (case handleForUser s u of
          None \<Rightarrow> (heap, domain_error (NotFound ''no datastore for profile''))
        | Some a \<Rightarrow>
            (case dataPath E (rq_escaped r) of
               Inl err \<Rightarrow> (heap, domain_error err)
             | Inr pth \<Rightarrow>
                 if rq_method r = ''GET'' then (heap, getData E K R c r (heap a) pth)
                 else if rq_method r \<in> {''PUT'', ''POST'', ''PATCH'', ''DELETE''} then
                   (if ru_access u \<noteq> UserAccessReadWrite then (heap, domain_error (Forbidden ''read-only user''))
                    else (let (h', resp) = writeData E K R c r (heap a) pth in (heap(a := h'), resp)))
                 else (heap, plain_resp 405 ''GET, PUT, POST, PATCH, DELETE''))))"

definition ServeHTTP :: "golib \<Rightarrow> cfglib \<Rightarrow> rclib \<Rightarrow> ctx \<Rightarrow> rc_server \<Rightarrow> (nat \<Rightarrow> handle) \<Rightarrow> http_req \<Rightarrow> (nat \<Rightarrow> handle) \<times> http_resp" where
  "ServeHTTP E K R c s heap r =
    (if \<not> admit R s (rq_remote r) then (heap, domain_error (Forbidden ''client address is not admitted''))
     else if rq_path r = ''/.well-known/host-meta'' then (heap, serveHostMeta r)
     else if rq_path r = ''/restconf/yang-library-version'' then (heap, serveYangLibraryVersion K R s r)
     else if rq_path r = ''/restconf/operations'' then (heap, serveOperations K R s r)
     else if rq_path r = ''/restconf/data'' \<or> prefix ''/restconf/data/'' (rq_path r) then serveData E K R c s heap r
     else (heap, domain_error (NotFound ''not a RESTCONF resource'')))"

section \<open>What a request can change\<close>

lemma error_status: "rs_status (writeError (GoErr e)) \<in> {400, 401, 403, 404, 409}"
  by (simp add: writeError_def statusFor_def Let_def)

lemma media_status:
  "requireJSONAccept R r = Some err \<Longrightarrow> rs_status (writeError err) = 406"
  "requireYangJSONContent R r = Some err' \<Longrightarrow> rs_status (writeError err') = 415"
  by (auto simp: requireJSONAccept_def requireYangJSONContent_def writeError_def Let_def split: if_splits option.splits)

lemma not_success [simp]:
  "rs_status (writeError (GoErr e)) \<noteq> 201" "rs_status (writeError (GoErr e)) \<noteq> 204"
  "rs_status (writeYangJSON K 200 v) \<noteq> 201" "rs_status (writeYangJSON K 200 v) \<noteq> 204"
  using error_status [of e] by (auto simp: writeYangJSON_def writeError_def statusFor_def Let_def)

lemma info_status: "rs_status (serve_info K R s r v) \<notin> {201, 204}"
  using media_status(1) [of R r] by (auto simp: serve_info_def split: sum.split option.split)

lemma served_elsewhere:
  "admit R s (rq_remote r) \<Longrightarrow> ServeHTTP E K R c s heap r = serveData E K R c s heap r
    \<or> fst (ServeHTTP E K R c s heap r) = heap \<and> rs_status (snd (ServeHTTP E K R c s heap r)) \<notin> {201, 204}"
  using info_status [of K R s r] by (simp add: ServeHTTP_def serveYangLibraryVersion_def serveOperations_def serveHostMeta_def)

lemma getData_status: "rs_status (getData E K R c r h pth) \<notin> {201, 204}"
  using media_status(1) [of R r] by (auto simp: getData_def split: option.split sum.split)

lemma writeData_cases:
  "(fst (writeData E K R c r h pth) = h \<and> rs_status (snd (writeData E K R c r h pth)) \<notin> {201, 204})
   \<or> (\<exists>oper. WriteRunningIfCandidateClean E c h oper = Inr (fst (writeData E K R c r h pth)) \<and> eo_path oper = pth
        \<and> eo_op oper = (if rq_method r = ''PATCH'' \<or> rq_method r = ''POST'' then OpMerge else if rq_method r = ''PUT'' then OpReplace
             else if rq_method r = ''DELETE'' then OpDelete else [])
        \<and> rs_status (snd (writeData E K R c r h pth)) = (if rq_method r = ''POST'' then 201 else 204))"
proof -
  define verb where "verb = (if rq_method r = ''PATCH'' \<or> rq_method r = ''POST'' then OpMerge
                 else if rq_method r = ''PUT'' then OpReplace else if rq_method r = ''DELETE'' then OpDelete else [])"
  define got where "got = (if rq_method r = ''DELETE'' then Inr VNil
                  else (case requireYangJSONContent R r of
                          Some err \<Rightarrow> Inl err
                        | None \<Rightarrow> map_sum (\<lambda>d. GoErr (GDomain d)) id (readResourceBody E K r pth)))"
  have eq: "writeData E K R c r h pth = (case got of
          Inl err \<Rightarrow> (h, writeError err)
        | Inr v \<Rightarrow>
            (case WriteRunningIfCandidateClean E c h \<lparr>eo_op = verb, eo_path = pth, eo_value = EVal v\<rparr> of
               Inl err \<Rightarrow> (h, writeError (GoErr err))
             | Inr h' \<Rightarrow> (h', plain_resp (if rq_method r = ''POST'' then 201 else 204) [])))"
    unfolding writeData_def Let_def verb_def got_def by (rule refl)
  have bad: "rs_status (writeError err) \<notin> {201, 204}" if "got = Inl err" for err
  proof -
    from that consider "requireYangJSONContent R r = Some err" | d where "err = GoErr (GDomain d)"
      by (cases "readResourceBody E K r pth") (auto simp: got_def split: if_splits option.splits)
    then show ?thesis using media_status(2) [of R r err] by cases auto
  qed
  show ?thesis
  proof (cases got)
    case (Inl err)
    then show ?thesis using bad by (simp add: eq)
  next
    case (Inr v)
    then show ?thesis
      by (cases "WriteRunningIfCandidateClean E c h \<lparr>eo_op = verb, eo_path = pth, eo_value = EVal v\<rparr>") (force simp: eq verb_def [symmetric])+
  qed
qed

lemma serveData_change:
  assumes "serveData E K R c s heap r = (heap', resp)"
  shows "(heap' = heap \<and> rs_status resp \<notin> {201, 204})
    \<or> (rs_status resp \<in> {201, 204}
       \<and> (\<exists>u a oper h'. authenticate s r = Inr u \<and> ru_access u = UserAccessReadWrite \<and> handleForUser s u = Some a
            \<and> (rq_method r, eo_op oper) \<in> {(''PUT'', OpReplace), (''POST'', OpMerge), (''PATCH'', OpMerge), (''DELETE'', OpDelete)}
            \<and> dataPath E (rq_escaped r) = Inr (eo_path oper)
            \<and> WriteRunningIfCandidateClean E c (heap a) oper = Inr h' \<and> heap' = heap(a := h')))"
proof (cases "\<exists>u a pth. authenticate s r = Inr u \<and> handleForUser s u = Some a \<and> dataPath E (rq_escaped r) = Inr pth
    \<and> rq_method r \<in> {''PUT'', ''POST'', ''PATCH'', ''DELETE''} \<and> ru_access u = UserAccessReadWrite")
  case True
  then obtain u a pth where u: "authenticate s r = Inr u" "handleForUser s u = Some a" "dataPath E (rq_escaped r) = Inr pth"
      "rq_method r \<in> {''PUT'', ''POST'', ''PATCH'', ''DELETE''}" "ru_access u = UserAccessReadWrite" by blast
  have "rq_method r \<noteq> ''GET''" using u(4) by auto
  with u assms have w: "heap' = heap(a := fst (writeData E K R c r (heap a) pth))" "resp = snd (writeData E K R c r (heap a) pth)"
    by (simp_all add: serveData_def split_def Let_def)
  from writeData_cases [of E K R c r "heap a" pth] show ?thesis
  proof
    assume "fst (writeData E K R c r (heap a) pth) = heap a \<and> rs_status (snd (writeData E K R c r (heap a) pth)) \<notin> {201, 204}"
    with w show ?thesis by simp
  next
    assume "\<exists>oper. WriteRunningIfCandidateClean E c (heap a) oper = Inr (fst (writeData E K R c r (heap a) pth)) \<and> eo_path oper = pth
        \<and> eo_op oper = (if rq_method r = ''PATCH'' \<or> rq_method r = ''POST'' then OpMerge else if rq_method r = ''PUT'' then OpReplace
             else if rq_method r = ''DELETE'' then OpDelete else [])
        \<and> rs_status (snd (writeData E K R c r (heap a) pth)) = (if rq_method r = ''POST'' then 201 else 204)"
    then obtain oper where "WriteRunningIfCandidateClean E c (heap a) oper = Inr (fst (writeData E K R c r (heap a) pth))" "eo_path oper = pth"
        "eo_op oper = (if rq_method r = ''PATCH'' \<or> rq_method r = ''POST'' then OpMerge else if rq_method r = ''PUT'' then OpReplace
             else if rq_method r = ''DELETE'' then OpDelete else [])"
        "rs_status resp \<in> {201, 204}" using w(2) by auto
    moreover from this(3) have "(rq_method r, eo_op oper) \<in> {(''PUT'', OpReplace), (''POST'', OpMerge), (''PATCH'', OpMerge), (''DELETE'', OpDelete)}"
      using u(4) by auto
    ultimately show ?thesis using u w(1) by blast
  qed
next
  case False
  then have "heap' = heap \<and> rs_status resp \<notin> {201, 204}"
    using assms getData_status [of E K R c r]
    by (auto simp: serveData_def split: sum.splits option.splits if_splits)
  then show ?thesis by blast
qed

text \<open>What a direct write does to a handle: the same edit to running and to the candidate, and nothing else.\<close>

lemma direct_write:
  assumes "WriteRunningIfCandidateClean E c h oper = Inr h'"
  shows "node_Equal E (h_running h) (h_candidate h)" and "map_of (h_locks h) Candidate = None"
    and "map_of (h_locks h) Running \<in> {None, Some (sessionIDFrom c)}"
    and "h' = h\<lparr>h_running := h_running h', h_candidate := h_candidate h'\<rparr>"
    and "Apply E (Some (node_Clone E (h_running h))) (eo_op oper) (eo_path oper) (eo_value oper) = Inr (h_running h')"
    and "Apply E (Some (node_Clone E (h_candidate h))) (eo_op oper) (eo_path oper) (eo_value oper) = Inr (h_candidate h')"
  using assms by (auto simp: WriteRunningIfCandidateClean_def dirty_def denyIfLocked_def split: option.splits if_splits sum.splits)

text \<open>C16: A RESTCONF request changes at most the datastore of its own user: the client is admitted and authenticated, the
  user may write, the method writes, and the change is the method's one edit at the resource's path, made to running and
  equally to the candidate, which has to be clean and unlocked before, while nobody else holds the lock of running. The startup tree,
  the locks, the generation and all other datastores stay. Any other request, every refused one included, leaves all datastores
  as they are.\<close>

theorem restconf_changes_own_datastore:
  assumes "ServeHTTP E K R c s heap r = (heap', resp)"
  shows "(heap' = heap \<and> rs_status resp \<notin> {201, 204})
    \<or> (admit R s (rq_remote r) \<and> rs_status resp \<in> {201, 204}
       \<and> (\<exists>u a verb pth v rn cd. authenticate s r = Inr u \<and> ru_access u = UserAccessReadWrite \<and> handleForUser s u = Some a
            \<and> (rq_method r, verb) \<in> {(''PUT'', OpReplace), (''POST'', OpMerge), (''PATCH'', OpMerge), (''DELETE'', OpDelete)}
            \<and> dataPath E (rq_escaped r) = Inr pth
            \<and> node_Equal E (h_running (heap a)) (h_candidate (heap a)) \<and> map_of (h_locks (heap a)) Candidate = None
            \<and> map_of (h_locks (heap a)) Running \<in> {None, Some (sessionIDFrom c)}
            \<and> Apply E (Some (node_Clone E (h_running (heap a)))) verb pth v = Inr rn
            \<and> Apply E (Some (node_Clone E (h_candidate (heap a)))) verb pth v = Inr cd
            \<and> heap' = heap(a := (heap a)\<lparr>h_running := rn, h_candidate := cd\<rparr>)))"
proof -
  consider "\<not> admit R s (rq_remote r)"
    | "admit R s (rq_remote r)" "ServeHTTP E K R c s heap r = serveData E K R c s heap r"
    | "admit R s (rq_remote r)" "fst (ServeHTTP E K R c s heap r) = heap" "rs_status (snd (ServeHTTP E K R c s heap r)) \<notin> {201, 204}"
    using served_elsewhere [of R s r E K c heap] by blast
  then show ?thesis
  proof cases
    case 1
    then show ?thesis using assms by (auto simp: ServeHTTP_def)
  next
    case 2
    with assms have "serveData E K R c s heap r = (heap', resp)" by simp
    from serveData_change [OF this] show ?thesis
    proof
      assume "rs_status resp \<in> {201, 204} \<and> (\<exists>u a oper h'. authenticate s r = Inr u \<and> ru_access u = UserAccessReadWrite \<and> handleForUser s u = Some a
          \<and> (rq_method r, eo_op oper) \<in> {(''PUT'', OpReplace), (''POST'', OpMerge), (''PATCH'', OpMerge), (''DELETE'', OpDelete)}
          \<and> dataPath E (rq_escaped r) = Inr (eo_path oper) \<and> WriteRunningIfCandidateClean E c (heap a) oper = Inr h' \<and> heap' = heap(a := h'))"
      then obtain u a oper h' where w: "rs_status resp \<in> {201, 204}" "authenticate s r = Inr u" "ru_access u = UserAccessReadWrite" "handleForUser s u = Some a"
          "(rq_method r, eo_op oper) \<in> {(''PUT'', OpReplace), (''POST'', OpMerge), (''PATCH'', OpMerge), (''DELETE'', OpDelete)}"
          "dataPath E (rq_escaped r) = Inr (eo_path oper)" "WriteRunningIfCandidateClean E c (heap a) oper = Inr h'" "heap' = heap(a := h')" by blast
      note d = direct_write [OF w(7)]
      have "heap' = heap(a := (heap a)\<lparr>h_running := h_running h', h_candidate := h_candidate h'\<rparr>)" using w(8) d(4) by simp
      with w(1-6) d(1-3,5,6) 2(1) show ?thesis by blast
    qed blast
  next
    case 3
    with assms show ?thesis by simp
  qed
qed

section \<open>Reading back what was written\<close>

lemma first_key_mem: "first_key m ks = Some v \<Longrightarrow> v \<in> snd ` set m"
  by (induction ks) (force split: option.splits dest: map_of_SomeD)+

lemma unwrap_canonical:
  assumes "unwrapResource E pth raw = Inr v" and "canonical raw" and "pth \<noteq> []"
  shows "canonical v"
proof -
  from assms(1,3) obtain m where m: "raw = VMap m" "v \<in> snd ` set m"
    by (auto simp: unwrapResource_def split: val.splits sum.splits option.splits list.splits dest: first_key_mem)
  with assms(2) show ?thesis by (auto simp: list_all_iff)
qed

lemma body_canonical:
  assumes "trip_ok E K" and "reads_json K" and "readResourceBody E K r pth = Inr v" and "pth \<noteq> []"
  shows "canonical v"
proof -
  from assms(3) obtain raw where raw: "json_Unmarshal E K (rq_body r) = Some raw" "unwrapResource E pth raw = Inr v"
    by (auto simp: readResourceBody_def split: if_splits option.splits)
  then obtain w tr where w: "cf_json_read K (rq_body r) = Inr (w, tr)" "unmarshals E w" "raw = json_val E K w"
    by (auto simp: json_Unmarshal_def split: sum.splits if_splits)
  have "marshals w" using w(1) assms(2) by (auto simp: reads_json_def)
  from val_normal_canonical [OF json_val_normal [OF assms(1) this w(2)]] w(3) have "canonical raw" by simp
  from unwrap_canonical [OF raw(2) this assms(4)] show ?thesis .
qed

lemma Get_lookup:
  assumes "node_ok n" and "lookup E n p = Some v" and "dynamic (n_schema n) p = None" and "p_module p \<noteq> []" and "keys_apart (p_segments p)"
  shows "\<exists>w. lookup E (Subtree E n p) p = Some (clone E w) \<and> same_value v w"
proof -
  from subtree_keeps_value [OF assms] obtain w where w: "walkGet E (Subtree E n p) p = Some w" "same_value v w" by blast
  have nr: "\<not> IsRoot p" using assms(4) by (simp add: IsRoot_def)
  have sc: "n_schema (Subtree E n p) = n_schema n" by (simp add: Subtree_def split: option.split)
  have "n_schema n \<noteq> None \<longrightarrow> known (n_schema n) p" using assms(2) nr by (auto simp: lookup_def split: if_splits)
  with w nr sc assms(3) show ?thesis by (auto simp: lookup_def)
qed

lemma put_not_dynamic:
  assumes "apply_op E n OpReplace p v = Inr n'" and "node_ok n"
  shows "dynamic (n_schema n) p = None"
  using assms
proof (cases rule: apply_op_InrE)
  case (put merge rt')
  then show ?thesis using dynamic_read_only [of "n_schema n" p] dynamic_no_schema [of p] by (cases "n_schema n") force+
qed simp

lemma served_data_path:
  assumes "ServeHTTP E K R c s heap r = (heap', resp)" and "admit R s (rq_remote r)" and "rs_status resp = 204"
  shows "(rq_path r = ''/restconf/data'' \<or> prefix ''/restconf/data/'' (rq_path r)) \<and> rq_path r \<noteq> ''/.well-known/host-meta''
    \<and> rq_path r \<noteq> ''/restconf/yang-library-version'' \<and> rq_path r \<noteq> ''/restconf/operations''"
  using assms info_status [of K R s r]
  by (auto simp: ServeHTTP_def serveYangLibraryVersion_def serveOperations_def serveHostMeta_def split: if_splits)

text \<open>C17: What is put is got: when a PUT of a data resource succeeds, a GET of the same resource by the same client returns
  200 with the value of the request's body under the resource's qualified name (for a list entry with the keys of the path
  put in), whatever was there before.\<close>

theorem put_then_get:
  assumes "trip_ok E K" and "reads_json K" and "ServeHTTP E K R c s heap r = (heap', resp)" and "rs_status resp = 204" and "rq_method r = ''PUT''"
    and "dataPath E (rq_escaped r) = Inr pth" and "ParsePath E pth = Inr p" and "p_module p \<noteq> []" and "keys_apart (p_segments p)"
    and "\<And>v. readResourceBody E K r pth = Inr v \<Longrightarrow> p_segments p \<noteq> [] \<Longrightarrow> s_keys (last (p_segments p)) \<noteq> [] \<Longrightarrow> asMap E v \<noteq> None"
    and "\<And>a. handle_ok (heap a)" and "ctx_err c = None"
    and "rq_method g = ''GET''" and "rq_remote g = rq_remote r" and "rq_path g = rq_path r" and "rq_escaped g = rq_escaped r"
    and "rq_basic g = rq_basic r" and "requireJSONAccept R g = None"
  shows "\<exists>v w. readResourceBody E K r pth = Inr v \<and> same_value (stored E p v) w
    \<and> ServeHTTP E K R c s heap' g = (heap', writeYangJSON K 200 (VMap [(resource_key p, clone E w)]))"
proof -
  have nr: "\<not> IsRoot p" "pth \<noteq> []" using assms(7,8) by (auto simp: IsRoot_def ParsePath_empty)
  have sd: "serveData E K R c s heap r = (heap', resp)" and adm: "admit R s (rq_remote r)"
    using served_elsewhere [of R s r E K c heap] assms(3,4) by (auto simp: ServeHTTP_def split: if_splits)
  from serveData_change [OF sd] assms(4,5) obtain u a where u: "authenticate s r = Inr u" "ru_access u = UserAccessReadWrite" "handleForUser s u = Some a"
    by auto
  have w: "heap' = heap(a := fst (writeData E K R c r (heap a) pth))" "resp = snd (writeData E K R c r (heap a) pth)"
    using sd u assms(5,6) by (simp_all add: serveData_def split_def Let_def)
  have "\<exists>v h'. readResourceBody E K r pth = Inr v
      \<and> WriteRunningIfCandidateClean E c (heap a) \<lparr>eo_op = OpReplace, eo_path = pth, eo_value = EVal v\<rparr> = Inr h'
      \<and> fst (writeData E K R c r (heap a) pth) = h'"
    using assms(4,5) w(2) media_status(2) [of R r]
    by (auto simp: writeData_def split: option.splits sum.splits) (auto simp: map_sum_def split: sum.splits)
  then obtain v h' where v: "readResourceBody E K r pth = Inr v"
      "WriteRunningIfCandidateClean E c (heap a) \<lparr>eo_op = OpReplace, eo_path = pth, eo_value = EVal v\<rparr> = Inr h'" "heap' = heap(a := h')"
    using w(1) by blast
  from Write_Inr [OF v(2)] obtain n where n: "Apply E (Some (node_Clone E (h_running (heap a)))) OpReplace pth (EVal v) = Inr n" "h_running h' = n"
    by auto
  then have ap: "apply_op E (node_Clone E (h_running (heap a))) OpReplace p (EVal v) = Inr n" using assms(7) by (simp add: Apply_def)
  have cv: "canonical v" by (rule body_canonical [OF assms(1,2) v(1) nr(2)])
  have ok: "node_ok (node_Clone E (h_running (heap a)))" using assms(11) clone_ok by (simp add: handle_ok_def)
  have lk: "lookup E n p = Some (stored E p v)"
    using replace_lookup [OF ok canonical_go_val [OF cv] nr(1) assms(9) _ ap] assms(10) [OF v(1)] clone_id [OF cv, of E] by simp
  have okn: "node_ok n" "n_schema n = n_schema (node_Clone E (h_running (heap a)))"
    using apply_op_safe [OF ap ok] cv canonical_go_val by (auto simp: edit_ok_def)
  have "dynamic (n_schema n) p = None" using put_not_dynamic [OF ap ok] okn(2) by simp
  from Get_lookup [OF okn(1) lk this assms(8,9)] obtain x where x: "lookup E (Subtree E n p) p = Some (clone E x)" "same_value (stored E p v) x" by blast
  have ug: "authenticate s g = Inr u" using u(1) assms(17) by (simp add: authenticate_def)
  have "store (heap' a) Running = Inr n" using v(3) n(2) by (simp add: store_def)
  then have "getData E K R c g (heap' a) pth = writeYangJSON K 200 (VMap [(resource_key p, clone E x)])"
    using x(1) assms(7,12,18) nr(2) by (simp add: getData_def Get_def Lookup_def wrapResource_def)
  then have "serveData E K R c s heap' g = (heap', writeYangJSON K 200 (VMap [(resource_key p, clone E x)]))"
    using ug u(3) assms(6,13,16) by (simp add: serveData_def)
  moreover have "ServeHTTP E K R c s heap' g = serveData E K R c s heap' g"
    using assms(14,15) adm served_data_path [OF assms(3) adm assms(4)] by (simp add: ServeHTTP_def)
  ultimately show ?thesis using v(1) x(2) by auto
qed

section \<open>A sample server\<close>

definition rc_lib :: rclib where
  "rc_lib = \<lparr>rl_media = (\<lambda>s. Some s), rl_cidr = (\<lambda>s. Some \<lparr>np_addr = A4 0x0A000000, np_bits = 8\<rparr>), rl_ip = (\<lambda>s. Some (A4 0x0A000001)),
     rl_host = (\<lambda>s. Some s), rl_prefix = (\<lambda>p. ''10.0.0.0/8'')\<rparr>"

definition rc_reader :: cfglib where
  "rc_reader = boot_lib\<lparr>cf_json_read := (\<lambda>_. Inr (VMap [(''if:mtu'', VStr ''1500'')], False))\<rparr>"

definition rc_sample :: rc_server where
  "rc_sample = \<lparr>rc_users = Some [\<lparr>ru_name = ''ana'', ru_password = ''pw'', ru_profile = ''lab'', ru_access = UserAccessReadWrite\<rparr>],
     rc_admission = Some ([\<lparr>np_addr = A4 0x0A000000, np_bits = 8\<rparr>], False), rc_handles = [(''lab'', 3)], rc_handleFor = None, rc_yangDate = []\<rparr>"

definition rc_request :: "string \<Rightarrow> http_req" where
  "rc_request m = \<lparr>rq_method = m, rq_path = ''/restconf/data/if:mtu'', rq_escaped = ''/restconf/data/if:mtu'', rq_remote = ''10.0.0.1'',
     rq_basic = Some (''ana'', ''pw''), rq_accept = [], rq_contentType = MediaYangJSON, rq_body = ''{}'', rq_bodyFails = False\<rparr>"

abbreviation rc_mtu :: "kvs \<Rightarrow> node" where
  "rc_mtu m \<equiv> \<lparr>n_schema = None, n_root = Some m\<rparr>"

abbreviation rc_handle :: "kvs \<Rightarrow> handle" where
  "rc_handle m \<equiv> \<lparr>h_profile = ''lab'', h_running = rc_mtu m, h_candidate = rc_mtu m, h_startup = rc_mtu [], h_sink = True, h_gen = 0, h_locks = []\<rparr>"

abbreviation rc_stored :: kvs where
  "rc_stored \<equiv> [(''if'', VMap [(''mtu'', VStr ''1500'')])]"

lemma rc_request_simps [simp]:
  "rq_remote (rc_request m) = ''10.0.0.1''" "rq_path (rc_request m) = ''/restconf/data/if:mtu''" "rq_accept (rc_request m) = []"
  "rq_escaped (rc_request m) = ''/restconf/data/if:mtu''" "rq_method (rc_request m) = m" "rq_basic (rc_request m) = Some (''ana'', ''pw'')"
  by (simp_all add: rc_request_def)

lemma rc_sample_path: "dataPath boot_golib ''/restconf/data/if:mtu'' = Inr ''if:mtu''"
  by (simp add: dataPath_def trim_set_def splitSegment_def path_keys_def parse_if_mtu path_string_def segment_string_def)

lemma rc_sample_body: "readResourceBody boot_golib rc_reader (rc_request m) ''if:mtu'' = Inr (VStr ''1500'')"
proof -
  have t: "TrimSpace ''{}'' = ''{}''" by (rule TrimSpace_plain) (simp_all add: plain_ascii_def)
  have f: "fix_utf8 ''if:mtu'' = ''if:mtu''" "fix_utf8 ''1500'' = ''1500''" by (simp_all add: fix_utf8_ascii)
  have "json_object [(''if:mtu'', VStr ''1500'')] = [(''if:mtu'', VStr ''1500'')]"
    by (rule json_object_normal) (simp add: obj_normal_def f)
  then show ?thesis
    by (simp add: f readResourceBody_def rc_request_def t maxBodyBytes_def json_Unmarshal_def rc_reader_def unwrapResource_def parse_if_mtu resourceKeys_def)
qed

lemma rc_sample_write:
  "WriteRunningIfCandidateClean boot_golib live (rc_handle []) \<lparr>eo_op = OpReplace, eo_path = ''if:mtu'', eo_value = EVal (VStr ''1500'')\<rparr>
     = Inr (rc_handle rc_stored)"
  by (simp add: WriteRunningIfCandidateClean_def dirty_def node_Equal_def equal.simps denyIfLocked_def Apply_def parse_if_mtu edit_eval)

lemma rc_sample_put:
  "ServeHTTP boot_golib rc_reader rc_lib live rc_sample (\<lambda>_. rc_handle []) (rc_request ''PUT'') = ((\<lambda>_. rc_handle [])(3 := rc_handle rc_stored), plain_resp 204 [])"
proof -
  have "admit rc_lib rc_sample ''10.0.0.1''"
    by (simp add: admit_def rc_sample_def rc_lib_def ipFromRemote_def net_Contains_def net_To4_def Contains_def Unmap_def prefix_valid_def hasZone_def BitLen_def)
  moreover have "authenticate rc_sample (rc_request ''PUT'') = Inr \<lparr>ru_name = ''ana'', ru_password = ''pw'', ru_profile = ''lab'', ru_access = UserAccessReadWrite\<rparr>"
    by (simp add: authenticate_def rc_sample_def rc_request_def credential_ok_def trim_crlf_def)
  moreover have "handleForUser rc_sample \<lparr>ru_name = ''ana'', ru_password = ''pw'', ru_profile = ''lab'', ru_access = UserAccessReadWrite\<rparr> = Some 3"
    by (simp add: handleForUser_def rc_sample_def)
  moreover have "requireYangJSONContent rc_lib (rc_request ''PUT'') = None" by (simp add: requireYangJSONContent_def rc_lib_def rc_request_def)
  ultimately show ?thesis
    by (simp add: ServeHTTP_def serveData_def rc_sample_path writeData_def rc_sample_body rc_sample_write)
qed

theorem restconf_changes_own_datastore_witness:
  "\<exists>u. authenticate rc_sample (rc_request ''PUT'') = Inr u \<and> ru_access u = UserAccessReadWrite"
  using restconf_changes_own_datastore [OF rc_sample_put] by auto

theorem put_then_get_witness:
  "\<exists>w heap. same_value (VStr ''1500'') w \<and> ServeHTTP boot_golib rc_reader rc_lib live rc_sample heap (rc_request ''GET'')
     = (heap, writeYangJSON rc_reader 200 (VMap [(''if:mtu'', clone boot_golib w)]))"
proof -
  have "trip_ok boot_golib rc_reader" using boot_trip by (simp add: trip_ok_def rc_reader_def)
  moreover have "reads_json rc_reader" by (simp add: reads_json_def rc_reader_def)
  moreover have "handle_ok (rc_handle [])" by (simp add: handle_ok_def)
  ultimately show ?thesis
    using put_then_get [OF _ _ rc_sample_put, of "''if:mtu''" "Path ''if'' [Segment ''mtu'' []]" "rc_request ''GET''"]
    by (auto simp: rc_sample_body rc_sample_path parse_if_mtu stored_def resource_key_def requireJSONAccept_def)
qed

end
