(* ===== verification/Auth.thy ===== *)
theory Auth
  imports App_Service Netip
begin

text \<open>
  Package \<open>auth\<close> (\<open>digest.go\<close>, \<open>origin.go\<close>, \<open>principal.go\<close>, \<open>roles.go\<close>, \<open>session.go\<close>, \<open>verifier.go\<close>): who may use the
  management plane. Bearer tokens are compiled to an index of digests; a login makes a cookie session in a bounded table
  with an idle and an absolute lifetime. Instants and durations are integers in nanoseconds. Random bytes, the clock,
  SHA-256 and the parsing of URLs are arguments or fields of a library record.
\<close>

unbundle bit_operations_syntax

record authlib =
  al_url :: "string \<Rightarrow> (string \<times> string \<times> string) option"
  al_fold :: "string \<Rightarrow> string \<Rightarrow> bool"
  al_ip :: "string \<Rightarrow> addr option"

section \<open>Digests and origins\<close>

definition MinTokenBytes :: nat where "MinTokenBytes = 32"

definition DigestSecret :: "cfglib \<Rightarrow> bytes \<Rightarrow> bytes" where
  "DigestSecret K secret = cf_sha256 K secret"

text \<open>\<open>strings.EqualFold\<close>: letter by letter on ASCII, the library's on other text.\<close>

definition EqualFold :: "authlib \<Rightarrow> string \<Rightarrow> string \<Rightarrow> bool" where
  "EqualFold A s t =
    (if list_all (\<lambda>c. byte c < 128) (s @ t) then map ascii_lower s = map ascii_lower t else al_fold A s t)"

definition trim_slashes :: "string \<Rightarrow> string" where
  "trim_slashes s = rev (dropWhile (\<lambda>c. c = CHR ''/'') (rev s))"

definition originMatches :: "authlib \<Rightarrow> string \<Rightarrow> string \<Rightarrow> bool" where
  "originMatches A got want = EqualFold A (trim_slashes (TrimSpace got)) (trim_slashes (TrimSpace want))"

definition IsLoopback :: "addr \<Rightarrow> bool" where
  "IsLoopback a = (case Unmap a of A4 w \<Rightarrow> drop_bit 24 w = 127 | A6 w z \<Rightarrow> w = 1 | ANone \<Rightarrow> False)"

definition isLoopbackHost :: "authlib \<Rightarrow> string \<Rightarrow> bool" where
  "isLoopbackHost A host =
    (let h = TrimSpace host in
     if h = ''localhost'' then True else (case al_ip A h of None \<Rightarrow> False | Some ip \<Rightarrow> IsLoopback ip))"

text \<open>The URL is its scheme, its host and the host without a port.\<close>

definition CheckOrigin :: "authlib \<Rightarrow> jsonlib \<Rightarrow> string \<Rightarrow> string list \<Rightarrow> derr option" where
  "CheckOrigin A J origin allowlist =
    (let origin = TrimSpace origin; denied = Some (OriginNotAllowed ''origin is not allowed'') in
     if origin = [] then None
     else (case al_url A origin of
             None \<Rightarrow> denied
           | Some (scheme, host, hostname) \<Rightarrow>
               if host = [] then denied
               else if ToLower J scheme \<noteq> ''http'' \<and> ToLower J scheme \<noteq> ''https'' then denied
               else if isLoopbackHost A hostname then None
               else if list_ex (originMatches A origin) allowlist then None
               else denied))"

section \<open>Principals, roles and scopes\<close>

abbreviation ClassToken :: string where "ClassToken \<equiv> ''token''"
abbreviation RoleReader :: string where "RoleReader \<equiv> ''reader''"
abbreviation RoleAdministrator :: string where "RoleAdministrator \<equiv> ''administrator''"
abbreviation ScopeNetconfRead :: string where "ScopeNetconfRead \<equiv> ''netconf.read''"
abbreviation ScopeNetconfWrite :: string where "ScopeNetconfWrite \<equiv> ''netconf.write''"
abbreviation ScopeNetconfAdmin :: string where "ScopeNetconfAdmin \<equiv> ''netconf.admin''"
abbreviation ScopeNetconfAuditRead :: string where "ScopeNetconfAuditRead \<equiv> ''netconf.audit.read''"

record principal =
  pn_id :: string
  pn_class :: string
  pn_role :: string
  pn_scopes :: "string list"

definition HasScope :: "string list \<Rightarrow> string \<Rightarrow> bool" where
  "HasScope scopes want \<longleftrightarrow> want = [] \<or> list_ex (\<lambda>s. s = want) scopes"

fun AuthorizeScopes :: "string list \<Rightarrow> string list \<Rightarrow> derr option" where
  "AuthorizeScopes scopes [] = None"
| "AuthorizeScopes scopes (want # rest) =
     (if \<not> HasScope scopes want then Some (Forbidden (''missing scope '' @ want)) else AuthorizeScopes scopes rest)"

definition Authorize :: "principal \<Rightarrow> string list \<Rightarrow> derr option" where
  "Authorize p required = AuthorizeScopes (pn_scopes p) required"

definition allScopes :: "string list" where
  "allScopes = [ScopeNetconfRead, ScopeNetconfWrite, ScopeNetconfAdmin, ScopeNetconfAuditRead]"

definition DefaultScopes :: "string \<Rightarrow> string list" where
  "DefaultScopes role = (if role = RoleReader then [ScopeNetconfRead] else if role = RoleAdministrator then allScopes else [])"

definition expandScopes :: "string \<Rightarrow> string list \<Rightarrow> string \<times> string list" where
  "expandScopes role scopes =
    (let role' = (if role = [] then RoleAdministrator else role) in
     if scopes \<noteq> [] then (role', scopes) else (role', DefaultScopes role'))"

section \<open>The token index\<close>

record storedToken =
  to_id :: string
  to_role :: string
  to_scopes :: "string list"
  to_digest :: bytes

text \<open>Hooks are numbered.\<close>

record verifier =
  vf_mode :: string
  vf_tokens :: "storedToken list"
  vf_onChange :: "nat list"

text \<open>The lines of a file: \<open>strings.Split\<close> at the newline.\<close>

fun split_lines :: "bytes \<Rightarrow> bytes list" where
  "split_lines [] = [[]]"
| "split_lines (c # cs) =
     (if c = CHR 0x0A then [] # split_lines cs
      else (case split_lines cs of [] \<Rightarrow> [[c]] | l # ls \<Rightarrow> (c # l) # ls))"

definition readSecretFile :: "cfglib \<Rightarrow> string \<Rightarrow> bytes option" where
  "readSecretFile K path = (case cf_file K path of
     Inl _ \<Rightarrow> None
   | Inr b \<Rightarrow> find (\<lambda>line. line \<noteq> [] \<and> \<not> prefix ''#'' line) (map TrimSpace (split_lines b)))"

text \<open>The loop over the tokens, with what it has seen: identifiers and digests with the identifier they belong to.\<close>

fun compile_tokens :: "cfglib \<Rightarrow> nat \<Rightarrow> storedToken list \<Rightarrow> token_spec list \<Rightarrow> derr + storedToken list" where
  "compile_tokens K i seen [] = Inr []"
| "compile_tokens K i seen (tok # toks) =
    (let id = TrimSpace (tk_id tok); pos = at_index ''spec.auth.tokens'' i in
     if id = [] then Inl (ValidationFailed ''token id is required'' [fv (pos @ ''.id'') ''empty_id'' ''token id is required''])
     else if id \<in> to_id ` set seen then Inl (ValidationFailed ''duplicate token id'' [fv (pos @ ''.id'') ''duplicate_id'' ''duplicate token id''])
     else (case readSecretFile K (tk_secretFile tok) of
             None \<Rightarrow> Inl (ValidationFailed ''token secret is unavailable''
               [fv (pos @ ''.secretFile'') ''unresolved_reference'' ''token secret file does not resolve''])
           | Some raw \<Rightarrow>
               if length raw < MinTokenBytes then Inl (ValidationFailed ''token entropy is below 256 bits''
                 [fv (pos @ ''.secretFile'') ''invalid_value'' ''token secret must be at least 32 bytes''])
               else
                 (let d = DigestSecret K raw in
                  case find (\<lambda>t. to_digest t = d) seen of
                    Some other \<Rightarrow> Inl (ValidationFailed ''duplicate token value''
                      [fv (pos @ ''.secretFile'') ''duplicate_id'' (''token value matches '' @ to_id other)])
                  | None \<Rightarrow>
                      if tk_role tok \<noteq> [] \<and> \<not> KnownRole (tk_role tok) then Inl (ValidationFailed ''unknown role''
                        [fv (pos @ ''.role'') ''invalid_value'' ''role must be administrator or reader''])
                      else
                        (let (role, scopes) = expandScopes (tk_role tok) (tk_scopes tok);
                             t = \<lparr>to_id = id, to_role = role, to_scopes = scopes, to_digest = d\<rparr>
                         in case compile_tokens K (i + 1) (seen @ [t]) toks of Inl err \<Rightarrow> Inl err | Inr ts \<Rightarrow> Inr (t # ts)))))"

definition FromSpec :: "cfglib \<Rightarrow> auth_spec \<Rightarrow> derr + verifier" where
  "FromSpec K spec =
    (let mode = (if TrimSpace (as_mode spec) = [] then MgmtAuthBearer else TrimSpace (as_mode spec)) in
     if mode \<noteq> MgmtAuthBearer then Inl (ValidationFailed ''unknown auth mode'' [fv ''spec.auth.mode'' ''invalid_value'' ''mode must be bearer''])
     else (case compile_tokens K 0 [] (as_tokens spec) of
             Inl err \<Rightarrow> Inl err
           | Inr ts \<Rightarrow> Inr \<lparr>vf_mode = mode, vf_tokens = ts, vf_onChange = []\<rparr>))"

definition auth_Empty :: verifier where
  "auth_Empty = \<lparr>vf_mode = MgmtAuthBearer, vf_tokens = [], vf_onChange = []\<rparr>"

definition Static :: "cfglib \<Rightarrow> string \<Rightarrow> string \<Rightarrow> string \<Rightarrow> verifier" where
  "Static K secret ident role =
    (let (r, scopes) = expandScopes role [] in
     \<lparr>vf_mode = MgmtAuthBearer,
      vf_tokens = [\<lparr>to_id = (if ident = [] then ''admin'' else ident), to_role = r, to_scopes = scopes, to_digest = DigestSecret K secret\<rparr>],
      vf_onChange = []\<rparr>)"

definition OnIdentityChange :: "verifier \<Rightarrow> nat option \<Rightarrow> verifier" where
  "OnIdentityChange v f = (case f of None \<Rightarrow> v | Some f \<Rightarrow> v\<lparr>vf_onChange := vf_onChange v @ [f]\<rparr>)"

definition sameScopes :: "string list \<Rightarrow> string list \<Rightarrow> bool" where
  "sameScopes a b \<longleftrightarrow> sort a = sort b"

definition Equivalent :: "verifier option \<Rightarrow> verifier option \<Rightarrow> bool" where
  "Equivalent v w = (case (v, w) of
     (Some v, Some w) \<Rightarrow>
       if vf_mode v \<noteq> vf_mode w \<or> length (vf_tokens v) \<noteq> length (vf_tokens w) then False
       else (let byID = fold (\<lambda>t m. kv_put (to_id t) t m) (vf_tokens v) [] in
         list_all (\<lambda>t. case map_of byID (to_id t) of
            None \<Rightarrow> False
          | Some got \<Rightarrow> to_digest got = to_digest t \<and> to_role got = to_role t \<and> sameScopes (to_scopes got) (to_scopes t)) (vf_tokens w))
   | (None, None) \<Rightarrow> True
   | _ \<Rightarrow> False)"

text \<open>The new verifier and the hooks that are run.\<close>

definition Replace :: "verifier \<Rightarrow> verifier option \<Rightarrow> verifier \<times> nat list" where
  "Replace v next = (case next of
     None \<Rightarrow> (v, [])
   | Some n \<Rightarrow>
       (v\<lparr>vf_mode := vf_mode n, vf_tokens := vf_tokens n\<rparr>,
        if Equivalent (Some v) (Some n) then [] else vf_onChange v))"

definition RequireListen :: "cfglib \<Rightarrow> verifier option \<Rightarrow> string option" where
  "RequireListen K v = (case v of
     None \<Rightarrow> Some ''management bind requires a verifier''
   | Some v \<Rightarrow>
       if vf_mode v \<noteq> MgmtAuthBearer then Some (''management bind refused: unknown auth mode '' @ cf_quote K (vf_mode v))
       else if vf_tokens v = [] then Some ''spec.auth.mode bearer requires at least one usable token''
       else None)"

definition principalOf :: "storedToken \<Rightarrow> principal" where
  "principalOf t = \<lparr>pn_id = to_id t, pn_class = ClassToken, pn_role = to_role t, pn_scopes = to_scopes t\<rparr>"

text \<open>The scan does the same work for every token: it returns the number of matches and the index of the last.\<close>

fun scan_tokens :: "bytes \<Rightarrow> nat \<Rightarrow> storedToken list \<Rightarrow> int \<times> int \<Rightarrow> int \<times> int" where
  "scan_tokens digest i [] acc = acc"
| "scan_tokens digest i (t # ts) (found, idx) =
     (let mask = (if to_digest t = digest then 1 else 0)
      in scan_tokens digest (i + 1) ts (found + mask, idx * (1 - mask) + int i * mask))"

definition lookupBearer :: "cfglib \<Rightarrow> verifier \<Rightarrow> string \<Rightarrow> derr + principal" where
  "lookupBearer K v secret =
    (let denied = Inl (Unauthorized ''authentication required'') in
     if secret = [] \<or> list_ex (\<lambda>c. c = CHR '' '' \<or> c = CHR 0x09) secret then denied
     else (let (found, idx) = scan_tokens (DigestSecret K secret) 0 (vf_tokens v) (0, 0)
           in if found \<noteq> 1 then denied else Inr (principalOf (vf_tokens v ! nat idx))))"

definition AuthenticateBearer :: "cfglib \<Rightarrow> verifier option \<Rightarrow> string \<Rightarrow> derr + principal" where
  "AuthenticateBearer K v secret = (case v of
     None \<Rightarrow> Inl (Unauthorized ''authentication required'')
   | Some v \<Rightarrow> lookupBearer K v (TrimSpace secret))"

definition Authenticate :: "authlib \<Rightarrow> cfglib \<Rightarrow> verifier option \<Rightarrow> string \<Rightarrow> derr + principal" where
  "Authenticate A K v authorization =
    (let denied = Inl (Unauthorized ''authentication required'') in
     case v of
       None \<Rightarrow> denied
     | Some v \<Rightarrow>
         (let h = TrimSpace authorization in
          if h = [] then denied
          else if CHR '' '' \<notin> set h then denied
          else (let scheme = takeWhile (\<lambda>c. c \<noteq> CHR '' '') h; rest = TrimSpace (tl (dropWhile (\<lambda>c. c \<noteq> CHR '' '') h)) in
                if \<not> EqualFold A scheme ''Bearer'' then denied else lookupBearer K v rest)))"

section \<open>Sessions\<close>

abbreviation CookieName :: string where "CookieName \<equiv> ''labnetconf_session''"
abbreviation CSRFHeader :: string where "CSRFHeader \<equiv> ''X-LabNETCONF-CSRF''"

record sessionConfig =
  sg_idle :: int
  sg_absolute :: int
  sg_max :: int

definition DefaultSessionConfig :: sessionConfig where
  "DefaultSessionConfig = \<lparr>sg_idle = 4 * 3600 * 10 ^ 9, sg_absolute = 12 * 3600 * 10 ^ 9, sg_max = 64\<rparr>"

record session =
  ss_id :: string
  ss_tokenID :: string
  ss_role :: string
  ss_scopes :: "string list"
  ss_createdAt :: int
  ss_lastSeen :: int

record sess_record =
  sr_public :: session
  sr_csrf :: string
  sr_createdAt :: int
  sr_lastSeen :: int

record sess_store =
  st_sessions :: "sess_record gomap"
  st_cfg :: sessionConfig

definition auth_NewStore :: "sessionConfig \<Rightarrow> sess_store" where
  "auth_NewStore cfg =
    (let def = DefaultSessionConfig in
     \<lparr>st_sessions = [],
      st_cfg = \<lparr>sg_idle = (if sg_idle cfg \<le> 0 then sg_idle def else sg_idle cfg),
                sg_absolute = (if sg_absolute cfg \<le> 0 then sg_absolute def else sg_absolute cfg),
                sg_max = (if sg_max cfg \<le> 0 then sg_max def else sg_max cfg)\<rparr>\<rparr>)"

text \<open>\<open>Time.Sub\<close> saturates at the ends of a duration.\<close>

definition time_Sub :: "int \<Rightarrow> int \<Rightarrow> int" where
  "time_Sub a b = max min_i64 (min max_i64 (a - b))"

definition expired :: "sessionConfig \<Rightarrow> sess_record \<Rightarrow> int \<Rightarrow> bool" where
  "expired cfg rec now = (if time_Sub now (sr_lastSeen rec) > sg_idle cfg then True else time_Sub now (sr_createdAt rec) > sg_absolute cfg)"

definition expireLocked :: "int \<Rightarrow> sess_store \<Rightarrow> sess_store" where
  "expireLocked now s = s\<lparr>st_sessions := filter (\<lambda>kr. \<not> expired (st_cfg s) (snd kr) now) (st_sessions s)\<rparr>"

text \<open>The loop keeps the key of a session that was seen earliest.\<close>

fun oldest_key :: "sess_record gomap \<Rightarrow> (string \<times> int) option \<Rightarrow> (string \<times> int) option" where
  "oldest_key [] best = best"
| "oldest_key ((k, rec) # rest) best =
     oldest_key rest (case best of
        None \<Rightarrow> Some (k, sr_lastSeen rec)
      | Some (bk, bt) \<Rightarrow> if sr_lastSeen rec < bt then Some (k, sr_lastSeen rec) else Some (bk, bt))"

definition evictOldestLocked :: "sess_store \<Rightarrow> sess_store" where
  "evictOldestLocked s = (case oldest_key (st_sessions s) None of
     None \<Rightarrow> s
   | Some (k, _) \<Rightarrow> if k \<noteq> [] then s\<lparr>st_sessions := kv_del k (st_sessions s)\<rparr> else s)"

text \<open>\<open>randomHex\<close> of the bytes that the reader delivered, or its failure.\<close>

definition randomHex :: "bytes option \<Rightarrow> derr + string" where
  "randomHex b = (case b of None \<Rightarrow> Inl (ValidationFailed ''session material unavailable'' []) | Some b \<Rightarrow> Inr (hex_encode b))"

text \<open>Three reads of random bytes: the cookie, the CSRF secret and the public identifier.\<close>

definition sess_Create :: "bytes option \<Rightarrow> bytes option \<Rightarrow> bytes option \<Rightarrow> int \<Rightarrow> sess_store \<Rightarrow> principal
    \<Rightarrow> derr + (string \<times> string \<times> session) \<times> sess_store" where
  "sess_Create r1 r2 r3 now s p = (case randomHex r1 of
     Inl err \<Rightarrow> Inl err
   | Inr cookie \<Rightarrow> (case randomHex r2 of
       Inl err \<Rightarrow> Inl err
     | Inr csrf \<Rightarrow> (case randomHex r3 of
         Inl err \<Rightarrow> Inl err
       | Inr publicID \<Rightarrow>
           (let pub = \<lparr>ss_id = publicID, ss_tokenID = pn_id p, ss_role = pn_role p, ss_scopes = pn_scopes p, ss_createdAt = now, ss_lastSeen = now\<rparr>;
                rec = \<lparr>sr_public = pub, sr_csrf = csrf, sr_createdAt = now, sr_lastSeen = now\<rparr>;
                s1 = expireLocked now s;
                s2 = (if int (length (st_sessions s1)) \<ge> sg_max (st_cfg s1) then evictOldestLocked s1 else s1)
            in Inr ((cookie, csrf, pub), s2\<lparr>st_sessions := kv_put cookie rec (st_sessions s2)\<rparr>)))))"

definition sess_Lookup :: "int \<Rightarrow> sess_store \<Rightarrow> string \<Rightarrow> sess_store \<times> (session \<times> string) option" where
  "sess_Lookup now s cookie =
    (if cookie = [] then (s, None)
     else (case map_of (st_sessions s) cookie of
             None \<Rightarrow> (s, None)
           | Some rec \<Rightarrow>
               if expired (st_cfg s) rec now then (s\<lparr>st_sessions := kv_del cookie (st_sessions s)\<rparr>, None)
               else
                 (let rec' = rec\<lparr>sr_lastSeen := now, sr_public := (sr_public rec)\<lparr>ss_lastSeen := now\<rparr>\<rparr>
                  in (s\<lparr>st_sessions := kv_put cookie rec' (st_sessions s)\<rparr>, Some (sr_public rec', sr_csrf rec')))))"

definition sess_Delete :: "sess_store \<Rightarrow> string \<Rightarrow> sess_store" where
  "sess_Delete s cookie = (if cookie = [] then s else s\<lparr>st_sessions := kv_del cookie (st_sessions s)\<rparr>)"

definition sess_Clear :: "sess_store \<Rightarrow> sess_store" where
  "sess_Clear s = s\<lparr>st_sessions := []\<rparr>"

definition ValidCSRF :: "cfglib \<Rightarrow> int \<Rightarrow> sess_store \<Rightarrow> string \<Rightarrow> string \<Rightarrow> sess_store \<times> bool" where
  "ValidCSRF K now s cookie presented =
    (if cookie = [] \<or> presented = [] then (s, False)
     else (case map_of (st_sessions s) cookie of
             None \<Rightarrow> (s, False)
           | Some rec \<Rightarrow>
               if expired (st_cfg s) rec now then (s\<lparr>st_sessions := kv_del cookie (st_sessions s)\<rparr>, False)
               else (s, DigestSecret K (sr_csrf rec) = DigestSecret K presented)))"

definition MaxAge :: "sess_store option \<Rightarrow> int" where
  "MaxAge s = (case s of None \<Rightarrow> sg_absolute DefaultSessionConfig div 10 ^ 9 | Some s \<Rightarrow> sg_absolute (st_cfg s) div 10 ^ 9)"

definition ExpiresAt :: "sess_store \<Rightarrow> session \<Rightarrow> int" where
  "ExpiresAt s x =
    (let idle = ss_lastSeen x + sg_idle (st_cfg s); abs = ss_createdAt x + sg_absolute (st_cfg s)
     in if idle < abs then idle else abs)"

record cookie =
  ck_name :: string
  ck_value :: string
  ck_path :: string
  ck_maxAge :: int
  ck_httpOnly :: bool
  ck_secure :: bool
  ck_lax :: bool
  ck_expires :: "int option"

definition NewSessionCookie :: "string \<Rightarrow> bool \<Rightarrow> int \<Rightarrow> cookie" where
  "NewSessionCookie v secure maxAge = \<lparr>ck_name = CookieName, ck_value = v, ck_path = ''/'', ck_maxAge = maxAge, ck_httpOnly = True,
     ck_secure = secure, ck_lax = True, ck_expires = None\<rparr>"

definition ClearSessionCookie :: "bool \<Rightarrow> cookie" where
  "ClearSessionCookie secure = (NewSessionCookie [] secure (-1))\<lparr>ck_expires := Some 0\<rparr>"

text \<open>The request is whether it came over TLS, if there is one.\<close>

definition CookieSecure :: "bool option \<Rightarrow> bool \<Rightarrow> bool" where
  "CookieSecure r force \<longleftrightarrow> force \<or> r = Some True"

definition UnsafeMethod :: "string \<Rightarrow> bool" where
  "UnsafeMethod m \<longleftrightarrow> m \<in> {''POST'', ''PUT'', ''PATCH'', ''DELETE''}"

definition PrincipalFromSession :: "session \<Rightarrow> principal" where
  "PrincipalFromSession x = \<lparr>pn_id = ss_tokenID x, pn_class = ClassToken, pn_role = ss_role x, pn_scopes = ss_scopes x\<rparr>"

section \<open>What the token index accepts\<close>

lemma scan_found: "fst (scan_tokens d i ts (found, idx)) = found + int (length (filter (\<lambda>t. to_digest t = d) ts))"
  by (induction ts arbitrary: i found idx) (simp_all add: Let_def)

lemma single_list: "distinct xs \<Longrightarrow> set xs = {x} \<Longrightarrow> xs = [x]"
  by (cases xs) (auto simp: insert_eq_iff dest: subset_singletonD)

lemma scan_none: "\<forall>t \<in> set ts. to_digest t \<noteq> d \<Longrightarrow> scan_tokens d i ts acc = acc"
  by (induction ts arbitrary: i acc) (auto simp: Let_def split_paired_all)

lemma scan_one:
  assumes "length (filter (\<lambda>t. to_digest t = d) ts) = 1"
  shows "\<exists>k < length ts. to_digest (ts ! k) = d \<and> scan_tokens d i ts (0, idx) = (1, int (i + k))"
  using assms
proof (induction ts arbitrary: i idx)
  case (Cons t ts)
  show ?case
  proof (cases "to_digest t = d")
    case True
    with Cons.prems have "\<forall>t \<in> set ts. to_digest t \<noteq> d" by (auto simp: filter_empty_conv)
    with True scan_none [of ts d "i + 1" "(1, int i)"] show ?thesis by (intro exI [of _ 0]) simp
  next
    case False
    with Cons.prems have "length (filter (\<lambda>t. to_digest t = d) ts) = 1" by simp
    from Cons.IH [OF this, of "i + 1" idx] obtain k where "k < length ts" "to_digest (ts ! k) = d" "scan_tokens d (i + 1) ts (0, idx) = (1, int (i + 1 + k))"
      by blast
    with False show ?thesis by (intro exI [of _ "Suc k"]) simp
  qed
qed simp

text \<open>The scan without branches is a search for the one token with the digest.\<close>

lemma lookupBearer_eq:
  "lookupBearer K v secret =
    (if secret \<noteq> [] \<and> CHR '' '' \<notin> set secret \<and> CHR 0x09 \<notin> set secret then
       (case filter (\<lambda>t. to_digest t = DigestSecret K secret) (vf_tokens v) of
          [t] \<Rightarrow> Inr (principalOf t)
        | _ \<Rightarrow> Inl (Unauthorized ''authentication required''))
     else Inl (Unauthorized ''authentication required''))"
proof -
  let ?d = "DigestSecret K secret" and ?f = "filter (\<lambda>t. to_digest t = DigestSecret K secret) (vf_tokens v)"
  have "(let (found, idx) = scan_tokens ?d 0 (vf_tokens v) (0, 0)
         in if found \<noteq> 1 then Inl (Unauthorized ''authentication required'') else Inr (principalOf (vf_tokens v ! nat idx)))
      = (case ?f of [t] \<Rightarrow> Inr (principalOf t) | _ \<Rightarrow> Inl (Unauthorized ''authentication required''))"
  proof (cases "length ?f = 1")
    case True
    from scan_one [OF this, of 0 0] obtain k where k: "k < length (vf_tokens v)" "to_digest (vf_tokens v ! k) = ?d"
      "scan_tokens ?d 0 (vf_tokens v) (0, 0) = (1, int k)" by auto
    then have "vf_tokens v ! k \<in> set ?f" by simp
    with True have "?f = [vf_tokens v ! k]" by (cases ?f) auto
    with k(3) show ?thesis by simp
  next
    case False
    then have "fst (scan_tokens ?d 0 (vf_tokens v) (0, 0)) \<noteq> 1" by (simp add: scan_found)
    with False show ?thesis by (auto simp: split_def Let_def split: list.split)
  qed
  then show ?thesis by (auto simp: lookupBearer_def Let_def list_ex_iff)
qed

lemma compile_tokens_Inr:
  assumes "compile_tokens K i seen toks = Inr ts"
  shows "length ts = length toks \<and> distinct (map to_id ts) \<and> distinct (map to_digest ts)
    \<and> to_id ` set ts \<inter> to_id ` set seen = {} \<and> to_digest ` set ts \<inter> to_digest ` set seen = {}
    \<and> (\<forall>k < length toks. \<exists>raw. readSecretFile K (tk_secretFile (toks ! k)) = Some raw \<and> MinTokenBytes \<le> length raw
         \<and> ts ! k = \<lparr>to_id = TrimSpace (tk_id (toks ! k)), to_role = fst (expandScopes (tk_role (toks ! k)) (tk_scopes (toks ! k))),
              to_scopes = snd (expandScopes (tk_role (toks ! k)) (tk_scopes (toks ! k))), to_digest = DigestSecret K raw\<rparr>)"
  using assms
proof (induction toks arbitrary: i seen ts)
  case (Cons tok toks)
  from Cons.prems obtain raw ts' where raw: "readSecretFile K (tk_secretFile tok) = Some raw" "MinTokenBytes \<le> length raw"
      "TrimSpace (tk_id tok) \<notin> to_id ` set seen" "\<forall>t \<in> set seen. to_digest t \<noteq> DigestSecret K raw"
    and ts: "ts = \<lparr>to_id = TrimSpace (tk_id tok), to_role = fst (expandScopes (tk_role tok) (tk_scopes tok)),
        to_scopes = snd (expandScopes (tk_role tok) (tk_scopes tok)), to_digest = DigestSecret K raw\<rparr> # ts'"
      "compile_tokens K (i + 1) (seen @ [hd ts]) toks = Inr ts'"
    by (auto simp: Let_def split_def find_None_iff not_less split: if_splits option.splits sum.splits)
  from Cons.IH [OF ts(2)] raw ts(1) show ?case by (auto simp: nth_Cons split: nat.split)
qed simp

text \<open>C18: Tokens: a compiled index has one entry per token of the document, with distinct identifiers and digests. The
  secret in a token's file, which has at least 32 bytes, authenticates as that token with its role and scopes, if it has no blank inside; and whoever
  authenticates presented a secret with the digest of exactly one token's secret, and gets that token's identity.\<close>

theorem tokens_authenticate:
  assumes "FromSpec K spec = Inr v"
  shows "length (vf_tokens v) = length (as_tokens spec) \<and> distinct (map to_id (vf_tokens v))
    \<and> (\<forall>tok \<in> set (as_tokens spec). \<exists>raw. readSecretFile K (tk_secretFile tok) = Some raw \<and> 32 \<le> length raw
         \<and> (CHR '' '' \<notin> set raw \<and> CHR 0x09 \<notin> set raw \<longrightarrow>
              lookupBearer K v raw = Inr \<lparr>pn_id = TrimSpace (tk_id tok), pn_class = ClassToken, pn_role = fst (expandScopes (tk_role tok) (tk_scopes tok)),
                pn_scopes = snd (expandScopes (tk_role tok) (tk_scopes tok))\<rparr>))
    \<and> (\<forall>secret p. lookupBearer K v secret = Inr p \<longrightarrow> (\<exists>tok \<in> set (as_tokens spec). \<exists>raw. readSecretFile K (tk_secretFile tok) = Some raw
         \<and> DigestSecret K secret = DigestSecret K raw \<and> pn_id p = TrimSpace (tk_id tok)))"
proof -
  from assms have c: "compile_tokens K 0 [] (as_tokens spec) = Inr (vf_tokens v)"
    by (auto simp: FromSpec_def Let_def split: if_splits sum.splits)
  note C = compile_tokens_Inr [OF c]
  have own: "filter (\<lambda>t. to_digest t = to_digest (vf_tokens v ! k)) (vf_tokens v) = [vf_tokens v ! k]" if "k < length (vf_tokens v)" for k
  proof -
    have "distinct (map to_digest (vf_tokens v))" using C by blast
    then have "distinct (vf_tokens v)" "inj_on to_digest (set (vf_tokens v))" by (simp_all add: distinct_map)
    then have "set (filter (\<lambda>t. to_digest t = to_digest (vf_tokens v ! k)) (vf_tokens v)) = {vf_tokens v ! k}" "distinct (filter (\<lambda>t. to_digest t = to_digest (vf_tokens v ! k)) (vf_tokens v))"
      using that nth_mem [OF that] by (auto dest: inj_onD)
    then show ?thesis by (rule single_list [rotated])
  qed
  have fwd: "\<exists>raw. readSecretFile K (tk_secretFile tok) = Some raw \<and> 32 \<le> length raw
         \<and> (CHR '' '' \<notin> set raw \<and> CHR 0x09 \<notin> set raw \<longrightarrow>
              lookupBearer K v raw = Inr \<lparr>pn_id = TrimSpace (tk_id tok), pn_class = ClassToken, pn_role = fst (expandScopes (tk_role tok) (tk_scopes tok)),
                pn_scopes = snd (expandScopes (tk_role tok) (tk_scopes tok))\<rparr>)" if "tok \<in> set (as_tokens spec)" for tok
  proof -
    from that obtain k where k: "k < length (as_tokens spec)" "tok = as_tokens spec ! k" by (metis in_set_conv_nth)
    with C obtain raw where raw: "readSecretFile K (tk_secretFile tok) = Some raw" "MinTokenBytes \<le> length raw"
      "vf_tokens v ! k = \<lparr>to_id = TrimSpace (tk_id tok), to_role = fst (expandScopes (tk_role tok) (tk_scopes tok)),
         to_scopes = snd (expandScopes (tk_role tok) (tk_scopes tok)), to_digest = DigestSecret K raw\<rparr>" by blast
    have "raw \<noteq> []" using raw(2) by (auto simp: MinTokenBytes_def)
    with own [of k] k(1) C raw show ?thesis by (auto simp: lookupBearer_eq principalOf_def MinTokenBytes_def)
  qed
  have bwd: "\<exists>tok \<in> set (as_tokens spec). \<exists>raw. readSecretFile K (tk_secretFile tok) = Some raw
         \<and> DigestSecret K secret = DigestSecret K raw \<and> pn_id p = TrimSpace (tk_id tok)" if "lookupBearer K v secret = Inr p" for secret p
  proof -
    from that obtain t where t: "filter (\<lambda>t. to_digest t = DigestSecret K secret) (vf_tokens v) = [t]" "p = principalOf t"
      by (auto simp: lookupBearer_eq split: if_splits list.splits)
    then have "t \<in> set (filter (\<lambda>t. to_digest t = DigestSecret K secret) (vf_tokens v))" by simp
    then have "t \<in> set (vf_tokens v)" "to_digest t = DigestSecret K secret" by simp_all
    then obtain k where "k < length (as_tokens spec)" "t = vf_tokens v ! k" using C by (metis in_set_conv_nth)
    with C \<open>to_digest t = _\<close> t(2) nth_mem [OF \<open>k < _\<close>] show ?thesis by (fastforce simp: principalOf_def)
  qed
  show ?thesis using C fwd bwd by blast
qed

section \<open>The session table\<close>

text \<open>What every operation keeps: keys are not empty, the table is within its bound, and the public view agrees with the record.\<close>

definition record_ok :: "sess_record \<Rightarrow> bool" where
  "record_ok rec \<longleftrightarrow> ss_createdAt (sr_public rec) = sr_createdAt rec \<and> ss_lastSeen (sr_public rec) = sr_lastSeen rec"

definition store_ok :: "sess_store \<Rightarrow> bool" where
  "store_ok s \<longleftrightarrow> distinct (map fst (st_sessions s)) \<and> [] \<notin> fst ` set (st_sessions s) \<and> int (length (st_sessions s)) \<le> sg_max (st_cfg s)
     \<and> 0 < sg_max (st_cfg s) \<and> (\<forall>rec \<in> snd ` set (st_sessions s). record_ok rec)"

lemma oldest_mem: "oldest_key m best = Some (k, t) \<Longrightarrow> k \<in> fst ` set m \<or> best = Some (k, t)"
proof (induction m best rule: oldest_key.induct)
  case (2 k' rec rest best)
  then show ?case by (auto split: option.splits if_splits)
qed simp

lemma oldest_some: "oldest_key m best = None \<longleftrightarrow> m = [] \<and> best = None"
  by (induction m best rule: oldest_key.induct) (auto split: option.splits)

lemma del_length: "distinct (map fst m) \<Longrightarrow> k \<in> fst ` set m \<Longrightarrow> length (kv_del k m) = length m - 1"
proof -
  assume d: "distinct (map fst m)" and k: "k \<in> fst ` set m"
  have "set (map fst (kv_del k m)) = set (map fst m) - {k}" 
    by (simp only: list.set_map dom_map_of_conv_image_fst [symmetric] map_of_kv_del) simp
  moreover have "distinct (map fst (kv_del k m))" using d by (rule kv.wf_del)
  ultimately have "length (map fst (kv_del k m)) = card (set (map fst m) - {k})" by (metis distinct_card)
  also have "\<dots> = length (map fst m) - 1" using k distinct_card [OF d] by (simp add: card_Diff_singleton)
  finally show ?thesis by simp
qed

lemma del_shorter: "length (kv_del k m) \<le> length m"
  by (induction m) auto

lemma put_new_length: "map_of m k = None \<Longrightarrow> length (kv_put k v m) = Suc (length m)"
  by (induction m) auto

lemma put_old_length: "map_of m k \<noteq> None \<Longrightarrow> length (kv_put k v m) = length m"
  by (induction m) auto

lemma deleted_ok: "store_ok s \<Longrightarrow> store_ok (s\<lparr>st_sessions := kv_del k (st_sessions s)\<rparr>)"
  using del_shorter [of k "st_sessions s"] by (auto simp: store_ok_def kv.wf_del dest!: kv_del_mem)

lemma cleared_ok: "store_ok s \<Longrightarrow> store_ok (s\<lparr>st_sessions := []\<rparr>)"
  by (simp add: store_ok_def)

lemma expired_ok: "store_ok s \<Longrightarrow> store_ok (expireLocked now s)"
  by (auto simp: store_ok_def expireLocked_def distinct_map_filter intro: order_trans [OF of_nat_mono [OF length_filter_le]])

lemma evicted_ok: "store_ok s \<Longrightarrow> store_ok (evictOldestLocked s)"
  by (auto simp: evictOldestLocked_def deleted_ok split: option.split)

lemma evicted_room:
  assumes "store_ok s"
  shows "int (length (st_sessions (evictOldestLocked s))) < sg_max (st_cfg s)"
proof (cases "oldest_key (st_sessions s) None")
  case None
  then have "st_sessions s = []" by (simp add: oldest_some)
  with None assms show ?thesis by (simp add: evictOldestLocked_def store_ok_def)
next
  case (Some kt)
  then obtain k t where k: "oldest_key (st_sessions s) None = Some (k, t)" by (cases kt) auto
  then have m: "k \<in> fst ` set (st_sessions s)" using oldest_mem by fastforce
  moreover have "[] \<notin> fst ` set (st_sessions s)" using assms by (simp add: store_ok_def)
  ultimately have "k \<noteq> []" by metis
  moreover have "0 < length (st_sessions s)" using m by auto
  ultimately have "k \<noteq> []" "0 < length (st_sessions s)" by simp_all
  with k m del_length [of "st_sessions s" k] assms show ?thesis by (auto simp: evictOldestLocked_def store_ok_def)
qed

lemma hex_nonempty: "hex_encode b = [] \<longleftrightarrow> b = []"
  by (cases b) (auto simp: hex_encode_def)

lemma inserted_ok:
  assumes "store_ok s" and "k \<noteq> []" and "record_ok rec" and "int (length (st_sessions s)) < sg_max (st_cfg s) \<or> map_of (st_sessions s) k \<noteq> None"
  shows "store_ok (s\<lparr>st_sessions := kv_put k rec (st_sessions s)\<rparr>)"
  using assms put_new_length [of "st_sessions s" k rec] put_old_length [of "st_sessions s" k rec]
  by (cases "map_of (st_sessions s) k") (auto simp: store_ok_def kv.wf_put dest!: kv_put_mem)

text \<open>Calls at their instants; the bytes are what the random reader delivers for the three secrets.\<close>

datatype sess_call =
    SCreate bytes bytes bytes principal
  | SCreateFails
  | SLookup string
  | SDelete string
  | SClear
  | SValid string string

fun sess_step :: "cfglib \<Rightarrow> sess_store \<Rightarrow> int \<times> sess_call \<Rightarrow> sess_store" where
  "sess_step K s (now, SCreate b1 b2 b3 p) = (case sess_Create (Some b1) (Some b2) (Some b3) now s p of Inl _ \<Rightarrow> s | Inr (_, s') \<Rightarrow> s')"
| "sess_step K s (now, SCreateFails) = s"
| "sess_step K s (now, SLookup c) = fst (sess_Lookup now s c)"
| "sess_step K s (now, SDelete c) = sess_Delete s c"
| "sess_step K s (now, SClear) = sess_Clear s"
| "sess_step K s (now, SValid c x) = fst (ValidCSRF K now s c x)"

text \<open>The random reader fills its buffer: a cookie has 32 bytes.\<close>

fun sess_call_ok :: "int \<times> sess_call \<Rightarrow> bool" where
  "sess_call_ok (now, SCreate b1 b2 b3 p) \<longleftrightarrow> length b1 = 32 \<and> length b2 = 32 \<and> length b3 = 16"
| "sess_call_ok c \<longleftrightarrow> True"

lemma cfg_frame [simp]: "st_cfg (expireLocked now s) = st_cfg s" "st_cfg (evictOldestLocked s) = st_cfg s"
  by (auto simp: expireLocked_def evictOldestLocked_def split: option.split)

lemma Create_ok:
  assumes "store_ok s" and "b1 \<noteq> []" and "sess_Create (Some b1) (Some b2) (Some b3) now s p = Inr (r, s')"
  shows "store_ok s'"
proof -
  define s1 where "s1 = expireLocked now s"
  define s2 where "s2 = (if int (length (st_sessions s1)) \<ge> sg_max (st_cfg s1) then evictOldestLocked s1 else s1)"
  from assms(3) obtain rec where s': "s' = s2\<lparr>st_sessions := kv_put (hex_encode b1) rec (st_sessions s2)\<rparr>" "record_ok rec"
    by (auto simp: sess_Create_def randomHex_def Let_def s1_def [symmetric] s2_def [symmetric] record_ok_def)
  have s1: "store_ok s1" using assms(1) by (simp add: s1_def expired_ok)
  have "store_ok s2" "int (length (st_sessions s2)) < sg_max (st_cfg s2)"
    using s1 evicted_ok [OF s1] evicted_room [OF s1] by (auto simp: s2_def)
  with inserted_ok [of s2 "hex_encode b1" rec] s' assms(2) show ?thesis by (simp add: hex_nonempty)
qed

lemma sess_step_ok: "store_ok s \<Longrightarrow> sess_call_ok c \<Longrightarrow> store_ok (sess_step K s c)"
proof (induction K s c rule: sess_step.induct)
  case (1 K s now b1 b2 b3 p)
  then have "b1 \<noteq> []" by auto
  with 1(1) show ?case by (auto split: sum.split intro: Create_ok)
next
  case (3 K s now c)
  have "store_ok (s\<lparr>st_sessions := kv_put c rec' (st_sessions s)\<rparr>)"
    if "c \<noteq> []" "map_of (st_sessions s) c = Some rec" "rec' = rec\<lparr>sr_lastSeen := now, sr_public := (sr_public rec)\<lparr>ss_lastSeen := now\<rparr>\<rparr>" for rec rec'
  proof -
    have "rec \<in> snd ` set (st_sessions s)" using map_of_SomeD [OF that(2)] by force
    then have "record_ok rec'" using 3(1) that(3) by (auto simp: store_ok_def record_ok_def)
    with inserted_ok [OF 3(1) that(1)] that(2) show ?thesis by simp
  qed
  then show ?case using 3(1) by (auto simp: sess_Lookup_def Let_def deleted_ok split: option.split)
qed (auto simp: sess_Delete_def sess_Clear_def ValidCSRF_def deleted_ok cleared_ok split: option.split)

lemma new_store_ok: "store_ok (auth_NewStore cfg)"
  by (simp add: auth_NewStore_def store_ok_def Let_def DefaultSessionConfig_def)

lemma sess_step_cfg: "st_cfg (sess_step K s c) = st_cfg s"
  by (induction K s c rule: sess_step.induct)
    (auto simp: sess_Create_def sess_Lookup_def sess_Delete_def sess_Clear_def ValidCSRF_def Let_def split: sum.split option.split)

lemma sess_run:
  "store_ok t \<Longrightarrow> list_all sess_call_ok calls \<Longrightarrow>
    store_ok (run_steps (sess_step K) t calls) \<and> st_cfg (run_steps (sess_step K) t calls) = st_cfg t"
  by (induction calls arbitrary: t) (auto simp: sess_step_ok sess_step_cfg)

text \<open>An instant whose distance to a record's times is a duration of the program.\<close>

definition near :: "int \<Rightarrow> sess_record \<Rightarrow> bool" where
  "near now rec \<longleftrightarrow> now - sr_lastSeen rec \<in> {min_i64 .. max_i64} \<and> now - sr_createdAt rec \<in> {min_i64 .. max_i64}"

text \<open>C23: The session table stays within the configured bound over any calls. A lookup returns a session exactly for a cookie under which the
  table has a record whose idle and absolute times have not run out, and then that record's own session and CSRF token;
  it moves the published expiry by the idle time, never beyond the absolute one, and leaves the sessions of all other cookies alone.\<close>

theorem sessions_bounded_and_expire:
  assumes "s = run_steps (sess_step K) (auth_NewStore cfg) calls" and "list_all sess_call_ok calls"
    and "\<forall>rec. map_of (st_sessions s) cookie = Some rec \<longrightarrow> near now rec"
  shows "int (length (st_sessions s)) \<le> sg_max (st_cfg s) \<and> st_cfg s = st_cfg (auth_NewStore cfg)
    \<and> (\<forall>x csrf. snd (sess_Lookup now s cookie) = Some (x, csrf) \<longleftrightarrow>
         (\<exists>rec. map_of (st_sessions s) cookie = Some rec
            \<and> now \<le> sr_lastSeen rec + sg_idle (st_cfg s) \<and> now \<le> sr_createdAt rec + sg_absolute (st_cfg s)
            \<and> x = (sr_public rec)\<lparr>ss_lastSeen := now\<rparr> \<and> csrf = sr_csrf rec))
    \<and> (\<forall>x csrf. snd (sess_Lookup now s cookie) = Some (x, csrf) \<longrightarrow>
         ExpiresAt s x = min (now + sg_idle (st_cfg s)) (ss_createdAt x + sg_absolute (st_cfg s)))
    \<and> (\<forall>k. k \<noteq> cookie \<longrightarrow> map_of (st_sessions (fst (sess_Lookup now s cookie))) k = map_of (st_sessions s) k)"
proof -
  from sess_run [OF new_store_ok assms(2)] have ok: "store_ok s" and cfg: "st_cfg s = st_cfg (auth_NewStore cfg)" by (simp_all add: assms(1))
  have empty: "map_of (st_sessions s) [] = None" using ok by (auto simp: store_ok_def map_of_eq_None_iff)
  have live: "\<not> expired (st_cfg s) rec now \<longleftrightarrow> now \<le> sr_lastSeen rec + sg_idle (st_cfg s) \<and> now \<le> sr_createdAt rec + sg_absolute (st_cfg s)"
    if "map_of (st_sessions s) cookie = Some rec" for rec
    using assms(3) that by (auto simp: near_def expired_def time_Sub_def)
  have found: "snd (sess_Lookup now s cookie) = Some (x, csrf) \<longleftrightarrow>
      (\<exists>rec. map_of (st_sessions s) cookie = Some rec \<and> \<not> expired (st_cfg s) rec now \<and> x = (sr_public rec)\<lparr>ss_lastSeen := now\<rparr> \<and> csrf = sr_csrf rec)" for x csrf
    using empty by (cases "cookie = []") (auto simp: sess_Lookup_def Let_def split: option.split)
  moreover have "ExpiresAt s x = min (now + sg_idle (st_cfg s)) (ss_createdAt x + sg_absolute (st_cfg s))"
    if "snd (sess_Lookup now s cookie) = Some (x, csrf)" for x csrf
    using that [unfolded found] by (auto simp: ExpiresAt_def Let_def)
  moreover have "map_of (st_sessions (fst (sess_Lookup now s cookie))) k = map_of (st_sessions s) k" if "k \<noteq> cookie" for k
    using that by (auto simp: sess_Lookup_def Let_def split: option.split)
  moreover have "int (length (st_sessions s)) \<le> sg_max (st_cfg s)" using ok by (simp add: store_ok_def)
  ultimately show ?thesis using cfg live by blast
qed

section \<open>Samples\<close>

definition sample_secret :: bytes where
  "sample_secret = replicate 32 (CHR ''s'')"

definition token_lib :: "cfglib \<Rightarrow> cfglib" where
  "token_lib K = K\<lparr>cf_file := (\<lambda>_. Inr sample_secret), cf_sha256 := (\<lambda>b. b)\<rparr>"

definition token_doc :: auth_spec where
  "token_doc = \<lparr>as_mode = [], as_tokens = [\<lparr>tk_id = ''ci'', tk_role = RoleReader, tk_secretFile = ''t'', tk_scopes = []\<rparr>]\<rparr>"

lemma sample_secret_read: "readSecretFile (token_lib K) p = Some sample_secret"
proof -
  have l: "split_lines sample_secret = [sample_secret]" by (simp add: sample_secret_def numeral_eq_Suc)
  have "TrimSpace sample_secret = sample_secret" by (rule TrimSpace_plain) (simp_all add: sample_secret_def numeral_eq_Suc plain_ascii_def)
  moreover have "sample_secret \<noteq> []" "\<not> prefix ''#'' sample_secret" by (simp_all add: sample_secret_def numeral_eq_Suc)
  ultimately show ?thesis by (simp add: readSecretFile_def token_lib_def l)
qed

lemma token_doc_compiles: "\<exists>v. FromSpec (token_lib K) token_doc = Inr v"
proof -
  have "TrimSpace ''ci'' = ''ci''" by (rule TrimSpace_plain) (simp_all add: plain_ascii_def)
  moreover have "TrimSpace [] = []" by (simp add: TrimSpace_def)
  moreover have "length sample_secret = 32" by (simp add: sample_secret_def)
  ultimately show ?thesis by (simp add: FromSpec_def token_doc_def sample_secret_read MinTokenBytes_def KnownRole_def Let_def split_def)
qed

theorem tokens_authenticate_witness:
  "\<exists>v. FromSpec (token_lib export_lib) token_doc = Inr v \<and> lookupBearer (token_lib export_lib) v sample_secret
     = Inr \<lparr>pn_id = ''ci'', pn_class = ClassToken, pn_role = RoleReader, pn_scopes = [ScopeNetconfRead]\<rparr>"
proof -
  obtain v where v: "FromSpec (token_lib export_lib) token_doc = Inr v" using token_doc_compiles by blast
  have "TrimSpace ''ci'' = ''ci''" by (rule TrimSpace_plain) (simp_all add: plain_ascii_def)
  moreover have "CHR '' '' \<notin> set sample_secret" "CHR 0x09 \<notin> set sample_secret" by (simp_all add: sample_secret_def)
  ultimately have "lookupBearer (token_lib export_lib) v sample_secret = Inr \<lparr>pn_id = ''ci'', pn_class = ClassToken, pn_role = RoleReader, pn_scopes = [ScopeNetconfRead]\<rparr>"
    using tokens_authenticate [OF v] by (simp add: token_doc_def sample_secret_read expandScopes_def DefaultScopes_def)
  with v show ?thesis by blast
qed

abbreviation sample_principal :: principal where
  "sample_principal \<equiv> \<lparr>pn_id = ''ci'', pn_class = ClassToken, pn_role = RoleReader, pn_scopes = []\<rparr>"

definition one_session :: sess_store where
  "one_session = run_steps (sess_step export_lib) (auth_NewStore DefaultSessionConfig) [(0, SCreate sample_secret sample_secret (replicate 16 (CHR ''p'')) sample_principal)]"

lemma one_session_table:
  "\<exists>rec. map_of (st_sessions one_session) (hex_encode sample_secret) = Some rec \<and> sr_lastSeen rec = 0 \<and> sr_createdAt rec = 0
     \<and> sr_public rec = \<lparr>ss_id = hex_encode (replicate 16 (CHR ''p'')), ss_tokenID = ''ci'', ss_role = RoleReader, ss_scopes = [], ss_createdAt = 0, ss_lastSeen = 0\<rparr>"
  by (simp add: one_session_def sess_Create_def randomHex_def auth_NewStore_def expireLocked_def Let_def DefaultSessionConfig_def)

theorem sessions_bounded_and_expire_witness:
  "snd (sess_Lookup (3600 * 10 ^ 9) one_session (hex_encode sample_secret)) \<noteq> None \<and> snd (sess_Lookup (5 * 3600 * 10 ^ 9) one_session (hex_encode sample_secret)) = None
   \<and> snd (sess_Lookup 0 one_session ''guess'') = None"
proof -
  obtain rec where r: "map_of (st_sessions one_session) (hex_encode sample_secret) = Some rec" "sr_lastSeen rec = 0" "sr_createdAt rec = 0"
    using one_session_table by blast
  have cfg: "st_cfg one_session = DefaultSessionConfig"
    by (simp add: one_session_def sess_Create_def randomHex_def auth_NewStore_def expireLocked_def Let_def DefaultSessionConfig_def)
  have "length (hex_encode sample_secret) = 64" by (simp add: hex_encode_def sample_secret_def length_concat comp_def sum_list_replicate)
  then have "hex_encode sample_secret \<noteq> ''guess''" by auto
  then have none: "map_of (st_sessions one_session) ''guess'' = None"
    by (simp add: one_session_def sess_Create_def randomHex_def auth_NewStore_def expireLocked_def Let_def DefaultSessionConfig_def)
  have c: "list_all sess_call_ok [(0, SCreate sample_secret sample_secret (replicate 16 (CHR ''p'')) sample_principal)]" by (simp add: sample_secret_def)
  have n: "\<forall>rec'. map_of (st_sessions one_session) (hex_encode sample_secret) = Some rec' \<longrightarrow> near now rec'" if "now \<in> {0 .. 10 ^ 15}" for now
    using that r by (simp add: near_def min_i64_def max_i64_def)
  have "(snd (sess_Lookup now one_session (hex_encode sample_secret)) \<noteq> None) = (now \<le> 4 * 3600 * 10 ^ 9)" if "now \<in> {0 .. 10 ^ 15}" for now
    using sessions_bounded_and_expire [OF one_session_def c n [OF that]] r
    by (cases "snd (sess_Lookup now one_session (hex_encode sample_secret))") (auto simp: cfg DefaultSessionConfig_def)
  note age = this [of "3600 * 10 ^ 9"] this [of "5 * 3600 * 10 ^ 9"]
  have "snd (sess_Lookup (3600 * 10 ^ 9) one_session (hex_encode sample_secret)) \<noteq> None" "snd (sess_Lookup (5 * 3600 * 10 ^ 9) one_session (hex_encode sample_secret)) = None"
    using age by (simp_all del: not_None_eq)
  moreover have "snd (sess_Lookup 0 one_session ''guess'') = None"
    using sessions_bounded_and_expire [OF one_session_def c, of "''guess''" 0] none by (cases "snd (sess_Lookup 0 one_session ''guess'')") auto
  ultimately show ?thesis by blast
qed

end
