(* ===== verification/Capabilities.thy ===== *)
theory Capabilities
  imports Auth
begin

text \<open>
  Package \<open>capabilities\<close> (\<open>capability.go\<close>, \<open>catalog.go\<close>, \<open>errors.go\<close>, \<open>features.go\<close>, \<open>registry.go\<close>): the frozen table of management
  capabilities with their REST and MCP bindings and scopes, its indexes, the catalog of features and the mapping of
  error codes to statuses. Copies are values; writing the documents as JSON is left out.
\<close>

section \<open>The table\<close>

record rest_binding =
  rb_method :: string
  rb_path :: string

record mcp_binding =
  mb_tools :: "string list"
  mb_resources :: "string list"

record capability =
  cp_id :: string
  cp_title :: string
  cp_version :: string
  cp_description :: string
  cp_input :: "string option"
  cp_output :: "string option"
  cp_scopes :: "string list"
  cp_mutating :: bool
  cp_idempotent :: bool
  cp_restOnly :: bool
  cp_differentBinding :: bool
  cp_rest :: "rest_binding list"
  cp_mcp :: "mcp_binding option"
  cp_methods :: "string list"

definition RESTRef :: "rest_binding \<Rightarrow> string" where
  "RESTRef b = (if rb_method b = [] then rb_path b else rb_method b @ '' '' @ rb_path b)"

abbreviation VersionTag :: string where "VersionTag \<equiv> ''v1''"

definition TableRowCount :: nat where "TableRowCount = 32"

definition catalog_head :: "capability list" where
  "catalog_head = [
    \<lparr>cp_id = ''health.live'', cp_title = ''Health live'', cp_version = VersionTag,
      cp_description = ''Process liveness. Not an MCP tool.'',
      cp_input = None, cp_output = None, cp_scopes = [], cp_mutating = False, cp_idempotent = True,
      cp_restOnly = True, cp_differentBinding = False, cp_rest = [\<lparr>rb_method = ''GET'', rb_path = ''/v1/health/live''\<rparr>],
      cp_mcp = None, cp_methods = []\<rparr>,
    \<lparr>cp_id = ''health.ready'', cp_title = ''Health ready'', cp_version = VersionTag,
      cp_description = ''Snapshot loaded and enabled listeners bound, or management off. Not an MCP tool.'',
      cp_input = None, cp_output = None, cp_scopes = [], cp_mutating = False, cp_idempotent = True,
      cp_restOnly = True, cp_differentBinding = False, cp_rest = [\<lparr>rb_method = ''GET'', rb_path = ''/v1/health/ready''\<rparr>],
      cp_mcp = None, cp_methods = []\<rparr>,
    \<lparr>cp_id = ''session.create'', cp_title = ''Create session'', cp_version = VersionTag,
      cp_description = ''Cookie + CSRF session for the operator UI. Accepts bearer. Not an MCP tool.'',
      cp_input = None, cp_output = None, cp_scopes = [], cp_mutating = True, cp_idempotent = False,
      cp_restOnly = True, cp_differentBinding = False, cp_rest = [\<lparr>rb_method = ''POST'', rb_path = ''/v1/session''\<rparr>],
      cp_mcp = None, cp_methods = []\<rparr>,
    \<lparr>cp_id = ''session.get'', cp_title = ''Get session'', cp_version = VersionTag,
      cp_description = ''Current session principal (cookie or bearer). Cookie path returns CSRF for reload recovery. Not an MCP tool.'',
      cp_input = None, cp_output = None, cp_scopes = [], cp_mutating = False, cp_idempotent = True,
      cp_restOnly = True, cp_differentBinding = False, cp_rest = [\<lparr>rb_method = ''GET'', rb_path = ''/v1/session''\<rparr>],
      cp_mcp = None, cp_methods = []\<rparr>,
    \<lparr>cp_id = ''session.delete'', cp_title = ''Delete session'', cp_version = VersionTag,
      cp_description = ''Clear the operator UI session cookie. Not an MCP tool.'',
      cp_input = None, cp_output = None, cp_scopes = [], cp_mutating = True, cp_idempotent = True,
      cp_restOnly = True, cp_differentBinding = False, cp_rest = [\<lparr>rb_method = ''DELETE'', rb_path = ''/v1/session''\<rparr>],
      cp_mcp = None, cp_methods = []\<rparr>,
    \<lparr>cp_id = ''version.get'', cp_title = ''Version'', cp_version = VersionTag,
      cp_description = ''Build and protocol versions.'',
      cp_input = None, cp_output = Some ''Version'', cp_scopes = [ScopeNetconfRead], cp_mutating = False, cp_idempotent = True,
      cp_restOnly = False, cp_differentBinding = False, cp_rest = [\<lparr>rb_method = ''GET'', rb_path = ''/v1/version''\<rparr>],
      cp_mcp = Some \<lparr>mb_tools = [''netconf_version_get''], mb_resources = []\<rparr>, cp_methods = [''Version'']\<rparr>,
    \<lparr>cp_id = ''capabilities.get'', cp_title = ''Capabilities'', cp_version = VersionTag,
      cp_description = ''Capability list and protocol metadata.'',
      cp_input = None, cp_output = Some ''CapabilityView'', cp_scopes = [ScopeNetconfRead], cp_mutating = False, cp_idempotent = True,
      cp_restOnly = False, cp_differentBinding = False, cp_rest = [\<lparr>rb_method = ''GET'', rb_path = ''/v1/capabilities''\<rparr>],
      cp_mcp = Some \<lparr>mb_tools = [''netconf_capabilities_get''], mb_resources = []\<rparr>, cp_methods = [''Capabilities'']\<rparr>,
    \<lparr>cp_id = ''status.get'', cp_title = ''Agent status'', cp_version = VersionTag,
      cp_description = ''Listeners, revision, and ready.'',
      cp_input = None, cp_output = Some ''Status'', cp_scopes = [ScopeNetconfRead], cp_mutating = False, cp_idempotent = True,
      cp_restOnly = False, cp_differentBinding = False, cp_rest = [\<lparr>rb_method = ''GET'', rb_path = ''/v1/status''\<rparr>],
      cp_mcp = Some \<lparr>mb_tools = [''netconf_status_get''], mb_resources = []\<rparr>, cp_methods = [''Status'']\<rparr>,
    \<lparr>cp_id = ''schema.get'', cp_title = ''Config schema'', cp_version = VersionTag,
      cp_description = ''Published v1alpha1 config JSON Schema.'',
      cp_input = None, cp_output = None, cp_scopes = [ScopeNetconfRead], cp_mutating = False, cp_idempotent = True,
      cp_restOnly = False, cp_differentBinding = False, cp_rest = [\<lparr>rb_method = ''GET'', rb_path = ''/v1/schema/config''\<rparr>],
      cp_mcp = Some \<lparr>mb_tools = [''netconf_schema_get''], mb_resources = [''labnetconf://schema/config'']\<rparr>, cp_methods = [''Schema'']\<rparr>,
    \<lparr>cp_id = ''features.list'', cp_title = ''Features'', cp_version = VersionTag,
      cp_description = ''Frozen live vs reset-only catalog.'',
      cp_input = None, cp_output = Some ''FeatureList'', cp_scopes = [ScopeNetconfRead], cp_mutating = False, cp_idempotent = True,
      cp_restOnly = False, cp_differentBinding = False, cp_rest = [\<lparr>rb_method = ''GET'', rb_path = ''/v1/features''\<rparr>],
      cp_mcp = Some \<lparr>mb_tools = [''netconf_features_list''], mb_resources = []\<rparr>, cp_methods = [''Features'']\<rparr>,
    \<lparr>cp_id = ''state.get'', cp_title = ''Get state'', cp_version = VersionTag,
      cp_description = ''Redacted spec plus revision metadata.'',
      cp_input = None, cp_output = Some ''StateView'', cp_scopes = [ScopeNetconfRead], cp_mutating = False, cp_idempotent = True,
      cp_restOnly = False, cp_differentBinding = False, cp_rest = [\<lparr>rb_method = ''GET'', rb_path = ''/v1/state''\<rparr>],
      cp_mcp = Some \<lparr>mb_tools = [''netconf_state_get''], mb_resources = [''labnetconf://state'']\<rparr>, cp_methods = [''State'']\<rparr>,
    \<lparr>cp_id = ''state.validate'', cp_title = ''Validate'', cp_version = VersionTag,
      cp_description = ''Validate a candidate document without writing.'',
      cp_input = None, cp_output = None, cp_scopes = [ScopeNetconfAdmin], cp_mutating = False, cp_idempotent = True,
      cp_restOnly = False, cp_differentBinding = False, cp_rest = [\<lparr>rb_method = ''POST'', rb_path = ''/v1/state:validate''\<rparr>],
      cp_mcp = Some \<lparr>mb_tools = [''netconf_state_validate''], mb_resources = []\<rparr>, cp_methods = [''ValidateState'']\<rparr>,
    \<lparr>cp_id = ''state.export'', cp_title = ''Export'', cp_version = VersionTag,
      cp_description = ''Canonical desired-state YAML. Secret bytes are absent.'',
      cp_input = None, cp_output = None, cp_scopes = [ScopeNetconfAdmin], cp_mutating = False, cp_idempotent = True,
      cp_restOnly = False, cp_differentBinding = False, cp_rest = [\<lparr>rb_method = ''GET'', rb_path = ''/v1/state:export''\<rparr>],
      cp_mcp = Some \<lparr>mb_tools = [''netconf_state_export''], mb_resources = []\<rparr>, cp_methods = [''ExportState'']\<rparr>,
    \<lparr>cp_id = ''state.reset'', cp_title = ''Reset'', cp_version = VersionTag,
      cp_description = ''Reread the bootstrap mount, restore trees, and wipe notifications. Never writes the file.'',
      cp_input = None, cp_output = None, cp_scopes = [ScopeNetconfAdmin], cp_mutating = True, cp_idempotent = False,
      cp_restOnly = False, cp_differentBinding = False, cp_rest = [\<lparr>rb_method = ''POST'', rb_path = ''/v1/state:reset''\<rparr>],
      cp_mcp = Some \<lparr>mb_tools = [''netconf_state_reset''], mb_resources = []\<rparr>, cp_methods = [''Reset'']\<rparr>,
    \<lparr>cp_id = ''changes.plan'', cp_title = ''Plan'', cp_version = VersionTag,
      cp_description = ''Dry-run operations against the active snapshot.'',
      cp_input = Some ''ChangeIn'', cp_output = Some ''Plan'', cp_scopes = [ScopeNetconfAdmin], cp_mutating = False, cp_idempotent = True,
      cp_restOnly = False, cp_differentBinding = False, cp_rest = [\<lparr>rb_method = ''POST'', rb_path = ''/v1/changes:plan''\<rparr>],
      cp_mcp = Some \<lparr>mb_tools = [''netconf_change_plan''], mb_resources = []\<rparr>, cp_methods = [''Plan'']\<rparr>,
    \<lparr>cp_id = ''changes.apply'', cp_title = ''Apply'', cp_version = VersionTag,
      cp_description = ''Apply operations. expectedRevision and Idempotency-Key are required.'',
      cp_input = Some ''ChangeIn'', cp_output = Some ''ApplyResult'', cp_scopes = [ScopeNetconfAdmin], cp_mutating = True, cp_idempotent = True,
      cp_restOnly = False, cp_differentBinding = False, cp_rest = [\<lparr>rb_method = ''POST'', rb_path = ''/v1/changes:apply''\<rparr>],
      cp_mcp = Some \<lparr>mb_tools = [''netconf_change_apply''], mb_resources = []\<rparr>, cp_methods = [''Apply'']\<rparr>]"

definition catalog_tail :: "capability list" where
  "catalog_tail = [
    \<lparr>cp_id = ''profiles.list'', cp_title = ''List profiles'', cp_version = VersionTag,
      cp_description = ''Named device profiles.'',
      cp_input = None, cp_output = None, cp_scopes = [ScopeNetconfRead], cp_mutating = False, cp_idempotent = True,
      cp_restOnly = False, cp_differentBinding = False, cp_rest = [\<lparr>rb_method = ''GET'', rb_path = ''/v1/profiles''\<rparr>],
      cp_mcp = Some \<lparr>mb_tools = [''netconf_profiles_list''], mb_resources = []\<rparr>, cp_methods = [''ListProfiles'']\<rparr>,
    \<lparr>cp_id = ''profiles.get'', cp_title = ''Get profile'', cp_version = VersionTag,
      cp_description = ''One profile by name.'',
      cp_input = None, cp_output = None, cp_scopes = [ScopeNetconfRead], cp_mutating = False, cp_idempotent = True,
      cp_restOnly = False, cp_differentBinding = False, cp_rest = [\<lparr>rb_method = ''GET'', rb_path = ''/v1/profiles/{name}''\<rparr>],
      cp_mcp = Some \<lparr>mb_tools = [''netconf_profile_get''], mb_resources = [''labnetconf://profiles/{name}'']\<rparr>, cp_methods = [''GetProfile'']\<rparr>,
    \<lparr>cp_id = ''users.list'', cp_title = ''List users'', cp_version = VersionTag,
      cp_description = ''Data-plane users. Secret file contents are omitted.'',
      cp_input = None, cp_output = None, cp_scopes = [ScopeNetconfRead], cp_mutating = False, cp_idempotent = True,
      cp_restOnly = False, cp_differentBinding = False, cp_rest = [\<lparr>rb_method = ''GET'', rb_path = ''/v1/users''\<rparr>],
      cp_mcp = Some \<lparr>mb_tools = [''netconf_users_list''], mb_resources = []\<rparr>, cp_methods = [''ListUsers'']\<rparr>,
    \<lparr>cp_id = ''datastore.get'', cp_title = ''Get datastore'', cp_version = VersionTag,
      cp_description = ''Instance tree JSON for a profile store (running, candidate, or startup).'',
      cp_input = None, cp_output = None, cp_scopes = [ScopeNetconfRead], cp_mutating = False, cp_idempotent = True,
      cp_restOnly = False, cp_differentBinding = False, cp_rest = [\<lparr>rb_method = ''GET'', rb_path = ''/v1/datastores/{profile}/{store}''\<rparr>],
      cp_mcp = Some \<lparr>mb_tools = [''netconf_datastore_get''], mb_resources = [''labnetconf://datastores/{profile}/{store}'']\<rparr>, cp_methods = [''GetDatastore'']\<rparr>,
    \<lparr>cp_id = ''datastore.set'', cp_title = ''Set datastore'', cp_version = VersionTag,
      cp_description = ''Overlay/tree write on a profile store. Tester helper; same engine as edit-config.'',
      cp_input = None, cp_output = None, cp_scopes = [ScopeNetconfWrite], cp_mutating = True, cp_idempotent = False,
      cp_restOnly = False, cp_differentBinding = False, cp_rest = [\<lparr>rb_method = ''POST'', rb_path = ''/v1/datastores/{profile}/{store}:set''\<rparr>],
      cp_mcp = Some \<lparr>mb_tools = [''netconf_datastore_set''], mb_resources = []\<rparr>, cp_methods = [''SetDatastore'']\<rparr>,
    \<lparr>cp_id = ''datastore.commit'', cp_title = ''Commit'', cp_version = VersionTag,
      cp_description = ''Publish candidate to running for a profile.'',
      cp_input = None, cp_output = None, cp_scopes = [ScopeNetconfWrite], cp_mutating = True, cp_idempotent = False,
      cp_restOnly = False, cp_differentBinding = False, cp_rest = [\<lparr>rb_method = ''POST'', rb_path = ''/v1/datastores/{profile}:commit''\<rparr>],
      cp_mcp = Some \<lparr>mb_tools = [''netconf_datastore_commit''], mb_resources = []\<rparr>, cp_methods = [''Commit'']\<rparr>,
    \<lparr>cp_id = ''datastore.discard'', cp_title = ''Discard'', cp_version = VersionTag,
      cp_description = ''Restore candidate from running for a profile.'',
      cp_input = None, cp_output = None, cp_scopes = [ScopeNetconfWrite], cp_mutating = True, cp_idempotent = False,
      cp_restOnly = False, cp_differentBinding = False, cp_rest = [\<lparr>rb_method = ''POST'', rb_path = ''/v1/datastores/{profile}:discard''\<rparr>],
      cp_mcp = Some \<lparr>mb_tools = [''netconf_datastore_discard''], mb_resources = []\<rparr>, cp_methods = [''Discard'']\<rparr>,
    \<lparr>cp_id = ''sessions.list'', cp_title = ''List sessions'', cp_version = VersionTag,
      cp_description = ''NETCONF SSH sessions.'',
      cp_input = None, cp_output = None, cp_scopes = [ScopeNetconfRead], cp_mutating = False, cp_idempotent = True,
      cp_restOnly = False, cp_differentBinding = False, cp_rest = [\<lparr>rb_method = ''GET'', rb_path = ''/v1/sessions''\<rparr>],
      cp_mcp = Some \<lparr>mb_tools = [''netconf_sessions_list''], mb_resources = []\<rparr>, cp_methods = [''ListSessions'']\<rparr>,
    \<lparr>cp_id = ''session.kill'', cp_title = ''Kill session'', cp_version = VersionTag,
      cp_description = ''Drop one NETCONF session by id.'',
      cp_input = None, cp_output = None, cp_scopes = [ScopeNetconfAdmin], cp_mutating = True, cp_idempotent = False,
      cp_restOnly = False, cp_differentBinding = False, cp_rest = [\<lparr>rb_method = ''POST'', rb_path = ''/v1/sessions/{id}:kill''\<rparr>],
      cp_mcp = Some \<lparr>mb_tools = [''netconf_session_kill''], mb_resources = []\<rparr>, cp_methods = [''KillSession'']\<rparr>,
    \<lparr>cp_id = ''notifications.list'', cp_title = ''List notifications'', cp_version = VersionTag,
      cp_description = ''In-process RFC 5277 config-change records.'',
      cp_input = None, cp_output = None, cp_scopes = [ScopeNetconfRead], cp_mutating = False, cp_idempotent = True,
      cp_restOnly = False, cp_differentBinding = False, cp_rest = [\<lparr>rb_method = ''GET'', rb_path = ''/v1/notifications''\<rparr>],
      cp_mcp = Some \<lparr>mb_tools = [''netconf_notifications_list''], mb_resources = []\<rparr>, cp_methods = [''ListNotifications'']\<rparr>,
    \<lparr>cp_id = ''notifications.get'', cp_title = ''Get notification'', cp_version = VersionTag,
      cp_description = ''One notification by id.'',
      cp_input = None, cp_output = None, cp_scopes = [ScopeNetconfRead], cp_mutating = False, cp_idempotent = True,
      cp_restOnly = False, cp_differentBinding = False, cp_rest = [\<lparr>rb_method = ''GET'', rb_path = ''/v1/notifications/{id}''\<rparr>],
      cp_mcp = Some \<lparr>mb_tools = [''netconf_notification_get''], mb_resources = [''labnetconf://notifications/{id}'']\<rparr>, cp_methods = [''GetNotification'']\<rparr>,
    \<lparr>cp_id = ''notifications.wait'', cp_title = ''Wait for notification'', cp_version = VersionTag,
      cp_description = ''Block until a matching config-change record, timeout, or wipe.'',
      cp_input = None, cp_output = None, cp_scopes = [ScopeNetconfRead], cp_mutating = False, cp_idempotent = True,
      cp_restOnly = False, cp_differentBinding = False, cp_rest = [\<lparr>rb_method = ''POST'', rb_path = ''/v1/notifications:wait''\<rparr>],
      cp_mcp = Some \<lparr>mb_tools = [''netconf_notifications_wait''], mb_resources = []\<rparr>, cp_methods = [''WaitNotification'']\<rparr>,
    \<lparr>cp_id = ''notifications.clear'', cp_title = ''Clear notifications'', cp_version = VersionTag,
      cp_description = ''Drop stored notifications without resetting bootstrap.'',
      cp_input = None, cp_output = None, cp_scopes = [ScopeNetconfWrite], cp_mutating = True, cp_idempotent = False,
      cp_restOnly = False, cp_differentBinding = False, cp_rest = [\<lparr>rb_method = ''POST'', rb_path = ''/v1/notifications:clear''\<rparr>],
      cp_mcp = Some \<lparr>mb_tools = [''netconf_notifications_clear''], mb_resources = []\<rparr>, cp_methods = [''ClearNotifications'']\<rparr>,
    \<lparr>cp_id = ''preview.get'', cp_title = ''Preview get'', cp_version = VersionTag,
      cp_description = ''Evaluate a user + path against running without opening SSH.'',
      cp_input = None, cp_output = None, cp_scopes = [ScopeNetconfRead], cp_mutating = False, cp_idempotent = True,
      cp_restOnly = False, cp_differentBinding = False, cp_rest = [\<lparr>rb_method = ''GET'', rb_path = ''/v1/preview/get''\<rparr>],
      cp_mcp = Some \<lparr>mb_tools = [''netconf_preview_get''], mb_resources = []\<rparr>, cp_methods = [''PreviewGet'']\<rparr>,
    \<lparr>cp_id = ''audit.query'', cp_title = ''Audit query'', cp_version = VersionTag,
      cp_description = ''Recent in-memory mutation events.'',
      cp_input = None, cp_output = None, cp_scopes = [ScopeNetconfAuditRead], cp_mutating = False, cp_idempotent = True,
      cp_restOnly = False, cp_differentBinding = False, cp_rest = [\<lparr>rb_method = ''GET'', rb_path = ''/v1/audit''\<rparr>],
      cp_mcp = Some \<lparr>mb_tools = [''netconf_audit_query''], mb_resources = []\<rparr>, cp_methods = [''QueryAudit'']\<rparr>,
    \<lparr>cp_id = ''metrics.get'', cp_title = ''Metrics'', cp_version = VersionTag,
      cp_description = ''OpenMetrics scrape of the frozen docs/09 series. Not an MCP tool.'',
      cp_input = None, cp_output = None, cp_scopes = [ScopeNetconfRead], cp_mutating = False, cp_idempotent = True,
      cp_restOnly = True, cp_differentBinding = False, cp_rest = [\<lparr>rb_method = ''GET'', rb_path = ''/v1/metrics''\<rparr>],
      cp_mcp = None, cp_methods = []\<rparr>]"

definition capability_catalog :: "capability list" where
  "capability_catalog = catalog_head @ catalog_tail"

section \<open>Indexes\<close>

record indexes =
  ix_all :: "capability list"
  ix_byID :: "capability gomap"
  ix_byREST :: "capability gomap"
  ix_byTool :: "capability list gomap"
  ix_byRes :: "capability gomap"

text \<open>A panic is \<open>None\<close>.\<close>

fun index_rest :: "capability \<Rightarrow> rest_binding list \<Rightarrow> capability gomap \<Rightarrow> capability gomap option" where
  "index_rest c [] m = Some m"
| "index_rest c (b # bs) m = (if map_of m (RESTRef b) \<noteq> None then None else index_rest c bs (kv_put (RESTRef b) c m))"

definition tools_of :: "capability list gomap \<Rightarrow> string \<Rightarrow> capability list" where
  "tools_of bt t = (case map_of bt t of None \<Rightarrow> [] | Some cs \<Rightarrow> cs)"

definition index_mcp :: "capability \<Rightarrow> indexes \<Rightarrow> indexes" where
  "index_mcp c idx = (case cp_mcp c of
     None \<Rightarrow> idx
   | Some m \<Rightarrow> idx\<lparr>
       ix_byTool := fold (\<lambda>t bt. kv_put t (tools_of bt t @ [c]) bt) (mb_tools m) (ix_byTool idx),
       ix_byRes := fold (\<lambda>r br. if map_of br r \<noteq> None then br else kv_put r c br) (mb_resources m) (ix_byRes idx)\<rparr>)"

fun index_all :: "capability list \<Rightarrow> indexes \<Rightarrow> indexes option" where
  "index_all [] idx = Some idx"
| "index_all (c # cs) idx =
     (if map_of (ix_byID idx) (cp_id c) \<noteq> None then None
      else (case index_rest c (cp_rest c) (ix_byREST idx) of
              None \<Rightarrow> None
            | Some br \<Rightarrow> index_all cs (index_mcp c (idx\<lparr>ix_byID := kv_put (cp_id c) c (ix_byID idx), ix_byREST := br\<rparr>))))"

definition newIndexes :: "capability list \<Rightarrow> indexes option" where
  "newIndexes all = index_all all \<lparr>ix_all = all, ix_byID = [], ix_byREST = [], ix_byTool = [], ix_byRes = []\<rparr>"

definition cap_Lookup :: "indexes \<Rightarrow> string \<Rightarrow> capability option" where
  "cap_Lookup idx ident = map_of (ix_byID idx) ident"

definition LookupREST :: "indexes \<Rightarrow> string \<Rightarrow> string \<Rightarrow> capability option" where
  "LookupREST idx method path = map_of (ix_byREST idx) (RESTRef \<lparr>rb_method = method, rb_path = path\<rparr>)"

definition LookupTool :: "indexes \<Rightarrow> string \<Rightarrow> capability list" where
  "LookupTool idx name = tools_of (ix_byTool idx) name"

definition LookupResource :: "indexes \<Rightarrow> string \<Rightarrow> capability option" where
  "LookupResource idx uri = map_of (ix_byRes idx) uri"

text \<open>Names in the order in which they are first seen.\<close>

fun first_seen :: "string list \<Rightarrow> string list \<Rightarrow> string list" where
  "first_seen seen [] = []"
| "first_seen seen (x # xs) = (if x \<in> set seen then first_seen seen xs else x # first_seen (x # seen) xs)"

definition cap_tools :: "capability \<Rightarrow> string list" where
  "cap_tools c = (case cp_mcp c of None \<Rightarrow> [] | Some m \<Rightarrow> mb_tools m)"

definition cap_resources :: "capability \<Rightarrow> string list" where
  "cap_resources c = (case cp_mcp c of None \<Rightarrow> [] | Some m \<Rightarrow> mb_resources m)"

definition Tools :: "indexes \<Rightarrow> string list" where
  "Tools idx = first_seen [] (concat (map cap_tools (ix_all idx)))"

definition Resources :: "indexes \<Rightarrow> string list" where
  "Resources idx = first_seen [] (concat (map cap_resources (ix_all idx)))"

record discovery =
  dc_name :: string
  dc_version :: string
  dc_description :: string
  dc_mutating :: bool
  dc_idempotent :: bool

definition discovery_of :: "capability \<Rightarrow> string \<Rightarrow> discovery" where
  "discovery_of c name = \<lparr>dc_name = name, dc_version = cp_version c, dc_description = cp_description c, dc_mutating = cp_mutating c,
     dc_idempotent = cp_idempotent c\<rparr>"

fun discover :: "string list \<Rightarrow> (capability \<times> string) list \<Rightarrow> discovery list" where
  "discover seen [] = []"
| "discover seen ((c, n) # rest) = (if n \<in> set seen then discover seen rest else discovery_of c n # discover (n # seen) rest)"

definition discovery_names :: "capability \<Rightarrow> string list" where
  "discovery_names c = (if cp_restOnly c \<or> cap_tools c = [] then [cp_id c] else cap_tools c)"

definition DiscoveryList :: "indexes \<Rightarrow> discovery list" where
  "DiscoveryList idx = discover [] (concat (map (\<lambda>c. map (\<lambda>n. (c, n)) (discovery_names c)) (ix_all idx)))"

definition tool_defect :: "capability \<Rightarrow> string \<Rightarrow> string option" where
  "tool_defect c t =
    (if prefix ''labnetconf_'' t then Some (cp_id c @ '': tool '' @ t @ '' must use netconf_ prefix, not labnetconf_'')
     else if \<not> prefix ''netconf_'' t then Some (cp_id c @ '': tool '' @ t @ '' must use netconf_ prefix'')
     else None)"

definition row_defect :: "cfglib \<Rightarrow> capability \<Rightarrow> string option" where
  "row_defect K c =
    (if cp_id c = [] \<or> cp_title c = [] \<or> cp_version c = [] then Some (''capability '' @ cf_quote K (cp_id c) @ '' missing id/title/version'')
     else if cp_rest c = [] then Some (cp_id c @ '': no REST binding'')
     else if cp_restOnly c then
       (if cap_tools c \<noteq> [] \<or> cap_resources c \<noteq> [] then Some (cp_id c @ '': REST-only row must not declare MCP tools/resources'') else None)
     else if cp_differentBinding c then
       (if cap_tools c = [] \<and> cap_resources c = [] then Some (cp_id c @ '': different-binding row needs MCP tools or resources'') else None)
     else if cap_tools c = [] then Some (cp_id c @ '': missing MCP tool'')
     else (case first_err (tool_defect c) (cap_tools c) of
             Some err \<Rightarrow> Some err
           | None \<Rightarrow> first_err (\<lambda>r. if \<not> prefix ''labnetconf://'' r then Some (cp_id c @ '': resource '' @ r @ '' must use labnetconf://'') else None)
               (cap_resources c)))"

definition ValidateCatalog :: "cfglib \<Rightarrow> capability list \<Rightarrow> string option" where
  "ValidateCatalog K all =
    (if length all \<noteq> TableRowCount then Some (''catalog has '' @ itoa (int (length all)) @ '' rows, want '' @ itoa (int TableRowCount))
     else first_err (row_defect K) all)"

section \<open>Features\<close>

record feature =
  ft_id :: string
  ft_apply :: string
  ft_path :: string

abbreviation FeatureApplyLive :: string where "FeatureApplyLive \<equiv> ''live''"
abbreviation FeatureApplyResetOnly :: string where "FeatureApplyResetOnly \<equiv> ''reset-only''"

definition Features :: "feature list" where
  "Features = [
    \<lparr>ft_id = ''replaceProfiles'', ft_apply = FeatureApplyLive, ft_path = ''spec.profiles''\<rparr>,
    \<lparr>ft_id = ''upsertProfile'', ft_apply = FeatureApplyLive, ft_path = ''spec.profiles''\<rparr>,
    \<lparr>ft_id = ''removeProfile'', ft_apply = FeatureApplyLive, ft_path = ''spec.profiles''\<rparr>,
    \<lparr>ft_id = ''replaceUsers'', ft_apply = FeatureApplyLive, ft_path = ''spec.users''\<rparr>,
    \<lparr>ft_id = ''upsertUser'', ft_apply = FeatureApplyLive, ft_path = ''spec.users''\<rparr>,
    \<lparr>ft_id = ''removeUser'', ft_apply = FeatureApplyLive, ft_path = ''spec.users''\<rparr>,
    \<lparr>ft_id = ''replaceAdmission'', ft_apply = FeatureApplyLive, ft_path = ''spec.admission''\<rparr>,
    \<lparr>ft_id = ''replaceNetconfCaps'', ft_apply = FeatureApplyLive, ft_path = ''spec.netconf.versions''\<rparr>,
    \<lparr>ft_id = ''replaceObservability'', ft_apply = FeatureApplyLive, ft_path = ''spec.observability''\<rparr>,
    \<lparr>ft_id = ''listeners.netconf.address'', ft_apply = FeatureApplyResetOnly, ft_path = ''spec.listeners.netconf.address''\<rparr>,
    \<lparr>ft_id = ''listeners.restconf.address'', ft_apply = FeatureApplyResetOnly, ft_path = ''spec.listeners.restconf.address''\<rparr>,
    \<lparr>ft_id = ''listeners.management.address'', ft_apply = FeatureApplyResetOnly, ft_path = ''spec.listeners.management.address''\<rparr>,
    \<lparr>ft_id = ''listeners.netconf.hostKeyFile'', ft_apply = FeatureApplyResetOnly, ft_path = ''spec.listeners.netconf.hostKeyFile''\<rparr>,
    \<lparr>ft_id = ''auth'', ft_apply = FeatureApplyResetOnly, ft_path = ''spec.auth''\<rparr>,
    \<lparr>ft_id = ''tls'', ft_apply = FeatureApplyResetOnly, ft_path = ''spec.listeners.restconf.tls''\<rparr>,
    \<lparr>ft_id = ''callHome'', ft_apply = FeatureApplyResetOnly, ft_path = ''spec.listeners.callHome''\<rparr>,
    \<lparr>ft_id = ''netconfTls'', ft_apply = FeatureApplyResetOnly, ft_path = ''spec.listeners.netconfTls''\<rparr>,
    \<lparr>ft_id = ''ui.enabled'', ft_apply = FeatureApplyResetOnly, ft_path = ''spec.ui.enabled''\<rparr>]"

definition FeatureIDs :: "string list" where
  "FeatureIDs = map ft_id Features"

section \<open>Errors\<close>

abbreviation ProblemTypePrefix :: string where "ProblemTypePrefix \<equiv> ''urn:labnetconf:error:''"

record mapping =
  mp_status :: nat
  mp_rpc :: int
  mp_title :: string

definition errorMap :: "mapping gomap" where
  "errorMap = [
    (CodeValidationFailed, \<lparr>mp_status = 400, mp_rpc = -32602, mp_title = ''Validation failed''\<rparr>),
    (CodeUnknownField, \<lparr>mp_status = 400, mp_rpc = -32602, mp_title = ''Unknown field''\<rparr>),
    (CodeReservedKey, \<lparr>mp_status = 400, mp_rpc = -32602, mp_title = ''Reserved key''\<rparr>),
    (CodeImmutableField, \<lparr>mp_status = 400, mp_rpc = -32602, mp_title = ''Immutable field''\<rparr>),
    (CodeRevisionMismatch, \<lparr>mp_status = 409, mp_rpc = -32009, mp_title = ''Revision mismatch''\<rparr>),
    (CodeNotFound, \<lparr>mp_status = 404, mp_rpc = -32004, mp_title = ''Not Found''\<rparr>),
    (CodeLockDenied, \<lparr>mp_status = 409, mp_rpc = -32009, mp_title = ''Lock denied''\<rparr>),
    (CodeNotWritable, \<lparr>mp_status = 403, mp_rpc = -32003, mp_title = ''Not writable''\<rparr>),
    (CodeWaitTimeout, \<lparr>mp_status = 504, mp_rpc = -32010, mp_title = ''Wait timeout''\<rparr>),
    (CodeStoreWiped, \<lparr>mp_status = 409, mp_rpc = -32009, mp_title = ''Store wiped''\<rparr>),
    (CodeUnauthorized, \<lparr>mp_status = 401, mp_rpc = -32001, mp_title = ''Unauthorized''\<rparr>),
    (CodeForbidden, \<lparr>mp_status = 403, mp_rpc = -32003, mp_title = ''Forbidden''\<rparr>),
    (CodeOriginNotAllowed, \<lparr>mp_status = 403, mp_rpc = -32003, mp_title = ''Origin not allowed''\<rparr>),
    (CodeTLSUnsupported, \<lparr>mp_status = 400, mp_rpc = -32602, mp_title = ''TLS unsupported''\<rparr>),
    (CodeCallHomeUnsupported, \<lparr>mp_status = 400, mp_rpc = -32602, mp_title = ''Call-home unsupported''\<rparr>),
    (CodeCandidateDirty, \<lparr>mp_status = 409, mp_rpc = -32009, mp_title = ''Candidate dirty''\<rparr>)]"

definition lookupMapping :: "code \<Rightarrow> mapping" where
  "lookupMapping c = (case map_of errorMap c of Some m \<Rightarrow> m | None \<Rightarrow> \<lparr>mp_status = 500, mp_rpc = -32603, mp_title = ''Internal error''\<rparr>)"

definition ProblemTypeURN :: "code \<Rightarrow> string" where
  "ProblemTypeURN c = (if c = [] then ProblemTypePrefix @ ''internal''
     else ProblemTypePrefix @ map (\<lambda>x. if x = CHR ''_'' then CHR ''-'' else x) c)"

definition HTTPStatus :: "code \<Rightarrow> nat" where
  "HTTPStatus c = mp_status (lookupMapping c)"

record problem =
  pb_type :: string
  pb_title :: string
  pb_status :: nat
  pb_detail :: string
  pb_instance :: string
  pb_code :: code
  pb_retryable :: bool
  pb_violations :: "field_violation list"
  pb_revision :: string
  pb_remediation :: string

definition ProblemFrom :: "goerr \<Rightarrow> string \<Rightarrow> problem" where
  "ProblemFrom err inst = (case err_as err of
     None \<Rightarrow> \<lparr>pb_type = ProblemTypeURN [], pb_title = ''Internal error'', pb_status = 500, pb_detail = ''internal error'', pb_instance = inst,
       pb_code = [], pb_retryable = False, pb_violations = [], pb_revision = [], pb_remediation = []\<rparr>
   | Some de \<Rightarrow>
       (let m = lookupMapping (e_code de) in
        \<lparr>pb_type = ProblemTypeURN (e_code de), pb_title = mp_title m, pb_status = mp_status m, pb_detail = e_message de, pb_instance = inst,
         pb_code = e_code de, pb_retryable = e_retryable de, pb_violations = e_violations de, pb_revision = e_revision de,
         pb_remediation = e_remediation de\<rparr>))"

record jsonrpc_error =
  je_code :: int
  je_message :: string
  je_data :: "derr option"

definition JSONRPCFrom :: "goerr \<Rightarrow> jsonrpc_error" where
  "JSONRPCFrom err = (case err_as err of
     None \<Rightarrow> \<lparr>je_code = -32603, je_message = ''internal error'', je_data = None\<rparr>
   | Some de \<Rightarrow> \<lparr>je_code = mp_rpc (lookupMapping (e_code de)),
       je_message = (if e_message de = [] then mp_title (lookupMapping (e_code de)) else e_message de), je_data = Some de\<rparr>)"

record catalog_entry =
  ce_code :: code
  ce_status :: nat
  ce_retryable :: bool
  ce_title :: string

text \<open>The rows of the error document.\<close>

definition error_catalog :: "catalog_entry list" where
  "error_catalog = map (\<lambda>c. \<lparr>ce_code = c, ce_status = HTTPStatus c, ce_retryable = Retryable c, ce_title = mp_title (lookupMapping c)\<rparr>) Codes"

section \<open>The table is sound\<close>

lemma catalog_distinct:
  "distinct (map cp_id capability_catalog)" "distinct (concat (map (\<lambda>c. map RESTRef (cp_rest c)) capability_catalog))"
  by code_simp+

definition row_ok :: "capability \<Rightarrow> bool" where
  "row_ok c \<longleftrightarrow> cp_id c \<noteq> [] \<and> cp_title c \<noteq> [] \<and> cp_version c \<noteq> [] \<and> cp_rest c \<noteq> [] \<and> \<not> cp_differentBinding c
     \<and> (if cp_restOnly c then cap_tools c = [] \<and> cap_resources c = []
        else cap_tools c \<noteq> [] \<and> list_all (\<lambda>t. prefix ''netconf_'' t) (cap_tools c) \<and> list_all (\<lambda>r. prefix ''labnetconf://'' r) (cap_resources c))"

lemma row_ok_no_defect: "row_ok c \<Longrightarrow> row_defect K c = None"
proof -
  assume ok: "row_ok c"
  have "tool_defect c t = None" if "prefix ''netconf_'' t" for t using that by (auto simp: tool_defect_def prefix_def)
  then have t: "\<not> cp_restOnly c \<Longrightarrow> first_err (tool_defect c) (cap_tools c) = None" using ok by (auto simp: row_ok_def list_all_iff)
  have r: "\<not> cp_restOnly c \<Longrightarrow> first_err (\<lambda>r. if \<not> prefix ''labnetconf://'' r then Some (cp_id c @ '': resource '' @ r @ '' must use labnetconf://'') else None) (cap_resources c) = None"
    using ok by (simp add: row_ok_def list_all_iff)
  from ok show ?thesis by (simp add: row_ok_def row_defect_def t r split: if_splits)
qed

lemma catalog_rows: "ValidateCatalog K capability_catalog = None"
proof -
  have "list_all row_ok capability_catalog" by code_simp
  moreover have "length capability_catalog = TableRowCount" by code_simp
  ultimately show ?thesis by (auto simp: ValidateCatalog_def list_all_iff row_ok_no_defect)
qed

lemma index_rest_map:
  assumes "distinct (map RESTRef bs)" and "RESTRef ` set bs \<inter> dom (map_of m) = {}"
  shows "\<exists>m'. index_rest c bs m = Some m' \<and> map_of m' = (\<lambda>k. if k \<in> RESTRef ` set bs then Some c else map_of m k)"
  using assms
proof (induction bs arbitrary: m)
  case (Cons b bs)
  then have "RESTRef ` set bs \<inter> dom (map_of (kv_put (RESTRef b) c m)) = {}" by auto
  from Cons.IH [OF _ this] Cons.prems(1) obtain m' where "index_rest c bs (kv_put (RESTRef b) c m) = Some m'"
    "map_of m' = (\<lambda>k. if k \<in> RESTRef ` set bs then Some c else map_of (kv_put (RESTRef b) c m) k)" by auto
  moreover have "map_of m (RESTRef b) = None" using Cons.prems(2) by (auto simp: domIff)
  ultimately show ?case by auto
qed auto

lemma tools_of_put [simp]: "tools_of (kv_put x cs bt) t = (if t = x then cs else tools_of bt t)"
  by (auto simp: tools_of_def)

lemma tools_kept: "c \<in> set (tools_of bt t) \<Longrightarrow> c \<in> set (tools_of (fold (\<lambda>t bt. kv_put t (tools_of bt t @ [d]) bt) ts bt) t)"
proof (induction ts arbitrary: bt)
  case (Cons x xs)
  have "c \<in> set (tools_of (kv_put x (tools_of bt x @ [d]) bt) t)" using Cons.prems by auto
  from Cons.IH [OF this] show ?case by simp
qed simp

lemma tools_added: "t \<in> set ts \<Longrightarrow> d \<in> set (tools_of (fold (\<lambda>t bt. kv_put t (tools_of bt t @ [d]) bt) ts bt) t)"
proof (induction ts arbitrary: bt)
  case (Cons x xs)
  show ?case
  proof (cases "t \<in> set xs")
    case False
    with Cons.prems have "t = x" by simp
    then show ?thesis using tools_kept [of d "kv_put x (tools_of bt x @ [d]) bt" x d xs] by simp
  qed (use Cons.IH in simp)
qed simp

lemma index_mcp_frame [simp]: "ix_byID (index_mcp c idx) = ix_byID idx" "ix_byREST (index_mcp c idx) = ix_byREST idx" "ix_all (index_mcp c idx) = ix_all idx"
  by (simp_all add: index_mcp_def split: option.split)

lemma index_mcp_tools:
  "c \<in> set (LookupTool idx t) \<Longrightarrow> c \<in> set (LookupTool (index_mcp d idx) t)" "t \<in> set (cap_tools d) \<Longrightarrow> d \<in> set (LookupTool (index_mcp d idx) t)"
  using tools_kept [of c "ix_byTool idx" t] tools_added [of t]
  by (auto simp: LookupTool_def index_mcp_def cap_tools_def split: option.split)

lemma index_all_lookup:
  assumes "distinct (map cp_id cs)" and "distinct (concat (map (\<lambda>c. map RESTRef (cp_rest c)) cs))"
    and "cp_id ` set cs \<inter> dom (map_of (ix_byID idx)) = {}" and "set (concat (map (\<lambda>c. map RESTRef (cp_rest c)) cs)) \<inter> dom (map_of (ix_byREST idx)) = {}"
  shows "\<exists>idx'. index_all cs idx = Some idx' \<and> ix_all idx' = ix_all idx
    \<and> (\<forall>k c. map_of (ix_byID idx) k = Some c \<longrightarrow> map_of (ix_byID idx') k = Some c)
    \<and> (\<forall>k c. map_of (ix_byREST idx) k = Some c \<longrightarrow> map_of (ix_byREST idx') k = Some c)
    \<and> (\<forall>t c. c \<in> set (LookupTool idx t) \<longrightarrow> c \<in> set (LookupTool idx' t))
    \<and> (\<forall>c \<in> set cs. map_of (ix_byID idx') (cp_id c) = Some c \<and> (\<forall>b \<in> set (cp_rest c). map_of (ix_byREST idx') (RESTRef b) = Some c)
         \<and> (\<forall>t \<in> set (cap_tools c). c \<in> set (LookupTool idx' t)))"
  using assms
proof (induction cs arbitrary: idx)
  case (Cons c cs)
  have d: "distinct (map RESTRef (cp_rest c))" "RESTRef ` set (cp_rest c) \<inter> dom (map_of (ix_byREST idx)) = {}" using Cons.prems by auto
  from index_rest_map [OF d, of c] obtain br where br: "index_rest c (cp_rest c) (ix_byREST idx) = Some br"
    "map_of br = (\<lambda>k. if k \<in> RESTRef ` set (cp_rest c) then Some c else map_of (ix_byREST idx) k)" by blast
  define idx1 where "idx1 = index_mcp c (idx\<lparr>ix_byID := kv_put (cp_id c) c (ix_byID idx), ix_byREST := br\<rparr>)"
  have f: "ix_all idx1 = ix_all idx" "map_of (ix_byID idx1) = (map_of (ix_byID idx))(cp_id c \<mapsto> c)" "map_of (ix_byREST idx1) = map_of br"
    by (simp_all add: idx1_def)
  have t: "\<And>t x. x \<in> set (LookupTool idx t) \<Longrightarrow> x \<in> set (LookupTool idx1 t)" "\<And>t. t \<in> set (cap_tools c) \<Longrightarrow> c \<in> set (LookupTool idx1 t)"
    using index_mcp_tools(1) [of _ "idx\<lparr>ix_byID := kv_put (cp_id c) c (ix_byID idx), ix_byREST := br\<rparr>" _ c]
      index_mcp_tools(2) [of _ c "idx\<lparr>ix_byID := kv_put (cp_id c) c (ix_byID idx), ix_byREST := br\<rparr>"] by (simp_all add: idx1_def LookupTool_def)
  have "cp_id ` set cs \<inter> dom (map_of (ix_byID idx1)) = {}" using Cons.prems by (auto simp: f)
  moreover have "set (concat (map (\<lambda>c. map RESTRef (cp_rest c)) cs)) \<inter> dom (map_of (ix_byREST idx1)) = {}"
  proof -
    have "dom (map_of br) \<subseteq> RESTRef ` set (cp_rest c) \<union> dom (map_of (ix_byREST idx))" by (auto simp: br(2) split: if_splits)
    moreover have "RESTRef ` set (cp_rest c) \<inter> set (concat (map (\<lambda>c. map RESTRef (cp_rest c)) cs)) = {}" using Cons.prems(2) by simp
    moreover have "set (concat (map (\<lambda>c. map RESTRef (cp_rest c)) cs)) \<inter> dom (map_of (ix_byREST idx)) = {}" using Cons.prems(4) by auto
    ultimately show ?thesis unfolding f(3) by blast
  qed
  ultimately obtain idx' where i: "index_all cs idx1 = Some idx'" "ix_all idx' = ix_all idx1"
      "\<And>k c. map_of (ix_byID idx1) k = Some c \<Longrightarrow> map_of (ix_byID idx') k = Some c"
      "\<And>k c. map_of (ix_byREST idx1) k = Some c \<Longrightarrow> map_of (ix_byREST idx') k = Some c"
      "\<And>t c. c \<in> set (LookupTool idx1 t) \<Longrightarrow> c \<in> set (LookupTool idx' t)"
      "\<forall>c \<in> set cs. map_of (ix_byID idx') (cp_id c) = Some c \<and> (\<forall>b \<in> set (cp_rest c). map_of (ix_byREST idx') (RESTRef b) = Some c)
         \<and> (\<forall>t \<in> set (cap_tools c). c \<in> set (LookupTool idx' t))"
    using Cons.IH [of idx1] Cons.prems(1,2) by auto
  have "map_of (ix_byID idx) (cp_id c) = None" using Cons.prems(3) by (auto simp: domIff)
  then have "index_all (c # cs) idx = Some idx'" using br(1) i(1) by (simp add: idx1_def)
  moreover have "map_of (ix_byID idx') k = Some x" if "map_of (ix_byID idx) k = Some x" for k x
    using that Cons.prems(3) by (intro i(3)) (auto simp: f domIff)
  moreover have "map_of (ix_byREST idx') k = Some x" if "map_of (ix_byREST idx) k = Some x" for k x
    using that d(2) by (intro i(4)) (auto simp: f br(2) domIff)
  ultimately show ?case using i f t br(2) by auto
qed simp

lemma RESTRef_parts [simp]: "RESTRef \<lparr>rb_method = rb_method b, rb_path = rb_path b\<rparr> = RESTRef b"
  by (simp add: RESTRef_def)

text \<open>The capability registry is sound: its construction does not panic, the table passes the checks of the start-up,
  and every row is found by its identifier, by each of its REST bindings and by each of its tools.\<close>

theorem registry_sound:
  "\<exists>idx. newIndexes capability_catalog = Some idx \<and> ValidateCatalog K capability_catalog = None \<and> ix_all idx = capability_catalog
    \<and> list_all (\<lambda>c. cap_Lookup idx (cp_id c) = Some c \<and> list_all (\<lambda>b. LookupREST idx (rb_method b) (rb_path b) = Some c) (cp_rest c)
        \<and> list_all (\<lambda>t. list_ex (\<lambda>d. d = c) (LookupTool idx t)) (cap_tools c)) capability_catalog"
  using index_all_lookup [OF catalog_distinct, of "\<lparr>ix_all = capability_catalog, ix_byID = [], ix_byREST = [], ix_byTool = [], ix_byRes = []\<rparr>"] catalog_rows [of K]
  by (auto simp: newIndexes_def cap_Lookup_def LookupREST_def list_all_iff list_ex_iff)

section \<open>Roles and capabilities\<close>

lemma authorized_iff: "AuthorizeScopes scopes required = None \<longleftrightarrow> (\<forall>w \<in> set required. w = [] \<or> w \<in> set scopes)"
  by (induction required) (auto simp: HasScope_def list_ex_iff)

text \<open>What a role may do: an administrator is authorized for every capability of the table; a reader for exactly those that
  need no more than read access, and of the mutating ones only for opening and closing its own management session.\<close>

theorem roles_authorize:
  "list_all (\<lambda>c. AuthorizeScopes (DefaultScopes RoleAdministrator) (cp_scopes c) = None
      \<and> (AuthorizeScopes (DefaultScopes RoleReader) (cp_scopes c) = None) = (cp_scopes c = [] \<or> cp_scopes c = [ScopeNetconfRead])
      \<and> (if cp_mutating c \<and> AuthorizeScopes (DefaultScopes RoleReader) (cp_scopes c) = None then cp_id c = ''session.create'' \<or> cp_id c = ''session.delete'' else True))
    capability_catalog"
  by code_simp

text \<open>The catalog of features agrees with the service: the operations that \<open>Apply\<close> knows are exactly the features listed as live.\<close>

theorem live_features_are_operations:
  "KnownOp oper = list_ex (\<lambda>f. ft_id f = oper \<and> ft_apply f = FeatureApplyLive) Features"
proof -
  have "map ft_id (filter (\<lambda>f. ft_apply f = FeatureApplyLive) Features) = [OpReplaceProfiles, OpUpsertProfile, OpRemoveProfile, OpReplaceUsers, OpUpsertUser,
      OpRemoveUser, OpReplaceAdmission, OpReplaceNetconfCaps, OpReplaceObservability]" by code_simp
  then have "set (map ft_id (filter (\<lambda>f. ft_apply f = FeatureApplyLive) Features)) = {OpReplaceProfiles, OpUpsertProfile, OpRemoveProfile, OpReplaceUsers, OpUpsertUser,
      OpRemoveUser, OpReplaceAdmission, OpReplaceNetconfCaps, OpReplaceObservability}" by (simp only: list.set)
  moreover have "list_ex (\<lambda>f. ft_id f = oper \<and> ft_apply f = FeatureApplyLive) Features = (oper \<in> set (map ft_id (filter (\<lambda>f. ft_apply f = FeatureApplyLive) Features)))"
    by (auto simp: list_ex_iff)
  ultimately show ?thesis by (simp only: KnownOp_def)
qed

text \<open>Every error code of the domain has a status of its own in the management plane: no code of the catalog is reported as
  an internal error, and retryable errors are conflicts or timeouts.\<close>

theorem error_codes_mapped:
  "list_all (\<lambda>e. ce_status e \<noteq> 500 \<and> ce_title e \<noteq> [] \<and> (if ce_retryable e then ce_status e = 409 \<or> ce_status e = 504 else True)) error_catalog"
  by code_simp

end
