(* ===== verification/Control_Mux.thy ===== *)
theory Control_Mux
  imports Restconf Capabilities
begin

text \<open>
  Package \<open>rest\<close> of the management plane, \<open>mux.go\<close>: the REST bindings of the capability table are compiled to routes,
  whose segments are literal or have a wildcard between a literal head and tail, and a request is matched against
  them. A panic is \<open>None\<close>. The theory shows that the routes of the table never make the matching panic and never
  hide each other.
\<close>

section \<open>Routes\<close>

record pathSeg =
  pg_wild :: string
  pg_lit :: string
  pg_suffix :: string

record compiledRoute =
  cr_method :: string
  cr_path :: string
  cr_segs :: "pathSeg list"
  cr_cap :: capability
  cr_binding :: rest_binding

text \<open>\<open>strings.ToUpper\<close>: byte by byte on ASCII, the library's on other text.\<close>

definition ascii_upper :: "char \<Rightarrow> char" where
  "ascii_upper c = (if 97 \<le> byte c \<and> byte c \<le> 122 then char_of (byte c - 32 :: nat) else c)"

definition ToUpper :: "(string \<Rightarrow> string) \<Rightarrow> string \<Rightarrow> string" where
  "ToUpper up s = (if list_all (\<lambda>c. byte c < 128) s then map ascii_upper s else up s)"

definition IndexByte :: "string \<Rightarrow> char \<Rightarrow> nat option" where
  "IndexByte s c = (if c \<in> set s then Some (length (takeWhile (\<lambda>x. x \<noteq> c) s)) else None)"

definition trim_slash :: "string \<Rightarrow> string" where
  "trim_slash p = (case p of [] \<Rightarrow> [] | c # cs \<Rightarrow> if c = CHR ''/'' then cs else p)"

definition compile_seg :: "string \<Rightarrow> pathSeg" where
  "compile_seg p = (case (IndexByte p (CHR ''{''), IndexByte p (CHR ''}'')) of
     (Some i, Some j) \<Rightarrow>
       if j > i then \<lparr>pg_wild = take (j - (i + 1)) (drop (i + 1) p), pg_lit = take i p, pg_suffix = drop (j + 1) p\<rparr>
       else \<lparr>pg_wild = [], pg_lit = p, pg_suffix = []\<rparr>
   | _ \<Rightarrow> \<lparr>pg_wild = [], pg_lit = p, pg_suffix = []\<rparr>)"

definition compilePath :: "string \<Rightarrow> pathSeg list" where
  "compilePath path =
    (let path = trim_slash path in
     if path = [] then [] else map compile_seg (split_byte (CHR ''/'') path))"

definition compileRoutes :: "(string \<Rightarrow> string) \<Rightarrow> capability list \<Rightarrow> compiledRoute list" where
  "compileRoutes up caps =
    concat (map (\<lambda>c. map (\<lambda>b. \<lparr>cr_method = ToUpper up (rb_method b), cr_path = rb_path b, cr_segs = compilePath (rb_path b),
      cr_cap = c, cr_binding = b\<rparr>) (cp_rest c)) caps)"

section \<open>Matching\<close>

text \<open>The loop over the segments; cutting a value out of a part that is shorter than head and tail together panics.\<close>

fun match_parts :: "pathSeg list \<Rightarrow> string list \<Rightarrow> string gomap \<Rightarrow> string gomap option option" where
  "match_parts (seg # segs) (p # parts) params =
    (if pg_wild seg = [] then if p \<noteq> pg_lit seg then Some None else match_parts segs parts params
     else if \<not> prefix (pg_lit seg) p \<or> \<not> suffix (pg_suffix seg) p then Some None
     else if length p < length (pg_lit seg) + length (pg_suffix seg) then None
     else
       (let v = take (length p - length (pg_suffix seg) - length (pg_lit seg)) (drop (length (pg_lit seg)) p)
        in if v = [] then Some None else match_parts segs parts (kv_put (pg_wild seg) v params)))"
| "match_parts segs parts params = Some (Some params)"

definition path_parts :: "string \<Rightarrow> string list" where
  "path_parts path = (let path = trim_slash path in if path = [] then [] else split_byte (CHR ''/'') path)"

definition matchSegs :: "pathSeg list \<Rightarrow> string \<Rightarrow> string gomap option option" where
  "matchSegs segs path =
    (if length (path_parts path) \<noteq> length segs then Some None else match_parts segs (path_parts path) [])"

text \<open>No route has the path; routes have it, but none with the method; or a route with its parameters.\<close>

datatype routed = NoRoute | PathOnly compiledRoute | Routed compiledRoute "string gomap"

fun match_routes :: "string \<Rightarrow> string \<Rightarrow> routed \<Rightarrow> compiledRoute list \<Rightarrow> routed option" where
  "match_routes meth path hit [] = Some hit"
| "match_routes meth path hit (rt # rts) = (case matchSegs (cr_segs rt) path of
     None \<Rightarrow> None
   | Some None \<Rightarrow> match_routes meth path hit rts
   | Some (Some params) \<Rightarrow> if cr_method rt = meth then Some (Routed rt params) else match_routes meth path (PathOnly rt) rts)"

definition matchRoute :: "(string \<Rightarrow> string) \<Rightarrow> compiledRoute list \<Rightarrow> string \<Rightarrow> string \<Rightarrow> routed option" where
  "matchRoute up routes meth path = match_routes (ToUpper up meth) path NoRoute routes"

fun allowed_list :: "string \<Rightarrow> string list \<Rightarrow> compiledRoute list \<Rightarrow> string list option" where
  "allowed_list path seen [] = Some []"
| "allowed_list path seen (rt # rts) = (case matchSegs (cr_segs rt) path of
     None \<Rightarrow> None
   | Some None \<Rightarrow> allowed_list path seen rts
   | Some (Some _) \<Rightarrow>
       if cr_method rt \<in> set seen then allowed_list path seen rts
       else map_option ((#) (cr_method rt)) (allowed_list path (cr_method rt # seen) rts))"

fun join_comma :: "string list \<Rightarrow> string" where
  "join_comma [] = []"
| "join_comma [s] = s"
| "join_comma (s # t # ss) = s @ '', '' @ join_comma (t # ss)"

definition allowedMethods :: "compiledRoute list \<Rightarrow> string \<Rightarrow> string option" where
  "allowedMethods routes path = map_option join_comma (allowed_list path [] routes)"

definition routes_of :: "(string \<Rightarrow> string) \<Rightarrow> compiledRoute list" where
  "routes_of up = compileRoutes up capability_catalog"

section \<open>Routes that do not hide each other\<close>

text \<open>No part of a path fits both segments.\<close>

definition apart :: "pathSeg \<Rightarrow> pathSeg \<Rightarrow> bool" where
  "apart s t \<longleftrightarrow>
    (if pg_wild s = [] then
       (if pg_wild t = [] then pg_lit s \<noteq> pg_lit t else \<not> prefix (pg_lit t) (pg_lit s) \<or> \<not> suffix (pg_suffix t) (pg_lit s))
     else if pg_wild t = [] then \<not> prefix (pg_lit s) (pg_lit t) \<or> \<not> suffix (pg_suffix s) (pg_lit t)
     else (\<not> prefix (pg_lit s) (pg_lit t) \<and> \<not> prefix (pg_lit t) (pg_lit s)) \<or> (\<not> suffix (pg_suffix s) (pg_suffix t) \<and> \<not> suffix (pg_suffix t) (pg_suffix s)))"

definition segs_apart :: "pathSeg list \<Rightarrow> pathSeg list \<Rightarrow> bool" where
  "segs_apart ss ts \<longleftrightarrow> length ss \<noteq> length ts \<or> list_ex (\<lambda>(s, t). apart s t) (zip ss ts)"

fun unambiguous :: "(string \<times> pathSeg list) list \<Rightarrow> bool" where
  "unambiguous [] = True"
| "unambiguous ((m, segs) # rs) \<longleftrightarrow> list_all (\<lambda>(n, qs). m \<noteq> n \<or> segs_apart segs qs) rs \<and> unambiguous rs"

definition pattern :: "compiledRoute \<Rightarrow> string \<times> pathSeg list" where
  "pattern rt = (cr_method rt, cr_segs rt)"

definition seg_fits :: "pathSeg \<Rightarrow> string \<Rightarrow> bool" where
  "seg_fits s p \<longleftrightarrow> (if pg_wild s = [] then p = pg_lit s else prefix (pg_lit s) p \<and> suffix (pg_suffix s) p)"

lemma apart_disjoint: "apart s t \<Longrightarrow> seg_fits s p \<Longrightarrow> \<not> seg_fits t p"
  by (auto simp: apart_def seg_fits_def split: if_splits dest: prefix_same_cases suffix_same_cases)

lemma match_parts_fits:
  "match_parts segs parts params = Some (Some qs) \<Longrightarrow> length parts = length segs \<Longrightarrow> list_all2 seg_fits segs parts"
  by (induction segs parts params rule: match_parts.induct) (auto simp: seg_fits_def Let_def split: if_splits)

lemma apart_no_match:
  assumes "segs_apart ss ts" and "matchSegs ss path = Some (Some ps)"
  shows "matchSegs ts path \<noteq> Some (Some qs)"
proof
  assume a: "matchSegs ts path = Some (Some qs)"
  with assms(2) have "list_all2 seg_fits ss (path_parts path)" "list_all2 seg_fits ts (path_parts path)"
    by (auto simp: matchSegs_def match_parts_fits split: if_splits)
  then have l: "length ss = length ts" and f: "\<And>i. i < length ss \<Longrightarrow> seg_fits (ss ! i) (path_parts path ! i) \<and> seg_fits (ts ! i) (path_parts path ! i)"
    by (auto simp: list_all2_conv_all_nth)
  with assms(1) obtain i where "i < length ss" "apart (ss ! i) (ts ! i)"
    by (auto simp: segs_apart_def list_ex_iff in_set_zip)
  with f apart_disjoint show False by blast
qed

text \<open>A wildcard with an empty head never makes the cut fail.\<close>

definition seg_safe :: "pathSeg \<Rightarrow> bool" where
  "seg_safe s \<longleftrightarrow> pg_lit s = [] \<or> pg_suffix s = [] \<or> pg_wild s = []"

lemma match_parts_total: "list_all seg_safe segs \<Longrightarrow> match_parts segs parts params \<noteq> None"
  by (induction segs parts params rule: match_parts.induct)
    (auto simp: seg_safe_def Let_def split: if_splits dest: prefix_length_le suffix_length_le)

lemma matchSegs_total: "list_all seg_safe segs \<Longrightarrow> \<exists>r. matchSegs segs path = Some r"
  using match_parts_total by (auto simp: matchSegs_def)

lemma match_routes_unique:
  assumes "unambiguous (map pattern rts)" and "list_all (\<lambda>rt. list_all seg_safe (cr_segs rt)) rts"
    and "rt \<in> set rts" and "matchSegs (cr_segs rt) path = Some (Some ps)"
  shows "match_routes (cr_method rt) path hit rts = Some (Routed rt ps)"
  using assms
proof (induction rts arbitrary: hit)
  case (Cons q rts)
  show ?case
  proof (cases "q = rt")
    case True
    then show ?thesis using Cons.prems(4) by simp
  next
    case False
    then have rt: "rt \<in> set rts" using Cons.prems(3) by simp
    obtain r where r: "matchSegs (cr_segs q) path = Some r" using Cons.prems(2) matchSegs_total [of "cr_segs q" path] by auto
    have IH: "match_routes (cr_method rt) path hit rts = Some (Routed rt ps)" for hit using Cons.IH [of hit] Cons.prems rt by (simp add: pattern_def)
    have "cr_method q \<noteq> cr_method rt \<or> segs_apart (cr_segs q) (cr_segs rt)" using Cons.prems(1) rt by (auto simp: list_all_iff pattern_def)
    then have "cr_method q \<noteq> cr_method rt \<or> r = None" using apart_no_match Cons.prems(4) r by (cases r) auto
    then show ?thesis using r IH by (auto split: option.split)
  qed
qed simp

lemma matchRoute_total:
  assumes "list_all (\<lambda>rt. list_all seg_safe (cr_segs rt)) rts"
  shows "match_routes meth path hit rts \<noteq> None" and "allowed_list path seen rts \<noteq> None"
proof -
  show "match_routes meth path hit rts \<noteq> None" using assms
  proof (induction rts arbitrary: hit)
    case (Cons q rts)
    then obtain r where "matchSegs (cr_segs q) path = Some r" using matchSegs_total [of "cr_segs q" path] by auto
    with Cons show ?case by (auto split: option.split)
  qed simp
  show "allowed_list path seen rts \<noteq> None" using assms
  proof (induction rts arbitrary: seen)
    case (Cons q rts)
    then obtain r where "matchSegs (cr_segs q) path = Some r" using matchSegs_total [of "cr_segs q" path] by auto
    with Cons show ?case by (auto split: option.split)
  qed simp
qed


section \<open>The routes of the table\<close>

definition seg_plain :: "pathSeg \<Rightarrow> bool" where
  "seg_plain s \<longleftrightarrow> CHR ''/'' \<notin> set (pg_lit s) \<and> CHR ''/'' \<notin> set (pg_suffix s)"

definition pattern_ok :: "string \<times> pathSeg list \<Rightarrow> bool" where
  "pattern_ok r = (case snd r of
     [] \<Rightarrow> False
   | s # segs \<Rightarrow> pg_wild s = [] \<and> pg_lit s \<noteq> [] \<and> list_all (\<lambda>s. seg_safe s \<and> seg_plain s) (s # segs))"

definition table_bindings :: "rest_binding list" where
  "table_bindings = concat (map cp_rest capability_catalog)"

definition table_patterns :: "(string \<Rightarrow> string) \<Rightarrow> (string \<times> pathSeg list) list" where
  "table_patterns up = map (\<lambda>b. (ToUpper up (rb_method b), compilePath (rb_path b))) table_bindings"

lemma patterns_ok: "unambiguous (table_patterns up) \<and> list_all pattern_ok (table_patterns up)"
  by code_simp

lemma routes_patterns: "map pattern (routes_of up) = table_patterns up"
  by (simp add: routes_of_def compileRoutes_def table_patterns_def table_bindings_def pattern_def map_concat comp_def)

lemma table_route:
  assumes "rt \<in> set (routes_of up)"
  shows "list_all seg_safe (cr_segs rt)" "list_all seg_plain (cr_segs rt)" "cr_segs rt \<noteq> []" "pg_wild (hd (cr_segs rt)) = []" "pg_lit (hd (cr_segs rt)) \<noteq> []"
proof -
  have "pattern rt \<in> set (table_patterns up)" using assms by (simp flip: routes_patterns)
  then have "pattern_ok (pattern rt)" using patterns_ok [of up] by (simp add: list_all_iff)
  then show "list_all seg_safe (cr_segs rt)" "list_all seg_plain (cr_segs rt)" "cr_segs rt \<noteq> []" "pg_wild (hd (cr_segs rt)) = []" "pg_lit (hd (cr_segs rt)) \<noteq> []"
    by (auto simp: pattern_ok_def pattern_def list_all_iff split: list.splits)
qed

lemma table_routes:
  "unambiguous (map pattern (routes_of up))" "list_all (\<lambda>rt. list_all seg_safe (cr_segs rt)) (routes_of up)"
  using patterns_ok [of up] table_route(1) by (simp_all add: routes_patterns list_all_iff [of _ "routes_of up"])

lemma routes_bind:
  "c \<in> set capability_catalog \<Longrightarrow> b \<in> set (cp_rest c)
    \<Longrightarrow> \<lparr>cr_method = ToUpper up (rb_method b), cr_path = rb_path b, cr_segs = compilePath (rb_path b), cr_cap = c, cr_binding = b\<rparr> \<in> set (routes_of up)"
  by (auto simp: routes_of_def compileRoutes_def)

text \<open>The path of a route with values for its wildcards.\<close>

definition fill_seg :: "(string \<Rightarrow> string) \<Rightarrow> pathSeg \<Rightarrow> string" where
  "fill_seg vals s = (if pg_wild s = [] then pg_lit s else pg_lit s @ vals (pg_wild s) @ pg_suffix s)"

definition fill_path :: "(string \<Rightarrow> string) \<Rightarrow> pathSeg list \<Rightarrow> string" where
  "fill_path vals segs = CHR ''/'' # join_slash (map (fill_seg vals) segs)"

lemma split_join:
  assumes "xs \<noteq> []" and "\<forall>x \<in> set xs. CHR ''/'' \<notin> set x"
  shows "split_byte (CHR ''/'') (join_slash xs) = xs"
proof -
  have one: "split_byte (CHR ''/'') x = [x]" if "CHR ''/'' \<notin> set x" for x using that by (induction x) auto
  have more_parts: "split_byte (CHR ''/'') (x @ CHR ''/'' # y) = x # split_byte (CHR ''/'') y" if "CHR ''/'' \<notin> set x" for x y
    using that by (induction x) auto
  show ?thesis using assms by (induction xs rule: join_slash.induct) (auto simp: one more_parts)
qed

lemma match_filled:
  assumes "list_all seg_safe segs" and "\<forall>s \<in> set segs. pg_wild s \<noteq> [] \<longrightarrow> vals (pg_wild s) \<noteq> []"
  shows "\<exists>ps. match_parts segs (map (fill_seg vals) segs) params = Some (Some ps)
    \<and> (\<forall>w. map_of ps w = (if w \<noteq> [] \<and> w \<in> pg_wild ` set segs then Some (vals w) else map_of params w))"
  using assms
proof (induction segs arbitrary: params)
  case (Cons s segs)
  show ?case
  proof (cases "pg_wild s = []")
    case True
    obtain ps where "match_parts segs (map (fill_seg vals) segs) params = Some (Some ps)"
        "\<forall>w. map_of ps w = (if w \<noteq> [] \<and> w \<in> pg_wild ` set segs then Some (vals w) else map_of params w)"
      using Cons.IH [of params] Cons.prems by auto
    moreover have "fill_seg vals s = pg_lit s" using True by (simp add: fill_seg_def)
    ultimately show ?thesis using True by auto
  next
    case False
    let ?p = "fill_seg vals s"
    have p: "?p = pg_lit s @ vals (pg_wild s) @ pg_suffix s" using False by (simp add: fill_seg_def)
    then have "match_parts (s # segs) (map (fill_seg vals) (s # segs)) params
        = match_parts segs (map (fill_seg vals) segs) (kv_put (pg_wild s) (vals (pg_wild s)) params)"
      using False Cons.prems(2) by (simp add: suffix_def)
    moreover obtain ps where "match_parts segs (map (fill_seg vals) segs) (kv_put (pg_wild s) (vals (pg_wild s)) params) = Some (Some ps)"
        "\<forall>w. map_of ps w = (if w \<noteq> [] \<and> w \<in> pg_wild ` set segs then Some (vals w) else map_of (kv_put (pg_wild s) (vals (pg_wild s)) params) w)"
      using Cons.IH [of "kv_put (pg_wild s) (vals (pg_wild s)) params"] Cons.prems by auto
    ultimately show ?thesis using False by auto
  qed
qed simp

lemma parts_filled:
  assumes "list_all seg_plain segs" and "segs \<noteq> []" and "pg_wild (hd segs) = []" and "pg_lit (hd segs) \<noteq> []"
    and "\<forall>s \<in> set segs. pg_wild s \<noteq> [] \<longrightarrow> CHR ''/'' \<notin> set (vals (pg_wild s))"
  shows "path_parts (fill_path vals segs) = map (fill_seg vals) segs"
proof -
  obtain s ss where segs: "segs = s # ss" using assms(2) by (cases segs) auto
  have "join_slash (map (fill_seg vals) segs) \<noteq> []" using assms(3,4) by (cases ss) (simp_all add: segs fill_seg_def)
  moreover have "\<forall>x \<in> set (map (fill_seg vals) segs). CHR ''/'' \<notin> set x"
    using assms(1,5) by (auto simp: fill_seg_def list_all_iff seg_plain_def)
  ultimately show ?thesis using split_join [of "map (fill_seg vals) segs"] assms(2)
    by (simp add: path_parts_def fill_path_def trim_slash_def)
qed

text \<open>The path of a binding as the table writes it, read apart from the routes: a name in braces stands for a value.\<close>

function template_names :: "string \<Rightarrow> string list" where
  "template_names [] = []"
| "template_names (c # cs) =
    (if c = CHR ''{'' then takeWhile (\<lambda>x. x \<noteq> CHR ''}'') cs # template_names (dropWhile (\<lambda>x. x \<noteq> CHR ''}'') cs) else template_names cs)"
  by pat_completeness auto
termination
  by (relation "measure length") (auto simp: less_Suc_eq_le length_dropWhile_le)

function fill_template :: "(string \<Rightarrow> string) \<Rightarrow> string \<Rightarrow> string" where
  "fill_template vals [] = []"
| "fill_template vals (c # cs) =
    (if c = CHR ''{'' then vals (takeWhile (\<lambda>x. x \<noteq> CHR ''}'') cs) @ fill_template vals (tl (dropWhile (\<lambda>x. x \<noteq> CHR ''}'') cs))
     else c # fill_template vals cs)"
  by pat_completeness auto
termination
proof (relation "measure (length \<circ> snd)")
  show "((vals, tl (dropWhile (\<lambda>x. x \<noteq> CHR ''}'') cs)), vals, c # cs) \<in> measure (length \<circ> snd)" for vals :: "string \<Rightarrow> string" and c cs
    using length_dropWhile_le [of "\<lambda>x. x \<noteq> CHR ''}''" cs] by simp
qed auto

definition table_paths :: "string list" where
  "table_paths =
    [''/v1/audit'', ''/v1/capabilities'', ''/v1/changes:apply'', ''/v1/changes:plan'', ''/v1/datastores/{profile}/{store}'',
     ''/v1/datastores/{profile}/{store}:set'', ''/v1/datastores/{profile}:commit'', ''/v1/datastores/{profile}:discard'', ''/v1/features'',
     ''/v1/health/live'', ''/v1/health/ready'', ''/v1/metrics'', ''/v1/notifications'', ''/v1/notifications/{id}'',
     ''/v1/notifications:clear'', ''/v1/notifications:wait'', ''/v1/preview/get'', ''/v1/profiles'', ''/v1/profiles/{name}'',
     ''/v1/schema/config'', ''/v1/session'', ''/v1/sessions'', ''/v1/sessions/{id}:kill'', ''/v1/state'', ''/v1/state:export'',
     ''/v1/state:reset'', ''/v1/state:validate'', ''/v1/status'', ''/v1/users'', ''/v1/version'']"

lemma paths_listed: "list_all (\<lambda>b. rb_path b \<in> set table_paths) table_bindings"
  by code_simp

lemma paths_named: "list_all (\<lambda>p. set (template_names p) = pg_wild ` set (compilePath p) - {[]}) table_paths"
  by code_simp

lemma paths_filled: "list_all (\<lambda>p. fill_template vals p = fill_path vals (compilePath p)) table_paths"
  by (simp add: table_paths_def compilePath_def trim_slash_def compile_seg_def IndexByte_def fill_path_def fill_seg_def)

lemma binding_path:
  assumes "c \<in> set capability_catalog" and "b \<in> set (cp_rest c)"
  shows "fill_template vals (rb_path b) = fill_path vals (compilePath (rb_path b))"
    and "set (template_names (rb_path b)) = pg_wild ` set (compilePath (rb_path b)) - {[]}"
proof -
  have "b \<in> set table_bindings" using assms by (auto simp: table_bindings_def)
  then have "rb_path b \<in> set table_paths" using paths_listed by (simp add: list_all_iff)
  then show "fill_template vals (rb_path b) = fill_path vals (compilePath (rb_path b))"
    "set (template_names (rb_path b)) = pg_wild ` set (compilePath (rb_path b)) - {[]}"
    using paths_filled [of vals] paths_named by (simp_all add: list_all_iff)
qed

text \<open>C22: Every REST binding of the capability table is served: a request with the method of the binding, in any
  letter case, and with its path, in which any non-empty values without a slash stand for the names in braces, is routed to the
  capability of that binding and carries exactly these values under these names; no other route of the table takes it.\<close>

theorem bindings_are_routed:
  assumes "c \<in> set capability_catalog" and "b \<in> set (cp_rest c)" and "ToUpper up meth = ToUpper up (rb_method b)"
    and "\<forall>n \<in> set (template_names (rb_path b)). vals n \<noteq> [] \<and> CHR ''/'' \<notin> set (vals n)"
  shows "\<exists>rt ps. matchRoute up (routes_of up) meth (fill_template vals (rb_path b)) = Some (Routed rt ps)
    \<and> cr_cap rt = c \<and> cr_binding rt = b
    \<and> (\<forall>n. map_of ps n = (if n \<in> set (template_names (rb_path b)) then Some (vals n) else None))"
proof -
  let ?segs = "compilePath (rb_path b)"
  let ?rt = "\<lparr>cr_method = ToUpper up (rb_method b), cr_path = rb_path b, cr_segs = ?segs, cr_cap = c, cr_binding = b\<rparr>"
  note path = binding_path [OF assms(1,2)]
  have vals: "\<forall>s \<in> set ?segs. pg_wild s \<noteq> [] \<longrightarrow> vals (pg_wild s) \<noteq> [] \<and> CHR ''/'' \<notin> set (vals (pg_wild s))"
    using assms(4) unfolding path(2) by blast
  have rt: "?rt \<in> set (routes_of up)" by (rule routes_bind [OF assms(1,2)])
  have safe: "list_all seg_safe ?segs" and plain: "list_all seg_plain ?segs" and hd: "?segs \<noteq> []" "pg_wild (hd ?segs) = []" "pg_lit (hd ?segs) \<noteq> []"
    using table_route [OF rt] by simp_all
  have parts: "path_parts (fill_path vals ?segs) = map (fill_seg vals) ?segs"
    by (rule parts_filled [OF plain hd]) (use vals in blast)
  obtain ps where ps: "match_parts ?segs (map (fill_seg vals) ?segs) [] = Some (Some ps)"
      "\<forall>w. map_of ps w = (if w \<noteq> [] \<and> w \<in> pg_wild ` set ?segs then Some (vals w) else map_of [] w)"
    using match_filled [OF safe, of vals "[]"] vals by blast
  have "matchSegs (cr_segs ?rt) (fill_path vals ?segs) = Some (Some ps)" using ps(1) parts by (simp add: matchSegs_def)
  from match_routes_unique [OF table_routes rt this, of NoRoute]
  have "matchRoute up (routes_of up) meth (fill_template vals (rb_path b)) = Some (Routed ?rt ps)"
    using assms(3) by (simp add: matchRoute_def path(1))
  then show ?thesis using ps(2) unfolding path(2) by (intro exI [of _ ?rt] exI [of _ ps]) auto
qed

theorem bindings_are_routed_witness:
  "\<exists>rt ps. matchRoute (\<lambda>s. s) (routes_of (\<lambda>s. s)) ''post'' ''/v1/datastores/lab:commit'' = Some (Routed rt ps)
    \<and> cp_id (cr_cap rt) = ''datastore.commit'' \<and> map_of ps ''profile'' = Some ''lab''"
proof -
  let ?b = "\<lparr>rb_method = ''POST'', rb_path = ''/v1/datastores/{profile}:commit''\<rparr>"
  have "\<exists>c \<in> set capability_catalog. cp_id c = ''datastore.commit'' \<and> ?b \<in> set (cp_rest c)" by code_simp
  then obtain c where c: "c \<in> set capability_catalog" "cp_id c = ''datastore.commit''" "?b \<in> set (cp_rest c)" by blast
  have "ToUpper (\<lambda>s. s) ''post'' = ToUpper (\<lambda>s. s) (rb_method ?b)" by code_simp
  moreover have "\<forall>n \<in> set (template_names (rb_path ?b)). ''lab'' \<noteq> [] \<and> CHR ''/'' \<notin> set ''lab''" by simp
  moreover have "fill_template (\<lambda>_. ''lab'') (rb_path ?b) = ''/v1/datastores/lab:commit''" by code_simp
  moreover have "''profile'' \<in> set (template_names (rb_path ?b))" by code_simp
  ultimately show ?thesis using bindings_are_routed [OF c(1,3), of "\<lambda>s. s" "''post''" "\<lambda>_. ''lab''"] c(2) by metis
qed

end
