(* ===== verification/Ncserver_Sessions.thy ===== *)
theory Ncserver_Sessions
  imports Ncserver
begin

text \<open>
  The concurrent life of the sessions of \<open>ncserver\<close>: goroutines inside \<open>Serve\<close>, each in one of
  its phases, interleaved with kills, with \<open>ReplaceUsers\<close> (which publishes the index first and
  sweeps the table later, so that several calls may overlap) and with the other users of the
  datastore handles, who take no locks. The theorems hold for every interleaving: a lock is
  only ever held by a session that has not finished, on the handle of that session; and once
  no \<open>ReplaceUsers\<close> is under way, the table has only sessions of current users.
\<close>

section \<open>Steps\<close>

text \<open>
  Where a goroutine in \<open>Serve\<close> is: before the mutex section, in the request loop, in the deferred
  function before the session leaves the table, and in \<open>dropLocks\<close> with the stores still to do.
\<close>

datatype phase =
    Starting nsess string
  | Serving nsess
  | Closing nsess
  | Unlocking nsess "string list"

fun ph_sess :: "phase \<Rightarrow> nsess" where
  "ph_sess (Starting s u) = s"
| "ph_sess (Serving s) = s"
| "ph_sess (Closing s) = s"
| "ph_sess (Unlocking s sts) = s"

fun lock_call :: "ds_call \<Rightarrow> bool" where
  "lock_call (CLock st sid) = True"
| "lock_call (CUnlock st sid) = True"
| "lock_call x = False"

record netsys =
  ny_srv :: server
  ny_threads :: "string \<rightharpoonup> phase"
  ny_sweeps :: "nuser gomap list"
  ny_served :: nat

inductive net_step :: "golib \<Rightarrow> xmllib \<Rightarrow> netsys \<Rightarrow> netsys \<Rightarrow> bool" for E X where
  begin_session: "serveBegin X H u addr (ny_srv n) = Inr (s, srv') \<Longrightarrow>
    net_step E X n (n\<lparr>ny_srv := srv', ny_threads := (ny_threads n)(se_id s \<mapsto> Starting s u), ny_served := Suc (ny_served n)\<rparr>)"
| register: "ny_threads n i = Some (Starting s u) \<Longrightarrow> serveRegister s u (ny_srv n) = (stale, srv') \<Longrightarrow>
    net_step E X n (n\<lparr>ny_srv := srv', ny_threads := (ny_threads n)(i := if stale then None else Some (Serving s))\<rparr>)"
| request: "ny_threads n i = Some (Serving s) \<Longrightarrow>
    net_step E X n (n\<lparr>ny_srv := snd (dispatch E X s (ny_srv n) r)\<rparr>)"
| finish: "ny_threads n i = Some (Serving s) \<Longrightarrow>
    net_step E X n (n\<lparr>ny_srv := cancel_session i (ny_srv n), ny_threads := (ny_threads n)(i \<mapsto> Closing s)\<rparr>)"
| leave: "ny_threads n i = Some (Closing s) \<Longrightarrow>
    net_step E X n (n\<lparr>ny_srv := server_drop i (ny_srv n),
      ny_threads := (ny_threads n)(i \<mapsto> Unlocking s [Running, Candidate, Startup])\<rparr>)"
| unlock: "ny_threads n i = Some (Unlocking s (st # sts)) \<Longrightarrow>
    net_step E X n (n\<lparr>ny_srv := dropLock s st (ny_srv n), ny_threads := (ny_threads n)(i \<mapsto> Unlocking s sts)\<rparr>)"
| ended: "ny_threads n i = Some (Unlocking s []) \<Longrightarrow>
    net_step E X n (n\<lparr>ny_threads := (ny_threads n)(i := None)\<rparr>)"
| kill: "net_step E X n (n\<lparr>ny_srv := snd (Kill i (ny_srv n))\<rparr>)"
| publish: "net_step E X n (n\<lparr>ny_srv := storeUsers (indexUsers us) (ny_srv n), ny_sweeps := indexUsers us # ny_sweeps n\<rparr>)"
| sweep: "us \<in> set (ny_sweeps n) \<Longrightarrow>
    net_step E X n (n\<lparr>ny_srv := sweepSessions us (ny_srv n), ny_sweeps := remove1 us (ny_sweeps n)\<rparr>)"
| others: "\<not> lock_call x \<Longrightarrow>
    net_step E X n (n\<lparr>ny_srv := (ny_srv n)\<lparr>sv_heap := (sv_heap (ny_srv n))(a := ds_step E (sv_heap (ny_srv n) a) (c, x))\<rparr>\<rparr>)"
| new_handle: "h_locks h = [] \<Longrightarrow> (\<forall>i ph. ny_threads n i = Some ph \<longrightarrow> se_addr (ph_sess ph) \<noteq> a) \<Longrightarrow>
    net_step E X n (n\<lparr>ny_srv := (ny_srv n)\<lparr>sv_heap := (sv_heap (ny_srv n))(a := h)\<rparr>\<rparr>)"

inductive_cases net_stepE: "net_step E X n n'"

definition net_init :: "nuser list \<Rightarrow> (nat \<Rightarrow> handle) \<Rightarrow> netsys" where
  "net_init us heap = \<lparr>ny_srv = server_New us heap, ny_threads = (\<lambda>i. None), ny_sweeps = [], ny_served = 0\<rparr>"

inductive net_reach :: "golib \<Rightarrow> xmllib \<Rightarrow> netsys \<Rightarrow> bool" for E X where
  init: "\<forall>a. h_locks (heap a) = [] \<Longrightarrow> net_reach E X (net_init us heap)"
| step: "net_reach E X n \<Longrightarrow> net_step E X n n' \<Longrightarrow> net_reach E X n'"

lemma served_mono: "net_step E X n n' \<Longrightarrow> ny_served n \<le> ny_served n'"
  by (cases rule: net_step.cases) auto

section \<open>Identifiers\<close>

definition issued :: "nat \<Rightarrow> string \<Rightarrow> bool" where
  "issued k i \<longleftrightarrow> (\<exists>j. 0 < j \<and> j \<le> k \<and> i = dec_digits j)"

lemma issued_mono: "issued k i \<Longrightarrow> k \<le> k' \<Longrightarrow> issued k' i"
  by (fastforce simp: issued_def)

lemma issued_Suc: "issued (Suc k) (dec_digits (Suc k))" "issued k i \<Longrightarrow> issued (Suc k) i"
  by (auto simp: issued_def intro: le_SucI)

lemma not_issued: "\<not> issued k (dec_digits (Suc k))"
  by (auto simp: issued_def dest: dec_digits_inj)

definition ids_inv :: "netsys \<Rightarrow> bool" where
  "ids_inv n \<longleftrightarrow> unat (sv_next (ny_srv n)) = ny_served n
     \<and> (\<forall>i ph. ny_threads n i = Some ph \<longrightarrow> se_id (ph_sess ph) = i \<and> issued (ny_served n) i)"

lemma serveBegin_Inr:
  assumes "serveBegin X H u addr srv = Inr (s, srv')"
  shows "srv' = srv\<lparr>sv_next := sv_next srv + 1\<rparr> \<and> se_id s = dec_digits (unat (sv_next srv + 1))
    \<and> (\<exists>v. map_of (sv_users srv) u = Some v \<and> nu_name (se_user s) = nu_name v)"
  using assms by (auto simp: serveBegin_def Let_def split: option.splits if_splits)

lemma serveRegister_frame:
  assumes "serveRegister s u srv = (stale, srv')"
  shows "sv_heap srv' = sv_heap srv \<and> sv_next srv' = sv_next srv \<and> sv_users srv' = sv_users srv"
  using assms by (auto simp: serveRegister_def publishSessionsLocked_def cancel_session_def Let_def split: if_splits)

lemma frame_next [simp]:
  "sv_next (cancel_session i srv) = sv_next srv" "sv_next (server_drop i srv) = sv_next srv"
  "sv_next (dropLock s st srv) = sv_next srv" "sv_next (snd (Kill i srv)) = sv_next srv"
  "sv_next (storeUsers us srv) = sv_next srv" "sv_next (sweepSessions us srv) = sv_next srv"
  by (auto simp: cancel_session_def server_drop_def publishSessionsLocked_def dropLock_def Kill_def storeUsers_def
      sweepSessions_def Let_def split: sum.split option.split)

lemma frame_users [simp]:
  "sv_users (cancel_session i srv) = sv_users srv" "sv_users (server_drop i srv) = sv_users srv"
  "sv_users (dropLock s st srv) = sv_users srv" "sv_users (snd (Kill i srv)) = sv_users srv"
  "sv_users (storeUsers us srv) = us" "sv_users (sweepSessions us srv) = sv_users srv"
  by (auto simp: cancel_session_def server_drop_def publishSessionsLocked_def dropLock_def Kill_def storeUsers_def
      sweepSessions_def Let_def split: sum.split option.split)

lemma frame_heap [simp]:
  "sv_heap (cancel_session i srv) = sv_heap srv" "sv_heap (server_drop i srv) = sv_heap srv"
  "sv_heap (snd (Kill i srv)) = sv_heap srv"
  "sv_heap (storeUsers us srv) = sv_heap srv" "sv_heap (sweepSessions us srv) = sv_heap srv"
  by (auto simp: cancel_session_def server_drop_def publishSessionsLocked_def Kill_def storeUsers_def
      sweepSessions_def Let_def split: option.split)

lemma frame_table [simp]:
  "sv_table (cancel_session i srv) = sv_table srv" "sv_table (server_drop i srv) = kv_del i (sv_table srv)"
  "sv_table (dropLock s st srv) = sv_table srv" "sv_table (snd (Kill i srv)) = sv_table srv"
  "sv_table (storeUsers us srv) = sv_table srv"
  "sv_table (sweepSessions us srv) = filter (\<lambda>is. live_as us (se_user (snd is))) (sv_table srv)"
  by (auto simp: cancel_session_def server_drop_def publishSessionsLocked_def dropLock_def Kill_def storeUsers_def
      sweepSessions_def Let_def split: sum.split option.split)

lemma dispatch_frame [simp]:
  "sv_users (snd (dispatch E X s srv r)) = sv_users srv" "sv_table (snd (dispatch E X s srv r)) = sv_table srv"
  "sv_next (snd (dispatch E X s srv r)) = sv_next srv" "sv_gauge (snd (dispatch E X s srv r)) = sv_gauge srv"
  using dispatch_effect [of E s srv X r] by (auto simp: effect_def cancel_session_def)

lemma ids_step:
  assumes "net_step E X n n'" and "ids_inv n" and "ny_served n' < 2 ^ 64"
  shows "ids_inv n'"
  using assms
proof (cases rule: net_step.cases)
  case (begin_session H u addr s srv')
  then have "unat (sv_next (ny_srv n) + 1) = Suc (ny_served n)"
    using assms(2,3) by (simp add: ids_inv_def unat_word_ariths(1))
  with begin_session serveBegin_Inr [OF begin_session(2)] assms(2) show ?thesis
    by (auto simp: ids_inv_def issued_Suc)
next
  case (register i s u stale srv')
  with serveRegister_frame [OF register(3)] assms(2) show ?thesis by (fastforce simp: ids_inv_def)
qed (auto simp: ids_inv_def; fastforce)+

section \<open>Locks\<close>

text \<open>A phase in which a session may still hold the lock of a store.\<close>

fun may_hold :: "phase \<Rightarrow> string \<Rightarrow> bool" where
  "may_hold (Starting s u) st = False"
| "may_hold (Serving s) st = True"
| "may_hold (Closing s) st = True"
| "may_hold (Unlocking s sts) st = (st \<in> set sts)"

definition holder_ok :: "(string \<rightharpoonup> phase) \<Rightarrow> nat \<Rightarrow> string \<Rightarrow> string \<Rightarrow> bool" where
  "holder_ok ths a st i \<longleftrightarrow> st \<in> {Running, Candidate, Startup}
     \<and> (\<exists>ph. ths i = Some ph \<and> may_hold ph st \<and> se_addr (ph_sess ph) = a)"

definition locks_inv :: "netsys \<Rightarrow> bool" where
  "locks_inv n \<longleftrightarrow> (\<forall>a st i. map_of (h_locks (sv_heap (ny_srv n) a)) st = Some i \<longrightarrow> holder_ok (ny_threads n) a st i)"

lemma lock_call_locks:
  assumes "ds_result E h c x = Inr h'"
  shows "\<not> lock_call x \<Longrightarrow> h_locks h' = h_locks h"
    and "own_call i x \<Longrightarrow> map_of (h_locks h') st = Some j \<Longrightarrow>
      map_of (h_locks h) st = Some j \<or> (j = i \<and> st \<in> {Running, Candidate, Startup})"
proof -
  have same: "h_locks h' = h_locks h" if "\<not> lock_call x"
  proof (cases x)
    case CCommit
    with assms CCommit_Inr [of E h c h'] obtain ev where "Commit E c h = Inr (h', ev)" by blast
    from Commit_Inr [OF this] show ?thesis by simp
  next
    case (CCopy src dst)
    with assms Copy_Inr [of E c h src dst h'] show ?thesis by auto
  next
    case (CEdit st' oper)
    with assms Edit_Inr [of E c h st' oper h'] show ?thesis by auto
  next
    case (CWrite oper)
    with assms Write_Inr [of E c h oper h'] show ?thesis by auto
  next
    case (CDelete st')
    with assms Delete_Inr [of E c h st' h'] show ?thesis by auto
  next
    case CDiscard
    with assms Discard_Inr [of E c h h'] show ?thesis by auto
  qed (use that in simp_all)
  then show "\<not> lock_call x \<Longrightarrow> h_locks h' = h_locks h" .
  assume own: "own_call i x" and st: "map_of (h_locks h') st = Some j"
  show "map_of (h_locks h) st = Some j \<or> (j = i \<and> st \<in> {Running, Candidate, Startup})"
  proof (cases "lock_call x")
    case True
    then show ?thesis
    proof (cases x)
      case (CLock st' sid)
      with own assms Lock_Inr [of c h st' sid h'] st show ?thesis
        by (auto simp: store_def split: if_splits)
    next
      case (CUnlock st' sid)
      with own assms Unlock_Inr [of c h st' sid h'] st show ?thesis by (auto split: if_splits)
    qed simp_all
  qed (use same st in simp)
qed

lemma ds_step_locks: "\<not> lock_call x \<Longrightarrow> h_locks (ds_step E h (c, x)) = h_locks h"
  using lock_call_locks(1) by (fastforce simp: ds_step_def split: sum.split)

lemma dispatch_locks:
  assumes "map_of (h_locks (sv_heap (snd (dispatch E X s srv r)) a)) st = Some i"
  shows "map_of (h_locks (sv_heap srv a)) st = Some i
    \<or> (a = se_addr s \<and> i = se_id s \<and> st \<in> {Running, Candidate, Startup})"
proof -
  have "effect E s srv (snd (dispatch E X s srv r))" by (rule dispatch_effect)
  then consider "sv_heap (snd (dispatch E X s srv r)) = sv_heap srv"
    | c h where "own_call (se_id s) c" "ds_result E (sv_heap srv (se_addr s)) (se_ctx s srv) c = Inr h"
      "sv_heap (snd (dispatch E X s srv r)) = (sv_heap srv)(se_addr s := h)"
    unfolding effect_def by (auto simp: cancel_session_def)
  then show ?thesis
  proof cases
    case 2
    with assms lock_call_locks(2) [OF 2(2,1)] show ?thesis by (cases "a = se_addr s") auto
  qed (use assms in simp)
qed

lemma dropLock_locks:
  assumes "map_of (h_locks (sv_heap (dropLock s st srv) a)) st' = Some i" and "st \<in> {Running, Candidate, Startup}"
  shows "map_of (h_locks (sv_heap srv a)) st' = Some i \<and> \<not> (a = se_addr s \<and> st' = st \<and> i = se_id s)"
  using assms by (auto simp: dropLock_def Unlock_def store_def split: sum.splits option.splits if_splits)

lemma holder_other:
  "holder_ok ths a st i \<Longrightarrow> j \<noteq> i \<Longrightarrow> holder_ok (ths(j := x)) a st i"
  by (simp add: holder_ok_def)

lemma holder_same:
  assumes "holder_ok ths a st i" and "ths i = Some ph" and "may_hold ph st \<Longrightarrow> may_hold ph' st"
    and "se_addr (ph_sess ph') = se_addr (ph_sess ph)"
  shows "holder_ok (ths(i \<mapsto> ph')) a st i"
  using assms by (auto simp: holder_ok_def)

lemma holder_keep:
  assumes "holder_ok ths a st i" and "ths j = Some ph" and "may_hold ph st \<Longrightarrow> may_hold ph' st"
    and "se_addr (ph_sess ph') = se_addr (ph_sess ph)"
  shows "holder_ok (ths(j \<mapsto> ph')) a st i"
  using assms holder_other [OF assms(1), of j] holder_same [OF assms(1), of ph ph'] by (cases "j = i") auto

lemma holder_gone:
  assumes "holder_ok ths a st i" and "ths j = Some ph" and "\<not> may_hold ph st"
  shows "holder_ok (ths(j := None)) a st i"
  using assms by (auto simp: holder_ok_def)

lemma dropLock_unknown: "st \<notin> {Running, Candidate, Startup} \<Longrightarrow> dropLock s st srv = srv"
  by (simp add: dropLock_def Unlock_def store_def)

lemma locks_unlock:
  assumes "locks_inv n" and "ids_inv n" and "ny_threads n i = Some (Unlocking s (st # sts))"
  shows "locks_inv (n\<lparr>ny_srv := dropLock s st (ny_srv n), ny_threads := (ny_threads n)(i \<mapsto> Unlocking s sts)\<rparr>)"
proof -
  have "holder_ok ((ny_threads n)(i \<mapsto> Unlocking s sts)) a st' j"
    if l: "map_of (h_locks (sv_heap (dropLock s st (ny_srv n)) a)) st' = Some j" for a st' j
  proof -
    have id: "se_id s = i" using assms(2,3) by (fastforce simp: ids_inv_def)
    have old: "map_of (h_locks (sv_heap (ny_srv n) a)) st' = Some j" and ne: "st \<in> {Running, Candidate, Startup} \<Longrightarrow> \<not> (a = se_addr s \<and> st' = st \<and> j = i)"
      using l dropLock_locks [OF l] dropLock_unknown [of st s "ny_srv n"] id by (cases "st \<in> {Running, Candidate, Startup}"; auto)+
    have "holder_ok (ny_threads n) a st' j" using assms(1) old by (simp add: locks_inv_def)
    then show ?thesis using assms(3) ne by (cases "j = i") (auto simp: holder_ok_def)
  qed
  then show ?thesis by (simp add: locks_inv_def)
qed

lemma locks_request:
  assumes "locks_inv n" and "ids_inv n" and "ny_threads n i = Some (Serving s)"
  shows "locks_inv (n\<lparr>ny_srv := snd (dispatch E X s (ny_srv n) r)\<rparr>)"
proof -
  have "se_id s = i" using assms(2,3) by (fastforce simp: ids_inv_def)
  then have "holder_ok (ny_threads n) a st j"
    if "map_of (h_locks (sv_heap (snd (dispatch E X s (ny_srv n) r)) a)) st = Some j" for a st j
    using dispatch_locks [OF that] assms(1,3) by (auto simp: locks_inv_def holder_ok_def)
  then show ?thesis by (simp add: locks_inv_def)
qed

lemma locks_threads:
  assumes "locks_inv n" and "sv_heap (ny_srv n') = sv_heap (ny_srv n)"
    and "\<And>a st i. holder_ok (ny_threads n) a st i \<Longrightarrow> holder_ok (ny_threads n') a st i"
  shows "locks_inv n'"
  using assms by (simp add: locks_inv_def)

lemma locks_begin:
  assumes "locks_inv n" and "ids_inv n" and "ids_inv n'"
    and "n' = n\<lparr>ny_srv := srv', ny_threads := (ny_threads n)(se_id s \<mapsto> Starting s u), ny_served := Suc (ny_served n)\<rparr>"
    and "serveBegin X H u addr (ny_srv n) = Inr (s, srv')"
  shows "locks_inv n'"
proof (rule locks_threads [OF assms(1)])
  note b = serveBegin_Inr [OF assms(5)]
  show "sv_heap (ny_srv n') = sv_heap (ny_srv n)" using b assms(4) by simp
  have "unat (sv_next (ny_srv n) + 1) = Suc (ny_served n)" using assms(3,4) b by (simp add: ids_inv_def)
  then have "se_id s = dec_digits (Suc (ny_served n))" using b by simp
  then have "ny_threads n (se_id s) = None"
    using assms(2) not_issued by (metis ids_inv_def not_None_eq)
  then show "holder_ok (ny_threads n') a st i" if "holder_ok (ny_threads n) a st i" for a st i
    using that assms(4) by (auto simp: holder_ok_def)
qed

lemma locks_step:
  assumes "net_step E X n n'" and "locks_inv n" and "ids_inv n" and "ids_inv n'"
  shows "locks_inv n'"
  using assms(1)
proof (cases rule: net_step.cases)
  case (begin_session H u addr s srv')
  with locks_begin [OF assms(2-4)] show ?thesis by blast
next
  case (register i s u stale srv')
  have "holder_ok ((ny_threads n)(i := if stale then None else Some (Serving s))) a st j"
    if "holder_ok (ny_threads n) a st j" for a st j
    using holder_gone [OF that register(2)] holder_keep [OF that register(2), of "Serving s"] by simp
  with register serveRegister_frame [OF register(3)] show ?thesis
    by (intro locks_threads [OF assms(2), of n']) simp_all
next
  case (request i s r)
  with locks_request [OF assms(2,3)] show ?thesis by blast
next
  case (finish i s)
  have "holder_ok ((ny_threads n)(i \<mapsto> Closing s)) a st j" if "holder_ok (ny_threads n) a st j" for a st j
    using holder_keep [OF that finish(2), of "Closing s"] by simp
  with finish show ?thesis by (intro locks_threads [OF assms(2), of n']) simp_all
next
  case (leave i s)
  have "holder_ok ((ny_threads n)(i \<mapsto> Unlocking s [Running, Candidate, Startup])) a st j"
    if "holder_ok (ny_threads n) a st j" for a st j
    using that leave(2) by (cases "j = i") (auto simp: holder_ok_def)
  with leave show ?thesis by (intro locks_threads [OF assms(2), of n']) simp_all
next
  case (unlock i s st sts)
  with locks_unlock [OF assms(2,3)] show ?thesis by blast
next
  case (ended i s)
  have "holder_ok ((ny_threads n)(i := None)) a st j" if "holder_ok (ny_threads n) a st j" for a st j
    using holder_gone [OF that ended(2)] by simp
  with ended show ?thesis by (intro locks_threads [OF assms(2), of n']) simp_all
next
  case (others x a c)
  with assms(2) ds_step_locks [OF others(2)] show ?thesis by (auto simp: locks_inv_def split: if_splits)
next
  case (new_handle h a)
  with assms(2) show ?thesis by (auto simp: locks_inv_def split: if_splits)
qed (use assms(2) in \<open>auto simp: locks_inv_def\<close>)

lemma net_reach_inv: "net_reach E X n \<Longrightarrow> ny_served n < 2 ^ 64 \<Longrightarrow> ids_inv n \<and> locks_inv n"
proof (induction rule: net_reach.induct)
  case (init heap us)
  then show ?case by (simp add: ids_inv_def locks_inv_def net_init_def server_New_def)
next
  case (step n n')
  then have "ny_served n < 2 ^ 64" using served_mono [OF step(2)] by simp
  with step.IH ids_step [OF step(2)] step.prems locks_step [OF step(2)] show ?case by blast
qed

text \<open>C28: Under every interleaving of sessions, kills, user changes and other callers, a datastore
  lock is only ever held by a session that is still being served or cleaned up, and only on that
  session's own datastore: a session that has ended has left no lock behind.\<close>

theorem locks_end_with_their_session:
  assumes "net_reach E X n" and "ny_served n < 2 ^ 64"
    and "map_of (h_locks (sv_heap (ny_srv n) a)) st = Some i"
  shows "\<exists>ph. ny_threads n i = Some ph \<and> may_hold ph st \<and> se_addr (ph_sess ph) = a"
  using net_reach_inv [OF assms(1,2)] assms(3) by (auto simp: locks_inv_def holder_ok_def)

section \<open>The session table and the user index\<close>

definition table_inv :: "netsys \<Rightarrow> bool" where
  "table_inv n \<longleftrightarrow> sv_gauge (ny_srv n) = length (sv_table (ny_srv n))
     \<and> (\<forall>i s. (i, s) \<in> set (sv_table (ny_srv n)) \<longrightarrow> ny_threads n i = Some (Serving s) \<or> ny_threads n i = Some (Closing s))"

lemma kv_del_key: "(i, x) \<in> set (kv_del j m) \<longleftrightarrow> i \<noteq> j \<and> (i, x) \<in> set m"
  by (induction m) auto

lemma kv_put_other: "i \<noteq> j \<Longrightarrow> (i, x) \<in> set (kv_put j y m) \<longleftrightarrow> (i, x) \<in> set m"
  by (induction m) auto

lemma kv_del_put: "(i, x) \<in> set (kv_del j (kv_put j y m)) \<longleftrightarrow> i \<noteq> j \<and> (i, x) \<in> set m"
  using kv_put_other [of i j x y m] by (auto simp: kv_del_key)

lemma serveRegister_table:
  assumes "serveRegister s u srv = (stale, srv')"
  shows "sv_gauge srv' = length (sv_table srv')"
    and "(i, s') \<in> set (sv_table srv') \<Longrightarrow> (i, s') \<in> set (sv_table srv) \<or> (\<not> stale \<and> i = se_id s \<and> s' = s)"
    and "stale \<Longrightarrow> (i, s') \<in> set (sv_table srv') \<Longrightarrow> i \<noteq> se_id s"
  using assms by (auto simp: serveRegister_def publishSessionsLocked_def cancel_session_def Let_def kv_del_put
      split: if_splits dest: kv_put_mem)

lemma sweep_gauge:
  "sv_gauge srv = length (sv_table srv) \<Longrightarrow> sv_gauge (sweepSessions us srv) = length (sv_table (sweepSessions us srv))"
  by (auto simp: sweepSessions_def publishSessionsLocked_def Let_def filter_empty_conv intro!: arg_cong [where f = length] filter_True [symmetric])

lemma frame_gauge [simp]:
  "sv_gauge (cancel_session i srv) = sv_gauge srv" "sv_gauge (server_drop i srv) = length (kv_del i (sv_table srv))"
  "sv_gauge (dropLock s st srv) = sv_gauge srv" "sv_gauge (snd (Kill i srv)) = sv_gauge srv"
  "sv_gauge (storeUsers us srv) = sv_gauge srv"
  by (auto simp: cancel_session_def server_drop_def publishSessionsLocked_def dropLock_def Kill_def storeUsers_def
      split: sum.split option.split)

lemma table_step:
  assumes "net_step E X n n'" and "table_inv n" and "ids_inv n" and "ids_inv n'"
  shows "table_inv n'"
  using assms(1)
proof (cases rule: net_step.cases)
  case (begin_session H u addr s srv')
  note b = serveBegin_Inr [OF begin_session(2)]
  have "unat (sv_next (ny_srv n) + 1) = Suc (ny_served n)" using assms(4) begin_session b by (simp add: ids_inv_def)
  then have "ny_threads n (se_id s) = None"
    using assms(3) not_issued b by (metis ids_inv_def not_None_eq)
  with begin_session b assms(2) show ?thesis by (fastforce simp: table_inv_def)
next
  case (register i s u stale srv')
  have id: "se_id s = i" using assms(3) register(2) by (fastforce simp: ids_inv_def)
  have "ny_threads n' j = Some (Serving s') \<or> ny_threads n' j = Some (Closing s')" if "(j, s') \<in> set (sv_table srv')" for j s'
    using serveRegister_table(2,3) [OF register(3)] that assms(2) register(1,2) id by (fastforce simp: table_inv_def)
  with register serveRegister_table(1) [OF register(3)] show ?thesis by (simp add: table_inv_def)
next
  case (sweep us)
  with assms(2) sweep_gauge [of "ny_srv n" us] show ?thesis by (auto simp: table_inv_def)
next
  case (leave i s)
  with assms(2) show ?thesis by (auto simp: table_inv_def kv_del_key)
qed (use assms(2) in \<open>fastforce simp: table_inv_def\<close>)+

definition users_ok :: "nuser gomap \<Rightarrow> bool" where
  "users_ok us \<longleftrightarrow> (\<forall>k u. (k, u) \<in> set us \<longrightarrow> nu_name u = k)"

lemma users_ok_put: "users_ok m \<Longrightarrow> nu_name u = k \<Longrightarrow> users_ok (kv_put k u m)"
  unfolding users_ok_def by (blast dest: kv_put_mem)

lemma indexUsers_ok: "users_ok (indexUsers us)"
proof -
  have fold_ok: "users_ok m \<Longrightarrow> users_ok (fold (\<lambda>u m. (let u' = (if nu_access u = [] then u\<lparr>nu_access := UserAccessReadWrite\<rparr> else u)
      in kv_put (nu_name u) u' m)) us m)" for m
    by (induction us arbitrary: m) (simp_all add: users_ok_put Let_def)
  have "users_ok []" by (simp add: users_ok_def)
  from fold_ok [OF this] show ?thesis unfolding indexUsers_def .
qed

definition names_inv :: "netsys \<Rightarrow> bool" where
  "names_inv n \<longleftrightarrow> users_ok (sv_users (ny_srv n))
     \<and> (\<forall>i s u. ny_threads n i = Some (Starting s u) \<longrightarrow> nu_name (se_user s) = u)"

lemma names_step:
  assumes "net_step E X n n'" and "names_inv n"
  shows "names_inv n'"
  using assms(1)
proof (cases rule: net_step.cases)
  case (begin_session H u addr s srv')
  note b = serveBegin_Inr [OF begin_session(2)]
  from b obtain v where "map_of (sv_users (ny_srv n)) u = Some v" "nu_name (se_user s) = nu_name v" by blast
  then have "nu_name (se_user s) = u"
    using assms(2) map_of_SomeD [of "sv_users (ny_srv n)" u v] by (simp add: names_inv_def users_ok_def)
  with b begin_session assms(2) show ?thesis by (auto simp: names_inv_def)
next
  case (register i s u stale srv')
  with serveRegister_frame [OF register(3)] assms(2) show ?thesis by (auto simp: names_inv_def)
qed (use assms(2) in \<open>auto simp: names_inv_def indexUsers_ok\<close>)

text \<open>Either the sweep for the current index is still to come, or it has done its work.\<close>

definition swept_inv :: "netsys \<Rightarrow> bool" where
  "swept_inv n \<longleftrightarrow> sv_users (ny_srv n) \<in> set (ny_sweeps n)
     \<or> (\<forall>i s. (i, s) \<in> set (sv_table (ny_srv n)) \<longrightarrow> live_as (sv_users (ny_srv n)) (se_user s))"

lemma serveRegister_live:
  assumes "serveRegister s u srv = (False, srv')" and "nu_name (se_user s) = u"
  shows "live_as (sv_users srv) (se_user s)"
  using assms by (auto simp: serveRegister_def live_as_def publishSessionsLocked_def Let_def split: option.splits if_splits)

lemma swept_step:
  assumes "net_step E X n n'" and "swept_inv n" and "names_inv n"
  shows "swept_inv n'"
  using assms(1)
proof (cases rule: net_step.cases)
  case (begin_session H u addr s srv')
  with serveBegin_Inr [OF begin_session(2)] assms(2) show ?thesis by (simp add: swept_inv_def)
next
  case (register i s u stale srv')
  have "nu_name (se_user s) = u" using assms(3) register(2) by (simp add: names_inv_def)
  with serveRegister_live [of s u "ny_srv n" srv'] serveRegister_table(2) [OF register(3)]
    serveRegister_frame [OF register(3)] register assms(2) show ?thesis
    by (fastforce simp: swept_inv_def)
next
  case (sweep us)
  with assms(2) show ?thesis by (cases "us = sv_users (ny_srv n)") (auto simp: swept_inv_def)
next
  case (leave i s)
  with assms(2) show ?thesis by (auto simp: swept_inv_def kv_del_key)
qed (use assms(2) in \<open>auto simp: swept_inv_def\<close>)

lemma net_reach_tables:
  "net_reach E X n \<Longrightarrow> ny_served n < 2 ^ 64 \<Longrightarrow> table_inv n \<and> names_inv n \<and> swept_inv n"
proof (induction rule: net_reach.induct)
  case (init heap us)
  then show ?case
    by (simp add: table_inv_def names_inv_def swept_inv_def net_init_def server_New_def indexUsers_ok)
next
  case (step n n')
  then have "ny_served n < 2 ^ 64" using served_mono [OF step(2)] by simp
  with step table_step [OF step(2)] names_step [OF step(2)] swept_step [OF step(2)]
    net_reach_inv [OF step(1)] net_reach_inv [OF net_reach.step [OF step(1,2)]] show ?case by blast
qed

text \<open>C29: Under every interleaving, once no \<open>ReplaceUsers\<close> is under way every session in the table is
  served for a user of the current index with the same access, profile and datastore; each
  session in the table has its goroutine, and the session gauge counts the table.\<close>

theorem sessions_match_users:
  assumes "net_reach E X n" and "ny_served n < 2 ^ 64" and "ny_sweeps n = []" and "(i, s) \<in> set (sv_table (ny_srv n))"
  shows "live_as (sv_users (ny_srv n)) (se_user s)
    \<and> (ny_threads n i = Some (Serving s) \<or> ny_threads n i = Some (Closing s))
    \<and> sv_gauge (ny_srv n) = length (sv_table (ny_srv n))"
  using net_reach_tables [OF assms(1,2)] assms(3,4) by (auto simp: swept_inv_def table_inv_def)

section \<open>A concrete run\<close>

abbreviation ada :: nuser where
  "ada \<equiv> \<lparr>nu_name = ''ada'', nu_profile = ''lab'', nu_access = UserAccessReadWrite, nu_handle = Some 0, nu_ns = []\<rparr>"

abbreviation ada_sess :: nsess where
  "ada_sess \<equiv> \<lparr>se_id = ''1'', se_user = ada, se_remote = ''10.0.0.1''\<rparr>"

abbreviation net0 :: netsys where
  "net0 \<equiv> net_init [ada] (\<lambda>a. sample_handle [] [] [])"

abbreviation lab_srv1 :: server where
  "lab_srv1 \<equiv> (server_New [ada] (\<lambda>a. sample_handle [] [] []))\<lparr>sv_next := 1\<rparr>"

abbreviation net1 :: netsys where
  "net1 \<equiv> \<lparr>ny_srv = lab_srv1, ny_threads = [''1'' \<mapsto> Starting ada_sess ''ada''], ny_sweeps = [], ny_served = 1\<rparr>"

abbreviation net2 :: netsys where
  "net2 \<equiv> \<lparr>ny_srv = lab_srv1\<lparr>sv_table := [(''1'', ada_sess)], sv_gauge := 1\<rparr>, ny_threads = [''1'' \<mapsto> Serving ada_sess],
     ny_sweeps = [], ny_served = 1\<rparr>"

abbreviation net3 :: netsys where
  "net3 \<equiv> net2\<lparr>ny_srv := snd (dispatch undefined undefined ada_sess (ny_srv net2) lock_rpc)\<rparr>"

lemma one_digit: "dec_digits 1 = ''1''" "dec_digits (Suc 0) = ''1''"
  by code_simp+

lemma index_ada: "indexUsers [ada] = [(''ada'', ada)]"
  by (simp add: indexUsers_def Let_def)

lemma reach_net1: "net_reach E X net1"
proof -
  have "net_reach E X net0" by (rule net_reach.init) simp
  moreover have "net_step E X net0 net1"
    using net_step.begin_session [of X "\<lambda>_. None" "''ada''" "''10.0.0.1''" net0 ada_sess lab_srv1 E]
    by (simp add: net_init_def serveBegin_def server_New_def index_ada one_digit Let_def)
  ultimately show ?thesis by (rule net_reach.step)
qed

lemma reach_net2: "net_reach E X net2"
proof (rule net_reach.step [OF reach_net1])
  show "net_step E X net1 net2"
    using net_step.register [of net1 "''1''" ada_sess "''ada''" False "ny_srv net2" E X]
    by (simp add: serveRegister_def server_New_def index_ada publishSessionsLocked_def Let_def)
qed

lemma reach_net3: "net_reach undefined undefined net3"
  by (rule net_reach.step [OF reach_net2], rule net_step.request [of _ "''1''"]) simp

theorem locks_end_with_their_session_witness:
  "map_of (h_locks (sv_heap (ny_srv net3) 0)) Candidate = Some ''1''
   \<and> (\<exists>ph. ny_threads net3 ''1'' = Some ph \<and> may_hold ph Candidate \<and> se_addr (ph_sess ph) = 0)"
proof -
  have l: "map_of (h_locks (sv_heap (ny_srv net3) 0)) Candidate = Some ''1''"
    by (simp add: dispatch_def doLock_def storeName_def answer_def Lock_def store_def se_ctx_def se_addr_def
        server_New_def WithSessionID_def)
  from locks_end_with_their_session [OF reach_net3 _ l] l show ?thesis by simp
qed

theorem sessions_match_users_witness:
  "live_as (sv_users (ny_srv net2)) ada \<and> sv_gauge (ny_srv net2) = 1"
  using sessions_match_users [OF reach_net2, of "''1''" ada_sess] by simp

end
