(* ===== verification/Ncserver_Run.thy ===== *)
theory Ncserver_Run
  imports Ncserver_Sessions
begin

text \<open>
  Package \<open>ncserver\<close>, \<open>session.run\<close> and \<open>Server.Serve\<close> from end to end on one connection: the hello
  exchange, the choice of the framing, the loop that reads, decodes, dispatches and answers, and
  the deferred clean-up. The connection is the bytes the client sends before it ends, and the
  bytes written to it. The loop has fuel; the theorems show that one round per received byte
  is always enough, so every session on a finite connection ends, what a conversation of
  requests is answered with, and what is left when \<open>Serve\<close> returns.
\<close>

section \<open>The session loop\<close>

datatype run_err = RunFrame ferr | RunText string | RunCanceled

definition hasCap :: "string list \<Rightarrow> string \<Rightarrow> bool" where
  "hasCap caps want \<longleftrightarrow> list_ex (\<lambda>c. c = want) caps"

definition writeReply :: "version \<Rightarrow> reply \<Rightarrow> bytes \<Rightarrow> run_err + bytes" where
  "writeReply ver r out = (case EncodeReply r of
     Inl e \<Rightarrow> Inl (RunText e)
   | Inr raw \<Rightarrow> (case Write ver raw of Inl f \<Rightarrow> Inl (RunFrame f) | Inr b \<Rightarrow> Inr (out @ b)))"

definition malformed :: "string \<Rightarrow> reply" where
  "malformed msg = \<lparr>ry_id = ''0'', ry_ok = False, ry_data = None, ry_errors = [rpcErr ''rpc'' ''malformed-message'' msg]\<rparr>"

text \<open>The loop returns its error, if any, what it has written, and the server.\<close>

fun run_loop :: "nat \<Rightarrow> golib \<Rightarrow> xmllib \<Rightarrow> nsess \<Rightarrow> version \<Rightarrow> reader \<Rightarrow> bytes \<Rightarrow> server
    \<Rightarrow> (run_err option \<times> bytes \<times> server) option" where
  "run_loop 0 E X s ver rd out srv = None"
| "run_loop (Suc k) E X s ver rd out srv =
    (if se_id s \<in> set (sv_cancelled srv) then Some (Some RunCanceled, out, srv)
     else case ReadMessage rd of
       (Inl e, rd') \<Rightarrow> Some (if e = EOF then None else Some (RunFrame e), out, srv)
     | (Inr raw, rd') \<Rightarrow>
         (case Decode X raw of
            Inl e \<Rightarrow>
              (case writeReply ver (malformed e) out of
                 Inl w \<Rightarrow> Some (Some w, out, srv)
               | Inr out' \<Rightarrow> run_loop k E X s ver rd' out' srv)
          | Inr msg \<Rightarrow>
              (case ms_rpc msg of
                 None \<Rightarrow>
                   (case writeReply ver (malformed ''expected rpc'') out of
                      Inl w \<Rightarrow> Some (Some w, out, srv)
                    | Inr out' \<Rightarrow> run_loop k E X s ver rd' out' srv)
               | Some r \<Rightarrow>
                   (case dispatch E X s srv r of
                      (rep, srv') \<Rightarrow>
                        (case writeReply ver rep out of
                           Inl w \<Rightarrow> Some (Some w, out, srv')
                         | Inr out' \<Rightarrow>
                             if rp_name r = OpCloseSession then Some (None, out', srv')
                             else run_loop k E X s ver rd' out' srv')))))"

declare run_loop.simps(2) [simp del]

definition session_run :: "nat \<Rightarrow> golib \<Rightarrow> xmllib \<Rightarrow> nsess \<Rightarrow> bytes \<Rightarrow> ferr \<Rightarrow> server
    \<Rightarrow> (run_err option \<times> bytes \<times> server) option" where
  "session_run fuel E X s inp ioend srv =
    (case Write1_0 (EncodeHello \<lparr>he_caps = AdvertisedCapabilities, he_session = se_id s\<rparr>) of
       Inl f \<Rightarrow> Some (Some (RunFrame f), [], srv)
     | Inr out \<Rightarrow>
         (case ReadMessage (NewReader inp ioend Version10) of
            (Inl e, rd) \<Rightarrow> Some (Some (RunFrame e), out, srv)
          | (Inr raw, rd) \<Rightarrow>
              (case Decode X raw of
                 Inl e \<Rightarrow> Some (Some (RunText e), out, srv)
               | Inr msg \<Rightarrow>
                   (case ms_hello msg of
                      None \<Rightarrow> Some (Some (RunText ''ncserver: expected hello''), out, srv)
                    | Some h \<Rightarrow>
                        (let v11 = hasCap AdvertisedCapabilities CapBase11 \<and> hasCap (he_caps h) CapBase11;
                             ver = (if v11 then Version11 else Version10);
                             rd' = (if v11 then SetVersion rd Version11 else rd)
                         in run_loop fuel E X s ver rd' out srv)))))"

text \<open>\<open>Serve\<close> on one connection, with nothing else going on: its result, what was written and the
  server afterwards. The deferred function cancels, drops the row and releases the locks.\<close>

definition Serve :: "nat \<Rightarrow> golib \<Rightarrow> xmllib \<Rightarrow> (string \<Rightarrow> nat option) \<Rightarrow> string \<Rightarrow> string \<Rightarrow> bytes \<Rightarrow> ferr \<Rightarrow> server
    \<Rightarrow> (run_err option \<times> bytes \<times> server) option" where
  "Serve fuel E X H username addr inp ioend srv =
    (case serveBegin X H username addr srv of
       Inl e \<Rightarrow> Some (Some (RunText e), [], srv)
     | Inr (s, srvA) \<Rightarrow>
         (case serveRegister s username srvA of
            (True, srvB) \<Rightarrow> Some (Some (RunText ''ncserver: user access changed''), [], srvB)
          | (False, srvB) \<Rightarrow>
              (case session_run fuel E X s inp ioend srvB of
                 None \<Rightarrow> None
               | Some (err, out, srvC) \<Rightarrow>
                   Some (err, out, dropLocks s (server_drop (se_id s) (cancel_session (se_id s) srvC))))))"

section \<open>Every session ends\<close>

lemma read10_consumes: "read10 mx e msg win got inp = (Inr m, rest) \<Longrightarrow> length rest < length inp"
proof (cases inp)
  case (Cons b bs)
  assume r: "read10 mx e msg win got inp = (Inr m, rest)"
  have "suffix rest bs"
    using r Cons read10_suffix by (auto simp: Let_def split: if_splits)
  then have "length rest \<le> length bs" by (rule suffix_length_le)
  with Cons show ?thesis by simp
qed simp

lemma read11_consumes:
  assumes "read11 mx e msg n inp = (Inr m, rest)"
  shows "length rest < length inp"
proof -
  have le: "length rest \<le> length inp" using read11_suffix [OF assms] suffix_length_le by blast
  have "length rest \<noteq> length inp"
  proof
    assume "length rest = length inp"
    with read11_suffix [OF assms] have eq: "rest = inp" by (auto simp: suffix_def)
    from assms show False
    proof (cases inp)
      case (Cons b i1)
      have lt: "length rest < length inp" using assms unfolding Cons
        by (subst (asm) read11.simps)
          (auto simp: expect_def split: list.splits if_splits prod.splits option.splits sum.splits
            dest!: read_size_shrinks read11_suffix suffix_length_le)
      with eq show False by simp
    qed (simp add: read11.simps split: if_splits)
  qed
  with le show ?thesis by simp
qed

lemma ReadMessage_consumes:
  "ReadMessage rd = (Inr raw, rd') \<Longrightarrow> length (r_in rd') < length (r_in rd)"
  using read10_consumes read11_consumes by (fastforce simp: ReadMessage_def split: if_splits prod.splits)

lemma run_loop_returns: "length (r_in rd) < fuel \<Longrightarrow> \<exists>res. run_loop fuel E X s ver rd out srv = Some res"
proof (induction fuel arbitrary: rd out srv)
  case (Suc fuel)
  have less: "length (r_in rd') < fuel" if "ReadMessage rd = (Inr raw, rd')" for raw rd'
    using ReadMessage_consumes [OF that] Suc.prems by simp
  show ?case
  proof (cases "ReadMessage rd")
    case (Pair res rd')
    show ?thesis
    proof (cases res)
      case (Inr raw)
      have "\<exists>res. run_loop fuel E X s ver rd' out' srv' = Some res" for out' srv'
        using Suc.IH [OF less] Pair Inr by simp
      then show ?thesis
        using Pair Inr by (auto simp: run_loop.simps(2) split: sum.split option.split prod.split)
    qed (simp add: run_loop.simps(2) Pair)
  qed
qed simp

lemma session_run_returns:
  assumes "length inp < fuel"
  shows "session_run fuel E X s inp ioend srvB \<noteq> None"
proof -
  have "\<exists>res. run_loop fuel E X s ver rd' out srvB = Some res"
    if "ReadMessage (NewReader inp ioend Version10) = (Inr raw, rd)" and "rd' = (if b then SetVersion rd Version11 else rd)"
    for raw rd rd' b ver out
    using ReadMessage_consumes [OF that(1)] that(2) assms
    by (intro run_loop_returns) (auto simp: NewReader_def SetVersion_def)
  then have "\<exists>res. session_run fuel E X s inp ioend srvB = Some res"
    by (auto simp: session_run_def Let_def split: sum.split option.split prod.split)
  then show ?thesis by auto
qed

text \<open>C32: A session always ends: whatever finite input a client sends, \<open>Serve\<close> returns after at most
  one round of its loop per byte received.\<close>

theorem serve_terminates:
  assumes "length inp < fuel"
  shows "\<exists>err out srv'. Serve fuel E X H username addr inp ioend srv = Some (err, out, srv')"
proof -
  have "Serve fuel E X H username addr inp ioend srv \<noteq> None"
    by (auto simp: Serve_def session_run_returns [OF assms] split: sum.split option.split prod.split bool.split)
  then show ?thesis by auto
qed

theorem serve_terminates_witness:
  "\<exists>err out srv'. Serve 12 undefined undefined (\<lambda>_. None) ''ada'' ''10.0.0.1'' ''garbage'' EOF lab_server = Some (err, out, srv')"
  by (rule serve_terminates) simp

section \<open>What is left when Serve returns\<close>

lemma dropLock_released:
  assumes "st \<in> {Running, Candidate, Startup}"
  shows "map_of (h_locks (sv_heap (dropLock s st srv) (se_addr s))) st \<noteq> Some (se_id s)"
  using dropLock_locks [of s st srv "se_addr s" st] assms by blast

lemma dropLocks_released:
  assumes "st \<in> {Running, Candidate, Startup}"
  shows "map_of (h_locks (sv_heap (dropLocks s srv) (se_addr s))) st \<noteq> Some (se_id s)"
proof
  assume "map_of (h_locks (sv_heap (dropLocks s srv) (se_addr s))) st = Some (se_id s)"
  then have l3: "map_of (h_locks (sv_heap (dropLock s Startup (dropLock s Candidate (dropLock s Running srv))) (se_addr s))) st = Some (se_id s)"
    by (simp add: dropLocks_def)
  from dropLock_locks [OF l3] have l2: "map_of (h_locks (sv_heap (dropLock s Candidate (dropLock s Running srv)) (se_addr s))) st = Some (se_id s)"
    "st \<noteq> Startup" by auto
  from dropLock_locks [OF l2(1)] have l1: "map_of (h_locks (sv_heap (dropLock s Running srv) (se_addr s))) st = Some (se_id s)"
    "st \<noteq> Candidate" by auto
  with dropLock_locks [OF l1(1)] l2(2) assms show False by auto
qed

text \<open>When \<open>Serve\<close> returns from a registered session, the session is out of the table, its
  context is cancelled and it holds none of the three locks, however the session ended.\<close>

theorem serve_cleans_up:
  assumes "serveBegin X H username addr srv = Inr (s, srvA)" and "serveRegister s username srvA = (False, srvB)"
    and "Serve fuel E X H username addr inp ioend srv = Some (err, out, srv')" and "st \<in> {Running, Candidate, Startup}"
  shows "map_of (sv_table srv') (se_id s) = None \<and> se_id s \<in> set (sv_cancelled srv')
    \<and> map_of (h_locks (sv_heap srv' (se_addr s))) st \<noteq> Some (se_id s)"
proof -
  from assms(1-3) obtain srvC where "session_run fuel E X s inp ioend srvB = Some (err, out, srvC)"
    and srv': "srv' = dropLocks s (server_drop (se_id s) (cancel_session (se_id s) srvC))"
    by (auto simp: Serve_def split: option.splits)
  have frame: "sv_table (dropLocks s srv0) = sv_table srv0" "sv_cancelled (dropLocks s srv0) = sv_cancelled srv0" for srv0
    by (simp_all add: dropLocks_def dropLock_def split: sum.split)
  show ?thesis
    using dropLocks_released [OF assms(4), of s] unfolding srv'
    by (simp add: frame server_drop_def publishSessionsLocked_def cancel_session_def)
qed

theorem serve_cleans_up_witness:
  "\<exists>err out srv'. Serve 12 undefined undefined (\<lambda>_. None) ''ada'' ''10.0.0.1'' ''garbage'' EOF (ny_srv net0) = Some (err, out, srv')
     \<and> map_of (sv_table srv') ''1'' = None"
proof -
  have b: "serveBegin undefined (\<lambda>_. None) ''ada'' ''10.0.0.1'' (ny_srv net0) = Inr (ada_sess, lab_srv1)"
    by (simp add: net_init_def serveBegin_def server_New_def index_ada one_digit Let_def)
  have r: "serveRegister ada_sess ''ada'' lab_srv1 = (False, ny_srv net2)"
    by (simp add: serveRegister_def server_New_def index_ada publishSessionsLocked_def Let_def)
  have "Serve 12 undefined undefined (\<lambda>_. None) ''ada'' ''10.0.0.1'' ''garbage'' EOF (ny_srv net0) \<noteq> None"
    using session_run_returns [of "''garbage''" 12 undefined undefined ada_sess EOF "ny_srv net2"]
    by (auto simp: Serve_def b r split: option.split)
  then obtain err out srv' where s: "Serve 12 undefined undefined (\<lambda>_. None) ''ada'' ''10.0.0.1'' ''garbage'' EOF (ny_srv net0) = Some (err, out, srv')"
    by auto
  from serve_cleans_up [OF b r s, of Running] s show ?thesis by auto
qed

section \<open>A conversation\<close>

text \<open>Dispatching requests one by one: the replies, the server and how the conversation ends. A request to close the session is the
  last one, and so is one after which the session's own context is cancelled.\<close>

fun converse :: "golib \<Rightarrow> xmllib \<Rightarrow> nsess \<Rightarrow> server \<Rightarrow> rpc list \<Rightarrow> reply list \<times> server \<times> run_err option" where
  "converse E X s srv [] = ([], srv, None)"
| "converse E X s srv (r # rs) =
    (case dispatch E X s srv r of (rep, srv') \<Rightarrow>
       if rp_name r = OpCloseSession then ([rep], srv', None)
       else if se_id s \<in> set (sv_cancelled srv') then ([rep], srv', Some RunCanceled)
       else (case converse E X s srv' rs of (reps, srv'', e) \<Rightarrow> (rep # reps, srv'', e)))"

fun write_replies :: "version \<Rightarrow> reply list \<Rightarrow> bytes \<Rightarrow> run_err + bytes" where
  "write_replies ver [] out = Inr out"
| "write_replies ver (r # rs) out = (case writeReply ver r out of Inl e \<Rightarrow> Inl e | Inr out' \<Rightarrow> write_replies ver rs out')"

text \<open>A text that the decoder reads as the request and that the framing can carry.\<close>

definition request_text :: "xmllib \<Rightarrow> version \<Rightarrow> bytes \<times> rpc \<Rightarrow> bool" where
  "request_text X ver m \<longleftrightarrow> Decode X (fst m) = Inr (rpc_msg (snd m)) \<and> sendable ver (fst m)"

text \<open>The requests that end the session they arrive on.\<close>

definition ends_session :: "nsess \<Rightarrow> rpc \<Rightarrow> bool" where
  "ends_session s r \<longleftrightarrow> rp_name r = OpCloseSession \<or> rp_name r = OpKillSession \<and> rp_session r = se_id s"

lemma cancel_if: "(c \<Longrightarrow> sv_cancelled (snd a) = x) \<Longrightarrow> (\<not> c \<Longrightarrow> sv_cancelled (snd b) = x) \<Longrightarrow> sv_cancelled (snd (if c then a else b)) = x"
  by simp

lemma dispatch_cancelled: "rp_name r \<noteq> OpKillSession \<Longrightarrow> sv_cancelled (snd (dispatch E X s srv r)) = sv_cancelled srv"
  unfolding dispatch_def
  by (intro cancel_if)
    (simp_all add: doEdit_def doCopy_def doDelete_def doLock_def doCommit_def answer_def Let_def split: sum.split prod.split)

lemma kill_cancels_other:
  "rp_session r \<noteq> se_id s \<Longrightarrow> se_id s \<notin> set (sv_cancelled srv) \<Longrightarrow> se_id s \<notin> set (sv_cancelled (snd (doKill s srv r)))"
  by (auto simp: doKill_def Kill_def cancel_session_def split: option.split)

lemma stays_open:
  assumes "\<not> ends_session s r" and "se_id s \<notin> set (sv_cancelled srv)"
  shows "se_id s \<notin> set (sv_cancelled (snd (dispatch E X s srv r)))"
proof (cases "rp_name r = OpKillSession")
  case True
  then have "snd (dispatch E X s srv r) \<in> {srv, snd (doKill s srv r)}"
    by (simp add: dispatch_def)
  with kill_cancels_other [of r s srv] assms True show ?thesis by (auto simp: ends_session_def)
qed (use dispatch_cancelled [of r E X s srv] assms(2) in simp)

lemma converse_all:
  "list_all (\<lambda>r. \<not> ends_session s r) rs \<Longrightarrow> se_id s \<notin> set (sv_cancelled srv) \<Longrightarrow> converse E X s srv rs = (reps, srv', err)
    \<Longrightarrow> length reps = length rs \<and> err = None"
proof (induction rs arbitrary: srv reps)
  case (Cons r rs)
  obtain rep srvA where d: "dispatch E X s srv r = (rep, srvA)" by fastforce
  have open_still: "se_id s \<notin> set (sv_cancelled srvA)" using stays_open [of s r srv E X] Cons.prems(1,2) d by simp
  obtain reps' srv'' e where c: "converse E X s srvA rs = (reps', srv'', e)" by (cases "converse E X s srvA rs") auto
  have "rp_name r \<noteq> OpCloseSession" using Cons.prems(1) by (simp add: ends_session_def)
  with Cons.prems(3) d open_still c have r: "reps = rep # reps'" "srv'' = srv'" "e = err" by simp_all
  from Cons.IH [OF _ open_still c [unfolded r(2,3)]] Cons.prems(1) r(1) show ?case by simp
qed simp

lemma ReadMessage_end: "ver = Version10 \<or> ver = Version11 \<Longrightarrow> fst (ReadMessage (NewReader [] EOF ver)) = Inl EOF"
  by (auto simp: ReadMessage_10 ReadMessage_11 read11.simps)

lemma read_frame:
  assumes "ver = Version10 \<or> ver = Version11" and "sendable ver m" and "Write ver m = Inr f"
  shows "ReadMessage (NewReader (f @ rest) e ver) = (Inr m, NewReader rest e ver)"
  using assms eom.dec_enc chunked.dec_enc by blast

lemma conversation:
  assumes "ver = Version10 \<or> ver = Version11" and "list_all (request_text X ver) ms"
    and "se_id s \<notin> set (sv_cancelled srv)" and "write_all (Write ver) (map fst ms) = Inr fs"
    and "converse E X s srv (map snd ms) = (reps, srv', err)" and "write_replies ver reps out = Inr out'"
    and "length ms < fuel"
  shows "run_loop fuel E X s ver (NewReader fs EOF ver) out srv = Some (err, out', srv')"
  using assms(2-7)
proof (induction ms arbitrary: fs srv reps out fuel)
  case Nil
  then obtain k where "fuel = Suc k" by (cases fuel) auto
  with Nil ReadMessage_end [OF assms(1)] show ?case
    by (auto simp: run_loop.simps(2) split: prod.split sum.split)
next
  case (Cons m ms)
  obtain raw r where m: "m = (raw, r)" by (cases m)
  obtain k where k: "fuel = Suc k" using Cons.prems(6) by (cases fuel) auto
  have pr: "Decode X raw = Inr (rpc_msg r)" "sendable ver raw" using Cons.prems(1) m by (auto simp: request_text_def)
  obtain f fs' where f: "Write ver raw = Inr f" "write_all (Write ver) (map fst ms) = Inr fs'" "fs = f @ fs'"
    using Cons.prems(3) m by (auto split: sum.splits)
  obtain rep srvA where d: "dispatch E X s srv r = (rep, srvA)" by (cases "dispatch E X s srv r")
  obtain reps' srvB e where c: "converse E X s srvA (map snd ms) = (reps', srvB, e)" by (cases "converse E X s srvA (map snd ms)") auto
  note step = run_loop.simps(2) [of k E X s ver "NewReader fs EOF ver" out srv] read_frame [OF assms(1) pr(2) f(1), of fs' EOF]
  consider "rp_name r = OpCloseSession" | "rp_name r \<noteq> OpCloseSession" "se_id s \<in> set (sv_cancelled srvA)"
    | "rp_name r \<noteq> OpCloseSession" "se_id s \<notin> set (sv_cancelled srvA)" by blast
  then show ?case
  proof cases
    case 1
    then have "reps = [rep]" "srv' = srvA" "err = None" using Cons.prems(4) m d by simp_all
    with 1 Cons.prems(2,5) pr(1) d f(3) k step show ?thesis by (auto split: sum.splits)
  next
    case 2
    then have r: "reps = [rep]" "srv' = srvA" "err = Some RunCanceled" using Cons.prems(4) m d by simp_all
    obtain j where "k = Suc j" using Cons.prems(6) k m by (cases k) auto
    with 2 r Cons.prems(2,5) pr(1) d f(3) k step show ?thesis by (auto simp: run_loop.simps(2) [of j] split: sum.splits)
  next
    case 3
    then have r: "reps = rep # reps'" "srvB = srv'" "e = err" using Cons.prems(4) m d c by simp_all
    obtain outA where w: "writeReply ver rep out = Inr outA" "write_replies ver reps' outA = Inr out'"
      using Cons.prems(5) r(1) by (auto split: sum.splits)
    have "run_loop k E X s ver (NewReader fs' EOF ver) outA srvA = Some (err, out', srv')"
      using Cons.prems k by (intro Cons.IH [OF _ 3(2) f(2) c [unfolded r] w(2)]) auto
    with 3 Cons.prems(2) pr(1) d w f(3) k step show ?thesis by simp
  qed
qed

text \<open>C31: A client that sends requests one after the other and closes its side gets, in the same order
  and in the negotiated framing, exactly the replies of dispatching them one by one, up to and including the first request that
  closes the session or cancels it; what comes after that one is not read. The server ends in the state those dispatches lead to,
  and the loop returns without an error unless the session was cancelled. As long as no request closes the session or kills it by its
  own identifier, every request is answered; killing other sessions does not stop the conversation.\<close>

theorem conversation_answered:
  assumes "ver = Version10 \<or> ver = Version11" and "list_all (request_text X ver) ms"
    and "se_id s \<notin> set (sv_cancelled srv)" and "write_all (Write ver) (map fst ms) = Inr fs"
    and "converse E X s srv (map snd ms) = (reps, srv', err)" and "write_replies ver reps [] = Inr out"
  shows "run_loop (Suc (length ms)) E X s ver (NewReader fs EOF ver) [] srv = Some (err, out, srv')
    \<and> (list_all (\<lambda>m. \<not> ends_session s (snd m)) ms \<longrightarrow> length reps = length ms \<and> err = None)"
proof -
  have "run_loop (Suc (length ms)) E X s ver (NewReader fs EOF ver) [] srv = Some (err, out, srv')"
    by (rule conversation [OF assms]) simp
  moreover have "length reps = length ms \<and> err = None" if "list_all (\<lambda>m. \<not> ends_session s (snd m)) ms"
    using converse_all [OF _ assms(3,5)] that by (simp add: list.pred_map comp_def)
  ultimately show ?thesis by blast
qed

text \<open>A client that takes the candidate's lock, closes the session and sends one more request.\<close>

abbreviation bye_rpc :: rpc where
  "bye_rpc \<equiv> no_rpc\<lparr>rp_id := ''2'', rp_name := OpCloseSession\<rparr>"

abbreviation talk_lib :: xmllib where
  "talk_lib \<equiv> \<lparr>xml_root = (\<lambda>b. if b = ''<lock/>''
       then Root (XName [] ''rpc'') [XAttr (XName [] ''message-id'') ''1'']
         (Inr ([], [Elem (XName [] OpLock) [] [] [Elem (XName [] ''target'') [] [] [Elem (XName [] Candidate) [] [] []]]]))
       else Root (XName [] ''rpc'') [XAttr (XName [] ''message-id'') ''2''] (Inr ([], [Elem (XName [] OpCloseSession) [] [] []]))),
     quote_str = (\<lambda>s. s), format_float = (\<lambda>x. []), conv_i64 = (\<lambda>x. 0)\<rparr>"

lemma talk_decodes: "Decode talk_lib ''<lock/>'' = Inr (rpc_msg lock_rpc)" "Decode talk_lib ''<bye/>'' = Inr (rpc_msg bye_rpc)"
  by (simp_all add: Decode_def decodeRPC_def decodeOp_def attr_of_def op_child_def decodeDatastore_def)

lemma ok_written: "i \<in> {''1'', ''2''} \<Longrightarrow> \<exists>b. writeReply Version11 (okReply i) out = Inr b"
  by (auto simp: writeReply_def EncodeReply_def okReply_def marshal_doc_def BaseNamespace_def Write_def Write1_1_def MaxMessageSize_def
      escape_text_plain plain_text_char_def)

theorem conversation_answered_witness:
  "\<exists>fs out srv'. write_all (Write Version11) [''<lock/>'', ''<bye/>'', ''<lock/>''] = Inr fs
    \<and> run_loop 4 (uptime_lib 0) talk_lib ada_sess Version11 (NewReader fs EOF Version11) [] lab_server = Some (None, out, srv')
    \<and> map_of (h_locks (sv_heap srv' 0)) Candidate = Some ''1''"
proof -
  let ?ms = "[(''<lock/>'', lock_rpc), (''<bye/>'', bye_rpc), (''<lock/>'', lock_rpc)]"
  have sd: "sendable Version11 ''<lock/>''" "sendable Version11 ''<bye/>''" by (simp_all add: sendable_def MaxMessageSize_def)
  obtain fs where fs: "write_all (Write Version11) (map fst ?ms) = Inr fs"
    using chunked.stream_round_trip [of "map fst ?ms"] sd by fastforce
  obtain srv' where l: "dispatch (uptime_lib 0) talk_lib ada_sess lab_server lock_rpc = (okReply ''1'', srv')" "sv_cancelled srv' = []"
      "map_of (h_locks (sv_heap srv' 0)) Candidate = Some ''1''"
    by (simp add: dispatch_def doLock_def storeName_def answer_def Lock_def store_def se_ctx_def se_addr_def server_New_def WithSessionID_def)
  have "dispatch (uptime_lib 0) talk_lib ada_sess srv' bye_rpc = (okReply ''2'', srv')" by (simp add: dispatch_def mutating_def)
  then have c: "converse (uptime_lib 0) talk_lib ada_sess lab_server (map snd ?ms) = ([okReply ''1'', okReply ''2''], srv', None)" using l by simp
  obtain b where b: "writeReply Version11 (okReply ''1'') [] = Inr b" using ok_written [of "''1''" "[]"] by blast
  obtain out where "writeReply Version11 (okReply ''2'') b = Inr out" using ok_written [of "''2''" b] by blast
  with b have w: "write_replies Version11 [okReply ''1'', okReply ''2''] [] = Inr out" by simp
  have p: "list_all (request_text talk_lib Version11) ?ms"
    unfolding list.pred_inject request_text_def fst_conv snd_conv talk_decodes using sd by simp
  have nc: "se_id ada_sess \<notin> set (sv_cancelled lab_server)" by (simp add: server_New_def)
  have "Suc (length ?ms) = 4" by simp
  with conversation_answered [OF _ p nc fs c w] have "run_loop 4 (uptime_lib 0) talk_lib ada_sess Version11 (NewReader fs EOF Version11) [] lab_server
      = Some (None, out, srv')" by metis
  with fs l(3) show ?thesis by auto
qed

end
