(* ===== verification/Dataplane.thy ===== *)
theory Dataplane
  imports Restconf Ncserver_Run
begin

text \<open>
  The data plane of \<open>cmd/labnetconf/serve.go\<close>: how the users and the admission of the active snapshot reach the
  NETCONF server, the SSH listener and the RESTCONF server, at the start and on every reload. A reload either
  publishes the snapshot to all three or leaves nobody able to log in. Starting and stopping the listeners,
  the flags and the management plane are in other theories or left out.
\<close>

section \<open>Flags\<close>

definition listenOff :: "jsonlib \<Rightarrow> string \<Rightarrow> bool" where
  "listenOff J s \<longleftrightarrow> ToLower J (TrimSpace s) \<in> {''off'', ''none'', ''-''}"

definition managementOff :: "jsonlib \<Rightarrow> string \<Rightarrow> bool" where
  "managementOff J s \<longleftrightarrow> ToLower J (TrimSpace s) \<in> {[], ''off'', ''none'', ''-''}"

definition resolveListener :: "jsonlib \<Rightarrow> string \<Rightarrow> string \<Rightarrow> bool \<Rightarrow> string \<times> bool" where
  "resolveListener J flag yamlAddr yamlEnabled =
    (if listenOff J flag then ([], False)
     else if TrimSpace flag = [] then (if \<not> yamlEnabled then ([], False) else (yamlAddr, True))
     else (TrimSpace flag, True))"

section \<open>Users\<close>

definition resolvePath :: "cfglib \<Rightarrow> string \<Rightarrow> string \<Rightarrow> string" where
  "resolvePath K p baseDir =
    (let p = TrimSpace p in if p = [] \<or> prefix ''/'' p then p else cf_join K baseDir p)"

definition namespaces :: "snapshot \<Rightarrow> string \<Rightarrow> string gomap" where
  "namespaces snap profile = (case ProfileNamed (Some snap) profile of
     None \<Rightarrow> []
   | Some p \<Rightarrow> fold (\<lambda>m out. if md_name m \<noteq> [] \<and> md_namespace m \<noteq> [] then kv_put (md_name m) (md_namespace m) out else out) (sf_modules p) [])"

definition nc_user_of :: "app \<Rightarrow> snapshot \<Rightarrow> suser \<Rightarrow> nuser" where
  "nc_user_of a snap u =
    (let h = (case UserDatastore (Some a) (su_name u) of Some h \<Rightarrow> Some h | None \<Rightarrow> Datastore_of (Some a) (su_profile u)) in
     \<lparr>nu_name = su_name u, nu_profile = su_profile u, nu_access = su_access u, nu_handle = h, nu_ns = namespaces snap (su_profile u)\<rparr>)"

definition ssh_user_of :: "cfglib \<Rightarrow> string \<Rightarrow> suser \<Rightarrow> ssh_user" where
  "ssh_user_of K baseDir u = \<lparr>hu_name = su_name u, hu_passwordFile = resolvePath K (su_passwordFile u) baseDir,
     hu_keysFile = resolvePath K (su_authorizedKeysFile u) baseDir\<rparr>"

text \<open>The loop over the users stops at the first password that cannot be read.\<close>

fun data_users :: "cfglib \<Rightarrow> app \<Rightarrow> snapshot \<Rightarrow> string \<Rightarrow> suser list \<Rightarrow> string + nuser list \<times> ssh_user list \<times> rc_user list" where
  "data_users K a snap baseDir [] = Inr ([], [], [])"
| "data_users K a snap baseDir (u # us) =
    (let more = data_users K a snap baseDir us; nu = nc_user_of a snap u; hu = ssh_user_of K baseDir u in
     if su_passwordFile u = [] then map_sum id (\<lambda>(ns, hs, rs). (nu # ns, hu # hs, rs)) more
     else (case cf_file K (resolvePath K (su_passwordFile u) baseDir) of
             Inl err \<Rightarrow> Inl (''user '' @ cf_quote K (su_name u) @ '' password: '' @ err)
           | Inr pw \<Rightarrow> map_sum id (\<lambda>(ns, hs, rs). (nu # ns, hu # hs,
               \<lparr>ru_name = su_name u, ru_password = pw, ru_profile = su_profile u, ru_access = su_access u\<rparr> # rs)) more))"

definition dataPlaneUsers :: "cfglib \<Rightarrow> app \<Rightarrow> snapshot \<Rightarrow> string \<Rightarrow> string + nuser list \<times> ssh_user list \<times> rc_user list" where
  "dataPlaneUsers K a snap baseDir = data_users K a snap baseDir (sn_users snap)"

section \<open>Admission\<close>

definition sshCIDRs :: "snapshot \<Rightarrow> nprefix list option" where
  "sshCIDRs snap = (if sn_denyAll snap then Some [] else if sn_allow snap = [] then None else Some (sn_allow snap))"

definition restconfCIDRs :: "rclib \<Rightarrow> snapshot \<Rightarrow> string list option" where
  "restconfCIDRs R snap = Some (if sn_denyAll snap then [] else map (rl_prefix R) (sn_allow snap))"

section \<open>The callbacks for handles\<close>

definition nc_HandleFor :: "app \<Rightarrow> string \<Rightarrow> nat option" where
  "nc_HandleFor a username = (case UserDatastore (Some a) username of
     Some h \<Rightarrow> Some h
   | None \<Rightarrow>
       (case ss_active (ap_snaps a) of
          None \<Rightarrow> None
        | Some lv \<Rightarrow> (case UserNamed (Some lv) username of None \<Rightarrow> None | Some u \<Rightarrow> Datastore_of (Some a) (su_profile u))))"

definition rc_HandleFor :: "app \<Rightarrow> string \<Rightarrow> string \<Rightarrow> nat option" where
  "rc_HandleFor a username profile = (case UserDatastore (Some a) username of
     Some h \<Rightarrow> Some h
   | None \<Rightarrow> Datastore_of (Some a) profile)"

section \<open>Reloads\<close>

text \<open>The listeners, each of which may be absent, with the connections that were closed and the lines written.\<close>

record plane =
  pl_nc :: "server option"
  pl_ssh :: "ssh_server option"
  pl_rc :: "rc_server option"
  pl_closed :: "nat list"
  pl_log :: "string list"

definition logDataPlaneReload :: "string \<Rightarrow> plane \<Rightarrow> plane" where
  "logDataPlaneReload err pl = pl\<lparr>pl_log := pl_log pl @ [''labnetconf serve: data-plane reload: '' @ err]\<rparr>"

definition plane_SetAdmission :: "rclib \<Rightarrow> snapshot \<Rightarrow> plane \<Rightarrow> rc_server \<Rightarrow> plane \<times> derr option" where
  "plane_SetAdmission R snap pl rc = (case SetAdmission R rc (restconfCIDRs R snap) of
     Inl err \<Rightarrow> (pl\<lparr>pl_rc := Some rc\<rparr>, Some err)
   | Inr rc' \<Rightarrow> (pl\<lparr>pl_rc := Some rc'\<rparr>, None))"

definition fail_ssh :: "sshlib \<Rightarrow> (nat \<Rightarrow> net_addr option) \<Rightarrow> snapshot \<Rightarrow> plane \<Rightarrow> plane" where
  "fail_ssh S remote snap pl = (case pl_ssh pl of
     None \<Rightarrow> pl
   | Some s \<Rightarrow>
       (let (s1, gone) = CloseConns (ClearUsers s); (s2, refused) = SetAllow S remote (sshCIDRs snap) s1
        in pl\<lparr>pl_ssh := Some s2, pl_closed := pl_closed pl @ gone @ refused\<rparr>))"

definition failDataPlane :: "sshlib \<Rightarrow> rclib \<Rightarrow> (nat \<Rightarrow> net_addr option) \<Rightarrow> snapshot \<Rightarrow> plane \<Rightarrow> plane \<times> derr option" where
  "failDataPlane S R remote snap pl =
    (let pl1 = fail_ssh S remote snap pl;
         (pl2, admErr) = (case pl_rc pl1 of None \<Rightarrow> (pl1, None) | Some rc \<Rightarrow> plane_SetAdmission R snap pl1 (rc_ReplaceUsers rc []))
     in (pl2\<lparr>pl_nc := map_option (ReplaceUsers []) (pl_nc pl2)\<rparr>, admErr))"

text \<open>An error is written, then everybody is locked out, and an error of that is written too.\<close>

definition reload_failed :: "sshlib \<Rightarrow> rclib \<Rightarrow> (nat \<Rightarrow> net_addr option) \<Rightarrow> snapshot \<Rightarrow> string \<Rightarrow> plane \<Rightarrow> plane" where
  "reload_failed S R remote snap err pl =
    (let (pl1, admErr) = failDataPlane S R remote snap (logDataPlaneReload err pl)
     in case admErr of None \<Rightarrow> pl1 | Some e \<Rightarrow> logDataPlaneReload (error_string (Some e)) pl1)"

definition reload_rc :: "sshlib \<Rightarrow> rclib \<Rightarrow> (nat \<Rightarrow> net_addr option) \<Rightarrow> snapshot \<Rightarrow> rc_user list \<Rightarrow> plane \<Rightarrow> plane" where
  "reload_rc S R remote snap rcUsers pl = (case pl_rc pl of
     None \<Rightarrow> pl
   | Some rc \<Rightarrow>
       (case plane_SetAdmission R snap pl (rc_ReplaceUsers rc rcUsers) of
          (pl1, None) \<Rightarrow> pl1
        | (pl1, Some e) \<Rightarrow> reload_failed S R remote snap (error_string (Some e)) pl1))"

text \<open>The whole of \<open>reloadDataPlane\<close>; it does not end where reading a file of authorized keys does not.\<close>

definition reloadDataPlane :: "cfglib \<Rightarrow> sshlib \<Rightarrow> rclib \<Rightarrow> (nat \<Rightarrow> net_addr option) \<Rightarrow> app option \<Rightarrow> string \<Rightarrow> plane \<Rightarrow> plane option" where
  "reloadDataPlane K S R remote svc baseDir pl = (case svc of
     None \<Rightarrow> Some pl
   | Some a \<Rightarrow>
       (case ss_active (ap_snaps a) of
          None \<Rightarrow> Some pl
        | Some snap \<Rightarrow>
            (case dataPlaneUsers K a snap baseDir of
               Inl err \<Rightarrow> Some (reload_failed S R remote snap err pl)
             | Inr (ncUsers, sshUsers, rcUsers) \<Rightarrow>
                 (let pl1 = pl\<lparr>pl_nc := map_option (ReplaceUsers ncUsers) (pl_nc pl)\<rparr> in
                  case pl_ssh pl1 of
                    None \<Rightarrow> Some (reload_rc S R remote snap rcUsers pl1)
                  | Some s \<Rightarrow>
                      (case ssh_ReplaceUsers K S sshUsers s of
                         None \<Rightarrow> None
                       | Some (Inl err) \<Rightarrow> Some (reload_failed S R remote snap err pl1)
                       | Some (Inr (s1, gone)) \<Rightarrow>
                           (let (s2, refused) = SetAllow S remote (sshCIDRs snap) s1
                            in Some (reload_rc S R remote snap rcUsers
                                 (pl1\<lparr>pl_ssh := Some s2, pl_closed := pl_closed pl1 @ gone @ refused\<rparr>))))))))"

section \<open>A reload publishes or locks out\<close>

text \<open>Nobody can log in, and nobody is logged in.\<close>

definition locked_out :: "plane \<Rightarrow> bool" where
  "locked_out pl \<longleftrightarrow>
     (case pl_nc pl of None \<Rightarrow> True | Some srv \<Rightarrow> sv_users srv = [] \<and> sv_table srv = [])
   \<and> (case pl_ssh pl of None \<Rightarrow> True | Some s \<Rightarrow> userMap s = [] \<and> sh_conns s = [])
   \<and> (case pl_rc pl of None \<Rightarrow> True | Some rc \<Rightarrow> rc_users rc = Some [])"

lemma replaced_none: "sv_users (ReplaceUsers [] srv) = []" "sv_table (ReplaceUsers [] srv) = []"
  by (simp_all add: ReplaceUsers_def indexUsers_def live_as_def)

lemma admission_users: "fst (plane_SetAdmission R snap pl rc) = pl\<lparr>pl_rc := pl_rc (fst (plane_SetAdmission R snap pl rc))\<rparr>
    \<and> (\<exists>rc'. pl_rc (fst (plane_SetAdmission R snap pl rc)) = Some rc' \<and> rc_users rc' = rc_users rc)"
  by (auto simp: plane_SetAdmission_def SetAdmission_def split: sum.split)

lemma fail_ssh_empty:
  "(case pl_ssh (fail_ssh S remote snap pl) of None \<Rightarrow> True | Some s \<Rightarrow> userMap s = [] \<and> sh_conns s = [])"
  "pl_rc (fail_ssh S remote snap pl) = pl_rc pl" "pl_nc (fail_ssh S remote snap pl) = pl_nc pl" "pl_log (fail_ssh S remote snap pl) = pl_log pl"
  by (auto simp: fail_ssh_def CloseConns_def ClearUsers_def SetAllow_def storeAllow_def userMap_def Let_def split: option.split)

lemma fail_locks_out:
  "locked_out (fst (failDataPlane S R remote snap pl)) \<and> pl_log (fst (failDataPlane S R remote snap pl)) = pl_log pl"
proof -
  let ?p = "fail_ssh S remote snap pl"
  define q where "q = (case pl_rc ?p of None \<Rightarrow> (?p, None) | Some rc \<Rightarrow> plane_SetAdmission R snap ?p (rc_ReplaceUsers rc []))"
  have q: "pl_ssh (fst q) = pl_ssh ?p" "pl_nc (fst q) = pl_nc ?p" "pl_log (fst q) = pl_log ?p"
    "case pl_rc (fst q) of None \<Rightarrow> True | Some rc \<Rightarrow> rc_users rc = Some []"
    by (auto simp: q_def plane_SetAdmission_def SetAdmission_def rc_ReplaceUsers_def split: option.splits sum.splits)
  have "failDataPlane S R remote snap pl = ((fst q)\<lparr>pl_nc := map_option (ReplaceUsers []) (pl_nc (fst q))\<rparr>, snd q)"
    by (simp add: failDataPlane_def q_def [symmetric] split_def Let_def)
  then show ?thesis using q fail_ssh_empty [of S remote snap pl] replaced_none by (auto simp: locked_out_def split: option.splits)
qed

lemma failed_reload_locks_out:
  "locked_out (reload_failed S R remote snap err pl) \<and> (\<exists>l ls. pl_log (reload_failed S R remote snap err pl) = pl_log pl @ l # ls)"
proof -
  let ?f = "failDataPlane S R remote snap (logDataPlaneReload err pl)"
  have "reload_failed S R remote snap err pl = (case snd ?f of None \<Rightarrow> fst ?f | Some e \<Rightarrow> logDataPlaneReload (error_string (Some e)) (fst ?f))"
    by (simp add: reload_failed_def split_def Let_def)
  then show ?thesis using fail_locks_out [of S R remote snap "logDataPlaneReload err pl"]
    by (auto simp: logDataPlaneReload_def locked_out_def split: option.split)
qed

text \<open>What a successful reload leaves in the listeners.\<close>

definition published :: "rclib \<Rightarrow> snapshot \<Rightarrow> nuser list \<Rightarrow> ssh_user list \<Rightarrow> rc_user list \<Rightarrow> plane \<Rightarrow> bool" where
  "published R snap ns hs rs pl \<longleftrightarrow>
     (case pl_nc pl of None \<Rightarrow> True | Some srv \<Rightarrow> sv_users srv = indexUsers ns \<and> list_all (\<lambda>is. live_as (indexUsers ns) (se_user (snd is))) (sv_table srv))
   \<and> (case pl_ssh pl of None \<Rightarrow> True | Some s \<Rightarrow> dom (map_of (userMap s)) = hu_name ` set hs \<and> sh_allow s = Some (sshCIDRs snap))
   \<and> (case pl_rc pl of None \<Rightarrow> True
      | Some rc \<Rightarrow> rc_users rc = Some rs \<and> (\<exists>adm. parseAdmission R (restconfCIDRs R snap) = Inr adm \<and> rc_admission rc = Some adm))"

lemma load_each_names: "load_each K S us out = Some (Inr m) \<Longrightarrow> fst ` set m = fst ` set out \<union> hu_name ` set us"
  by (induction us arbitrary: out) (auto split: if_splits option.splits sum.splits)

lemma replaced_users:
  assumes "ssh_ReplaceUsers K S us s = Some (Inr (s1, gone))"
  shows "dom (map_of (userMap s1)) = hu_name ` set us"
proof -
  from assms obtain m where m: "loadUsers K S us = Some (Inr m)" "publishUsers m s = (s1, gone)"
    by (cases "loadUsers K S us"; cases "the (loadUsers K S us)") (auto simp: ssh_ReplaceUsers_def)
  then have "load_each K S us [] = Some (Inr m)" by (auto simp: loadUsers_def split: option.splits sum.splits if_splits)
  from load_each_names [OF this] have "fst ` set m = hu_name ` set us" by simp
  moreover have "map fst (userMap s1) = map fst m"
  proof -
    have "map fst (fst (assign_gens old xs g)) = map fst xs" for old xs g
      by (induction old xs g rule: assign_gens.induct) (auto simp: Let_def split_def split: option.splits)
    then show ?thesis using m(2) by (auto simp: publishUsers_def userMap_def split_def Let_def)
  qed
  ultimately show ?thesis by (metis dom_map_of_conv_image_fst list.set_map)
qed

lemma reload_rc_outcome:
  "(let pl' = reload_rc S R remote snap rcUsers pl in
     pl_nc pl' = pl_nc pl \<and> pl_ssh pl' = pl_ssh pl \<and> pl_log pl' = pl_log pl
       \<and> (case pl_rc pl' of None \<Rightarrow> True
          | Some rc \<Rightarrow> rc_users rc = Some rcUsers \<and> (\<exists>adm. parseAdmission R (restconfCIDRs R snap) = Inr adm \<and> rc_admission rc = Some adm))
   \<or> locked_out pl' \<and> (\<exists>l ls. pl_log pl' = pl_log pl @ l # ls))"
proof (cases "pl_rc pl")
  case None
  then show ?thesis by (simp add: reload_rc_def)
next
  case (Some rc)
  show ?thesis
  proof (cases "parseAdmission R (restconfCIDRs R snap)")
    case (Inl err)
    with Some have "reload_rc S R remote snap rcUsers pl = reload_failed S R remote snap (error_string (Some err)) (pl\<lparr>pl_rc := Some (rc_ReplaceUsers rc rcUsers)\<rparr>)"
      by (simp add: reload_rc_def plane_SetAdmission_def SetAdmission_def)
    with failed_reload_locks_out [of S R remote snap "error_string (Some err)" "pl\<lparr>pl_rc := Some (rc_ReplaceUsers rc rcUsers)\<rparr>"]
    show ?thesis by (simp add: Let_def)
  next
    case (Inr adm)
    with Some show ?thesis by (simp add: reload_rc_def plane_SetAdmission_def SetAdmission_def rc_ReplaceUsers_def Let_def)
  qed
qed


section \<open>One datastore per user\<close>

lemma data_users_parts:
  assumes "data_users K a snap baseDir us = Inr (ns, hs, rs)"
  shows "ns = map (nc_user_of a snap) us \<and> hs = map (ssh_user_of K baseDir) us
    \<and> (\<forall>r \<in> set rs. \<exists>u \<in> set us. ru_name r = su_name u \<and> ru_profile r = su_profile u \<and> ru_access r = su_access u
         \<and> su_passwordFile u \<noteq> [] \<and> cf_file K (resolvePath K (su_passwordFile u) baseDir) = Inr (ru_password r))"
  using assms
proof (induction us arbitrary: ns hs rs)
  case (Cons u us)
  from Cons.prems obtain ns' hs' rs' where m: "data_users K a snap baseDir us = Inr (ns', hs', rs')"
    by (cases "data_users K a snap baseDir us") (auto simp: Let_def split: if_splits sum.splits)
  show ?case using Cons.prems Cons.IH [OF m] m by (auto simp: Let_def split: if_splits sum.splits)
qed simp

lemma indexed_user:
  assumes "distinct (map nu_name us)" and "u \<in> set us"
  shows "map_of (indexUsers us) (nu_name u) = Some (if nu_access u = [] then u\<lparr>nu_access := UserAccessReadWrite\<rparr> else u)"
proof -
  have "map_of (fold (\<lambda>u m. (let u' = (if nu_access u = [] then u\<lparr>nu_access := UserAccessReadWrite\<rparr> else u) in kv_put (nu_name u) u' m)) us m) (nu_name u)
      = (if u \<in> set us then Some (if nu_access u = [] then u\<lparr>nu_access := UserAccessReadWrite\<rparr> else u) else map_of m (nu_name u))"
    if "distinct (map nu_name us)" "\<And>w. w \<in> set us \<Longrightarrow> nu_name w = nu_name u \<Longrightarrow> w = u" for us m
    using that
  proof (induction us arbitrary: m)
    case (Cons w us)
    have "w = u \<or> nu_name w \<noteq> nu_name u" using Cons.prems(2) [of w] by auto
    with Cons show ?case by (auto simp: Let_def)
  qed simp
  from this [OF assms(1)] assms show ?thesis by (auto simp: indexUsers_def inj_on_def distinct_map)
qed

text \<open>C14: One datastore per user on all protocols: after a successful reload of a service whose invariant holds, a client
  that RESTCONF authenticates is a user of the active snapshot, with its profile and access; a NETCONF session of that user starts
  with the same name, profile and access, and both work on the same live handle of the user's profile.\<close>

theorem one_datastore_per_user:
  assumes "app_ok E a" and "ss_active (ap_snaps a) = Some snap" and "dataPlaneUsers K a snap baseDir = Inr (ns, hs, rs)"
    and "distinct (map su_name (sn_users snap))" and "published R snap ns hs rs pl" and "pl_nc pl = Some srv" and "pl_rc pl = Some rc"
    and "rc_handleFor rc = Some (rc_HandleFor a)" and "authenticate rc req = Inr u" and "ru_access u \<noteq> []"
  shows "\<exists>p r s srv'. u \<in> set rs \<and> ProfileNamed (Some snap) (ru_profile u) = Some p \<and> slot_ok a p r \<and> handleForUser rc u = Some r
    \<and> serveBegin X (nc_HandleFor a) (ru_name u) addr srv = Inr (s, srv') \<and> se_addr s = r
    \<and> nu_name (se_user s) = ru_name u \<and> nu_profile (se_user s) = ru_profile u \<and> nu_access (se_user s) = ru_access u"
proof -
  have parts: "ns = map (nc_user_of a snap) (sn_users snap)"
    "\<And>r. r \<in> set rs \<Longrightarrow> \<exists>u \<in> set (sn_users snap). ru_name r = su_name u \<and> ru_profile r = su_profile u \<and> ru_access r = su_access u"
    using data_users_parts [OF assms(3) [unfolded dataPlaneUsers_def]] by auto
  have pub: "sv_users srv = indexUsers ns" "rc_users rc = Some rs" using assms(5-7) by (simp_all add: published_def)
  have fold_mem: "foldl (\<lambda>matched u. if f u then Some u else matched) m us = Some u \<Longrightarrow> u \<in> set us \<or> m = Some u" for f m us u
    by (induction us arbitrary: m) (auto split: if_splits)
  have u: "u \<in> set rs" using assms(9) pub(2) by (auto simp: authenticate_def Let_def dest!: fold_mem split: option.splits prod.splits)
  then obtain su where su: "su \<in> set (sn_users snap)" "ru_name u = su_name su" "ru_profile u = su_profile su" "ru_access u = su_access su"
    using parts(2) by blast
  have "user_table snap a" using assms(1,2) by (auto simp: app_ok_def)
  then obtain p r where p: "ProfileNamed (Some snap) (su_profile su) = Some p" "map_of (ap_userHandles a) (su_name su) = Some r" "slot_ok a p r"
    using su(1) unfolding user_table_def by meson
  have "nu_name (nc_user_of a snap w) = su_name w" for w by (simp add: nc_user_of_def Let_def)
  then have "distinct (map nu_name ns)" using assms(4) by (simp add: parts(1) comp_def)
  from indexed_user [OF this, of "nc_user_of a snap su"] su(1)
  have "map_of (sv_users srv) (su_name su) = Some (nc_user_of a snap su)"
    using assms(10) su(4) by (simp add: pub(1) parts(1) nc_user_of_def Let_def)
  moreover have "nc_HandleFor a (su_name su) = Some r" "rc_HandleFor a (su_name su) (su_profile su) = Some r"
    using p(2) by (simp_all add: nc_HandleFor_def rc_HandleFor_def UserDatastore_def)
  ultimately show ?thesis using u p su assms(8)
    by (auto simp: serveBegin_def handleForUser_def nc_user_of_def se_addr_def Let_def)
qed

section \<open>One admission for both protocols\<close>

unbundle bit_operations_syntax

definition np_masked :: "nprefix \<Rightarrow> nprefix" where
  "np_masked p = p\<lparr>np_addr := (case np_addr p of
     ANone \<Rightarrow> ANone
   | A4 w \<Rightarrow> A4 (push_bit (32 - np_bits p) (drop_bit (32 - np_bits p) w))
   | A6 w z \<Rightarrow> A6 (push_bit (128 - np_bits p) (drop_bit (128 - np_bits p) w)) z)\<rparr>"

text \<open>Documented behaviour of the library: the text of a valid prefix parses, and \<open>net.ParseCIDR\<close> returns the masked network.\<close>

definition cidr_text_ok :: "rclib \<Rightarrow> bool" where
  "cidr_text_ok R \<longleftrightarrow> (\<forall>p. prefix_valid p \<longrightarrow> rl_cidr R (TrimSpace (rl_prefix R p)) = Some (np_masked p))"

definition not_mapped :: "nprefix \<Rightarrow> bool" where
  "not_mapped p \<longleftrightarrow> (case np_addr p of A6 w z \<Rightarrow> \<not> (96 \<le> np_bits p \<and> drop_bit 32 w = 0xFFFF) | _ \<Rightarrow> True)"

lemma masked_quotient: "drop_bit k (push_bit k (drop_bit k w)) = drop_bit k (w :: 'a :: len word)"
  by (rule bit_eqI) (auto simp: bit_simps dest: bit_imp_le_length)

lemma masked_low: "k \<le> 32 \<Longrightarrow> drop_bit 32 (push_bit k (drop_bit k w)) = drop_bit 32 (w :: 128 word)"
  by (rule bit_eqI) (auto simp: bit_simps dest: bit_imp_le_length)

lemma Contains_masked: "Contains (np_masked p) ip = Contains p ip"
proof -
  have "prefix_valid (np_masked p) = prefix_valid p" by (auto simp: prefix_valid_def np_masked_def hasZone_def BitLen_def split: addr.split)
  then show ?thesis
    by (auto simp: Contains_def np_masked_def masked_quotient mask_and_zero prefix_valid_def BitLen_def split: addr.split)
qed

lemma masked_To4: "prefix_valid p \<Longrightarrow> not_mapped p \<Longrightarrow> net_To4 (np_masked p) = np_masked p"
  by (auto simp: net_To4_def np_masked_def not_mapped_def masked_low split: addr.split)

lemma parse_nets_texts:
  assumes "cidr_text_ok R" and "\<forall>p \<in> set ps. prefix_valid p"
  shows "parse_nets R (map (rl_prefix R) ps) = Inr (map np_masked ps)"
  using assms by (induction ps) (auto simp: cidr_text_ok_def)

text \<open>C24: NETCONF over SSH and RESTCONF admit the same clients: after a successful reload, for a snapshot whose networks are not
  IPv4-mapped ones, a client's address is admitted by the SSH listener if and only if it is admitted by the RESTCONF server.\<close>

theorem protocols_admit_the_same:
  assumes "cidr_text_ok R" and "published R snap ns hs rs pl" and "pl_ssh pl = Some s" and "pl_rc pl = Some rc"
    and "sn_denyAll snap = (sn_allow snap = [])" and "list_all prefix_valid (sn_allow snap)" and "list_all not_mapped (sn_allow snap)"
    and "ipFromRemote R text = Some ip" and "addrIP S remote = Unmap ip" and "ip \<noteq> ANone"
  shows "admitted S s remote = admit R rc text"
proof -
  have s: "sh_allow s = Some (sshCIDRs snap)" using assms(2,3) by (simp add: published_def)
  have rc: "\<exists>adm. parseAdmission R (restconfCIDRs R snap) = Inr adm \<and> rc_admission rc = Some adm" using assms(2,4) by (simp add: published_def)
  have ip: "Unmap ip \<noteq> ANone" using assms(10) by (simp add: Unmap_def split: addr.split)
  show ?thesis
  proof (cases "sn_denyAll snap")
    case True
    with rc have "rc_admission rc = Some ([], True)" by (simp add: restconfCIDRs_def parseAdmission_def)
    with True s show ?thesis by (simp add: admitted_def ssh_admit_def sshCIDRs_def admit_def)
  next
    case False
    with assms(5) have ne: "sn_allow snap \<noteq> []" by simp
    have "parseAdmission R (restconfCIDRs R snap) = Inr (map np_masked (sn_allow snap), False)"
      using ne False parse_nets_texts [OF assms(1)] assms(6) by (simp add: restconfCIDRs_def parseAdmission_def list_all_iff)
    with rc have "rc_admission rc = Some (map np_masked (sn_allow snap), False)" by simp
    moreover have "net_Contains (np_masked p) ip = Contains p (Unmap ip)" if "p \<in> set (sn_allow snap)" for p
      using that assms(6,7) by (simp add: net_Contains_def list_all_iff masked_To4 Contains_masked)
    ultimately have "admit R rc text = list_ex (\<lambda>p. Contains p (Unmap ip)) (sn_allow snap)"
      using assms(8) by (simp add: admit_def list_ex_iff)
    with s ne False ip assms(9) show ?thesis by (simp add: admitted_def ssh_admit_def sshCIDRs_def)
  qed
qed

section \<open>Samples\<close>


lemma rc_lib_parses: "\<exists>adm. parseAdmission rc_lib (restconfCIDRs rc_lib snap) = Inr adm"
proof -
  have "\<exists>ns. parse_nets rc_lib cs = Inr ns" for cs by (induction cs) (auto simp: rc_lib_def)
  then show ?thesis by (auto simp: parseAdmission_def restconfCIDRs_def Let_def split: sum.split) (metis sum.distinct(1))
qed

theorem one_datastore_per_user_witness:
  "\<exists>a u rc srv s srv'. app_Boot boot_golib boot_lib 7 live boot_opts = Some (Inr a) \<and> ru_name u = ''ada''
     \<and> serveBegin talk_lib (nc_HandleFor a) ''ada'' [] srv = Inr (s, srv') \<and> handleForUser rc u = Some (se_addr s)"
proof -
  obtain a snap where a: "app_Boot boot_golib boot_lib 7 live boot_opts = Some (Inr a)" "ss_active (ap_snaps a) = Some snap"
    "sn_users snap = compileUsers [boot_user]" by (rule boot_ready)
  define u where "u = \<lparr>ru_name = ''ada'', ru_password = ''{}'', ru_profile = ''r1'', ru_access = ''read-write''\<rparr>"
  have f: "cf_file boot_lib p = Inr ''{}''" for p by (simp add: boot_lib_def)
  obtain ns hs where d: "dataPlaneUsers boot_lib a snap ''/'' = Inr (ns, hs, [u])"
    using a(3) by (simp add: dataPlaneUsers_def compileUsers_def Let_def f u_def)
  obtain adm where adm: "parseAdmission rc_lib (restconfCIDRs rc_lib snap) = Inr adm" using rc_lib_parses by blast
  define rc where "rc = \<lparr>rc_users = Some [u], rc_admission = Some adm, rc_handles = [], rc_handleFor = Some (rc_HandleFor a), rc_yangDate = []\<rparr>"
  define req where "req = (rc_request ''GET'')\<lparr>rq_basic := Some (''ada'', ''{}'')\<rparr>"
  have pub: "published rc_lib snap ns hs [u] \<lparr>pl_nc = Some (server_New ns (ap_heap a)), pl_ssh = None, pl_rc = Some rc, pl_closed = [], pl_log = []\<rparr>"
    using adm by (simp add: published_def server_New_def rc_def)
  have "authenticate rc req = Inr u" by (simp add: authenticate_def rc_def req_def credential_ok_def trim_crlf_def u_def)
  from one_datastore_per_user [OF app_Boot_ok [OF boot_trip a(1)] a(2) d _ pub _ _ _ this, of "server_New ns (ap_heap a)" talk_lib "[]"] a(3)
  obtain r s srv' where "handleForUser rc u = Some r" "serveBegin talk_lib (nc_HandleFor a) ''ada'' [] (server_New ns (ap_heap a)) = Inr (s, srv')" "se_addr s = r"
    by (auto simp: compileUsers_def rc_def u_def)
  moreover have "ru_name u = ''ada''" by (simp add: u_def)
  ultimately show ?thesis using a(1) by blast
qed

text \<open>A text for prefixes that parses back, and a network.\<close>

definition prefix_text :: "nprefix \<Rightarrow> string" where
  "prefix_text p = (case np_addr p of
     ANone \<Rightarrow> ''0''
   | A4 w \<Rightarrow> ''4'' @ dec_digits (unat w) @ ''/'' @ dec_digits (np_bits p)
   | A6 w z \<Rightarrow> ''6'' @ dec_digits (unat w) @ ''/'' @ dec_digits (np_bits p))"

definition prefix_parse :: "string \<Rightarrow> nprefix option" where
  "prefix_parse s =
    (let n = dec_val (takeWhile is_digit (tl s)); b = dec_val (tl (dropWhile is_digit (tl s))) in
     Some (np_masked \<lparr>np_addr = (if hd s = CHR ''4'' then A4 (of_nat n) else A6 (of_nat n) []), np_bits = b\<rparr>))"

definition text_lib :: rclib where
  "text_lib = rc_lib\<lparr>rl_cidr := prefix_parse, rl_prefix := prefix_text\<rparr>"

lemma text_lib_ok: "cidr_text_ok text_lib"
  unfolding cidr_text_ok_def
proof (intro allI impI)
  fix p assume v: "prefix_valid p"
  have d: "takeWhile is_digit (dec_digits n @ CHR ''/'' # r) = dec_digits n" "dropWhile is_digit (dec_digits n @ CHR ''/'' # r) = CHR ''/'' # r" for n r
    using dec_digits_all_digits [of n] by (simp_all add: takeWhile_append dropWhile_append is_digit_def)
  have t: "TrimSpace (c # dec_digits m @ CHR ''/'' # dec_digits n) = c # dec_digits m @ CHR ''/'' # dec_digits n" if "c \<in> {CHR ''4'', CHR ''6''}" for c m n
  proof (rule TrimSpace_plain)
    have "is_digit (last (dec_digits n))" using dec_digits_all_digits [of n] by (simp add: last_in_set)
    then show "plain_ascii (last (c # dec_digits m @ CHR ''/'' # dec_digits n))" by (auto simp: plain_ascii_def is_digit_def)
  qed (use that in \<open>auto simp: plain_ascii_def\<close>)
  show "rl_cidr text_lib (TrimSpace (rl_prefix text_lib p)) = Some (np_masked p)"
  proof (cases "np_addr p")
    case (A4 w)
    then have "prefix_text p = CHR ''4'' # dec_digits (unat w) @ CHR ''/'' # dec_digits (np_bits p)" by (simp add: prefix_text_def)
    moreover have "\<lparr>np_addr = A4 w, np_bits = np_bits p\<rparr> = p" using A4 by (cases p) simp
    ultimately show ?thesis using t d by (simp add: text_lib_def prefix_parse_def dec_val_dec_digits)
  next
    case (A6 w z)
    then have "prefix_text p = CHR ''6'' # dec_digits (unat w) @ CHR ''/'' # dec_digits (np_bits p)" by (simp add: prefix_text_def)
    moreover have "\<lparr>np_addr = A6 w [], np_bits = np_bits p\<rparr> = p" using v A6 by (cases p) (simp add: prefix_valid_def hasZone_def)
    ultimately show ?thesis using t d by (simp add: text_lib_def prefix_parse_def dec_val_dec_digits)
  qed (use v in \<open>simp add: prefix_valid_def\<close>)
qed

abbreviation ten :: nprefix where
  "ten \<equiv> \<lparr>np_addr = A4 0x0A000000, np_bits = 8\<rparr>"

theorem protocols_admit_the_same_witness:
  "admitted ssh_lib \<lparr>sh_users = Some [], sh_allow = Some (Some [ten]), sh_nextGen = 0, sh_conns = []\<rparr>
       (Some (TCPAddr (Some [CHR 0x0A, CHR 0x00, CHR 0x00, CHR 0x01]) []))
   = admit text_lib (rc_sample\<lparr>rc_users := Some [], rc_admission := Some ([np_masked ten], False)\<rparr>) ''10.0.0.1''"
proof -
  let ?s = "\<lparr>sh_users = Some [], sh_allow = Some (Some [ten]), sh_nextGen = 0, sh_conns = []\<rparr>"
  let ?rc = "rc_sample\<lparr>rc_users := Some [], rc_admission := Some ([np_masked ten], False)\<rparr>"
  define snap :: snapshot where "snap = undefined\<lparr>sn_denyAll := False, sn_allow := [ten]\<rparr>"
  then have snap: "sn_denyAll snap = False" "sn_allow snap = [ten]" by simp_all
  have v: "prefix_valid ten" by (simp add: prefix_valid_def hasZone_def BitLen_def)
  have "parseAdmission text_lib (restconfCIDRs text_lib snap) = Inr ([np_masked ten], False)"
    using parse_nets_texts [OF text_lib_ok, of "[ten]"] v snap by (simp add: parseAdmission_def restconfCIDRs_def)
  then have pub: "published text_lib snap [] [] [] \<lparr>pl_nc = None, pl_ssh = Some ?s, pl_rc = Some ?rc, pl_closed = [], pl_log = []\<rparr>"
    using snap by (simp add: published_def userMap_def sshCIDRs_def) (rule exI [of _ False], simp)
  show ?thesis
    by (rule protocols_admit_the_same [OF text_lib_ok pub, where ip = "A4 0x0A000001"])
      (use snap v in \<open>simp_all add: not_mapped_def ipFromRemote_def text_lib_def rc_lib_def addrIP_def AddrFromSlice_def be_bytes_def Unmap_def\<close>)
qed

end
