(* ===== verification/Control_Service.thy ===== *)
theory Control_Service
  imports Dataplane Capabilities
begin

text \<open>
  What the adapters of the management plane (\<open>internal/control/rest\<close> and \<open>internal/control/mcp\<close>) share: the state they work
  on, the calls of the interface \<open>app.Service\<close> they make, and how the tokens follow the active snapshot (\<open>reloadAuth\<close> of both
  adapters, \<open>managementAuth\<close> of \<open>serve.go\<close>). The hooks that \<open>serve.go\<close> registers are numbered in the order of their
  registration. A call that never returns is \<open>None\<close>: one whose hook reads an endless file of keys, or one that waits
  for the mutex of the service after a \<open>Reset\<close> that panicked, since \<open>Reset\<close> does not release it.
\<close>

section \<open>State\<close>

datatype 'a decoded = DecEnd | DecBad | Dec 'a bool

record change_request =
  cq_expectedRevision :: string
  cq_idempotencyKey :: string
  cq_operations :: "apply_oper list"

record wait_request =
  wr_profile :: string
  wr_timeout :: string

text \<open>
  What lies outside: the libraries of the components, upper case of text that is not ASCII, the remote addresses of connections,
  the strict JSON decoders of the request bodies, durations and the text of an instant.
\<close>

record mlib =
  ml_go :: golib
  ml_cfg :: cfglib
  ml_json :: jsonlib
  ml_auth :: authlib
  ml_ssh :: sshlib
  ml_rc :: rclib
  ml_upper :: "string \<Rightarrow> string"
  ml_remote :: "nat \<Rightarrow> net_addr option"
  ml_change :: "bytes \<Rightarrow> change_request decoded"
  ml_reason :: "bytes \<Rightarrow> string decoded"
  ml_empty :: "bytes \<Rightarrow> unit decoded"
  ml_wait :: "bytes \<Rightarrow> wait_request decoded"
  ml_duration :: "string \<Rightarrow> int option"
  ml_rfc3339 :: "int \<Rightarrow> string"

text \<open>What one request meets: its context, the clock, random bytes, the identifier of a notification, the bootstrap file, the health
  functions of the configuration.\<close>

record moment =
  mo_ctx :: ctx
  mo_now :: int
  mo_random :: "bytes option \<times> bytes option \<times> bytes option"
  mo_requestRandom :: "bytes option"
  mo_ident :: string
  mo_stat :: stat
  mo_live :: "bool option"
  mo_ready :: "bool option"

text \<open>
  The service, the data plane with the NETCONF sessions, the verifier that both adapters share, the operator sessions, the origins that
  REST and MCP allow, the directory of the bootstrap file, whether the mutex of the service is lost, and the pinned actor of an adapter
  on standard input.
\<close>

record mgmt =
  me_app :: app
  me_plane :: plane
  me_auth :: "verifier option"
  me_sessions :: sess_store
  me_origins :: "string list"
  me_mcpOrigins :: "string list"
  me_baseDir :: string
  me_jammed :: bool
  me_stdioSecret :: string
  me_stdioActor :: "actor option"

section \<open>Tokens follow the snapshot\<close>

text \<open>\<open>Verifier.Replace\<close>, with the hook of the REST server that clears the operator sessions.\<close>

definition replaceAuth :: "verifier \<Rightarrow> mgmt \<Rightarrow> mgmt" where
  "replaceAuth nxt m = (case me_auth m of
     None \<Rightarrow> m
   | Some v \<Rightarrow>
       (let (v', hooks) = Replace v (Some nxt) in
        m\<lparr>me_auth := Some v', me_sessions := (if hooks = [] then me_sessions m else sess_Clear (me_sessions m))\<rparr>))"

definition storeOrigins :: "string list \<Rightarrow> mgmt \<Rightarrow> mgmt" where
  "storeOrigins nxt m = m\<lparr>me_origins := nxt\<rparr>"

definition failClosedAuth :: "mgmt \<Rightarrow> mgmt" where
  "failClosedAuth m =
    (let m1 = replaceAuth auth_Empty m in m1\<lparr>me_sessions := sess_Clear (me_sessions m1)\<rparr>)"

definition canonical_of :: "mgmt \<Rightarrow> state option" where
  "canonical_of m = Option.bind (ss_active (ap_snaps (me_app m))) sn_canonical"

definition rest_reloadAuth :: "cfglib \<Rightarrow> mgmt \<Rightarrow> mgmt" where
  "rest_reloadAuth K m = (case me_auth m of
     None \<Rightarrow> m
   | Some v \<Rightarrow>
       (case canonical_of m of
          None \<Rightarrow> failClosedAuth m
        | Some st \<Rightarrow>
            (case FromSpec K (sp_auth (st_spec st)) of
               Inl err \<Rightarrow> failClosedAuth m
             | Inr nxt \<Rightarrow>
                 if RequireListen K (Some nxt) \<noteq> None then failClosedAuth m
                 else
                   (let changed = (\<not> Equivalent (Some v) (Some nxt));
                        m1 = replaceAuth nxt m;
                        m2 = (if changed then m1\<lparr>me_sessions := sess_Clear (me_sessions m1)\<rparr> else m1)
                    in storeOrigins (mg_allowedOrigins (sp_management (st_spec st))) m2))))"

definition mcp_actorOf :: "principal \<Rightarrow> actor" where
  "mcp_actorOf p = \<lparr>ac_id = pn_id p, ac_class = pn_class p, ac_role = pn_role p, ac_scopes = pn_scopes p, ac_transport = ''mcp''\<rparr>"

definition refreshStdioPin :: "cfglib \<Rightarrow> mgmt \<Rightarrow> mgmt" where
  "refreshStdioPin K m =
    (if me_stdioSecret m = [] then m
     else (case AuthenticateBearer K (me_auth m) (me_stdioSecret m) of
             Inl err \<Rightarrow> m\<lparr>me_stdioActor := None\<rparr>
           | Inr p \<Rightarrow> m\<lparr>me_stdioActor := Some (mcp_actorOf p)\<rparr>))"

definition mcp_reloadAuth :: "cfglib \<Rightarrow> mgmt \<Rightarrow> mgmt" where
  "mcp_reloadAuth K m = (case me_auth m of
     None \<Rightarrow> m
   | Some v \<Rightarrow>
       (case canonical_of m of
          None \<Rightarrow> refreshStdioPin K (replaceAuth auth_Empty m)
        | Some st \<Rightarrow>
            (case FromSpec K (sp_auth (st_spec st)) of
               Inl err \<Rightarrow> refreshStdioPin K (replaceAuth auth_Empty m)
             | Inr nxt \<Rightarrow>
                 if RequireListen K (Some nxt) \<noteq> None then refreshStdioPin K (replaceAuth auth_Empty m)
                 else refreshStdioPin K (replaceAuth nxt m))))"

text \<open>At start-up the paths of the secrets are resolved against the directory of the bootstrap file.\<close>

definition managementAuth :: "cfglib \<Rightarrow> snapshot option \<Rightarrow> string \<Rightarrow> string + verifier \<times> string list \<times> bool" where
  "managementAuth K snap baseDir = (case Option.bind snap sn_canonical of
     None \<Rightarrow> Inl ''no active snapshot''
   | Some st \<Rightarrow>
       (let spec = st_spec st;
            tokens = map (\<lambda>t. t\<lparr>tk_secretFile := resolvePath K (tk_secretFile t) baseDir\<rparr>) (as_tokens (sp_auth spec)) in
        case FromSpec K ((sp_auth spec)\<lparr>as_tokens := tokens\<rparr>) of
          Inl err \<Rightarrow> Inl (error_string (Some err))
        | Inr v \<Rightarrow>
            (case RequireListen K (Some v) of
               Some err \<Rightarrow> Inl err
             | None \<Rightarrow> Inr (v, mg_allowedOrigins (sp_management spec), mcp_allowLegacyClients (mg_mcp (sp_management spec))))))"

section \<open>Hooks\<close>

abbreviation HookDataPlane :: nat where "HookDataPlane \<equiv> 0"
abbreviation HookMCP :: nat where "HookMCP \<equiv> 1"
abbreviation HookREST :: nat where "HookREST \<equiv> 2"

fun run_hooks :: "mlib \<Rightarrow> nat list \<Rightarrow> mgmt \<Rightarrow> mgmt option" where
  "run_hooks L [] m = Some m"
| "run_hooks L (h # hs) m =
    (if h = HookDataPlane then
       (case reloadDataPlane (ml_cfg L) (ml_ssh L) (ml_rc L) (ml_remote L) (Some (me_app m)) (me_baseDir m) (me_plane m) of
          None \<Rightarrow> None
        | Some pl \<Rightarrow> run_hooks L hs (m\<lparr>me_plane := pl\<rparr>))
     else if h = HookMCP then run_hooks L hs (mcp_reloadAuth (ml_cfg L) m)
     else if h = HookREST then run_hooks L hs (rest_reloadAuth (ml_cfg L) m)
     else run_hooks L hs m)"

section \<open>The calls of the service\<close>

datatype svc_call =
    CStatus | CSchema | CFeatures | CState | CValidate bytes | CExport | CReset
  | CPlan "apply_oper list" string | CApply "apply_oper list" string string
  | CProfiles | CProfile string | CUsers
  | CGetDatastore string string | CSetDatastore string string bytes | CCommit string | CDiscard string
  | CSessions | CKill string
  | CNotifications string | CNotification string | CWait ctx string | CClear
  | CPreview string string | CAudit int

text \<open>\<open>SParked\<close> is a wait that blocks.\<close>

datatype svc_result =
    SFail goerr | SPanic | SDone | SParked
  | SStatus status | SBytes bytes | SFeatures "feature list" | SState state_view | SPlan plan | SApplied apply_result
  | SProfiles "string list" | SProfile profile_view | SUsers "suser list" | SSessions "session_row list option"
  | SNotifications "notification list" | SNotification notification | SAudit "event list"

fun uses_mutex :: "svc_call \<Rightarrow> bool" where
  "uses_mutex CReset = True"
| "uses_mutex (CPlan opers expected) = True"
| "uses_mutex (CApply opers expected key) = True"
| "uses_mutex (CGetDatastore p st) = True"
| "uses_mutex (CSetDatastore p st v) = True"
| "uses_mutex (CCommit p) = True"
| "uses_mutex (CDiscard p) = True"
| "uses_mutex (CNotifications q) = True"
| "uses_mutex (CNotification i) = True"
| "uses_mutex (CWait c q) = True"
| "uses_mutex CClear = True"
| "uses_mutex (CPreview u p) = True"
| "uses_mutex call = False"

fun call_ctx :: "moment \<Rightarrow> svc_call \<Rightarrow> ctx" where
  "call_ctx M (CWait c q) = c"
| "call_ctx M call = mo_ctx M"

definition sum_result :: "('a \<Rightarrow> svc_result) \<Rightarrow> goerr + 'a \<Rightarrow> svc_result" where
  "sum_result f r = (case r of Inl err \<Rightarrow> SFail err | Inr x \<Rightarrow> f x)"

definition err_result :: "goerr option \<Rightarrow> svc_result" where
  "err_result e = (case e of None \<Rightarrow> SDone | Some err \<Rightarrow> SFail err)"

definition svc_Schema :: "ctx \<Rightarrow> goerr + bytes" where
  "svc_Schema c = (case ctx_err c of Some err \<Rightarrow> Inl err | None \<Rightarrow> Inr ''{}'')"

definition svc_Features :: "ctx \<Rightarrow> goerr + feature list" where
  "svc_Features c = (case ctx_err c of Some err \<Rightarrow> Inl err | None \<Rightarrow> Inr Features)"

text \<open>The calls that ask only.\<close>

fun svc_read :: "mlib \<Rightarrow> ctx \<Rightarrow> svc_call \<Rightarrow> mgmt \<Rightarrow> svc_result option" where
  "svc_read L c CStatus m = Some (sum_result SStatus (app_Status c (me_app m)))"
| "svc_read L c CSchema m = Some (sum_result SBytes (svc_Schema c))"
| "svc_read L c CFeatures m = Some (sum_result SFeatures (svc_Features c))"
| "svc_read L c CState m = Some (sum_result SState (app_State (ml_go L) (ml_cfg L) c (me_app m)))"
| "svc_read L c (CValidate body) m =
     Some (case ValidateState (ml_go L) (ml_cfg L) c body of None \<Rightarrow> SPanic | Some e \<Rightarrow> err_result e)"
| "svc_read L c CExport m = Some (sum_result SBytes (ExportState (ml_go L) (ml_cfg L) c (me_app m)))"
| "svc_read L c CProfiles m = Some (sum_result SProfiles (ListProfiles c (me_app m)))"
| "svc_read L c (CProfile name) m = Some (sum_result SProfile (GetProfile (ml_go L) (ml_cfg L) c (me_app m) name))"
| "svc_read L c CUsers m = Some (sum_result SUsers (ListUsers c (me_app m)))"
| "svc_read L c (CGetDatastore p st) m = Some (sum_result SBytes (GetDatastore (ml_go L) (ml_cfg L) c (me_app m) p st))"
| "svc_read L c CSessions m = Some (sum_result SSessions (app_ListSessions c (Some (nc_ListSessions (pl_nc (me_plane m))))))"
| "svc_read L c (CNotifications q) m = Some (sum_result SNotifications (ListNotifications c (me_app m) q))"
| "svc_read L c (CNotification i) m = Some (sum_result SNotification (GetNotification c (me_app m) i))"
| "svc_read L c (CPreview u p) m = Some (sum_result SBytes (PreviewGet (ml_go L) (ml_cfg L) c (me_app m) u p))"
| "svc_read L c (CAudit limit) m = Some (sum_result SAudit (QueryAudit c (me_app m) limit))"
| "svc_read L c call m = None"

definition set_app :: "app \<times> goerr option \<Rightarrow> mgmt \<Rightarrow> mgmt \<times> svc_result" where
  "set_app r m = (m\<lparr>me_app := fst r\<rparr>, err_result (snd r))"

text \<open>The calls that may change the state; hooks run after the mutex is released.\<close>

fun svc_write :: "mlib \<Rightarrow> moment \<Rightarrow> actor option \<Rightarrow> svc_call \<Rightarrow> mgmt \<Rightarrow> (mgmt \<times> svc_result) option" where
  "svc_write L M act (CPlan opers expected) m =
     Some (m, sum_result SPlan (app_Plan (ml_go L) (ml_cfg L) (mo_now M) (mo_ctx M) (me_app m) opers expected))"
| "svc_write L M act (CApply opers expected key) m =
     (case app_Apply (ml_go L) (ml_cfg L) (ml_json L) (mo_now M) (mo_ctx M) act (me_app m) opers expected key of
        (a, Inl err) \<Rightarrow> Some (m\<lparr>me_app := a\<rparr>, SFail err)
      | (a, Inr (res, hooks)) \<Rightarrow> map_option (\<lambda>m'. (m', SApplied res)) (run_hooks L hooks (m\<lparr>me_app := a\<rparr>)))"
| "svc_write L M act CReset m =
     (case app_Reset (ml_go L) (ml_cfg L) (ml_json L) (mo_now M) (mo_stat M) (mo_ctx M) act (me_app m) of
        None \<Rightarrow> Some (m\<lparr>me_jammed := True\<rparr>, SPanic)
      | Some (a, Inl err) \<Rightarrow> Some (m\<lparr>me_app := a\<rparr>, SFail err)
      | Some (a, Inr hooks) \<Rightarrow> map_option (\<lambda>m'. (m', SDone)) (run_hooks L hooks (m\<lparr>me_app := a\<rparr>)))"
| "svc_write L M act (CSetDatastore p st overlay) m =
     Some (set_app (SetDatastore (ml_go L) (ml_cfg L) (ml_json L) (mo_now M) (mo_ctx M) act (me_app m) p st overlay) m)"
| "svc_write L M act (CCommit p) m =
     Some (set_app (app_Commit (ml_go L) (ml_json L) (mo_now M) (mo_ident M) (mo_ctx M) act (me_app m) p) m)"
| "svc_write L M act (CDiscard p) m = Some (set_app (app_Discard (ml_go L) (ml_json L) (mo_now M) (mo_ctx M) act (me_app m) p) m)"
| "svc_write L M act (CKill i) m =
     (let ((a, t), e) = app_KillSession nc_KillSession (ml_json L) (mo_now M) (mo_ctx M) act (me_app m, Some (pl_nc (me_plane m))) i
      in Some (m\<lparr>me_app := a, me_plane := (me_plane m)\<lparr>pl_nc := (case t of None \<Rightarrow> pl_nc (me_plane m) | Some srv \<Rightarrow> srv)\<rparr>\<rparr>, err_result e))"
| "svc_write L M act (CWait c q) m = (case wait_begin c (me_app m) q of
     Inr err \<Rightarrow> Some (m, SFail err)
   | Inl a \<Rightarrow> Some (m\<lparr>me_app := a\<rparr>, SParked))"
| "svc_write L M act CClear m = Some (set_app (ClearNotifications (ml_json L) (mo_now M) (mo_ctx M) act (me_app m)) m)"
| "svc_write L M act call m = None"

definition svc_run :: "mlib \<Rightarrow> moment \<Rightarrow> actor option \<Rightarrow> svc_call \<Rightarrow> mgmt \<Rightarrow> (mgmt \<times> svc_result) option" where
  "svc_run L M act call m =
    (if uses_mutex call \<and> me_jammed m \<and> ctx_err (call_ctx M call) = None then None
     else (case svc_read L (mo_ctx M) call m of
             Some r \<Rightarrow> Some (m, r)
           | None \<Rightarrow> svc_write L M act call m))"

section \<open>Operator sessions belong to current tokens\<close>

definition backed :: "storedToken list \<Rightarrow> session \<Rightarrow> bool" where
  "backed ts s \<longleftrightarrow> list_ex (\<lambda>t. to_id t = ss_tokenID s \<and> to_role t = ss_role s \<and> sameScopes (to_scopes t) (ss_scopes s)) ts"

definition sessions_backed :: "mgmt \<Rightarrow> bool" where
  "sessions_backed m = (case me_auth m of
     None \<Rightarrow> st_sessions (me_sessions m) = []
   | Some v \<Rightarrow> distinct (map to_id (vf_tokens v)) \<and> vf_onChange v \<noteq> []
       \<and> list_all (\<lambda>(k, rec). backed (vf_tokens v) (sr_public rec)) (st_sessions (me_sessions m)))"

lemma token_index:
  "distinct (map to_id ts) \<Longrightarrow> map_of (fold (\<lambda>t m. kv_put (to_id t) t m) ts m0) i
    = (if i \<in> to_id ` set ts then find (\<lambda>t. to_id t = i) ts else map_of m0 i)"
  by (induction ts arbitrary: m0) auto

lemma Equivalent_tokens:
  assumes "distinct (map to_id (vf_tokens v))" and "distinct (map to_id (vf_tokens w))"
    and "Equivalent (Some v) (Some w)" and "t \<in> set (vf_tokens v)"
  shows "\<exists>u \<in> set (vf_tokens w). to_id u = to_id t \<and> to_role u = to_role t \<and> sameScopes (to_scopes u) (to_scopes t)"
proof -
  have ix: "map_of (fold (\<lambda>t m. kv_put (to_id t) t m) (vf_tokens v) []) i
      = (if i \<in> to_id ` set (vf_tokens v) then find (\<lambda>t. to_id t = i) (vf_tokens v) else None)" for i
    using token_index [OF assms(1), of "[]" i] by simp
  have each: "\<exists>g \<in> set (vf_tokens v). to_id g = to_id u \<and> to_role g = to_role u \<and> sameScopes (to_scopes g) (to_scopes u)" if "u \<in> set (vf_tokens w)" for u
    using assms(3) that unfolding Equivalent_def
    by (auto simp: Let_def list_all_iff ix find_Some_iff split: if_splits option.splits dest!: bspec [of _ _ u]) (metis nth_mem)+
  have "to_id ` set (vf_tokens w) \<subseteq> to_id ` set (vf_tokens v)"
    by (auto dest!: each) (metis image_eqI)
  moreover have "card (to_id ` set (vf_tokens w)) = card (to_id ` set (vf_tokens v))"
    using assms(1-3) distinct_card [of "map to_id (vf_tokens v)"] distinct_card [of "map to_id (vf_tokens w)"]
    by (auto simp: Equivalent_def split: if_splits)
  ultimately have "to_id ` set (vf_tokens w) = to_id ` set (vf_tokens v)" by (simp add: card_subset_eq)
  then obtain u where u: "u \<in> set (vf_tokens w)" "to_id u = to_id t" using assms(4) by (metis imageE imageI)
  from each [OF u(1)] obtain g where g: "g \<in> set (vf_tokens v)" "to_id g = to_id u" "to_role g = to_role u" "sameScopes (to_scopes g) (to_scopes u)" by blast
  have "g = t" using g(1,2) u(2) assms(1,4) by (metis distinct_map inj_onD)
  with g u show ?thesis by (metis sameScopes_def)
qed

lemma FromSpec_distinct: "FromSpec K spec = Inr v \<Longrightarrow> distinct (map to_id (vf_tokens v))"
  using compile_tokens_Inr by (fastforce simp: FromSpec_def Let_def split: if_splits sum.splits)

lemma replaceAuth_backed:
  assumes "sessions_backed m" and "distinct (map to_id (vf_tokens nxt))"
  shows "sessions_backed (replaceAuth nxt m)"
proof (cases "me_auth m")
  case (Some v)
  note b = assms(1) [unfolded sessions_backed_def Some option.case]
  show ?thesis
  proof (cases "Equivalent (Some v) (Some nxt)")
    case True
    have "backed (vf_tokens nxt) s" if "backed (vf_tokens v) s" for s
      using Equivalent_tokens [OF _ assms(2) True] b that unfolding backed_def list_ex_iff sameScopes_def by metis
    then show ?thesis using True Some b assms(2) by (auto simp: sessions_backed_def replaceAuth_def Replace_def list_all_iff)
  next
    case False
    then show ?thesis using Some b assms(2) by (simp add: sessions_backed_def replaceAuth_def Replace_def sess_Clear_def)
  qed
qed (use assms in \<open>simp add: sessions_backed_def replaceAuth_def\<close>)

lemma clear_backed: "sessions_backed m \<Longrightarrow> sessions_backed (m\<lparr>me_sessions := sess_Clear (me_sessions m)\<rparr>)"
  by (auto simp: sessions_backed_def sess_Clear_def split: option.splits)

lemma backed_frame:
  "me_auth m' = me_auth m \<Longrightarrow> me_sessions m' = me_sessions m \<Longrightarrow> sessions_backed m' = sessions_backed m"
  by (simp add: sessions_backed_def split: option.split)

lemma empty_distinct: "distinct (map to_id (vf_tokens auth_Empty))"
  by (simp add: auth_Empty_def)

lemma failClosed_backed: "sessions_backed m \<Longrightarrow> sessions_backed (failClosedAuth m)"
  by (simp add: failClosedAuth_def Let_def clear_backed replaceAuth_backed empty_distinct)

lemma pin_backed [simp]: "sessions_backed (refreshStdioPin K m) = sessions_backed m"
  by (auto simp: refreshStdioPin_def intro!: backed_frame split: sum.split)

lemma origins_backed [simp]: "sessions_backed (storeOrigins os m) = sessions_backed m"
  by (rule backed_frame) (simp_all add: storeOrigins_def)

lemma rest_reload_backed: "sessions_backed m \<Longrightarrow> sessions_backed (rest_reloadAuth K m)"
  by (auto simp: rest_reloadAuth_def Let_def failClosed_backed clear_backed replaceAuth_backed FromSpec_distinct split: option.split sum.split)

lemma mcp_reload_backed: "sessions_backed m \<Longrightarrow> sessions_backed (mcp_reloadAuth K m)"
  by (auto simp: mcp_reloadAuth_def replaceAuth_backed FromSpec_distinct empty_distinct split: option.split sum.split)

lemma hooks_backed: "run_hooks L hs m = Some m' \<Longrightarrow> sessions_backed m \<Longrightarrow> sessions_backed m'"
proof (induction hs arbitrary: m)
  case (Cons h hs)
  have pl: "sessions_backed (m\<lparr>me_plane := pl\<rparr>)" for pl using Cons.prems(2) by (subst backed_frame [of _ m]) simp_all
  show ?case using Cons.prems Cons.IH [OF _ pl] Cons.IH [OF _ rest_reload_backed] Cons.IH [OF _ mcp_reload_backed] Cons.IH
    by (auto split: if_splits option.splits)
qed simp

lemma svc_run_backed:
  assumes "svc_run L M act call m = Some (m', r)" and "sessions_backed m"
  shows "sessions_backed m'"
proof -
  have a: "sessions_backed (m\<lparr>me_app := a\<rparr>)" and j: "sessions_backed (m\<lparr>me_jammed := True\<rparr>)" and p: "sessions_backed (m\<lparr>me_app := a, me_plane := pl\<rparr>)" for a pl
    using assms(2) by (subst backed_frame [of _ m]; simp)+
  have "m' = m \<or> svc_write L M act call m = Some (m', r)" using assms(1) by (auto simp: svc_run_def split: if_splits option.splits)
  then show ?thesis
  proof
    assume "svc_write L M act call m = Some (m', r)"
    then show ?thesis
      using a j p hooks_backed [OF _ a] assms(2)
      by (cases call) (auto simp: set_app_def Let_def split: prod.splits sum.splits option.splits)
  qed (use assms in simp)
qed

end
