(* ===== verification/Control_Rest.thy ===== *)
theory Control_Rest
  imports Control_Mux Control_Service
begin

text \<open>
  Package \<open>rest\<close> of the management plane (\<open>auth.go\<close>, \<open>dto.go\<close>, \<open>encode.go\<close>, \<open>errors.go\<close>, \<open>handlers.go\<close>, \<open>request.go\<close>, \<open>server.go\<close>,
  \<open>session.go\<close>, \<open>spa.go\<close>): a request passes the origin check, the routes, authentication, authorization and the CSRF check, and becomes at
  most one call of the service. A response has its status, the headers that matter and a body by its content; its JSON text is
  left out. \<open>New\<close> always makes a session table, so the tests for a missing one are gone.
\<close>

section \<open>Requests and responses\<close>

text \<open>The body is what arrives before the reader fails, and whether it fails with an unexpected end.\<close>

record mreq =
  mq_method :: string
  mq_path :: string
  mq_authorization :: string
  mq_cookie :: "string option"
  mq_origin :: string
  mq_csrf :: string
  mq_contentType :: string
  mq_ifMatch :: string
  mq_expected :: string
  mq_idempotency :: string
  mq_requestID :: string
  mq_query :: "string \<Rightarrow> string"
  mq_tls :: bool
  mq_body :: bytes
  mq_bodyErr :: "bool option"

record rest_config =
  rf_maxBody :: int
  rf_cookieSecure :: bool
  rf_mcp :: bool
  rf_ui :: bool

record planJSON =
  pj_previousRevision :: string
  pj_candidateRevision :: string
  pj_drifted :: bool
  pj_diff :: "diff_entry list"
  pj_operations :: "apply_oper list"
  pj_applied :: bool
  pj_generation :: "64 word"
  pj_runtimeRevision :: string

record notificationJSON =
  nj_id :: string
  nj_profile :: string
  nj_changes :: "nchange list"

record auditJSON =
  aj_id :: string
  aj_time :: string
  aj_actorID :: string
  aj_capability :: string
  aj_result :: string
  aj_errorCode :: string

record stateViewJSON =
  vj_bootstrapRevision :: string
  vj_runtimeRevision :: string
  vj_generation :: "64 word"
  vj_drifted :: bool
  vj_loadedAt :: string
  vj_canonical :: state

datatype mbody =
    MNone | MOk | MInternal | MText bytes | MMetrics | MVersion
  | MProblem problem
  | MHealth string
  | MSessionCreated string string
  | MSession string string "string list" string string
  | MCapabilities "discovery list"
  | MStatus bool string "listener_status list"
  | MFeatures "feature list"
  | MState stateViewJSON
  | MCanonical state
  | MPlan planJSON
  | MProfiles "string list"
  | MProfile string "module_spec list" "schema_leaf list" "kvs option"
  | MUsers "suser list"
  | MSessions "session_row list"
  | MNotifications "notificationJSON list"
  | MNotification notificationJSON
  | MAudit "auditJSON list"

record mresp =
  ms_status :: nat
  ms_type :: string
  ms_challenge :: bool
  ms_allow :: string
  ms_revision :: string
  ms_cookie :: "cookie option"
  ms_body :: mbody

text \<open>A request is answered, or waits for a notification of a profile, or goes to another handler.\<close>

datatype outcome = Answer mresp | Waiting ctx string | ToMCP | ToUI

definition plain_response :: "nat \<Rightarrow> string \<Rightarrow> mbody \<Rightarrow> mresp" where
  "plain_response status ct b = \<lparr>ms_status = status, ms_type = ct, ms_challenge = False, ms_allow = [], ms_revision = [], ms_cookie = None, ms_body = b\<rparr>"

definition writeProblem :: "string \<Rightarrow> goerr \<Rightarrow> mresp" where
  "writeProblem inst err =
    (let p = ProblemFrom err inst
     in (plain_response (pb_status p) ''application/problem+json'' (MProblem p))\<lparr>ms_challenge := (pb_status p = 401)\<rparr>)"

definition rest_asDomain :: "goerr \<Rightarrow> goerr" where
  "rest_asDomain err = (if err_as err \<noteq> None then err else GDomain (ValidationFailed (goerr_text err) []))"

text \<open>Whether \<open>json.Marshal\<close> accepts a body.\<close>

definition body_marshals :: "cfglib \<Rightarrow> mbody \<Rightarrow> bool" where
  "body_marshals K b = (case b of
     MCanonical st \<Rightarrow> list_all marshals (state_trees st)
   | MPlan p \<Rightarrow> list_all (op_marshals K) (pj_operations p)
   | _ \<Rightarrow> True)"

definition writeJSON :: "cfglib \<Rightarrow> nat \<Rightarrow> mbody \<Rightarrow> mresp" where
  "writeJSON K status b =
    (if body_marshals K b then plain_response status ''application/json; charset=utf-8'' b
     else plain_response 500 ''text/plain; charset=utf-8'' MInternal)"

definition writeBytes :: "nat \<Rightarrow> string \<Rightarrow> bytes \<Rightarrow> mresp" where
  "writeBytes status ct b = plain_response status ct (MText b)"

definition rfc3339 :: "mlib \<Rightarrow> int \<Rightarrow> string" where
  "rfc3339 L t = (if t = 0 then [] else ml_rfc3339 L t)"

definition fromPlan :: "plan \<Rightarrow> planJSON" where
  "fromPlan p = \<lparr>pj_previousRevision = pl_previous p, pj_candidateRevision = pl_candidate p, pj_drifted = pl_drifted p,
     pj_diff = (case pl_diff p of None \<Rightarrow> [] | Some d \<Rightarrow> d), pj_operations = (case pl_operations p of None \<Rightarrow> [] | Some os \<Rightarrow> os),
     pj_applied = False, pj_generation = 0, pj_runtimeRevision = []\<rparr>"

definition fromApply :: "apply_result \<Rightarrow> planJSON" where
  "fromApply r = (fromPlan (ar_plan r))\<lparr>pj_applied := ar_applied r, pj_generation := ar_generation r, pj_runtimeRevision := ar_runtimeRevision r\<rparr>"

definition fromNotification :: "notification \<Rightarrow> notificationJSON" where
  "fromNotification n = \<lparr>nj_id = nt_id n, nj_profile = nt_profile n, nj_changes = nt_changes n\<rparr>"

definition marshalRaw :: "kvs \<Rightarrow> kvs option" where
  "marshalRaw m = (if marshals (VMap m) then Some m else None)"

section \<open>Reading a request\<close>

definition rest_fail :: "string \<Rightarrow> field_violation list \<Rightarrow> goerr" where
  "rest_fail msg fvs = GDomain (ValidationFailed msg fvs)"

definition max_body :: "rest_config \<Rightarrow> int" where
  "max_body cfg = (if rf_maxBody cfg \<le> 0 then 2 ^ 20 else rf_maxBody cfg)"

datatype read_error = TooLarge | EndOfBody | OtherError

definition decodeError :: "read_error \<Rightarrow> goerr" where
  "decodeError e = (case e of
     TooLarge \<Rightarrow> rest_fail ''request body too large'' [fv [] ''document_too_large'' ''request body exceeds the management limit'']
   | EndOfBody \<Rightarrow> rest_fail ''request body is required'' [fv [] ''invalid_value'' ''request body is not valid JSON'']
   | OtherError \<Rightarrow> rest_fail ''invalid JSON'' [fv [] ''invalid_value'' ''request body is not valid JSON''])"

definition read_all :: "rest_config \<Rightarrow> mreq \<Rightarrow> goerr + bytes" where
  "read_all cfg r =
    (if int (length (mq_body r)) > max_body cfg then Inl (decodeError TooLarge)
     else (case mq_bodyErr r of
             Some e \<Rightarrow> Inl (decodeError (if e then EndOfBody else OtherError))
           | None \<Rightarrow> Inr (mq_body r)))"

definition body_required :: goerr where
  "body_required = rest_fail ''request body is required'' [fv [] ''invalid_value'' ''request body is required'']"

definition checkJSONContentType :: "authlib \<Rightarrow> mreq \<Rightarrow> goerr option" where
  "checkJSONContentType A r =
    (if mq_contentType r = [] then Some (rest_fail ''content type is required'' [fv ''content-type'' ''required'' ''POST bodies must be application/json''])
     else if \<not> EqualFold A (TrimSpace (before_byte (CHR '';'') (mq_contentType r))) ''application/json'' then
       Some (rest_fail ''unsupported content type'' [fv ''content-type'' ''invalid_value'' ''expected application/json''])
     else None)"

definition decodeBytes :: "'a decoded \<Rightarrow> goerr + 'a" where
  "decodeBytes d = (case d of
     DecEnd \<Rightarrow> Inl (decodeError EndOfBody)
   | DecBad \<Rightarrow> Inl (decodeError OtherError)
   | Dec x trailing \<Rightarrow>
       if trailing then Inl (rest_fail ''request body must contain a single JSON value'' [fv [] ''invalid_value'' ''trailing JSON is not allowed''])
       else Inr x)"

text \<open>The decoder of a required body, the content type first.\<close>

definition decodeJSONBody :: "(bytes \<Rightarrow> 'a decoded) \<Rightarrow> rest_config \<Rightarrow> mreq \<Rightarrow> goerr + 'a" where
  "decodeJSONBody dec cfg r = (case read_all cfg r of
     Inl err \<Rightarrow> Inl err
   | Inr body \<Rightarrow> if TrimSpace body = [] then Inl body_required else decodeBytes (dec body))"

definition decodeJSON :: "authlib \<Rightarrow> (bytes \<Rightarrow> 'a decoded) \<Rightarrow> rest_config \<Rightarrow> mreq \<Rightarrow> goerr + 'a" where
  "decodeJSON A dec cfg r = (case checkJSONContentType A r of Some err \<Rightarrow> Inl err | None \<Rightarrow> decodeJSONBody dec cfg r)"

definition decodeJSONOptional :: "authlib \<Rightarrow> (bytes \<Rightarrow> 'a decoded) \<Rightarrow> 'a \<Rightarrow> rest_config \<Rightarrow> mreq \<Rightarrow> goerr + 'a" where
  "decodeJSONOptional A dec zero cfg r = (case read_all cfg r of
     Inl err \<Rightarrow> Inl err
   | Inr body \<Rightarrow>
       if TrimSpace body = [] then Inr zero
       else (case checkJSONContentType A r of Some err \<Rightarrow> Inl err | None \<Rightarrow> decodeBytes (dec body)))"

definition readRawBody :: "rest_config \<Rightarrow> mreq \<Rightarrow> bool \<Rightarrow> goerr + bytes" where
  "readRawBody cfg r required = (case read_all cfg r of
     Inl err \<Rightarrow> Inl err
   | Inr body \<Rightarrow> if TrimSpace body = [] then if required then Inl body_required else Inr [] else Inr body)"

definition expectedRevision :: "authlib \<Rightarrow> mreq \<Rightarrow> string \<Rightarrow> string" where
  "expectedRevision A r body =
    (let v = trim_set [CHR 0x22] (mq_ifMatch r) in
     if body \<noteq> [] then body else if v \<noteq> [] \<and> \<not> EqualFold A v ''*'' then v else TrimSpace (mq_expected r))"

definition idempotencyKey :: "mreq \<Rightarrow> string \<Rightarrow> string" where
  "idempotencyKey r body = (if body \<noteq> [] then body else TrimSpace (mq_idempotency r))"

section \<open>Authentication\<close>

definition rest_actorOf :: "principal \<Rightarrow> actor" where
  "rest_actorOf p = \<lparr>ac_id = pn_id p, ac_class = pn_class p, ac_role = pn_role p, ac_scopes = pn_scopes p, ac_transport = ''rest''\<rparr>"

text \<open>A lookup moves the expiry of the session, so the state is returned too.\<close>

definition rest_authenticate :: "mlib \<Rightarrow> moment \<Rightarrow> mreq \<Rightarrow> mgmt \<Rightarrow> mgmt \<times> (goerr + actor)" where
  "rest_authenticate L M r m =
    (let denied = Inl (GDomain (Unauthorized ''authentication required'')); hdr = TrimSpace (mq_authorization r) in
     case me_auth m of
       None \<Rightarrow> (m, denied)
     | Some v \<Rightarrow>
         if hdr \<noteq> [] then (m, map_sum GDomain rest_actorOf (Authenticate (ml_auth L) (ml_cfg L) (Some v) hdr))
         else (case mq_cookie r of
                 None \<Rightarrow> (m, denied)
               | Some c \<Rightarrow>
                   if c = [] then (m, denied)
                   else (let (tbl, found) = sess_Lookup (mo_now M) (me_sessions m) c in
                         (m\<lparr>me_sessions := tbl\<rparr>,
                          case found of None \<Rightarrow> denied | Some (sess, csrf) \<Rightarrow> Inr (rest_actorOf (PrincipalFromSession sess))))))"

definition rest_authorize :: "mlib \<Rightarrow> moment \<Rightarrow> mreq \<Rightarrow> actor \<Rightarrow> capability \<Rightarrow> mgmt \<Rightarrow> mgmt \<times> goerr option" where
  "rest_authorize L M r who c m =
    (if me_auth m = None then (m, Some (GDomain (Unauthorized ''authentication required'')))
     else (case AuthorizeScopes (ac_scopes who) (cp_scopes c) of
             Some err \<Rightarrow> (m, Some (GDomain err))
           | None \<Rightarrow>
               if \<not> UnsafeMethod (mq_method r) then (m, None)
               else if TrimSpace (mq_authorization r) \<noteq> [] then (m, None)
               else (case mq_cookie r of
                       None \<Rightarrow> (m, None)
                     | Some ck \<Rightarrow>
                         if ck = [] then (m, None)
                         else (let (tbl, ok) = ValidCSRF (ml_cfg L) (mo_now M) (me_sessions m) ck (mq_csrf r)
                               in (m\<lparr>me_sessions := tbl\<rparr>, if ok then None else Some (GDomain (Forbidden ''CSRF token is missing or invalid'')))))))"

section \<open>Handlers\<close>

type_synonym handled = "(mgmt \<times> outcome) option"

definition recovered :: "string \<Rightarrow> mresp" where
  "recovered inst = writeProblem inst (rest_fail ''internal error'' [])"

text \<open>The end of every handler: an error of the service becomes a problem, a panic is recovered, a result is written.\<close>

definition respond :: "string \<Rightarrow> (svc_result \<Rightarrow> mresp) \<Rightarrow> (mgmt \<times> svc_result) option \<Rightarrow> handled" where
  "respond inst ok res = (case res of
     None \<Rightarrow> None
   | Some (m, SFail err) \<Rightarrow> Some (m, Answer (writeProblem inst (rest_asDomain err)))
   | Some (m, SPanic) \<Rightarrow> Some (m, Answer (recovered inst))
   | Some (m, x) \<Rightarrow> Some (m, Answer (ok x)))"

definition refuse :: "string \<Rightarrow> mgmt \<Rightarrow> goerr \<Rightarrow> handled" where
  "refuse inst m err = Some (m, Answer (writeProblem inst err))"

definition isLive :: "moment \<Rightarrow> bool" where
  "isLive M = (case mo_live M of Some b \<Rightarrow> b | None \<Rightarrow> True)"

definition isReady :: "moment \<Rightarrow> mgmt \<Rightarrow> bool" where
  "isReady M m = (case mo_ready M of
     Some b \<Rightarrow> b
   | None \<Rightarrow> (case app_Status (mo_ctx M) (me_app m) of Inl err \<Rightarrow> False | Inr st \<Rightarrow> sx_ready st))"

definition handleHealthLive :: "mlib \<Rightarrow> moment \<Rightarrow> mgmt \<Rightarrow> handled" where
  "handleHealthLive L M m =
    Some (m, Answer (if \<not> isLive M then writeJSON (ml_cfg L) 503 (MHealth ''down'') else writeJSON (ml_cfg L) 200 (MHealth ''ok'')))"

definition handleHealthReady :: "mlib \<Rightarrow> moment \<Rightarrow> mgmt \<Rightarrow> handled" where
  "handleHealthReady L M m =
    Some (m, Answer (if \<not> isReady M m then writeJSON (ml_cfg L) 503 (MHealth ''not ready'') else writeJSON (ml_cfg L) 200 (MHealth ''ok'')))"

definition handleStatus :: "mlib \<Rightarrow> moment \<Rightarrow> actor option \<Rightarrow> string \<Rightarrow> mgmt \<Rightarrow> handled" where
  "handleStatus L M act inst m = respond inst
    (\<lambda>x. case x of SStatus st \<Rightarrow> writeJSON (ml_cfg L) 200 (MStatus (isReady M m) (sx_revision st) (sx_listeners st)) | _ \<Rightarrow> recovered inst)
    (svc_run L M act CStatus m)"

definition handleSchema :: "mlib \<Rightarrow> moment \<Rightarrow> actor option \<Rightarrow> string \<Rightarrow> mgmt \<Rightarrow> handled" where
  "handleSchema L M act inst m = respond inst
    (\<lambda>x. case x of SBytes b \<Rightarrow> writeBytes 200 ''application/schema+json'' (if b = [] then ''{}'' else b) | _ \<Rightarrow> recovered inst)
    (svc_run L M act CSchema m)"

definition handleFeatures :: "mlib \<Rightarrow> moment \<Rightarrow> actor option \<Rightarrow> string \<Rightarrow> mgmt \<Rightarrow> handled" where
  "handleFeatures L M act inst m = respond inst
    (\<lambda>x. case x of SFeatures fs \<Rightarrow> writeJSON (ml_cfg L) 200 (MFeatures fs) | _ \<Rightarrow> recovered inst)
    (svc_run L M act CFeatures m)"

definition state_response :: "mlib \<Rightarrow> string \<Rightarrow> state_view \<Rightarrow> mresp" where
  "state_response L inst v =
    (if \<not> list_all marshals (state_trees (sv_canonical v)) then
       writeProblem inst (rest_fail (''marshal state: '' @ cf_marshal_err (ml_cfg L)) [])
     else (writeJSON (ml_cfg L) 200 (MState \<lparr>vj_bootstrapRevision = sv_bootstrapRevision v, vj_runtimeRevision = sv_runtimeRevision v,
             vj_generation = sv_generation v, vj_drifted = sv_drifted v, vj_loadedAt = rfc3339 L (sv_loadedAt v), vj_canonical = sv_canonical v\<rparr>))
          \<lparr>ms_revision := sv_runtimeRevision v\<rparr>)"

definition handleGetState :: "mlib \<Rightarrow> moment \<Rightarrow> actor option \<Rightarrow> string \<Rightarrow> mgmt \<Rightarrow> handled" where
  "handleGetState L M act inst m = respond inst (\<lambda>x. case x of SState v \<Rightarrow> state_response L inst v | _ \<Rightarrow> recovered inst) (svc_run L M act CState m)"

definition done_response :: "mlib \<Rightarrow> svc_result \<Rightarrow> mresp" where
  "done_response L x = writeJSON (ml_cfg L) 200 MOk"

definition handleValidate :: "mlib \<Rightarrow> moment \<Rightarrow> rest_config \<Rightarrow> mreq \<Rightarrow> actor option \<Rightarrow> string \<Rightarrow> mgmt \<Rightarrow> handled" where
  "handleValidate L M cfg r act inst m = (case readRawBody cfg r True of
     Inl err \<Rightarrow> refuse inst m err
   | Inr body \<Rightarrow> respond inst (done_response L) (svc_run L M act (CValidate body) m))"

definition handlePlan :: "mlib \<Rightarrow> moment \<Rightarrow> rest_config \<Rightarrow> mreq \<Rightarrow> actor option \<Rightarrow> string \<Rightarrow> mgmt \<Rightarrow> handled" where
  "handlePlan L M cfg r act inst m = (case decodeJSON (ml_auth L) (ml_change L) cfg r of
     Inl err \<Rightarrow> refuse inst m err
   | Inr i \<Rightarrow> respond inst (\<lambda>x. case x of SPlan p \<Rightarrow> writeJSON (ml_cfg L) 200 (MPlan (fromPlan p)) | _ \<Rightarrow> recovered inst)
       (svc_run L M act (CPlan (cq_operations i) (expectedRevision (ml_auth L) r (cq_expectedRevision i))) m))"

definition handleApply :: "mlib \<Rightarrow> moment \<Rightarrow> rest_config \<Rightarrow> mreq \<Rightarrow> actor option \<Rightarrow> string \<Rightarrow> mgmt \<Rightarrow> handled" where
  "handleApply L M cfg r act inst m = (case decodeJSON (ml_auth L) (ml_change L) cfg r of
     Inl err \<Rightarrow> refuse inst m err
   | Inr i \<Rightarrow> respond inst
       (\<lambda>x. case x of SApplied res \<Rightarrow> (writeJSON (ml_cfg L) 200 (MPlan (fromApply res)))\<lparr>ms_revision := ar_runtimeRevision res\<rparr> | _ \<Rightarrow> recovered inst)
       (svc_run L M act (CApply (cq_operations i) (expectedRevision (ml_auth L) r (cq_expectedRevision i)) (idempotencyKey r (cq_idempotencyKey i))) m))"

definition handleExport :: "mlib \<Rightarrow> moment \<Rightarrow> mreq \<Rightarrow> actor option \<Rightarrow> string \<Rightarrow> mgmt \<Rightarrow> handled" where
  "handleExport L M r act inst m =
    (let format = ToLower (ml_json L) (mq_query r ''format'') in
     if format \<in> {[], ''yaml'', ''yml''} then
       respond inst (\<lambda>x. case x of SBytes b \<Rightarrow> writeBytes 200 ''application/yaml'' b | _ \<Rightarrow> recovered inst) (svc_run L M act CExport m)
     else if format = ''json'' then
       respond inst (\<lambda>x. case x of SState v \<Rightarrow> writeJSON (ml_cfg L) 200 (MCanonical (sv_canonical v)) | _ \<Rightarrow> recovered inst) (svc_run L M act CState m)
     else refuse inst m (rest_fail ''unknown export format'' [fv ''format'' ''invalid_value'' ''format must be yaml or json'']))"

definition handleReset :: "mlib \<Rightarrow> moment \<Rightarrow> rest_config \<Rightarrow> mreq \<Rightarrow> actor option \<Rightarrow> string \<Rightarrow> mgmt \<Rightarrow> handled" where
  "handleReset L M cfg r act inst m = (case decodeJSONOptional (ml_auth L) (ml_reason L) [] cfg r of
     Inl err \<Rightarrow> refuse inst m err
   | Inr reason \<Rightarrow> respond inst (done_response L) (svc_run L M act CReset m))"

definition handleProfilesList :: "mlib \<Rightarrow> moment \<Rightarrow> actor option \<Rightarrow> string \<Rightarrow> mgmt \<Rightarrow> handled" where
  "handleProfilesList L M act inst m = respond inst
    (\<lambda>x. case x of SProfiles ps \<Rightarrow> writeJSON (ml_cfg L) 200 (MProfiles ps) | _ \<Rightarrow> recovered inst) (svc_run L M act CProfiles m)"

definition handleProfilesGet :: "mlib \<Rightarrow> moment \<Rightarrow> actor option \<Rightarrow> string \<Rightarrow> mgmt \<Rightarrow> string \<Rightarrow> handled" where
  "handleProfilesGet L M act inst m name = respond inst
    (\<lambda>x. case x of SProfile p \<Rightarrow> writeJSON (ml_cfg L) 200 (MProfile (pv_name p) (pv_modules p) (pv_schema p) (marshalRaw (pv_instance p))) | _ \<Rightarrow> recovered inst)
    (svc_run L M act (CProfile name) m)"

definition handleUsersList :: "mlib \<Rightarrow> moment \<Rightarrow> actor option \<Rightarrow> string \<Rightarrow> mgmt \<Rightarrow> handled" where
  "handleUsersList L M act inst m = respond inst
    (\<lambda>x. case x of SUsers us \<Rightarrow> writeJSON (ml_cfg L) 200 (MUsers us) | _ \<Rightarrow> recovered inst) (svc_run L M act CUsers m)"

definition handleDatastoreGet :: "mlib \<Rightarrow> moment \<Rightarrow> actor option \<Rightarrow> string \<Rightarrow> mgmt \<Rightarrow> string \<Rightarrow> string \<Rightarrow> handled" where
  "handleDatastoreGet L M act inst m profile st = respond inst
    (\<lambda>x. case x of SBytes b \<Rightarrow> writeBytes 200 ''application/json; charset=utf-8'' b | _ \<Rightarrow> recovered inst)
    (svc_run L M act (CGetDatastore profile st) m)"

definition handleDatastoreSet :: "mlib \<Rightarrow> moment \<Rightarrow> rest_config \<Rightarrow> mreq \<Rightarrow> actor option \<Rightarrow> string \<Rightarrow> mgmt \<Rightarrow> string \<Rightarrow> string \<Rightarrow> handled" where
  "handleDatastoreSet L M cfg r act inst m profile st = (case checkJSONContentType (ml_auth L) r of
     Some err \<Rightarrow> refuse inst m err
   | None \<Rightarrow>
       (case readRawBody cfg r True of
          Inl err \<Rightarrow> refuse inst m err
        | Inr body \<Rightarrow> respond inst (done_response L) (svc_run L M act (CSetDatastore profile st body) m)))"

text \<open>The handlers of commands with an optional empty body.\<close>

definition handle_command :: "mlib \<Rightarrow> moment \<Rightarrow> rest_config \<Rightarrow> mreq \<Rightarrow> actor option \<Rightarrow> string \<Rightarrow> mgmt \<Rightarrow> svc_call \<Rightarrow> handled" where
  "handle_command L M cfg r act inst m call = (case decodeJSONOptional (ml_auth L) (ml_empty L) () cfg r of
     Inl err \<Rightarrow> refuse inst m err
   | Inr _ \<Rightarrow> respond inst (done_response L) (svc_run L M act call m))"

definition handleCommit :: "mlib \<Rightarrow> moment \<Rightarrow> rest_config \<Rightarrow> mreq \<Rightarrow> actor option \<Rightarrow> string \<Rightarrow> mgmt \<Rightarrow> string \<Rightarrow> handled" where
  "handleCommit L M cfg r act inst m profile = handle_command L M cfg r act inst m (CCommit profile)"

definition handleDiscard :: "mlib \<Rightarrow> moment \<Rightarrow> rest_config \<Rightarrow> mreq \<Rightarrow> actor option \<Rightarrow> string \<Rightarrow> mgmt \<Rightarrow> string \<Rightarrow> handled" where
  "handleDiscard L M cfg r act inst m profile = handle_command L M cfg r act inst m (CDiscard profile)"

definition handleSessionsList :: "mlib \<Rightarrow> moment \<Rightarrow> actor option \<Rightarrow> string \<Rightarrow> mgmt \<Rightarrow> handled" where
  "handleSessionsList L M act inst m = respond inst
    (\<lambda>x. case x of SSessions rows \<Rightarrow> writeJSON (ml_cfg L) 200 (MSessions (case rows of None \<Rightarrow> [] | Some rs \<Rightarrow> rs)) | _ \<Rightarrow> recovered inst)
    (svc_run L M act CSessions m)"

definition handleSessionKill :: "mlib \<Rightarrow> moment \<Rightarrow> rest_config \<Rightarrow> mreq \<Rightarrow> actor option \<Rightarrow> string \<Rightarrow> mgmt \<Rightarrow> string \<Rightarrow> handled" where
  "handleSessionKill L M cfg r act inst m i = handle_command L M cfg r act inst m (CKill i)"

definition handleNotificationsList :: "mlib \<Rightarrow> moment \<Rightarrow> mreq \<Rightarrow> actor option \<Rightarrow> string \<Rightarrow> mgmt \<Rightarrow> handled" where
  "handleNotificationsList L M r act inst m = respond inst
    (\<lambda>x. case x of SNotifications ns \<Rightarrow> writeJSON (ml_cfg L) 200 (MNotifications (map fromNotification ns)) | _ \<Rightarrow> recovered inst)
    (svc_run L M act (CNotifications (mq_query r ''profile'')) m)"

definition handleNotificationGet :: "mlib \<Rightarrow> moment \<Rightarrow> actor option \<Rightarrow> string \<Rightarrow> mgmt \<Rightarrow> string \<Rightarrow> handled" where
  "handleNotificationGet L M act inst m i = respond inst
    (\<lambda>x. case x of SNotification n \<Rightarrow> writeJSON (ml_cfg L) 200 (MNotification (fromNotification n)) | _ \<Rightarrow> recovered inst)
    (svc_run L M act (CNotification i) m)"

definition wait_ctx :: "mlib \<Rightarrow> ctx \<Rightarrow> string \<Rightarrow> ctx option" where
  "wait_ctx L c timeout =
    (if timeout = [] then Some c
     else (case ml_duration L timeout of
             None \<Rightarrow> None
           | Some d \<Rightarrow> if d < 0 then None else Some (if d = 0 \<and> ctx_err c = None then c\<lparr>ctx_err := Some GDeadline\<rparr> else c)))"

text \<open>A wait that does not fail at once parks the request; \<open>finish_wait\<close> is what follows when the service has a result, \<open>over\<close> whether
  the context has ended by then.\<close>

definition wait_failed :: "string \<Rightarrow> bool \<Rightarrow> goerr \<Rightarrow> mresp" where
  "wait_failed inst over err = writeProblem inst (if over then GDomain (WaitTimeout ''wait_timeout'') else rest_asDomain err)"

definition handleNotificationsWait :: "mlib \<Rightarrow> moment \<Rightarrow> rest_config \<Rightarrow> mreq \<Rightarrow> actor option \<Rightarrow> string \<Rightarrow> mgmt \<Rightarrow> handled" where
  "handleNotificationsWait L M cfg r act inst m =
    (case decodeJSONOptional (ml_auth L) (ml_wait L) \<lparr>wr_profile = [], wr_timeout = []\<rparr> cfg r of
       Inl err \<Rightarrow> refuse inst m err
     | Inr i \<Rightarrow>
         (case wait_ctx L (mo_ctx M) (wr_timeout i) of
            None \<Rightarrow> refuse inst m (rest_fail ''invalid timeout'' [fv ''timeout'' ''invalid_value'' ''timeout must be a Go duration''])
          | Some c \<Rightarrow>
              (case svc_run L M act (CWait c (wr_profile i)) m of
                 None \<Rightarrow> None
               | Some (m', SFail err) \<Rightarrow> Some (m', Answer (wait_failed inst (ctx_err c \<noteq> None) err))
               | Some (m', _) \<Rightarrow> Some (m', Waiting c (wr_profile i)))))"

definition finish_wait :: "mlib \<Rightarrow> string \<Rightarrow> bool \<Rightarrow> nerr + notification \<Rightarrow> mresp" where
  "finish_wait L inst over res = (case wait_end res of
     Inl err \<Rightarrow> wait_failed inst over err
   | Inr n \<Rightarrow> writeJSON (ml_cfg L) 200 (MNotification (fromNotification n)))"

definition handleNotificationsClear :: "mlib \<Rightarrow> moment \<Rightarrow> rest_config \<Rightarrow> mreq \<Rightarrow> actor option \<Rightarrow> string \<Rightarrow> mgmt \<Rightarrow> handled" where
  "handleNotificationsClear L M cfg r act inst m = handle_command L M cfg r act inst m CClear"

definition handlePreview :: "mlib \<Rightarrow> moment \<Rightarrow> mreq \<Rightarrow> actor option \<Rightarrow> string \<Rightarrow> mgmt \<Rightarrow> handled" where
  "handlePreview L M r act inst m = respond inst
    (\<lambda>x. case x of SBytes b \<Rightarrow> writeBytes 200 ''application/json; charset=utf-8'' b | _ \<Rightarrow> recovered inst)
    (svc_run L M act (CPreview (TrimSpace (mq_query r ''user'')) (TrimSpace (mq_query r ''path''))) m)"

definition audit_row :: "mlib \<Rightarrow> event \<Rightarrow> auditJSON" where
  "audit_row L e = \<lparr>aj_id = ev_id e, aj_time = rfc3339 L (ev_time e), aj_actorID = ev_actorID e, aj_capability = ev_capability e,
     aj_result = ev_result e, aj_errorCode = ev_errorCode e\<rparr>"

definition audit_limit :: "mreq \<Rightarrow> int option" where
  "audit_limit r =
    (let raw = mq_query r ''limit'' in
     if raw = [] then Some 0
     else (case parse_int raw of None \<Rightarrow> None | Some n \<Rightarrow> if n < 0 then None else Some n))"

definition handleAudit :: "mlib \<Rightarrow> moment \<Rightarrow> mreq \<Rightarrow> actor option \<Rightarrow> string \<Rightarrow> mgmt \<Rightarrow> handled" where
  "handleAudit L M r act inst m = (case audit_limit r of
     None \<Rightarrow> refuse inst m (rest_fail ''invalid limit'' [fv ''limit'' ''invalid_value'' ''limit must be a non-negative integer''])
   | Some limit \<Rightarrow> respond inst
       (\<lambda>x. case x of SAudit es \<Rightarrow> writeJSON (ml_cfg L) 200 (MAudit (map (audit_row L) es)) | _ \<Rightarrow> recovered inst)
       (svc_run L M act (CAudit limit) m))"

text \<open>The exporter refuses other spellings of the method; a scrape takes the mutex of the service for its gauges.\<close>

definition handleMetrics :: "mreq \<Rightarrow> mgmt \<Rightarrow> handled" where
  "handleMetrics r m =
    (if mq_method r \<noteq> ''GET'' \<and> mq_method r \<noteq> ''HEAD'' then
       Some (m, Answer ((plain_response 405 ''text/plain; charset=utf-8'' (MText (''method not allowed'' @ [CHR 0x0A])))\<lparr>ms_allow := ''GET, HEAD''\<rparr>))
     else if mq_method r = ''HEAD'' then Some (m, Answer (plain_response 200 ''application/openmetrics-text; version=1.0.0; charset=utf-8'' MNone))
     else if me_jammed m then None
     else Some (m, Answer (plain_response 200 ''application/openmetrics-text; version=1.0.0; charset=utf-8'' MMetrics)))"

section \<open>Operator sessions\<close>

definition cookieSecure :: "rest_config \<Rightarrow> mreq \<Rightarrow> bool" where
  "cookieSecure cfg r = CookieSecure (Some (mq_tls r)) (rf_cookieSecure cfg)"

definition handleSessionCreate :: "mlib \<Rightarrow> moment \<Rightarrow> rest_config \<Rightarrow> mreq \<Rightarrow> string \<Rightarrow> actor \<Rightarrow> mgmt \<Rightarrow> handled" where
  "handleSessionCreate L M cfg r inst who m =
    (let p = \<lparr>pn_id = ac_id who, pn_class = ac_class who, pn_role = ac_role who, pn_scopes = ac_scopes who\<rparr>;
         (r1, r2, r3) = mo_random M in
     case sess_Create r1 r2 r3 (mo_now M) (me_sessions m) p of
       Inl err \<Rightarrow> refuse inst m (GDomain err)
     | Inr ((ck, csrf, sess), tbl) \<Rightarrow>
         Some (m\<lparr>me_sessions := tbl\<rparr>,
           Answer ((writeJSON (ml_cfg L) 200 (MSessionCreated csrf (rfc3339 L (ExpiresAt tbl sess))))
             \<lparr>ms_cookie := Some (NewSessionCookie ck (cookieSecure cfg r) (MaxAge (Some tbl)))\<rparr>)))"

definition handleSessionGet :: "mlib \<Rightarrow> moment \<Rightarrow> mreq \<Rightarrow> actor \<Rightarrow> mgmt \<Rightarrow> handled" where
  "handleSessionGet L M r who m =
    (let view = (\<lambda>csrf expires. Answer (writeJSON (ml_cfg L) 200 (MSession (ac_id who) (ac_role who) (ac_scopes who) csrf expires))) in
     case mq_cookie r of
       None \<Rightarrow> Some (m, view [] [])
     | Some c \<Rightarrow>
         (case sess_Lookup (mo_now M) (me_sessions m) c of
            (tbl, None) \<Rightarrow> Some (m\<lparr>me_sessions := tbl\<rparr>, view [] [])
          | (tbl, Some (sess, csrf)) \<Rightarrow> Some (m\<lparr>me_sessions := tbl\<rparr>, view csrf (rfc3339 L (ExpiresAt tbl sess)))))"

definition handleSessionDelete :: "rest_config \<Rightarrow> mreq \<Rightarrow> mgmt \<Rightarrow> handled" where
  "handleSessionDelete cfg r m =
    (let m' = (case mq_cookie r of None \<Rightarrow> m | Some c \<Rightarrow> m\<lparr>me_sessions := sess_Delete (me_sessions m) c\<rparr>)
     in Some (m', Answer ((plain_response 204 [] MNone)\<lparr>ms_cookie := Some (ClearSessionCookie (cookieSecure cfg r))\<rparr>)))"

section \<open>Dispatch\<close>

definition param :: "string gomap \<Rightarrow> string \<Rightarrow> string" where
  "param ps k = (case map_of ps k of None \<Rightarrow> [] | Some v \<Rightarrow> v)"

definition dispatch_queries :: "mlib \<Rightarrow> moment \<Rightarrow> rest_config \<Rightarrow> mreq \<Rightarrow> actor option \<Rightarrow> string \<Rightarrow> mgmt \<Rightarrow> string \<Rightarrow> string gomap \<Rightarrow> handled" where
  "dispatch_queries L M cfg r act inst m i params =
    (if i = ''profiles.list'' then handleProfilesList L M act inst m
     else if i = ''profiles.get'' then handleProfilesGet L M act inst m (param params ''name'')
     else if i = ''users.list'' then handleUsersList L M act inst m
     else if i = ''datastore.get'' then handleDatastoreGet L M act inst m (param params ''profile'') (param params ''store'')
     else if i = ''datastore.set'' then handleDatastoreSet L M cfg r act inst m (param params ''profile'') (param params ''store'')
     else if i = ''datastore.commit'' then handleCommit L M cfg r act inst m (param params ''profile'')
     else if i = ''datastore.discard'' then handleDiscard L M cfg r act inst m (param params ''profile'')
     else if i = ''sessions.list'' then handleSessionsList L M act inst m
     else if i = ''session.kill'' then handleSessionKill L M cfg r act inst m (param params ''id'')
     else if i = ''notifications.list'' then handleNotificationsList L M r act inst m
     else if i = ''notifications.get'' then handleNotificationGet L M act inst m (param params ''id'')
     else if i = ''notifications.wait'' then handleNotificationsWait L M cfg r act inst m
     else if i = ''notifications.clear'' then handleNotificationsClear L M cfg r act inst m
     else if i = ''preview.get'' then handlePreview L M r act inst m
     else if i = ''audit.query'' then handleAudit L M r act inst m
     else if i = ''metrics.get'' then handleMetrics r m
     else refuse inst m (GDomain (NotFound ''not found'')))"

definition rest_dispatch :: "mlib \<Rightarrow> moment \<Rightarrow> rest_config \<Rightarrow> mreq \<Rightarrow> actor option \<Rightarrow> string \<Rightarrow> mgmt \<Rightarrow> string \<Rightarrow> string gomap \<Rightarrow> handled" where
  "rest_dispatch L M cfg r act inst m i params =
    (if ctx_err (mo_ctx M) \<noteq> None then refuse inst m (GDomain (WaitTimeout ''request canceled''))
     else if i = ''health.live'' then handleHealthLive L M m
     else if i = ''health.ready'' then handleHealthReady L M m
     else if i = ''session.create'' then handleSessionCreate L M cfg r inst (ActorFrom act) m
     else if i = ''session.get'' then handleSessionGet L M r (ActorFrom act) m
     else if i = ''session.delete'' then handleSessionDelete cfg r m
     else if i = ''version.get'' then Some (m, Answer (writeJSON (ml_cfg L) 200 MVersion))
     else if i = ''capabilities.get'' then
       Some (m, Answer (writeJSON (ml_cfg L) 200 (MCapabilities (case newIndexes capability_catalog of None \<Rightarrow> [] | Some idx \<Rightarrow> DiscoveryList idx))))
     else if i = ''status.get'' then handleStatus L M act inst m
     else if i = ''schema.get'' then handleSchema L M act inst m
     else if i = ''features.list'' then handleFeatures L M act inst m
     else if i = ''state.get'' then handleGetState L M act inst m
     else if i = ''state.validate'' then handleValidate L M cfg r act inst m
     else if i = ''changes.plan'' then handlePlan L M cfg r act inst m
     else if i = ''changes.apply'' then handleApply L M cfg r act inst m
     else if i = ''state.export'' then handleExport L M r act inst m
     else if i = ''state.reset'' then handleReset L M cfg r act inst m
     else dispatch_queries L M cfg r act inst m i params)"

section \<open>The handler\<close>

definition requestID :: "moment \<Rightarrow> mreq \<Rightarrow> string" where
  "requestID M r =
    (if mq_requestID r \<noteq> [] then mq_requestID r
     else (case mo_requestRandom M of None \<Rightarrow> ''req-fallback'' | Some b \<Rightarrow> hex_encode b))"

definition isHealthCap :: "capability \<Rightarrow> bool" where
  "isHealthCap c \<longleftrightarrow> cp_id c = ''health.live'' \<or> cp_id c = ''health.ready''"

text \<open>\<open>path.Clean\<close> of a rooted path.\<close>

fun clean_parts :: "string list \<Rightarrow> string list \<Rightarrow> string list" where
  "clean_parts out [] = rev out"
| "clean_parts out (p # ps) =
    (if p = [] \<or> p = ''.'' then clean_parts out ps else if p = ''..'' then clean_parts (tl out) ps else clean_parts (p # out) ps)"

definition path_Clean :: "string \<Rightarrow> string" where
  "path_Clean p = ''/'' @ join_slash (clean_parts [] (split_byte (CHR ''/'') p))"

definition under :: "string \<Rightarrow> string \<Rightarrow> bool" where
  "under dir p \<longleftrightarrow> p = dir \<or> prefix (dir @ ''/'') p"

definition tryMCP :: "rest_config \<Rightarrow> mreq \<Rightarrow> bool" where
  "tryMCP cfg r \<longleftrightarrow> rf_mcp cfg \<and> under ''/mcp'' (path_Clean (''/'' @ mq_path r))"

definition reservedManagementPath :: "string \<Rightarrow> bool" where
  "reservedManagementPath p = (let q = path_Clean (''/'' @ p) in under ''/v1'' q \<or> under ''/mcp'' q \<or> under ''/restconf'' q)"

text \<open>The function that \<open>serve.go\<close> passes reads the active document.\<close>

definition uiEnabled :: "mgmt \<Rightarrow> bool" where
  "uiEnabled m = (case canonical_of m of None \<Rightarrow> False | Some st \<Rightarrow> ui_enabled (sp_ui (st_spec st)))"

definition tryUI :: "rest_config \<Rightarrow> mgmt \<Rightarrow> mreq \<Rightarrow> bool" where
  "tryUI cfg m r \<longleftrightarrow> rf_ui cfg \<and> \<not> reservedManagementPath (mq_path r) \<and> uiEnabled m"

definition serveHTTP :: "mlib \<Rightarrow> rest_config \<Rightarrow> moment \<Rightarrow> mreq \<Rightarrow> mgmt \<Rightarrow> handled" where
  "serveHTTP L cfg M r m =
    (let inst = ''urn:labnetconf:request:'' @ requestID M r; routes = routes_of (ml_upper L) in
     case CheckOrigin (ml_auth L) (ml_json L) (mq_origin r) (me_origins m) of
       Some err \<Rightarrow> refuse inst m (GDomain err)
     | None \<Rightarrow>
         if mq_method r = ''OPTIONS'' then refuse inst m (GDomain (Forbidden ''CORS is disabled''))
         else (case matchRoute (ml_upper L) routes (mq_method r) (mq_path r) of
             None \<Rightarrow> Some (m, Answer (recovered inst))
           | Some NoRoute \<Rightarrow>
               if tryMCP cfg r then Some (m, ToMCP)
               else if tryUI cfg m r then Some (m, ToUI)
               else refuse inst m (GDomain (NotFound ''not found''))
           | Some (PathOnly rt) \<Rightarrow>
               (case allowedMethods routes (mq_path r) of
                  None \<Rightarrow> Some (m, Answer (recovered inst))
                | Some allow \<Rightarrow>
                    Some (m, Answer ((writeProblem inst (rest_fail ''method not allowed'' [fv [] ''invalid_value'' ''method not allowed'']))
                      \<lparr>ms_allow := allow\<rparr>)))
           | Some (Routed rt params) \<Rightarrow>
               if isHealthCap (cr_cap rt) then rest_dispatch L M cfg r None inst m (cp_id (cr_cap rt)) params
               else (case rest_authenticate L M r m of
                   (m1, Inl err) \<Rightarrow> refuse inst m1 err
                 | (m1, Inr who) \<Rightarrow>
                     (case rest_authorize L M r who (cr_cap rt) m1 of
                        (m2, Some err) \<Rightarrow> refuse inst m2 err
                      | (m2, None) \<Rightarrow> rest_dispatch L M cfg r (Some who) inst m2 (cp_id (cr_cap rt)) params))))"

text \<open>\<open>New\<close>, for the verifier and origins of \<open>managementAuth\<close>: the table of sessions is new, and the hook that clears it is registered; so are
  the reload hooks of both adapters.\<close>

definition rest_New :: "app \<Rightarrow> plane \<Rightarrow> verifier option \<Rightarrow> string list \<Rightarrow> string \<Rightarrow> mgmt" where
  "rest_New a pl v origins baseDir =
    \<lparr>me_app = OnApply (OnReset (OnApply (OnReset a (Some HookMCP)) (Some HookMCP)) (Some HookREST)) (Some HookREST), me_plane = pl,
     me_auth = map_option (\<lambda>v. OnIdentityChange v (Some 0)) v, me_sessions = auth_NewStore DefaultSessionConfig, me_origins = origins,
     me_mcpOrigins = origins, me_baseDir = baseDir, me_jammed = False, me_stdioSecret = [], me_stdioActor = None\<rparr>"

section \<open>A request is at most one call\<close>

text \<open>The capability that a call of the service belongs to.\<close>

fun call_cap :: "svc_call \<Rightarrow> string set" where
  "call_cap CStatus = {''status.get''}"
| "call_cap CSchema = {''schema.get''}"
| "call_cap CFeatures = {''features.list''}"
| "call_cap CState = {''state.get'', ''state.export''}"
| "call_cap (CValidate body) = {''state.validate''}"
| "call_cap CExport = {''state.export''}"
| "call_cap CReset = {''state.reset''}"
| "call_cap (CPlan opers expected) = {''changes.plan''}"
| "call_cap (CApply opers expected key) = {''changes.apply''}"
| "call_cap CProfiles = {''profiles.list''}"
| "call_cap (CProfile name) = {''profiles.get''}"
| "call_cap CUsers = {''users.list''}"
| "call_cap (CGetDatastore p st) = {''datastore.get''}"
| "call_cap (CSetDatastore p st v) = {''datastore.set''}"
| "call_cap (CCommit p) = {''datastore.commit''}"
| "call_cap (CDiscard p) = {''datastore.discard''}"
| "call_cap CSessions = {''sessions.list''}"
| "call_cap (CKill i) = {''session.kill''}"
| "call_cap (CNotifications q) = {''notifications.list''}"
| "call_cap (CNotification i) = {''notifications.get''}"
| "call_cap (CWait c q) = {''notifications.wait''}"
| "call_cap CClear = {''notifications.clear''}"
| "call_cap (CPreview u p) = {''preview.get''}"
| "call_cap (CAudit limit) = {''audit.query''}"

text \<open>At most the table of operator sessions differs.\<close>

definition same_service :: "mgmt \<Rightarrow> mgmt \<Rightarrow> bool" where
  "same_service m m' \<longleftrightarrow> (\<exists>s. m' = m\<lparr>me_sessions := s\<rparr>)"

text \<open>A handler leaves a state with \<open>P\<close>, or the state that one call of the service for the capability leaves.\<close>

definition one_call :: "(mgmt \<Rightarrow> bool) \<Rightarrow> mlib \<Rightarrow> moment \<Rightarrow> actor option \<Rightarrow> string \<Rightarrow> mgmt \<Rightarrow> handled \<Rightarrow> bool" where
  "one_call P L M act i m res \<longleftrightarrow> (\<forall>m' out. res = Some (m', out) \<longrightarrow>
     P m' \<or> (\<exists>call x. svc_run L M act call m = Some (m', x) \<and> i \<in> call_cap call))"

lemma same_refl [simp]: "same_service m m"
  unfolding same_service_def by (rule exI [of _ "me_sessions m"]) simp

lemma same_sessions [simp]: "same_service m (m\<lparr>me_sessions := s\<rparr>)"
  unfolding same_service_def by blast

lemma same_trans: "same_service m m' \<Longrightarrow> same_service m' m'' \<Longrightarrow> same_service m m''"
  by (auto simp: same_service_def)

lemma one_call_answer [simp]: "P m' \<Longrightarrow> one_call P L M act i m (Some (m', out))"
  by (simp add: one_call_def)

lemma one_call_refuse [simp]: "P m' \<Longrightarrow> one_call P L M act i m (refuse inst m' err)"
  by (simp add: refuse_def)

lemma one_call_none [simp]: "one_call P L M act i m None"
  by (simp add: one_call_def)

lemma respond_state: "respond inst ok res = Some (m', out) \<Longrightarrow> \<exists>x. res = Some (m', x)"
  by (auto simp: respond_def split: option.splits prod.splits svc_result.splits)

lemma one_call_respond [simp]: "i \<in> call_cap call \<Longrightarrow> one_call P L M act i m (respond inst ok (svc_run L M act call m))"
  unfolding one_call_def using respond_state by blast

lemma one_call_command [simp]: "P m \<Longrightarrow> i \<in> call_cap call \<Longrightarrow> one_call P L M act i m (handle_command L M cfg r act inst m call)"
  by (simp add: handle_command_def split: sum.split)

lemma one_call_wait [simp]: "P m \<Longrightarrow> one_call P L M act ''notifications.wait'' m (handleNotificationsWait L M cfg r act inst m)"
proof -
  assume "P m"
  have "one_call P L M act ''notifications.wait'' m (case svc_run L M act (CWait c q) m of
      None \<Rightarrow> None | Some (m', SFail err) \<Rightarrow> Some (m', f err) | Some (m', _) \<Rightarrow> Some (m', w))" for c q f w
    unfolding one_call_def by (intro allI impI disjI2 exI [of _ "CWait c q"]) (auto split: option.splits svc_result.splits)
  then show ?thesis using \<open>P m\<close> by (simp add: handleNotificationsWait_def split: sum.split option.split)
qed

lemma one_call_metrics [simp]: "P m \<Longrightarrow> one_call P L M act i m (handleMetrics r m)"
  by (simp add: handleMetrics_def)

lemma one_call_queries: "P m \<Longrightarrow> one_call P L M act i m (dispatch_queries L M cfg r act inst m i params)"
  by (simp add: dispatch_queries_def handleProfilesList_def handleProfilesGet_def handleUsersList_def handleDatastoreGet_def
      handleDatastoreSet_def handleCommit_def handleDiscard_def handleSessionsList_def handleSessionKill_def handleNotificationsList_def
      handleNotificationGet_def handleNotificationsClear_def handlePreview_def handleAudit_def split: sum.split option.split)

lemma one_call_dispatch:
  assumes "P m" and "i = ''session.create'' \<Longrightarrow> one_call P L M act i m (handleSessionCreate L M cfg r inst (ActorFrom act) m)"
    and "i = ''session.get'' \<Longrightarrow> one_call P L M act i m (handleSessionGet L M r (ActorFrom act) m)"
    and "i = ''session.delete'' \<Longrightarrow> one_call P L M act i m (handleSessionDelete cfg r m)"
  shows "one_call P L M act i m (rest_dispatch L M cfg r act inst m i params)"
  using assms by (simp add: rest_dispatch_def one_call_queries handleHealthLive_def handleHealthReady_def handleStatus_def handleSchema_def
      handleFeatures_def handleGetState_def handleValidate_def handlePlan_def handleApply_def handleExport_def handleReset_def Let_def
      split: sum.split option.split)

lemma dispatch_one_call:
  assumes "rest_dispatch L M cfg r act inst m i params = Some (m', out)"
  shows "same_service m m' \<or> (\<exists>call x. svc_run L M act call m = Some (m', x) \<and> i \<in> call_cap call)"
proof -
  have "one_call (same_service m) L M act i m (rest_dispatch L M cfg r act inst m i params)"
    by (rule one_call_dispatch)
      (simp_all add: handleSessionCreate_def handleSessionGet_def handleSessionDelete_def Let_def split: prod.split sum.split option.split)
  with assms show ?thesis by (simp add: one_call_def)
qed

lemma routed_in: "match_routes meth path hit rts = Some (Routed rt ps) \<Longrightarrow> (\<forall>q qs. hit \<noteq> Routed q qs) \<Longrightarrow> rt \<in> set rts"
  by (induction rts arbitrary: hit) (auto split: option.splits if_splits)

lemma routed_cap: "matchRoute up (routes_of up) meth path = Some (Routed rt ps) \<Longrightarrow> cr_cap rt \<in> set capability_catalog"
  using routed_in [of "ToUpper up meth" path NoRoute "routes_of up" rt ps] by (auto simp: matchRoute_def routes_of_def compileRoutes_def)

fun changing :: "svc_call \<Rightarrow> bool" where
  "changing CReset = True"
| "changing (CApply opers expected key) = True"
| "changing (CSetDatastore p st v) = True"
| "changing (CCommit p) = True"
| "changing (CDiscard p) = True"
| "changing (CKill i) = True"
| "changing CClear = True"
| "changing call = False"

lemma svc_run_unchanged:
  assumes "svc_run L M act call m = Some (m', x)" and "\<not> changing call"
  shows "m' = m \<or> (\<exists>c q. call = CWait c q \<and> m' = m\<lparr>me_app := (me_app m)\<lparr>ap_notif := notif_step (ap_notif (me_app m)) (DoWait None q)\<rparr>\<rparr>)"
  using assms by (cases call) (auto simp: svc_run_def wait_begin_def split: if_splits option.splits)

lemma changing_scopes:
  assumes "c \<in> set capability_catalog" and "cp_id c \<in> call_cap call" and "changing call"
  shows "ScopeNetconfWrite \<in> set (cp_scopes c) \<or> ScopeNetconfAdmin \<in> set (cp_scopes c)"
proof -
  let ?ids = "[''state.reset'', ''changes.apply'', ''datastore.set'', ''datastore.commit'', ''datastore.discard'', ''session.kill'', ''notifications.clear'']"
  have "list_all (\<lambda>c. cp_id c \<notin> set ?ids \<or> ScopeNetconfWrite \<in> set (cp_scopes c) \<or> ScopeNetconfAdmin \<in> set (cp_scopes c)) capability_catalog"
    by code_simp
  moreover have "cp_id c \<in> set ?ids" using assms(2,3) by (cases call) simp_all
  ultimately show ?thesis using assms(1) by (auto simp: list_all_iff)
qed

lemma authenticate_same: "rest_authenticate L M r m = (m1, res) \<Longrightarrow> same_service m m1"
  by (auto simp: rest_authenticate_def Let_def split: option.splits if_splits prod.splits)

lemma authorize_same: "rest_authorize L M r who c m = (m1, res) \<Longrightarrow> same_service m m1"
  by (auto simp: rest_authorize_def Let_def split: option.splits if_splits prod.splits)

text \<open>What the authorization has checked when it lets a request pass that was authenticated.\<close>

lemma authorize_checks:
  assumes "rest_authorize L M r who c m1 = (m2, None)"
  shows "AuthorizeScopes (ac_scopes who) (cp_scopes c) = None"
    and "UnsafeMethod (mq_method r) \<Longrightarrow> TrimSpace (mq_authorization r) = [] \<Longrightarrow> mq_cookie r = Some ck \<Longrightarrow> ck \<noteq> []
      \<Longrightarrow> snd (ValidCSRF (ml_cfg L) (mo_now M) (me_sessions m1) ck (mq_csrf r))"
  using assms by (auto simp: rest_authorize_def Let_def split: option.splits if_splits prod.splits)

lemma cookie_login:
  assumes "rest_authenticate L M r m = (m1, Inr who)" and "TrimSpace (mq_authorization r) = []"
  obtains ck where "mq_cookie r = Some ck" "ck \<noteq> []"
  using assms by (auto simp: rest_authenticate_def Let_def split: option.splits if_splits)

lemma serveHTTP_guard:
  assumes "serveHTTP L cfg M r m = Some (m', out)" and "\<not> same_service m m'"
  obtains rt ps who m1 m2 inst where
    "CheckOrigin (ml_auth L) (ml_json L) (mq_origin r) (me_origins m) = None"
    "matchRoute (ml_upper L) (routes_of (ml_upper L)) (mq_method r) (mq_path r) = Some (Routed rt ps)"
    "rest_authenticate L M r m = (m1, Inr who)" "rest_authorize L M r who (cr_cap rt) m1 = (m2, None)"
    "rest_dispatch L M cfg r (Some who) inst m2 (cp_id (cr_cap rt)) ps = Some (m', out)"
proof -
  have health: "same_service m m'" if "rest_dispatch L M cfg r None inst m (cp_id c) ps = Some (m', out)" "isHealthCap c" for inst c ps
  proof -
    from dispatch_one_call [OF that(1)]
    have "same_service m m' \<or> (\<exists>call x. svc_run L M None call m = Some (m', x) \<and> cp_id c \<in> call_cap call)" .
    moreover have "cp_id c \<notin> call_cap call" for call using that(2) by (cases call) (auto simp: isHealthCap_def)
    ultimately show ?thesis by blast
  qed
  let ?origin = "CheckOrigin (ml_auth L) (ml_json L) (mq_origin r) (me_origins m)"
  let ?routed = "matchRoute (ml_upper L) (routes_of (ml_upper L)) (mq_method r) (mq_path r)"
  have o: "?origin = None" using assms by (cases ?origin) (simp_all add: serveHTTP_def refuse_def Let_def)
  note run = assms(1) [unfolded serveHTTP_def Let_def o option.case]
  have opt: "mq_method r \<noteq> ''OPTIONS''" using run assms(2) by (auto simp: refuse_def)
  note run = run [simplified opt if_False]
  have "\<exists>rt ps. ?routed = Some (Routed rt ps)"
    using run assms(2) by (auto simp: refuse_def split: option.splits if_splits routed.splits)
  then obtain rt ps where rt: "?routed = Some (Routed rt ps)" by blast
  note run = run [simplified rt option.case routed.case]
  have nh: "\<not> isHealthCap (cr_cap rt)" using run health assms(2) by (auto split: if_splits)
  note run = run [simplified nh if_False]
  obtain m1 res where a: "rest_authenticate L M r m = (m1, res)" by (metis surj_pair)
  have "\<exists>who. res = Inr who" using run assms(2) authenticate_same [OF a] by (cases res) (auto simp: a refuse_def)
  then obtain who where who: "res = Inr who" by blast
  obtain m2 err where z: "rest_authorize L M r who (cr_cap rt) m1 = (m2, err)" by (metis surj_pair)
  have "same_service m m2" using same_trans [OF authenticate_same [OF a] authorize_same [OF z]] .
  then have "err = None" using run assms(2) by (cases err) (auto simp: a who z refuse_def)
  with that o rt a who z run show ?thesis by simp
qed

section \<open>Sessions end with their token\<close>

definition table_backed :: "storedToken list \<Rightarrow> sess_store \<Rightarrow> bool" where
  "table_backed ts s \<longleftrightarrow> (\<forall>kr \<in> set (st_sessions s). backed ts (sr_public (snd kr)))"

lemma sessions_backed_table:
  "sessions_backed m \<longleftrightarrow> (case me_auth m of
     None \<Rightarrow> st_sessions (me_sessions m) = []
   | Some v \<Rightarrow> distinct (map to_id (vf_tokens v)) \<and> vf_onChange v \<noteq> [] \<and> table_backed (vf_tokens v) (me_sessions m))"
  by (auto simp: sessions_backed_def table_backed_def list_all_iff split: option.split)

lemma backed_identity:
  "backed ts s \<Longrightarrow> ss_tokenID s' = ss_tokenID s \<Longrightarrow> ss_role s' = ss_role s \<Longrightarrow> ss_scopes s' = ss_scopes s \<Longrightarrow> backed ts s'"
  by (simp add: backed_def)

lemma table_del: "table_backed ts s \<Longrightarrow> table_backed ts (s\<lparr>st_sessions := kv_del k (st_sessions s)\<rparr>)"
  by (auto simp: table_backed_def dest!: kv_del_mem)

lemma table_put: "table_backed ts s \<Longrightarrow> backed ts (sr_public rec) \<Longrightarrow> table_backed ts (s\<lparr>st_sessions := kv_put k rec (st_sessions s)\<rparr>)"
  by (auto simp: table_backed_def dest!: kv_put_mem)

lemma table_expire: "table_backed ts s \<Longrightarrow> table_backed ts (expireLocked now s)"
  by (auto simp: table_backed_def expireLocked_def)

lemma table_evict: "table_backed ts s \<Longrightarrow> table_backed ts (evictOldestLocked s)"
  by (auto simp: evictOldestLocked_def table_del split: option.split)

lemma lookup_backed:
  assumes "table_backed ts s" and "sess_Lookup now s c = (s', found)"
  shows "table_backed ts s' \<and> (\<forall>x csrf. found = Some (x, csrf) \<longrightarrow> backed ts x)"
proof (cases "map_of (st_sessions s) c")
  case (Some rec)
  then have "backed ts (sr_public rec)" using assms(1) map_of_SomeD [OF Some] by (force simp: table_backed_def)
  then have b: "backed ts ((sr_public rec)\<lparr>ss_lastSeen := now\<rparr>)" by (rule backed_identity) simp_all
  then show ?thesis using assms Some table_put [OF assms(1), of "rec\<lparr>sr_lastSeen := now, sr_public := (sr_public rec)\<lparr>ss_lastSeen := now\<rparr>\<rparr>"]
    by (auto simp: sess_Lookup_def Let_def table_del split: if_splits)
qed (use assms in \<open>auto simp: sess_Lookup_def split: if_splits\<close>)

lemma csrf_backed: "table_backed ts s \<Longrightarrow> ValidCSRF K now s c p = (s', ok) \<Longrightarrow> table_backed ts s'"
  by (auto simp: ValidCSRF_def table_del split: if_splits option.splits)

lemma create_backed:
  assumes "table_backed ts s" and "sess_Create r1 r2 r3 now s p = Inr (out, s')"
    and "backed ts \<lparr>ss_id = [], ss_tokenID = pn_id p, ss_role = pn_role p, ss_scopes = pn_scopes p, ss_createdAt = 0, ss_lastSeen = 0\<rparr>"
  shows "table_backed ts s'"
  using assms(2) unfolding sess_Create_def
  by (auto simp: Let_def split: sum.splits if_splits
      intro!: table_put table_evict table_expire assms(1) backed_identity [OF assms(3)])

text \<open>Who the actor of a request is, in terms of the current tokens.\<close>

definition actor_backed :: "mgmt \<Rightarrow> actor \<Rightarrow> bool" where
  "actor_backed m who \<longleftrightarrow> (\<exists>v. me_auth m = Some v \<and> backed (vf_tokens v)
     \<lparr>ss_id = [], ss_tokenID = ac_id who, ss_role = ac_role who, ss_scopes = ac_scopes who, ss_createdAt = 0, ss_lastSeen = 0\<rparr>)"

lemma bearer_backed:
  assumes "Authenticate A K (Some v) h = Inr p"
  shows "\<exists>t \<in> set (vf_tokens v). p = principalOf t"
proof -
  from assms obtain secret where "lookupBearer K v secret = Inr p"
    by (auto simp: Authenticate_def Let_def split: if_splits)
  then obtain t where t: "filter (\<lambda>t. to_digest t = DigestSecret K secret) (vf_tokens v) = [t]" "p = principalOf t"
    by (auto simp: lookupBearer_eq split: if_splits list.splits)
  then have "t \<in> set (filter (\<lambda>t. to_digest t = DigestSecret K secret) (vf_tokens v))" by simp
  with t(2) show ?thesis by auto
qed

lemma sessions_put:
  "me_auth m = Some v \<Longrightarrow> sessions_backed m \<Longrightarrow> table_backed (vf_tokens v) s \<Longrightarrow> sessions_backed (m\<lparr>me_sessions := s\<rparr>)"
  by (simp add: sessions_backed_table)

lemma authenticate_backed:
  assumes "sessions_backed m" and "rest_authenticate L M r m = (m1, res)"
  shows "sessions_backed m1 \<and> (\<forall>who. res = Inr who \<longrightarrow> actor_backed m1 who)"
proof (cases "me_auth m")
  case None
  then show ?thesis using assms by (auto simp: rest_authenticate_def Let_def)
next
  case (Some v)
  show ?thesis
  proof (cases "TrimSpace (mq_authorization r) = []")
    case False
    then have e: "m1 = m" "res = map_sum GDomain rest_actorOf (Authenticate (ml_auth L) (ml_cfg L) (Some v) (TrimSpace (mq_authorization r)))"
      using assms(2) Some by (simp_all add: rest_authenticate_def Let_def)
    show ?thesis
      using e(1) assms(1) bearer_backed [of "ml_auth L" "ml_cfg L" v] Some unfolding e(2)
      by (cases "Authenticate (ml_auth L) (ml_cfg L) (Some v) (TrimSpace (mq_authorization r))")
        (fastforce simp: actor_backed_def backed_def list_ex_iff rest_actorOf_def principalOf_def sameScopes_def)+
  next
    case True
    have t: "table_backed (vf_tokens v) (me_sessions m)" using assms(1) Some by (simp add: sessions_backed_table)
    have who: "backed (vf_tokens v) \<lparr>ss_id = [], ss_tokenID = ss_tokenID x, ss_role = ss_role x, ss_scopes = ss_scopes x, ss_createdAt = 0, ss_lastSeen = 0\<rparr>"
      if "sess_Lookup now (me_sessions m) c = (s', Some (x, csrf))" for now c s' x csrf
      using lookup_backed [OF t that] by (simp add: backed_def)
    show ?thesis
      using assms(2) Some True assms(1) lookup_backed [OF t] sessions_put [OF Some assms(1)] who
      by (auto simp: rest_authenticate_def Let_def actor_backed_def rest_actorOf_def PrincipalFromSession_def
          split: option.splits if_splits prod.splits)
  qed
qed

lemma authorize_backed:
  assumes "sessions_backed m" and "rest_authorize L M r who c m = (m2, res)"
  shows "sessions_backed m2 \<and> me_auth m2 = me_auth m"
proof (cases "me_auth m")
  case None
  then show ?thesis using assms by (simp add: rest_authorize_def)
next
  case (Some v)
  then have t: "table_backed (vf_tokens v) (me_sessions m)" using assms(1) by (simp add: sessions_backed_table)
  show ?thesis using assms Some csrf_backed [OF t] sessions_put [OF Some assms(1)]
    by (auto simp: rest_authorize_def Let_def split: option.splits if_splits prod.splits)
qed


lemma session_create_backed:
  assumes "sessions_backed m" and "actor_backed m who" and "handleSessionCreate L M cfg r inst who m = Some (m', out)"
  shows "sessions_backed m'"
proof -
  from assms(2) obtain v where v: "me_auth m = Some v" and b: "backed (vf_tokens v)
      \<lparr>ss_id = [], ss_tokenID = ac_id who, ss_role = ac_role who, ss_scopes = ac_scopes who, ss_createdAt = 0, ss_lastSeen = 0\<rparr>"
    by (auto simp: actor_backed_def)
  have t: "table_backed (vf_tokens v) (me_sessions m)" using assms(1) v by (simp add: sessions_backed_table)
  show ?thesis
    using assms(3,1) create_backed [OF t _, of _ _ _ _ "\<lparr>pn_id = ac_id who, pn_class = ac_class who, pn_role = ac_role who, pn_scopes = ac_scopes who\<rparr>"] b sessions_put [OF v assms(1)]
    by (auto simp: handleSessionCreate_def refuse_def Let_def split: prod.splits sum.splits)
qed

lemma session_get_backed:
  assumes "sessions_backed m" and "handleSessionGet L M r who m = Some (m', out)"
  shows "sessions_backed m'"
proof (cases "me_auth m")
  case None
  then have "st_sessions (me_sessions m) = []" using assms(1) by (simp add: sessions_backed_table)
  then have "sess_Lookup now (me_sessions m) c = (me_sessions m, None)" for now c by (simp add: sess_Lookup_def)
  then show ?thesis using assms by (auto simp: handleSessionGet_def Let_def split: option.splits)
next
  case (Some v)
  then have t: "table_backed (vf_tokens v) (me_sessions m)" using assms(1) by (simp add: sessions_backed_table)
  show ?thesis using assms lookup_backed [OF t] sessions_put [OF Some assms(1)]
    by (auto simp: handleSessionGet_def Let_def split: option.splits prod.splits)
qed

lemma session_delete_backed: "sessions_backed m \<Longrightarrow> handleSessionDelete cfg r m = Some (m', out) \<Longrightarrow> sessions_backed m'"
  by (auto simp: handleSessionDelete_def Let_def sessions_backed_table sess_Delete_def table_del split: option.splits)

lemma dispatch_backed:
  assumes "sessions_backed m" and "rest_dispatch L M cfg r act inst m i params = Some (m', out)"
    and "i = ''session.create'' \<Longrightarrow> actor_backed m (ActorFrom act)"
  shows "sessions_backed m'"
proof -
  have "one_call sessions_backed L M act i m (rest_dispatch L M cfg r act inst m i params)"
    using assms(1,3) session_create_backed [OF assms(1)] session_get_backed [OF assms(1)] session_delete_backed [OF assms(1)]
    by (intro one_call_dispatch) (auto simp: one_call_def)
  with assms(2) svc_run_backed assms(1) show ?thesis by (auto simp: one_call_def)
qed

lemma serveHTTP_backed:
  assumes "serveHTTP L cfg M r m = Some (m', out)" and "sessions_backed m"
  shows "sessions_backed m'"
proof (cases "m' = m")
  case False
  have health: "m' = m \<or> sessions_backed m'" if "rest_dispatch L M cfg r None inst m (cp_id c) ps = Some (m', out)" "isHealthCap c" for inst c ps
    using dispatch_backed [OF assms(2) that(1)] that(2) by (auto simp: isHealthCap_def)
  have auth: "sessions_backed m1 \<and> (\<forall>who. res = Inr who \<longrightarrow> actor_backed m1 who)" if "rest_authenticate L M r m = (m1, res)" for m1 res
    by (rule authenticate_backed [OF assms(2) that])
  have full: "sessions_backed m'" if "rest_authenticate L M r m = (m1, Inr who)" "rest_authorize L M r who c m1 = (m2, res)"
      "res = None \<and> rest_dispatch L M cfg r (Some who) inst m2 i ps = Some (m', out) \<or> m' = m2" for m1 m2 who c res inst i ps
  proof -
    have a: "sessions_backed m1" "actor_backed m1 who" using auth [OF that(1)] by simp_all
    have z: "sessions_backed m2" "me_auth m2 = me_auth m1" using authorize_backed [OF a(1) that(2)] by simp_all
    then have "actor_backed m2 (ActorFrom (Some who))" using a(2) by (simp add: actor_backed_def ActorFrom_def)
    then show ?thesis using that(3) dispatch_backed [OF z(1)] z(1) by blast
  qed
  show ?thesis
    using assms(1) False health full auth
    by (simp add: serveHTTP_def refuse_def Let_def split: option.splits if_splits routed.splits prod.splits sum.splits) blast+
qed (use assms in simp)

end
