(* ===== verification/Control_Props.thy ===== *)
theory Control_Props
  imports Control_Rest
begin

text \<open>
  Properties of the management plane over sequences of requests: actors hold current tokens, a reload installs the tokens of the active
  document or locks everybody out, and three theorems on what the code gets wrong: relative paths of secrets after a reload, the spelling
  of the method in the CSRF check, and the mutex that a panicking reset keeps. The sample server serves the concrete instances.
\<close>

section \<open>One request\<close>

lemma table_scopes: "list_all (\<lambda>c. [] \<notin> set (cp_scopes c)) capability_catalog"
  by code_simp

lemma csrf_matches:
  assumes "snd (ValidCSRF K now s ck presented)"
  shows "\<exists>rec. map_of (st_sessions s) ck = Some rec \<and> presented \<noteq> [] \<and> DigestSecret K presented = DigestSecret K (sr_csrf rec)"
  using assms by (auto simp: ValidCSRF_def split: if_splits option.splits)

text \<open>C8: No unguarded change through the REST interface: when a request changes anything but the table of operator sessions, its origin is
  allowed, a route of the capability table matches it, it is authenticated and its actor has all scopes of that capability. A request
  without an \<open>Authorization\<close> header whose method is sent as POST, PUT, PATCH or DELETE, in upper case, also carries the CSRF token of the
  session its cookie names; the spelling matters, as \<open>lower_case_method_skips_csrf\<close> below shows. The change is that of one call
  of the service for this capability, made as that actor; unless the call only parks a waiter on the notifications, the actor
  has write or administrator scope.\<close>

theorem management_changes_guarded:
  assumes "serveHTTP L cfg M r m = Some (m', out)" and "\<not> same_service m m'"
  shows "CheckOrigin (ml_auth L) (ml_json L) (mq_origin r) (me_origins m) = None
    \<and> (\<exists>rt ps who m1 m2 call x.
        matchRoute (ml_upper L) (routes_of (ml_upper L)) (mq_method r) (mq_path r) = Some (Routed rt ps)
      \<and> rest_authenticate L M r m = (m1, Inr who) \<and> set (cp_scopes (cr_cap rt)) \<subseteq> set (ac_scopes who)
      \<and> (mq_method r \<in> {''POST'', ''PUT'', ''PATCH'', ''DELETE''} \<and> TrimSpace (mq_authorization r) = []
          \<longrightarrow> (\<exists>ck rec. mq_cookie r = Some ck \<and> map_of (st_sessions (me_sessions m1)) ck = Some rec
                \<and> mq_csrf r \<noteq> [] \<and> DigestSecret (ml_cfg L) (mq_csrf r) = DigestSecret (ml_cfg L) (sr_csrf rec)))
      \<and> same_service m m2 \<and> svc_run L M (Some who) call m2 = Some (m', x) \<and> cp_id (cr_cap rt) \<in> call_cap call
      \<and> ((\<exists>c q. call = CWait c q) \<or> ScopeNetconfWrite \<in> set (ac_scopes who) \<or> ScopeNetconfAdmin \<in> set (ac_scopes who)))"
proof -
  obtain rt ps who m1 m2 inst where g:
      "CheckOrigin (ml_auth L) (ml_json L) (mq_origin r) (me_origins m) = None"
      "matchRoute (ml_upper L) (routes_of (ml_upper L)) (mq_method r) (mq_path r) = Some (Routed rt ps)"
      "rest_authenticate L M r m = (m1, Inr who)" "rest_authorize L M r who (cr_cap rt) m1 = (m2, None)"
      "rest_dispatch L M cfg r (Some who) inst m2 (cp_id (cr_cap rt)) ps = Some (m', out)"
    by (rule serveHTTP_guard [OF assms])
  have s: "same_service m m2" using same_trans [OF authenticate_same [OF g(3)] authorize_same [OF g(4)]] .
  from dispatch_one_call [OF g(5)] s assms(2)
  obtain call x where call: "svc_run L M (Some who) call m2 = Some (m', x)" "cp_id (cr_cap rt) \<in> call_cap call"
    by (auto dest: same_trans)
  have auth: "AuthorizeScopes (ac_scopes who) (cp_scopes (cr_cap rt)) = None" by (rule authorize_checks(1) [OF g(4)])
  then have scopes: "set (cp_scopes (cr_cap rt)) \<subseteq> set (ac_scopes who)"
    using table_scopes routed_cap [OF g(2)] by (fastforce simp: authorized_iff list_all_iff)
  have csrf: "mq_method r \<in> {''POST'', ''PUT'', ''PATCH'', ''DELETE''} \<and> TrimSpace (mq_authorization r) = []
      \<longrightarrow> (\<exists>ck rec. mq_cookie r = Some ck \<and> map_of (st_sessions (me_sessions m1)) ck = Some rec
            \<and> mq_csrf r \<noteq> [] \<and> DigestSecret (ml_cfg L) (mq_csrf r) = DigestSecret (ml_cfg L) (sr_csrf rec))"
    using cookie_login [OF g(3)] authorize_checks(2) [OF g(4)] csrf_matches unfolding UnsafeMethod_def by metis
  have "(\<exists>c q. call = CWait c q) \<or> changing call" using svc_run_unchanged [OF call(1)] s assms(2) by auto
  then have "(\<exists>c q. call = CWait c q) \<or> ScopeNetconfWrite \<in> set (ac_scopes who) \<or> ScopeNetconfAdmin \<in> set (ac_scopes who)"
    using changing_scopes [OF routed_cap [OF g(2)] call(2)] auth by (auto simp: authorized_iff)
  with g(1-3) scopes csrf s call show ?thesis by blast
qed

section \<open>Sequences of requests\<close>

fun rest_requests :: "mlib \<Rightarrow> rest_config \<Rightarrow> (moment \<times> mreq) list \<Rightarrow> mgmt \<Rightarrow> mgmt option" where
  "rest_requests L cfg [] m = Some m"
| "rest_requests L cfg ((M, r) # rs) m = (case serveHTTP L cfg M r m of None \<Rightarrow> None | Some (m', out) \<Rightarrow> rest_requests L cfg rs m')"

lemma requests_backed: "rest_requests L cfg rs m = Some m' \<Longrightarrow> sessions_backed m \<Longrightarrow> sessions_backed m'"
proof (induction rs arbitrary: m)
  case (Cons q rs)
  obtain M r where q: "q = (M, r)" by (cases q)
  with Cons.prems(1) obtain m1 out where "serveHTTP L cfg M r m = Some (m1, out)" "rest_requests L cfg rs m1 = Some m'"
    by (auto split: option.splits)
  then show ?case using Cons.IH serveHTTP_backed Cons.prems(2) by blast
qed simp

lemma managementAuth_distinct: "managementAuth K snap baseDir = Inr (v, origins, legacy) \<Longrightarrow> distinct (map to_id (vf_tokens v))"
  by (auto simp: managementAuth_def Let_def FromSpec_distinct split: option.splits sum.splits)

lemma new_backed: "distinct (map to_id (vf_tokens v)) \<Longrightarrow> sessions_backed (rest_New a pl (Some v) origins baseDir)"
  by (simp add: sessions_backed_def rest_New_def OnIdentityChange_def auth_NewStore_def Let_def)

text \<open>C9: Operators act with current tokens only: after any sequence of requests to a server that started with the tokens of its document,
  whoever is authenticated, by a bearer token or by the cookie of a session, has the identity, the role and the scopes of a token
  of the verifier as it is now. Sessions that were opened with a token that an apply or a reset has removed or changed since
  are gone.\<close>

theorem actors_hold_current_tokens:
  assumes "managementAuth K snap baseDir = Inr (v, origins, legacy)"
    and "rest_requests L cfg rs (rest_New a pl (Some v) origins baseDir) = Some m"
    and "rest_authenticate L M r m = (m1, Inr who)"
  shows "\<exists>w t. me_auth m = Some w \<and> t \<in> set (vf_tokens w) \<and> ac_id who = to_id t \<and> ac_role who = to_role t
    \<and> mset (ac_scopes who) = mset (to_scopes t)"
proof -
  have "sessions_backed m" by (rule requests_backed [OF assms(2) new_backed [OF managementAuth_distinct [OF assms(1)]]])
  from authenticate_backed [OF this assms(3)] have "actor_backed m1 who" by blast
  moreover have "me_auth m1 = me_auth m" using authenticate_same [OF assms(3)] by (auto simp: same_service_def)
  moreover have "mset x = mset y" if "sameScopes x y" for x y :: "string list" using that by (metis sameScopes_def mset_sort)
  ultimately show ?thesis by (fastforce simp: actor_backed_def backed_def list_ex_iff)
qed

section \<open>Reloads\<close>

text \<open>Nobody is authenticated.\<close>

definition no_actor :: "mlib \<Rightarrow> mgmt \<Rightarrow> bool" where
  "no_actor L m \<longleftrightarrow> (\<forall>M r m1 who. rest_authenticate L M r m \<noteq> (m1, Inr who))"

lemma no_actor_empty:
  assumes "me_auth m = Some v" and "vf_tokens v = []" and "st_sessions (me_sessions m) = []"
  shows "no_actor L m"
proof -
  have "Authenticate A K (Some v) h \<noteq> Inr p" for A K h p using bearer_backed [of A K v h p] assms(2) by auto
  then have "map_sum GDomain rest_actorOf (Authenticate A K (Some v) h) \<noteq> Inr who" for A K h who
    by (metis map_sum.simps(1) sum.exhaust sum.distinct(1))
  moreover have "sess_Lookup now (me_sessions m) c = (me_sessions m, None)" for now c using assms(3) by (simp add: sess_Lookup_def)
  ultimately show ?thesis using assms(1) by (auto simp: no_actor_def rest_authenticate_def Let_def split: option.splits if_splits)
qed

lemma failClosed_no_actor: "me_auth m = Some v \<Longrightarrow> no_actor L (failClosedAuth m)"
  by (rule no_actor_empty [of _ "v\<lparr>vf_mode := vf_mode auth_Empty, vf_tokens := []\<rparr>"])
    (simp_all add: failClosedAuth_def replaceAuth_def Replace_def Let_def sess_Clear_def auth_Empty_def)

text \<open>C19: A reload of the tokens installs or locks out: afterwards the verifier has exactly the tokens that the active document
  compiles to, with the origins of that document, and if the tokens are not those of before every operator session is gone; or nobody
  can be authenticated at all. It locks out exactly when there is no document, its tokens do not compile or none is usable.\<close>

theorem token_reload_installs_or_locks_out:
  assumes "me_auth m = Some v"
  shows "case Option.bind (canonical_of m) (\<lambda>st. case FromSpec K (sp_auth (st_spec st)) of Inl _ \<Rightarrow> None | Inr n \<Rightarrow> if RequireListen K (Some n) = None then Some (st, n) else None) of
      None \<Rightarrow> no_actor L (rest_reloadAuth K m)
    | Some (st, n) \<Rightarrow> (\<exists>w. me_auth (rest_reloadAuth K m) = Some w \<and> vf_tokens w = vf_tokens n)
        \<and> me_origins (rest_reloadAuth K m) = mg_allowedOrigins (sp_management (st_spec st))
        \<and> (\<not> Equivalent (Some v) (Some n) \<longrightarrow> st_sessions (me_sessions (rest_reloadAuth K m)) = [])"
  using assms failClosed_no_actor [OF assms, of L]
  by (auto simp: rest_reloadAuth_def replaceAuth_def Replace_def storeOrigins_def sess_Clear_def Let_def
      split: option.splits sum.splits if_splits)

text \<open>The paths of the secrets are read as they stand in the document, although the start-up resolves them against the directory of
  the bootstrap file: a relative path that does not exist in the working directory locks every operator out at the first apply or
  reset.\<close>

theorem relative_secret_locks_out:
  assumes "me_auth m = Some v" and "canonical_of m = Some st" and "tok \<in> set (as_tokens (sp_auth (st_spec st)))"
    and "readSecretFile K (tk_secretFile tok) = None"
  shows "no_actor L (rest_reloadAuth K m)"
proof -
  have "\<exists>e. FromSpec K (sp_auth (st_spec st)) = Inl e"
  proof (cases "FromSpec K (sp_auth (st_spec st))")
    case (Inr n)
    then have "compile_tokens K 0 [] (as_tokens (sp_auth (st_spec st))) = Inr (vf_tokens n)"
      by (auto simp: FromSpec_def Let_def split: if_splits sum.splits)
    from compile_tokens_Inr [OF this] assms(3,4) show ?thesis by (metis in_set_conv_nth option.distinct(1))
  qed simp
  then show ?thesis using failClosed_no_actor [OF assms(1)] assms(1,2) by (auto simp: rest_reloadAuth_def)
qed

section \<open>The spelling of a method\<close>

lemma reset_routed:
  "case matchRoute up (routes_of up) ''post'' ''/v1/state:reset'' of Some (Routed rt ps) \<Rightarrow> cp_id (cr_cap rt) = ''state.reset'' | _ \<Rightarrow> False"
  by code_simp

text \<open>The routes are matched with the method in upper case, while the CSRF check looks at it as it was sent: a request with the method
  \<open>post\<close> and a session's cookie reaches the reset without a CSRF token.\<close>

theorem lower_case_method_skips_csrf:
  assumes "mq_method r = ''post''" and "mq_path r = ''/v1/state:reset''" and "me_auth m \<noteq> None" and "ScopeNetconfAdmin \<in> set (ac_scopes who)"
  shows "\<exists>rt ps. matchRoute (ml_upper L) (routes_of (ml_upper L)) (mq_method r) (mq_path r) = Some (Routed rt ps) \<and> cp_id (cr_cap rt) = ''state.reset''
    \<and> rest_authorize L M r who (cr_cap rt) m = (m, None)"
proof -
  obtain rt ps where rt: "matchRoute (ml_upper L) (routes_of (ml_upper L)) ''post'' ''/v1/state:reset'' = Some (Routed rt ps)" "cp_id (cr_cap rt) = ''state.reset''"
    using reset_routed [of "ml_upper L"] by (auto split: option.splits routed.splits)
  have "list_all (\<lambda>c. cp_id c \<noteq> ''state.reset'' \<or> cp_scopes c = [ScopeNetconfAdmin]) capability_catalog" by code_simp
  then have "cp_scopes (cr_cap rt) = [ScopeNetconfAdmin]" using routed_cap [OF rt(1)] rt(2) by (auto simp: list_all_iff)
  then have "AuthorizeScopes (ac_scopes who) (cp_scopes (cr_cap rt)) = None" using assms(4) by (simp add: HasScope_def list_ex_iff)
  then show ?thesis using rt assms(1-3) by (auto simp: rest_authorize_def UnsafeMethod_def)
qed

section \<open>A reset that panics\<close>

text \<open>\<open>Reset\<close> does not release the mutex in a deferred call. When reading the bootstrap file panics, the server recovers and answers, and
  from then on every call that needs the mutex blocks for ever.\<close>

theorem panicking_reset_jams:
  assumes "app_Reset (ml_go L) (ml_cfg L) (ml_json L) (mo_now M) (mo_stat M) (mo_ctx M) act (me_app m) = None" and "\<not> me_jammed m"
  shows "\<exists>m'. svc_run L M act CReset m = Some (m', SPanic)
    \<and> (\<forall>M' act' call. uses_mutex call \<longrightarrow> ctx_err (call_ctx M' call) = None \<longrightarrow> svc_run L M' act' call m' = None)"
  using assms by (intro exI [of _ "m\<lparr>me_jammed := True\<rparr>"]) (simp add: svc_run_def)

section \<open>Samples\<close>

definition admin_token :: storedToken where
  "admin_token = \<lparr>to_id = ''ci'', to_role = RoleAdministrator, to_scopes = allScopes, to_digest = sample_secret\<rparr>"

definition admin_verifier :: verifier where
  "admin_verifier = \<lparr>vf_mode = MgmtAuthBearer, vf_tokens = [admin_token], vf_onChange = []\<rparr>"

definition admin_auth :: auth_spec where
  "admin_auth = \<lparr>as_mode = [], as_tokens = [\<lparr>tk_id = ''ci'', tk_role = RoleAdministrator, tk_secretFile = ''t'', tk_scopes = []\<rparr>]\<rparr>"

definition admin_state :: state where
  "admin_state = boot_state\<lparr>st_spec := (st_spec boot_state)\<lparr>sp_auth := admin_auth\<rparr>\<rparr>"

definition admin_snap :: snapshot where
  "admin_snap = \<lparr>sn_canonical = Some admin_state, sn_revision = ''r'', sn_bootstrapRevision = ''r'', sn_generation = 0, sn_compiledAt = 7,
     sn_netconfAddress = [], sn_restconfAddress = [], sn_managementAddress = [], sn_restPath = [], sn_mcpPath = [], sn_hostKeyFile = [],
     sn_shared = False, sn_versions = [], sn_allow = [], sn_denyAll = False, sn_profiles = [], sn_users = []\<rparr>"

definition admin_app :: app where
  "admin_app = (app_New boot_golib \<lparr>op_snapshots = None, op_bootstrapPath = [],
      op_notif = (notif_init 4)\<lparr>ns_ring := \<lparr>r_cap = 4, r_items = [\<lparr>nt_id = ''n'', nt_stream = [], nt_profile = [], nt_changes = []\<rparr>], r_waiters = []\<rparr>\<rparr>,
      op_audit = None, op_idempotencyMax = 0\<rparr>)\<lparr>ap_snaps := \<lparr>ss_active = Some admin_snap, ss_previous = None, ss_bootstrap = Some admin_snap\<rparr>\<rparr>"

definition admin_lib :: mlib where
  "admin_lib = \<lparr>ml_go = boot_golib, ml_cfg = token_lib export_lib, ml_json = \<lparr>json_decode = \<lambda>_. None, json_encode = \<lambda>_. None, uni_lower = \<lambda>s. s\<rparr>,
     ml_auth = \<lparr>al_url = \<lambda>_. None, al_fold = \<lambda>_ _. False, al_ip = \<lambda>_. None\<rparr>, ml_ssh = ssh_lib, ml_rc = rc_lib, ml_upper = \<lambda>s. s, ml_remote = \<lambda>_. None,
     ml_change = \<lambda>_. DecBad, ml_reason = \<lambda>_. DecBad, ml_empty = \<lambda>_. DecBad, ml_wait = \<lambda>_. DecBad, ml_duration = \<lambda>_. None, ml_rfc3339 = \<lambda>_. []\<rparr>"

definition admin_moment :: moment where
  "admin_moment = \<lparr>mo_ctx = \<lparr>ctx_err = None, ctx_session = None\<rparr>, mo_now = 1, mo_random = (Some sample_secret, Some sample_secret, Some sample_secret),
     mo_requestRandom = None, mo_ident = [], mo_stat = StatOk, mo_live = None, mo_ready = None\<rparr>"

definition admin_plane :: plane where
  "admin_plane = \<lparr>pl_nc = None, pl_ssh = None, pl_rc = None, pl_closed = [], pl_log = []\<rparr>"

definition admin_cfg :: rest_config where
  "admin_cfg = \<lparr>rf_maxBody = 0, rf_cookieSecure = False, rf_mcp = False, rf_ui = False\<rparr>"

definition admin_server :: mgmt where
  "admin_server = rest_New admin_app admin_plane (Some admin_verifier) [] []"

definition bearer_request :: "string \<Rightarrow> mreq" where
  "bearer_request path = \<lparr>mq_method = ''POST'', mq_path = path, mq_authorization = ''Bearer '' @ sample_secret, mq_cookie = None, mq_origin = [], mq_csrf = [],
     mq_contentType = [], mq_ifMatch = [], mq_expected = [], mq_idempotency = [], mq_requestID = ''q'', mq_query = \<lambda>_. [], mq_tls = False, mq_body = [], mq_bodyErr = None\<rparr>"

definition cookie_request :: mreq where
  "cookie_request = (bearer_request ''/v1/state'')\<lparr>mq_authorization := [], mq_cookie := Some (hex_encode sample_secret)\<rparr>"

abbreviation admin_actor :: actor where
  "admin_actor \<equiv> \<lparr>ac_id = ''ci'', ac_class = ClassToken, ac_role = RoleAdministrator, ac_scopes = allScopes, ac_transport = ''rest''\<rparr>"

lemma trim_nil [simp]: "TrimSpace [] = []"
  by (simp add: TrimSpace_def)

lemma secret_text: "sample_secret \<noteq> []" "CHR '' '' \<notin> set sample_secret" "CHR 0x09 \<notin> set sample_secret"
    "TrimSpace sample_secret = sample_secret" "TrimSpace (''Bearer '' @ sample_secret) = ''Bearer '' @ sample_secret"
proof -
  show ne: "sample_secret \<noteq> []" "CHR '' '' \<notin> set sample_secret" "CHR 0x09 \<notin> set sample_secret" by (simp_all add: sample_secret_def)
  have l: "hd sample_secret = CHR ''s''" "last sample_secret = CHR ''s''" by (simp_all add: sample_secret_def numeral_eq_Suc)
  then show "TrimSpace sample_secret = sample_secret" using ne by (intro TrimSpace_plain) (simp_all add: plain_ascii_def)
  show "TrimSpace (''Bearer '' @ sample_secret) = ''Bearer '' @ sample_secret" using ne l by (intro TrimSpace_plain) (simp_all add: plain_ascii_def)
qed

lemma admin_bearer:
  assumes "vf_tokens v = [admin_token]"
  shows "Authenticate A (token_lib K) (Some v) (''Bearer '' @ sample_secret) = Inr (principalOf admin_token)"
proof -
  have "EqualFold A ''Bearer'' ''Bearer''" by (simp add: EqualFold_def)
  moreover have "lookupBearer (token_lib K) v sample_secret = Inr (principalOf admin_token)"
    using secret_text assms by (simp add: lookupBearer_eq DigestSecret_def token_lib_def admin_token_def)
  ultimately show ?thesis using secret_text by (simp add: Authenticate_def Let_def)
qed

lemma admin_login:
  assumes "me_auth m = Some v" and "vf_tokens v = [admin_token]"
  shows "rest_authenticate admin_lib M (bearer_request path) m = (m, Inr admin_actor)"
  using assms admin_bearer [OF assms(2)] secret_text
  by (simp add: rest_authenticate_def bearer_request_def admin_lib_def rest_actorOf_def principalOf_def admin_token_def Let_def)

lemma admin_authorized:
  assumes "me_auth m \<noteq> None" and "c \<in> set capability_catalog"
  shows "rest_authorize admin_lib M (bearer_request path) admin_actor c m = (m, None)"
proof -
  have "list_all (\<lambda>c. AuthorizeScopes allScopes (cp_scopes c) = None) capability_catalog" by code_simp
  then show ?thesis using assms secret_text by (auto simp: rest_authorize_def list_all_iff bearer_request_def)
qed

lemma admin_request:
  assumes "matchRoute (\<lambda>s. s) (routes_of (\<lambda>s. s)) ''POST'' path = Some (Routed rt ps)" and "\<not> isHealthCap (cr_cap rt)"
    and "me_auth m = Some v" and "vf_tokens v = [admin_token]"
  shows "serveHTTP admin_lib cfg M (bearer_request path) m
    = rest_dispatch admin_lib M cfg (bearer_request path) (Some admin_actor) (''urn:labnetconf:request:q'') m (cp_id (cr_cap rt)) ps"
proof -
  have c: "cr_cap rt \<in> set capability_catalog" by (rule routed_cap [OF assms(1)])
  have f: "mq_origin (bearer_request path) = []" "mq_method (bearer_request path) = ''POST''" "mq_path (bearer_request path) = path"
      "requestID M (bearer_request path) = ''q''" "ml_upper admin_lib = (\<lambda>s. s)"
    by (simp_all add: bearer_request_def requestID_def admin_lib_def)
  have "CheckOrigin A J [] allow = None" for A J allow by (simp add: CheckOrigin_def)
  then show ?thesis using assms admin_login [OF assms(3,4)] admin_authorized [of m, OF _ c]
    by (simp add: serveHTTP_def f Let_def)
qed

lemma post_routes:
  "list_all (\<lambda>(path, i). case matchRoute (\<lambda>s. s) (routes_of (\<lambda>s. s)) ''POST'' path of Some (Routed rt ps) \<Rightarrow> cp_id (cr_cap rt) = i | _ \<Rightarrow> False)
    [(''/v1/notifications:clear'', ''notifications.clear''), (''/v1/session'', ''session.create'')]"
  by code_simp

lemma admin_server_auth: "me_auth admin_server = Some (admin_verifier\<lparr>vf_onChange := [0]\<rparr>)"
  by (simp add: admin_server_def rest_New_def OnIdentityChange_def admin_verifier_def)

lemma post_route:
  assumes "(path, i) \<in> set [(''/v1/notifications:clear'', ''notifications.clear''), (''/v1/session'', ''session.create'')]"
  obtains rt ps where "matchRoute (\<lambda>s. s) (routes_of (\<lambda>s. s)) ''POST'' path = Some (Routed rt ps)" "cp_id (cr_cap rt) = i" "\<not> isHealthCap (cr_cap rt)"
  using assms post_routes that unfolding list_all_iff isHealthCap_def by (fastforce split: option.splits routed.splits)

lemma admin_clears:
  "\<exists>m' out. serveHTTP admin_lib admin_cfg admin_moment (bearer_request ''/v1/notifications:clear'') admin_server = Some (m', out)
    \<and> r_items (ns_ring (ap_notif (me_app m'))) = []"
proof -
  obtain rt ps where rt: "matchRoute (\<lambda>s. s) (routes_of (\<lambda>s. s)) ''POST'' ''/v1/notifications:clear'' = Some (Routed rt ps)"
      "cp_id (cr_cap rt) = ''notifications.clear''" "\<not> isHealthCap (cr_cap rt)"
    by (rule post_route [of "''/v1/notifications:clear''" "''notifications.clear''"]) simp_all
  have "decodeJSONOptional A dec zero admin_cfg (bearer_request path) = Inr zero" for A and dec :: "bytes \<Rightarrow> unit decoded" and zero path
    by (simp add: decodeJSONOptional_def read_all_def max_body_def admin_cfg_def bearer_request_def)
  moreover have "\<not> me_jammed admin_server" by (simp add: admin_server_def rest_New_def)
  moreover have "r_items (fst (broadcastWiped ring)) = []" for ring by (simp add: broadcastWiped_def)
  ultimately show ?thesis
    using admin_request [OF rt(1,3) admin_server_auth, of admin_cfg admin_moment]
    by (simp add: rt(2) admin_verifier_def rest_dispatch_def dispatch_queries_def handleNotificationsClear_def handle_command_def respond_def svc_run_def
        set_app_def ClearNotifications_def err_result_def admin_moment_def split_def Let_def)
qed

theorem management_changes_guarded_witness:
  "\<exists>m' out who m1. serveHTTP admin_lib admin_cfg admin_moment (bearer_request ''/v1/notifications:clear'') admin_server = Some (m', out)
    \<and> \<not> same_service admin_server m' \<and> rest_authenticate admin_lib admin_moment (bearer_request ''/v1/notifications:clear'') admin_server = (m1, Inr who)"
proof -
  obtain m' out where m': "serveHTTP admin_lib admin_cfg admin_moment (bearer_request ''/v1/notifications:clear'') admin_server = Some (m', out)"
      "r_items (ns_ring (ap_notif (me_app m'))) = []" using admin_clears by blast
  have "r_items (ns_ring (ap_notif (me_app admin_server))) \<noteq> []"
    by (simp add: admin_server_def rest_New_def admin_app_def app_New_def NewStore_def OnApply_def OnReset_def Let_def)
  with m'(2) have n: "\<not> same_service admin_server m'" by (auto simp: same_service_def)
  from management_changes_guarded [OF m'(1) n] m'(1) n show ?thesis by blast
qed

lemma admin_FromSpec: "FromSpec (token_lib K) (admin_auth\<lparr>as_tokens := map (\<lambda>t. t\<lparr>tk_secretFile := f (tk_secretFile t)\<rparr>) (as_tokens admin_auth)\<rparr>) = Inr admin_verifier"
proof -
  have "TrimSpace ''ci'' = ''ci''" by (rule TrimSpace_plain) (simp_all add: plain_ascii_def)
  moreover have "length sample_secret = 32" by (simp add: sample_secret_def)
  moreover have "DigestSecret (token_lib K) b = b" for b by (simp add: DigestSecret_def token_lib_def)
  ultimately show ?thesis
    by (simp add: FromSpec_def admin_auth_def sample_secret_read MinTokenBytes_def KnownRole_def admin_verifier_def admin_token_def expandScopes_def
        DefaultScopes_def Let_def split_def)
qed

lemma admin_managementAuth: "\<exists>origins legacy. managementAuth (token_lib K) (Some admin_snap) baseDir = Inr (admin_verifier, origins, legacy)"
  using admin_FromSpec [of K "\<lambda>p. resolvePath (token_lib K) p baseDir"]
  by (auto simp: managementAuth_def admin_snap_def admin_state_def Let_def RequireListen_def admin_verifier_def)

text \<open>A session opened with the token, and a request with its cookie.\<close>

lemma admin_opens_session:
  "\<exists>m1 out. serveHTTP admin_lib admin_cfg admin_moment (bearer_request ''/v1/session'') (rest_New admin_app admin_plane (Some admin_verifier) origins []) = Some (m1, out)
    \<and> (\<exists>m2 who. rest_authenticate admin_lib admin_moment cookie_request m1 = (m2, Inr who) \<and> ac_id who = ''ci'')"
proof -
  let ?m = "rest_New admin_app admin_plane (Some admin_verifier) origins []"
  let ?v = "admin_verifier\<lparr>vf_onChange := [0]\<rparr>"
  have v: "me_auth ?m = Some ?v" "vf_tokens ?v = [admin_token]" by (simp_all add: rest_New_def OnIdentityChange_def admin_verifier_def)
  obtain rt ps where rt: "matchRoute (\<lambda>s. s) (routes_of (\<lambda>s. s)) ''POST'' ''/v1/session'' = Some (Routed rt ps)"
      "cp_id (cr_cap rt) = ''session.create''" "\<not> isHealthCap (cr_cap rt)"
    by (rule post_route [of "''/v1/session''" "''session.create''"]) simp_all
  have ne: "hex_encode sample_secret \<noteq> []" by (simp add: hex_nonempty secret_text)
  show ?thesis
    using admin_request [OF rt(1,3) v, of admin_cfg admin_moment] ne
    by (simp add: rt(2) rest_dispatch_def handleSessionCreate_def admin_moment_def sess_Create_def randomHex_def rest_New_def auth_NewStore_def
        expireLocked_def DefaultSessionConfig_def ActorFrom_def OnIdentityChange_def rest_authenticate_def cookie_request_def bearer_request_def
        sess_Lookup_def expired_def time_Sub_def min_i64_def max_i64_def rest_actorOf_def PrincipalFromSession_def Let_def)
qed

theorem actors_hold_current_tokens_witness:
  "\<exists>rs m m2 who w t. rest_requests admin_lib admin_cfg rs admin_server = Some m \<and> rest_authenticate admin_lib admin_moment cookie_request m = (m2, Inr who)
    \<and> me_auth m = Some w \<and> t \<in> set (vf_tokens w) \<and> ac_id who = to_id t"
proof -
  obtain origins legacy where a: "managementAuth (token_lib export_lib) (Some admin_snap) [] = Inr (admin_verifier, origins, legacy)"
    using admin_managementAuth by blast
  then have o: "origins = []" by (auto simp: managementAuth_def admin_snap_def admin_state_def Let_def split: sum.splits option.splits)
  obtain m1 out m2 who where m1: "serveHTTP admin_lib admin_cfg admin_moment (bearer_request ''/v1/session'') (rest_New admin_app admin_plane (Some admin_verifier) origins []) = Some (m1, out)"
      "rest_authenticate admin_lib admin_moment cookie_request m1 = (m2, Inr who)" using admin_opens_session by blast
  then have r: "rest_requests admin_lib admin_cfg [(admin_moment, bearer_request ''/v1/session'')] (rest_New admin_app admin_plane (Some admin_verifier) origins []) = Some m1" by simp
  from actors_hold_current_tokens [OF a r m1(2)] r m1(2) show ?thesis unfolding o admin_server_def by blast
qed

theorem token_reload_installs_or_locks_out_witness:
  "\<exists>w. me_auth (rest_reloadAuth (token_lib export_lib) admin_server) = Some w \<and> vf_tokens w = [admin_token]"
proof -
  have c: "canonical_of admin_server = Some admin_state"
    by (simp add: canonical_of_def admin_server_def rest_New_def admin_app_def OnApply_def OnReset_def admin_snap_def)
  have "FromSpec (token_lib export_lib) (sp_auth (st_spec admin_state)) = Inr admin_verifier"
    using admin_FromSpec [of export_lib "\<lambda>p. p"] by (simp add: admin_state_def admin_auth_def)
  moreover have "RequireListen (token_lib export_lib) (Some admin_verifier) = None" by (simp add: RequireListen_def admin_verifier_def)
  ultimately show ?thesis
    using token_reload_installs_or_locks_out [OF admin_server_auth, where K = "token_lib export_lib" and L = admin_lib] c by (auto simp: admin_verifier_def)
qed

end
