(* ===== verification/Control_Mcp.thy ===== *)
theory Control_Mcp
  imports Control_Props
begin

text \<open>
  Package \<open>mcp\<close> of the management plane (\<open>auth.go\<close>, \<open>dto.go\<close>, \<open>errors.go\<close>, \<open>protocol.go\<close>, \<open>resources.go\<close>, \<open>server.go\<close>, \<open>tools.go\<close>): the HTTP handler
  in front of the MCP package, which is outside the repository and decides which tool or resource a message asks for, the tools with
  their checks, and the resources. The input structs of the tools are one record; a structured result is kept by its content. The pinned actor of
  the adapter on standard input follows the tokens.
\<close>

section \<open>Inputs and results\<close>

record mcp_args =
  ma_id :: string
  ma_name :: string
  ma_profile :: string
  ma_store :: string
  ma_overlay :: "kvs option"
  ma_format :: string
  ma_expectedRevision :: string
  ma_idempotencyKey :: string
  ma_operations :: "apply_oper list"
  ma_document :: "val option"
  ma_timeout :: string
  ma_user :: string
  ma_path :: string
  ma_limit :: int

datatype mcp_body = Body mbody | Tree val | Export string bytes | AuditRows "event list"

text \<open>What a tool call ends with: an error result, a structured result, an internal error of the protocol, or a wait that blocks.\<close>

datatype tool_result = ToolError jsonrpc_error | ToolOk mcp_body | ToolInternal | ToolWaiting ctx string

definition toolErrorResult :: "goerr \<Rightarrow> tool_result" where
  "toolErrorResult err = ToolError (JSONRPCFrom (rest_asDomain err))"

definition rpcError :: "goerr \<Rightarrow> jsonrpc_error" where
  "rpcError err = JSONRPCFrom (rest_asDomain err)"

definition required :: "string \<Rightarrow> string \<Rightarrow> goerr option" where
  "required what v = (if v = [] then Some (rest_fail (what @ '' is required'') [fv what ''required'' (what @ '' is required'')]) else None)"

definition requireName :: "string \<Rightarrow> goerr option" where "requireName v = required ''name'' v"

definition requireID :: "string \<Rightarrow> goerr option" where "requireID v = required ''id'' v"

definition requireProfile :: "string \<Rightarrow> goerr option" where "requireProfile v = required ''profile'' v"

text \<open>The document of a validation: a string is its bytes, another value its JSON.\<close>

definition anyBytes :: "cfglib \<Rightarrow> val option \<Rightarrow> bytes" where
  "anyBytes K v = (case v of
     None \<Rightarrow> []
   | Some (VStr s) \<Rightarrow> s
   | Some x \<Rightarrow> if marshals x then cf_json_write K x else [])"

definition overlay :: "cfglib \<Rightarrow> kvs option \<Rightarrow> goerr + bytes" where
  "overlay K v = (case v of
     None \<Rightarrow> Inl (rest_fail ''overlay is required'' [fv ''overlay'' ''required'' ''overlay is required''])
   | Some m \<Rightarrow>
       if marshals (VMap m) then Inr (cf_json_write K (VMap m))
       else Inl (rest_fail ''overlay must be a JSON object'' [fv ''overlay'' ''invalid_value'' (cf_marshal_err K)]))"

definition treeJSON :: "mlib \<Rightarrow> bytes \<Rightarrow> goerr + mcp_body" where
  "treeJSON L raw =
    (if raw = [] then Inr (Tree (VMap []))
     else (case json_decode (ml_json L) raw of
             None \<Rightarrow> Inl (GOther (cf_unmarshal_err (ml_cfg L)))
           | Some VNil \<Rightarrow> Inr (Tree (VMap []))
           | Some v \<Rightarrow> Inr (Tree v)))"

definition fromStateView :: "mlib \<Rightarrow> state_view \<Rightarrow> goerr + mcp_body" where
  "fromStateView L v =
    (if \<not> list_all marshals (state_trees (sv_canonical v)) then Inl (rest_fail (''marshal state: '' @ cf_marshal_err (ml_cfg L)) [])
     else Inr (Body (MState \<lparr>vj_bootstrapRevision = sv_bootstrapRevision v, vj_runtimeRevision = sv_runtimeRevision v,
             vj_generation = sv_generation v, vj_drifted = sv_drifted v, vj_loadedAt = rfc3339 L (sv_loadedAt v), vj_canonical = sv_canonical v\<rparr>)))"

section \<open>Tools\<close>

text \<open>The call of the service that a tool makes after its checks. The two tools that ask for constants make none.\<close>

datatype tool_step = Const mcp_body | Call svc_call | Reject goerr | NoTool

definition after_check :: "goerr option \<Rightarrow> svc_call \<Rightarrow> tool_step" where
  "after_check e c = (case e of Some err \<Rightarrow> Reject err | None \<Rightarrow> Call c)"

definition export_call :: "mlib \<Rightarrow> mcp_args \<Rightarrow> tool_step" where
  "export_call L a =
    (let format = ToLower (ml_json L) (ma_format a) in
     if format \<in> {[], ''yaml'', ''yml''} then Call CExport
     else if format = ''json'' then Call CState
     else Reject (rest_fail ''unknown export format'' [fv ''format'' ''invalid_value'' ''format must be yaml or json'']))"

definition tool_step_more :: "mlib \<Rightarrow> moment \<Rightarrow> string \<Rightarrow> mcp_args \<Rightarrow> tool_step" where
  "tool_step_more L M name a =
    (if name = ''netconf_datastore_get'' then after_check (requireProfile (ma_profile a)) (CGetDatastore (ma_profile a) (ma_store a))
     else if name = ''netconf_datastore_set'' then
       (case requireProfile (ma_profile a) of
          Some err \<Rightarrow> Reject err
        | None \<Rightarrow> (case overlay (ml_cfg L) (ma_overlay a) of Inl err \<Rightarrow> Reject err | Inr b \<Rightarrow> Call (CSetDatastore (ma_profile a) (ma_store a) b)))
     else if name = ''netconf_datastore_commit'' then after_check (requireProfile (ma_profile a)) (CCommit (ma_profile a))
     else if name = ''netconf_datastore_discard'' then after_check (requireProfile (ma_profile a)) (CDiscard (ma_profile a))
     else if name = ''netconf_sessions_list'' then Call CSessions
     else if name = ''netconf_session_kill'' then after_check (requireID (ma_id a)) (CKill (ma_id a))
     else if name = ''netconf_notifications_list'' then Call (CNotifications (ma_profile a))
     else if name = ''netconf_notification_get'' then after_check (requireID (ma_id a)) (CNotification (ma_id a))
     else if name = ''netconf_notifications_wait'' then
       (case wait_ctx L (mo_ctx M) (ma_timeout a) of
          None \<Rightarrow> Reject (rest_fail ''invalid timeout'' [fv ''timeout'' ''invalid_value'' ''timeout must be a Go duration''])
        | Some c \<Rightarrow> Call (CWait c (ma_profile a)))
     else if name = ''netconf_notifications_clear'' then Call CClear
     else if name = ''netconf_preview_get'' then Call (CPreview (ma_user a) (ma_path a))
     else if name = ''netconf_audit_query'' then
       (if ma_limit a < 0 then Reject (rest_fail ''invalid limit'' [fv ''limit'' ''invalid_value'' ''limit must be a non-negative integer''])
        else Call (CAudit (ma_limit a)))
     else NoTool)"

definition tool_step_of :: "mlib \<Rightarrow> moment \<Rightarrow> string \<Rightarrow> mcp_args \<Rightarrow> tool_step" where
  "tool_step_of L M name a =
    (if name = ''netconf_version_get'' then Const (Body MVersion)
     else if name = ''netconf_capabilities_get'' then
       Const (Body (MCapabilities (case newIndexes capability_catalog of None \<Rightarrow> [] | Some idx \<Rightarrow> DiscoveryList idx)))
     else if name = ''netconf_status_get'' then Call CStatus
     else if name = ''netconf_schema_get'' then Call CSchema
     else if name = ''netconf_features_list'' then Call CFeatures
     else if name = ''netconf_state_get'' then Call CState
     else if name = ''netconf_state_validate'' then Call (CValidate (anyBytes (ml_cfg L) (ma_document a)))
     else if name = ''netconf_state_export'' then export_call L a
     else if name = ''netconf_state_reset'' then Call CReset
     else if name = ''netconf_change_plan'' then Call (CPlan (ma_operations a) (ma_expectedRevision a))
     else if name = ''netconf_change_apply'' then Call (CApply (ma_operations a) (ma_expectedRevision a) (ma_idempotencyKey a))
     else if name = ''netconf_profiles_list'' then Call CProfiles
     else if name = ''netconf_profile_get'' then after_check (requireName (ma_name a)) (CProfile (ma_name a))
     else if name = ''netconf_users_list'' then Call CUsers
     else tool_step_more L M name a)"

text \<open>What a tool returns for a result of the service.\<close>

definition render :: "mlib \<Rightarrow> string \<Rightarrow> svc_result \<Rightarrow> goerr + mcp_body" where
  "render L name x = (case x of
     SStatus st \<Rightarrow> Inr (Body (MStatus (sx_ready st) (sx_revision st) (sx_listeners st)))
   | SBytes b \<Rightarrow> if name = ''netconf_state_export'' then Inr (Export ''yaml'' b) else treeJSON L b
   | SFeatures fs \<Rightarrow> Inr (Body (MFeatures fs))
   | SState v \<Rightarrow>
       if name = ''netconf_state_export'' then
         (if \<not> list_all marshals (state_trees (sv_canonical v)) then Inl (rest_fail (''marshal state: '' @ cf_marshal_err (ml_cfg L)) [])
          else Inr (Export ''json'' (cf_json_write (ml_cfg L) (tree_state (ml_cfg L) (sv_canonical v)))))
       else fromStateView L v
   | SPlan p \<Rightarrow> Inr (Body (MPlan (fromPlan p)))
   | SApplied r \<Rightarrow> Inr (Body (MPlan (fromApply r)))
   | SProfiles ps \<Rightarrow> Inr (Body (MProfiles ps))
   | SProfile p \<Rightarrow> Inr (Body (MProfile (pv_name p) (pv_modules p) (pv_schema p) (marshalRaw (pv_instance p))))
   | SUsers us \<Rightarrow> Inr (Body (MUsers us))
   | SSessions rows \<Rightarrow> Inr (Body (MSessions (case rows of None \<Rightarrow> [] | Some rs \<Rightarrow> rs)))
   | SNotifications ns \<Rightarrow> Inr (Body (MNotifications (map fromNotification ns)))
   | SNotification n \<Rightarrow> Inr (Body (MNotification (fromNotification n)))
   | SAudit es \<Rightarrow> Inr (AuditRows es)
   | _ \<Rightarrow> Inr (Body MOk))"

definition asStructured :: "cfglib \<Rightarrow> mcp_body \<Rightarrow> tool_result" where
  "asStructured K b = (case b of
     Body x \<Rightarrow> if body_marshals K x then ToolOk b else ToolInternal
   | _ \<Rightarrow> ToolOk b)"

section \<open>Authorization\<close>

definition registry :: indexes where
  "registry = (case newIndexes capability_catalog of
     None \<Rightarrow> \<lparr>ix_all = [], ix_byID = [], ix_byREST = [], ix_byTool = [], ix_byRes = []\<rparr> | Some idx \<Rightarrow> idx)"

definition authorizeTool :: "mgmt \<Rightarrow> actor \<Rightarrow> string \<Rightarrow> goerr option" where
  "authorizeTool m who name =
    (if me_auth m = None then Some (GDomain (Unauthorized ''authentication required''))
     else (case LookupTool registry name of
             [] \<Rightarrow> None
           | c # _ \<Rightarrow> map_option GDomain (AuthorizeScopes (ac_scopes who) (cp_scopes c))))"

fun template_parts :: "string list \<Rightarrow> string list \<Rightarrow> bool" where
  "template_parts (t # ts) (u # us) =
    (if prefix ''{'' t \<and> suffix ''}'' t then u \<noteq> [] \<and> template_parts ts us else t = u \<and> template_parts ts us)"
| "template_parts ts us \<longleftrightarrow> ts = [] \<and> us = []"

definition resourceTemplateMatch :: "string \<Rightarrow> string \<Rightarrow> bool" where
  "resourceTemplateMatch tmpl uri = template_parts (split_byte (CHR ''/'') tmpl) (split_byte (CHR ''/'') uri)"

definition lookupResourceCap :: "string \<Rightarrow> capability option" where
  "lookupResourceCap uri = (case LookupResource registry uri of
     Some c \<Rightarrow> Some c
   | None \<Rightarrow> Option.bind (find (\<lambda>t. resourceTemplateMatch t uri) (Resources registry)) (LookupResource registry))"

definition authorizeResource :: "mgmt \<Rightarrow> actor \<Rightarrow> string \<Rightarrow> goerr option" where
  "authorizeResource m who uri =
    (if me_auth m = None then Some (GDomain (Unauthorized ''authentication required''))
     else (case lookupResourceCap uri of
             None \<Rightarrow> Some (GDomain (NotFound ''not found''))
           | Some c \<Rightarrow> map_option GDomain (AuthorizeScopes (ac_scopes who) (cp_scopes c))))"

text \<open>The actor of a message: that of the HTTP request, or the pinned one.\<close>

definition with_transport :: "actor \<Rightarrow> actor" where
  "with_transport a = (if ac_transport a = [] then a\<lparr>ac_transport := ''mcp''\<rparr> else a)"

definition actorFrom :: "mgmt \<Rightarrow> actor option \<Rightarrow> actor" where
  "actorFrom m ctxActor =
    (let a = ActorFrom ctxActor in
     if ac_id a \<noteq> [] \<or> ac_class a \<noteq> [] then with_transport a
     else (case me_stdioActor m of Some pinned \<Rightarrow> with_transport pinned | None \<Rightarrow> with_transport a))"

definition canceledError :: "goerr \<Rightarrow> goerr" where
  "canceledError err = GDomain (WaitTimeout (if err = GDeadline then ''request deadline exceeded'' else ''request canceled''))"

text \<open>The wrapper that \<open>addTool\<close> puts around a tool. A panic ends in the handler's recovery.\<close>

definition finish_tool :: "mlib \<Rightarrow> string \<Rightarrow> svc_call \<Rightarrow> svc_result \<Rightarrow> tool_result" where
  "finish_tool L name call x = (case x of
     SFail err \<Rightarrow>
       (case call of
          CWait c q \<Rightarrow> toolErrorResult (if ctx_err c \<noteq> None then GDomain (WaitTimeout ''wait_timeout'') else err)
        | _ \<Rightarrow> toolErrorResult err)
   | SPanic \<Rightarrow> ToolInternal
   | SParked \<Rightarrow> (case call of CWait c q \<Rightarrow> ToolWaiting c q | _ \<Rightarrow> ToolInternal)
   | _ \<Rightarrow> (case render L name x of Inl err \<Rightarrow> toolErrorResult err | Inr b \<Rightarrow> asStructured (ml_cfg L) b))"

definition callTool :: "mlib \<Rightarrow> moment \<Rightarrow> actor option \<Rightarrow> string \<Rightarrow> mcp_args \<Rightarrow> mgmt \<Rightarrow> (mgmt \<times> tool_result) option" where
  "callTool L M ctxActor name a m = (case ctx_err (mo_ctx M) of
     Some err \<Rightarrow> Some (m, toolErrorResult (canceledError err))
   | None \<Rightarrow>
       (let who = actorFrom m ctxActor in
        case authorizeTool m who name of
          Some err \<Rightarrow> Some (m, toolErrorResult err)
        | None \<Rightarrow>
            (case tool_step_of L M name a of
               NoTool \<Rightarrow> Some (m, ToolInternal)
             | Reject err \<Rightarrow> Some (m, toolErrorResult err)
             | Const b \<Rightarrow> Some (m, asStructured (ml_cfg L) b)
             | Call call \<Rightarrow> map_option (map_prod id (finish_tool L name call)) (svc_run L M (Some who) call m))))"

section \<open>Resources\<close>

datatype resource_result = ResError jsonrpc_error | ResBody string mcp_body

text \<open>Which call reads a resource, and its media type.\<close>

definition resource_call :: "string \<Rightarrow> (svc_call \<times> string) option" where
  "resource_call uri =
    (let json = ''application/json''; after = (\<lambda>p. drop (length p) uri) in
     if uri = ''labnetconf://state'' then Some (CState, json)
     else if uri = ''labnetconf://schema/config'' then Some (CSchema, ''application/schema+json'')
     else if prefix ''labnetconf://profiles/'' uri then
       (let name = after ''labnetconf://profiles/'' in if name = [] \<or> CHR ''/'' \<in> set name then None else Some (CProfile name, json))
     else if prefix ''labnetconf://datastores/'' uri then
       (let rest = after ''labnetconf://datastores/''; profile = before_byte (CHR ''/'') rest; st = after_byte (CHR ''/'') rest in
        if CHR ''/'' \<notin> set rest \<or> profile = [] \<or> st = [] \<or> CHR ''/'' \<in> set st then None else Some (CGetDatastore profile st, json))
     else if prefix ''labnetconf://notifications/'' uri then
       (let i = after ''labnetconf://notifications/'' in if i = [] \<or> CHR ''/'' \<in> set i then None else Some (CNotification i, json))
     else None)"

definition resource_body :: "mlib \<Rightarrow> svc_call \<Rightarrow> svc_result \<Rightarrow> goerr + mcp_body" where
  "resource_body L call x = (case x of
     SFail err \<Rightarrow> Inl err
   | SState v \<Rightarrow> fromStateView L v
   | SBytes b \<Rightarrow> Inr (Body (MText (if call = CSchema \<and> b = [] then ''{}'' else b)))
   | SProfile p \<Rightarrow> Inr (Body (MProfile (pv_name p) (pv_modules p) (pv_schema p) (marshalRaw (pv_instance p))))
   | SNotification n \<Rightarrow> Inr (Body (MNotification (fromNotification n)))
   | _ \<Rightarrow> Inr (Body MNone))"

definition readResource :: "mlib \<Rightarrow> moment \<Rightarrow> actor option \<Rightarrow> string \<Rightarrow> mgmt \<Rightarrow> (mgmt \<times> resource_result) option" where
  "readResource L M ctxActor uri m =
    (if ctx_err (mo_ctx M) \<noteq> None then Some (m, ResError (rpcError (GDomain (WaitTimeout ''request canceled''))))
     else
       (let who = actorFrom m ctxActor in
        case authorizeResource m who uri of
          Some err \<Rightarrow> Some (m, ResError (rpcError err))
        | None \<Rightarrow>
            (case resource_call uri of
               None \<Rightarrow> Some (m, ResError (rpcError (GDomain (NotFound ''not found''))))
             | Some (call, mime) \<Rightarrow>
                 map_option (map_prod id (\<lambda>x. case resource_body L call x of Inl err \<Rightarrow> ResError (rpcError err) | Inr b \<Rightarrow> ResBody mime b))
                   (svc_run L M (Some who) call m))))"

section \<open>The HTTP handler\<close>

abbreviation ProtocolVersion :: string where "ProtocolVersion \<equiv> ''2026-07-28''"

text \<open>The header with the version of the protocol is an argument; so is what the MCP package finds in the body.\<close>

datatype mcp_message = CallTool string mcp_args | ReadResource string

datatype mcp_answer = Refused nat goerr string | ToolAnswer tool_result | ResourceAnswer resource_result

definition validateProtocolVersion :: "string \<Rightarrow> goerr option" where
  "validateProtocolVersion hdr =
    (let ver = TrimSpace hdr; only = ''only '' @ ProtocolVersion @ '' is supported'' in
     if ver = [] then Some (rest_fail (''MCP-Protocol-Version is required; '' @ only) [fv ''MCP-Protocol-Version'' ''required'' only])
     else if ver \<noteq> ProtocolVersion then
       Some (rest_fail (''unsupported MCP protocol version '' @ ver @ ''; '' @ only) [fv ''MCP-Protocol-Version'' ''invalid_value'' only])
     else None)"

definition mcp_authenticate :: "mlib \<Rightarrow> mreq \<Rightarrow> mgmt \<Rightarrow> goerr + actor" where
  "mcp_authenticate L r m = (case me_auth m of
     None \<Rightarrow> Inl (GDomain (Unauthorized ''authentication required''))
   | Some v \<Rightarrow>
       (let h = TrimSpace (mq_authorization r) in
        if h \<noteq> [] \<and> prefix ''basic '' (ToLower (ml_json L) h) then Inl (GDomain (Unauthorized ''MCP accepts bearer tokens only''))
        else map_sum GDomain mcp_actorOf (Authenticate (ml_auth L) (ml_cfg L) (Some v) h)))"

definition mcp_status :: "goerr \<Rightarrow> nat" where
  "mcp_status err = (case err_as err of Some de \<Rightarrow> if e_code de = CodeForbidden then 403 else 401 | None \<Rightarrow> 401)"

definition mcp_serveHTTP :: "mlib \<Rightarrow> moment \<Rightarrow> bool \<Rightarrow> bool \<Rightarrow> string \<Rightarrow> mreq \<Rightarrow> mcp_message \<Rightarrow> mgmt \<Rightarrow> (mgmt \<times> mcp_answer) option" where
  "mcp_serveHTTP L M stopped legacy ver r msg m =
    (if stopped then Some (m, Refused 503 (rest_fail ''server closed'' []) [])
     else (case CheckOrigin (ml_auth L) (ml_json L) (mq_origin r) (me_mcpOrigins m) of
         Some err \<Rightarrow> Some (m, Refused 403 (GDomain err) [])
       | None \<Rightarrow>
           if mq_method r \<noteq> ''POST'' then
             Some (m, Refused 405 (rest_fail ''method not allowed'' [fv [] ''invalid_value'' ''method not allowed'']) ''POST'')
           else (case (if legacy then None else validateProtocolVersion ver) of
               Some err \<Rightarrow> Some (m, Refused 400 err [])
             | None \<Rightarrow>
                 (case mcp_authenticate L r m of
                    Inl err \<Rightarrow> Some (m, Refused (mcp_status err) err [])
                  | Inr who \<Rightarrow>
                      (case msg of
                         CallTool name a \<Rightarrow> map_option (map_prod id ToolAnswer) (callTool L M (Some who) name a m)
                       | ReadResource uri \<Rightarrow> map_option (map_prod id ResourceAnswer) (readResource L M (Some who) uri m))))))"

section \<open>What a message may change\<close>

text \<open>The capability of each tool that makes a call.\<close>

definition tool_caps :: "(string \<times> string) list" where
  "tool_caps = [(''netconf_status_get'', ''status.get''), (''netconf_schema_get'', ''schema.get''), (''netconf_features_list'', ''features.list''),
    (''netconf_state_get'', ''state.get''), (''netconf_state_validate'', ''state.validate''), (''netconf_state_export'', ''state.export''),
    (''netconf_state_reset'', ''state.reset''), (''netconf_change_plan'', ''changes.plan''), (''netconf_change_apply'', ''changes.apply''),
    (''netconf_profiles_list'', ''profiles.list''), (''netconf_profile_get'', ''profiles.get''), (''netconf_users_list'', ''users.list''),
    (''netconf_datastore_get'', ''datastore.get''), (''netconf_datastore_set'', ''datastore.set''), (''netconf_datastore_commit'', ''datastore.commit''),
    (''netconf_datastore_discard'', ''datastore.discard''), (''netconf_sessions_list'', ''sessions.list''), (''netconf_session_kill'', ''session.kill''),
    (''netconf_notifications_list'', ''notifications.list''), (''netconf_notification_get'', ''notifications.get''),
    (''netconf_notifications_wait'', ''notifications.wait''), (''netconf_notifications_clear'', ''notifications.clear''),
    (''netconf_preview_get'', ''preview.get''), (''netconf_audit_query'', ''audit.query'')]"

definition step_ok :: "string \<Rightarrow> tool_step \<Rightarrow> bool" where
  "step_ok name st = (case st of Call call \<Rightarrow> list_ex (\<lambda>(n, i). n = name \<and> i \<in> call_cap call) tool_caps | _ \<Rightarrow> True)"

lemma step_ok_simps [simp]:
  "step_ok name (Const b)" "step_ok name (Reject err)" "step_ok name NoTool"
  "step_ok name (Call call) = list_ex (\<lambda>(n, i). n = name \<and> i \<in> call_cap call) tool_caps"
  "step_ok name (after_check e call) = (e = None \<longrightarrow> step_ok name (Call call))"
  by (auto simp: step_ok_def after_check_def split: option.split)

lemma step_ok_export: "step_ok ''netconf_state_export'' (export_call L a)"
  by (simp add: export_call_def Let_def tool_caps_def)

lemma step_ok_if: "step_ok n x \<Longrightarrow> step_ok name y \<Longrightarrow> step_ok name (if name = n then x else y)"
  by simp

lemma step_ok_tool: "(n, i) \<in> set tool_caps \<Longrightarrow> i \<in> call_cap call \<Longrightarrow> step_ok n (Call call)"
  by (auto simp: list_ex_iff)

lemma tool_step_ok: "step_ok name (tool_step_of L M name a)"
  unfolding tool_step_of_def tool_step_more_def
  by (intro step_ok_if; (simp add: step_ok_export del: step_ok_simps(4) split: option.split sum.split)?;
      (intro impI allI conjI)?; (rule step_ok_tool, simp add: tool_caps_def, simp)?)

lemma tool_call_cap:
  assumes "tool_step_of L M name a = Call call"
  shows "\<exists>i. (name, i) \<in> set tool_caps \<and> i \<in> call_cap call"
  using tool_step_ok [of name L M a] unfolding assms by (auto simp: list_ex_iff)


lemma tools_appended:
  "distinct ts \<Longrightarrow> tools_of (fold (\<lambda>t bt. kv_put t (tools_of bt t @ [d]) bt) ts bt) t = tools_of bt t @ (if t \<in> set ts then [d] else [])"
  by (induction ts arbitrary: bt) auto

lemma index_mcp_lookup: "distinct (cap_tools c) \<Longrightarrow> LookupTool (index_mcp c idx) t = LookupTool idx t @ (if t \<in> set (cap_tools c) then [c] else [])"
  by (auto simp: LookupTool_def index_mcp_def cap_tools_def tools_appended split: option.splits)

lemma index_all_tools:
  "index_all cs idx = Some idx' \<Longrightarrow> list_all (\<lambda>c. distinct (cap_tools c)) cs
    \<Longrightarrow> LookupTool idx' t = LookupTool idx t @ filter (\<lambda>c. t \<in> set (cap_tools c)) cs"
proof (induction cs arbitrary: idx)
  case (Cons c cs)
  then obtain br where "index_all cs (index_mcp c (idx\<lparr>ix_byID := kv_put (cp_id c) c (ix_byID idx), ix_byREST := br\<rparr>)) = Some idx'"
    by (auto split: if_splits option.splits)
  from Cons.IH [OF this] Cons.prems(2) show ?case by (simp add: index_mcp_lookup) (simp add: LookupTool_def)
qed simp

lemma registry_tools: "LookupTool registry t = filter (\<lambda>c. t \<in> set (cap_tools c)) capability_catalog"
proof -
  have "\<exists>idx. newIndexes capability_catalog = Some idx"
    using index_all_lookup [of capability_catalog "\<lparr>ix_all = capability_catalog, ix_byID = [], ix_byREST = [], ix_byTool = [], ix_byRes = []\<rparr>"] catalog_distinct
    by (auto simp: newIndexes_def)
  then obtain idx where i: "newIndexes capability_catalog = Some idx" by blast
  have "list_all (\<lambda>c. distinct (cap_tools c)) capability_catalog" by code_simp
  from index_all_tools [OF i [unfolded newIndexes_def] this, of t] i show ?thesis by (simp add: registry_def LookupTool_def tools_of_def)
qed

lemma tools_registered:
  "list_all (\<lambda>(name, i). list_ex (\<lambda>c. name \<in> set (cap_tools c)) capability_catalog
     \<and> list_all (\<lambda>c. name \<notin> set (cap_tools c) \<or> cp_id c = i \<and> cp_scopes c \<noteq> [] \<and> [] \<notin> set (cp_scopes c)) capability_catalog) tool_caps"
  by code_simp

lemma tool_capability:
  assumes "(name, i) \<in> set tool_caps"
  obtains c cs where "LookupTool registry name = c # cs" "c \<in> set capability_catalog" "cp_id c = i" "cp_scopes c \<noteq> []" "[] \<notin> set (cp_scopes c)"
proof -
  have t: "list_ex (\<lambda>c. name \<in> set (cap_tools c)) capability_catalog"
      "list_all (\<lambda>c. name \<notin> set (cap_tools c) \<or> cp_id c = i \<and> cp_scopes c \<noteq> [] \<and> [] \<notin> set (cp_scopes c)) capability_catalog"
    using tools_registered assms by (auto simp: list_all_iff)
  then obtain c cs where c: "LookupTool registry name = c # cs"
    unfolding registry_tools by (cases "filter (\<lambda>c. name \<in> set (cap_tools c)) capability_catalog") (auto simp: filter_empty_conv list_ex_iff)
  then have "c \<in> set (filter (\<lambda>c. name \<in> set (cap_tools c)) capability_catalog)" by (simp flip: registry_tools)
  with c t(2) that show ?thesis by (auto simp: list_all_iff)
qed

text \<open>A resource is read by calls that change nothing.\<close>

lemma resource_call_reads: "resource_call uri = Some (call, mime) \<Longrightarrow> \<not> changing call \<and> (\<forall>c q. call \<noteq> CWait c q)"
  by (auto simp: resource_call_def Let_def split: if_splits)

lemma readResource_unchanged:
  assumes "readResource L M act uri m = Some (m', res)"
  shows "m' = m"
proof -
  have "m' = m \<or> (\<exists>call mime x. resource_call uri = Some (call, mime) \<and> svc_run L M (Some (actorFrom m act)) call m = Some (m', x))"
    using assms by (auto simp: readResource_def Let_def split: if_splits option.splits)
  then show ?thesis using svc_run_unchanged resource_call_reads by blast
qed

lemma callTool_guard:
  assumes "callTool L M act name a m = Some (m', res)" and "m' \<noteq> m"
  obtains call x where "authorizeTool m (actorFrom m act) name = None" "tool_step_of L M name a = Call call"
    "svc_run L M (Some (actorFrom m act)) call m = Some (m', x)"
  using assms by (auto simp: callTool_def Let_def split: option.splits tool_step.splits)

lemma tool_change:
  assumes "callTool L M act name a m = Some (m', res)" and "m' \<noteq> m"
  shows "\<exists>c call x. c \<in> set (LookupTool registry name) \<and> AuthorizeScopes (ac_scopes (actorFrom m act)) (cp_scopes c) = None
    \<and> svc_run L M (Some (actorFrom m act)) call m = Some (m', x) \<and> cp_id c \<in> call_cap call
    \<and> ((\<exists>c q. call = CWait c q) \<or> ScopeNetconfWrite \<in> set (ac_scopes (actorFrom m act)) \<or> ScopeNetconfAdmin \<in> set (ac_scopes (actorFrom m act)))"
proof -
  obtain call x where g: "authorizeTool m (actorFrom m act) name = None" "tool_step_of L M name a = Call call"
      "svc_run L M (Some (actorFrom m act)) call m = Some (m', x)" by (rule callTool_guard [OF assms])
  obtain i where i: "(name, i) \<in> set tool_caps" "i \<in> call_cap call" using tool_call_cap [OF g(2)] by blast
  obtain c cs where c: "LookupTool registry name = c # cs" "c \<in> set capability_catalog" "cp_id c = i" by (rule tool_capability [OF i(1)])
  have z: "AuthorizeScopes (ac_scopes (actorFrom m act)) (cp_scopes c) = None" using g(1) c(1) by (auto simp: authorizeTool_def split: if_splits)
  have "(\<exists>c q. call = CWait c q) \<or> changing call" using svc_run_unchanged [OF g(3)] assms(2) by auto
  moreover have "changing call \<Longrightarrow> ScopeNetconfWrite \<in> set (cp_scopes c) \<or> ScopeNetconfAdmin \<in> set (cp_scopes c)"
    using changing_scopes [OF c(2)] c(3) i(2) by simp
  ultimately have "(\<exists>c q. call = CWait c q) \<or> ScopeNetconfWrite \<in> set (ac_scopes (actorFrom m act)) \<or> ScopeNetconfAdmin \<in> set (ac_scopes (actorFrom m act))"
    using z by (auto simp: authorized_iff)
  then show ?thesis using z g(3) c i(2) by (intro exI [of _ c] exI [of _ call] exI [of _ x]) simp
qed


lemma message_actor: "mcp_authenticate L r m = Inr who \<Longrightarrow> actorFrom m' (Some who) = who
    \<and> (\<exists>v t. me_auth m = Some v \<and> t \<in> set (vf_tokens v) \<and> who = mcp_actorOf (principalOf t))"
proof -
  assume a: "mcp_authenticate L r m = Inr who"
  then obtain v p where p: "me_auth m = Some v" "Authenticate (ml_auth L) (ml_cfg L) (Some v) (TrimSpace (mq_authorization r)) = Inr p" "who = mcp_actorOf p"
    by (cases "Authenticate (ml_auth L) (ml_cfg L) (me_auth m) (TrimSpace (mq_authorization r))")
      (auto simp: mcp_authenticate_def Let_def split: option.splits if_splits)
  from bearer_backed [OF p(2)] obtain t where t: "t \<in> set (vf_tokens v)" "p = principalOf t" by blast
  then have "actorFrom m' (Some who) = who"
    by (simp add: p(3) actorFrom_def ActorFrom_def mcp_actorOf_def principalOf_def with_transport_def)
  with p t show ?thesis by blast
qed

lemma mcp_serve_change:
  assumes "mcp_serveHTTP L M stopped legacy ver r msg m = Some (m', ans)" and "m' \<noteq> m"
  obtains who name a res where "CheckOrigin (ml_auth L) (ml_json L) (mq_origin r) (me_mcpOrigins m) = None" "mq_method r = ''POST''"
    "legacy \<or> validateProtocolVersion ver = None" "mcp_authenticate L r m = Inr who" "msg = CallTool name a"
    "callTool L M (Some who) name a m = Some (m', res)"
proof -
  have s: "\<not> stopped" using assms by (auto simp: mcp_serveHTTP_def split: if_splits)
  let ?o = "CheckOrigin (ml_auth L) (ml_json L) (mq_origin r) (me_mcpOrigins m)"
  note run = assms(1) [unfolded mcp_serveHTTP_def, simplified s if_False]
  have o: "?o = None" using run assms(2) by (cases ?o) simp_all
  note run = run [simplified o option.case]
  have p: "mq_method r = ''POST''" using run assms(2) by (auto split: if_splits)
  note run = run [simplified p]
  have v: "(if legacy then None else validateProtocolVersion ver) = None" using run assms(2) by (cases "if legacy then None else validateProtocolVersion ver") simp_all
  note run = run [simplified v option.case]
  obtain who where a: "mcp_authenticate L r m = Inr who" using run assms(2) by (cases "mcp_authenticate L r m") simp_all
  note run = run [simplified a sum.case]
  show ?thesis
  proof (cases msg)
    case (CallTool name args)
    then obtain res where "callTool L M (Some who) name args m = Some (m', res)" using run by auto
    with that o p v a CallTool show ?thesis by (auto split: if_splits)
  next
    case (ReadResource uri)
    then show ?thesis using run assms(2) readResource_unchanged [of L M "Some who" uri m m'] by auto
  qed
qed

text \<open>C20: No unguarded change through MCP: when a message changes anything at all, its origin is allowed, it is a POST in the supported version of
  the protocol, its bearer token is a current one, and it calls a tool; the actor has all scopes of the tool's capability, the change
  is that of one call of the service for this capability made as that actor, and unless the call only parks a waiter the actor
  has write or administrator scope.\<close>

theorem mcp_changes_guarded:
  assumes "mcp_serveHTTP L M stopped legacy ver r msg m = Some (m', ans)" and "m' \<noteq> m"
  shows "CheckOrigin (ml_auth L) (ml_json L) (mq_origin r) (me_mcpOrigins m) = None \<and> mq_method r = ''POST''
    \<and> (legacy \<or> TrimSpace ver = ProtocolVersion)
    \<and> (\<exists>who v t name a c call x. mcp_authenticate L r m = Inr who \<and> me_auth m = Some v \<and> t \<in> set (vf_tokens v) \<and> who = mcp_actorOf (principalOf t)
      \<and> msg = CallTool name a \<and> c \<in> set (LookupTool registry name) \<and> AuthorizeScopes (ac_scopes who) (cp_scopes c) = None
      \<and> svc_run L M (Some who) call m = Some (m', x) \<and> cp_id c \<in> call_cap call
      \<and> ((\<exists>c q. call = CWait c q) \<or> ScopeNetconfWrite \<in> set (ac_scopes who) \<or> ScopeNetconfAdmin \<in> set (ac_scopes who)))"
proof -
  obtain who name a res where g: "CheckOrigin (ml_auth L) (ml_json L) (mq_origin r) (me_mcpOrigins m) = None" "mq_method r = ''POST''"
      "legacy \<or> validateProtocolVersion ver = None" "mcp_authenticate L r m = Inr who" "msg = CallTool name a"
      "callTool L M (Some who) name a m = Some (m', res)" by (rule mcp_serve_change [OF assms])
  have ver: "legacy \<or> TrimSpace ver = ProtocolVersion" using g(3) by (auto simp: validateProtocolVersion_def Let_def split: if_splits)
  have who: "actorFrom m (Some who) = who" using message_actor [OF g(4)] by blast
  obtain v t where t: "me_auth m = Some v" "t \<in> set (vf_tokens v)" "who = mcp_actorOf (principalOf t)" using message_actor [OF g(4)] by blast
  from tool_change [OF g(6) assms(2)] show ?thesis unfolding who using g(1,2,4,5) ver t by blast
qed

section \<open>The adapter on standard input\<close>

text \<open>C21: The pinned actor follows the tokens: after a reload the adapter on standard input acts as the token that its secret authenticates
  as now, with that token's role and scopes; when the secret belongs to no token any more every tool that calls the service is refused.\<close>

theorem stdio_pin_follows_tokens:
  assumes "me_auth m = Some v" and "me_stdioSecret m \<noteq> []"
  shows "case AuthenticateBearer K (me_auth (mcp_reloadAuth K m)) (me_stdioSecret m) of
      Inr p \<Rightarrow> me_stdioActor (mcp_reloadAuth K m) = Some (mcp_actorOf p)
    | Inl err \<Rightarrow> list_all (\<lambda>(name, i). authorizeTool (mcp_reloadAuth K m) (actorFrom (mcp_reloadAuth K m) None) name \<noteq> None) tool_caps"
proof -
  have "\<exists>n. mcp_reloadAuth K m = refreshStdioPin K (replaceAuth n m)"
    using assms(1) by (auto simp: mcp_reloadAuth_def split: option.split sum.split)
  then obtain n where n: "mcp_reloadAuth K m = refreshStdioPin K (replaceAuth n m)" by blast
  let ?m = "replaceAuth n m"
  have s: "me_stdioSecret ?m = me_stdioSecret m" by (simp add: replaceAuth_def Let_def split: option.split prod.split)
  show ?thesis
  proof (cases "AuthenticateBearer K (me_auth ?m) (me_stdioSecret m)")
    case (Inr p)
    then show ?thesis using assms(2) by (simp add: n refreshStdioPin_def s)
  next
    case (Inl err)
    then have f: "refreshStdioPin K ?m = ?m\<lparr>me_stdioActor := None\<rparr>" using assms(2) by (simp add: refreshStdioPin_def s)
    have none: "actorFrom (?m\<lparr>me_stdioActor := None\<rparr>) None = \<lparr>ac_id = [], ac_class = [], ac_role = [], ac_scopes = [], ac_transport = ''mcp''\<rparr>"
      by (simp add: actorFrom_def ActorFrom_def with_transport_def)
    have "authorizeTool (?m\<lparr>me_stdioActor := None\<rparr>) (actorFrom (?m\<lparr>me_stdioActor := None\<rparr>) None) name \<noteq> None" if t: "(name, i) \<in> set tool_caps" for name i
    proof -
      obtain c cs where c: "LookupTool registry name = c # cs" "cp_scopes c \<noteq> []" "[] \<notin> set (cp_scopes c)" by (rule tool_capability [OF t])
      then have "AuthorizeScopes [] (cp_scopes c) \<noteq> None" by (cases "cp_scopes c") (auto simp: HasScope_def)
      then show ?thesis using c by (simp add: authorizeTool_def none)
    qed
    then show ?thesis using Inl by (auto simp: n f list_all_iff)
  qed
qed

section \<open>Samples\<close>

definition no_args :: mcp_args where
  "no_args = \<lparr>ma_id = [], ma_name = [], ma_profile = [], ma_store = [], ma_overlay = None, ma_format = [], ma_expectedRevision = [], ma_idempotencyKey = [],
     ma_operations = [], ma_document = None, ma_timeout = [], ma_user = [], ma_path = [], ma_limit = 0\<rparr>"

abbreviation mcp_admin :: actor where
  "mcp_admin \<equiv> \<lparr>ac_id = ''ci'', ac_class = ClassToken, ac_role = RoleAdministrator, ac_scopes = allScopes, ac_transport = ''mcp''\<rparr>"

lemma admin_mcp_login:
  assumes "me_auth m = Some v" and "vf_tokens v = [admin_token]"
  shows "mcp_authenticate admin_lib (bearer_request path) m = Inr mcp_admin"
  using assms admin_bearer [OF assms(2)] secret_text
  by (simp add: mcp_authenticate_def bearer_request_def admin_lib_def mcp_actorOf_def principalOf_def admin_token_def Let_def)
    (simp add: ToLower_def ascii_lower_def sample_secret_def)

lemma admin_tool:
  assumes "(name, i) \<in> set tool_caps" and "me_auth m \<noteq> None"
  shows "authorizeTool m mcp_admin name = None"
proof -
  obtain c cs where c: "LookupTool registry name = c # cs" "c \<in> set capability_catalog" by (rule tool_capability [OF assms(1)])
  have "list_all (\<lambda>c. AuthorizeScopes allScopes (cp_scopes c) = None) capability_catalog" by code_simp
  then show ?thesis using c assms(2) by (auto simp: authorizeTool_def list_all_iff)
qed

lemma admin_clears_by_tool:
  "\<exists>m' ans. mcp_serveHTTP admin_lib admin_moment False False ProtocolVersion (bearer_request ''/mcp'') (CallTool ''netconf_notifications_clear'' no_args) admin_server = Some (m', ans)
    \<and> r_items (ns_ring (ap_notif (me_app m'))) = []"
proof -
  have tv: "TrimSpace ProtocolVersion = ProtocolVersion" by (rule TrimSpace_plain) (simp_all add: plain_ascii_def)
  have v: "vf_tokens (admin_verifier\<lparr>vf_onChange := [0]\<rparr>) = [admin_token]" by (simp add: admin_verifier_def)
  have f: "mq_origin (bearer_request p) = []" "mq_method (bearer_request p) = ''POST''" for p by (simp_all add: bearer_request_def)
  have o: "CheckOrigin A J [] allow = None" for A J allow by (simp add: CheckOrigin_def)
  have a: "actorFrom m (Some mcp_admin) = mcp_admin" for m by (simp add: actorFrom_def ActorFrom_def with_transport_def)
  have s: "tool_step_of L M ''netconf_notifications_clear'' no_args = Call CClear" for L M by (simp add: tool_step_of_def tool_step_more_def)
  have z: "authorizeTool admin_server mcp_admin ''netconf_notifications_clear'' = None"
    by (rule admin_tool [of _ "''notifications.clear''"]) (simp_all add: tool_caps_def admin_server_auth)
  have "\<not> me_jammed admin_server" by (simp add: admin_server_def rest_New_def)
  moreover have "r_items (fst (broadcastWiped ring)) = []" for ring by (simp add: broadcastWiped_def)
  moreover have "ctx_err (mo_ctx admin_moment) = None" by (simp add: admin_moment_def)
  moreover have "validateProtocolVersion ProtocolVersion = None" by (simp add: validateProtocolVersion_def tv)
  ultimately show ?thesis
    using admin_mcp_login [OF admin_server_auth v]
    by (simp add: mcp_serveHTTP_def f o callTool_def a z s svc_run_def set_app_def ClearNotifications_def split_def Let_def)
qed

theorem mcp_changes_guarded_witness:
  "\<exists>who v t. mcp_authenticate admin_lib (bearer_request ''/mcp'') admin_server = Inr who \<and> me_auth admin_server = Some v \<and> t \<in> set (vf_tokens v)
    \<and> who = mcp_actorOf (principalOf t)"
proof -
  obtain m' ans where m': "mcp_serveHTTP admin_lib admin_moment False False ProtocolVersion (bearer_request ''/mcp'') (CallTool ''netconf_notifications_clear'' no_args) admin_server = Some (m', ans)"
      "r_items (ns_ring (ap_notif (me_app m'))) = []" using admin_clears_by_tool by blast
  have "r_items (ns_ring (ap_notif (me_app admin_server))) \<noteq> []"
    by (simp add: admin_server_def rest_New_def admin_app_def app_New_def NewStore_def OnApply_def OnReset_def Let_def)
  with m'(2) have "m' \<noteq> admin_server" by auto
  from mcp_changes_guarded [OF m'(1) this] show ?thesis by blast
qed

theorem stdio_pin_follows_tokens_witness:
  "me_stdioActor (mcp_reloadAuth (token_lib export_lib) (admin_server\<lparr>me_stdioSecret := sample_secret\<rparr>)) = Some mcp_admin"
proof -
  let ?K = "token_lib export_lib" and ?m = "admin_server\<lparr>me_stdioSecret := sample_secret\<rparr>"
  have c: "canonical_of ?m = Some admin_state"
    by (simp add: canonical_of_def admin_server_def rest_New_def admin_app_def OnApply_def OnReset_def admin_snap_def)
  have "FromSpec ?K (sp_auth (st_spec admin_state)) = Inr admin_verifier"
    using admin_FromSpec [of export_lib "\<lambda>p. p"] by (simp add: admin_state_def admin_auth_def)
  moreover have "RequireListen ?K (Some admin_verifier) = None" by (simp add: RequireListen_def admin_verifier_def)
  ultimately have "mcp_reloadAuth ?K ?m = refreshStdioPin ?K (replaceAuth admin_verifier ?m)"
    using c admin_server_auth by (simp add: mcp_reloadAuth_def)
  then have "\<exists>w. me_auth (mcp_reloadAuth ?K ?m) = Some w \<and> vf_tokens w = [admin_token]"
    using admin_server_auth by (auto simp: refreshStdioPin_def replaceAuth_def Replace_def admin_verifier_def Let_def split: sum.split)
  then have "AuthenticateBearer ?K (me_auth (mcp_reloadAuth ?K ?m)) (me_stdioSecret ?m) = Inr (principalOf admin_token)"
    using secret_text by (auto simp: AuthenticateBearer_def lookupBearer_eq DigestSecret_def token_lib_def admin_token_def)
  with stdio_pin_follows_tokens [of ?m _ ?K] admin_server_auth secret_text show ?thesis
    by (simp add: mcp_actorOf_def principalOf_def admin_token_def)
qed

end
