(* ===== verification/Spec2Isabelle.thy ===== *)
theory Spec2Isabelle
  imports Control_Mcp
begin

text \<open>
  A verification development for LabNETCONF (repository \<open>go-lab-netconf\<close>), a lab device that
  serves YANG-modelled configuration over NETCONF and RESTCONF from running, candidate and
  startup datastores, with config-change notifications, an audit log and a management plane.

  \<^bold>\<open>The program and how its parts interact.\<close> A document is decoded, checked and normalized
  (\<open>internal/config\<close>, \<open>internal/model\<close>) and compiled into an immutable snapshot
  (\<open>internal/compiler\<close>, \<open>internal/snapshot\<close>). The application service (\<open>internal/app\<close>) boots from it and
  changes it by plan, apply and reset; results are cached under idempotency keys, and every
  mutation is recorded in the audit log (\<open>internal/audit\<close>). The service keeps a datastore handle
  (\<open>internal/datastore\<close>) for each profile and user: running, candidate and startup trees with
  per-store locks and a publication counter, over trees addressed by instance paths and
  described by a compact schema (\<open>internal/yangtree\<close>). A commit hands the difference of the trees to
  the notification ring (\<open>internal/notif\<close>), on which clients wait. Clients work on the handles
  over NETCONF - an SSH listener (\<open>internal/netconfssh\<close>), framing (\<open>internal/ncframing\<close>), the RPC codec
  (\<open>internal/ncrpc\<close>) and the server (\<open>internal/ncserver\<close>) - and over RESTCONF (\<open>internal/restconf\<close>);
  \<open>cmd/labnetconf/serve.go\<close> brings the users and networks of each new snapshot to these servers. The
  management plane, a REST interface (\<open>internal/control/rest\<close>) and an MCP interface
  (\<open>internal/control/mcp\<close>), authenticates operators (\<open>internal/auth\<close>) for the capabilities of a fixed table
  (\<open>internal/capabilities\<close>) and turns each request into at most one call of the service; an apply or a
  reset runs hooks that reload the data plane and the tokens of both interfaces. Errors are domain errors with codes (\<open>internal/domainerr\<close>).

  \<^bold>\<open>Theories.\<close>
  \<^item> \<open>Prelude\<close>: Go maps as association lists with the contract \<open>finite_map\<close>, decimal numerals,
    runs of operations (\<open>invariant_machine\<close>), bounded logs (\<open>bounded_log\<close>), loops that return on
    the first error.
  \<^item> \<open>Golib\<close>: dynamic values (\<open>val\<close>), floats, conversions, UTF-8, trimming. What rests on data or
    algorithms outside the repository (Unicode tables, shortest decimals, regular expressions,
    the clock) is a field of the record \<open>golib\<close>, an argument of the definitions that use it; in the
    same way \<open>xmllib\<close>, \<open>cfglib\<close>, \<open>jsonlib\<close>, \<open>rclib\<close>, \<open>authlib\<close>, \<open>mlib\<close> hold what other theories take from outside.
  \<^item> \<open>Xml_Lib\<close>, \<open>Netip\<close>: what the program uses of \<open>encoding/xml\<close> and \<open>net/netip\<close>.
  \<^item> \<open>Domainerr\<close>: \<open>code.go\<close>, \<open>error.go\<close>.
  \<^item> \<open>Ncframing\<close>: \<open>framing.go\<close>, \<open>reader.go\<close>; a stream is the list of bytes that will arrive and how it
    ends. Round trips of whole conversations for both framings, independence of chunking, the
    size bound, and exactly which payloads the end-of-message framing carries. The contract
    \<open>frame_codec\<close> is interpreted for both framings.
  \<^item> \<open>Yang_Path\<close>, \<open>Yang_Value\<close>, \<open>Yang_Schema\<close>, \<open>Yang_Node\<close>, \<open>Yang_Edit\<close>: \<open>path.go\<close>, \<open>value.go\<close>,
    \<open>schema.go\<close>, \<open>node.go\<close>, \<open>edit.go\<close>. Path round trip, what comparison equates, what a schema
    holds and accepts, soundness of validation, subtree selection, the difference, getters;
    for edits: what is written is read back, what is deleted is gone, other modules are
    untouched, trees stay canonical, and which edits are refused. Cursors, which the code
    builds from closures, are pairs of the value at a place and the root that results from
    storing there (\<open>cursor_ok\<close>, \<open>cursor_safe\<close> are their promises).
  \<^item> \<open>Notif\<close>: \<open>notif.go\<close>, \<open>ring.go\<close>. Each locked section is one operation; the sends that happen
    after the mutex is released, the channel buffers and the blocked calls make up a system
    whose steps interleave freely (\<open>notif_step\<close>); its invariant gives that sends never block
    and that no wake-up is lost.
  \<^item> \<open>Datastore\<close>: \<open>datastore.go\<close>. Locks exclude other sessions over any calls, commit and discard
    exactly, the direct write to running, the 64-bit generation, reachable handles.
  \<^item> \<open>Audit_Log\<close>: \<open>ring.go\<close>, \<open>redact.go\<close>, \<open>event.go\<close>, \<open>sink.go\<close>; what redaction removes, over
    declarative secret places (\<open>secret_location\<close>, \<open>no_secret\<close>).
  \<^item> \<open>Model_State\<close>: the state document of \<open>internal/model\<close>.
  \<^item> \<open>Config_Json\<close>, \<open>Config_Check\<close>, \<open>Config_Decode\<close>, \<open>Config_Laws\<close>, \<open>Config_Export\<close>: the package \<open>config\<close>. What
    a trip through JSON does to a document, defaults, normalization and validation with the
    declarative conditions it decides, decoding with reserved keys and the documents on which
    it panics, and the canonical JSON that loads as the document it was written from (the YAML export is not claimed). The contract of the loops over named rows is a
    locale interpreted for each of them.
  \<^item> \<open>Snapshot_Compile\<close>: \<open>snapshot.go\<close>, \<open>store.go\<close>, \<open>compile.go\<close>; a compiled snapshot has the profiles,
    trees over their schemas (\<open>tree_over\<close>) and users of its document; which clients it admits.
  \<^item> \<open>App_Operations\<close>: the live verbs; the contract \<open>named_list\<close> is interpreted for profiles and users.
  \<^item> \<open>App_Idempotency\<close>: the result cache, a map with a doubly linked list on an explicit heap,
    refines a list ordered by use.
  \<^item> \<open>App_Service\<close>, \<open>App_Laws\<close>, \<open>App_Handles\<close>, \<open>App_Props\<close>, \<open>App_Query\<close>: the service. Handles are references into a heap;
    the invariant of every reachable state says which profile and user has which handle, and
    \<open>App_Handles\<close> which of them a new snapshot keeps (\<open>unchanged_profile\<close>, stated over the trees). What
    plan, apply and reset do, when they refuse, replay under a key, the queries.
  \<^item> \<open>Ncrpc\<close>, \<open>Ncserver_Xml\<close>, \<open>Ncserver\<close>, \<open>Ncserver_Sessions\<close>, \<open>Ncserver_Run\<close>: the NETCONF codec and server.
    Round trips of requests, replies and trees; a request is at most one datastore call; the
    step relation of concurrent sessions, user replacements and kills with its invariants; a
    session on a finite input ends and answers its requests in order until one ends the session (\<open>converse\<close>).
  \<^item> \<open>Netconfssh\<close>: \<open>admission.go\<close>, \<open>auth.go\<close>, \<open>server.go\<close> of the SSH listener. A step relation interleaves
    handshakes with replacements of users and networks; no connection outlives its credential.
  \<^item> \<open>Restconf\<close>: \<open>auth.go\<close>, \<open>data.go\<close>, \<open>error.go\<close>, \<open>server.go\<close>; a request is at most one edit of its
    own user's running and candidate trees, and what is put is got.
  \<^item> \<open>Dataplane\<close>: the data plane of \<open>serve.go\<close>; a reload is published to all protocols or locks
    everyone out, and the protocols agree on users, handles and admitted clients.
  \<^item> \<open>Auth\<close>, \<open>Capabilities\<close>: tokens, sessions and scopes; the table of capabilities, its indexes, and
    which role may use which capability.
  \<^item> \<open>Control_Mux\<close>: \<open>mux.go\<close> of the REST interface; every binding of the table is routed to its
    capability, the requests built from the text of its template (\<open>fill_template\<close>).
  \<^item> \<open>Control_Service\<close>: the state of the management plane (service, data plane, verifier, sessions,
    origins, the actor pinned on standard input), the reloads of both interfaces, the hooks, and the
    calls of the service with the mutex that a panicking reset leaves locked. \<open>moment\<close> is what a request
    takes from its time: clock, random bytes, context, the outcome of file reads.
  \<^item> \<open>Control_Rest\<close>, \<open>Control_Props\<close>: the REST handlers and the whole request path. A request changes the
    service only through one guarded call; operators act with current tokens; a reload installs the
    tokens of the document or locks everybody out.
  \<^item> \<open>Control_Mcp\<close>: the tools and resources of the MCP interface and its HTTP guard; a message changes
    something only through one guarded tool call; the actor on standard input follows the tokens.
  \<^item> This theory: an edit that is committed is read from running; a commit reaches the clients
    that wait for it.

  \<^bold>\<open>Conventions.\<close> A Go map is an association list with distinct keys; its order is one order in
  which the code may visit it, and no lookup depends on it. A fallible operation returns a
  sum, \<open>Inl\<close> the error; an operation that fails leaves its receiver as it was, so it returns no
  new state. A panic is \<open>None\<close> where the code can panic; a management request
  whose call blocks for ever on the mutex is \<open>None\<close> too, while a panic there is recovered and answered. A nil pointer or map that the code tells
  apart is \<open>None\<close>. Machine counters are 64-bit words. Recursion on trees ends because values get
  smaller (\<open>size\<close>). Fuel occurs in three places: the cache's eviction loop (\<open>trim\<close>) has the number of
  entries, each iteration removes one, and \<open>trim_rep\<close> shows the loop's exit condition at the end;
  the session loop (\<open>run_loop\<close>) reads at least one byte per round, and the theorem on termination shows
  that one round per byte is enough; \<open>bracket_keys\<close> has the length of its text. Reading authorized
  keys (\<open>load_keys\<close>) depends on a parser outside the repository and is a partial function.

  \<^bold>\<open>Not modelled.\<close> The metric registry and logging
  (\<open>internal/observability\<close>), which no decision depends on; the OpenAPI document and the
  tool manifest written from the capability table; flags, start-up and shutdown in
  \<open>cmd/labnetconf\<close>; the client commands and the web assets. Network and file input and output, the
  SSH, TLS, YAML, MCP and ULID packages stay outside; what the program takes from them is a
  parameter.
\<close>

section \<open>Across components\<close>

text \<open>\<open>Commit\<close> with the notification ring as its sink; \<open>i\<close> is the identifier of the record.\<close>

definition commit_and_notify :: "golib \<Rightarrow> ctx \<Rightarrow> handle \<Rightarrow> notif_sys \<Rightarrow> string \<Rightarrow> goerr + handle \<times> notif_sys" where
  "commit_and_notify E c h s i = (case Commit E c h of
     Inl err \<Rightarrow> Inl err
   | Inr (h', ev) \<Rightarrow>
       Inr (h', case ev of None \<Rightarrow> s | Some (profile, changes) \<Rightarrow> notif_step s (DoCommit i profile changes)))"

lemma Apply_path: "ParsePath E str = Inr p \<Longrightarrow> Apply E (Some n) oper str v = apply_op E n oper p v"
  by (simp add: Apply_def)

lemma edited_node: "apply_op E n oper p v = Inr n' \<Longrightarrow> n' = n\<lparr>n_root := Some (root_map n')\<rparr>"
  unfolding apply_op_def Let_def by (auto split: if_splits sum.splits)

lemma node_Clone_edited:
  assumes "node_ok n" and "n = m\<lparr>n_root := Some (root_map n)\<rparr>"
  shows "node_Clone E n = n"
proof -
  have "n_root n = Some (root_map n)" using assms(2) by (metis node.select_convs(2) node.surjective node.update_convs(2))
  then show ?thesis using clone_map_id [OF assms(1), of E] by (simp add: node_Clone_def)
qed

text \<open>C1: From an edit to a read, through the datastore. A session replaces a value in the candidate
  and commits; if both succeed, looking the path up in running gives the value that was
  written (for a list entry with its keys put in), and the candidate's tree is unchanged by
  the commit.\<close>

theorem edit_commit_read:
  assumes "handle_ok h" and "go_val v" and "ParsePath E str = Inr p" and "\<not> IsRoot p" and "keys_apart (p_segments p)"
    and "p_segments p \<noteq> [] \<Longrightarrow> s_keys (last (p_segments p)) \<noteq> [] \<Longrightarrow> asMap E (clone E v) \<noteq> None"
    and "Edit E c h Candidate \<lparr>eo_op = OpReplace, eo_path = str, eo_value = EVal v\<rparr> = Inr h1"
    and "Commit E c h1 = Inr (h2, ev)"
  shows "lookup E (h_running h2) p = Some (stored E p (clone E v)) \<and> h_candidate h2 = h_candidate h1"
proof -
  from Edit_Inr [OF assms(7)] obtain n where n: "Apply E (Some (h_candidate h)) OpReplace str (EVal v) = Inr n"
      "h1 = h\<lparr>h_candidate := n\<rparr>" by auto
  then have a: "apply_op E (h_candidate h) OpReplace p (EVal v) = Inr n" by (simp add: Apply_path [OF assms(3)])
  have ok: "node_ok (h_candidate h)" using assms(1) by (simp add: handle_ok_def)
  have "node_ok n" using apply_op_safe [OF a ok] assms(2) by (simp add: edit_ok_def)
  from node_Clone_edited [OF this edited_node [OF a]] have "h_running h2 = n" "h_candidate h2 = n"
    using Commit_Inr [OF assms(8)] n(2) by simp_all
  with replace_lookup [OF ok assms(2,4,5,6) a] n(2) show ?thesis by simp
qed

text \<open>C38: From a commit to the waiting client. When a session's commit succeeds on a handle whose
  sink is the notification ring, a client that is blocked waiting for that profile (or for
  any) receives the record of this commit, with exactly the difference from the old running
  tree to the committed one.\<close>

theorem commit_reaches_waiter:
  assumes "s = run_steps notif_step (notif_init cap) ops" and "w \<in> set (r_waiters (ns_ring s))"
    and "w_q w = [] \<or> w_q w = h_profile h" and "h_sink h"
    and "commit_and_notify E c h s i = Inr (h', s')"
  shows "(w_q w, Inr \<lparr>nt_id = i, nt_stream = StreamNETCONF, nt_profile = h_profile h,
      nt_changes = toNotif (Diff E (h_running h) (h_candidate h))\<rparr>)
    \<in> set (ns_done (run_steps notif_step s' [DoSend (w_ch w), DoRecv (w_ch w)]))"
proof -
  from assms(5) obtain ev where ev: "Commit E c h = Inr (h', ev)"
      "s' = (case ev of None \<Rightarrow> s | Some (profile, changes) \<Rightarrow> notif_step s (DoCommit i profile changes))"
    by (auto simp: commit_and_notify_def split: sum.splits prod.splits)
  from Commit_Inr [OF ev(1)] assms(4) have "s' = notif_step s (DoCommit i (h_profile h) (toNotif (Diff E (h_running h) (h_candidate h))))"
    by (simp add: ev(2) del: notif_step.simps)
  moreover have "notif_inv s" unfolding assms(1) by (rule nsys.run_inv [OF notif_init_inv])
  ultimately show ?thesis
    using wake_waiter [OF _ assms(2,3), of i "toNotif (Diff E (h_running h) (h_candidate h))"]
    by (simp add: commit_record_def del: notif_step.simps)
qed

abbreviation lab_handle :: "kvs \<Rightarrow> kvs \<Rightarrow> handle" where
  "lab_handle r cand \<equiv> \<lparr>h_profile = ''lab'', h_running = \<lparr>n_schema = Some mtu_schema, n_root = Some r\<rparr>,
     h_candidate = \<lparr>n_schema = Some mtu_schema, n_root = Some cand\<rparr>,
     h_startup = \<lparr>n_schema = Some mtu_schema, n_root = Some []\<rparr>, h_sink = True, h_gen = 0, h_locks = []\<rparr>"

abbreviation mtu_tree :: kvs where
  "mtu_tree \<equiv> [(''if'', VMap [(''mtu'', VInt KInt64 1500)])]"

lemma lab_edit:
  "Edit E (session ''1'') (lab_handle [] []) Candidate \<lparr>eo_op = OpReplace, eo_path = ''if:mtu'', eo_value = EVal (VInt KInt64 1500)\<rparr>
     = Inr (lab_handle [] mtu_tree)"
  by (simp add: Edit_def denyIfLocked_def Apply_path [OF parse_if_mtu] edit_eval)

lemma lab_valid: "Validate E \<lparr>n_schema = Some mtu_schema, n_root = Some mtu_tree\<rparr> = None"
  by (simp add: Validate_def validateValue.simps validateChildren.simps mtu_eval)

lemma lab_commit:
  "\<exists>ev. Commit E (session ''1'') (lab_handle [] mtu_tree) = Inr ((lab_handle mtu_tree mtu_tree)\<lparr>h_gen := 1\<rparr>, ev)"
  by (simp add: Commit_def denyIfLocked_def lab_valid Let_def node_Clone_def clone_map_eq)

theorem edit_commit_read_witness:
  "lookup (uptime_lib 0) \<lparr>n_schema = Some mtu_schema, n_root = Some mtu_tree\<rparr> (Path ''if'' [Segment ''mtu'' []]) = Some (VInt KInt64 1500)"
proof -
  obtain ev where ev: "Commit (uptime_lib 0) (session ''1'') (lab_handle [] mtu_tree) = Inr ((lab_handle mtu_tree mtu_tree)\<lparr>h_gen := 1\<rparr>, ev)"
    using lab_commit by blast
  from edit_commit_read [OF _ _ parse_if_mtu _ _ _ lab_edit ev] show ?thesis
    by (simp add: handle_ok_def IsRoot_def stored_def)
qed

theorem commit_reaches_waiter_witness:
  "\<exists>s'. ([], Inr \<lparr>nt_id = ''id'', nt_stream = StreamNETCONF, nt_profile = ''lab'',
      nt_changes = toNotif (Diff (uptime_lib 0) (h_running (lab_handle [] mtu_tree)) (h_candidate (lab_handle [] mtu_tree)))\<rparr>)
    \<in> set (ns_done (run_steps notif_step s' [DoSend 0, DoRecv 0]))"
proof -
  let ?s = "run_steps notif_step (notif_init 0) [DoWait None []]"
  obtain ev where ev: "Commit (uptime_lib 0) (session ''1'') (lab_handle [] mtu_tree) = Inr ((lab_handle mtu_tree mtu_tree)\<lparr>h_gen := 1\<rparr>, ev)"
    using lab_commit by blast
  then obtain h' s' where s': "commit_and_notify (uptime_lib 0) (session ''1'') (lab_handle [] mtu_tree) ?s ''id'' = Inr (h', s')"
    by (simp add: commit_and_notify_def)
  have w: "\<lparr>w_q = [], w_ch = 0\<rparr> \<in> set (r_waiters (ns_ring ?s))"
    by (simp add: notif_init_def notif_New_def matchNewest_def Let_def)
  from commit_reaches_waiter [OF refl w _ _ s'] show ?thesis
    by (intro exI [of _ s']) (simp del: notif_step.simps)
qed

end
